(* ===== verification/WebKit_Prelude.thy ===== *)
theory WebKit_Prelude
  imports "HOL-Library.Word"
begin

text \<open>
  Shared vocabulary of the development: UTF-16 code units, the ASCII characters the HTML parser
  compares with, the character classes of \<^verbatim>\<open>JavaScriptCore/wtf/ASCIICType.h\<close>, and generic list
  lemmas used by several components.
\<close>

section \<open>UTF-16 code units\<close>

type_synonym uchar = "16 word"
type_synonym uchar32 = "32 word"
type_synonym ustr = "uchar list"

text \<open>The literal strings of the source, as sequences of code units.\<close>

definition ustr :: "string \<Rightarrow> uchar list" where
  "ustr s = map (\<lambda>c. of_nat (of_char c)) s"

lemma length_ustr [simp]: "length (ustr s) = length s"
  by (simp add: ustr_def)

abbreviation ch_NUL :: uchar where "ch_NUL \<equiv> 0"
abbreviation ch_TAB :: uchar where "ch_TAB \<equiv> 0x09"
abbreviation ch_LF :: uchar where "ch_LF \<equiv> 0x0A"
abbreviation ch_FF :: uchar where "ch_FF \<equiv> 0x0C"
abbreviation ch_CR :: uchar where "ch_CR \<equiv> 0x0D"
abbreviation ch_SP :: uchar where "ch_SP \<equiv> 0x20"
abbreviation ch_BANG :: uchar where "ch_BANG \<equiv> 0x21"
abbreviation ch_QUOT :: uchar where "ch_QUOT \<equiv> 0x22"
abbreviation ch_HASH :: uchar where "ch_HASH \<equiv> 0x23"
abbreviation ch_AMP :: uchar where "ch_AMP \<equiv> 0x26"
abbreviation ch_APOS :: uchar where "ch_APOS \<equiv> 0x27"
abbreviation ch_PLUS :: uchar where "ch_PLUS \<equiv> 0x2B"
abbreviation ch_DASH :: uchar where "ch_DASH \<equiv> 0x2D"
abbreviation ch_DOT :: uchar where "ch_DOT \<equiv> 0x2E"
abbreviation ch_SLASH :: uchar where "ch_SLASH \<equiv> 0x2F"
abbreviation ch_COLON :: uchar where "ch_COLON \<equiv> 0x3A"
abbreviation ch_SEMI :: uchar where "ch_SEMI \<equiv> 0x3B"
abbreviation ch_LT :: uchar where "ch_LT \<equiv> 0x3C"
abbreviation ch_EQ :: uchar where "ch_EQ \<equiv> 0x3D"
abbreviation ch_GT :: uchar where "ch_GT \<equiv> 0x3E"
abbreviation ch_QUESTION :: uchar where "ch_QUESTION \<equiv> 0x3F"
abbreviation ch_LBRACKET :: uchar where "ch_LBRACKET \<equiv> 0x5B"
abbreviation ch_RBRACKET :: uchar where "ch_RBRACKET \<equiv> 0x5D"
abbreviation ch_BACKTICK :: uchar where "ch_BACKTICK \<equiv> 0x60"
abbreviation ch_0 :: uchar where "ch_0 \<equiv> 0x30"
abbreviation ch_9 :: uchar where "ch_9 \<equiv> 0x39"
abbreviation ch_A :: uchar where "ch_A \<equiv> 0x41"
abbreviation ch_D :: uchar where "ch_D \<equiv> 0x44"
abbreviation ch_F :: uchar where "ch_F \<equiv> 0x46"
abbreviation ch_P :: uchar where "ch_P \<equiv> 0x50"
abbreviation ch_S :: uchar where "ch_S \<equiv> 0x53"
abbreviation ch_T :: uchar where "ch_T \<equiv> 0x54"
abbreviation ch_W :: uchar where "ch_W \<equiv> 0x57"
abbreviation ch_X :: uchar where "ch_X \<equiv> 0x58"
abbreviation ch_Z :: uchar where "ch_Z \<equiv> 0x5A"
abbreviation ch_a :: uchar where "ch_a \<equiv> 0x61"
abbreviation ch_d :: uchar where "ch_d \<equiv> 0x64"
abbreviation ch_f :: uchar where "ch_f \<equiv> 0x66"
abbreviation ch_p :: uchar where "ch_p \<equiv> 0x70"
abbreviation ch_s :: uchar where "ch_s \<equiv> 0x73"
abbreviation ch_x :: uchar where "ch_x \<equiv> 0x78"
abbreviation ch_z :: uchar where "ch_z \<equiv> 0x7A"

section \<open>ASCII classes\<close>

definition isASCIIUpper :: "uchar \<Rightarrow> bool" where
  "isASCIIUpper c \<longleftrightarrow> ch_A \<le> c \<and> c \<le> ch_Z"

definition isASCIILower :: "uchar \<Rightarrow> bool" where
  "isASCIILower c \<longleftrightarrow> ch_a \<le> c \<and> c \<le> ch_z"

definition isASCIIDigit :: "uchar \<Rightarrow> bool" where
  "isASCIIDigit c \<longleftrightarrow> ch_0 \<le> c \<and> c \<le> ch_9"

lemma isASCII_zero [simp]:
  "\<not> isASCIIUpper 0" "\<not> isASCIILower 0" "\<not> isASCIIDigit 0"
  by (simp_all add: isASCIIUpper_def isASCIILower_def isASCIIDigit_def)

section \<open>Lists\<close>

lemma drop_Suc_hd: "xs \<noteq> [] \<Longrightarrow> drop n xs = tl xs \<Longrightarrow> n = 1 \<or> length xs \<le> n \<and> length xs = 1"
proof -
  assume "xs \<noteq> []" and eq: "drop n xs = tl xs"
  then have "length (drop n xs) = length (tl xs)" by simp
  then have "length xs - n = length xs - 1" by simp
  moreover have "0 < length xs" using \<open>xs \<noteq> []\<close> by simp
  ultimately show ?thesis by linarith
qed

lemma take_drop_Cons:
  "i < length xs \<Longrightarrow> 0 < n \<Longrightarrow> take n (drop i xs) = xs ! i # take (n - 1) (drop (Suc i) xs)"
  by (cases n) (simp_all flip: Cons_nth_drop_Suc)

text \<open>The lower case of the ASCII letters, which the specifications of case-insensitive comparisons use.\<close>

definition lowerLetter :: "uchar \<Rightarrow> uchar" where
  "lowerLetter c = (if 65 \<le> uint c \<and> uint c \<le> 90 then c + 32 else c)"

end
