(* ===== verification/SegmentedString.thy ===== *)
theory SegmentedString
  imports WebKit_Prelude
begin

text \<open>
  \<^verbatim>\<open>WebCore/platform/text/SegmentedString.{h,cpp}\<close>: the character source the HTML tokenizer reads.
  A segmented string is up to two pushed-back characters, a current substring with a read
  pointer, and a deque of further substrings.  A pointer into a substring's buffer is an offset
  (\<open>None\<close> is the null pointer); \<open>m_currentChar\<close>, which the C++ keeps as a raw pointer to one of
  three places, is the datatype \<open>cursor\<close>.  \<open>chars\<close> is the abstract content, and the locale
  \<open>char_source\<close> is the contract the entity parser and the tokenizer rely on.
\<close>

section \<open>State\<close>

record substring =
  m_length :: nat
  m_current :: "nat option"
  m_string :: "uchar list"
  m_doNotExcludeLineNumbers :: bool

datatype cursor = NullPtr | AtPushed1 | AtPushed2 | AtString nat

record sstring =
  m_pushedChar1 :: uchar
  m_pushedChar2 :: uchar
  m_currentString :: substring
  m_currentChar :: cursor
  m_numberOfCharactersConsumedPriorToCurrentString :: int
  m_substrings :: "substring list"
  m_composite :: bool
  m_closed :: bool

datatype LookAheadResult = DidNotMatch | DidMatch | NotEnoughCharacters

section \<open>SegmentedSubstring\<close>

definition emptySubstring :: substring where
  "emptySubstring = \<lparr>m_length = 0, m_current = None, m_string = [],
     m_doNotExcludeLineNumbers = True\<rparr>"

definition mkSubstring :: "uchar list \<Rightarrow> substring" where
  "mkSubstring str = \<lparr>m_length = length str, m_current = (if str = [] then None else Some 0),
     m_string = str, m_doNotExcludeLineNumbers = True\<rparr>"

definition sub_clear :: "substring \<Rightarrow> substring" where
  "sub_clear u = u\<lparr>m_length := 0, m_current := None\<rparr>"

definition sub_setExcludeLineNumbers :: "substring \<Rightarrow> substring" where
  "sub_setExcludeLineNumbers u = u\<lparr>m_doNotExcludeLineNumbers := False\<rparr>"

definition sub_numberOfCharactersConsumed :: "substring \<Rightarrow> int" where
  "sub_numberOfCharactersConsumed u = int (length (m_string u)) - int (m_length u)"

definition sub_appendTo :: "substring \<Rightarrow> uchar list \<Rightarrow> uchar list" where
  "sub_appendTo u str =
     (case m_current u of
        Some 0 \<Rightarrow> (if str = [] then m_string u else str @ m_string u)
      | Some i \<Rightarrow> str @ take (m_length u) (drop i (m_string u))
      | None \<Rightarrow> str @ take (m_length u) [])"

text \<open>The character the substring's read pointer is at (\<open>*m_currentString.m_current\<close>).\<close>

definition sub_deref :: "substring \<Rightarrow> uchar" where
  "sub_deref u = (case m_current u of None \<Rightarrow> 0 | Some i \<Rightarrow> m_string u ! i)"

section \<open>SegmentedString\<close>

definition emptySString :: sstring where
  "emptySString = \<lparr>m_pushedChar1 = 0, m_pushedChar2 = 0, m_currentString = emptySubstring,
     m_currentChar = NullPtr, m_numberOfCharactersConsumedPriorToCurrentString = 0,
     m_substrings = [], m_composite = False, m_closed = False\<rparr>"

text \<open>\<open>m_currentString.m_current\<close> read as a value of \<open>m_currentChar\<close>.\<close>

definition stringCursor :: "sstring \<Rightarrow> cursor" where
  "stringCursor s = (case m_current (m_currentString s) of None \<Rightarrow> NullPtr | Some i \<Rightarrow> AtString i)"

text \<open>\<open>m_currentChar = m_pushedChar1 ? &m_pushedChar1 : m_currentString.m_current\<close>\<close>

definition resetCurrentChar :: "sstring \<Rightarrow> sstring" where
  "resetCurrentChar s =
     s\<lparr>m_currentChar := if m_pushedChar1 s \<noteq> 0 then AtPushed1 else stringCursor s\<rparr>"

definition mkSString :: "uchar list \<Rightarrow> sstring" where
  "mkSString str =
     (let u = mkSubstring str in
      \<lparr>m_pushedChar1 = 0, m_pushedChar2 = 0, m_currentString = u,
       m_currentChar = (case m_current u of None \<Rightarrow> NullPtr | Some i \<Rightarrow> AtString i),
       m_numberOfCharactersConsumedPriorToCurrentString = 0,
       m_substrings = [], m_composite = False, m_closed = False\<rparr>)"

text \<open>
  The copy constructor's initialiser list leaves out
  \<open>m_numberOfCharactersConsumedPriorToCurrentString\<close>; the value found in the uninitialised
  member is the argument \<open>garbage\<close>.
\<close>

definition copySString :: "int \<Rightarrow> sstring \<Rightarrow> sstring" where
  "copySString garbage other =
     \<lparr>m_pushedChar1 = m_pushedChar1 other, m_pushedChar2 = m_pushedChar2 other,
      m_currentString = m_currentString other, m_currentChar = m_currentChar other,
      m_numberOfCharactersConsumedPriorToCurrentString = garbage,
      m_substrings = m_substrings other, m_composite = m_composite other,
      m_closed = m_closed other\<rparr>"

definition assignSString :: "sstring \<Rightarrow> sstring \<Rightarrow> sstring" where
  "assignSString self other =
     self\<lparr>m_pushedChar1 := m_pushedChar1 other, m_pushedChar2 := m_pushedChar2 other,
      m_currentString := m_currentString other, m_substrings := m_substrings other,
      m_composite := m_composite other, m_currentChar := m_currentChar other,
      m_closed := m_closed other,
      m_numberOfCharactersConsumedPriorToCurrentString :=
        m_numberOfCharactersConsumedPriorToCurrentString other\<rparr>"

definition sstring_length :: "sstring \<Rightarrow> nat" where
  "sstring_length s =
     (let n = m_length (m_currentString s);
          n = (if m_pushedChar1 s \<noteq> 0
               then (if m_pushedChar2 s \<noteq> 0 then n + 1 + 1 else n + 1) else n)
      in if m_composite s then foldl (\<lambda>n u. n + m_length u) n (m_substrings s) else n)"

definition setExcludeLineNumbers :: "sstring \<Rightarrow> sstring" where
  "setExcludeLineNumbers s =
     (if m_composite s
      then s\<lparr>m_substrings := map sub_setExcludeLineNumbers (m_substrings s)\<rparr>
      else s\<lparr>m_currentString := sub_setExcludeLineNumbers (m_currentString s)\<rparr>)"

definition sstring_clear :: "sstring \<Rightarrow> sstring" where
  "sstring_clear s = s\<lparr>m_pushedChar1 := 0, m_pushedChar2 := 0, m_currentChar := NullPtr,
     m_currentString := sub_clear (m_currentString s), m_substrings := [],
     m_composite := False, m_closed := False\<rparr>"

definition append_sub :: "sstring \<Rightarrow> substring \<Rightarrow> sstring" where
  "append_sub s u =
     (if m_length u \<noteq> 0 then
        if m_length (m_currentString s) = 0 then
          s\<lparr>m_numberOfCharactersConsumedPriorToCurrentString :=
               m_numberOfCharactersConsumedPriorToCurrentString s
               + sub_numberOfCharactersConsumed (m_currentString s),
             m_currentString := u\<rparr>
        else s\<lparr>m_substrings := m_substrings s @ [u], m_composite := True\<rparr>
      else s)"

definition prepend_sub :: "sstring \<Rightarrow> substring \<Rightarrow> sstring" where
  "prepend_sub s u =
     (if m_length u \<noteq> 0 then
        let s = s\<lparr>m_numberOfCharactersConsumedPriorToCurrentString :=
                   m_numberOfCharactersConsumedPriorToCurrentString s
                   + sub_numberOfCharactersConsumed (m_currentString s) - int (m_length u)\<rparr>
        in if m_length (m_currentString s) = 0 then s\<lparr>m_currentString := u\<rparr>
           else s\<lparr>m_substrings := m_currentString s # m_substrings s,
                  m_currentString := u, m_composite := True\<rparr>
      else s)"

definition close :: "sstring \<Rightarrow> sstring" where
  "close s = s\<lparr>m_closed := True\<rparr>"

definition append_sstring :: "sstring \<Rightarrow> sstring \<Rightarrow> sstring" where
  "append_sstring self s =
     (let self = append_sub self (m_currentString s);
          self = (if m_composite s then foldl append_sub self (m_substrings s) else self)
      in resetCurrentChar self)"

definition prepend :: "sstring \<Rightarrow> sstring \<Rightarrow> sstring" where
  "prepend self s =
     (let self = (if m_composite s then foldl prepend_sub self (rev (m_substrings s)) else self);
          self = prepend_sub self (m_currentString s)
      in resetCurrentChar self)"

definition push :: "uchar \<Rightarrow> sstring \<Rightarrow> sstring" where
  "push c s =
     (if m_pushedChar1 s = 0 then resetCurrentChar (s\<lparr>m_pushedChar1 := c\<rparr>)
      else s\<lparr>m_pushedChar2 := c\<rparr>)"

definition isEmpty :: "sstring \<Rightarrow> bool" where
  "isEmpty s \<longleftrightarrow> m_currentChar s = NullPtr"

definition isClosed :: "sstring \<Rightarrow> bool" where
  "isClosed s = m_closed s"

text \<open>\<open>*source\<close>; the C++ dereferences a null pointer where the string is empty.\<close>

definition current :: "sstring \<Rightarrow> uchar" where
  "current s =
     (case m_currentChar s of
        NullPtr \<Rightarrow> 0
      | AtPushed1 \<Rightarrow> m_pushedChar1 s
      | AtPushed2 \<Rightarrow> m_pushedChar2 s
      | AtString i \<Rightarrow> m_string (m_currentString s) ! i)"

definition numberOfCharactersConsumed :: "sstring \<Rightarrow> int" where
  "numberOfCharactersConsumed s =
     m_numberOfCharactersConsumedPriorToCurrentString s
     + sub_numberOfCharactersConsumed (m_currentString s)"

definition advanceSubstring :: "sstring \<Rightarrow> sstring" where
  "advanceSubstring s =
     (if m_composite s then
        (case m_substrings s of
           [] \<Rightarrow> s
         | u # us \<Rightarrow>
             s\<lparr>m_numberOfCharactersConsumedPriorToCurrentString :=
                  m_numberOfCharactersConsumedPriorToCurrentString s
                  + sub_numberOfCharactersConsumed (m_currentString s)
                  - sub_numberOfCharactersConsumed u,
                m_currentString := u, m_substrings := us,
                m_composite := (if us = [] then False else m_composite s)\<rparr>)
      else s\<lparr>m_currentString := sub_clear (m_currentString s)\<rparr>)"

text \<open>\<open>--m_length; ++m_current\<close>\<close>

definition sub_step :: "substring \<Rightarrow> substring" where
  "sub_step u = u\<lparr>m_length := m_length u - 1, m_current := map_option Suc (m_current u)\<rparr>"

definition advanceSlowCase :: "sstring \<Rightarrow> sstring" where
  "advanceSlowCase s =
     resetCurrentChar
       (if m_pushedChar1 s \<noteq> 0 then s\<lparr>m_pushedChar1 := m_pushedChar2 s, m_pushedChar2 := 0\<rparr>
        else if m_current (m_currentString s) \<noteq> None then
          let s = s\<lparr>m_currentString := sub_step (m_currentString s)\<rparr>
          in if m_length (m_currentString s) = 0 then advanceSubstring s else s
        else s)"

text \<open>The overload that counts lines returns the new line number beside the string.\<close>

definition advanceSlowCase_line :: "sstring \<Rightarrow> int \<Rightarrow> sstring \<times> int" where
  "advanceSlowCase_line s lineNumber =
     (let u = m_currentString s in
      if m_pushedChar1 s \<noteq> 0 then
        (resetCurrentChar (s\<lparr>m_pushedChar1 := m_pushedChar2 s, m_pushedChar2 := 0\<rparr>), lineNumber)
      else if m_current u \<noteq> None then
        let lineNumber = (if sub_deref u = ch_LF \<and> m_doNotExcludeLineNumbers u
                          then lineNumber + 1 else lineNumber);
            s = s\<lparr>m_currentString := sub_step u\<rparr>
        in (resetCurrentChar
              (if m_length (m_currentString s) = 0 then advanceSubstring s else s), lineNumber)
      else (resetCurrentChar s, lineNumber))"

text \<open>
  The fast path shared by the four inline \<open>advance\<close> functions:
  \<open>--m_currentString.m_length; m_currentChar = ++m_currentString.m_current\<close>.
\<close>

definition advanceFast :: "sstring \<Rightarrow> sstring" where
  "advanceFast s =
     (let s = s\<lparr>m_currentString := sub_step (m_currentString s)\<rparr>
      in s\<lparr>m_currentChar := stringCursor s\<rparr>)"

definition fastPath :: "sstring \<Rightarrow> bool" where
  "fastPath s \<longleftrightarrow> m_pushedChar1 s = 0 \<and> 1 < m_length (m_currentString s)"

definition advance :: "sstring \<Rightarrow> sstring" where
  "advance s = (if fastPath s then advanceFast s else advanceSlowCase s)"

definition advancePastNewline :: "sstring \<Rightarrow> int \<Rightarrow> sstring \<times> int" where
  "advancePastNewline s lineNumber =
     (if fastPath s
      then (advanceFast s, lineNumber + of_bool (m_doNotExcludeLineNumbers (m_currentString s)))
      else advanceSlowCase_line s lineNumber)"

definition advancePastNonNewline :: "sstring \<Rightarrow> sstring" where
  "advancePastNonNewline s = (if fastPath s then advanceFast s else advanceSlowCase s)"

definition advance_line :: "sstring \<Rightarrow> int \<Rightarrow> sstring \<times> int" where
  "advance_line s lineNumber =
     (if fastPath s
      then (advanceFast s,
            lineNumber + of_bool (sub_deref (m_currentString s) = ch_LF
                                  \<and> m_doNotExcludeLineNumbers (m_currentString s)))
      else advanceSlowCase_line s lineNumber)"

text \<open>\<open>advance(count, consumedCharacters)\<close>: the buffer it fills and the string it leaves.\<close>

fun advance_count :: "nat \<Rightarrow> sstring \<Rightarrow> uchar list \<times> sstring" where
  "advance_count 0 s = ([], s)"
| "advance_count (Suc n) s =
     (let (cs, s') = advance_count n (advance s) in (current s # cs, s'))"

definition escaped :: "sstring \<Rightarrow> bool" where
  "escaped s \<longleftrightarrow> m_pushedChar1 s \<noteq> 0"

definition toString :: "sstring \<Rightarrow> uchar list" where
  "toString s =
     (let result = (if m_pushedChar1 s \<noteq> 0
                    then (if m_pushedChar2 s \<noteq> 0 then [m_pushedChar1 s, m_pushedChar2 s]
                          else [m_pushedChar1 s]) else []);
          result = sub_appendTo (m_currentString s) result
      in if m_composite s then foldl (\<lambda>r u. sub_appendTo u r) result (m_substrings s)
         else result)"

text \<open>
  The two comparisons \<open>lookAheadInline\<close> is instantiated with.  \<open>umemcasecmp\<close> folds both sides with
  the platform's \<open>foldCase\<close>, a parameter.
\<close>

definition equalsLiterally :: "uchar list \<Rightarrow> uchar list \<Rightarrow> bool" where
  "equalsLiterally str1 str2 \<longleftrightarrow> str1 = str2"

definition equalsIgnoringCase :: "(uchar \<Rightarrow> uchar) \<Rightarrow> uchar list \<Rightarrow> uchar list \<Rightarrow> bool" where
  "equalsIgnoringCase foldCase str1 str2 \<longleftrightarrow> map foldCase str1 = map foldCase str2"

definition lookAheadSlowCase ::
  "(uchar list \<Rightarrow> uchar list \<Rightarrow> bool) \<Rightarrow> sstring \<Rightarrow> uchar list \<Rightarrow> LookAheadResult \<times> sstring" where
  "lookAheadSlowCase equals s str =
     (if length str > sstring_length s then (NotEnoughCharacters, s)
      else let (consumed, s') = advance_count (length str) s;
               result = (if equals str consumed then DidMatch else DidNotMatch)
           in (result, prepend s' (mkSString consumed)))"

definition lookAheadInline ::
  "(uchar list \<Rightarrow> uchar list \<Rightarrow> bool) \<Rightarrow> sstring \<Rightarrow> uchar list \<Rightarrow> LookAheadResult \<times> sstring" where
  "lookAheadInline equals s str =
     (let u = m_currentString s in
      if m_pushedChar1 s = 0 \<and> length str \<le> m_length u then
        if equals str (take (length str) (drop (case m_current u of None \<Rightarrow> 0 | Some i \<Rightarrow> i) (m_string u)))
        then (DidMatch, s) else (DidNotMatch, s)
      else lookAheadSlowCase equals s str)"

definition lookAhead :: "sstring \<Rightarrow> uchar list \<Rightarrow> LookAheadResult \<times> sstring" where
  "lookAhead s str = lookAheadInline equalsLiterally s str"

definition lookAheadIgnoringCase ::
  "(uchar \<Rightarrow> uchar) \<Rightarrow> sstring \<Rightarrow> uchar list \<Rightarrow> LookAheadResult \<times> sstring" where
  "lookAheadIgnoringCase foldCase s str = lookAheadInline (equalsIgnoringCase foldCase) s str"

section \<open>Abstraction and invariant\<close>

definition sub_chars :: "substring \<Rightarrow> uchar list" where
  "sub_chars u = (case m_current u of None \<Rightarrow> []
                  | Some i \<Rightarrow> take (m_length u) (drop i (m_string u)))"

definition sub_ok :: "substring \<Rightarrow> bool" where
  "sub_ok u \<longleftrightarrow> (case m_current u of None \<Rightarrow> m_length u = 0
                  | Some i \<Rightarrow> 0 < m_length u \<and> i + m_length u = length (m_string u))"

definition pushedChars :: "sstring \<Rightarrow> uchar list" where
  "pushedChars s = (if m_pushedChar1 s = 0 then []
                    else if m_pushedChar2 s = 0 then [m_pushedChar1 s]
                    else [m_pushedChar1 s, m_pushedChar2 s])"

definition chars :: "sstring \<Rightarrow> uchar list" where
  "chars s = pushedChars s @ sub_chars (m_currentString s)
             @ concat (map sub_chars (m_substrings s))"

definition sstring_ok :: "sstring \<Rightarrow> bool" where
  "sstring_ok s \<longleftrightarrow>
     sub_ok (m_currentString s)
     \<and> (\<forall>u \<in> set (m_substrings s). sub_ok u \<and> 0 < m_length u)
     \<and> (m_composite s \<longleftrightarrow> m_substrings s \<noteq> [])
     \<and> (m_substrings s \<noteq> [] \<longrightarrow> 0 < m_length (m_currentString s))
     \<and> (m_pushedChar1 s = 0 \<longrightarrow> m_pushedChar2 s = 0)
     \<and> m_currentChar s = (if m_pushedChar1 s \<noteq> 0 then AtPushed1 else stringCursor s)"

lemma length_pushedChars: "length (pushedChars s) \<le> 2"
  by (simp add: pushedChars_def)

lemma pushedChars_Nil_iff: "pushedChars s = [] \<longleftrightarrow> m_pushedChar1 s = 0"
  by (simp add: pushedChars_def)

lemma length_sub_chars: "sub_ok u \<Longrightarrow> length (sub_chars u) = m_length u"
  by (auto simp: sub_ok_def sub_chars_def split: option.splits)

lemma sub_chars_Nil_iff: "sub_ok u \<Longrightarrow> sub_chars u = [] \<longleftrightarrow> m_length u = 0"
  by (metis length_0_conv length_sub_chars)

lemma sub_ok_None_iff: "sub_ok u \<Longrightarrow> m_current u = None \<longleftrightarrow> m_length u = 0"
  by (auto simp: sub_ok_def split: option.splits)

lemma sub_chars_mkSubstring [simp]: "sub_chars (mkSubstring str) = str"
  by (simp add: sub_chars_def mkSubstring_def)

lemma sub_ok_mkSubstring [simp]: "sub_ok (mkSubstring str)"
  by (simp add: sub_ok_def mkSubstring_def)

lemma sub_ok_clear [simp]: "sub_ok (sub_clear u)" "sub_chars (sub_clear u) = []"
  by (simp_all add: sub_ok_def sub_clear_def sub_chars_def)

lemma sub_clear_consumed:
  "sub_numberOfCharactersConsumed (sub_clear u) = int (length (m_string u))"
  by (simp add: sub_numberOfCharactersConsumed_def sub_clear_def)

lemma sub_consumed_exhausted:
  "m_length u = 0 \<Longrightarrow> sub_numberOfCharactersConsumed u = int (length (m_string u))"
  by (simp add: sub_numberOfCharactersConsumed_def)

lemma sub_step_chars:
  "sub_ok u \<Longrightarrow> m_current u \<noteq> None \<Longrightarrow> sub_chars u = sub_deref u # sub_chars (sub_step u)"
  by (auto simp: sub_ok_def sub_chars_def sub_step_def sub_deref_def take_drop_Cons)

lemma sub_step_ok:
  "sub_ok u \<Longrightarrow> 1 < m_length u \<Longrightarrow> sub_ok (sub_step u)"
  by (auto simp: sub_ok_def sub_step_def split: option.splits)

lemma sub_step_length [simp]: "m_length (sub_step u) = m_length u - 1"
  by (simp add: sub_step_def)

lemma sub_step_consumed:
  "0 < m_length u \<Longrightarrow>
   sub_numberOfCharactersConsumed (sub_step u) = sub_numberOfCharactersConsumed u + 1"
  by (simp add: sub_numberOfCharactersConsumed_def sub_step_def of_nat_diff)

lemma resetCurrentChar_simps [simp]:
  "m_pushedChar1 (resetCurrentChar s) = m_pushedChar1 s"
  "m_pushedChar2 (resetCurrentChar s) = m_pushedChar2 s"
  "m_currentString (resetCurrentChar s) = m_currentString s"
  "m_substrings (resetCurrentChar s) = m_substrings s"
  "m_composite (resetCurrentChar s) = m_composite s"
  "m_closed (resetCurrentChar s) = m_closed s"
  "m_numberOfCharactersConsumedPriorToCurrentString (resetCurrentChar s)
     = m_numberOfCharactersConsumedPriorToCurrentString s"
  "chars (resetCurrentChar s) = chars s"
  "pushedChars (resetCurrentChar s) = pushedChars s"
  "numberOfCharactersConsumed (resetCurrentChar s) = numberOfCharactersConsumed s"
  by (simp_all add: resetCurrentChar_def chars_def pushedChars_def numberOfCharactersConsumed_def)

text \<open>Well-formedness without the cached read pointer, which \<open>resetCurrentChar\<close> restores.\<close>

definition sstring_ok_body :: "sstring \<Rightarrow> bool" where
  "sstring_ok_body s \<longleftrightarrow>
     sub_ok (m_currentString s)
     \<and> (\<forall>u \<in> set (m_substrings s). sub_ok u \<and> 0 < m_length u)
     \<and> (m_composite s \<longleftrightarrow> m_substrings s \<noteq> [])
     \<and> (m_substrings s \<noteq> [] \<longrightarrow> 0 < m_length (m_currentString s))
     \<and> (m_pushedChar1 s = 0 \<longrightarrow> m_pushedChar2 s = 0)"

lemma sstring_ok_body: "sstring_ok s \<Longrightarrow> sstring_ok_body s"
  by (simp add: sstring_ok_def sstring_ok_body_def)

lemma sstring_ok_reset: "sstring_ok_body s \<Longrightarrow> sstring_ok (resetCurrentChar s)"
  by (simp add: sstring_ok_def sstring_ok_body_def)
     (simp add: resetCurrentChar_def stringCursor_def)

section \<open>Reading\<close>

lemma stringCursor_NullPtr_iff: "stringCursor s = NullPtr \<longleftrightarrow> m_current (m_currentString s) = None"
  by (simp add: stringCursor_def split: option.splits)

lemma isEmpty_iff: "sstring_ok s \<Longrightarrow> isEmpty s \<longleftrightarrow> chars s = []"
  by (auto simp: sstring_ok_def isEmpty_def chars_def pushedChars_Nil_iff stringCursor_NullPtr_iff
      sub_chars_Nil_iff sub_ok_None_iff)

lemma current_hd: "sstring_ok s \<Longrightarrow> chars s \<noteq> [] \<Longrightarrow> current s = hd (chars s)"
  by (auto simp: sstring_ok_def current_def chars_def pushedChars_def stringCursor_def
      sub_ok_def sub_chars_def take_drop_Cons split: option.splits)

lemma foldl_lengths: "foldl (\<lambda>n u. n + m_length u) n us = n + sum_list (map m_length us)"
  by (induction us arbitrary: n) (simp_all add: add.assoc)

lemma sstring_length_chars: "sstring_ok s \<Longrightarrow> sstring_length s = length (chars s)"
proof -
  assume ok: "sstring_ok s"
  then have subs: "\<forall>u \<in> set (m_substrings s). sub_ok u" by (simp add: sstring_ok_def)
  then have "length (concat (map sub_chars (m_substrings s)))
             = sum_list (map m_length (m_substrings s))"
    by (induction "m_substrings s") (simp_all add: length_concat length_sub_chars o_def cong: map_cong)
  then show ?thesis
    using ok by (auto simp: sstring_ok_def sstring_length_def chars_def pushedChars_def
        length_sub_chars foldl_lengths)
qed

lemma sub_appendTo_chars: "sub_ok u \<Longrightarrow> sub_appendTo u str = str @ sub_chars u"
  by (auto simp: sub_ok_def sub_appendTo_def sub_chars_def split: option.splits nat.splits)

lemma foldl_appendTo:
  "\<forall>u \<in> set us. sub_ok u \<Longrightarrow> foldl (\<lambda>r u. sub_appendTo u r) str us = str @ concat (map sub_chars us)"
  by (induction us arbitrary: str) (simp_all add: sub_appendTo_chars)

lemma toString_chars: "sstring_ok s \<Longrightarrow> toString s = chars s"
  by (auto simp: sstring_ok_def toString_def chars_def pushedChars_def foldl_appendTo
      sub_appendTo_chars Let_def)

section \<open>Advancing\<close>

lemma advanceSlowCase_line_fst: "fst (advanceSlowCase_line s l) = advanceSlowCase s"
  by (simp add: advanceSlowCase_line_def advanceSlowCase_def Let_def)

lemma advance_line_fst [simp]: "fst (advance_line s l) = advance s"
  by (simp add: advance_line_def advance_def advanceSlowCase_line_fst)

lemma advancePastNewline_fst [simp]: "fst (advancePastNewline s l) = advance s"
  by (simp add: advancePastNewline_def advance_def advanceSlowCase_line_fst)

lemma advancePastNonNewline_eq [simp]: "advancePastNonNewline s = advance s"
  by (simp add: advancePastNonNewline_def advance_def)

lemma advanceFast_ok:
  assumes "sstring_ok s" "fastPath s"
  shows "sstring_ok (advanceFast s)" "chars (advanceFast s) = tl (chars s)"
    "pushedChars (advanceFast s) = []"
    "numberOfCharactersConsumed (advanceFast s) = numberOfCharactersConsumed s + 1"
proof -
  let ?u = "m_currentString s"
  from assms have u: "sub_ok ?u" "1 < m_length ?u" "m_pushedChar1 s = 0"
    by (auto simp: sstring_ok_def fastPath_def)
  then have "m_current ?u \<noteq> None" by (auto simp: sub_ok_None_iff)
  with u have "sub_chars ?u = sub_deref ?u # sub_chars (sub_step ?u)" by (simp add: sub_step_chars)
  then show "chars (advanceFast s) = tl (chars s)"
    using u by (simp add: advanceFast_def Let_def chars_def pushedChars_def)
  show "sstring_ok (advanceFast s)"
    using assms u sub_step_ok [OF u(1,2)]
    by (simp add: sstring_ok_def advanceFast_def Let_def stringCursor_def)
  show "pushedChars (advanceFast s) = []"
    using u by (simp add: advanceFast_def Let_def pushedChars_def)
  show "numberOfCharactersConsumed (advanceFast s) = numberOfCharactersConsumed s + 1"
    using u by (simp add: advanceFast_def Let_def numberOfCharactersConsumed_def sub_step_consumed)
qed

lemma advanceSubstring_ok:
  assumes ok: "\<forall>u \<in> set (m_substrings s). sub_ok u \<and> 0 < m_length u"
    and comp: "m_composite s \<longleftrightarrow> m_substrings s \<noteq> []"
    and p: "m_pushedChar1 s = 0" "m_pushedChar2 s = 0" and l: "m_length (m_currentString s) = 0"
  shows "sstring_ok_body (advanceSubstring s)"
    "chars (advanceSubstring s) = concat (map sub_chars (m_substrings s))"
    "pushedChars (advanceSubstring s) = []"
    "numberOfCharactersConsumed (advanceSubstring s) = numberOfCharactersConsumed s"
  using assms
  by (auto simp: advanceSubstring_def sstring_ok_body_def chars_def pushedChars_def
      numberOfCharactersConsumed_def sub_clear_consumed sub_consumed_exhausted
      split: list.splits)

lemma advanceSlowCase_pushed:
  assumes ok: "sstring_ok s" and p: "m_pushedChar1 s \<noteq> 0"
  shows "sstring_ok (advanceSlowCase s)" "chars (advanceSlowCase s) = tl (chars s)"
    "pushedChars (advanceSlowCase s) = tl (pushedChars s)"
    "numberOfCharactersConsumed (advanceSlowCase s) = numberOfCharactersConsumed s"
proof -
  let ?t = "s\<lparr>m_pushedChar1 := m_pushedChar2 s, m_pushedChar2 := 0\<rparr>"
  have eq: "advanceSlowCase s = resetCurrentChar ?t" using p by (simp add: advanceSlowCase_def)
  have "sstring_ok_body ?t" using sstring_ok_body [OF ok] by (simp add: sstring_ok_body_def)
  then show "sstring_ok (advanceSlowCase s)" unfolding eq by (rule sstring_ok_reset)
  show "chars (advanceSlowCase s) = tl (chars s)" unfolding eq
    using p by (simp add: chars_def pushedChars_def)
  show "pushedChars (advanceSlowCase s) = tl (pushedChars s)" unfolding eq
    using p by (simp add: pushedChars_def)
  show "numberOfCharactersConsumed (advanceSlowCase s) = numberOfCharactersConsumed s"
    unfolding eq by (simp add: numberOfCharactersConsumed_def)
qed

lemma advanceSlowCase_string:
  assumes ok: "sstring_ok s" and p: "m_pushedChar1 s = 0" and ne: "chars s \<noteq> []"
    and slow: "\<not> fastPath s"
  shows "sstring_ok (advanceSlowCase s)" "chars (advanceSlowCase s) = tl (chars s)"
    "pushedChars (advanceSlowCase s) = []"
    "numberOfCharactersConsumed (advanceSlowCase s) = numberOfCharactersConsumed s + 1"
proof -
  let ?u = "m_currentString s" and ?t = "s\<lparr>m_currentString := sub_step (m_currentString s)\<rparr>"
  have parts: "sub_ok ?u" "\<forall>u \<in> set (m_substrings s). sub_ok u \<and> 0 < m_length u"
    "m_composite s \<longleftrightarrow> m_substrings s \<noteq> []" "m_substrings s \<noteq> [] \<longrightarrow> 0 < m_length ?u"
    "m_pushedChar2 s = 0"
    using ok p by (auto simp: sstring_ok_def)
  have one: "m_length ?u = 1"
  proof -
    have "m_length ?u \<noteq> 0"
    proof
      assume 0: "m_length ?u = 0"
      then have "sub_chars ?u = []" and "m_substrings s = []"
        using parts by (simp_all add: sub_chars_Nil_iff)
      then show False using ne p by (simp add: chars_def pushedChars_def)
    qed
    then show ?thesis using slow p by (simp add: fastPath_def)
  qed
  then have cur: "m_current ?u \<noteq> None" using parts by (auto simp: sub_ok_None_iff)
  have eq: "advanceSlowCase s = resetCurrentChar (advanceSubstring ?t)"
    using p cur one by (simp add: advanceSlowCase_def Let_def)
  have sub: "sub_chars ?u = [sub_deref ?u]"
  proof -
    have "length (sub_chars ?u) = 1" using one parts(1) by (simp add: length_sub_chars)
    then show ?thesis using sub_step_chars [OF parts(1) cur]
      by (metis One_nat_def length_0_conv length_Cons old.nat.inject)
  qed
  note t = advanceSubstring_ok [of ?t]
  have prem: "\<forall>u \<in> set (m_substrings ?t). sub_ok u \<and> 0 < m_length u"
    "m_composite ?t \<longleftrightarrow> m_substrings ?t \<noteq> []" "m_pushedChar1 ?t = 0" "m_pushedChar2 ?t = 0"
    "m_length (m_currentString ?t) = 0"
    using parts p one by simp_all
  show "sstring_ok (advanceSlowCase s)" unfolding eq using t(1) [OF prem] by (rule sstring_ok_reset)
  have "chars s = sub_deref ?u # concat (map sub_chars (m_substrings s))"
    using p sub by (simp add: chars_def pushedChars_def)
  then show "chars (advanceSlowCase s) = tl (chars s)"
    unfolding eq using t(2) [OF prem] by simp
  show "pushedChars (advanceSlowCase s) = []" unfolding eq using t(3) [OF prem] by simp
  show "numberOfCharactersConsumed (advanceSlowCase s) = numberOfCharactersConsumed s + 1"
    unfolding eq using t(4) [OF prem] one
    by (simp add: numberOfCharactersConsumed_def sub_step_consumed)
qed

lemma advance_facts:
  assumes ok: "sstring_ok s" and ne: "chars s \<noteq> []"
  shows advance_ok: "sstring_ok (advance s)"
    and chars_advance: "chars (advance s) = tl (chars s)"
    and pushedChars_advance: "pushedChars (advance s) = tl (pushedChars s)"
    and consumed_advance: "numberOfCharactersConsumed (advance s)
          = numberOfCharactersConsumed s + (if pushedChars s = [] then 1 else 0)"
  using advanceFast_ok [OF ok] advanceSlowCase_pushed [OF ok] advanceSlowCase_string [OF ok _ ne]
  by (cases "fastPath s"; cases "m_pushedChar1 s = 0";
      simp add: advance_def pushedChars_Nil_iff fastPath_def pushedChars_def)+

lemma m_closed_advance [simp]: "m_closed (advance s) = m_closed s"
  by (simp add: advance_def advanceFast_def advanceSlowCase_def Let_def advanceSubstring_def
      split: list.splits)

section \<open>Pushing back, prepending, appending\<close>

lemma push_facts:
  assumes ok: "sstring_ok s" and c: "c \<noteq> 0" and room: "length (pushedChars s) < 2"
  shows push_ok: "sstring_ok (push c s)"
    and chars_push: "chars (push c s) = pushedChars s @ c # drop (length (pushedChars s)) (chars s)"
    and pushedChars_push: "pushedChars (push c s) = pushedChars s @ [c]"
    and consumed_push: "numberOfCharactersConsumed (push c s) = numberOfCharactersConsumed s"
proof -
  have body: "sstring_ok_body (s\<lparr>m_pushedChar1 := c\<rparr>)" if "m_pushedChar1 s = 0"
    using sstring_ok_body [OF ok] that c by (simp add: sstring_ok_body_def)
  show "sstring_ok (push c s)"
  proof (cases "m_pushedChar1 s = 0")
    case True
    then show ?thesis using sstring_ok_reset [OF body] by (simp add: push_def)
  next
    case False
    then show ?thesis using ok by (simp add: push_def sstring_ok_def stringCursor_def)
  qed
  have p2: "m_pushedChar1 s = 0 \<Longrightarrow> m_pushedChar2 s = 0" using ok by (simp add: sstring_ok_def)
  show pc: "pushedChars (push c s) = pushedChars s @ [c]"
    using c room p2 by (auto simp: push_def pushedChars_def split: if_splits)
  show "chars (push c s) = pushedChars s @ c # drop (length (pushedChars s)) (chars s)"
    unfolding chars_def pc by (simp add: push_def)
  show "numberOfCharactersConsumed (push c s) = numberOfCharactersConsumed s"
    by (simp add: push_def numberOfCharactersConsumed_def)
qed

lemma prepend_mkSString_facts:
  assumes ok: "sstring_ok s" and p: "pushedChars s = []"
  shows prepend_ok: "sstring_ok (prepend s (mkSString xs))"
    and chars_prepend: "chars (prepend s (mkSString xs)) = xs @ chars s"
    and pushedChars_prepend: "pushedChars (prepend s (mkSString xs)) = []"
    and consumed_prepend: "numberOfCharactersConsumed (prepend s (mkSString xs))
          = numberOfCharactersConsumed s - int (length xs)"
proof -
  let ?r = "prepend_sub s (mkSubstring xs)"
  have eq: "prepend s (mkSString xs) = resetCurrentChar ?r"
    by (simp add: prepend_def mkSString_def Let_def)
  have p1: "m_pushedChar1 s = 0" using p by (simp add: pushedChars_Nil_iff)
  have len: "m_length (mkSubstring xs) = length xs" by (simp add: mkSubstring_def)
  note body = sstring_ok_body [OF ok, unfolded sstring_ok_body_def]
  have nil: "m_length (m_currentString s) = 0 \<Longrightarrow>
      sub_chars (m_currentString s) = [] \<and> m_substrings s = []"
    using body by (auto simp: sub_chars_Nil_iff)
  have "sstring_ok_body ?r"
    using body len by (auto simp: sstring_ok_body_def prepend_sub_def Let_def)
  then show "sstring_ok (prepend s (mkSString xs))" unfolding eq by (rule sstring_ok_reset)
  show "chars (prepend s (mkSString xs)) = xs @ chars s" unfolding eq
    using p1 len nil by (auto simp: chars_def pushedChars_def prepend_sub_def Let_def)
  show "pushedChars (prepend s (mkSString xs)) = []" unfolding eq
    using p1 by (simp add: pushedChars_def prepend_sub_def Let_def)
  have "sub_numberOfCharactersConsumed (mkSubstring xs) = 0"
    by (simp add: sub_numberOfCharactersConsumed_def mkSubstring_def)
  then show "numberOfCharactersConsumed (prepend s (mkSString xs))
      = numberOfCharactersConsumed s - int (length xs)" unfolding eq
    using len by (simp add: numberOfCharactersConsumed_def prepend_sub_def Let_def)
qed

lemma append_sub_facts:
  assumes body: "sstring_ok_body s" and u: "sub_ok u"
  shows "sstring_ok_body (append_sub s u)" "chars (append_sub s u) = chars s @ sub_chars u"
    "pushedChars (append_sub s u) = pushedChars s" "m_closed (append_sub s u) = m_closed s"
proof -
  note b = body [unfolded sstring_ok_body_def]
  have nil: "m_length (m_currentString s) = 0 \<Longrightarrow>
      sub_chars (m_currentString s) = [] \<and> m_substrings s = []"
    using b by (auto simp: sub_chars_Nil_iff)
  have u0: "m_length u = 0 \<Longrightarrow> sub_chars u = []" using u by (simp add: sub_chars_Nil_iff)
  show "sstring_ok_body (append_sub s u)"
    using b u by (auto simp: sstring_ok_body_def append_sub_def)
  show "chars (append_sub s u) = chars s @ sub_chars u"
    using nil u0 by (auto simp: chars_def pushedChars_def append_sub_def)
  show "pushedChars (append_sub s u) = pushedChars s"
    by (simp add: pushedChars_def append_sub_def)
  show "m_closed (append_sub s u) = m_closed s"
    by (simp add: append_sub_def)
qed

lemma foldl_append_sub_facts:
  assumes "sstring_ok_body s" "\<forall>u \<in> set us. sub_ok u"
  shows "sstring_ok_body (foldl append_sub s us)
       \<and> chars (foldl append_sub s us) = chars s @ concat (map sub_chars us)
       \<and> pushedChars (foldl append_sub s us) = pushedChars s
       \<and> m_closed (foldl append_sub s us) = m_closed s"
  using assms by (induction us arbitrary: s) (simp_all add: append_sub_facts)

lemma append_facts:
  assumes ok: "sstring_ok self" and s: "sstring_ok s" and p: "pushedChars s = []"
  shows append_ok: "sstring_ok (append_sstring self s)"
    and chars_append: "chars (append_sstring self s) = chars self @ chars s"
    and pushedChars_append: "pushedChars (append_sstring self s) = pushedChars self"
    and m_closed_append: "m_closed (append_sstring self s) = m_closed self"
proof -
  let ?r = "foldl append_sub (append_sub self (m_currentString s)) (m_substrings s)"
  have subs: "sub_ok (m_currentString s)" "\<forall>u \<in> set (m_substrings s). sub_ok u"
    "\<not> m_composite s \<Longrightarrow> m_substrings s = []"
    using s by (auto simp: sstring_ok_def)
  then have eq: "append_sstring self s = resetCurrentChar ?r"
    by (auto simp: append_sstring_def Let_def)
  note one = append_sub_facts [OF sstring_ok_body [OF ok] subs(1)]
  note all = foldl_append_sub_facts [OF one(1) subs(2)]
  show "sstring_ok (append_sstring self s)" unfolding eq using all by (blast intro: sstring_ok_reset)
  show "chars (append_sstring self s) = chars self @ chars s"
    unfolding eq using all one p by (simp add: chars_def [of s])
  show "pushedChars (append_sstring self s) = pushedChars self" unfolding eq using all one by simp
  show "m_closed (append_sstring self s) = m_closed self" unfolding eq using all one by simp
qed

lemma mkSString_facts [simp]:
  "sstring_ok (mkSString xs)" "chars (mkSString xs) = xs" "pushedChars (mkSString xs) = []"
  "m_closed (mkSString xs) = False" "numberOfCharactersConsumed (mkSString xs) = 0"
  by (simp_all add: mkSString_def Let_def sstring_ok_def chars_def pushedChars_def
      stringCursor_def numberOfCharactersConsumed_def sub_numberOfCharactersConsumed_def
      mkSubstring_def sub_ok_def sub_chars_def)

lemma m_closed_push [simp]: "m_closed (push c s) = m_closed s"
  by (simp add: push_def)

lemma m_closed_prepend_mkSString [simp]: "m_closed (prepend s (mkSString xs)) = m_closed s"
  by (simp add: prepend_def mkSString_def Let_def prepend_sub_def)

text \<open>
  \<open>numberOfCharactersConsumed\<close> does not count pushed-back characters as put back; \<open>position\<close> does.
  Position plus remaining content, the length of the stream seen so far, is what every
  operation but \<open>append\<close> keeps.
\<close>

definition position :: "sstring \<Rightarrow> int" where
  "position s = numberOfCharactersConsumed s - int (length (pushedChars s))"

definition streamLength :: "sstring \<Rightarrow> int" where
  "streamLength s = position s + int (length (chars s))"

lemma pushedChars_le_chars: "length (pushedChars s) \<le> length (chars s)"
  by (simp add: chars_def)

lemma streamLength_advance:
  "sstring_ok s \<Longrightarrow> chars s \<noteq> [] \<Longrightarrow> streamLength (advance s) = streamLength s"
  using pushedChars_le_chars [of s]
  by (cases "pushedChars s"; cases "chars s") (simp_all add: streamLength_def position_def advance_facts)

lemma streamLength_push:
  "sstring_ok s \<Longrightarrow> c \<noteq> 0 \<Longrightarrow> length (pushedChars s) < 2 \<Longrightarrow> streamLength (push c s) = streamLength s"
  using pushedChars_le_chars [of s]
  by (simp add: streamLength_def position_def push_facts of_nat_diff)

lemma streamLength_prepend:
  "sstring_ok s \<Longrightarrow> pushedChars s = [] \<Longrightarrow>
   streamLength (prepend s (mkSString xs)) = streamLength s"
  by (simp add: streamLength_def position_def prepend_mkSString_facts)

section \<open>The character source interface\<close>

text \<open>
  What the entity parser and the tokenizer use of a character source: a content, of which a
  prefix (\<open>bk\<close>) is pushed-back characters, read at the front, advanced, pushed back
  to and prepended to, and a length of the stream that reading and putting back keep.
\<close>

locale char_source =
  fixes ok :: "'s \<Rightarrow> bool" and content :: "'s \<Rightarrow> uchar list" and bk :: "'s \<Rightarrow> uchar list"
    and empty :: "'s \<Rightarrow> bool" and cur :: "'s \<Rightarrow> uchar" and adv :: "'s \<Rightarrow> 's"
    and psh :: "uchar \<Rightarrow> 's \<Rightarrow> 's" and prep :: "uchar list \<Rightarrow> 's \<Rightarrow> 's" and total :: "'s \<Rightarrow> int"
  assumes empty_iff: "ok s \<Longrightarrow> empty s \<longleftrightarrow> content s = []"
    and cur_hd: "ok s \<Longrightarrow> content s \<noteq> [] \<Longrightarrow> cur s = hd (content s)"
    and adv_ok: "ok s \<Longrightarrow> content s \<noteq> [] \<Longrightarrow> ok (adv s)"
    and content_adv: "ok s \<Longrightarrow> content s \<noteq> [] \<Longrightarrow> content (adv s) = tl (content s)"
    and back_adv: "ok s \<Longrightarrow> content s \<noteq> [] \<Longrightarrow> bk (adv s) = tl (bk s)"
    and total_adv: "ok s \<Longrightarrow> content s \<noteq> [] \<Longrightarrow> total (adv s) = total s"
    and psh_ok: "ok s \<Longrightarrow> c \<noteq> 0 \<Longrightarrow> length (bk s) < 2 \<Longrightarrow> ok (psh c s)"
    and content_psh: "ok s \<Longrightarrow> c \<noteq> 0 \<Longrightarrow> length (bk s) < 2 \<Longrightarrow>
                      content (psh c s) = bk s @ c # drop (length (bk s)) (content s)"
    and back_psh: "ok s \<Longrightarrow> c \<noteq> 0 \<Longrightarrow> length (bk s) < 2 \<Longrightarrow> bk (psh c s) = bk s @ [c]"
    and total_psh: "ok s \<Longrightarrow> c \<noteq> 0 \<Longrightarrow> length (bk s) < 2 \<Longrightarrow> total (psh c s) = total s"
    and prep_ok: "ok s \<Longrightarrow> bk s = [] \<Longrightarrow> ok (prep xs s)"
    and content_prep: "ok s \<Longrightarrow> bk s = [] \<Longrightarrow> content (prep xs s) = xs @ content s"
    and back_prep: "ok s \<Longrightarrow> bk s = [] \<Longrightarrow> bk (prep xs s) = []"
    and total_prep: "ok s \<Longrightarrow> bk s = [] \<Longrightarrow> total (prep xs s) = total s"
begin

lemma content_Cons:
  "ok s \<Longrightarrow> content s \<noteq> [] \<Longrightarrow> content s = cur s # content (adv s)"
  by (simp add: cur_hd content_adv)

lemma adv_funpow:
  assumes "ok s" "n \<le> length (content s)"
  shows "ok ((adv ^^ n) s) \<and> content ((adv ^^ n) s) = drop n (content s)
       \<and> bk ((adv ^^ n) s) = drop n (bk s)"
  using assms
proof (induction n)
  case 0
  then show ?case by simp
next
  case (Suc n)
  then have IH: "ok ((adv ^^ n) s)" "content ((adv ^^ n) s) = drop n (content s)"
    "bk ((adv ^^ n) s) = drop n (bk s)" and ne: "drop n (content s) \<noteq> []"
    by simp_all
  then show ?case
    using adv_ok [of "(adv ^^ n) s"] content_adv [of "(adv ^^ n) s"] back_adv [of "(adv ^^ n) s"]
    by (simp add: drop_Suc tl_drop)
qed

lemma total_adv_funpow:
  "ok s \<Longrightarrow> n \<le> length (content s) \<Longrightarrow> total ((adv ^^ n) s) = total s"
proof (induction n)
  case (Suc n)
  then have "drop n (content s) \<noteq> []" by simp
  with Suc adv_funpow [of s n] show ?case by (simp add: total_adv)
qed simp

text \<open>Reading ahead and putting the characters back leaves the content as it was.\<close>

lemma reread:
  assumes "ok s" "n \<le> length (content s)" "length (bk s) \<le> n"
  shows "ok (prep (take n (content s)) ((adv ^^ n) s))"
    "content (prep (take n (content s)) ((adv ^^ n) s)) = content s"
    "bk (prep (take n (content s)) ((adv ^^ n) s)) = []"
  using adv_funpow [of s n] assms by (simp_all add: prep_ok content_prep back_prep)

lemma reread_total:
  assumes "ok s" "n \<le> length (content s)" "length (bk s) \<le> n"
  shows "total (prep (take n (content s)) ((adv ^^ n) s)) = total s"
  using adv_funpow [of s n] total_adv_funpow [of s n] assms by (simp add: total_prep)

text \<open>Pushing one or two characters back in front of a source with nothing pushed back.\<close>

lemma push1:
  assumes "ok s" "bk s = []" "a \<noteq> 0"
  shows "ok (psh a s)" "content (psh a s) = a # content s" "bk (psh a s) = [a]"
    "total (psh a s) = total s"
  using assms by (simp_all add: psh_ok content_psh back_psh total_psh)

lemma push2:
  assumes "ok s" "bk s = []" "a \<noteq> 0" "b \<noteq> 0"
  shows "ok (psh b (psh a s))" "content (psh b (psh a s)) = a # b # content s"
    "bk (psh b (psh a s)) = [a, b]" "total (psh b (psh a s)) = total s"
  using push1 [of s a] assms by (simp_all add: psh_ok content_psh back_psh total_psh)

end

interpretation ss: char_source sstring_ok chars pushedChars isEmpty current advance push
    "\<lambda>xs s. prepend s (mkSString xs)" streamLength
  by unfold_locales
     (simp_all add: isEmpty_iff current_hd advance_facts push_facts prepend_mkSString_facts
       streamLength_advance streamLength_push streamLength_prepend)

lemma m_closed_advance_funpow [simp]: "m_closed ((advance ^^ n) s) = m_closed s"
  by (induction n) simp_all

section \<open>Look-ahead\<close>

lemma advance_count_funpow:
  "sstring_ok s \<Longrightarrow> n \<le> length (chars s) \<Longrightarrow>
   advance_count n s = (take n (chars s), (advance ^^ n) s)"
proof (induction n arbitrary: s)
  case (Suc n)
  then have ne: "chars s \<noteq> []" by auto
  with Suc have "advance_count n (advance s) = (take n (tl (chars s)), (advance ^^ n) (advance s))"
    by (simp add: advance_facts)
  then show ?case
    using Suc.prems ne by (cases "chars s") (simp_all add: current_hd funpow_swap1)
qed simp

text \<open>
  The specification of \<open>lookAhead\<close>: it compares with the first characters of the content if
  there are enough of them, and never changes the content.
\<close>

definition lookAhead_spec ::
  "(uchar list \<Rightarrow> uchar list \<Rightarrow> bool) \<Rightarrow> uchar list \<Rightarrow> uchar list \<Rightarrow> LookAheadResult" where
  "lookAhead_spec equals cs str =
     (if length str > length cs then NotEnoughCharacters
      else if equals str (take (length str) cs) then DidMatch else DidNotMatch)"

lemma lookAheadInline_spec:
  assumes ok: "sstring_ok s" and len: "length (pushedChars s) \<le> length str"
  shows "fst (lookAheadInline equals s str) = lookAhead_spec equals (chars s) str"
    "chars (snd (lookAheadInline equals s str)) = chars s"
    "sstring_ok (snd (lookAheadInline equals s str))"
    "m_closed (snd (lookAheadInline equals s str)) = m_closed s"
    "pushedChars s = [] \<Longrightarrow> pushedChars (snd (lookAheadInline equals s str)) = []"
    "streamLength (snd (lookAheadInline equals s str)) = streamLength s"
proof -
  let ?u = "m_currentString s" and ?n = "length str"
  let ?P = "fst (lookAheadInline equals s str) = lookAhead_spec equals (chars s) str
     \<and> chars (snd (lookAheadInline equals s str)) = chars s
     \<and> sstring_ok (snd (lookAheadInline equals s str))
     \<and> m_closed (snd (lookAheadInline equals s str)) = m_closed s
     \<and> (pushedChars s = [] \<longrightarrow> pushedChars (snd (lookAheadInline equals s str)) = [])
     \<and> streamLength (snd (lookAheadInline equals s str)) = streamLength s"
  have ?P
  proof (cases "m_pushedChar1 s = 0 \<and> ?n \<le> m_length ?u")
    case True
    have u: "sub_ok ?u" using ok by (simp add: sstring_ok_def)
    let ?d = "take ?n (drop (case m_current ?u of None \<Rightarrow> 0 | Some i \<Rightarrow> i) (m_string ?u))"
    have "?d = take ?n (sub_chars ?u)"
    proof (cases "m_current ?u")
      case None
      then have "?n = 0" using u True by (simp add: sub_ok_def)
      then show ?thesis by simp
    next
      case (Some i)
      then show ?thesis using True by (simp add: sub_chars_def min_def)
    qed
    also have "\<dots> = take ?n (chars s)"
      using True u by (simp add: chars_def pushedChars_def length_sub_chars)
    finally have d: "?d = take ?n (chars s)" .
    have "m_length ?u \<le> length (chars s)"
      using u by (simp add: chars_def length_sub_chars)
    then show ?thesis
      using True ok d by (simp add: lookAheadInline_def lookAhead_spec_def Let_def)
  next
    case False
    then have eq: "lookAheadInline equals s str = lookAheadSlowCase equals s str"
      by (auto simp: lookAheadInline_def Let_def)
    show ?thesis unfolding eq
      using ok len ss.reread [OF ok, of ?n] ss.reread_total [OF ok, of ?n]
      by (auto simp: lookAheadSlowCase_def lookAhead_spec_def sstring_length_chars
          advance_count_funpow Let_def)
  qed
  then show "fst (lookAheadInline equals s str) = lookAhead_spec equals (chars s) str"
    "chars (snd (lookAheadInline equals s str)) = chars s"
    "sstring_ok (snd (lookAheadInline equals s str))"
    "m_closed (snd (lookAheadInline equals s str)) = m_closed s"
    "pushedChars s = [] \<Longrightarrow> pushedChars (snd (lookAheadInline equals s str)) = []"
    "streamLength (snd (lookAheadInline equals s str)) = streamLength s"
    by blast+
qed

end
