(* ===== verification/HTMLEntitySearch.thy ===== *)
theory HTMLEntitySearch
  imports WebKit_Prelude "HOL-Library.Sublist"
begin

text \<open>
  \<^verbatim>\<open>WebCore/html/parser/HTMLEntitySearch.{h,cpp}\<close>: incremental binary search in the table of named
  entities.  The table itself (\<^verbatim>\<open>HTMLEntityTable.cpp\<close>) is generated at build time by the script
  \<^verbatim>\<open>create-html-entity-table\<close>, so it is a parameter; \<open>table_ok\<close> states what that script
  guarantees.  Pointers to table entries are indices.  The main lemma, \<open>advance_search_inv\<close>,
  says that after reading \<open>w\<close> the search holds exactly the block of entries that start with
  \<open>w\<close> and the longest entry that is a prefix of \<open>w\<close>.
\<close>

section \<open>The generated table\<close>

record entity =
  entityName :: "uchar list"
  entityValue :: uchar32

record entity_table =
  staticEntityTable :: "entity list"
  firstEntryStartingWith :: "uchar \<Rightarrow> nat option"
  lastEntryStartingWith :: "uchar \<Rightarrow> nat option"

abbreviation nameAt :: "entity_table \<Rightarrow> nat \<Rightarrow> uchar list" where
  "nameAt tbl i \<equiv> entityName (staticEntityTable tbl ! i)"

definition entryLength :: "entity_table \<Rightarrow> nat \<Rightarrow> nat" where
  "entryLength tbl i = length (nameAt tbl i)"

definition lastCharacter :: "entity_table \<Rightarrow> nat \<Rightarrow> uchar" where
  "lastCharacter tbl i = nameAt tbl i ! (entryLength tbl i - 1)"

definition firstEntry :: "entity_table \<Rightarrow> nat" where
  "firstEntry tbl = 0"

definition lastEntry :: "entity_table \<Rightarrow> nat" where
  "lastEntry tbl = length (staticEntityTable tbl) - 1"

section \<open>The search\<close>

record entity_search =
  m_currentLength :: nat
  m_currentValue :: uchar32
  m_mostRecentMatch :: "nat option"
  m_first :: "nat option"
  m_last :: "nat option"

datatype CompareResult = Before | Prefix | After

definition halfway :: "nat \<Rightarrow> nat \<Rightarrow> nat" where
  "halfway left right = left + (right - left) div 2"

definition HTMLEntitySearch_init :: "entity_table \<Rightarrow> entity_search" where
  "HTMLEntitySearch_init tbl =
     \<lparr>m_currentLength = 0, m_currentValue = 0, m_mostRecentMatch = None,
      m_first = Some (firstEntry tbl), m_last = Some (lastEntry tbl)\<rparr>"

definition compare_entry :: "entity_table \<Rightarrow> nat \<Rightarrow> nat \<Rightarrow> uchar \<Rightarrow> CompareResult" where
  "compare_entry tbl n i nextCharacter =
     (if entryLength tbl i < n + 1 then Before
      else let entryNextCharacter = nameAt tbl i ! n
           in if entryNextCharacter = nextCharacter then Prefix
              else if entryNextCharacter < nextCharacter then Before else After)"

text \<open>The loops of \<open>findFirst\<close> and \<open>findLast\<close>.\<close>

function findFirst_loop :: "entity_table \<Rightarrow> nat \<Rightarrow> uchar \<Rightarrow> nat \<Rightarrow> nat \<Rightarrow> nat" where
  "findFirst_loop tbl n c left right =
     (if left + 1 < right then
        let probe = halfway left right
        in if compare_entry tbl n probe c = Before then findFirst_loop tbl n c probe right
           else findFirst_loop tbl n c left probe
      else right)"
  by pat_completeness auto
termination
  by (relation "measure (\<lambda>(tbl, n, c, left, right). right - left)") (auto simp: halfway_def)

function findLast_loop :: "entity_table \<Rightarrow> nat \<Rightarrow> uchar \<Rightarrow> nat \<Rightarrow> nat \<Rightarrow> nat" where
  "findLast_loop tbl n c left right =
     (if left + 1 < right then
        let probe = halfway left right
        in if compare_entry tbl n probe c = After then findLast_loop tbl n c left probe
           else findLast_loop tbl n c probe right
      else left)"
  by pat_completeness auto
termination
  by (relation "measure (\<lambda>(tbl, n, c, left, right). right - left)") (auto simp: halfway_def)

declare findFirst_loop.simps [simp del] findLast_loop.simps [simp del]

definition findFirst :: "entity_table \<Rightarrow> nat \<Rightarrow> nat \<Rightarrow> nat \<Rightarrow> uchar \<Rightarrow> nat" where
  "findFirst tbl n left right nextCharacter =
     (if left = right then left
      else case compare_entry tbl n left nextCharacter of
             Prefix \<Rightarrow> left
           | After \<Rightarrow> right
           | Before \<Rightarrow> findFirst_loop tbl n nextCharacter left right)"

definition findLast :: "entity_table \<Rightarrow> nat \<Rightarrow> nat \<Rightarrow> nat \<Rightarrow> uchar \<Rightarrow> nat" where
  "findLast tbl n left right nextCharacter =
     (if left = right then right
      else case compare_entry tbl n right nextCharacter of
             Prefix \<Rightarrow> right
           | Before \<Rightarrow> left
           | After \<Rightarrow> findLast_loop tbl n nextCharacter left right)"

definition isEntityPrefix :: "entity_search \<Rightarrow> bool" where
  "isEntityPrefix s \<longleftrightarrow> m_first s \<noteq> None"

definition search_fail :: "entity_search \<Rightarrow> entity_search" where
  "search_fail s = s\<lparr>m_currentValue := 0, m_first := None, m_last := None\<rparr>"

text \<open>The end of \<open>advance\<close>: \<open>++m_currentLength\<close> and the update of the most recent match.\<close>

definition recordMatch :: "entity_table \<Rightarrow> nat \<Rightarrow> entity_search \<Rightarrow> entity_search" where
  "recordMatch tbl first s =
     (let s = s\<lparr>m_currentLength := m_currentLength s + 1\<rparr>
      in if entryLength tbl first \<noteq> m_currentLength s then s\<lparr>m_currentValue := 0\<rparr>
         else s\<lparr>m_mostRecentMatch := Some first,
                m_currentValue := entityValue (staticEntityTable tbl ! first)\<rparr>)"

text \<open>
  \<open>advance\<close> asserts \<open>isEntityPrefix()\<close>; where its pointers are null the C++ dereferences a null
  pointer and the model leaves the search as it is.
\<close>

definition advance_search :: "entity_table \<Rightarrow> uchar \<Rightarrow> entity_search \<Rightarrow> entity_search" where
  "advance_search tbl nextCharacter s =
     (if m_currentLength s = 0 then
        let s = s\<lparr>m_first := firstEntryStartingWith tbl nextCharacter,
                  m_last := lastEntryStartingWith tbl nextCharacter\<rparr>
        in (case m_first s of None \<Rightarrow> s | Some first \<Rightarrow> recordMatch tbl first s)
      else (case (m_first s, m_last s) of
              (Some left, Some right) \<Rightarrow>
                let n = m_currentLength s;
                    first = findFirst tbl n left right nextCharacter;
                    last = findLast tbl n first right nextCharacter
                in if first = last \<and> compare_entry tbl n first nextCharacter \<noteq> Prefix
                   then search_fail (s\<lparr>m_first := Some first, m_last := Some last\<rparr>)
                   else recordMatch tbl first (s\<lparr>m_first := Some first, m_last := Some last\<rparr>)
            | _ \<Rightarrow> s))"

section \<open>What the generator guarantees\<close>

definition isLetter :: "uchar \<Rightarrow> bool" where
  "isLetter c \<longleftrightarrow> (ch_a \<le> c \<and> c \<le> ch_z) \<or> (ch_A \<le> c \<and> c \<le> ch_Z)"

text \<open>
  The script sorts the entries by name (Python's string order, code unit by code unit), so
  names are strictly increasing; it indexes every ASCII letter, and the index of a letter is
  the block of entries that start with it.  Names are at least two characters of letters,
  digits and semicolons, and values are code points other than zero
  (\<^verbatim>\<open>HTMLEntityNames.in\<close>).
\<close>

fun name_less :: "uchar list \<Rightarrow> uchar list \<Rightarrow> bool" where
  "name_less [] ys \<longleftrightarrow> ys \<noteq> []"
| "name_less (x # xs) [] \<longleftrightarrow> False"
| "name_less (x # xs) (y # ys) \<longleftrightarrow> x < y \<or> x = y \<and> name_less xs ys"

definition isNameChar :: "uchar \<Rightarrow> bool" where
  "isNameChar c \<longleftrightarrow> isLetter c \<or> (ch_0 \<le> c \<and> c \<le> ch_9) \<or> c = ch_SEMI"

definition names_ok :: "entity list \<Rightarrow> bool" where
  "names_ok es \<longleftrightarrow>
     sorted_wrt name_less (map entityName es)
     \<and> (\<forall>e \<in> set es. 2 \<le> length (entityName e) \<and> list_all isNameChar (entityName e)
                      \<and> entityValue e \<noteq> 0 \<and> entityValue e \<le> 0x10FFFF)"

text \<open>An entry the letter index reaches: only these can ever be matched.\<close>

definition visible :: "entity_table \<Rightarrow> nat \<Rightarrow> bool" where
  "visible tbl i \<longleftrightarrow> i < length (staticEntityTable tbl) \<and>
     (case (firstEntryStartingWith tbl (hd (nameAt tbl i)),
            lastEntryStartingWith tbl (hd (nameAt tbl i))) of
        (Some f, Some l) \<Rightarrow> f \<le> i \<and> i \<le> l | _ \<Rightarrow> False)"

definition index_ok :: "entity_table \<Rightarrow> bool" where
  "index_ok tbl \<longleftrightarrow>
     (\<forall>c. isLetter c \<longrightarrow>
        (\<exists>f l. firstEntryStartingWith tbl c = Some f \<and> lastEntryStartingWith tbl c = Some l
             \<and> f \<le> l \<and> l < length (staticEntityTable tbl)
             \<and> (\<forall>i < length (staticEntityTable tbl). f \<le> i \<and> i \<le> l \<longrightarrow> prefix [c] (nameAt tbl i))))"

definition table_ok :: "entity_table \<Rightarrow> bool" where
  "table_ok tbl \<longleftrightarrow> names_ok (staticEntityTable tbl) \<and> index_ok tbl"

section \<open>Specification\<close>

definition isEntityPrefixOf :: "entity_table \<Rightarrow> uchar list \<Rightarrow> bool" where
  "isEntityPrefixOf tbl w \<longleftrightarrow>
     (\<exists>i < length (staticEntityTable tbl). visible tbl i \<and> prefix w (nameAt tbl i))"

definition entryNamed :: "entity_table \<Rightarrow> uchar list \<Rightarrow> entity option" where
  "entryNamed tbl w =
     map_option (nth (staticEntityTable tbl))
       (List.find (\<lambda>i. visible tbl i \<and> nameAt tbl i = w) [0..<length (staticEntityTable tbl)])"

text \<open>The longest entry that is one of the first \<open>n\<close> prefixes of \<open>w\<close>.\<close>

fun longestEntry :: "entity_table \<Rightarrow> uchar list \<Rightarrow> nat \<Rightarrow> entity option" where
  "longestEntry tbl w 0 = None"
| "longestEntry tbl w (Suc n) =
     (case entryNamed tbl (take (Suc n) w) of Some e \<Rightarrow> Some e | None \<Rightarrow> longestEntry tbl w n)"

definition search_inv :: "entity_table \<Rightarrow> uchar list \<Rightarrow> entity_search \<Rightarrow> bool" where
  "search_inv tbl w s \<longleftrightarrow>
     m_currentLength s = length w \<and>
     (\<exists>f l. m_first s = Some f \<and> m_last s = Some l \<and> f \<le> l \<and> l < length (staticEntityTable tbl)
        \<and> (\<forall>i < length (staticEntityTable tbl).
              f \<le> i \<and> i \<le> l \<longleftrightarrow> visible tbl i \<and> prefix w (nameAt tbl i))) \<and>
     map_option (nth (staticEntityTable tbl)) (m_mostRecentMatch s)
       = longestEntry tbl w (length w) \<and>
     m_currentValue s = (case entryNamed tbl w of Some e \<Rightarrow> entityValue e | None \<Rightarrow> 0)"

section \<open>The order of the names\<close>

lemma name_less_irrefl: "\<not> name_less xs xs"
  by (induction xs) auto

lemma name_less_Nil [simp]: "\<not> name_less xs []"
  by (cases xs) auto

lemma name_less_append: "name_less (w @ xs) (w @ ys) \<longleftrightarrow> name_less xs ys"
  by (induction w) auto

lemma name_less_prefix: "prefix xs ys \<Longrightarrow> xs \<noteq> ys \<Longrightarrow> name_less xs ys"
  using name_less_append [of xs "[]"] by (auto simp: prefix_def)

lemma name_less_antisym: "name_less xs ys \<Longrightarrow> \<not> name_less ys xs"
  by (induction xs ys rule: name_less.induct) auto

lemma sorted_names_less:
  "names_ok (staticEntityTable tbl) \<Longrightarrow> i < j \<Longrightarrow> j < length (staticEntityTable tbl) \<Longrightarrow>
   name_less (nameAt tbl i) (nameAt tbl j)"
  by (auto simp: names_ok_def sorted_wrt_iff_nth_less)

lemma names_inj:
  assumes "names_ok (staticEntityTable tbl)" "i < length (staticEntityTable tbl)"
    "j < length (staticEntityTable tbl)" "nameAt tbl i = nameAt tbl j"
  shows "i = j"
  using assms sorted_names_less [of tbl i j] sorted_names_less [of tbl j i] name_less_irrefl
  by (metis nat_neq_iff)

fun rank :: "CompareResult \<Rightarrow> nat" where
  "rank Before = 0" | "rank Prefix = 1" | "rank After = 2"

lemma rank_simps [simp]:
  "rank r = 0 \<longleftrightarrow> r = Before" "rank r = Suc 0 \<longleftrightarrow> r = Prefix" "rank r = 2 \<longleftrightarrow> r = After" "rank r \<le> 2"
  by (cases r; simp)+

lemma compare_entry_prefix:
  "prefix w (nameAt tbl i) \<Longrightarrow>
   compare_entry tbl (length w) i c = Prefix \<longleftrightarrow> prefix (w @ [c]) (nameAt tbl i)"
  by (auto simp: compare_entry_def entryLength_def prefix_def Let_def nth_append)
     (metis add.right_neutral append_Cons append_Nil length_append linorder_not_less list.exhaust
      list.size(3) nat_add_left_cancel_less nth_Cons_0 zero_less_Suc)

lemma compare_entry_mono:
  assumes "names_ok (staticEntityTable tbl)" "i < j" "j < length (staticEntityTable tbl)"
    and "prefix w (nameAt tbl i)" "prefix w (nameAt tbl j)"
  shows "rank (compare_entry tbl (length w) i c) \<le> rank (compare_entry tbl (length w) j c)"
proof -
  obtain xs ys where i: "nameAt tbl i = w @ xs" and j: "nameAt tbl j = w @ ys"
    using assms(4,5) by (auto simp: prefix_def)
  have "name_less xs ys"
    using sorted_names_less [OF assms(1-3)] by (simp add: i j name_less_append)
  then show ?thesis
    by (cases xs; cases ys)
       (auto simp: compare_entry_def entryLength_def i j Let_def nth_append)
qed

section \<open>The two binary searches\<close>

text \<open>
  Over a block \<open>[a..b]\<close> on which the comparison is monotone, the searches find the borders of the
  sub-block of entries that compare as \<open>Prefix\<close>.
\<close>

definition mono_on_block :: "(nat \<Rightarrow> CompareResult) \<Rightarrow> nat \<Rightarrow> nat \<Rightarrow> bool" where
  "mono_on_block g a b \<longleftrightarrow> (\<forall>i j. a \<le> i \<longrightarrow> i \<le> j \<longrightarrow> j \<le> b \<longrightarrow> rank (g i) \<le> rank (g j))"

lemma mono_on_blockD: "mono_on_block g a b \<Longrightarrow> a \<le> i \<Longrightarrow> i \<le> j \<Longrightarrow> j \<le> b \<Longrightarrow> rank (g i) \<le> rank (g j)"
  by (simp add: mono_on_block_def)

lemma findFirst_loop_spec:
  fixes tbl n c
  defines "g \<equiv> \<lambda>i. compare_entry tbl n i c"
  assumes "left < right" "g left = Before" "mono_on_block g a b" "a \<le> left" "right \<le> b"
  defines "r \<equiv> findFirst_loop tbl n c left right"
  shows "left < r \<and> r \<le> right \<and> (\<forall>i. a \<le> i \<and> i < r \<longrightarrow> g i = Before) \<and> (r = right \<or> g r \<noteq> Before)"
  using assms(2,3,5,6) unfolding r_def
proof (induction "right - left" arbitrary: left right rule: less_induct)
  case less
  note unfold = findFirst_loop.simps [of tbl n c left right]
  show ?case
  proof (cases "left + 1 < right")
    case False
    moreover have "g i = Before" if "a \<le> i" "i < right" for i
      using mono_on_blockD [OF assms(4), of i left] that less.prems False by simp
    ultimately show ?thesis using less.prems by (simp add: unfold)
  next
    case True
    let ?p = "halfway left right"
    have p: "left < ?p" "?p < right" using True by (auto simp: halfway_def)
    show ?thesis
    proof (cases "g ?p = Before")
      case True': True
      have "findFirst_loop tbl n c left right = findFirst_loop tbl n c ?p right"
        using True True' by (simp add: unfold g_def Let_def)
      moreover have "right - ?p < right - left" using p by arith
      note ih = less.hyps [OF this p(2) True']
      have "a \<le> ?p" using less.prems(3) p by simp
      ultimately show ?thesis using ih less.prems(4) p by auto
    next
      case False
      have eq: "findFirst_loop tbl n c left right = findFirst_loop tbl n c left ?p"
        using True False by (simp add: unfold g_def Let_def)
      have "?p - left < right - left" using p by arith
      note ih = less.hyps [OF this p(1) less.prems(2,3)]
      have "?p \<le> b" using less.prems(4) p by simp
      then show ?thesis using ih p False unfolding eq by auto
    qed
  qed
qed

lemma findLast_loop_spec:
  fixes tbl n c
  defines "g \<equiv> \<lambda>i. compare_entry tbl n i c"
  assumes "left < right" "g right = After" "mono_on_block g a b" "a \<le> left" "right \<le> b"
  defines "r \<equiv> findLast_loop tbl n c left right"
  shows "left \<le> r \<and> r < right \<and> (\<forall>i. r < i \<and> i \<le> b \<longrightarrow> g i = After) \<and> (r = left \<or> g r \<noteq> After)"
  using assms(2,3,5,6) unfolding r_def
proof (induction "right - left" arbitrary: left right rule: less_induct)
  case less
  note unfold = findLast_loop.simps [of tbl n c left right]
  show ?case
  proof (cases "left + 1 < right")
    case False
    moreover have "g i = After" if "left < i" "i \<le> b" for i
    proof -
      have "right \<le> i" using False less.prems that by simp
      then have "rank (g right) \<le> rank (g i)"
        using mono_on_blockD [OF assms(4), of right i] that less.prems by simp
      then show ?thesis using less.prems(2) rank_simps(4) [of "g i"] by simp
    qed
    ultimately show ?thesis using less.prems by (simp add: unfold)
  next
    case True
    let ?p = "halfway left right"
    have p: "left < ?p" "?p < right" using True by (auto simp: halfway_def)
    show ?thesis
    proof (cases "g ?p = After")
      case True': True
      have "findLast_loop tbl n c left right = findLast_loop tbl n c left ?p"
        using True True' by (simp add: unfold g_def Let_def)
      moreover have "?p - left < right - left" using p by arith
      note ih = less.hyps [OF this p(1) True' less.prems(3)]
      have "?p \<le> b" using less.prems(4) p by simp
      ultimately show ?thesis using ih p by auto
    next
      case False
      have eq: "findLast_loop tbl n c left right = findLast_loop tbl n c ?p right"
        using True False by (simp add: unfold g_def Let_def)
      have "right - ?p < right - left" using p by arith
      note ih = less.hyps [OF this p(2) less.prems(2)]
      have "a \<le> ?p" using less.prems(3) p by simp
      then show ?thesis using ih less.prems(4) p False unfolding eq by auto
    qed
  qed
qed

lemma findFirst_spec:
  fixes tbl n c
  defines "g \<equiv> \<lambda>i. compare_entry tbl n i c"
  assumes "a \<le> b" "mono_on_block g a b"
  defines "r \<equiv> findFirst tbl n a b c"
  shows "a \<le> r \<and> r \<le> b" and "r = b \<or> g r \<noteq> Before"
    and "\<exists>i. a \<le> i \<and> i \<le> b \<and> g i = Prefix \<Longrightarrow>
     g r = Prefix \<and> (\<forall>i. a \<le> i \<and> i < r \<longrightarrow> g i = Before)"
proof -
  have loop: "a < findFirst_loop tbl n c a b \<and> findFirst_loop tbl n c a b \<le> b
      \<and> (\<forall>i. a \<le> i \<and> i < findFirst_loop tbl n c a b \<longrightarrow> g i = Before)
      \<and> (findFirst_loop tbl n c a b = b \<or> g (findFirst_loop tbl n c a b) \<noteq> Before)"
    if "a < b" "g a = Before"
    using findFirst_loop_spec [OF that(1) that(2) [unfolded g_def] assms(3) [unfolded g_def]
        order_refl order_refl] unfolding g_def .
  show "a \<le> r \<and> r \<le> b"
  proof (cases "a < b \<and> g a = Before")
    case True
    then show ?thesis using loop by (simp add: r_def findFirst_def g_def)
  next
    case False
    then show ?thesis using assms(2)
      by (auto simp: r_def findFirst_def g_def split: CompareResult.splits)
  qed
  show "r = b \<or> g r \<noteq> Before"
  proof (cases "a < b \<and> g a = Before")
    case True
    then show ?thesis using loop by (simp add: r_def findFirst_def g_def)
  next
    case False
    then show ?thesis using assms(2)
      by (auto simp: r_def findFirst_def g_def split: CompareResult.splits)
  qed
  assume "\<exists>i. a \<le> i \<and> i \<le> b \<and> g i = Prefix"
  then obtain i where i: "a \<le> i" "i \<le> b" "g i = Prefix" by blast
  have le: "rank (g a) \<le> 1" "1 \<le> rank (g b)"
    using mono_on_blockD [OF assms(3), of a i] mono_on_blockD [OF assms(3), of i b] i by simp_all
  show "g r = Prefix \<and> (\<forall>i. a \<le> i \<and> i < r \<longrightarrow> g i = Before)"
  proof (cases "a = b \<or> g a = Prefix")
    case True
    then have "r = a" by (auto simp: r_def findFirst_def g_def)
    then show ?thesis using True i by (auto simp: g_def)
  next
    case False
    then have ga: "g a = Before" using le(1) by (cases "g a") auto
    with False assms(2) have lt: "a < b" by simp
    have r: "findFirst_loop tbl n c a b = r"
      using False ga by (simp add: r_def findFirst_def g_def)
    note L = loop [OF lt ga, unfolded r]
    have before: "\<forall>j. a \<le> j \<and> j < r \<longrightarrow> g j = Before" using L by blast
    have "r \<le> i" using before i by (metis CompareResult.distinct(1) not_le)
    then have "rank (g r) \<le> 1"
      using mono_on_blockD [OF assms(3), of r i] i L by simp
    moreover have "g r \<noteq> Before" using L le(2) by (metis not_one_le_zero rank_simps(1))
    ultimately have "g r = Prefix" by (cases "g r") simp_all
    with before show ?thesis by blast
  qed
qed

lemma findLast_spec:
  fixes tbl n c
  defines "g \<equiv> \<lambda>i. compare_entry tbl n i c"
  assumes "a \<le> b" "mono_on_block g a b"
  defines "r \<equiv> findLast tbl n a b c"
  shows "a \<le> r \<and> r \<le> b" and "\<exists>i. a \<le> i \<and> i \<le> b \<and> g i = Prefix \<Longrightarrow>
     g r = Prefix \<and> (\<forall>i. r < i \<and> i \<le> b \<longrightarrow> g i = After)"
    and "\<forall>i. a \<le> i \<and> i \<le> b \<longrightarrow> g i = After \<Longrightarrow> r = a"
    and "\<forall>i. a \<le> i \<and> i \<le> b \<longrightarrow> g i = Before \<Longrightarrow> r = a"
proof -
  have loop: "a \<le> findLast_loop tbl n c a b \<and> findLast_loop tbl n c a b < b
      \<and> (\<forall>i. findLast_loop tbl n c a b < i \<and> i \<le> b \<longrightarrow> g i = After)
      \<and> (findLast_loop tbl n c a b = a \<or> g (findLast_loop tbl n c a b) \<noteq> After)"
    if "a < b" "g b = After"
    using findLast_loop_spec [OF that(1) that(2) [unfolded g_def] assms(3) [unfolded g_def]
        order_refl order_refl] unfolding g_def .
  show "a \<le> r \<and> r \<le> b"
  proof (cases "a < b \<and> g b = After")
    case True
    then show ?thesis using loop by (simp add: r_def findLast_def g_def)
  next
    case False
    then show ?thesis using assms(2)
      by (auto simp: r_def findLast_def g_def split: CompareResult.splits)
  qed
  show "r = a" if "\<forall>i. a \<le> i \<and> i \<le> b \<longrightarrow> g i = After"
  proof (cases "a = b")
    case False
    then have lt: "a < b" and gb: "g b = After" using assms(2) that by auto
    then show ?thesis using loop [OF lt gb] that by (auto simp: r_def findLast_def g_def)
  qed (simp add: r_def findLast_def)
  show "r = a" if "\<forall>i. a \<le> i \<and> i \<le> b \<longrightarrow> g i = Before"
    using that assms(2) by (auto simp: r_def findLast_def g_def split: CompareResult.splits)
  assume "\<exists>i. a \<le> i \<and> i \<le> b \<and> g i = Prefix"
  then obtain i where i: "a \<le> i" "i \<le> b" "g i = Prefix" by blast
  have le: "rank (g a) \<le> 1" "1 \<le> rank (g b)"
    using mono_on_blockD [OF assms(3), of a i] mono_on_blockD [OF assms(3), of i b] i by simp_all
  show "g r = Prefix \<and> (\<forall>i. r < i \<and> i \<le> b \<longrightarrow> g i = After)"
  proof (cases "a = b \<or> g b = Prefix")
    case True
    then have "r = b" by (auto simp: r_def findLast_def g_def)
    then show ?thesis using True i by (auto simp: g_def)
  next
    case False
    then have gb: "g b = After" using le(2) by (cases "g b") auto
    with False assms(2) have lt: "a < b" by simp
    have r: "findLast_loop tbl n c a b = r"
      using False gb by (simp add: r_def findLast_def g_def)
    note L = loop [OF lt gb, unfolded r]
    have after: "\<forall>j. r < j \<and> j \<le> b \<longrightarrow> g j = After" using L by blast
    have "i \<le> r" using after i by (metis CompareResult.distinct(5) not_le)
    then have "1 \<le> rank (g r)"
      using mono_on_blockD [OF assms(3), of i r] i L by simp
    moreover have "g r \<noteq> After" using L le(1) by auto
    ultimately have "g r = Prefix" by (cases "g r") simp_all
    with after show ?thesis by blast
  qed
qed

section \<open>One step of the search\<close>

definition block_of :: "entity_table \<Rightarrow> uchar list \<Rightarrow> nat \<Rightarrow> nat \<Rightarrow> bool" where
  "block_of tbl w f l \<longleftrightarrow> f \<le> l \<and> l < length (staticEntityTable tbl)
     \<and> (\<forall>i < length (staticEntityTable tbl).
           f \<le> i \<and> i \<le> l \<longleftrightarrow> visible tbl i \<and> prefix w (nameAt tbl i))"

lemma block_ofD:
  assumes "block_of tbl w f l" "f \<le> i" "i \<le> l"
  shows "i < length (staticEntityTable tbl)" "prefix w (nameAt tbl i)" "visible tbl i"
proof -
  show "i < length (staticEntityTable tbl)" using assms by (simp add: block_of_def)
  then show "prefix w (nameAt tbl i)" "visible tbl i" using assms unfolding block_of_def by blast+
qed

lemma block_mono:
  assumes "names_ok (staticEntityTable tbl)" "block_of tbl w f l"
  shows "mono_on_block (\<lambda>i. compare_entry tbl (length w) i c) f l"
  unfolding mono_on_block_def
proof (intro allI impI)
  fix i j assume ij: "f \<le> i" "i \<le> j" "j \<le> l"
  show "rank (compare_entry tbl (length w) i c) \<le> rank (compare_entry tbl (length w) j c)"
  proof (cases "i = j")
    case False
    then show ?thesis
      using ij block_ofD [OF assms(2)] by (intro compare_entry_mono [OF assms(1)]) simp_all
  qed simp
qed

lemma block_narrow:
  fixes tbl w c f l
  defines "f' \<equiv> findFirst tbl (length w) f l c"
  defines "l' \<equiv> findLast tbl (length w) f' l c"
  assumes names: "names_ok (staticEntityTable tbl)" and block: "block_of tbl w f l"
  shows "isEntityPrefixOf tbl (w @ [c]) \<Longrightarrow>
           block_of tbl (w @ [c]) f' l' \<and> compare_entry tbl (length w) f' c = Prefix"
    and "\<not> isEntityPrefixOf tbl (w @ [c]) \<Longrightarrow>
           f' = l' \<and> compare_entry tbl (length w) f' c \<noteq> Prefix"
proof -
  let ?g = "\<lambda>i. compare_entry tbl (length w) i c"
  have fl: "f \<le> l" "l < length (staticEntityTable tbl)" using block by (simp_all add: block_of_def)
  have mono: "mono_on_block ?g f l" using names block by (rule block_mono)
  have pre: "prefix w (nameAt tbl i)" if "f \<le> i" "i \<le> l" for i
    using block_ofD [OF block that] by simp
  have gP: "?g i = Prefix \<longleftrightarrow> prefix (w @ [c]) (nameAt tbl i)" if "f \<le> i" "i \<le> l" for i
    using pre [OF that] by (rule compare_entry_prefix)
  have vis: "visible tbl i" if "f \<le> i" "i \<le> l" for i
    using block_ofD [OF block that] by simp
  have inside: "f \<le> i \<and> i \<le> l" if "i < length (staticEntityTable tbl)"
    "visible tbl i" "prefix (w @ [c]) (nameAt tbl i)" for i
    using that block append_prefixD by (auto simp: block_of_def)
  note F = findFirst_spec [OF fl(1) mono, folded f'_def]
  have mono': "mono_on_block ?g f' l" using mono F(1) by (auto simp: mono_on_block_def)
  note L = findLast_spec [OF conjunct2 [OF F(1)] mono', folded l'_def]
  show "block_of tbl (w @ [c]) f' l' \<and> ?g f' = Prefix" if "isEntityPrefixOf tbl (w @ [c])"
  proof -
    from that obtain i where "i < length (staticEntityTable tbl)" "visible tbl i"
      "prefix (w @ [c]) (nameAt tbl i)"
      by (auto simp: isEntityPrefixOf_def)
    then have i: "f \<le> i" "i \<le> l" "?g i = Prefix" using inside gP by blast+
    then have F3: "?g f' = Prefix" "\<And>j. f \<le> j \<Longrightarrow> j < f' \<Longrightarrow> ?g j = Before" using F(3) by blast+
    then have L2: "?g l' = Prefix" "\<And>j. l' < j \<Longrightarrow> j \<le> l \<Longrightarrow> ?g j = After"
      using L(2) F(1) by blast+
    have bounds: "f \<le> f'" "f' \<le> l'" "l' \<le> l" using F(1) L(1) by blast+
    have "f' \<le> j \<and> j \<le> l' \<longleftrightarrow> visible tbl j \<and> prefix (w @ [c]) (nameAt tbl j)"
      if j: "j < length (staticEntityTable tbl)" for j
    proof
      assume h: "f' \<le> j \<and> j \<le> l'"
      then have "rank (?g f') \<le> rank (?g j)" "rank (?g j) \<le> rank (?g l')"
        using mono_on_blockD [OF mono] bounds by simp_all
      then have "?g j = Prefix" using F3(1) L2(1) by simp
      then show "visible tbl j \<and> prefix (w @ [c]) (nameAt tbl j)"
        using gP [of j] vis [of j] h bounds by simp
    next
      assume p: "visible tbl j \<and> prefix (w @ [c]) (nameAt tbl j)"
      with j have "f \<le> j" "j \<le> l" using inside by blast+
      with p have "?g j = Prefix" using gP by blast
      then show "f' \<le> j \<and> j \<le> l'"
        using F3(2) [of j] L2(2) [of j] \<open>f \<le> j\<close> \<open>j \<le> l\<close>
        by (metis CompareResult.distinct(1) CompareResult.distinct(5) not_le)
    qed
    then show ?thesis using bounds fl F3(1) by (simp add: block_of_def)
  qed
  show "f' = l' \<and> ?g f' \<noteq> Prefix" if no: "\<not> isEntityPrefixOf tbl (w @ [c])"
  proof -
    have noP: "?g i \<noteq> Prefix" if "f \<le> i" "i \<le> l" for i
      using that no gP vis fl by (auto simp: isEntityPrefixOf_def)
    have ne: "?g f' \<noteq> Prefix" using noP F(1) by blast
    show ?thesis
    proof (cases "?g f' = After")
      case True
      have "\<forall>i. f' \<le> i \<and> i \<le> l \<longrightarrow> ?g i = After"
      proof (intro allI impI)
        fix i assume "f' \<le> i \<and> i \<le> l"
        then have "rank (?g f') \<le> rank (?g i)" using mono_on_blockD [OF mono'] by simp
        then show "?g i = After" using True rank_simps(4) [of "?g i"] by simp
      qed
      then show ?thesis using L(3) ne by simp
    next
      case False
      then have "?g f' = Before" using ne by (cases "?g f'") simp_all
      then have "f' = l" using F(2) by blast
      then show ?thesis using L(1) ne by auto
    qed
  qed
qed

lemma entryNamed_block:
  assumes names: "names_ok (staticEntityTable tbl)" and block: "block_of tbl w f l"
  shows "entryNamed tbl w
       = (if entryLength tbl f = length w then Some (staticEntityTable tbl ! f) else None)"
proof -
  let ?es = "staticEntityTable tbl"
  have f: "f < length ?es" and pf: "prefix w (nameAt tbl f)" and vf: "visible tbl f"
    using block_ofD [OF block, of f] block by (simp_all add: block_of_def)
  have eq: "entryLength tbl f = length w \<longleftrightarrow> nameAt tbl f = w"
    using pf by (auto simp: entryLength_def prefix_def)
  let ?find = "List.find (\<lambda>i. visible tbl i \<and> nameAt tbl i = w) [0..<length ?es]"
  have only: "i = f" if i: "i < length ?es" "visible tbl i" "nameAt tbl i = w" for i
  proof (rule ccontr)
    assume "i \<noteq> f"
    moreover have "f \<le> i" using block i by (auto simp: block_of_def)
    ultimately have "name_less (nameAt tbl f) w"
      using sorted_names_less [OF names, of f i] i by simp
    then show False
      using name_less_prefix [OF pf] name_less_antisym name_less_irrefl by metis
  qed
  show ?thesis
  proof (cases "nameAt tbl f = w")
    case True
    then have "?find \<noteq> None" using f vf unfolding find_None_iff by auto
    then obtain i where "?find = Some i" by blast
    moreover from this have "i < length ?es" "visible tbl i" "nameAt tbl i = w"
      by (auto simp: find_Some_iff)
    ultimately show ?thesis using only True eq by (simp add: entryNamed_def)
  next
    case False
    then have "?find = None" using only by (auto simp: find_None_iff)
    then show ?thesis using False eq by (simp add: entryNamed_def)
  qed
qed

lemma recordMatch_inv:
  assumes names: "names_ok (staticEntityTable tbl)" and block: "block_of tbl w f l"
    and len: "length w = Suc (m_currentLength s)"
    and recent: "map_option (nth (staticEntityTable tbl)) (m_mostRecentMatch s)
       = longestEntry tbl w (m_currentLength s)"
    and fl: "m_first s = Some f" "m_last s = Some l"
  shows "search_inv tbl w (recordMatch tbl f s)"
proof -
  have long: "longestEntry tbl w (length w)
     = (case entryNamed tbl w of Some e \<Rightarrow> Some e | None \<Rightarrow> longestEntry tbl w (m_currentLength s))"
    by (simp add: len)
  show ?thesis
    using block fl recent
    by (simp add: search_inv_def block_of_def recordMatch_def Let_def long len
        entryNamed_block [OF names block])
qed

lemma longestEntry_append: "n \<le> length w \<Longrightarrow> longestEntry tbl (w @ v) n = longestEntry tbl w n"
  by (induction n) (simp_all split: option.splits)

lemma search_inv_block:
  "search_inv tbl w s \<longleftrightarrow> m_currentLength s = length w \<and>
     (\<exists>f l. m_first s = Some f \<and> m_last s = Some l \<and> block_of tbl w f l) \<and>
     map_option (nth (staticEntityTable tbl)) (m_mostRecentMatch s)
       = longestEntry tbl w (length w) \<and>
     m_currentValue s = (case entryNamed tbl w of Some e \<Rightarrow> entityValue e | None \<Rightarrow> 0)"
  by (auto simp: search_inv_def block_of_def)

lemma advance_search_inv:
  assumes names: "names_ok (staticEntityTable tbl)" and inv: "search_inv tbl w s" and ne: "w \<noteq> []"
  shows "isEntityPrefixOf tbl (w @ [c]) \<Longrightarrow> search_inv tbl (w @ [c]) (advance_search tbl c s)"
    and "\<not> isEntityPrefixOf tbl (w @ [c]) \<Longrightarrow> advance_search tbl c s = search_fail s"
proof -
  obtain f l where fl: "m_first s = Some f" "m_last s = Some l" and block: "block_of tbl w f l"
    and len: "m_currentLength s = length w"
    and recent: "map_option (nth (staticEntityTable tbl)) (m_mostRecentMatch s)
       = longestEntry tbl w (length w)"
    using inv by (auto simp: search_inv_block)
  let ?f = "findFirst tbl (length w) f l c"
  let ?l = "findLast tbl (length w) ?f l c"
  let ?s = "s\<lparr>m_first := Some ?f, m_last := Some ?l\<rparr>"
  have step: "advance_search tbl c s =
     (if ?f = ?l \<and> compare_entry tbl (length w) ?f c \<noteq> Prefix
      then search_fail ?s else recordMatch tbl ?f ?s)"
    using ne by (simp add: advance_search_def fl len Let_def)
  note narrow = block_narrow [OF names block, of c]
  show "search_inv tbl (w @ [c]) (advance_search tbl c s)" if "isEntityPrefixOf tbl (w @ [c])"
  proof -
    have "search_inv tbl (w @ [c]) (recordMatch tbl ?f ?s)"
      using narrow(1) [OF that] len recent
      by (intro recordMatch_inv [OF names]) (simp_all add: longestEntry_append)
    then show ?thesis using narrow(1) [OF that] by (simp add: step)
  qed
  show "advance_search tbl c s = search_fail s" if "\<not> isEntityPrefixOf tbl (w @ [c])"
    using narrow(2) [OF that] by (simp add: step search_fail_def)
qed

lemma advance_search_start:
  assumes tbl: "table_ok tbl" and c: "isLetter c"
  shows "search_inv tbl [c] (advance_search tbl c (HTMLEntitySearch_init tbl))"
proof -
  obtain f l where fl: "firstEntryStartingWith tbl c = Some f" "lastEntryStartingWith tbl c = Some l"
    and le: "f \<le> l" "l < length (staticEntityTable tbl)"
    and pre: "\<And>i. i < length (staticEntityTable tbl) \<Longrightarrow> f \<le> i \<and> i \<le> l \<Longrightarrow> prefix [c] (nameAt tbl i)"
    using tbl c unfolding table_ok_def index_ok_def by metis
  have hd: "hd (nameAt tbl i) = c" if "prefix [c] (nameAt tbl i)" for i
    using that by (auto simp: prefix_def)
  have block: "block_of tbl [c] f l"
    using le pre fl hd by (auto simp: block_of_def visible_def split: option.splits)
  let ?s = "(HTMLEntitySearch_init tbl)\<lparr>m_first := Some f, m_last := Some l\<rparr>"
  have "advance_search tbl c (HTMLEntitySearch_init tbl) = recordMatch tbl f ?s"
    by (simp add: advance_search_def HTMLEntitySearch_init_def fl Let_def)
  moreover have "search_inv tbl [c] (recordMatch tbl f ?s)"
    using tbl block by (intro recordMatch_inv) (simp_all add: table_ok_def HTMLEntitySearch_init_def)
  ultimately show ?thesis by simp
qed

text \<open>Reading a whole word.\<close>

definition search_word :: "entity_table \<Rightarrow> uchar list \<Rightarrow> entity_search" where
  "search_word tbl w = fold (advance_search tbl) w (HTMLEntitySearch_init tbl)"

lemma search_word_snoc: "search_word tbl (w @ [c]) = advance_search tbl c (search_word tbl w)"
  by (simp add: search_word_def)

lemma isEntityPrefixOf_append: "isEntityPrefixOf tbl (v @ w) \<Longrightarrow> isEntityPrefixOf tbl v"
  by (auto simp: isEntityPrefixOf_def dest: append_prefixD)

lemma search_word_inv:
  "table_ok tbl \<Longrightarrow> isLetter (hd w) \<Longrightarrow> w \<noteq> [] \<Longrightarrow> isEntityPrefixOf tbl w \<Longrightarrow>
   search_inv tbl w (search_word tbl w)"
proof (induction w rule: rev_induct)
  case (snoc c w)
  show ?case
  proof (cases "w = []")
    case True
    then show ?thesis using snoc.prems advance_search_start by (simp add: search_word_def)
  next
    case False
    then have "search_inv tbl w (search_word tbl w)"
      using snoc isEntityPrefixOf_append by simp
    then show ?thesis
      using advance_search_inv(1) [of tbl w] snoc.prems False
      by (simp add: search_word_snoc table_ok_def)
  qed
qed simp

section \<open>The table generator\<close>

text \<open>
  \<^verbatim>\<open>WebCore/html/parser/create-html-entity-table\<close>: the rows of \<^verbatim>\<open>HTMLEntityNames.in\<close> are
  sorted by name; \<open>index\<close> maps a letter to an offset, and the last entry of a letter is
  the one before the next letter's first (before \<open>index['a']\<close> for \<open>Z\<close>, the end for \<open>z\<close>).
  The script guards the update with \<open>if not index.get(letter)\<close>, which is also true where the
  recorded offset is 0: the first letter's offset is overwritten by its second entry's.
\<close>

fun insertRow :: "entity \<Rightarrow> entity list \<Rightarrow> entity list" where
  "insertRow e [] = [e]"
| "insertRow e (x # xs) =
     (if name_less (entityName x) (entityName e) then x # insertRow e xs else e # x # xs)"

definition sortRows :: "entity list \<Rightarrow> entity list" where
  "sortRows rows = foldr insertRow rows []"

fun buildIndex :: "entity list \<Rightarrow> nat \<Rightarrow> (uchar \<rightharpoonup> nat) \<Rightarrow> (uchar \<rightharpoonup> nat)" where
  "buildIndex [] offset index = index"
| "buildIndex (e # es) offset index =
     (let letter = hd (entityName e);
          index = (case index letter of
                     None \<Rightarrow> index(letter \<mapsto> offset)
                   | Some 0 \<Rightarrow> index(letter \<mapsto> offset)
                   | Some (Suc _) \<Rightarrow> index)
      in buildIndex es (offset + 1) index)"

text \<open>\<open>index[letter]\<close> (a \<open>KeyError\<close> where the letter has no entry).\<close>

definition letterOffset :: "entity list \<Rightarrow> uchar \<Rightarrow> nat" where
  "letterOffset es c = the (buildIndex es 0 Map.empty c)"

definition generateTable :: "entity list \<Rightarrow> entity_table" where
  "generateTable rows =
     (let es = sortRows rows in
      \<lparr>staticEntityTable = es,
       firstEntryStartingWith = (\<lambda>c.
         if ch_A \<le> c \<and> c \<le> ch_Z then Some (letterOffset es c)
         else if ch_a \<le> c \<and> c \<le> ch_z then Some (letterOffset es c) else None),
       lastEntryStartingWith = (\<lambda>c.
         if ch_A \<le> c \<and> c \<le> ch_Z
         then Some ((if c = ch_Z then letterOffset es ch_a else letterOffset es (c + 1)) - 1)
         else if ch_a \<le> c \<and> c \<le> ch_z
         then Some ((if c = ch_z then length es else letterOffset es (c + 1)) - 1)
         else None)\<rparr>)"

definition rows_ok :: "entity list \<Rightarrow> bool" where
  "rows_ok rows \<longleftrightarrow>
     distinct (map entityName rows)
     \<and> (\<forall>e \<in> set rows. 2 \<le> length (entityName e) \<and> isLetter (hd (entityName e))
          \<and> list_all isNameChar (entityName e) \<and> entityValue e \<noteq> 0
          \<and> entityValue e \<le> 0x10FFFF)
     \<and> (\<forall>c. isLetter c \<longrightarrow> c \<in> (\<lambda>e. hd (entityName e)) ` set rows)"

lemma name_less_total: "xs = ys \<or> name_less xs ys \<or> name_less ys xs"
proof (induction xs ys rule: name_less.induct)
  case (3 x xs y ys)
  then show ?case by (cases "x < y"; cases "y < x"; auto)
qed auto

lemma name_less_trans: "name_less xs ys \<Longrightarrow> name_less ys zs \<Longrightarrow> name_less xs zs"
proof (induction xs ys arbitrary: zs rule: name_less.induct)
  case (1 ys)
  then show ?case by auto
next
  case (3 x xs y ys)
  then show ?case by (cases zs) (auto dest: less_trans)
qed simp

lemma set_insertRow [simp]: "set (insertRow e xs) = insert e (set xs)"
  by (induction xs) auto

lemma set_sortRows [simp]: "set (sortRows rows) = set rows"
  unfolding sortRows_def by (induction rows) simp_all

lemma sorted_insertRow:
  assumes "sorted_wrt name_less (map entityName xs)" "entityName e \<notin> entityName ` set xs"
  shows "sorted_wrt name_less (map entityName (insertRow e xs))"
  using assms
proof (induction xs)
  case (Cons x xs)
  show ?case
  proof (cases "name_less (entityName x) (entityName e)")
    case True
    then show ?thesis using Cons by auto
  next
    case False
    then have "name_less (entityName e) (entityName x)"
      using Cons.prems(2) name_less_total [of "entityName x" "entityName e"] by auto
    then show ?thesis using Cons.prems(1) False by (auto intro: name_less_trans)
  qed
qed simp

lemma sorted_sortRows:
  "distinct (map entityName rows) \<Longrightarrow> sorted_wrt name_less (map entityName (sortRows rows))"
proof (induction rows)
  case (Cons r rows)
  moreover have "sortRows (r # rows) = insertRow r (sortRows rows)" by (simp add: sortRows_def)
  ultimately show ?case by (simp add: sorted_insertRow image_iff)
qed (simp add: sortRows_def)

lemma name_less_hd: "name_less xs ys \<Longrightarrow> xs \<noteq> [] \<Longrightarrow> hd xs \<le> hd ys"
  by (cases xs; cases ys) auto

text \<open>The offset of the first entry that starts with a letter, which the index means to hold.\<close>

definition firstOffset :: "entity list \<Rightarrow> uchar \<Rightarrow> nat" where
  "firstOffset es c = length (takeWhile (\<lambda>e. hd (entityName e) \<noteq> c) es)"

lemma buildIndex_absent:
  "c \<notin> (\<lambda>e. hd (entityName e)) ` set es \<Longrightarrow> buildIndex es offset index c = index c"
  by (induction es offset index rule: buildIndex.induct)
     (auto simp: Let_def split: option.splits nat.splits)

lemma buildIndex_kept:
  "index c = Some (Suc k) \<Longrightarrow> buildIndex es offset index c = Some (Suc k)"
proof (induction es arbitrary: offset index)
  case (Cons e es)
  then show ?case
    by (cases "c = hd (entityName e)") (auto simp: Let_def split: option.splits nat.splits)
qed simp

lemma buildIndex_found:
  "c \<in> (\<lambda>e. hd (entityName e)) ` set es \<Longrightarrow> index c = None \<or> index c = Some 0 \<Longrightarrow> 0 < offset \<Longrightarrow>
   buildIndex es offset index c = Some (offset + firstOffset es c)"
proof (induction es arbitrary: offset index)
  case (Cons e es)
  show ?case
  proof (cases "hd (entityName e) = c")
    case True
    then obtain k where "offset = Suc k" using Cons.prems(3) gr0_conv_Suc by blast
    with True Cons.prems(2) show ?thesis
      by (auto simp: Let_def firstOffset_def buildIndex_kept split: option.splits nat.splits)
  next
    case False
    let ?i = "(case index (hd (entityName e)) of None \<Rightarrow> index(hd (entityName e) \<mapsto> offset)
                 | Some 0 \<Rightarrow> index(hd (entityName e) \<mapsto> offset) | Some (Suc _) \<Rightarrow> index)"
    have "?i c = index c" using False by (auto split: option.splits nat.splits)
    with False Cons show ?thesis by (simp add: Let_def firstOffset_def)
  qed
qed simp

lemma letterOffset_Cons:
  "letterOffset (e # es) c =
     (if c \<in> (\<lambda>e. hd (entityName e)) ` set es then Suc (firstOffset es c)
      else if c = hd (entityName e) then 0 else the None)"
  by (auto simp: letterOffset_def buildIndex_found buildIndex_absent)

lemma letterOffset_not_first:
  "c \<in> (\<lambda>e. hd (entityName e)) ` set es \<Longrightarrow> c \<noteq> hd (entityName (es ! 0)) \<Longrightarrow>
   letterOffset es c = firstOffset es c"
  by (cases es) (auto simp: letterOffset_Cons firstOffset_def)

lemma firstOffset_less_iff:
  assumes sorted: "sorted_wrt name_less (map entityName es)"
    and ne: "\<forall>e \<in> set es. entityName e \<noteq> []"
    and mem: "c \<in> (\<lambda>e. hd (entityName e)) ` set es" and i: "i < length es"
  shows "i < firstOffset es c \<longleftrightarrow> hd (entityName (es ! i)) < c"
proof
  assume "i < firstOffset es c"
  then have neq: "\<And>k. k \<le> i \<Longrightarrow> hd (entityName (es ! k)) \<noteq> c"
    unfolding firstOffset_def
    by (metis (mono_tags, lifting) nth_mem order_le_less_trans set_takeWhileD takeWhile_nth)
  obtain j where j: "j < length es" "hd (entityName (es ! j)) = c"
    using mem by (auto simp: in_set_conv_nth)
  then have "i < j" using neq [of j] by force
  then have "name_less (entityName (es ! i)) (entityName (es ! j))"
    using sorted j by (simp add: sorted_wrt_iff_nth_less)
  then have "hd (entityName (es ! i)) \<le> c"
    using name_less_hd ne i j by (metis nth_mem)
  then show "hd (entityName (es ! i)) < c" using neq [of i] by simp
next
  assume less: "hd (entityName (es ! i)) < c"
  show "i < firstOffset es c"
  proof (rule ccontr)
    assume "\<not> i < firstOffset es c"
    then have le: "firstOffset es c \<le> i" by simp
    then have len: "firstOffset es c < length es" using i by simp
    then have "hd (entityName (es ! firstOffset es c)) = c"
      using nth_length_takeWhile [of "\<lambda>e. hd (entityName e) \<noteq> c" es]
      by (simp add: firstOffset_def)
    moreover have "hd (entityName (es ! firstOffset es c)) \<le> hd (entityName (es ! i))"
    proof (cases "firstOffset es c = i")
      case False
      then have "name_less (entityName (es ! firstOffset es c)) (entityName (es ! i))"
        using sorted le i by (simp add: sorted_wrt_iff_nth_less)
      then show ?thesis using name_less_hd ne len by (metis nth_mem)
    qed simp
    ultimately show False using less by simp
  qed
qed

lemma isLetter_succ:
  assumes "isLetter c" "isLetter d" "c \<noteq> ch_Z" "c \<noteq> ch_z"
  shows "isLetter (c + 1)" "d < c + 1 \<longleftrightarrow> d \<le> c"
proof -
  have c: "unat (c + 1) = unat c + 1"
    using assms by (auto simp: isLetter_def word_le_nat_alt unat_word_ariths)
  then show "d < c + 1 \<longleftrightarrow> d \<le> c" by (simp add: word_less_nat_alt word_le_nat_alt less_Suc_eq_le)
  have "unat c \<noteq> 90" "unat c \<noteq> 122"
    using assms(3,4) by (simp_all add: word_unat_eq_iff)
  then show "isLetter (c + 1)"
    using assms(1) c by (auto simp: isLetter_def word_le_nat_alt)
qed

lemma isLetter_upper_less_a: "isLetter d \<Longrightarrow> d < ch_a \<longleftrightarrow> d \<le> ch_Z"
  by (auto simp: isLetter_def word_le_nat_alt word_less_nat_alt)

lemma isLetter_le_z: "isLetter d \<Longrightarrow> d \<le> ch_z"
  by (auto simp: isLetter_def word_le_nat_alt)

text \<open>The one entry the generated index does not reach.\<close>

definition hiddenEntry :: "entity list \<Rightarrow> nat \<Rightarrow> bool" where
  "hiddenEntry es i \<longleftrightarrow> i = 0 \<and> 1 < length es
     \<and> hd (entityName (es ! 1)) = hd (entityName (es ! 0))"

lemma letterOffset_le_iff:
  assumes sorted: "sorted_wrt name_less (map entityName es)"
    and ne: "\<forall>e \<in> set es. entityName e \<noteq> []"
    and mem: "c \<in> (\<lambda>e. hd (entityName e)) ` set es" and i: "i < length es"
  shows "letterOffset es c \<le> i \<longleftrightarrow> c \<le> hd (entityName (es ! i))
           \<and> \<not> (c = hd (entityName (es ! i)) \<and> hiddenEntry es i)"
proof (cases "c = hd (entityName (es ! 0))")
  case False
  then have "letterOffset es c \<le> i \<longleftrightarrow> c \<le> hd (entityName (es ! i))"
    using firstOffset_less_iff [OF assms] letterOffset_not_first [OF mem] by auto
  then show ?thesis using False by (auto simp: hiddenEntry_def)
next
  case c: True
  obtain e es' where es: "es = e # es'" using i by (cases es) auto
  have ge: "c \<le> hd (entityName (es ! k))" if "k < length es" for k
  proof (cases "k = 0")
    case False
    then have "name_less (entityName (es ! 0)) (entityName (es ! k))"
      using sorted that by (simp add: sorted_wrt_iff_nth_less)
    then show ?thesis using name_less_hd ne es c by (metis list.set_intros(1) nth_Cons_0)
  qed (simp add: c)
  have "letterOffset es c = (if hiddenEntry es 0 then 1 else 0)"
  proof (cases "c \<in> (\<lambda>e. hd (entityName e)) ` set es'")
    case True
    then obtain k where k: "k < length es'" "hd (entityName (es' ! k)) = c"
      by (auto simp: in_set_conv_nth)
    have "hd (entityName (es ! 1)) \<le> c"
    proof (cases "k = 0")
      case False
      then have "name_less (entityName (es ! 1)) (entityName (es ! Suc k))"
        using sorted_wrt_nth_less [OF sorted, of 1 "Suc k"] nth_map [of 0 es' entityName] k es False
        by (cases es') simp_all
      moreover have "es ! 1 \<in> set es" using k es by (cases es') simp_all
      ultimately show ?thesis using name_less_hd ne k es by (metis nth_Cons_Suc)
    qed (use k es in \<open>cases es'\<close>, auto)
    moreover have "1 < length es" using k es by (cases "length es'") simp_all
    ultimately have one: "hd (entityName (es ! 1)) = c" using ge [of 1] by simp
    then have "firstOffset es' c = 0" using k es by (cases es') (auto simp: firstOffset_def)
    moreover have "es' \<noteq> []" using k by (cases es') simp_all
    ultimately show ?thesis using True one c k es by (simp add: letterOffset_Cons hiddenEntry_def)
  next
    case False
    then have "\<not> hiddenEntry es 0" using c es by (cases es') (auto simp: hiddenEntry_def)
    then show ?thesis using False c es by (simp add: letterOffset_Cons)
  qed
  then show ?thesis using ge [OF i] c by (cases "i = 0") (auto simp: hiddenEntry_def)
qed

lemma generateTable_index:
  assumes rows: "rows_ok rows" and c: "isLetter c"
  defines "es \<equiv> sortRows rows"
  shows "\<exists>f l. firstEntryStartingWith (generateTable rows) c = Some f
     \<and> lastEntryStartingWith (generateTable rows) c = Some l \<and> f \<le> l \<and> l < length es
     \<and> (\<forall>i < length es. f \<le> i \<and> i \<le> l \<longleftrightarrow>
          hd (entityName (es ! i)) = c \<and> \<not> hiddenEntry es i)"
proof -
  have sorted: "sorted_wrt name_less (map entityName es)"
    and ne: "\<forall>e \<in> set es. entityName e \<noteq> []"
    and letters: "\<And>d. isLetter d \<Longrightarrow> d \<in> (\<lambda>e. hd (entityName e)) ` set es"
    and hd_letter: "\<And>i. i < length es \<Longrightarrow> isLetter (hd (entityName (es ! i)))"
    using rows nth_mem [of _ es] by (auto simp: rows_ok_def es_def sorted_sortRows)
  note le = letterOffset_le_iff [OF sorted ne letters]
  let ?f = "letterOffset es c"
  define n where "n = (if c = ch_Z then letterOffset es ch_a
                       else if c = ch_z then length es else letterOffset es (c + 1))"
  have after: "letterOffset es d \<le> i \<longleftrightarrow> d \<le> hd (entityName (es ! i))"
    if d: "isLetter d" "c < d" and i: "i < length es" for d i
  proof -
    have "\<not> (d = hd (entityName (es ! i)) \<and> hiddenEntry es i)"
    proof
      assume h: "d = hd (entityName (es ! i)) \<and> hiddenEntry es i"
      obtain j where j: "j < length es" "hd (entityName (es ! j)) = c"
        using letters [OF c] by (auto simp: in_set_conv_nth)
      have "firstOffset es d \<le> j"
        using h j firstOffset_less_iff [OF sorted ne letters [OF d(1)] i]
        by (auto simp: hiddenEntry_def)
      then show False using firstOffset_less_iff [OF sorted ne letters [OF d(1)] j(1)] j d(2) by auto
    qed
    then show ?thesis using le [OF d(1) i] by blast
  qed
  have n: "i < n \<longleftrightarrow> hd (entityName (es ! i)) \<le> c" if i: "i < length es" for i
  proof -
    consider "c = ch_Z" | "c = ch_z" | "c \<noteq> ch_Z" "c \<noteq> ch_z" by blast
    then show ?thesis
    proof cases
      case 1
      then show ?thesis
        using after [of ch_a i] i isLetter_upper_less_a [OF hd_letter [OF i]]
        by (simp add: n_def isLetter_def flip: not_le)
    next
      case 2
      then show ?thesis using i isLetter_le_z [OF hd_letter [OF i]] by (simp add: n_def)
    next
      case 3
      note s = isLetter_succ [OF c _ 3]
      have "c < c + 1" using s(2) [OF c] by simp
      then show ?thesis
        using after [OF s(1) [OF c] _ i] 3 s(2) [OF hd_letter [OF i]]
        by (simp add: n_def flip: not_le)
    qed
  qed
  have block: "?f \<le> i \<and> i < n \<longleftrightarrow> hd (entityName (es ! i)) = c \<and> \<not> hiddenEntry es i"
    if i: "i < length es" for i
    using le [OF c i] n [OF i] by auto
  obtain j where j: "j < length es" "?f \<le> j" "j < n"
  proof -
    obtain k where k: "k < length es" "hd (entityName (es ! k)) = c"
      using letters [OF c] by (auto simp: in_set_conv_nth)
    show ?thesis
    proof (cases "hiddenEntry es k")
      case True
      then have "1 < length es" "hd (entityName (es ! 1)) = c" "\<not> hiddenEntry es 1"
        using k by (auto simp: hiddenEntry_def)
      then show ?thesis using that block [of 1] by auto
    next
      case False
      then show ?thesis using that block [OF k(1)] k by auto
    qed
  qed
  have nlen: "n \<le> length es"
  proof (rule ccontr)
    assume "\<not> n \<le> length es"
    then have gt: "length es < n" by simp
    have le_len: "letterOffset es d \<le> length es" if "isLetter d" for d
      using letters [OF that] letterOffset_Cons [of "hd es" "tl es" d]
        length_takeWhile_le [of "\<lambda>e. hd (entityName e) \<noteq> d" "tl es"]
      by (cases es) (auto simp: firstOffset_def)
    have "isLetter ch_a" by (simp add: isLetter_def)
    then show False
      using gt le_len [of ch_a] le_len [OF isLetter_succ(1) [OF c c]]
      by (simp add: n_def split: if_splits)
  qed
  have "firstEntryStartingWith (generateTable rows) c = Some ?f"
    using c by (auto simp: generateTable_def Let_def isLetter_def es_def)
  moreover have "lastEntryStartingWith (generateTable rows) c = Some (n - 1)"
    using c by (auto simp: generateTable_def Let_def isLetter_def es_def n_def)
  moreover have "i \<le> n - 1 \<longleftrightarrow> i < n" for i using j by auto
  moreover have "?f \<le> n - 1" "n - 1 < length es" using j nlen by auto
  ultimately show ?thesis using block by auto
qed

lemma staticEntityTable_generateTable [simp]:
  "staticEntityTable (generateTable rows) = sortRows rows"
  by (simp add: generateTable_def Let_def)

lemma generateTable_visible:
  assumes rows: "rows_ok rows"
  shows "visible (generateTable rows) i \<longleftrightarrow>
           i < length (sortRows rows) \<and> \<not> hiddenEntry (sortRows rows) i"
proof (cases "i < length (sortRows rows)")
  case True
  then have "isLetter (hd (entityName (sortRows rows ! i)))"
    using rows nth_mem [OF True] by (simp add: rows_ok_def)
  then show ?thesis
    using generateTable_index [OF rows] True by (fastforce simp: visible_def)
qed (simp add: visible_def)

lemma generateTable_ok: "rows_ok rows \<Longrightarrow> table_ok (generateTable rows)"
proof -
  assume rows: "rows_ok rows"
  have "names_ok (sortRows rows)"
    using rows by (auto simp: rows_ok_def names_ok_def sorted_sortRows)
  moreover have "index_ok (generateTable rows)"
    unfolding index_ok_def staticEntityTable_generateTable
  proof (intro allI impI)
    fix c assume "isLetter c"
    then obtain f l where fl: "firstEntryStartingWith (generateTable rows) c = Some f"
      "lastEntryStartingWith (generateTable rows) c = Some l" "f \<le> l" "l < length (sortRows rows)"
      and block: "\<And>i. i < length (sortRows rows) \<Longrightarrow> f \<le> i \<Longrightarrow> i \<le> l \<Longrightarrow>
                    hd (entityName (sortRows rows ! i)) = c"
      using generateTable_index [OF rows] by blast
    have "prefix [c] (entityName (sortRows rows ! i))"
      if i: "i < length (sortRows rows)" "f \<le> i \<and> i \<le> l" for i
    proof -
      have "2 \<le> length (entityName (sortRows rows ! i))"
        using rows nth_mem [OF i(1)] by (simp add: rows_ok_def)
      then show ?thesis
        using block [OF i(1)] i(2) by (cases "entityName (sortRows rows ! i)") auto
    qed
    with fl show "\<exists>f l. firstEntryStartingWith (generateTable rows) c = Some f
       \<and> lastEntryStartingWith (generateTable rows) c = Some l \<and> f \<le> l
       \<and> l < length (sortRows rows)
       \<and> (\<forall>i < length (sortRows rows). f \<le> i \<and> i \<le> l
            \<longrightarrow> prefix [c] (entityName (sortRows rows ! i)))"
      by blast
  qed
  ultimately show ?thesis by (simp add: table_ok_def)
qed

section \<open>An example table\<close>

text \<open>An entity for every letter and five of the real ones, for the concrete instances below.\<close>

definition letterRow :: "nat \<Rightarrow> entity" where
  "letterRow n = \<lparr>entityName = [of_nat n, ch_SEMI], entityValue = of_nat n\<rparr>"

definition exampleRows :: "entity list" where
  "exampleRows = map letterRow ([65..<91] @ [97..<123])
     @ [\<lparr>entityName = ustr ''amp'', entityValue = 0x26\<rparr>, \<lparr>entityName = ustr ''amp;'', entityValue = 0x26\<rparr>,
        \<lparr>entityName = ustr ''lt;'', entityValue = 0x3C\<rparr>, \<lparr>entityName = ustr ''not'', entityValue = 0xAC\<rparr>,
        \<lparr>entityName = ustr ''notin;'', entityValue = 0x2209\<rparr>]"

lemma exampleRows_letters: "isLetter c \<Longrightarrow> c \<in> (\<lambda>e. hd (entityName e)) ` set exampleRows"
proof -
  assume "isLetter c"
  then have "65 \<le> unat c \<and> unat c < 91 \<or> 97 \<le> unat c \<and> unat c < 123"
    unfolding isLetter_def word_le_nat_alt by auto
  then have "unat c \<in> set ([65..<91] @ [97..<123])"
    by (simp only: set_append set_upt Un_iff atLeastLessThan_iff)
  then have "letterRow (unat c) \<in> set exampleRows" 
    unfolding exampleRows_def set_append [of "map letterRow _"] set_map by (rule UnI1 [OF imageI])
  moreover have "hd (entityName (letterRow (unat c))) = c" by (simp add: letterRow_def)
  ultimately show ?thesis by (metis image_eqI)
qed

lemma exampleRows_names: "distinct (map entityName exampleRows)"
  by (simp add: exampleRows_def letterRow_def ustr_def)
lemma exampleRows_entries:
  "list_all (\<lambda>e. 2 \<le> length (entityName e) \<and> isLetter (hd (entityName e))
     \<and> list_all isNameChar (entityName e) \<and> entityValue e \<noteq> 0
     \<and> entityValue e \<le> 0x10FFFF) exampleRows"
  by (simp add: exampleRows_def letterRow_def ustr_def isLetter_def isNameChar_def)
lemma exampleRows_ok: "rows_ok exampleRows"
  using exampleRows_letters exampleRows_names exampleRows_entries by (simp add: rows_ok_def list_all_iff)

end
