(* ===== verification/HTMLEntityParser.thy ===== *)
theory HTMLEntityParser
  imports SegmentedString HTMLEntitySearch
begin

text \<open>
  \<^verbatim>\<open>WebCore/html/parser/HTMLEntityParser.cpp\<close>: character references.  \<open>consumeHTMLEntity\<close> reads a
  segmented string after the ampersand, a character at a time, in seven states; on failure it
  puts back what it read.  \<open>UChar32\<close> is the 32-bit unsigned type of the WinCE port, so the
  accumulation of a numeric reference wraps around.  The specification \<open>entity_spec\<close> works on the
  content alone, and \<open>consumeHTMLEntity_refines\<close> says the code implements it.
\<close>

section \<open>Code points\<close>

definition windowsLatin1ExtensionArray :: "uchar list" where
  "windowsLatin1ExtensionArray =
    [0x20AC, 0x0081, 0x201A, 0x0192, 0x201E, 0x2026, 0x2020, 0x2021,
     0x02C6, 0x2030, 0x0160, 0x2039, 0x0152, 0x008D, 0x017D, 0x008F,
     0x0090, 0x2018, 0x2019, 0x201C, 0x201D, 0x2022, 0x2013, 0x2014,
     0x02DC, 0x2122, 0x0161, 0x203A, 0x0153, 0x009D, 0x017E, 0x0178]"

text \<open>\<open>(value & ~0x1F) != 0x0080\<close>: the value is outside \<open>0x80..0x9F\<close>.\<close>

definition adjustEntity :: "uchar32 \<Rightarrow> uchar" where
  "adjustEntity v =
     (if and v (not 0x1F) \<noteq> 0x80 then ucast v
      else windowsLatin1ExtensionArray ! unat (v - 0x80))"

definition U_IS_BMP :: "uchar32 \<Rightarrow> bool" where
  "U_IS_BMP v \<longleftrightarrow> v \<le> 0xFFFF"

definition legalEntityFor :: "uchar32 \<Rightarrow> uchar32" where
  "legalEntityFor v =
     (if v = 0 \<or> v > 0x10FFFF \<or> (v \<ge> 0xD800 \<and> v \<le> 0xDFFF) then 0xFFFD
      else if U_IS_BMP v then ucast (adjustEntity v)
      else v)"

definition U16_LEAD :: "uchar32 \<Rightarrow> uchar" where
  "U16_LEAD v = ucast (drop_bit 10 v + 0xD7C0)"

definition U16_TRAIL :: "uchar32 \<Rightarrow> uchar" where
  "U16_TRAIL v = ucast (or (and v 0x3FF) 0xDC00)"

text \<open>\<open>convertToUTF16\<close> appends to the decoded entity and returns true.\<close>

definition convertToUTF16 :: "uchar32 \<Rightarrow> uchar list" where
  "convertToUTF16 v = (if U_IS_BMP v then [ucast v] else [U16_LEAD v, U16_TRAIL v])"

definition isHexDigit :: "uchar \<Rightarrow> bool" where
  "isHexDigit cc \<longleftrightarrow> (cc \<ge> ch_0 \<and> cc \<le> ch_9) \<or> (cc \<ge> ch_a \<and> cc \<le> ch_f) \<or> (cc \<ge> ch_A \<and> cc \<le> ch_F)"

definition isAlphaNumeric :: "uchar \<Rightarrow> bool" where
  "isAlphaNumeric cc \<longleftrightarrow>
     (cc \<ge> ch_0 \<and> cc \<le> ch_9) \<or> (cc \<ge> ch_a \<and> cc \<le> ch_z) \<or> (cc \<ge> ch_A \<and> cc \<le> ch_Z)"

section \<open>Reading and putting back\<close>

definition unconsumeCharacters :: "sstring \<Rightarrow> uchar list \<Rightarrow> sstring" where
  "unconsumeCharacters source consumed =
     (case consumed of
        [a] \<Rightarrow> push a source
      | [a, b] \<Rightarrow> push b (push a source)
      | _ \<Rightarrow> prepend source (mkSString consumed))"

datatype EntityState = Initial | Number | MaybeHexLowerCaseX | MaybeHexUpperCaseX | Hex | Decimal | Named

text \<open>
  The result: the boolean returned, the decoded entity, the out-parameter
  \<open>notEnoughCharacters\<close> and the source as it is left.
\<close>

record entity_result =
  success :: bool
  decodedEntity :: "uchar list"
  notEnoughCharacters :: bool
  entitySource :: sstring

definition entity_fail :: "sstring \<Rightarrow> entity_result" where
  "entity_fail source =
     \<lparr>success = False, decodedEntity = [], notEnoughCharacters = False, entitySource = source\<rparr>"

definition entity_decoded :: "uchar list \<Rightarrow> sstring \<Rightarrow> entity_result" where
  "entity_decoded us source =
     \<lparr>success = True, decodedEntity = us, notEnoughCharacters = False, entitySource = source\<rparr>"

definition entity_notEnough :: "sstring \<Rightarrow> uchar list \<Rightarrow> entity_result" where
  "entity_notEnough source consumed =
     \<lparr>success = False, decodedEntity = [], notEnoughCharacters = True,
      entitySource = unconsumeCharacters source consumed\<rparr>"

definition hexValue :: "uchar \<Rightarrow> uchar32" where
  "hexValue cc =
     (if cc \<ge> ch_0 \<and> cc \<le> ch_9 then ucast cc - ucast ch_0
      else if cc \<ge> ch_a \<and> cc \<le> ch_f then 10 + ucast cc - ucast ch_a
      else 10 + ucast cc - ucast ch_A)"

text \<open>
  The inner loop of state \<open>Named\<close>: the last character looked at, the search, the characters
  consumed and the source.
\<close>

partial_function (option) named_loop ::
  "entity_table \<Rightarrow> uchar \<Rightarrow> entity_search \<Rightarrow> uchar list \<Rightarrow> sstring
   \<Rightarrow> (uchar \<times> entity_search \<times> uchar list \<times> sstring) option" where
  "named_loop tbl cc search consumed source =
     (if isEmpty source then Some (cc, search, consumed, source)
      else let cc = current source; search = advance_search tbl cc search
           in if \<not> isEntityPrefix search then Some (cc, search, consumed, source)
              else named_loop tbl cc search (consumed @ [cc]) (advance source))"

text \<open>The loop \<open>for (int i = 0; i < length; ++i)\<close> that reads the matched entity again.\<close>

fun reread_loop :: "nat \<Rightarrow> uchar \<Rightarrow> uchar list \<Rightarrow> sstring \<Rightarrow> uchar \<times> uchar list \<times> sstring" where
  "reread_loop 0 cc consumed source = (cc, consumed, source)"
| "reread_loop (Suc n) cc consumed source =
     reread_loop n (current source) (consumed @ [current source]) (advance source)"

definition named_case ::
  "entity_table \<Rightarrow> uchar \<Rightarrow> uchar \<Rightarrow> uchar list \<Rightarrow> sstring \<Rightarrow> entity_result option" where
  "named_case tbl additionalAllowedCharacter cc consumed source =
     Option.bind (named_loop tbl cc (HTMLEntitySearch_init tbl) consumed source)
       (\<lambda>(cc, search, consumed, source).
          if isEmpty source then Some (entity_notEnough source consumed)
          else case m_mostRecentMatch search of
            None \<Rightarrow> Some (entity_fail (unconsumeCharacters source consumed))
          | Some i \<Rightarrow>
              let (cc, consumed, source) =
                    (if entryLength tbl i \<noteq> m_currentLength search then
                       let (cc, consumed, source) =
                             reread_loop (entryLength tbl i) cc []
                               (unconsumeCharacters source consumed)
                       in (current source, consumed, source)
                     else (cc, consumed, source))
              in if lastCharacter tbl i = ch_SEMI \<or> additionalAllowedCharacter = 0
                    \<or> \<not> (isAlphaNumeric cc \<or> cc = ch_EQ)
                 then Some (entity_decoded
                        (convertToUTF16 (entityValue (staticEntityTable tbl ! i))) source)
                 else Some (entity_fail (unconsumeCharacters source consumed)))"

text \<open>
  \<open>while (!source.isEmpty())\<close> with its switch.  A case that breaks consumes the character
  (\<open>consume\<close>), one that continues looks at the same character in another state.
\<close>

partial_function (option) entity_loop ::
  "entity_table \<Rightarrow> uchar \<Rightarrow> EntityState \<Rightarrow> uchar32 \<Rightarrow> uchar list \<Rightarrow> sstring
   \<Rightarrow> entity_result option" where
  "entity_loop tbl additionalAllowedCharacter entityState result consumed source =
     (if isEmpty source then Some (entity_notEnough source consumed)
      else let cc = current source in
        case entityState of
          Initial \<Rightarrow>
            if cc = ch_TAB \<or> cc = ch_LF \<or> cc = ch_FF \<or> cc = ch_SP \<or> cc = ch_LT \<or> cc = ch_AMP
            then Some (entity_fail source)
            else if additionalAllowedCharacter \<noteq> 0 \<and> cc = additionalAllowedCharacter
            then Some (entity_fail source)
            else if cc = ch_HASH
            then entity_loop tbl additionalAllowedCharacter Number result (consumed @ [cc]) (advance source)
            else if (cc \<ge> ch_a \<and> cc \<le> ch_z) \<or> (cc \<ge> ch_A \<and> cc \<le> ch_Z)
            then entity_loop tbl additionalAllowedCharacter Named result consumed source
            else Some (entity_fail source)
        | Number \<Rightarrow>
            if cc = ch_x
            then entity_loop tbl additionalAllowedCharacter MaybeHexLowerCaseX result
                   (consumed @ [cc]) (advance source)
            else if cc = ch_X
            then entity_loop tbl additionalAllowedCharacter MaybeHexUpperCaseX result
                   (consumed @ [cc]) (advance source)
            else if cc \<ge> ch_0 \<and> cc \<le> ch_9
            then entity_loop tbl additionalAllowedCharacter Decimal result consumed source
            else Some (entity_fail (push ch_HASH source))
        | MaybeHexLowerCaseX \<Rightarrow>
            if isHexDigit cc
            then entity_loop tbl additionalAllowedCharacter Hex result consumed source
            else Some (entity_fail (push ch_x (push ch_HASH source)))
        | MaybeHexUpperCaseX \<Rightarrow>
            if isHexDigit cc
            then entity_loop tbl additionalAllowedCharacter Hex result consumed source
            else Some (entity_fail (push ch_X (push ch_HASH source)))
        | Hex \<Rightarrow>
            if isHexDigit cc
            then entity_loop tbl additionalAllowedCharacter Hex (result * 16 + hexValue cc)
                   (consumed @ [cc]) (advance source)
            else Some (entity_decoded (convertToUTF16 (legalEntityFor result))
                   (if cc = ch_SEMI then advance source else source))
        | Decimal \<Rightarrow>
            if cc \<ge> ch_0 \<and> cc \<le> ch_9
            then entity_loop tbl additionalAllowedCharacter Decimal
                   (result * 10 + ucast cc - ucast ch_0) (consumed @ [cc]) (advance source)
            else Some (entity_decoded (convertToUTF16 (legalEntityFor result))
                   (if cc = ch_SEMI then advance source else source))
        | Named \<Rightarrow> named_case tbl additionalAllowedCharacter cc consumed source)"

definition consumeHTMLEntity ::
  "entity_table \<Rightarrow> sstring \<Rightarrow> uchar \<Rightarrow> entity_result option" where
  "consumeHTMLEntity tbl source additionalAllowedCharacter =
     entity_loop tbl additionalAllowedCharacter Initial 0 [] source"

text \<open>\<open>decodeNamedEntity\<close>; 0 where the name is not an entity's.\<close>

fun decode_loop :: "entity_table \<Rightarrow> uchar list \<Rightarrow> entity_search \<Rightarrow> entity_search option" where
  "decode_loop tbl [] search = Some search"
| "decode_loop tbl (c # name) search =
     (let search = advance_search tbl c search
      in if \<not> isEntityPrefix search then None else decode_loop tbl name search)"

definition decodeNamedEntity :: "entity_table \<Rightarrow> uchar list \<Rightarrow> uchar" where
  "decodeNamedEntity tbl name =
     (case decode_loop tbl name (HTMLEntitySearch_init tbl) of
        None \<Rightarrow> 0
      | Some search \<Rightarrow>
          let entityValue = m_currentValue (advance_search tbl ch_SEMI search)
          in if U_IS_BMP entityValue then ucast entityValue else 0)"

section \<open>Specification\<close>

datatype entity_outcome = NotEnough | NoReference | Reference "uchar list" nat

definition decimalValue :: "uchar list \<Rightarrow> uchar32" where
  "decimalValue ds = foldl (\<lambda>r d. r * 10 + ucast d - ucast ch_0) 0 ds"

definition hexadecimalValue :: "uchar list \<Rightarrow> uchar32" where
  "hexadecimalValue ds = foldl (\<lambda>r d. r * 16 + hexValue d) 0 ds"

text \<open>A numeric reference with the digits \<open>ds\<close>, \<open>n\<close> characters before them, \<open>rest\<close> after them.\<close>

definition numeric_outcome :: "uchar32 \<Rightarrow> nat \<Rightarrow> uchar list \<Rightarrow> entity_outcome" where
  "numeric_outcome v n rest =
     (case rest of [] \<Rightarrow> NotEnough
      | c # _ \<Rightarrow> Reference (convertToUTF16 (legalEntityFor v)) (if c = ch_SEMI then n + 1 else n))"

text \<open>The number of characters of \<open>cs\<close> that are read while they can still lead to an entity.\<close>

fun scanLength :: "entity_table \<Rightarrow> uchar list \<Rightarrow> uchar list \<Rightarrow> nat" where
  "scanLength tbl w [] = length w"
| "scanLength tbl w (c # cs) =
     (if isEntityPrefixOf tbl (w @ [c]) then scanLength tbl (w @ [c]) cs else length w)"

definition named_outcome :: "entity_table \<Rightarrow> uchar \<Rightarrow> uchar list \<Rightarrow> entity_outcome" where
  "named_outcome tbl additionalAllowedCharacter cs =
     (let k = scanLength tbl [] cs in
      if k = length cs then NotEnough
      else case longestEntry tbl (take k cs) k of
        None \<Rightarrow> NoReference
      | Some e \<Rightarrow>
          let n = length (entityName e); next = cs ! n
          in if last (entityName e) = ch_SEMI \<or> additionalAllowedCharacter = 0
                \<or> \<not> (isAlphaNumeric next \<or> next = ch_EQ)
             then Reference (convertToUTF16 (entityValue e)) n else NoReference)"

definition entity_spec :: "entity_table \<Rightarrow> uchar \<Rightarrow> uchar list \<Rightarrow> entity_outcome" where
  "entity_spec tbl additionalAllowedCharacter cs =
     (case cs of
        [] \<Rightarrow> NotEnough
      | c # r \<Rightarrow>
          if c \<in> {ch_TAB, ch_LF, ch_FF, ch_SP, ch_LT, ch_AMP}
             \<or> (additionalAllowedCharacter \<noteq> 0 \<and> c = additionalAllowedCharacter) then NoReference
          else if c = ch_HASH then
            (case r of
               [] \<Rightarrow> NotEnough
             | x # ds \<Rightarrow>
                 if x = ch_x \<or> x = ch_X then
                   (if ds = [] then NotEnough
                    else let hs = takeWhile isHexDigit ds
                         in if hs = [] then NoReference
                            else numeric_outcome (hexadecimalValue hs) (2 + length hs)
                                   (dropWhile isHexDigit ds))
                 else let hs = takeWhile isASCIIDigit r
                      in if hs = [] then NoReference
                         else numeric_outcome (decimalValue hs) (1 + length hs)
                                (dropWhile isASCIIDigit r))
          else if isLetter c then named_outcome tbl additionalAllowedCharacter cs
          else NoReference)"

section \<open>Putting back\<close>

lemma unconsume_facts:
  assumes ok: "sstring_ok s" and p: "pushedChars s = []" and nz: "0 \<notin> set xs"
  shows "sstring_ok (unconsumeCharacters s xs)" "chars (unconsumeCharacters s xs) = xs @ chars s"
    "pushedChars (unconsumeCharacters s xs) = (if length xs \<in> {1, 2} then xs else [])"
    "streamLength (unconsumeCharacters s xs) = streamLength s"
    "m_closed (unconsumeCharacters s xs) = m_closed s"
  using ss.push1 [OF ok p] ss.push2 [OF ok p] ss.prep_ok [OF ok p] ss.content_prep [OF ok p]
    ss.back_prep [OF ok p] ss.total_prep [OF ok p] nz
  by (auto simp: unconsumeCharacters_def split: list.splits)

text \<open>After reading the first \<open>n\<close> characters of \<open>s\<close>: what the loops hold in their variables.\<close>

lemma read_step:
  assumes "sstring_ok s" "n < length (chars s)"
  shows "\<not> isEmpty ((advance ^^ n) s)" "current ((advance ^^ n) s) = chars s ! n"
    "advance ((advance ^^ n) s) = (advance ^^ Suc n) s"
    "take n (chars s) @ [chars s ! n] = take (Suc n) (chars s)"
  using assms ss.adv_funpow [of s n]
  by (simp_all add: ss.empty_iff ss.cur_hd hd_drop_conv_nth take_Suc_conv_app_nth)

lemma read_end:
  assumes "sstring_ok s"
  shows "isEmpty ((advance ^^ length (chars s)) s)"
  using assms ss.adv_funpow [of s "length (chars s)"] by (simp add: ss.empty_iff)

lemma unconsume_read:
  assumes ok: "sstring_ok s" and n: "n \<le> length (chars s)" "length (pushedChars s) \<le> n"
    and nz: "0 \<notin> set (take n (chars s))"
  defines "s' \<equiv> unconsumeCharacters ((advance ^^ n) s) (take n (chars s))"
  shows "sstring_ok s'" "chars s' = chars s" "streamLength s' = streamLength s"
    "m_closed s' = m_closed s"
    "pushedChars s' = (if n \<in> {1, 2} then take n (chars s) else [])"
proof -
  note f = ss.adv_funpow [OF ok n(1)] ss.total_adv_funpow [OF ok n(1)]
  then have p: "pushedChars ((advance ^^ n) s) = []" using n(2) by simp
  note u = unconsume_facts [OF _ p nz]
  have len: "length (take n (chars s)) = n" using n(1) by simp
  show "sstring_ok s'" "chars s' = chars s" "streamLength s' = streamLength s"
    "m_closed s' = m_closed s" "pushedChars s' = (if n \<in> {1, 2} then take n (chars s) else [])"
    using f u len unfolding s'_def by simp_all
qed

section \<open>Numeric references\<close>

lemma takeWhile_drop_step:
  "n < length cs \<Longrightarrow> P (cs ! n) \<Longrightarrow>
   takeWhile P (drop n cs) = cs ! n # takeWhile P (drop (Suc n) cs)"
  by (simp flip: Cons_nth_drop_Suc)

lemma takeWhile_drop_stop: "n < length cs \<Longrightarrow> \<not> P (cs ! n) \<Longrightarrow> takeWhile P (drop n cs) = []"
  by (simp flip: Cons_nth_drop_Suc)

text \<open>What a digit loop that stands at \<open>m\<close> with value \<open>v\<close> returns.\<close>

definition digits_end :: "sstring \<Rightarrow> uchar32 \<Rightarrow> nat \<Rightarrow> entity_result" where
  "digits_end s v m =
     (if m = length (chars s) then entity_notEnough ((advance ^^ m) s) (chars s)
      else entity_decoded (convertToUTF16 (legalEntityFor v))
             ((advance ^^ (if chars s ! m = ch_SEMI then Suc m else m)) s))"

lemma decimal_loop:
  assumes ok: "sstring_ok s" and n: "n \<le> length (chars s)"
  shows "entity_loop tbl aac Decimal r (take n (chars s)) ((advance ^^ n) s)
       = Some (digits_end s
                (foldl (\<lambda>r d. r * 10 + ucast d - ucast ch_0) r
                   (takeWhile isASCIIDigit (drop n (chars s))))
                (n + length (takeWhile isASCIIDigit (drop n (chars s)))))"
  using n
proof (induction "length (chars s) - n" arbitrary: n r)
  case 0
  then have "n = length (chars s)" by simp
  then show ?case
    using read_end [OF ok] by (simp add: entity_loop.simps digits_end_def)
next
  case (Suc k)
  then have n: "n < length (chars s)" by simp
  note r = read_step [OF ok n]
  show ?case
  proof (cases "isASCIIDigit (chars s ! n)")
    case True
    then have "entity_loop tbl aac Decimal r (take n (chars s)) ((advance ^^ n) s)
        = entity_loop tbl aac Decimal (r * 10 + ucast (chars s ! n) - ucast ch_0)
            (take (Suc n) (chars s)) ((advance ^^ Suc n) s)"
      using r by (subst entity_loop.simps) (simp add: isASCIIDigit_def Let_def del: funpow.simps)
    also have "\<dots> = Some (digits_end s
                (foldl (\<lambda>r d. r * 10 + ucast d - ucast ch_0) r
                   (takeWhile isASCIIDigit (drop n (chars s))))
                (n + length (takeWhile isASCIIDigit (drop n (chars s)))))"
      using Suc.hyps(1) [of "Suc n"] Suc.hyps(2) n True
      by (simp add: takeWhile_drop_step del: funpow.simps)
    finally show ?thesis .
  next
    case False
    then have nd: "\<not> (ch_0 \<le> chars s ! n \<and> chars s ! n \<le> ch_9)" by (simp add: isASCIIDigit_def)
    show ?thesis
      using r n nd False by (subst entity_loop.simps)
        (simp add: Let_def takeWhile_drop_stop digits_end_def del: de_Morgan_conj)
  qed
qed

lemma hex_loop:
  assumes ok: "sstring_ok s" and n: "n \<le> length (chars s)"
  shows "entity_loop tbl aac Hex r (take n (chars s)) ((advance ^^ n) s)
       = Some (digits_end s
                (foldl (\<lambda>r d. r * 16 + hexValue d) r (takeWhile isHexDigit (drop n (chars s))))
                (n + length (takeWhile isHexDigit (drop n (chars s)))))"
  using n
proof (induction "length (chars s) - n" arbitrary: n r)
  case 0
  then have "n = length (chars s)" by simp
  then show ?case
    using read_end [OF ok] by (simp add: entity_loop.simps digits_end_def)
next
  case (Suc k)
  then have n: "n < length (chars s)" by simp
  note r = read_step [OF ok n]
  show ?case
  proof (cases "isHexDigit (chars s ! n)")
    case True
    then have "entity_loop tbl aac Hex r (take n (chars s)) ((advance ^^ n) s)
        = entity_loop tbl aac Hex (r * 16 + hexValue (chars s ! n))
            (take (Suc n) (chars s)) ((advance ^^ Suc n) s)"
      using r by (subst entity_loop.simps) (simp add: Let_def del: funpow.simps)
    also have "\<dots> = Some (digits_end s
                (foldl (\<lambda>r d. r * 16 + hexValue d) r (takeWhile isHexDigit (drop n (chars s))))
                (n + length (takeWhile isHexDigit (drop n (chars s)))))"
      using Suc.hyps(1) [of "Suc n"] Suc.hyps(2) n True
      by (simp add: takeWhile_drop_step del: funpow.simps)
    finally show ?thesis .
  next
    case False
    then show ?thesis
      using r n by (subst entity_loop.simps)
        (simp add: Let_def takeWhile_drop_stop digits_end_def)
  qed
qed

section \<open>Named references\<close>

lemma scanLength_append: "scanLength tbl w cs \<le> length w + length cs \<and> length w \<le> scanLength tbl w cs"
  by (induction tbl w cs rule: scanLength.induct) auto

lemma scanLength_prefix:
  "isEntityPrefixOf tbl w \<or> w = [] \<Longrightarrow>
   isEntityPrefixOf tbl (take (scanLength tbl w cs) (w @ cs)) \<or> scanLength tbl w cs = 0"
  by (induction tbl w cs rule: scanLength.induct) auto

lemma scanLength_stop:
  "scanLength tbl w cs < length (w @ cs) \<Longrightarrow>
   \<not> isEntityPrefixOf tbl (take (Suc (scanLength tbl w cs)) (w @ cs))"
proof (induction tbl w cs rule: scanLength.induct)
  case (2 tbl w c cs)
  then show ?case by (cases "isEntityPrefixOf tbl (w @ [c])") auto
qed simp

lemma scanLength_ge:
  assumes "isEntityPrefixOf tbl (take m cs)" "m \<le> length cs"
  shows "m \<le> scanLength tbl [] cs"
proof (rule ccontr)
  assume "\<not> m \<le> scanLength tbl [] cs"
  then have less: "scanLength tbl [] cs < m" by simp
  then have "\<not> isEntityPrefixOf tbl (take (Suc (scanLength tbl [] cs)) cs)"
    using scanLength_stop [of tbl "[]" cs] assms(2) by simp
  moreover have "take m cs = take (Suc (scanLength tbl [] cs)) cs
      @ drop (Suc (scanLength tbl [] cs)) (take m cs)"
    using less by (metis Suc_leI append_take_drop_id min.absorb1 take_take)
  ultimately show False using assms(1) isEntityPrefixOf_append by metis
qed

lemma letter_is_prefix: "table_ok tbl \<Longrightarrow> isLetter c \<Longrightarrow> isEntityPrefixOf tbl [c]"
proof -
  assume tbl: "table_ok tbl" and c: "isLetter c"
  from advance_search_start [OF tbl c] obtain f l where "f \<le> l" "l < length (staticEntityTable tbl)"
    "\<forall>i < length (staticEntityTable tbl). f \<le> i \<and> i \<le> l \<longleftrightarrow> visible tbl i \<and> prefix [c] (nameAt tbl i)"
    by (auto simp: search_inv_def)
  then show ?thesis unfolding isEntityPrefixOf_def by (meson order_refl order.strict_trans1)
qed

lemma prefix_chars: "names_ok (staticEntityTable tbl) \<Longrightarrow> isEntityPrefixOf tbl w \<Longrightarrow> list_all isNameChar w"
proof -
  assume ok: "names_ok (staticEntityTable tbl)" and "isEntityPrefixOf tbl w"
  then obtain i v where "i < length (staticEntityTable tbl)" "nameAt tbl i = w @ v"
    by (auto simp: isEntityPrefixOf_def prefix_def)
  then have "list_all isNameChar (w @ v)" using ok nth_mem unfolding names_ok_def by metis
  then show ?thesis by simp
qed

lemma isNameChar_zero [simp]: "\<not> isNameChar 0"
  by (simp add: isNameChar_def isLetter_def)

lemma search_inv_first: "search_inv tbl w s \<Longrightarrow> isEntityPrefix s"
  by (auto simp: search_inv_def isEntityPrefix_def)

lemma named_loop_run:
  assumes ok: "sstring_ok s" and tbl: "table_ok tbl" and ne: "chars s \<noteq> []"
    and hd: "isLetter (hd (chars s))" and n: "n \<le> scanLength tbl [] (chars s)"
    and w: "isEntityPrefixOf tbl (take n (chars s)) \<or> n = 0"
  defines "k \<equiv> scanLength tbl [] (chars s)"
  shows "\<exists>cc search. named_loop tbl c (search_word tbl (take n (chars s))) (take n (chars s))
            ((advance ^^ n) s) = Some (cc, search, take k (chars s), (advance ^^ k) s)
          \<and> m_mostRecentMatch search = m_mostRecentMatch (search_word tbl (take k (chars s)))
          \<and> m_currentLength search = k
          \<and> (k < length (chars s) \<longrightarrow> cc = chars s ! k)"
  using n w
proof (induction "length (chars s) - n" arbitrary: n c rule: less_induct)
  case less
  let ?cs = "chars s"
  have klen: "k \<le> length ?cs" using scanLength_append [of tbl "[]" ?cs] by (simp add: k_def)
  have hd': "isLetter (hd (take m ?cs))" if "0 < m" for m using hd ne that by (cases ?cs) auto
  have inv: "search_inv tbl (take m ?cs) (search_word tbl (take m ?cs))"
    if "0 < m" "isEntityPrefixOf tbl (take m ?cs)" for m
    using search_word_inv [OF tbl hd' [OF that(1)] _ that(2)] that(1) ne by (cases ?cs) auto
  show ?case
  proof (cases "n = length ?cs")
    case True
    then have k: "k = n" using less.prems klen by (simp add: k_def)
    have "0 < n" using True ne by simp
    then show ?thesis
      using True less.prems(2) k read_end [OF ok] inv [of n]
      by (simp add: named_loop.simps search_inv_def)
  next
    case False
    then have n: "n < length ?cs" using less.prems klen by (simp add: k_def)
    note r = read_step [OF ok n]
    have snoc: "advance_search tbl (?cs ! n) (search_word tbl (take n ?cs))
                = search_word tbl (take (Suc n) ?cs)"
      by (simp flip: r(4) search_word_snoc)
    show ?thesis
    proof (cases "isEntityPrefixOf tbl (take (Suc n) ?cs)")
      case True
      then have "Suc n \<le> k" using scanLength_ge n unfolding k_def by (metis Suc_leI)
      have pre: "isEntityPrefix (search_word tbl (take (Suc n) ?cs))"
        using inv [OF _ True] search_inv_first by blast
      have "named_loop tbl c (search_word tbl (take n ?cs)) (take n ?cs) ((advance ^^ n) s)
          = named_loop tbl (?cs ! n) (search_word tbl (take (Suc n) ?cs)) (take (Suc n) ?cs)
              ((advance ^^ Suc n) s)"
        using r pre by (subst named_loop.simps) (simp add: snoc Let_def del: funpow.simps)
      then show ?thesis
        using less.hyps [of "Suc n" "?cs ! n"] n True \<open>Suc n \<le> k\<close>
        by (simp add: k_def del: funpow.simps)
    next
      case F: False
      have kn: "k = n"
      proof (rule ccontr)
        assume "k \<noteq> n"
        then have "Suc n \<le> k" using less.prems(1) by (simp add: k_def)
        moreover have "isEntityPrefixOf tbl (take k ?cs)"
          using scanLength_prefix [of tbl "[]" ?cs] \<open>Suc n \<le> k\<close> by (auto simp: k_def)
        then have "isEntityPrefixOf tbl (take (Suc n) ?cs)"
          using \<open>Suc n \<le> k\<close> isEntityPrefixOf_append
          by (metis append_take_drop_id min.absorb1 take_take)
        ultimately show False using F by blast
      qed
      have n0: "0 < n"
      proof (rule ccontr)
        assume "\<not> 0 < n"
        then have "take (Suc n) ?cs = [hd ?cs]" using ne by (cases ?cs) auto
        then show False using F letter_is_prefix [OF tbl hd] by simp
      qed
      then have w: "isEntityPrefixOf tbl (take n ?cs)" using less.prems(2) by simp
      have "search_word tbl (take (Suc n) ?cs) = search_fail (search_word tbl (take n ?cs))"
      proof -
        have names: "names_ok (staticEntityTable tbl)" using tbl by (simp add: table_ok_def)
        have "take n ?cs \<noteq> []" using n0 ne by simp
        from advance_search_inv(2) [OF names inv [OF n0 w] this, of "?cs ! n"] F
        show ?thesis by (simp only: snoc r(4) not_False_eq_True)
      qed
      then have "named_loop tbl c (search_word tbl (take n ?cs)) (take n ?cs) ((advance ^^ n) s)
          = Some (?cs ! n, search_fail (search_word tbl (take n ?cs)), take n ?cs, (advance ^^ n) s)"
        using r by (subst named_loop.simps) (simp add: snoc Let_def isEntityPrefix_def search_fail_def)
      then show ?thesis
        using kn inv [OF n0 w] n by (simp add: search_fail_def search_inv_def)
    qed
  qed
qed

lemma reread_loop_run:
  "sstring_ok s \<Longrightarrow> m + n \<le> length (chars s) \<Longrightarrow>
   \<exists>c'. reread_loop n c (take m (chars s)) ((advance ^^ m) s)
     = (c', take (m + n) (chars s), (advance ^^ (m + n)) s)"
proof (induction n arbitrary: m c)
  case (Suc n)
  then have "m < length (chars s)" by simp
  note r = read_step [OF Suc.prems(1) this]
  show ?case
    using Suc.IH [of "Suc m" "chars s ! m"] Suc.prems r by (simp del: funpow.simps)
qed simp

section \<open>The code implements the specification\<close>

text \<open>
  The characters a previous call may have pushed back when it ran out of input, and the ones that
  can be in front of the source after it gave up.
\<close>

definition entity_reentry :: "entity_table \<Rightarrow> uchar list \<Rightarrow> bool" where
  "entity_reentry tbl p \<longleftrightarrow>
     p = [] \<or> p = [ch_HASH] \<or> p = [ch_HASH, ch_x] \<or> p = [ch_HASH, ch_X]
     \<or> (\<exists>d. p = [ch_HASH, d] \<and> isASCIIDigit d)
     \<or> (isLetter (hd p) \<and> isEntityPrefixOf tbl p)"

definition isReferenceChar :: "uchar \<Rightarrow> bool" where
  "isReferenceChar c \<longleftrightarrow> c = ch_HASH \<or> isNameChar c"

definition implements :: "entity_table \<Rightarrow> sstring \<Rightarrow> entity_outcome \<Rightarrow> entity_result \<Rightarrow> bool" where
  "implements tbl s out r \<longleftrightarrow>
     sstring_ok (entitySource r) \<and> streamLength (entitySource r) = streamLength s
     \<and> m_closed (entitySource r) = m_closed s
     \<and> (case out of
          NotEnough \<Rightarrow> \<not> success r \<and> notEnoughCharacters r \<and> decodedEntity r = []
                        \<and> chars (entitySource r) = chars s
                        \<and> entity_reentry tbl (pushedChars (entitySource r))
        | NoReference \<Rightarrow> \<not> success r \<and> \<not> notEnoughCharacters r \<and> decodedEntity r = []
                        \<and> chars (entitySource r) = chars s
                        \<and> list_all isReferenceChar (pushedChars (entitySource r))
        | Reference us n \<Rightarrow> success r \<and> \<not> notEnoughCharacters r \<and> decodedEntity r = us
                        \<and> chars (entitySource r) = drop n (chars s)
                        \<and> pushedChars (entitySource r) = [])"

lemma implements_notEnough:
  assumes "sstring_ok s" "n \<le> length (chars s)" "length (pushedChars s) \<le> n"
    "0 \<notin> set (take n (chars s))"
    "n \<le> 2 \<Longrightarrow> entity_reentry tbl (take n (chars s))"
  shows "implements tbl s NotEnough (entity_notEnough ((advance ^^ n) s) (take n (chars s)))"
  using unconsume_read [OF assms(1-4)] assms(5)
  by (auto simp: implements_def entity_notEnough_def entity_reentry_def [of _ "[]"])

lemma implements_fail:
  assumes "sstring_ok s" "n \<le> length (chars s)" "length (pushedChars s) \<le> n"
    "list_all isReferenceChar (take n (chars s))"
  shows "implements tbl s NoReference
           (entity_fail (unconsumeCharacters ((advance ^^ n) s) (take n (chars s))))"
proof -
  have "0 \<notin> set (take n (chars s))"
    using assms(4) by (auto simp: list_all_iff isReferenceChar_def)
  from unconsume_read [OF assms(1-3) this] assms(4) show ?thesis
    by (auto simp: implements_def entity_fail_def)
qed

lemma implements_fail_push:
  assumes ok: "sstring_ok s" and n: "n \<le> length (chars s)" "length (pushedChars s) \<le> n"
    and hash: "take n (chars s) = [ch_HASH]
             \<or> (\<exists>x. take n (chars s) = [ch_HASH, x] \<and> (x = ch_x \<or> x = ch_X))"
  shows "implements tbl s NoReference
           (entity_fail (case take n (chars s) of
              [a] \<Rightarrow> push a ((advance ^^ n) s)
            | [a, b] \<Rightarrow> push b (push a ((advance ^^ n) s))
            | _ \<Rightarrow> s))"
proof -
  have "list_all isReferenceChar (take n (chars s))"
    using hash by (auto simp: isReferenceChar_def isNameChar_def isLetter_def)
  from implements_fail [OF ok n this, of tbl] hash show ?thesis
    by (auto simp: unconsumeCharacters_def)
qed

lemma implements_decoded:
  assumes "sstring_ok s" "n \<le> length (chars s)" "length (pushedChars s) \<le> n"
  shows "implements tbl s (Reference us n) (entity_decoded us ((advance ^^ n) s))"
  using ss.adv_funpow [OF assms(1,2)] ss.total_adv_funpow [OF assms(1,2)] assms(3)
  by (simp add: implements_def entity_decoded_def)

text \<open>A digit loop that started after \<open>n\<close> characters, none of them NUL.\<close>

lemma implements_digits:
  assumes ok: "sstring_ok s" and n: "n \<le> length (chars s)" "length (pushedChars s) \<le> n + length hs"
    and hs: "hs = takeWhile P (drop n (chars s))" "hs \<noteq> []" and P: "\<not> P 0" "0 < n"
    and re: "0 \<notin> set (take n (chars s))" "n + length hs \<le> 2 \<Longrightarrow> entity_reentry tbl (take (n + length hs) (chars s))"
  shows "implements tbl s (numeric_outcome v (n + length hs) (dropWhile P (drop n (chars s))))
           (digits_end s v (n + length hs))"
proof -
  let ?m = "n + length hs"
  have le: "?m \<le> length (chars s)"
    using hs(1) length_takeWhile_le [of P "drop n (chars s)"] n(1) by simp
  have rest: "dropWhile P (drop n (chars s)) = drop ?m (chars s)"
    using hs(1) by (simp add: dropWhile_eq_drop add.commute)
  have "take ?m (chars s) = take n (chars s) @ hs"
    using hs(1) by (simp add: take_add takeWhile_eq_take [symmetric])
  moreover have "0 \<notin> set hs" using hs(1) P(1) set_takeWhileD by metis
  ultimately have nz: "0 \<notin> set (take ?m (chars s))" using re(1) by simp
  show ?thesis
  proof (cases "?m = length (chars s)")
    case True
    then show ?thesis
      using implements_notEnough [OF ok le _ nz] n(2) re(2)
      by (simp add: rest numeric_outcome_def digits_end_def)
  next
    case False
    then have lt: "?m < length (chars s)" using le by simp
    then have "drop ?m (chars s) = chars s ! ?m # drop (Suc ?m) (chars s)"
      by (simp add: Cons_nth_drop_Suc)
    then show ?thesis
      using lt n(2) implements_decoded [OF ok, of ?m] implements_decoded [OF ok, of "Suc ?m"]
      by (simp add: rest numeric_outcome_def digits_end_def)
  qed
qed

lemma implements_cong:
  "implements tbl s' out r \<Longrightarrow> chars s' = chars s \<Longrightarrow> streamLength s' = streamLength s \<Longrightarrow>
   m_closed s' = m_closed s \<Longrightarrow> implements tbl s out r"
  by (cases out) (simp_all add: implements_def)

lemma longestEntry_Some:
  "longestEntry tbl w n = Some e \<Longrightarrow> n \<le> length w \<Longrightarrow>
   e \<in> set (staticEntityTable tbl) \<and> length (entityName e) \<le> n
   \<and> take (length (entityName e)) w = entityName e"
proof (induction n)
  case (Suc n)
  show ?case
  proof (cases "entryNamed tbl (take (Suc n) w)")
    case (Some e')
    then have "e' \<in> set (staticEntityTable tbl)" "entityName e' = take (Suc n) w"
      by (auto simp: entryNamed_def find_Some_iff)
    with Some Suc.prems show ?thesis by auto
  qed (use Suc in auto)
qed simp

lemma named_case_implements:
  assumes ok: "sstring_ok s" and tbl: "table_ok tbl" and ne: "chars s \<noteq> []"
    and hd: "isLetter (hd (chars s))" and re: "entity_reentry tbl (pushedChars s)"
  shows "\<exists>r. named_case tbl aac c [] s = Some r
           \<and> implements tbl s (named_outcome tbl aac (chars s)) r"
proof -
  let ?cs = "chars s"
  define k where "k = scanLength tbl [] ?cs"
  define search0 where "search0 = search_word tbl (take k ?cs)"
  have names: "names_ok (staticEntityTable tbl)" using tbl by (simp add: table_ok_def)
  have klen: "k \<le> length ?cs" using scanLength_append [of tbl "[]" ?cs] by (simp add: k_def)
  have "1 \<le> k"
    using scanLength_ge [of tbl 1 ?cs] letter_is_prefix [OF tbl hd] ne
    by (cases ?cs) (auto simp: k_def)
  then have pre: "isEntityPrefixOf tbl (take k ?cs)"
    using scanLength_prefix [of tbl "[]" ?cs] by (auto simp: k_def)
  have ne': "take k ?cs \<noteq> []" and hd': "hd (take k ?cs) = hd ?cs"
    using \<open>1 \<le> k\<close> ne by (cases ?cs; cases k; simp)+
  have pk: "length (pushedChars s) \<le> k"
  proof (cases "pushedChars s = []")
    case False
    then have pfx: "pushedChars s = take (length (pushedChars s)) ?cs" by (simp add: chars_def)
    then have "hd (pushedChars s) = hd ?cs" using False by (simp add: chars_def)
    then have "isEntityPrefixOf tbl (pushedChars s)"
      using hd re False by (auto simp: entity_reentry_def isLetter_def)
    then show ?thesis
      using scanLength_ge [of tbl "length (pushedChars s)" ?cs] pfx pushedChars_le_chars [of s]
      by (simp add: k_def)
  qed simp
  have inv: "search_inv tbl (take k ?cs) search0"
    using search_word_inv [OF tbl _ ne' pre] hd hd' by (simp add: search0_def)
  have recent: "map_option (nth (staticEntityTable tbl)) (m_mostRecentMatch search0)
                = longestEntry tbl (take k ?cs) k"
    using inv klen by (simp add: search_inv_def)
  have refs: "list_all isReferenceChar (take m ?cs)" if "m \<le> k" for m
  proof -
    have "list_all isNameChar (take k ?cs)" by (rule prefix_chars [OF names pre])
    then have "list_all isNameChar (take m (take k ?cs))"
      by (metis append_take_drop_id list_all_append)
    then show ?thesis using that by (auto simp: list_all_iff isReferenceChar_def min_def)
  qed
  have nz: "0 \<notin> set (take k ?cs)"
    using refs [of k] by (auto simp: list_all_iff isReferenceChar_def)
  obtain cc search where run: "named_loop tbl c (HTMLEntitySearch_init tbl) [] s
      = Some (cc, search, take k ?cs, (advance ^^ k) s)"
    and m: "m_mostRecentMatch search = m_mostRecentMatch search0" "m_currentLength search = k"
    and cc: "k < length ?cs \<Longrightarrow> cc = ?cs ! k"
    using named_loop_run [OF ok tbl ne hd, of 0 c] by (auto simp: search_word_def k_def search0_def)
  note adv = ss.adv_funpow [OF ok klen]
  show ?thesis
  proof (cases "k = length ?cs")
    case True
    have "entity_reentry tbl (take k ?cs)" using hd hd' pre by (simp add: entity_reentry_def)
    then have "implements tbl s NotEnough (entity_notEnough ((advance ^^ k) s) (take k ?cs))"
      by (rule implements_notEnough [OF ok klen pk nz])
    then show ?thesis
      using True adv run
      by (simp add: named_case_def ss.empty_iff named_outcome_def flip: k_def)
  next
    case False
    then have lt: "k < length ?cs" using klen by simp
    have out: "named_outcome tbl aac ?cs = (case longestEntry tbl (take k ?cs) k of
        None \<Rightarrow> NoReference
      | Some e \<Rightarrow>
          let n = length (entityName e); next = ?cs ! n
          in if last (entityName e) = ch_SEMI \<or> aac = 0 \<or> \<not> (isAlphaNumeric next \<or> next = ch_EQ)
             then Reference (convertToUTF16 (entityValue e)) n else NoReference)"
      using False by (simp add: named_outcome_def flip: k_def)
    show ?thesis
    proof (cases "m_mostRecentMatch search0")
      case None
      then show ?thesis
        using recent out run m lt adv implements_fail [OF ok klen pk refs [OF order_refl], of tbl]
        by (simp add: named_case_def ss.empty_iff)
    next
      case (Some i)
      define e where "e = staticEntityTable tbl ! i"
      define n where "n = length (entityName e)"
      have le: "longestEntry tbl (take k ?cs) k = Some e" using recent Some by (simp add: e_def)
      have "k \<le> length (take k ?cs)" using klen by simp
      from longestEntry_Some [OF le this] have
        e: "e \<in> set (staticEntityTable tbl)" "n \<le> k" "take n ?cs = entityName e"
        unfolding n_def by (metis min.absorb1 take_take)+
      have n2: "2 \<le> n" using names e(1) by (simp add: names_ok_def n_def)
      then have last: "lastCharacter tbl i = last (entityName e)"
        using last_conv_nth [of "entityName e"]
        by (force simp: lastCharacter_def entryLength_def n_def simp flip: e_def)
      have el: "entryLength tbl i = n" by (simp add: entryLength_def n_def e_def)
      have finish: "\<exists>r. (if lastCharacter tbl i = ch_SEMI \<or> aac = 0
              \<or> \<not> (isAlphaNumeric (?cs ! n) \<or> ?cs ! n = ch_EQ)
           then Some (entity_decoded (convertToUTF16 (entityValue e)) ((advance ^^ n) s'))
           else Some (entity_fail (unconsumeCharacters ((advance ^^ n) s') (take n ?cs)))) = Some r
         \<and> implements tbl s (named_outcome tbl aac ?cs) r"
        if s': "sstring_ok s'" "chars s' = ?cs" "streamLength s' = streamLength s"
          "m_closed s' = m_closed s" "length (pushedChars s') \<le> n" for s'
      proof -
        have n': "n \<le> length (chars s')" using e(2) klen s'(2) by simp
        have refs': "list_all isReferenceChar (take n (chars s'))" using refs [OF e(2)] s'(2) by simp
        note d = implements_decoded [OF s'(1) n' s'(5), of tbl, THEN implements_cong]
          and f = implements_fail [OF s'(1) n' s'(5) refs', of tbl, THEN implements_cong]
        show ?thesis using d f s' by (simp add: out le last n_def Let_def)
      qed
      show ?thesis
      proof (cases "n = k")
        case True
        have "length (pushedChars s) \<le> n" using pk True by simp
        from finish [OF ok refl refl refl this] show ?thesis
          using True run m lt adv Some cc
          by (auto simp: named_case_def ss.empty_iff el Let_def simp flip: e_def split: if_splits)
      next
        case F: False
        then have k3: "k \<notin> {1, 2}" using e(2) n2 by auto
        let ?s = "unconsumeCharacters ((advance ^^ k) s) (take k ?cs)"
        note u = unconsume_read [OF ok klen pk nz]
        have n': "0 + n \<le> length (chars ?s)" using e(2) klen u(2) by simp
        from reread_loop_run [OF u(1) n', of cc] obtain c' where
          rr: "reread_loop n cc [] ?s = (c', take n ?cs, (advance ^^ n) ?s)" using u(2) by auto
        have cur: "current ((advance ^^ n) ?s) = ?cs ! n"
          using read_step(2) [OF u(1), of n] u(2) e(2) lt by simp
        have "length (pushedChars ?s) \<le> n" using u(5) k3 by simp
        from finish [OF u(1-4) this] show ?thesis
          using F run m lt adv Some rr cur
          by (auto simp: named_case_def ss.empty_iff el Let_def simp flip: e_def split: if_splits)
      qed
    qed
  qed
qed

lemma numeric_prefix_reentry:
  "isASCIIDigit d \<Longrightarrow> entity_reentry tbl [ch_HASH, d]" "entity_reentry tbl [ch_HASH]"
  "entity_reentry tbl [ch_HASH, ch_x]" "entity_reentry tbl [ch_HASH, ch_X]" "entity_reentry tbl []"
  by (auto simp: entity_reentry_def)

lemma entity_spec_letter:
  "isLetter c \<Longrightarrow> aac = 0 \<or> c \<noteq> aac \<Longrightarrow> entity_spec tbl aac (c # r) = named_outcome tbl aac (c # r)"
  by (auto simp: entity_spec_def isLetter_def)

text \<open>What can be pushed back in front of a hash sign and the characters after it.\<close>

lemma reentry_hash:
  assumes re: "entity_reentry tbl (pushedChars s)" and cs: "chars s = ch_HASH # r"
  shows "pushedChars s = take (length (pushedChars s)) (ch_HASH # r)"
    "length (pushedChars s) \<le> 1 \<or> length (pushedChars s) = 2 \<and> r \<noteq> []
       \<and> (hd r = ch_x \<or> hd r = ch_X \<or> isASCIIDigit (hd r))"
proof -
  show p: "pushedChars s = take (length (pushedChars s)) (ch_HASH # r)"
    unfolding cs [symmetric] by (simp add: chars_def)
  have hd: "pushedChars s \<noteq> [] \<Longrightarrow> hd (pushedChars s) = ch_HASH"
    using p by (cases "pushedChars s") auto
  consider "length (pushedChars s) \<le> 1"
    | x where "pushedChars s = [ch_HASH, x]" "x = ch_x \<or> x = ch_X \<or> isASCIIDigit x"
    using re hd by (fastforce simp: entity_reentry_def isLetter_def)
  then show "length (pushedChars s) \<le> 1 \<or> length (pushedChars s) = 2 \<and> r \<noteq> []
       \<and> (hd r = ch_x \<or> hd r = ch_X \<or> isASCIIDigit (hd r))"
    by cases (use p in \<open>cases r; auto\<close>)+
qed

lemma number_implements:
  assumes ok: "sstring_ok s" and re: "entity_reentry tbl (pushedChars s)"
    and cs: "chars s = ch_HASH # r" and aac: "aac \<noteq> ch_HASH"
  shows "\<exists>res. entity_loop tbl aac Number 0 [ch_HASH] (advance s) = Some res
           \<and> implements tbl s (entity_spec tbl aac (chars s)) res"
proof -
  let ?cs = "chars s"
  note p = reentry_hash [OF re cs]
  have t1: "take 1 ?cs = [ch_HASH]" by (simp add: cs)
  have len: "1 \<le> length ?cs" by (simp add: cs)
  have adv: "advance s = (advance ^^ 1) s" by simp
  note a1 = ss.adv_funpow [OF ok len]
  consider "r = []" | x ds where "r = x # ds" "x \<noteq> ch_x" "x \<noteq> ch_X" "\<not> isASCIIDigit x"
    | x ds where "r = x # ds" "isASCIIDigit x"
    | x ds where "r = x # ds" "x = ch_x \<or> x = ch_X" by (cases r) auto
  then show ?thesis
  proof cases
    case 1
    then have "isEmpty (advance s)" using a1 by (simp add: ss.empty_iff cs)
    moreover have "implements tbl s NotEnough (entity_notEnough (advance s) [ch_HASH])"
      using implements_notEnough [OF ok len, of tbl] p 1 by (simp add: t1 cs numeric_prefix_reentry)
    ultimately show ?thesis
      using 1 aac by (simp add: entity_loop.simps cs entity_spec_def)
  next
    case (2 x ds)
    have lt: "1 < length ?cs" using 2 by (simp add: cs)
    note rd = read_step [OF ok lt]
    have nd: "\<not> (ch_0 \<le> x \<and> x \<le> ch_9)" using 2 by (simp add: isASCIIDigit_def)
    have "length (pushedChars s) \<le> 1" using p(2) 2 by auto
    from implements_fail_push [OF ok len this, of tbl] show ?thesis
      using rd nd 2 aac
      by (simp add: entity_loop.simps [of tbl aac Number] cs entity_spec_def del: de_Morgan_conj)
  next
    case (3 x ds)
    have lt: "1 < length ?cs" using 3 by (simp add: cs)
    note rd = read_step [OF ok lt]
    have nx: "x \<noteq> ch_x" "x \<noteq> ch_X" and d: "ch_0 \<le> x" "x \<le> ch_9"
      using 3 by (auto simp: isASCIIDigit_def)
    have step: "entity_loop tbl aac Number 0 [ch_HASH] (advance s)
        = entity_loop tbl aac Decimal 0 (take 1 ?cs) ((advance ^^ 1) s)"
      using rd nx d 3 by (subst entity_loop.simps) (simp add: cs Let_def)
    let ?hs = "takeWhile isASCIIDigit (drop 1 ?cs)"
    have hs: "?hs = takeWhile isASCIIDigit r" "?hs \<noteq> []" using 3 by (simp_all add: cs)
    have pl: "length (pushedChars s) \<le> 1 + length ?hs" using p(2) hs(2) by (cases ?hs) auto
    have re': "entity_reentry tbl (take (1 + length ?hs) ?cs)" if "1 + length ?hs \<le> 2"
    proof -
      have "length ?hs = 1" using that hs(2) by (cases ?hs) auto
      then show ?thesis using 3 by (simp add: cs numeric_prefix_reentry)
    qed
    have "implements tbl s (numeric_outcome (decimalValue ?hs) (1 + length ?hs)
            (dropWhile isASCIIDigit (drop 1 ?cs))) (digits_end s (decimalValue ?hs) (1 + length ?hs))"
      by (rule implements_digits [OF ok len pl refl hs(2) _ _ _ re']) (simp_all add: t1 [simplified])
    then show ?thesis
      using step decimal_loop [OF ok len, of tbl aac 0] hs aac nx 3
      by (simp add: cs entity_spec_def decimalValue_def)
  next
    case (4 x ds)
    have lt: "1 < length ?cs" using 4 by (simp add: cs)
    have len2: "2 \<le> length ?cs" using 4 by (simp add: cs)
    have p2: "length (pushedChars s) \<le> 2" by (rule length_pushedChars)
    have t2: "take 2 ?cs = [ch_HASH, x]" using 4 by (simp add: cs)
    note rd = read_step [OF ok lt]
    define st where "st = (if x = ch_x then MaybeHexLowerCaseX else MaybeHexUpperCaseX)"
    have adv2: "advance (advance s) = (advance ^^ 2) s" by (simp add: numeral_2_eq_2)
    have step: "entity_loop tbl aac Number 0 [ch_HASH] (advance s)
        = entity_loop tbl aac st 0 [ch_HASH, x] ((advance ^^ 2) s)"
      using rd 4 by (subst entity_loop.simps) (auto simp: cs Let_def st_def adv2)
    show ?thesis
    proof (cases ds)
      case Nil
      then have "isEmpty ((advance ^^ 2) s)"
        using read_end [OF ok] 4 by (simp add: cs numeral_2_eq_2)
      moreover have "implements tbl s NotEnough (entity_notEnough ((advance ^^ 2) s) [ch_HASH, x])"
        using implements_notEnough [OF ok len2 p2, of tbl] 4 by (auto simp: t2 numeric_prefix_reentry)
      ultimately show ?thesis
        using 4 Nil aac by (auto simp: step entity_loop.simps [of _ _ st] cs entity_spec_def)
    next
      case (Cons d ds')
      then have lt2: "2 < length ?cs" using 4 by (simp add: cs)
      have d: "?cs ! 2 = d" using 4 Cons by (simp add: cs)
      note rd2 = read_step [OF ok lt2, unfolded d]
      show ?thesis
      proof (cases "isHexDigit d")
        case False
        have "entity_loop tbl aac st 0 [ch_HASH, x] ((advance ^^ 2) s)
            = Some (entity_fail (push x (push ch_HASH ((advance ^^ 2) s))))"
          using rd2 False 4 by (subst entity_loop.simps) (auto simp: st_def Let_def)
        then show ?thesis
          using implements_fail_push [OF ok len2 p2, of tbl] 4 Cons False aac
          by (auto simp: step t2 cs entity_spec_def)
      next
        case True
        have hex: "entity_loop tbl aac st 0 [ch_HASH, x] ((advance ^^ 2) s)
            = entity_loop tbl aac Hex 0 (take 2 ?cs) ((advance ^^ 2) s)"
          using rd2 True by (subst entity_loop.simps) (simp add: st_def Let_def t2)
        let ?hs = "takeWhile isHexDigit (drop 2 ?cs)"
        have hs: "?hs = takeWhile isHexDigit ds" "?hs \<noteq> []"
          using 4 True Cons by (simp_all add: cs)
        have "implements tbl s (numeric_outcome (hexadecimalValue ?hs) (2 + length ?hs)
                (dropWhile isHexDigit (drop 2 ?cs))) (digits_end s (hexadecimalValue ?hs) (2 + length ?hs))"
        proof (rule implements_digits [OF ok len2 _ refl hs(2)])
          show "length (pushedChars s) \<le> 2 + length ?hs" using p2 by simp
          show "2 + length ?hs \<le> 2 \<Longrightarrow> entity_reentry tbl (take (2 + length ?hs) ?cs)"
            using hs(2) by simp
        qed (use 4 in \<open>auto simp: t2 isHexDigit_def\<close>)
        then show ?thesis
          using step hex hex_loop [OF ok len2, of tbl aac 0] hs aac 4 Cons
          by (auto simp: cs entity_spec_def hexadecimalValue_def)
      qed
    qed
  qed
qed

text \<open>The refinement: from any content, whatever was pushed back by an earlier attempt.\<close>

lemma consumeHTMLEntity_implements:
  assumes ok: "sstring_ok s" and tbl: "table_ok tbl" and re: "entity_reentry tbl (pushedChars s)"
    and aac: "aac = 0 \<or> \<not> isReferenceChar aac"
  shows "\<exists>r. consumeHTMLEntity tbl s aac = Some r \<and> implements tbl s (entity_spec tbl aac (chars s)) r"
proof (cases "chars s")
  case Nil
  then have "pushedChars s = []" by (simp add: chars_def)
  then show ?thesis
    using Nil ok implements_notEnough [OF ok, of 0 tbl]
    by (simp add: consumeHTMLEntity_def entity_loop.simps ss.empty_iff entity_spec_def
        numeric_prefix_reentry)
next
  case (Cons c r)
  have cur: "current s = c" "\<not> isEmpty s" using Cons ok by (simp_all add: ss.cur_hd ss.empty_iff)
  have nhash: "aac \<noteq> ch_HASH" using aac by (auto simp: isReferenceChar_def)
  have pfx: "pushedChars s = take (length (pushedChars s)) (c # r)"
    by (simp add: chars_def flip: Cons)
  show ?thesis
  proof (cases "c = ch_HASH")
    case True
    then have "consumeHTMLEntity tbl s aac = entity_loop tbl aac Number 0 [ch_HASH] (advance s)"
      using cur nhash unfolding consumeHTMLEntity_def by (subst entity_loop.simps) simp
    then show ?thesis using number_implements [OF ok re] Cons True nhash by simp
  next
    case nh: False
    show ?thesis
    proof (cases "isLetter c")
      case True
      then have l: "(ch_a \<le> c \<and> c \<le> ch_z) \<or> (ch_A \<le> c \<and> c \<le> ch_Z)" by (simp add: isLetter_def)
      then have ws: "c \<notin> {ch_TAB, ch_LF, ch_FF, ch_SP, ch_LT, ch_AMP}" by auto
      have na: "\<not> (aac \<noteq> 0 \<and> c = aac)" using aac True by (auto simp: isReferenceChar_def isNameChar_def)
      have "consumeHTMLEntity tbl s aac = entity_loop tbl aac Named 0 [] s"
        using cur ws na nh l unfolding consumeHTMLEntity_def by (subst entity_loop.simps) auto
      also have "\<dots> = named_case tbl aac c [] s"
        using cur by (subst entity_loop.simps) simp
      finally show ?thesis
        using named_case_implements [OF ok tbl _ _ re, of aac c] Cons True na
        by (auto simp: entity_spec_letter)
    next
      case False
      then have l: "\<not> (ch_a \<le> c \<and> c \<le> ch_z)" "\<not> (ch_A \<le> c \<and> c \<le> ch_Z)"
        by (auto simp: isLetter_def)
      have "pushedChars s = []"
      proof (rule ccontr)
        assume "pushedChars s \<noteq> []"
        then have "hd (pushedChars s) = c" using pfx by (cases "pushedChars s") auto
        then show False using re nh False \<open>pushedChars s \<noteq> []\<close> by (auto simp: entity_reentry_def)
      qed
      then have "implements tbl s NoReference (entity_fail s)"
        using ok by (simp add: implements_def entity_fail_def)
      moreover have "consumeHTMLEntity tbl s aac = Some (entity_fail s)"
        using cur nh l unfolding consumeHTMLEntity_def
        by (subst entity_loop.simps) (simp del: de_Morgan_conj)
      moreover have "entity_spec tbl aac (chars s) = NoReference"
        using nh False by (simp add: Cons entity_spec_def)
      ultimately show ?thesis by simp
    qed
  qed
qed

section \<open>Decoded text\<close>

text \<open>A reference never decodes to NUL, which the tokenizer takes for the end of the file.\<close>

lemma convertToUTF16_nonzero:
  assumes "v \<noteq> 0" "v \<le> 0x10FFFF"
  shows "0 \<notin> set (convertToUTF16 v)" "convertToUTF16 v \<noteq> []"
proof -
  have v: "unat v \<le> 0x10FFFF" using assms(2) by (simp add: word_le_nat_alt)
  have "unat (drop_bit 10 v + 0xD7C0) = unat v div 1024 + 0xD7C0"
    using v by (simp add: unat_word_ariths unat_drop_bit_eq drop_bit_eq_div)
  then have "unat (U16_LEAD v) = (unat v div 1024 + 0xD7C0) mod 65536"
    by (simp add: U16_LEAD_def unsigned_ucast_eq take_bit_eq_mod)
  also have "\<dots> = unat v div 1024 + 0xD7C0" using v by simp
  finally have lead: "U16_LEAD v \<noteq> 0" by auto
  have "bit (U16_TRAIL v) 10"
    by (simp add: U16_TRAIL_def bit_simps)
  then have trail: "U16_TRAIL v \<noteq> 0" by auto
  have bmp: "(ucast v :: uchar) \<noteq> 0" if "U_IS_BMP v"
  proof
    assume "(ucast v :: uchar) = 0"
    then have "unat (ucast v :: uchar) = 0" by simp
    then have "unat v mod 65536 = 0" by (simp add: unsigned_ucast_eq take_bit_eq_mod)
    then show False using that assms(1) by (simp add: U_IS_BMP_def word_le_nat_alt unat_eq_0)
  qed
  show "0 \<notin> set (convertToUTF16 v)" "convertToUTF16 v \<noteq> []"
    using lead trail bmp by (auto simp: convertToUTF16_def)
qed


lemma adjustEntity_nonzero:
  assumes "v \<noteq> 0" "U_IS_BMP v"
  shows "adjustEntity v \<noteq> 0"
proof (cases "and v (not 0x1F) = 0x80")
  case True
  have "v = or (and v (not 0x1F)) (and v 0x1F)"
    by (simp flip: bit.conj_disj_distrib)
  then have v: "v = or 0x80 (and v 0x1F)" using True by simp
  have disj: "and 0x80 (and v 0x1F) = 0" by (simp add: ac_simps and.left_commute)
  have "or 0x80 (and v 0x1F) = 0x80 + and v 0x1F"
    using disj by (simp add: disjunctive_add_eq_or)
  then have "v - 0x80 = and v 0x1F" using v by (metis add_diff_cancel_left')
  moreover have "and v 0x1F \<le> 0x1F" by (rule word_and_le1)
  ultimately have "unat (v - 0x80) < 32" by (simp add: word_le_nat_alt)
  moreover have "list_all (\<lambda>c. c \<noteq> 0) windowsLatin1ExtensionArray" "length windowsLatin1ExtensionArray = 32"
    by (simp_all add: windowsLatin1ExtensionArray_def)
  ultimately show ?thesis using True by (simp add: adjustEntity_def list_all_length)
next
  case False
  then have "adjustEntity v = ucast v" by (simp add: adjustEntity_def)
  then have "convertToUTF16 v = [adjustEntity v]" using assms(2) by (simp add: convertToUTF16_def)
  moreover have "v \<le> 0x10FFFF" using assms(2) by (simp add: U_IS_BMP_def word_le_nat_alt)
  ultimately show ?thesis using convertToUTF16_nonzero(1) [OF assms(1)] by auto
qed

lemma legalEntityFor_nonzero: "legalEntityFor v \<noteq> 0" "legalEntityFor v \<le> 0x10FFFF"
proof -
  have lt: "unat c < 65536" for c :: uchar
    by (rule order_less_le_trans [OF unsigned_less]) simp
  then have u: "unat (ucast c :: uchar32) = unat c" for c :: uchar
    by (simp add: unsigned_ucast_eq take_bit_nat_eq_self_iff order_less_trans [of _ 65536])
  then have "(ucast c :: uchar32) = 0 \<longleftrightarrow> c = 0" for c :: uchar
    by (metis unat_eq_0)
  then show "legalEntityFor v \<noteq> 0"
    using adjustEntity_nonzero [of v] by (auto simp: legalEntityFor_def)
  have "unat (ucast c :: uchar32) \<le> 1114111" for c :: uchar
    using u [of c] lt [of c] by simp
  then show "legalEntityFor v \<le> 0x10FFFF"
    by (auto simp: legalEntityFor_def word_le_nat_alt word_less_nat_alt)
qed

text \<open>The shapes of the specification: a number, a name, or neither.\<close>

lemma entity_spec_cases:
  obtains (num) v k where "entity_spec tbl aac cs = numeric_outcome v k (drop k cs)" "k \<le> length cs"
      "0 \<notin> set (take k cs)"
    | (name) "entity_spec tbl aac cs = named_outcome tbl aac cs"
    | (none) "entity_spec tbl aac cs = NoReference"
    | (short) "entity_spec tbl aac cs = NotEnough" "0 \<notin> set cs"
proof (cases cs)
  case (Cons c r)
  have drop: "dropWhile P xs = drop (length (takeWhile P xs)) xs" "length (takeWhile P xs) \<le> length xs"
    for P and xs :: ustr
    by (simp_all add: dropWhile_eq_drop length_takeWhile_le)
  have take: "take (length (takeWhile P xs)) xs = takeWhile P xs" for P and xs :: ustr
    by (metis takeWhile_eq_take)
  have digits: "0 \<notin> set (takeWhile isHexDigit xs)" "0 \<notin> set (takeWhile isASCIIDigit xs)" for xs
    by (auto dest!: set_takeWhileD simp: isHexDigit_def isASCIIDigit_def)
  show ?thesis
  proof (cases "c = ch_HASH")
    case True
    show ?thesis
    proof (cases r)
      case rC: (Cons x ds)
      consider "aac = ch_HASH" | "aac \<noteq> ch_HASH" "x = ch_x \<or> x = ch_X"
        | "aac \<noteq> ch_HASH" "\<not> (x = ch_x \<or> x = ch_X)" by blast
      then show ?thesis
      proof cases
        case 1
        then show ?thesis using none by (simp add: entity_spec_def Cons True)
      next
        case 2
        then have "entity_spec tbl aac cs = (if ds = [] then NotEnough
            else if takeWhile isHexDigit ds = [] then NoReference
            else numeric_outcome (hexadecimalValue (takeWhile isHexDigit ds))
                   (2 + length (takeWhile isHexDigit ds)) (dropWhile isHexDigit ds))"
          by (auto simp: entity_spec_def Cons True rC Let_def)
        then show ?thesis
          using num [of _ "2 + length (takeWhile isHexDigit ds)"] none short 2(2) True digits
            drop [of isHexDigit ds] take [of isHexDigit ds]
          by (auto simp: Cons rC split: if_splits)
      next
        case 3
        then have "entity_spec tbl aac cs = (if takeWhile isASCIIDigit r = [] then NoReference
            else numeric_outcome (decimalValue (takeWhile isASCIIDigit r))
                   (1 + length (takeWhile isASCIIDigit r)) (dropWhile isASCIIDigit r))"
          by (auto simp: entity_spec_def Cons True rC Let_def simp del: takeWhile.simps dropWhile.simps)
        then show ?thesis
          using num [of _ "1 + length (takeWhile isASCIIDigit r)"] none True digits
            drop [of isASCIIDigit r] take [of isASCIIDigit r]
          by (auto simp: Cons split: if_splits)
      qed
    next
      case Nil
      then have "entity_spec tbl aac cs = (if aac = ch_HASH then NoReference else NotEnough)"
        by (auto simp: entity_spec_def Cons True)
      then show ?thesis using none short Nil True by (auto simp: Cons split: if_splits)
    qed
  next
    case False
    then have "entity_spec tbl aac cs = NoReference \<or> entity_spec tbl aac cs = named_outcome tbl aac cs"
      by (simp add: entity_spec_def Cons)
    then show ?thesis using none name by blast
  qed
qed (use short in \<open>simp add: entity_spec_def\<close>)

lemma entity_spec_reference:
  assumes tbl: "table_ok tbl" and ref: "entity_spec tbl aac cs = Reference us n"
  shows "0 \<notin> set us" "us \<noteq> []" "n \<le> length cs"
proof -
  have "0 \<notin> set us \<and> us \<noteq> [] \<and> n \<le> length cs"
  proof (cases rule: entity_spec_cases [of tbl aac cs])
    case (num v k)
    then show ?thesis
      using ref convertToUTF16_nonzero [OF legalEntityFor_nonzero, of v]
      by (auto simp: numeric_outcome_def split: list.splits if_splits dest!: arg_cong [of _ _ length])
  next
    case name
    let ?k = "scanLength tbl [] cs"
    have k: "?k \<le> length cs" using scanLength_append [of tbl "[]" cs] by simp
    obtain e where e: "longestEntry tbl (take ?k cs) ?k = Some e" "us = convertToUTF16 (entityValue e)"
      "n = length (entityName e)"
      using ref name by (auto simp: named_outcome_def Let_def split: if_splits option.splits)
    from longestEntry_Some [OF e(1)] k have "e \<in> set (staticEntityTable tbl)" "n \<le> ?k"
      by (simp_all add: e(3))
    then show ?thesis
      using tbl convertToUTF16_nonzero [of "entityValue e"] k
      by (auto simp: table_ok_def names_ok_def e(2))
  qed (use ref in simp_all)
  then show "0 \<notin> set us" "us \<noteq> []" "n \<le> length cs" by blast+
qed

text \<open>A NUL at the end: every reference is decided before it.\<close>

lemma scanLength_nul:
  assumes tbl: "table_ok tbl" and "last cs = 0" "cs \<noteq> []"
  shows "scanLength tbl w cs < length w + length cs"
  using assms(2,3)
proof (induction cs arbitrary: w)
  case (Cons c cs)
  have "\<not> isEntityPrefixOf tbl (w @ [0])"
  proof
    assume "isEntityPrefixOf tbl (w @ [0])"
    then obtain i where i: "i < length (staticEntityTable tbl)" "prefix (w @ [0]) (nameAt tbl i)"
      by (auto simp: isEntityPrefixOf_def)
    then have "list_all isNameChar (nameAt tbl i)"
      using tbl by (auto simp: table_ok_def names_ok_def)
    moreover have "0 \<in> set (nameAt tbl i)" using i(2) by (auto simp: prefix_def)
    ultimately show False by (auto simp: list_all_iff isNameChar_def isLetter_def)
  qed
  then show ?case
    using Cons.IH [of "w @ [c]"] Cons.prems by (cases "cs = []") auto
qed simp

lemma entity_spec_nul:
  assumes tbl: "table_ok tbl" and cs: "last cs = 0" "cs \<noteq> []"
  shows "entity_spec tbl aac cs \<noteq> NotEnough"
    and "entity_spec tbl aac cs = Reference us n \<Longrightarrow> n < length cs"
proof -
  have zero: "0 \<in> set cs" using cs by (metis last_in_set)
  have "entity_spec tbl aac cs \<noteq> NotEnough \<and> (entity_spec tbl aac cs = Reference us n \<longrightarrow> n < length cs)"
  proof (cases rule: entity_spec_cases [of tbl aac cs])
    case (num v k)
    have "k \<noteq> length cs" using num(3) zero by auto
    then obtain c d where d: "drop k cs = c # d" using num(2) by (cases "drop k cs") auto
    have "last (drop k cs) = 0" using cs(1) d last_drop [of k cs] by (metis drop_eq_Nil2 list.distinct(1) not_le)
    then have "c = ch_SEMI \<Longrightarrow> 0 < length d" using d by auto
    moreover have "length cs = k + Suc (length d)" using num(2) arg_cong [OF d, of length] by simp
    ultimately show ?thesis
      using num(1) d by (auto simp: numeric_outcome_def split: if_splits)
  next
    case name
    let ?k = "scanLength tbl [] cs"
    have "?k < length cs" using scanLength_nul [OF tbl cs, of "[]"] by simp
    then show ?thesis
      using name longestEntry_Some [of tbl "take ?k cs" ?k]
      by (fastforce simp: named_outcome_def Let_def split: option.splits if_splits)
  qed (use zero in simp_all)
  then show "entity_spec tbl aac cs \<noteq> NotEnough"
    "entity_spec tbl aac cs = Reference us n \<Longrightarrow> n < length cs" by blast+
qed

end
