(* ===== verification/HTMLToken.thy ===== *)
theory HTMLToken
  imports WebKit_Prelude
begin

text \<open>
  \<^verbatim>\<open>WebCore/html/parser/HTMLToken.h\<close>: the token the tokenizer fills in and the tree builder's view
  of it.  The model is the debug build: each \<open>ASSERT\<close> of the source records a violation in the
  ghost field \<open>tokenAsserts\<close>, which no code reads; the pointer \<open>m_currentAttribute\<close> is an index
  into \<open>m_attributes\<close> (\<open>None\<close> is null), and following it when it is null counts as a violation.
\<close>

section \<open>The token\<close>

datatype TokenType = Uninitialized | DOCTYPE | StartTag | EndTag | Comment | Character | EndOfFile

record Range =
  m_start :: int
  m_end :: int

record Attribute =
  m_nameRange :: Range
  m_valueRange :: Range
  m_name :: ustr
  m_value :: ustr

record DoctypeData =
  m_hasPublicIdentifier :: bool
  m_hasSystemIdentifier :: bool
  m_forceQuirks :: bool
  m_publicIdentifier :: ustr
  m_systemIdentifier :: ustr

record token =
  m_type :: TokenType
  m_range :: Range
  m_data :: ustr
  m_doctypeData :: "DoctypeData option"
  m_selfClosing :: bool
  m_attributes :: "Attribute list"
  m_currentAttribute :: "nat option"
  tokenAsserts :: bool

text \<open>\<open>ASSERT(b)\<close>: \<open>tokenAsserts\<close> stays true as long as every assertion holds.\<close>

definition ASSERT_token :: "bool \<Rightarrow> token \<Rightarrow> token" where
  "ASSERT_token b t = (if b then t else t\<lparr>tokenAsserts := False\<rparr>)"

definition token_clear :: "int \<Rightarrow> token \<Rightarrow> token" where
  "token_clear startIndex t =
     t\<lparr>m_type := Uninitialized, m_range := \<lparr>m_start = startIndex, m_end = startIndex\<rparr>, m_data := []\<rparr>"

text \<open>
  The constructor only calls \<open>clear\<close>; the values here of the members it leaves uninitialised are
  never read before they are assigned (\<open>beginStartTag\<close>, \<open>beginEndTag\<close>, \<open>beginDOCTYPE\<close>).
\<close>

definition newToken :: token where
  "newToken = token_clear 0
     \<lparr>m_type = Uninitialized, m_range = \<lparr>m_start = 0, m_end = 0\<rparr>, m_data = [],
      m_doctypeData = None, m_selfClosing = False, m_attributes = [], m_currentAttribute = None,
      tokenAsserts = True\<rparr>"

definition token_end :: "int \<Rightarrow> token \<Rightarrow> token" where
  "token_end endIndex t = t\<lparr>m_range := (m_range t)\<lparr>m_end := endIndex\<rparr>\<rparr>"

definition makeEndOfFile :: "token \<Rightarrow> token" where
  "makeEndOfFile t = (ASSERT_token (m_type t = Uninitialized) t)\<lparr>m_type := EndOfFile\<rparr>"

definition beginStartTag :: "uchar \<Rightarrow> token \<Rightarrow> token" where
  "beginStartTag character t =
     (let t = ASSERT_token (character \<noteq> 0 \<and> m_type t = Uninitialized) t
      in t\<lparr>m_type := StartTag, m_selfClosing := False, m_currentAttribute := None,
           m_attributes := [], m_data := m_data t @ [character]\<rparr>)"

text \<open>The two instances of the template \<open>beginEndTag\<close>: one character, or a vector of them.\<close>

definition beginEndTag :: "ustr \<Rightarrow> token \<Rightarrow> token" where
  "beginEndTag characters t =
     (let t = ASSERT_token (m_type t = Uninitialized) t
      in t\<lparr>m_type := EndTag, m_selfClosing := False, m_currentAttribute := None,
           m_attributes := [], m_data := m_data t @ characters\<rparr>)"

definition ensureIsCharacterToken :: "token \<Rightarrow> token" where
  "ensureIsCharacterToken t =
     (ASSERT_token (m_type t = Uninitialized \<or> m_type t = Character) t)\<lparr>m_type := Character\<rparr>"

definition beginComment :: "token \<Rightarrow> token" where
  "beginComment t = (ASSERT_token (m_type t = Uninitialized) t)\<lparr>m_type := Comment\<rparr>"

definition newDoctypeData :: DoctypeData where
  "newDoctypeData = \<lparr>m_hasPublicIdentifier = False, m_hasSystemIdentifier = False,
     m_forceQuirks = False, m_publicIdentifier = [], m_systemIdentifier = []\<rparr>"

definition beginDOCTYPE :: "token \<Rightarrow> token" where
  "beginDOCTYPE t =
     (ASSERT_token (m_type t = Uninitialized) t)
       \<lparr>m_type := DOCTYPE, m_doctypeData := Some newDoctypeData\<rparr>"

definition beginDOCTYPE_char :: "uchar \<Rightarrow> token \<Rightarrow> token" where
  "beginDOCTYPE_char character t =
     (let t = beginDOCTYPE (ASSERT_token (character \<noteq> 0) t)
      in t\<lparr>m_data := m_data t @ [character]\<rparr>)"

definition appendToName :: "uchar \<Rightarrow> token \<Rightarrow> token" where
  "appendToName character t =
     (let t = ASSERT_token (character \<noteq> 0 \<and>
                (m_type t = StartTag \<or> m_type t = EndTag \<or> m_type t = DOCTYPE)) t
      in t\<lparr>m_data := m_data t @ [character]\<rparr>)"

definition appendToCharacter :: "ustr \<Rightarrow> token \<Rightarrow> token" where
  "appendToCharacter characters t =
     (let t = ASSERT_token (m_type t = Character) t in t\<lparr>m_data := m_data t @ characters\<rparr>)"

definition appendToComment :: "uchar \<Rightarrow> token \<Rightarrow> token" where
  "appendToComment character t =
     (let t = ASSERT_token (character \<noteq> 0 \<and> m_type t = Comment) t
      in t\<lparr>m_data := m_data t @ [character]\<rparr>)"

section \<open>Attributes\<close>

definition newAttribute :: Attribute where
  "newAttribute = \<lparr>m_nameRange = \<lparr>m_start = 0, m_end = 0\<rparr>,
     m_valueRange = \<lparr>m_start = 0, m_end = 0\<rparr>, m_name = [], m_value = []\<rparr>"

definition addNewAttribute :: "token \<Rightarrow> token" where
  "addNewAttribute t =
     (let t = ASSERT_token (m_type t = StartTag \<or> m_type t = EndTag) t
      in t\<lparr>m_attributes := m_attributes t @ [newAttribute],
           m_currentAttribute := Some (length (m_attributes t))\<rparr>)"

text \<open>\<open>m_currentAttribute->...\<close>, assigned by \<open>f\<close>.\<close>

definition updCurrentAttribute :: "(Attribute \<Rightarrow> Attribute) \<Rightarrow> token \<Rightarrow> token" where
  "updCurrentAttribute f t =
     (case m_currentAttribute t of
        None \<Rightarrow> ASSERT_token False t
      | Some i \<Rightarrow> t\<lparr>m_attributes := (m_attributes t)[i := f (m_attributes t ! i)]\<rparr>)"

definition assertCurrentAttribute :: "(Attribute \<Rightarrow> bool) \<Rightarrow> token \<Rightarrow> token" where
  "assertCurrentAttribute P t =
     (case m_currentAttribute t of
        None \<Rightarrow> ASSERT_token False t
      | Some i \<Rightarrow> ASSERT_token (P (m_attributes t ! i)) t)"

definition beginAttributeName :: "int \<Rightarrow> token \<Rightarrow> token" where
  "beginAttributeName index =
     updCurrentAttribute (\<lambda>a. a\<lparr>m_nameRange := (m_nameRange a)\<lparr>m_start := index\<rparr>\<rparr>)"

definition endAttributeName :: "int \<Rightarrow> token \<Rightarrow> token" where
  "endAttributeName index =
     updCurrentAttribute (\<lambda>a. a\<lparr>m_nameRange := (m_nameRange a)\<lparr>m_end := index\<rparr>,
                                m_valueRange := \<lparr>m_start = index, m_end = index\<rparr>\<rparr>)"

definition beginAttributeValue :: "int \<Rightarrow> token \<Rightarrow> token" where
  "beginAttributeValue index =
     updCurrentAttribute (\<lambda>a. a\<lparr>m_valueRange := \<lparr>m_start = index, m_end = 0\<rparr>\<rparr>)"

definition endAttributeValue :: "int \<Rightarrow> token \<Rightarrow> token" where
  "endAttributeValue index =
     updCurrentAttribute (\<lambda>a. a\<lparr>m_valueRange := (m_valueRange a)\<lparr>m_end := index\<rparr>\<rparr>)"

definition appendToAttributeName :: "uchar \<Rightarrow> token \<Rightarrow> token" where
  "appendToAttributeName character t =
     updCurrentAttribute (\<lambda>a. a\<lparr>m_name := m_name a @ [character]\<rparr>)
       (assertCurrentAttribute (\<lambda>a. m_start (m_nameRange a) \<noteq> 0)
         (ASSERT_token (character \<noteq> 0 \<and> (m_type t = StartTag \<or> m_type t = EndTag)) t))"

definition appendToAttributeValue :: "uchar \<Rightarrow> token \<Rightarrow> token" where
  "appendToAttributeValue character t =
     updCurrentAttribute (\<lambda>a. a\<lparr>m_value := m_value a @ [character]\<rparr>)
       (assertCurrentAttribute (\<lambda>a. m_start (m_valueRange a) \<noteq> 0)
         (ASSERT_token (character \<noteq> 0 \<and> (m_type t = StartTag \<or> m_type t = EndTag)) t))"

definition setSelfClosing :: "token \<Rightarrow> token" where
  "setSelfClosing t =
     (ASSERT_token (m_type t = StartTag \<or> m_type t = EndTag) t)\<lparr>m_selfClosing := True\<rparr>"

text \<open>\<open>name()\<close>, with its assertion on the token's type.\<close>

definition token_name :: "token \<Rightarrow> ustr \<times> token" where
  "token_name t =
     (m_data t, ASSERT_token (m_type t = StartTag \<or> m_type t = EndTag \<or> m_type t = DOCTYPE) t)"

section \<open>DOCTYPE\<close>

definition updDoctype :: "(DoctypeData \<Rightarrow> bool) \<Rightarrow> (DoctypeData \<Rightarrow> DoctypeData) \<Rightarrow> token \<Rightarrow> token" where
  "updDoctype P f t =
     (case m_doctypeData t of
        None \<Rightarrow> ASSERT_token False t
      | Some d \<Rightarrow> (ASSERT_token (m_type t = DOCTYPE \<and> P d) t)\<lparr>m_doctypeData := Some (f d)\<rparr>)"

definition setPublicIdentifierToEmptyString :: "token \<Rightarrow> token" where
  "setPublicIdentifierToEmptyString =
     updDoctype (\<lambda>d. True) (\<lambda>d. d\<lparr>m_hasPublicIdentifier := True, m_publicIdentifier := []\<rparr>)"

definition setSystemIdentifierToEmptyString :: "token \<Rightarrow> token" where
  "setSystemIdentifierToEmptyString =
     updDoctype (\<lambda>d. True) (\<lambda>d. d\<lparr>m_hasSystemIdentifier := True, m_systemIdentifier := []\<rparr>)"

definition setForceQuirks :: "token \<Rightarrow> token" where
  "setForceQuirks = updDoctype (\<lambda>d. True) (\<lambda>d. d\<lparr>m_forceQuirks := True\<rparr>)"

definition appendToPublicIdentifier :: "uchar \<Rightarrow> token \<Rightarrow> token" where
  "appendToPublicIdentifier character t =
     updDoctype (\<lambda>d. m_hasPublicIdentifier d)
       (\<lambda>d. d\<lparr>m_publicIdentifier := m_publicIdentifier d @ [character]\<rparr>)
       (ASSERT_token (character \<noteq> 0) t)"

definition appendToSystemIdentifier :: "uchar \<Rightarrow> token \<Rightarrow> token" where
  "appendToSystemIdentifier character t =
     updDoctype (\<lambda>d. m_hasSystemIdentifier d)
       (\<lambda>d. d\<lparr>m_systemIdentifier := m_systemIdentifier d @ [character]\<rparr>)
       (ASSERT_token (character \<noteq> 0) t)"

end
