(* ===== verification/HTMLTokenizer.thy ===== *)
theory HTMLTokenizer
  imports HTMLEntityParser HTMLToken
begin

text \<open>
  \<^verbatim>\<open>WebCore/html/parser/HTMLTokenizer.{h,cpp}\<close>: the tokenizer.  \<open>nextToken\<close> is one function of
  labelled \<open>case\<close> blocks joined by the macros \<open>RECONSUME_IN\<close>, \<open>ADVANCE_TO\<close>, \<open>SWITCH_TO\<close> and
  \<open>FLUSH_AND_ADVANCE_TO\<close>, which set the state and \<open>goto\<close> its label.  Here every block is a
  definition \<open>step_<State>\<close>, the macros are functions with the result \<open>flow\<close> (go on with the next
  input character, or return from \<open>nextToken\<close>), and \<open>run\<close> is the jump to the label of \<open>m_state\<close>.
  The two reference arguments of \<open>nextToken\<close>, the source and the token, are fields of the state
  for the duration of a call.  \<open>ASSERT\<close>s are recorded as in \<^verbatim>\<open>HTMLToken\<close>.
\<close>

section \<open>State\<close>

datatype (plugins only: code size) State =
    DataState
  | CharacterReferenceInDataState
  | RCDATAState
  | CharacterReferenceInRCDATAState
  | RAWTEXTState
  | ScriptDataState
  | PLAINTEXTState
  | TagOpenState
  | EndTagOpenState
  | TagNameState
  | RCDATALessThanSignState
  | RCDATAEndTagOpenState
  | RCDATAEndTagNameState
  | RAWTEXTLessThanSignState
  | RAWTEXTEndTagOpenState
  | RAWTEXTEndTagNameState
  | ScriptDataLessThanSignState
  | ScriptDataEndTagOpenState
  | ScriptDataEndTagNameState
  | ScriptDataEscapeStartState
  | ScriptDataEscapeStartDashState
  | ScriptDataEscapedState
  | ScriptDataEscapedDashState
  | ScriptDataEscapedDashDashState
  | ScriptDataEscapedLessThanSignState
  | ScriptDataEscapedEndTagOpenState
  | ScriptDataEscapedEndTagNameState
  | ScriptDataDoubleEscapeStartState
  | ScriptDataDoubleEscapedState
  | ScriptDataDoubleEscapedDashState
  | ScriptDataDoubleEscapedDashDashState
  | ScriptDataDoubleEscapedLessThanSignState
  | ScriptDataDoubleEscapeEndState
  | BeforeAttributeNameState
  | AttributeNameState
  | AfterAttributeNameState
  | BeforeAttributeValueState
  | AttributeValueDoubleQuotedState
  | AttributeValueSingleQuotedState
  | AttributeValueUnquotedState
  | CharacterReferenceInAttributeValueState
  | AfterAttributeValueQuotedState
  | SelfClosingStartTagState
  | BogusCommentState
  | ContinueBogusCommentState
  | MarkupDeclarationOpenState
  | CommentStartState
  | CommentStartDashState
  | CommentState
  | CommentEndDashState
  | CommentEndState
  | CommentEndBangState
  | DOCTYPEState
  | BeforeDOCTYPENameState
  | DOCTYPENameState
  | AfterDOCTYPENameState
  | AfterDOCTYPEPublicKeywordState
  | BeforeDOCTYPEPublicIdentifierState
  | DOCTYPEPublicIdentifierDoubleQuotedState
  | DOCTYPEPublicIdentifierSingleQuotedState
  | AfterDOCTYPEPublicIdentifierState
  | BetweenDOCTYPEPublicAndSystemIdentifiersState
  | AfterDOCTYPESystemKeywordState
  | BeforeDOCTYPESystemIdentifierState
  | DOCTYPESystemIdentifierDoubleQuotedState
  | DOCTYPESystemIdentifierSingleQuotedState
  | AfterDOCTYPESystemIdentifierState
  | BogusDOCTYPEState
  | CDATASectionState
  | CDATASectionRightSquareBracketState
  | CDATASectionDoubleRightSquareBracketState

text \<open>
  What the code takes from elsewhere: the generated entity table, the Unicode library's
  \<open>foldCase\<close>, and the build flag \<open>ENABLE(DIVIDE_PAGES)\<close> of the WinCE port.
\<close>

record config =
  entities :: entity_table
  foldCase :: "uchar \<Rightarrow> uchar"
  DIVIDE_PAGES :: bool

record tokenizer =
  m_state :: State
  m_appropriateEndTagName :: ustr
  m_token :: token
  m_lineNumber :: int
  m_skipLeadingNewLineForListing :: bool
  m_forceNullCharacterReplacement :: bool
  m_shouldAllowCDATA :: bool
  m_temporaryBuffer :: ustr
  m_bufferedEndTagName :: ustr
  m_additionalAllowedCharacter :: uchar
  m_nextInputCharacter :: uchar
  m_skipNextNewLine :: bool
  m_usePreHTML5ParserQuirks :: bool
  m_source :: sstring
  tokenizerAsserts :: bool

definition ASSERT_tokenizer :: "bool \<Rightarrow> tokenizer \<Rightarrow> tokenizer" where
  "ASSERT_tokenizer b tk = (if b then tk else tk\<lparr>tokenizerAsserts := False\<rparr>)"

text \<open>
  \<open>reset\<close> leaves the appropriate end tag name and the two buffers as they are (\<open>m_token = 0\<close> is
  the next call's business: it passes its token).
\<close>

definition reset :: "tokenizer \<Rightarrow> tokenizer" where
  "reset tk = tk\<lparr>m_state := DataState, m_lineNumber := 0, m_skipLeadingNewLineForListing := False,
     m_forceNullCharacterReplacement := False, m_shouldAllowCDATA := False,
     m_additionalAllowedCharacter := 0\<rparr>"

definition newTokenizer :: "bool \<Rightarrow> tokenizer" where
  "newTokenizer usePreHTML5ParserQuirks = reset
     \<lparr>m_state = DataState, m_appropriateEndTagName = [], m_token = newToken, m_lineNumber = 0,
      m_skipLeadingNewLineForListing = False, m_forceNullCharacterReplacement = False,
      m_shouldAllowCDATA = False, m_temporaryBuffer = [], m_bufferedEndTagName = [],
      m_additionalAllowedCharacter = 0, m_nextInputCharacter = 0, m_skipNextNewLine = False,
      m_usePreHTML5ParserQuirks = usePreHTML5ParserQuirks, m_source = emptySString,
      tokenizerAsserts = True\<rparr>"

abbreviation on_token :: "(token \<Rightarrow> token) \<Rightarrow> tokenizer \<Rightarrow> tokenizer" where
  "on_token f tk \<equiv> tk\<lparr>m_token := f (m_token tk)\<rparr>"

abbreviation endOfFileMarker :: uchar where
  "endOfFileMarker \<equiv> 0"

section \<open>Characters and buffers\<close>

text \<open>\<open>ASSERT(isASCIIUpper(cc))\<close> is the guard of each of its calls.\<close>

definition toLowerCase :: "uchar \<Rightarrow> uchar" where
  "toLowerCase cc = cc + 0x20"

definition isTokenizerWhitespace :: "uchar \<Rightarrow> bool" where
  "isTokenizerWhitespace cc \<longleftrightarrow> cc = ch_SP \<or> cc = ch_LF \<or> cc = ch_TAB \<or> cc = ch_FF"

definition vectorEqualsString :: "ustr \<Rightarrow> ustr \<Rightarrow> bool" where
  "vectorEqualsString vector str \<longleftrightarrow> length vector = length str \<and> vector = str"

definition isEndTagBufferingState :: "State \<Rightarrow> bool" where
  "isEndTagBufferingState state \<longleftrightarrow>
     state \<in> {RCDATAEndTagOpenState, RCDATAEndTagNameState, RAWTEXTEndTagOpenState,
              RAWTEXTEndTagNameState, ScriptDataEndTagOpenState, ScriptDataEndTagNameState,
              ScriptDataEscapedEndTagOpenState, ScriptDataEscapedEndTagNameState}"

definition scriptTag :: ustr where
  "scriptTag = ustr ''script''"

definition temporaryBufferIs :: "ustr \<Rightarrow> tokenizer \<Rightarrow> bool" where
  "temporaryBufferIs expectedString tk = vectorEqualsString (m_temporaryBuffer tk) expectedString"

definition appendToTemporaryBuffer :: "uchar \<Rightarrow> tokenizer \<Rightarrow> tokenizer" where
  "appendToTemporaryBuffer cc tk = tk\<lparr>m_temporaryBuffer := m_temporaryBuffer tk @ [cc]\<rparr>"

definition addToPossibleEndTag :: "uchar \<Rightarrow> tokenizer \<Rightarrow> tokenizer" where
  "addToPossibleEndTag cc tk =
     (let tk = ASSERT_tokenizer (isEndTagBufferingState (m_state tk)) tk
      in tk\<lparr>m_bufferedEndTagName := m_bufferedEndTagName tk @ [cc]\<rparr>)"

definition isAppropriateEndTag :: "tokenizer \<Rightarrow> bool" where
  "isAppropriateEndTag tk \<longleftrightarrow> m_bufferedEndTagName tk = m_appropriateEndTagName tk"

definition bufferCharacter :: "uchar \<Rightarrow> tokenizer \<Rightarrow> tokenizer" where
  "bufferCharacter character tk =
     on_token (\<lambda>t. appendToCharacter [character] (ensureIsCharacterToken t))
       (ASSERT_tokenizer (character \<noteq> endOfFileMarker) tk)"

definition haveBufferedCharacterToken :: "tokenizer \<Rightarrow> bool" where
  "haveBufferedCharacterToken tk \<longleftrightarrow> m_type (m_token tk) = Character"

definition shouldSkipNullCharacters :: "tokenizer \<Rightarrow> bool" where
  "shouldSkipNullCharacters tk \<longleftrightarrow>
     \<not> m_forceNullCharacterReplacement tk
     \<and> m_state tk \<in> {DataState, RCDATAState, RAWTEXTState, PLAINTEXTState}"

section \<open>The input stream preprocessor\<close>

definition shouldTreatNullAsEndOfFileMarker :: "tokenizer \<Rightarrow> bool" where
  "shouldTreatNullAsEndOfFileMarker tk \<longleftrightarrow>
     isClosed (m_source tk) \<and> sstring_length (m_source tk) = 1"

text \<open>\<open>source.advance(m_lineNumber)\<close>\<close>

definition source_advance :: "tokenizer \<Rightarrow> tokenizer" where
  "source_advance tk =
     (let (s, l) = advance_line (m_source tk) (m_lineNumber tk) in tk\<lparr>m_source := s, m_lineNumber := l\<rparr>)"

text \<open>The newline after a carriage return; false when nothing is left after it.\<close>

definition skipPendingNewLine :: "tokenizer \<Rightarrow> bool \<times> tokenizer" where
  "skipPendingNewLine tk =
     (if m_nextInputCharacter tk = ch_LF \<and> m_skipNextNewLine tk then
        let (s, l) = advancePastNewline (m_source tk) (m_lineNumber tk);
            tk = tk\<lparr>m_skipNextNewLine := False, m_source := s, m_lineNumber := l\<rparr>
        in if isEmpty s then (False, tk) else (True, tk\<lparr>m_nextInputCharacter := current s\<rparr>)
      else (True, tk))"

partial_function (option) peek :: "tokenizer \<Rightarrow> (bool \<times> tokenizer) option" where
  "peek tk =
     (let tk = tk\<lparr>m_nextInputCharacter := current (m_source tk)\<rparr> in
      if and (m_nextInputCharacter tk) (not 0xF) \<noteq> 0
      then Some (True, tk\<lparr>m_skipNextNewLine := False\<rparr>)
      else
        let (ok, tk) = skipPendingNewLine tk in
        if \<not> ok then Some (False, tk)
        else if m_nextInputCharacter tk = ch_CR
        then Some (True, tk\<lparr>m_nextInputCharacter := ch_LF, m_skipNextNewLine := True\<rparr>)
        else
          let tk = tk\<lparr>m_skipNextNewLine := False\<rparr> in
          if m_nextInputCharacter tk = 0 \<and> \<not> shouldTreatNullAsEndOfFileMarker tk then
            if shouldSkipNullCharacters tk then
              let tk = tk\<lparr>m_source := advancePastNonNewline (m_source tk)\<rparr>
              in if isEmpty (m_source tk) then Some (False, tk) else peek tk
            else Some (True, tk\<lparr>m_nextInputCharacter := 0xFFFD\<rparr>)
          else Some (True, tk))"

definition preprocessor_advance :: "tokenizer \<Rightarrow> (bool \<times> tokenizer) option" where
  "preprocessor_advance tk =
     (let tk = source_advance tk in if isEmpty (m_source tk) then Some (False, tk) else peek tk)"

section \<open>The macros\<close>

text \<open>
  \<open>Next cc\<close> goes to the label of \<open>m_state\<close> with the input character \<open>cc\<close>, \<open>Return b\<close> returns
  from \<open>nextToken\<close>, \<open>Diverge\<close> is a loop that does not end (excluded by a theorem).
\<close>

datatype flow = Next uchar | Return bool | Diverge

type_synonym step = "flow \<times> tokenizer"

definition RETURN :: "bool \<Rightarrow> tokenizer \<Rightarrow> step" where
  "RETURN b tk = (Return b, tk)"

text \<open>The common end of the macros: take the peeked character or return.\<close>

definition peeked :: "(bool \<times> tokenizer) option \<Rightarrow> tokenizer \<Rightarrow> step" where
  "peeked r tk0 =
     (case r of
        None \<Rightarrow> (Diverge, tk0)
      | Some (ok, tk) \<Rightarrow>
          if \<not> ok then RETURN (haveBufferedCharacterToken tk) tk
          else (Next (m_nextInputCharacter tk), tk))"

definition peek_source :: "tokenizer \<Rightarrow> step" where
  "peek_source tk = peeked (if isEmpty (m_source tk) then Some (False, tk) else peek tk) tk"

definition RECONSUME_IN :: "State \<Rightarrow> uchar \<Rightarrow> tokenizer \<Rightarrow> step" where
  "RECONSUME_IN stateName cc tk = (Next cc, tk\<lparr>m_state := stateName\<rparr>)"

definition ADVANCE_TO :: "State \<Rightarrow> tokenizer \<Rightarrow> step" where
  "ADVANCE_TO stateName tk =
     (let tk = tk\<lparr>m_state := stateName\<rparr> in peeked (preprocessor_advance tk) tk)"

definition SWITCH_TO :: "State \<Rightarrow> tokenizer \<Rightarrow> step" where
  "SWITCH_TO stateName tk = peek_source (tk\<lparr>m_state := stateName\<rparr>)"

definition saveEndTagNameIfNeeded :: "tokenizer \<Rightarrow> tokenizer" where
  "saveEndTagNameIfNeeded tk =
     (let tk = ASSERT_tokenizer (m_type (m_token tk) \<noteq> Uninitialized) tk
      in if m_type (m_token tk) = StartTag
         then let (name, t) = token_name (m_token tk)
              in tk\<lparr>m_appropriateEndTagName := name, m_token := t\<rparr>
         else tk)"

text \<open>
  With \<open>DIVIDE_PAGES\<close> the rest of the source after a \<open><p>\<close> tag is copied to a new string with two
  ideographic spaces in front.
\<close>

definition dividePages :: "tokenizer \<Rightarrow> tokenizer" where
  "dividePages tk =
     (if m_type (m_token tk) = StartTag \<and> length (m_appropriateEndTagName tk) = 1
         \<and> (hd (m_appropriateEndTagName tk) = ch_P \<or> hd (m_appropriateEndTagName tk) = ch_p)
      then tk\<lparr>m_source := assignSString (m_source tk)
                 (mkSString ([0x3000, 0x3000] @ toString (m_source tk)))\<rparr>
      else tk)"

definition emitAndResumeIn :: "config \<Rightarrow> State \<Rightarrow> tokenizer \<Rightarrow> step" where
  "emitAndResumeIn cfg state tk =
     (let tk = saveEndTagNameIfNeeded (source_advance (tk\<lparr>m_state := state\<rparr>))
      in RETURN True (if DIVIDE_PAGES cfg then dividePages tk else tk))"

definition emitAndReconsumeIn :: "State \<Rightarrow> tokenizer \<Rightarrow> step" where
  "emitAndReconsumeIn state tk = RETURN True (saveEndTagNameIfNeeded (tk\<lparr>m_state := state\<rparr>))"

definition emitEndOfFile :: "tokenizer \<Rightarrow> step" where
  "emitEndOfFile tk =
     (if haveBufferedCharacterToken tk then RETURN True tk
      else RETURN True
             (on_token (\<lambda>t. makeEndOfFile (token_clear 0 t)) (source_advance (tk\<lparr>m_state := DataState\<rparr>))))"

text \<open>Returns whether a character token has to be emitted before the buffered end tag.\<close>

definition flushBufferedEndTag :: "tokenizer \<Rightarrow> bool \<times> tokenizer" where
  "flushBufferedEndTag tk =
     (let tk = source_advance (ASSERT_tokenizer
                 (m_type (m_token tk) = Character \<or> m_type (m_token tk) = Uninitialized) tk)
      in if m_type (m_token tk) = Character then (True, tk)
         else (False, (on_token (beginEndTag (m_bufferedEndTagName tk)) tk)\<lparr>m_bufferedEndTagName := []\<rparr>))"

definition FLUSH_AND_ADVANCE_TO :: "State \<Rightarrow> tokenizer \<Rightarrow> step" where
  "FLUSH_AND_ADVANCE_TO stateName tk =
     (let (emit, tk) = flushBufferedEndTag (tk\<lparr>m_state := stateName\<rparr>)
      in if emit then RETURN True tk else peek_source tk)"

definition flushEmitAndResumeIn :: "State \<Rightarrow> tokenizer \<Rightarrow> step" where
  "flushEmitAndResumeIn state tk = RETURN True (snd (flushBufferedEndTag (tk\<lparr>m_state := state\<rparr>)))"

definition processEntity :: "config \<Rightarrow> tokenizer \<Rightarrow> (bool \<times> tokenizer) option" where
  "processEntity cfg tk =
     map_option
       (\<lambda>r. let tk = tk\<lparr>m_source := entitySource r\<rparr> in
            if notEnoughCharacters r then (False, tk)
            else if \<not> success r then
              (True, bufferCharacter ch_AMP (ASSERT_tokenizer (decodedEntity r = []) tk))
            else (True, fold bufferCharacter (decodedEntity r) tk))
       (consumeHTMLEntity (entities cfg) (m_source tk) 0)"

text \<open>\<open>advanceStringAndASSERT\<close> and \<open>advanceStringAndASSERTIgnoringCase\<close>\<close>

definition advanceStringAndASSERT :: "ustr \<Rightarrow> tokenizer \<Rightarrow> tokenizer" where
  "advanceStringAndASSERT expectedCharacters tk =
     fold (\<lambda>c tk. (ASSERT_tokenizer (current (m_source tk) = c) tk)\<lparr>m_source := advance (m_source tk)\<rparr>)
       expectedCharacters tk"

definition advanceStringAndASSERTIgnoringCase :: "config \<Rightarrow> ustr \<Rightarrow> tokenizer \<Rightarrow> tokenizer" where
  "advanceStringAndASSERTIgnoringCase cfg expectedCharacters tk =
     fold (\<lambda>c tk. (ASSERT_tokenizer (foldCase cfg (current (m_source tk)) = foldCase cfg c) tk)
                    \<lparr>m_source := advance (m_source tk)\<rparr>)
       expectedCharacters tk"

end
