(* ===== verification/HTMLTokenizerStates.thy ===== *)
theory HTMLTokenizerStates
  imports HTMLTokenizer
begin

text \<open>
  The blocks of \<open>HTMLTokenizer::nextToken\<close>, one definition per state in the order of the source,
  their dispatch, and \<open>nextToken\<close> itself.  The end-tag states of RCDATA, RAWTEXT, script data and
  escaped script data are the same text four times over with other state names; here they are
  one definition each, with the state names as arguments.  Where the source writes \<open>} if\<close> for
  \<open>} else if\<close> the branch before it always jumps away, so the two read the same.
\<close>

section \<open>Text\<close>

definition step_DataState :: "config \<Rightarrow> uchar \<Rightarrow> tokenizer \<Rightarrow> step" where
  "step_DataState cfg cc tk =
     (if cc = ch_AMP then ADVANCE_TO CharacterReferenceInDataState tk
      else if cc = ch_LT then
        if m_type (m_token tk) = Character then RETURN True tk
        else ADVANCE_TO TagOpenState tk
      else if cc = endOfFileMarker then emitEndOfFile tk
      else ADVANCE_TO DataState (bufferCharacter cc tk))"

text \<open>The two states that read a character reference in text.\<close>

definition characterReferenceIn :: "State \<Rightarrow> config \<Rightarrow> uchar \<Rightarrow> tokenizer \<Rightarrow> step" where
  "characterReferenceIn textState cfg cc tk =
     (case processEntity cfg tk of
        None \<Rightarrow> (Diverge, tk)
      | Some (ok, tk) \<Rightarrow>
          if \<not> ok then RETURN (haveBufferedCharacterToken tk) tk else SWITCH_TO textState tk)"

definition step_CharacterReferenceInDataState :: "config \<Rightarrow> uchar \<Rightarrow> tokenizer \<Rightarrow> step" where
  "step_CharacterReferenceInDataState = characterReferenceIn DataState"

definition step_RCDATAState :: "config \<Rightarrow> uchar \<Rightarrow> tokenizer \<Rightarrow> step" where
  "step_RCDATAState cfg cc tk =
     (if cc = ch_AMP then ADVANCE_TO CharacterReferenceInRCDATAState tk
      else if cc = ch_LT then ADVANCE_TO RCDATALessThanSignState tk
      else if cc = endOfFileMarker then emitEndOfFile tk
      else ADVANCE_TO RCDATAState (bufferCharacter cc tk))"

definition step_CharacterReferenceInRCDATAState :: "config \<Rightarrow> uchar \<Rightarrow> tokenizer \<Rightarrow> step" where
  "step_CharacterReferenceInRCDATAState = characterReferenceIn RCDATAState"

definition step_RAWTEXTState :: "config \<Rightarrow> uchar \<Rightarrow> tokenizer \<Rightarrow> step" where
  "step_RAWTEXTState cfg cc tk =
     (if cc = ch_LT then ADVANCE_TO RAWTEXTLessThanSignState tk
      else if cc = endOfFileMarker then emitEndOfFile tk
      else ADVANCE_TO RAWTEXTState (bufferCharacter cc tk))"

definition step_ScriptDataState :: "config \<Rightarrow> uchar \<Rightarrow> tokenizer \<Rightarrow> step" where
  "step_ScriptDataState cfg cc tk =
     (if cc = ch_LT then ADVANCE_TO ScriptDataLessThanSignState tk
      else if cc = endOfFileMarker then emitEndOfFile tk
      else ADVANCE_TO ScriptDataState (bufferCharacter cc tk))"

definition step_PLAINTEXTState :: "config \<Rightarrow> uchar \<Rightarrow> tokenizer \<Rightarrow> step" where
  "step_PLAINTEXTState cfg cc tk =
     (if cc = endOfFileMarker then emitEndOfFile tk
      else ADVANCE_TO PLAINTEXTState (bufferCharacter cc tk))"

section \<open>Tags\<close>

definition step_TagOpenState :: "config \<Rightarrow> uchar \<Rightarrow> tokenizer \<Rightarrow> step" where
  "step_TagOpenState cfg cc tk =
     (if cc = ch_BANG then ADVANCE_TO MarkupDeclarationOpenState tk
      else if cc = ch_SLASH then ADVANCE_TO EndTagOpenState tk
      else if isASCIIUpper cc then ADVANCE_TO TagNameState (on_token (beginStartTag (toLowerCase cc)) tk)
      else if isASCIILower cc then ADVANCE_TO TagNameState (on_token (beginStartTag cc) tk)
      else if cc = ch_QUESTION then RECONSUME_IN BogusCommentState cc tk
      else RECONSUME_IN DataState cc (bufferCharacter ch_LT tk))"

definition step_EndTagOpenState :: "config \<Rightarrow> uchar \<Rightarrow> tokenizer \<Rightarrow> step" where
  "step_EndTagOpenState cfg cc tk =
     (if isASCIIUpper cc then ADVANCE_TO TagNameState (on_token (beginEndTag [toLowerCase cc]) tk)
      else if isASCIILower cc then ADVANCE_TO TagNameState (on_token (beginEndTag [cc]) tk)
      else if cc = ch_GT then ADVANCE_TO DataState tk
      else if cc = endOfFileMarker
      then RECONSUME_IN DataState cc (bufferCharacter ch_SLASH (bufferCharacter ch_LT tk))
      else RECONSUME_IN BogusCommentState cc tk)"

definition step_TagNameState :: "config \<Rightarrow> uchar \<Rightarrow> tokenizer \<Rightarrow> step" where
  "step_TagNameState cfg cc tk =
     (if isTokenizerWhitespace cc then ADVANCE_TO BeforeAttributeNameState tk
      else if cc = ch_SLASH then ADVANCE_TO SelfClosingStartTagState tk
      else if cc = ch_GT then emitAndResumeIn cfg DataState tk
      else if m_usePreHTML5ParserQuirks tk \<and> cc = ch_LT then emitAndReconsumeIn DataState tk
      else if isASCIIUpper cc then ADVANCE_TO TagNameState (on_token (appendToName (toLowerCase cc)) tk)
      else if cc = endOfFileMarker then RECONSUME_IN DataState cc tk
      else ADVANCE_TO TagNameState (on_token (appendToName cc) tk))"

section \<open>End tags in RCDATA, RAWTEXT and script data\<close>

text \<open>The less-than-sign states of RCDATA and RAWTEXT; script data has a branch more.\<close>

definition lessThanSignIn :: "State \<Rightarrow> State \<Rightarrow> config \<Rightarrow> uchar \<Rightarrow> tokenizer \<Rightarrow> step" where
  "lessThanSignIn endTagOpenState textState cfg cc tk =
     (if cc = ch_SLASH then
        ADVANCE_TO endTagOpenState
          (ASSERT_tokenizer (m_bufferedEndTagName tk = []) (tk\<lparr>m_temporaryBuffer := []\<rparr>))
      else RECONSUME_IN textState cc (bufferCharacter ch_LT tk))"

definition endTagOpenIn :: "State \<Rightarrow> State \<Rightarrow> config \<Rightarrow> uchar \<Rightarrow> tokenizer \<Rightarrow> step" where
  "endTagOpenIn endTagNameState textState cfg cc tk =
     (if isASCIIUpper cc then
        ADVANCE_TO endTagNameState (addToPossibleEndTag (toLowerCase cc) (appendToTemporaryBuffer cc tk))
      else if isASCIILower cc then
        ADVANCE_TO endTagNameState (addToPossibleEndTag cc (appendToTemporaryBuffer cc tk))
      else RECONSUME_IN textState cc (bufferCharacter ch_SLASH (bufferCharacter ch_LT tk)))"

definition endTagNameIn :: "State \<Rightarrow> State \<Rightarrow> config \<Rightarrow> uchar \<Rightarrow> tokenizer \<Rightarrow> step" where
  "endTagNameIn endTagNameState textState cfg cc tk =
     (if isASCIIUpper cc then
        ADVANCE_TO endTagNameState (addToPossibleEndTag (toLowerCase cc) (appendToTemporaryBuffer cc tk))
      else if isASCIILower cc then
        ADVANCE_TO endTagNameState (addToPossibleEndTag cc (appendToTemporaryBuffer cc tk))
      else if isTokenizerWhitespace cc \<and> isAppropriateEndTag tk
      then FLUSH_AND_ADVANCE_TO BeforeAttributeNameState tk
      else if cc = ch_SLASH \<and> isAppropriateEndTag tk
      then FLUSH_AND_ADVANCE_TO SelfClosingStartTagState tk
      else if cc = ch_GT \<and> isAppropriateEndTag tk
      then flushEmitAndResumeIn DataState tk
      else
        let tk = bufferCharacter ch_SLASH (bufferCharacter ch_LT tk);
            tk = on_token (appendToCharacter (m_temporaryBuffer tk)) tk
        in RECONSUME_IN textState cc (tk\<lparr>m_bufferedEndTagName := []\<rparr>))"

definition step_RCDATALessThanSignState :: "config \<Rightarrow> uchar \<Rightarrow> tokenizer \<Rightarrow> step" where
  "step_RCDATALessThanSignState = lessThanSignIn RCDATAEndTagOpenState RCDATAState"

definition step_RCDATAEndTagOpenState :: "config \<Rightarrow> uchar \<Rightarrow> tokenizer \<Rightarrow> step" where
  "step_RCDATAEndTagOpenState = endTagOpenIn RCDATAEndTagNameState RCDATAState"

definition step_RCDATAEndTagNameState :: "config \<Rightarrow> uchar \<Rightarrow> tokenizer \<Rightarrow> step" where
  "step_RCDATAEndTagNameState = endTagNameIn RCDATAEndTagNameState RCDATAState"

definition step_RAWTEXTLessThanSignState :: "config \<Rightarrow> uchar \<Rightarrow> tokenizer \<Rightarrow> step" where
  "step_RAWTEXTLessThanSignState = lessThanSignIn RAWTEXTEndTagOpenState RAWTEXTState"

definition step_RAWTEXTEndTagOpenState :: "config \<Rightarrow> uchar \<Rightarrow> tokenizer \<Rightarrow> step" where
  "step_RAWTEXTEndTagOpenState = endTagOpenIn RAWTEXTEndTagNameState RAWTEXTState"

definition step_RAWTEXTEndTagNameState :: "config \<Rightarrow> uchar \<Rightarrow> tokenizer \<Rightarrow> step" where
  "step_RAWTEXTEndTagNameState = endTagNameIn RAWTEXTEndTagNameState RAWTEXTState"

definition step_ScriptDataLessThanSignState :: "config \<Rightarrow> uchar \<Rightarrow> tokenizer \<Rightarrow> step" where
  "step_ScriptDataLessThanSignState cfg cc tk =
     (if cc = ch_BANG
      then ADVANCE_TO ScriptDataEscapeStartState (bufferCharacter ch_BANG (bufferCharacter ch_LT tk))
      else lessThanSignIn ScriptDataEndTagOpenState ScriptDataState cfg cc tk)"

definition step_ScriptDataEndTagOpenState :: "config \<Rightarrow> uchar \<Rightarrow> tokenizer \<Rightarrow> step" where
  "step_ScriptDataEndTagOpenState = endTagOpenIn ScriptDataEndTagNameState ScriptDataState"

definition step_ScriptDataEndTagNameState :: "config \<Rightarrow> uchar \<Rightarrow> tokenizer \<Rightarrow> step" where
  "step_ScriptDataEndTagNameState = endTagNameIn ScriptDataEndTagNameState ScriptDataState"

section \<open>Escaped script data\<close>

definition step_ScriptDataEscapeStartState :: "config \<Rightarrow> uchar \<Rightarrow> tokenizer \<Rightarrow> step" where
  "step_ScriptDataEscapeStartState cfg cc tk =
     (if cc = ch_DASH then ADVANCE_TO ScriptDataEscapeStartDashState (bufferCharacter cc tk)
      else RECONSUME_IN ScriptDataState cc tk)"

definition step_ScriptDataEscapeStartDashState :: "config \<Rightarrow> uchar \<Rightarrow> tokenizer \<Rightarrow> step" where
  "step_ScriptDataEscapeStartDashState cfg cc tk =
     (if cc = ch_DASH then ADVANCE_TO ScriptDataEscapedDashDashState (bufferCharacter cc tk)
      else RECONSUME_IN ScriptDataState cc tk)"

definition step_ScriptDataEscapedState :: "config \<Rightarrow> uchar \<Rightarrow> tokenizer \<Rightarrow> step" where
  "step_ScriptDataEscapedState cfg cc tk =
     (if cc = ch_DASH then ADVANCE_TO ScriptDataEscapedDashState (bufferCharacter cc tk)
      else if cc = ch_LT then ADVANCE_TO ScriptDataEscapedLessThanSignState tk
      else if cc = endOfFileMarker then RECONSUME_IN DataState cc tk
      else ADVANCE_TO ScriptDataEscapedState (bufferCharacter cc tk))"

definition step_ScriptDataEscapedDashState :: "config \<Rightarrow> uchar \<Rightarrow> tokenizer \<Rightarrow> step" where
  "step_ScriptDataEscapedDashState cfg cc tk =
     (if cc = ch_DASH then ADVANCE_TO ScriptDataEscapedDashDashState (bufferCharacter cc tk)
      else if cc = ch_LT then ADVANCE_TO ScriptDataEscapedLessThanSignState tk
      else if cc = endOfFileMarker then RECONSUME_IN DataState cc tk
      else ADVANCE_TO ScriptDataEscapedState (bufferCharacter cc tk))"

definition step_ScriptDataEscapedDashDashState :: "config \<Rightarrow> uchar \<Rightarrow> tokenizer \<Rightarrow> step" where
  "step_ScriptDataEscapedDashDashState cfg cc tk =
     (if cc = ch_DASH then ADVANCE_TO ScriptDataEscapedDashDashState (bufferCharacter cc tk)
      else if cc = ch_LT then ADVANCE_TO ScriptDataEscapedLessThanSignState tk
      else if cc = ch_GT then ADVANCE_TO ScriptDataState (bufferCharacter cc tk)
      else if cc = endOfFileMarker then RECONSUME_IN DataState cc tk
      else ADVANCE_TO ScriptDataEscapedState (bufferCharacter cc tk))"

definition step_ScriptDataEscapedLessThanSignState :: "config \<Rightarrow> uchar \<Rightarrow> tokenizer \<Rightarrow> step" where
  "step_ScriptDataEscapedLessThanSignState cfg cc tk =
     (if cc = ch_SLASH then
        ADVANCE_TO ScriptDataEscapedEndTagOpenState
          (ASSERT_tokenizer (m_bufferedEndTagName tk = []) (tk\<lparr>m_temporaryBuffer := []\<rparr>))
      else if isASCIIUpper cc then
        ADVANCE_TO ScriptDataDoubleEscapeStartState
          (appendToTemporaryBuffer (toLowerCase cc)
            ((bufferCharacter cc (bufferCharacter ch_LT tk))\<lparr>m_temporaryBuffer := []\<rparr>))
      else if isASCIILower cc then
        ADVANCE_TO ScriptDataDoubleEscapeStartState
          (appendToTemporaryBuffer cc
            ((bufferCharacter cc (bufferCharacter ch_LT tk))\<lparr>m_temporaryBuffer := []\<rparr>))
      else RECONSUME_IN ScriptDataEscapedState cc (bufferCharacter ch_LT tk))"

definition step_ScriptDataEscapedEndTagOpenState :: "config \<Rightarrow> uchar \<Rightarrow> tokenizer \<Rightarrow> step" where
  "step_ScriptDataEscapedEndTagOpenState =
     endTagOpenIn ScriptDataEscapedEndTagNameState ScriptDataEscapedState"

definition step_ScriptDataEscapedEndTagNameState :: "config \<Rightarrow> uchar \<Rightarrow> tokenizer \<Rightarrow> step" where
  "step_ScriptDataEscapedEndTagNameState =
     endTagNameIn ScriptDataEscapedEndTagNameState ScriptDataEscapedState"

definition step_ScriptDataDoubleEscapeStartState :: "config \<Rightarrow> uchar \<Rightarrow> tokenizer \<Rightarrow> step" where
  "step_ScriptDataDoubleEscapeStartState cfg cc tk =
     (if isTokenizerWhitespace cc \<or> cc = ch_SLASH \<or> cc = ch_GT then
        let tk = bufferCharacter cc tk
        in if temporaryBufferIs scriptTag tk then ADVANCE_TO ScriptDataDoubleEscapedState tk
           else ADVANCE_TO ScriptDataEscapedState tk
      else if isASCIIUpper cc then
        ADVANCE_TO ScriptDataDoubleEscapeStartState
          (appendToTemporaryBuffer (toLowerCase cc) (bufferCharacter cc tk))
      else if isASCIILower cc then
        ADVANCE_TO ScriptDataDoubleEscapeStartState (appendToTemporaryBuffer cc (bufferCharacter cc tk))
      else RECONSUME_IN ScriptDataEscapedState cc tk)"

definition step_ScriptDataDoubleEscapedState :: "config \<Rightarrow> uchar \<Rightarrow> tokenizer \<Rightarrow> step" where
  "step_ScriptDataDoubleEscapedState cfg cc tk =
     (if cc = ch_DASH then ADVANCE_TO ScriptDataDoubleEscapedDashState (bufferCharacter cc tk)
      else if cc = ch_LT
      then ADVANCE_TO ScriptDataDoubleEscapedLessThanSignState (bufferCharacter cc tk)
      else if cc = endOfFileMarker then RECONSUME_IN DataState cc tk
      else ADVANCE_TO ScriptDataDoubleEscapedState (bufferCharacter cc tk))"

definition step_ScriptDataDoubleEscapedDashState :: "config \<Rightarrow> uchar \<Rightarrow> tokenizer \<Rightarrow> step" where
  "step_ScriptDataDoubleEscapedDashState cfg cc tk =
     (if cc = ch_DASH then ADVANCE_TO ScriptDataDoubleEscapedDashDashState (bufferCharacter cc tk)
      else if cc = ch_LT
      then ADVANCE_TO ScriptDataDoubleEscapedLessThanSignState (bufferCharacter cc tk)
      else if cc = endOfFileMarker then RECONSUME_IN DataState cc tk
      else ADVANCE_TO ScriptDataDoubleEscapedState (bufferCharacter cc tk))"

definition step_ScriptDataDoubleEscapedDashDashState :: "config \<Rightarrow> uchar \<Rightarrow> tokenizer \<Rightarrow> step" where
  "step_ScriptDataDoubleEscapedDashDashState cfg cc tk =
     (if cc = ch_DASH then ADVANCE_TO ScriptDataDoubleEscapedDashDashState (bufferCharacter cc tk)
      else if cc = ch_LT
      then ADVANCE_TO ScriptDataDoubleEscapedLessThanSignState (bufferCharacter cc tk)
      else if cc = ch_GT then ADVANCE_TO ScriptDataState (bufferCharacter cc tk)
      else if cc = endOfFileMarker then RECONSUME_IN DataState cc tk
      else ADVANCE_TO ScriptDataDoubleEscapedState (bufferCharacter cc tk))"

definition step_ScriptDataDoubleEscapedLessThanSignState :: "config \<Rightarrow> uchar \<Rightarrow> tokenizer \<Rightarrow> step" where
  "step_ScriptDataDoubleEscapedLessThanSignState cfg cc tk =
     (if cc = ch_SLASH
      then ADVANCE_TO ScriptDataDoubleEscapeEndState ((bufferCharacter cc tk)\<lparr>m_temporaryBuffer := []\<rparr>)
      else RECONSUME_IN ScriptDataDoubleEscapedState cc tk)"

definition step_ScriptDataDoubleEscapeEndState :: "config \<Rightarrow> uchar \<Rightarrow> tokenizer \<Rightarrow> step" where
  "step_ScriptDataDoubleEscapeEndState cfg cc tk =
     (if isTokenizerWhitespace cc \<or> cc = ch_SLASH \<or> cc = ch_GT then
        let tk = bufferCharacter cc tk
        in if temporaryBufferIs scriptTag tk then ADVANCE_TO ScriptDataEscapedState tk
           else ADVANCE_TO ScriptDataDoubleEscapedState tk
      else if isASCIIUpper cc then
        ADVANCE_TO ScriptDataDoubleEscapeEndState
          (appendToTemporaryBuffer (toLowerCase cc) (bufferCharacter cc tk))
      else if isASCIILower cc then
        ADVANCE_TO ScriptDataDoubleEscapeEndState (appendToTemporaryBuffer cc (bufferCharacter cc tk))
      else RECONSUME_IN ScriptDataDoubleEscapedState cc tk)"

section \<open>Attributes\<close>

abbreviation consumed :: "tokenizer \<Rightarrow> int" where
  "consumed tk \<equiv> numberOfCharactersConsumed (m_source tk)"

text \<open>\<open>addNewAttribute(); beginAttributeName(...); appendToAttributeName(cc)\<close>\<close>

definition startAttribute :: "uchar \<Rightarrow> tokenizer \<Rightarrow> tokenizer" where
  "startAttribute cc tk =
     on_token (\<lambda>t. appendToAttributeName cc (beginAttributeName (consumed tk) (addNewAttribute t))) tk"

definition step_BeforeAttributeNameState :: "config \<Rightarrow> uchar \<Rightarrow> tokenizer \<Rightarrow> step" where
  "step_BeforeAttributeNameState cfg cc tk =
     (if isTokenizerWhitespace cc then ADVANCE_TO BeforeAttributeNameState tk
      else if cc = ch_SLASH then ADVANCE_TO SelfClosingStartTagState tk
      else if cc = ch_GT then emitAndResumeIn cfg DataState tk
      else if m_usePreHTML5ParserQuirks tk \<and> cc = ch_LT then emitAndReconsumeIn DataState tk
      else if isASCIIUpper cc then ADVANCE_TO AttributeNameState (startAttribute (toLowerCase cc) tk)
      else if cc = endOfFileMarker then RECONSUME_IN DataState cc tk
      else ADVANCE_TO AttributeNameState (startAttribute cc tk))"

definition step_AttributeNameState :: "config \<Rightarrow> uchar \<Rightarrow> tokenizer \<Rightarrow> step" where
  "step_AttributeNameState cfg cc tk =
     (let ended = on_token (endAttributeName (consumed tk)) tk in
      if isTokenizerWhitespace cc then ADVANCE_TO AfterAttributeNameState ended
      else if cc = ch_SLASH then ADVANCE_TO SelfClosingStartTagState ended
      else if cc = ch_EQ then ADVANCE_TO BeforeAttributeValueState ended
      else if cc = ch_GT then emitAndResumeIn cfg DataState ended
      else if m_usePreHTML5ParserQuirks tk \<and> cc = ch_LT then emitAndReconsumeIn DataState ended
      else if isASCIIUpper cc
      then ADVANCE_TO AttributeNameState (on_token (appendToAttributeName (toLowerCase cc)) tk)
      else if cc = endOfFileMarker then RECONSUME_IN DataState cc ended
      else ADVANCE_TO AttributeNameState (on_token (appendToAttributeName cc) tk))"

definition step_AfterAttributeNameState :: "config \<Rightarrow> uchar \<Rightarrow> tokenizer \<Rightarrow> step" where
  "step_AfterAttributeNameState cfg cc tk =
     (if isTokenizerWhitespace cc then ADVANCE_TO AfterAttributeNameState tk
      else if cc = ch_SLASH then ADVANCE_TO SelfClosingStartTagState tk
      else if cc = ch_EQ then ADVANCE_TO BeforeAttributeValueState tk
      else if cc = ch_GT then emitAndResumeIn cfg DataState tk
      else if m_usePreHTML5ParserQuirks tk \<and> cc = ch_LT then emitAndReconsumeIn DataState tk
      else if isASCIIUpper cc then ADVANCE_TO AttributeNameState (startAttribute (toLowerCase cc) tk)
      else if cc = endOfFileMarker then RECONSUME_IN DataState cc tk
      else ADVANCE_TO AttributeNameState (startAttribute cc tk))"

definition step_BeforeAttributeValueState :: "config \<Rightarrow> uchar \<Rightarrow> tokenizer \<Rightarrow> step" where
  "step_BeforeAttributeValueState cfg cc tk =
     (if isTokenizerWhitespace cc then ADVANCE_TO BeforeAttributeValueState tk
      else if cc = ch_QUOT
      then ADVANCE_TO AttributeValueDoubleQuotedState (on_token (beginAttributeValue (consumed tk + 1)) tk)
      else if cc = ch_AMP
      then RECONSUME_IN AttributeValueUnquotedState cc (on_token (beginAttributeValue (consumed tk)) tk)
      else if cc = ch_APOS
      then ADVANCE_TO AttributeValueSingleQuotedState (on_token (beginAttributeValue (consumed tk + 1)) tk)
      else if cc = ch_GT then emitAndResumeIn cfg DataState tk
      else if cc = endOfFileMarker then RECONSUME_IN DataState cc tk
      else ADVANCE_TO AttributeValueUnquotedState
             (on_token (\<lambda>t. appendToAttributeValue cc (beginAttributeValue (consumed tk) t)) tk))"

definition step_AttributeValueDoubleQuotedState :: "config \<Rightarrow> uchar \<Rightarrow> tokenizer \<Rightarrow> step" where
  "step_AttributeValueDoubleQuotedState cfg cc tk =
     (if cc = ch_QUOT
      then ADVANCE_TO AfterAttributeValueQuotedState (on_token (endAttributeValue (consumed tk)) tk)
      else if cc = ch_AMP
      then ADVANCE_TO CharacterReferenceInAttributeValueState
             (tk\<lparr>m_additionalAllowedCharacter := ch_QUOT\<rparr>)
      else if cc = endOfFileMarker
      then RECONSUME_IN DataState cc (on_token (endAttributeValue (consumed tk)) tk)
      else ADVANCE_TO AttributeValueDoubleQuotedState (on_token (appendToAttributeValue cc) tk))"

definition step_AttributeValueSingleQuotedState :: "config \<Rightarrow> uchar \<Rightarrow> tokenizer \<Rightarrow> step" where
  "step_AttributeValueSingleQuotedState cfg cc tk =
     (if cc = ch_APOS
      then ADVANCE_TO AfterAttributeValueQuotedState (on_token (endAttributeValue (consumed tk)) tk)
      else if cc = ch_AMP
      then ADVANCE_TO CharacterReferenceInAttributeValueState
             (tk\<lparr>m_additionalAllowedCharacter := ch_APOS\<rparr>)
      else if cc = endOfFileMarker
      then RECONSUME_IN DataState cc (on_token (endAttributeValue (consumed tk)) tk)
      else ADVANCE_TO AttributeValueSingleQuotedState (on_token (appendToAttributeValue cc) tk))"

definition step_AttributeValueUnquotedState :: "config \<Rightarrow> uchar \<Rightarrow> tokenizer \<Rightarrow> step" where
  "step_AttributeValueUnquotedState cfg cc tk =
     (let ended = on_token (endAttributeValue (consumed tk)) tk in
      if isTokenizerWhitespace cc then ADVANCE_TO BeforeAttributeNameState ended
      else if cc = ch_AMP
      then ADVANCE_TO CharacterReferenceInAttributeValueState
             (tk\<lparr>m_additionalAllowedCharacter := ch_GT\<rparr>)
      else if cc = ch_GT then emitAndResumeIn cfg DataState ended
      else if cc = endOfFileMarker then RECONSUME_IN DataState cc ended
      else ADVANCE_TO AttributeValueUnquotedState (on_token (appendToAttributeValue cc) tk))"

definition step_CharacterReferenceInAttributeValueState :: "config \<Rightarrow> uchar \<Rightarrow> tokenizer \<Rightarrow> step" where
  "step_CharacterReferenceInAttributeValueState cfg cc tk =
     (case consumeHTMLEntity (entities cfg) (m_source tk) (m_additionalAllowedCharacter tk) of
        None \<Rightarrow> (Diverge, tk)
      | Some r \<Rightarrow>
          let tk = tk\<lparr>m_source := entitySource r\<rparr> in
          if notEnoughCharacters r then RETURN (haveBufferedCharacterToken tk) tk
          else
            let tk = (if \<not> success r
                      then on_token (appendToAttributeValue ch_AMP)
                             (ASSERT_tokenizer (decodedEntity r = []) tk)
                      else on_token (fold appendToAttributeValue (decodedEntity r)) tk)
            in if m_additionalAllowedCharacter tk = ch_QUOT
               then SWITCH_TO AttributeValueDoubleQuotedState tk
               else if m_additionalAllowedCharacter tk = ch_APOS
               then SWITCH_TO AttributeValueSingleQuotedState tk
               else if m_additionalAllowedCharacter tk = ch_GT
               then SWITCH_TO AttributeValueUnquotedState tk
               else RETURN False (ASSERT_tokenizer False tk))"

definition step_AfterAttributeValueQuotedState :: "config \<Rightarrow> uchar \<Rightarrow> tokenizer \<Rightarrow> step" where
  "step_AfterAttributeValueQuotedState cfg cc tk =
     (if isTokenizerWhitespace cc then ADVANCE_TO BeforeAttributeNameState tk
      else if cc = ch_SLASH then ADVANCE_TO SelfClosingStartTagState tk
      else if cc = ch_GT then emitAndResumeIn cfg DataState tk
      else if m_usePreHTML5ParserQuirks tk \<and> cc = ch_LT then emitAndReconsumeIn DataState tk
      else if cc = endOfFileMarker then RECONSUME_IN DataState cc tk
      else RECONSUME_IN BeforeAttributeNameState cc tk)"

definition step_SelfClosingStartTagState :: "config \<Rightarrow> uchar \<Rightarrow> tokenizer \<Rightarrow> step" where
  "step_SelfClosingStartTagState cfg cc tk =
     (if cc = ch_GT then emitAndResumeIn cfg DataState (on_token setSelfClosing tk)
      else if cc = endOfFileMarker then RECONSUME_IN DataState cc tk
      else RECONSUME_IN BeforeAttributeNameState cc tk)"

section \<open>Comments and markup declarations\<close>

definition step_BogusCommentState :: "config \<Rightarrow> uchar \<Rightarrow> tokenizer \<Rightarrow> step" where
  "step_BogusCommentState cfg cc tk =
     RECONSUME_IN ContinueBogusCommentState cc (on_token beginComment tk)"

definition step_ContinueBogusCommentState :: "config \<Rightarrow> uchar \<Rightarrow> tokenizer \<Rightarrow> step" where
  "step_ContinueBogusCommentState cfg cc tk =
     (if cc = ch_GT then emitAndResumeIn cfg DataState tk
      else if cc = endOfFileMarker then emitAndReconsumeIn DataState tk
      else ADVANCE_TO ContinueBogusCommentState (on_token (appendToComment cc) tk))"

definition dashDashString :: ustr where "dashDashString = ustr ''--''"
definition doctypeString :: ustr where "doctypeString = ustr ''doctype''"
definition cdataString :: ustr where "cdataString = ustr ''[CDATA[''"
definition publicString :: ustr where "publicString = ustr ''public''"
definition systemString :: ustr where "systemString = ustr ''system''"

text \<open>
  The shape of the four look-aheads: go on where the string matched, return where there are not
  enough characters, fall through where it did not match.
\<close>

definition onLookAhead ::
  "LookAheadResult \<times> sstring \<Rightarrow> (tokenizer \<Rightarrow> step) \<Rightarrow> (tokenizer \<Rightarrow> step) \<Rightarrow> tokenizer \<Rightarrow> step" where
  "onLookAhead r match fallThrough tk =
     (case r of (result, s) \<Rightarrow>
        let tk = tk\<lparr>m_source := s\<rparr> in
        case result of
          DidMatch \<Rightarrow> match tk
        | NotEnoughCharacters \<Rightarrow> RETURN (haveBufferedCharacterToken tk) tk
        | DidNotMatch \<Rightarrow> fallThrough tk)"

definition step_MarkupDeclarationOpenState :: "config \<Rightarrow> uchar \<Rightarrow> tokenizer \<Rightarrow> step" where
  "step_MarkupDeclarationOpenState cfg cc tk =
     (let bogus = RECONSUME_IN BogusCommentState cc in
      if cc = ch_DASH then
        onLookAhead (lookAhead (m_source tk) dashDashString)
          (\<lambda>tk. SWITCH_TO CommentStartState (on_token beginComment (advanceStringAndASSERT dashDashString tk)))
          bogus tk
      else if cc = ch_D \<or> cc = ch_d then
        onLookAhead (lookAheadIgnoringCase (foldCase cfg) (m_source tk) doctypeString)
          (\<lambda>tk. SWITCH_TO DOCTYPEState (advanceStringAndASSERTIgnoringCase cfg doctypeString tk))
          bogus tk
      else if cc = ch_LBRACKET \<and> m_shouldAllowCDATA tk then
        onLookAhead (lookAhead (m_source tk) cdataString)
          (\<lambda>tk. SWITCH_TO CDATASectionState (advanceStringAndASSERT cdataString tk))
          bogus tk
      else bogus tk)"

definition step_CommentStartState :: "config \<Rightarrow> uchar \<Rightarrow> tokenizer \<Rightarrow> step" where
  "step_CommentStartState cfg cc tk =
     (if cc = ch_DASH then ADVANCE_TO CommentStartDashState tk
      else if cc = ch_GT then emitAndResumeIn cfg DataState tk
      else if cc = endOfFileMarker then emitAndReconsumeIn DataState tk
      else ADVANCE_TO CommentState (on_token (appendToComment cc) tk))"

definition step_CommentStartDashState :: "config \<Rightarrow> uchar \<Rightarrow> tokenizer \<Rightarrow> step" where
  "step_CommentStartDashState cfg cc tk =
     (if cc = ch_DASH then ADVANCE_TO CommentEndState tk
      else if cc = ch_GT then emitAndResumeIn cfg DataState tk
      else if cc = endOfFileMarker then emitAndReconsumeIn DataState tk
      else ADVANCE_TO CommentState (on_token (\<lambda>t. appendToComment cc (appendToComment ch_DASH t)) tk))"

definition step_CommentState :: "config \<Rightarrow> uchar \<Rightarrow> tokenizer \<Rightarrow> step" where
  "step_CommentState cfg cc tk =
     (if cc = ch_DASH then ADVANCE_TO CommentEndDashState tk
      else if cc = endOfFileMarker then emitAndReconsumeIn DataState tk
      else ADVANCE_TO CommentState (on_token (appendToComment cc) tk))"

definition step_CommentEndDashState :: "config \<Rightarrow> uchar \<Rightarrow> tokenizer \<Rightarrow> step" where
  "step_CommentEndDashState cfg cc tk =
     (if cc = ch_DASH then ADVANCE_TO CommentEndState tk
      else if cc = endOfFileMarker then emitAndReconsumeIn DataState tk
      else ADVANCE_TO CommentState (on_token (\<lambda>t. appendToComment cc (appendToComment ch_DASH t)) tk))"

definition step_CommentEndState :: "config \<Rightarrow> uchar \<Rightarrow> tokenizer \<Rightarrow> step" where
  "step_CommentEndState cfg cc tk =
     (if cc = ch_GT then emitAndResumeIn cfg DataState tk
      else if cc = ch_BANG then ADVANCE_TO CommentEndBangState tk
      else if cc = ch_DASH then ADVANCE_TO CommentEndState (on_token (appendToComment ch_DASH) tk)
      else if cc = endOfFileMarker then emitAndReconsumeIn DataState tk
      else ADVANCE_TO CommentState
             (on_token (\<lambda>t. appendToComment cc (appendToComment ch_DASH (appendToComment ch_DASH t))) tk))"

definition step_CommentEndBangState :: "config \<Rightarrow> uchar \<Rightarrow> tokenizer \<Rightarrow> step" where
  "step_CommentEndBangState cfg cc tk =
     (let bang = on_token (\<lambda>t. appendToComment ch_BANG (appendToComment ch_DASH (appendToComment ch_DASH t))) tk in
      if cc = ch_DASH then ADVANCE_TO CommentEndDashState bang
      else if cc = ch_GT then emitAndResumeIn cfg DataState tk
      else if cc = endOfFileMarker then emitAndReconsumeIn DataState tk
      else ADVANCE_TO CommentState (on_token (appendToComment cc) bang))"

section \<open>DOCTYPE\<close>

definition step_DOCTYPEState :: "config \<Rightarrow> uchar \<Rightarrow> tokenizer \<Rightarrow> step" where
  "step_DOCTYPEState cfg cc tk =
     (if isTokenizerWhitespace cc then ADVANCE_TO BeforeDOCTYPENameState tk
      else if cc = endOfFileMarker
      then emitAndReconsumeIn DataState (on_token (\<lambda>t. setForceQuirks (beginDOCTYPE t)) tk)
      else RECONSUME_IN BeforeDOCTYPENameState cc tk)"

definition step_BeforeDOCTYPENameState :: "config \<Rightarrow> uchar \<Rightarrow> tokenizer \<Rightarrow> step" where
  "step_BeforeDOCTYPENameState cfg cc tk =
     (if isTokenizerWhitespace cc then ADVANCE_TO BeforeDOCTYPENameState tk
      else if isASCIIUpper cc
      then ADVANCE_TO DOCTYPENameState (on_token (beginDOCTYPE_char (toLowerCase cc)) tk)
      else if cc = ch_GT
      then emitAndResumeIn cfg DataState (on_token (\<lambda>t. setForceQuirks (beginDOCTYPE t)) tk)
      else if cc = endOfFileMarker
      then emitAndReconsumeIn DataState (on_token (\<lambda>t. setForceQuirks (beginDOCTYPE t)) tk)
      else ADVANCE_TO DOCTYPENameState (on_token (beginDOCTYPE_char cc) tk))"

definition step_DOCTYPENameState :: "config \<Rightarrow> uchar \<Rightarrow> tokenizer \<Rightarrow> step" where
  "step_DOCTYPENameState cfg cc tk =
     (if isTokenizerWhitespace cc then ADVANCE_TO AfterDOCTYPENameState tk
      else if cc = ch_GT then emitAndResumeIn cfg DataState tk
      else if isASCIIUpper cc
      then ADVANCE_TO DOCTYPENameState (on_token (appendToName (toLowerCase cc)) tk)
      else if cc = endOfFileMarker then emitAndReconsumeIn DataState (on_token setForceQuirks tk)
      else ADVANCE_TO DOCTYPENameState (on_token (appendToName cc) tk))"

definition step_AfterDOCTYPENameState :: "config \<Rightarrow> uchar \<Rightarrow> tokenizer \<Rightarrow> step" where
  "step_AfterDOCTYPENameState cfg cc tk =
     (let bogus = (\<lambda>tk. ADVANCE_TO BogusDOCTYPEState (on_token setForceQuirks tk)) in
      if isTokenizerWhitespace cc then ADVANCE_TO AfterDOCTYPENameState tk
      else if cc = ch_GT then emitAndResumeIn cfg DataState tk
      else if cc = endOfFileMarker then emitAndReconsumeIn DataState (on_token setForceQuirks tk)
      else if cc = ch_P \<or> cc = ch_p then
        onLookAhead (lookAheadIgnoringCase (foldCase cfg) (m_source tk) publicString)
          (\<lambda>tk. SWITCH_TO AfterDOCTYPEPublicKeywordState
                  (advanceStringAndASSERTIgnoringCase cfg publicString tk))
          bogus tk
      else if cc = ch_S \<or> cc = ch_s then
        onLookAhead (lookAheadIgnoringCase (foldCase cfg) (m_source tk) systemString)
          (\<lambda>tk. SWITCH_TO AfterDOCTYPESystemKeywordState
                  (advanceStringAndASSERTIgnoringCase cfg systemString tk))
          bogus tk
      else bogus tk)"

definition step_AfterDOCTYPEPublicKeywordState :: "config \<Rightarrow> uchar \<Rightarrow> tokenizer \<Rightarrow> step" where
  "step_AfterDOCTYPEPublicKeywordState cfg cc tk =
     (if isTokenizerWhitespace cc then ADVANCE_TO BeforeDOCTYPEPublicIdentifierState tk
      else if cc = ch_QUOT
      then ADVANCE_TO DOCTYPEPublicIdentifierDoubleQuotedState (on_token setPublicIdentifierToEmptyString tk)
      else if cc = ch_APOS
      then ADVANCE_TO DOCTYPEPublicIdentifierSingleQuotedState (on_token setPublicIdentifierToEmptyString tk)
      else if cc = ch_GT then emitAndResumeIn cfg DataState (on_token setForceQuirks tk)
      else if cc = endOfFileMarker then emitAndReconsumeIn DataState (on_token setForceQuirks tk)
      else ADVANCE_TO BogusDOCTYPEState (on_token setForceQuirks tk))"

definition step_BeforeDOCTYPEPublicIdentifierState :: "config \<Rightarrow> uchar \<Rightarrow> tokenizer \<Rightarrow> step" where
  "step_BeforeDOCTYPEPublicIdentifierState cfg cc tk =
     (if isTokenizerWhitespace cc then ADVANCE_TO BeforeDOCTYPEPublicIdentifierState tk
      else if cc = ch_QUOT
      then ADVANCE_TO DOCTYPEPublicIdentifierDoubleQuotedState (on_token setPublicIdentifierToEmptyString tk)
      else if cc = ch_APOS
      then ADVANCE_TO DOCTYPEPublicIdentifierSingleQuotedState (on_token setPublicIdentifierToEmptyString tk)
      else if cc = ch_GT then emitAndResumeIn cfg DataState (on_token setForceQuirks tk)
      else if cc = endOfFileMarker then emitAndReconsumeIn DataState (on_token setForceQuirks tk)
      else ADVANCE_TO BogusDOCTYPEState (on_token setForceQuirks tk))"

definition step_DOCTYPEPublicIdentifierDoubleQuotedState :: "config \<Rightarrow> uchar \<Rightarrow> tokenizer \<Rightarrow> step" where
  "step_DOCTYPEPublicIdentifierDoubleQuotedState cfg cc tk =
     (if cc = ch_QUOT then ADVANCE_TO AfterDOCTYPEPublicIdentifierState tk
      else if cc = ch_GT then emitAndResumeIn cfg DataState (on_token setForceQuirks tk)
      else if cc = endOfFileMarker then emitAndReconsumeIn DataState (on_token setForceQuirks tk)
      else ADVANCE_TO DOCTYPEPublicIdentifierDoubleQuotedState (on_token (appendToPublicIdentifier cc) tk))"

definition step_DOCTYPEPublicIdentifierSingleQuotedState :: "config \<Rightarrow> uchar \<Rightarrow> tokenizer \<Rightarrow> step" where
  "step_DOCTYPEPublicIdentifierSingleQuotedState cfg cc tk =
     (if cc = ch_APOS then ADVANCE_TO AfterDOCTYPEPublicIdentifierState tk
      else if cc = ch_GT then emitAndResumeIn cfg DataState (on_token setForceQuirks tk)
      else if cc = endOfFileMarker then emitAndReconsumeIn DataState (on_token setForceQuirks tk)
      else ADVANCE_TO DOCTYPEPublicIdentifierSingleQuotedState (on_token (appendToPublicIdentifier cc) tk))"

definition step_AfterDOCTYPEPublicIdentifierState :: "config \<Rightarrow> uchar \<Rightarrow> tokenizer \<Rightarrow> step" where
  "step_AfterDOCTYPEPublicIdentifierState cfg cc tk =
     (if isTokenizerWhitespace cc then ADVANCE_TO BetweenDOCTYPEPublicAndSystemIdentifiersState tk
      else if cc = ch_GT then emitAndResumeIn cfg DataState tk
      else if cc = ch_QUOT
      then ADVANCE_TO DOCTYPESystemIdentifierDoubleQuotedState (on_token setSystemIdentifierToEmptyString tk)
      else if cc = ch_APOS
      then ADVANCE_TO DOCTYPESystemIdentifierSingleQuotedState (on_token setSystemIdentifierToEmptyString tk)
      else if cc = endOfFileMarker then emitAndReconsumeIn DataState (on_token setForceQuirks tk)
      else ADVANCE_TO BogusDOCTYPEState (on_token setForceQuirks tk))"

definition step_BetweenDOCTYPEPublicAndSystemIdentifiersState :: "config \<Rightarrow> uchar \<Rightarrow> tokenizer \<Rightarrow> step" where
  "step_BetweenDOCTYPEPublicAndSystemIdentifiersState cfg cc tk =
     (if isTokenizerWhitespace cc then ADVANCE_TO BetweenDOCTYPEPublicAndSystemIdentifiersState tk
      else if cc = ch_GT then emitAndResumeIn cfg DataState tk
      else if cc = ch_QUOT
      then ADVANCE_TO DOCTYPESystemIdentifierDoubleQuotedState (on_token setSystemIdentifierToEmptyString tk)
      else if cc = ch_APOS
      then ADVANCE_TO DOCTYPESystemIdentifierSingleQuotedState (on_token setSystemIdentifierToEmptyString tk)
      else if cc = endOfFileMarker then emitAndReconsumeIn DataState (on_token setForceQuirks tk)
      else ADVANCE_TO BogusDOCTYPEState (on_token setForceQuirks tk))"

definition step_AfterDOCTYPESystemKeywordState :: "config \<Rightarrow> uchar \<Rightarrow> tokenizer \<Rightarrow> step" where
  "step_AfterDOCTYPESystemKeywordState cfg cc tk =
     (if isTokenizerWhitespace cc then ADVANCE_TO BeforeDOCTYPESystemIdentifierState tk
      else if cc = ch_QUOT
      then ADVANCE_TO DOCTYPESystemIdentifierDoubleQuotedState (on_token setSystemIdentifierToEmptyString tk)
      else if cc = ch_APOS
      then ADVANCE_TO DOCTYPESystemIdentifierSingleQuotedState (on_token setSystemIdentifierToEmptyString tk)
      else if cc = ch_GT then emitAndResumeIn cfg DataState (on_token setForceQuirks tk)
      else if cc = endOfFileMarker then emitAndReconsumeIn DataState (on_token setForceQuirks tk)
      else ADVANCE_TO BogusDOCTYPEState (on_token setForceQuirks tk))"

definition step_BeforeDOCTYPESystemIdentifierState :: "config \<Rightarrow> uchar \<Rightarrow> tokenizer \<Rightarrow> step" where
  "step_BeforeDOCTYPESystemIdentifierState cfg cc tk =
     (if isTokenizerWhitespace cc then ADVANCE_TO BeforeDOCTYPESystemIdentifierState tk
      else if cc = ch_QUOT
      then ADVANCE_TO DOCTYPESystemIdentifierDoubleQuotedState (on_token setSystemIdentifierToEmptyString tk)
      else if cc = ch_APOS
      then ADVANCE_TO DOCTYPESystemIdentifierSingleQuotedState (on_token setSystemIdentifierToEmptyString tk)
      else if cc = ch_GT then emitAndResumeIn cfg DataState (on_token setForceQuirks tk)
      else if cc = endOfFileMarker then emitAndReconsumeIn DataState (on_token setForceQuirks tk)
      else ADVANCE_TO BogusDOCTYPEState (on_token setForceQuirks tk))"

definition step_DOCTYPESystemIdentifierDoubleQuotedState :: "config \<Rightarrow> uchar \<Rightarrow> tokenizer \<Rightarrow> step" where
  "step_DOCTYPESystemIdentifierDoubleQuotedState cfg cc tk =
     (if cc = ch_QUOT then ADVANCE_TO AfterDOCTYPESystemIdentifierState tk
      else if cc = ch_GT then emitAndResumeIn cfg DataState (on_token setForceQuirks tk)
      else if cc = endOfFileMarker then emitAndReconsumeIn DataState (on_token setForceQuirks tk)
      else ADVANCE_TO DOCTYPESystemIdentifierDoubleQuotedState (on_token (appendToSystemIdentifier cc) tk))"

definition step_DOCTYPESystemIdentifierSingleQuotedState :: "config \<Rightarrow> uchar \<Rightarrow> tokenizer \<Rightarrow> step" where
  "step_DOCTYPESystemIdentifierSingleQuotedState cfg cc tk =
     (if cc = ch_APOS then ADVANCE_TO AfterDOCTYPESystemIdentifierState tk
      else if cc = ch_GT then emitAndResumeIn cfg DataState (on_token setForceQuirks tk)
      else if cc = endOfFileMarker then emitAndReconsumeIn DataState (on_token setForceQuirks tk)
      else ADVANCE_TO DOCTYPESystemIdentifierSingleQuotedState (on_token (appendToSystemIdentifier cc) tk))"

definition step_AfterDOCTYPESystemIdentifierState :: "config \<Rightarrow> uchar \<Rightarrow> tokenizer \<Rightarrow> step" where
  "step_AfterDOCTYPESystemIdentifierState cfg cc tk =
     (if isTokenizerWhitespace cc then ADVANCE_TO AfterDOCTYPESystemIdentifierState tk
      else if cc = ch_GT then emitAndResumeIn cfg DataState tk
      else if cc = endOfFileMarker then emitAndReconsumeIn DataState (on_token setForceQuirks tk)
      else ADVANCE_TO BogusDOCTYPEState tk)"

definition step_BogusDOCTYPEState :: "config \<Rightarrow> uchar \<Rightarrow> tokenizer \<Rightarrow> step" where
  "step_BogusDOCTYPEState cfg cc tk =
     (if cc = ch_GT then emitAndResumeIn cfg DataState tk
      else if cc = endOfFileMarker then emitAndReconsumeIn DataState tk
      else ADVANCE_TO BogusDOCTYPEState tk)"

section \<open>CDATA sections\<close>

definition step_CDATASectionState :: "config \<Rightarrow> uchar \<Rightarrow> tokenizer \<Rightarrow> step" where
  "step_CDATASectionState cfg cc tk =
     (if cc = ch_RBRACKET then ADVANCE_TO CDATASectionRightSquareBracketState tk
      else if cc = endOfFileMarker then RECONSUME_IN DataState cc tk
      else ADVANCE_TO CDATASectionState (bufferCharacter cc tk))"

definition step_CDATASectionRightSquareBracketState :: "config \<Rightarrow> uchar \<Rightarrow> tokenizer \<Rightarrow> step" where
  "step_CDATASectionRightSquareBracketState cfg cc tk =
     (if cc = ch_RBRACKET then ADVANCE_TO CDATASectionDoubleRightSquareBracketState tk
      else RECONSUME_IN CDATASectionState cc (bufferCharacter ch_RBRACKET tk))"

definition step_CDATASectionDoubleRightSquareBracketState :: "config \<Rightarrow> uchar \<Rightarrow> tokenizer \<Rightarrow> step" where
  "step_CDATASectionDoubleRightSquareBracketState cfg cc tk =
     (if cc = ch_GT then ADVANCE_TO DataState tk
      else RECONSUME_IN CDATASectionState cc (bufferCharacter ch_RBRACKET (bufferCharacter ch_RBRACKET tk)))"

section \<open>nextToken\<close>

text \<open>The jump to the label of a state.\<close>

definition step_of :: "State \<Rightarrow> config \<Rightarrow> uchar \<Rightarrow> tokenizer \<Rightarrow> step" where
  "step_of state =
     (case state of
       DataState \<Rightarrow> step_DataState
     | CharacterReferenceInDataState \<Rightarrow> step_CharacterReferenceInDataState
     | RCDATAState \<Rightarrow> step_RCDATAState
     | CharacterReferenceInRCDATAState \<Rightarrow> step_CharacterReferenceInRCDATAState
     | RAWTEXTState \<Rightarrow> step_RAWTEXTState
     | ScriptDataState \<Rightarrow> step_ScriptDataState
     | PLAINTEXTState \<Rightarrow> step_PLAINTEXTState
     | TagOpenState \<Rightarrow> step_TagOpenState
     | EndTagOpenState \<Rightarrow> step_EndTagOpenState
     | TagNameState \<Rightarrow> step_TagNameState
     | RCDATALessThanSignState \<Rightarrow> step_RCDATALessThanSignState
     | RCDATAEndTagOpenState \<Rightarrow> step_RCDATAEndTagOpenState
     | RCDATAEndTagNameState \<Rightarrow> step_RCDATAEndTagNameState
     | RAWTEXTLessThanSignState \<Rightarrow> step_RAWTEXTLessThanSignState
     | RAWTEXTEndTagOpenState \<Rightarrow> step_RAWTEXTEndTagOpenState
     | RAWTEXTEndTagNameState \<Rightarrow> step_RAWTEXTEndTagNameState
     | ScriptDataLessThanSignState \<Rightarrow> step_ScriptDataLessThanSignState
     | ScriptDataEndTagOpenState \<Rightarrow> step_ScriptDataEndTagOpenState
     | ScriptDataEndTagNameState \<Rightarrow> step_ScriptDataEndTagNameState
     | ScriptDataEscapeStartState \<Rightarrow> step_ScriptDataEscapeStartState
     | ScriptDataEscapeStartDashState \<Rightarrow> step_ScriptDataEscapeStartDashState
     | ScriptDataEscapedState \<Rightarrow> step_ScriptDataEscapedState
     | ScriptDataEscapedDashState \<Rightarrow> step_ScriptDataEscapedDashState
     | ScriptDataEscapedDashDashState \<Rightarrow> step_ScriptDataEscapedDashDashState
     | ScriptDataEscapedLessThanSignState \<Rightarrow> step_ScriptDataEscapedLessThanSignState
     | ScriptDataEscapedEndTagOpenState \<Rightarrow> step_ScriptDataEscapedEndTagOpenState
     | ScriptDataEscapedEndTagNameState \<Rightarrow> step_ScriptDataEscapedEndTagNameState
     | ScriptDataDoubleEscapeStartState \<Rightarrow> step_ScriptDataDoubleEscapeStartState
     | ScriptDataDoubleEscapedState \<Rightarrow> step_ScriptDataDoubleEscapedState
     | ScriptDataDoubleEscapedDashState \<Rightarrow> step_ScriptDataDoubleEscapedDashState
     | ScriptDataDoubleEscapedDashDashState \<Rightarrow> step_ScriptDataDoubleEscapedDashDashState
     | ScriptDataDoubleEscapedLessThanSignState \<Rightarrow> step_ScriptDataDoubleEscapedLessThanSignState
     | ScriptDataDoubleEscapeEndState \<Rightarrow> step_ScriptDataDoubleEscapeEndState
     | BeforeAttributeNameState \<Rightarrow> step_BeforeAttributeNameState
     | AttributeNameState \<Rightarrow> step_AttributeNameState
     | AfterAttributeNameState \<Rightarrow> step_AfterAttributeNameState
     | BeforeAttributeValueState \<Rightarrow> step_BeforeAttributeValueState
     | AttributeValueDoubleQuotedState \<Rightarrow> step_AttributeValueDoubleQuotedState
     | AttributeValueSingleQuotedState \<Rightarrow> step_AttributeValueSingleQuotedState
     | AttributeValueUnquotedState \<Rightarrow> step_AttributeValueUnquotedState
     | CharacterReferenceInAttributeValueState \<Rightarrow> step_CharacterReferenceInAttributeValueState
     | AfterAttributeValueQuotedState \<Rightarrow> step_AfterAttributeValueQuotedState
     | SelfClosingStartTagState \<Rightarrow> step_SelfClosingStartTagState
     | BogusCommentState \<Rightarrow> step_BogusCommentState
     | ContinueBogusCommentState \<Rightarrow> step_ContinueBogusCommentState
     | MarkupDeclarationOpenState \<Rightarrow> step_MarkupDeclarationOpenState
     | CommentStartState \<Rightarrow> step_CommentStartState
     | CommentStartDashState \<Rightarrow> step_CommentStartDashState
     | CommentState \<Rightarrow> step_CommentState
     | CommentEndDashState \<Rightarrow> step_CommentEndDashState
     | CommentEndState \<Rightarrow> step_CommentEndState
     | CommentEndBangState \<Rightarrow> step_CommentEndBangState
     | DOCTYPEState \<Rightarrow> step_DOCTYPEState
     | BeforeDOCTYPENameState \<Rightarrow> step_BeforeDOCTYPENameState
     | DOCTYPENameState \<Rightarrow> step_DOCTYPENameState
     | AfterDOCTYPENameState \<Rightarrow> step_AfterDOCTYPENameState
     | AfterDOCTYPEPublicKeywordState \<Rightarrow> step_AfterDOCTYPEPublicKeywordState
     | BeforeDOCTYPEPublicIdentifierState \<Rightarrow> step_BeforeDOCTYPEPublicIdentifierState
     | DOCTYPEPublicIdentifierDoubleQuotedState \<Rightarrow> step_DOCTYPEPublicIdentifierDoubleQuotedState
     | DOCTYPEPublicIdentifierSingleQuotedState \<Rightarrow> step_DOCTYPEPublicIdentifierSingleQuotedState
     | AfterDOCTYPEPublicIdentifierState \<Rightarrow> step_AfterDOCTYPEPublicIdentifierState
     | BetweenDOCTYPEPublicAndSystemIdentifiersState \<Rightarrow> step_BetweenDOCTYPEPublicAndSystemIdentifiersState
     | AfterDOCTYPESystemKeywordState \<Rightarrow> step_AfterDOCTYPESystemKeywordState
     | BeforeDOCTYPESystemIdentifierState \<Rightarrow> step_BeforeDOCTYPESystemIdentifierState
     | DOCTYPESystemIdentifierDoubleQuotedState \<Rightarrow> step_DOCTYPESystemIdentifierDoubleQuotedState
     | DOCTYPESystemIdentifierSingleQuotedState \<Rightarrow> step_DOCTYPESystemIdentifierSingleQuotedState
     | AfterDOCTYPESystemIdentifierState \<Rightarrow> step_AfterDOCTYPESystemIdentifierState
     | BogusDOCTYPEState \<Rightarrow> step_BogusDOCTYPEState
     | CDATASectionState \<Rightarrow> step_CDATASectionState
     | CDATASectionRightSquareBracketState \<Rightarrow> step_CDATASectionRightSquareBracketState
     | CDATASectionDoubleRightSquareBracketState \<Rightarrow> step_CDATASectionDoubleRightSquareBracketState)"

partial_function (option) run :: "config \<Rightarrow> uchar \<Rightarrow> tokenizer \<Rightarrow> (bool \<times> tokenizer) option" where
  "run cfg cc tk =
     (case step_of (m_state tk) cfg cc tk of
        (Next cc, tk) \<Rightarrow> run cfg cc tk
      | (Return b, tk) \<Rightarrow> Some (b, tk)
      | (Diverge, tk) \<Rightarrow> None)"

text \<open>A step from outside the switch, and on into it.\<close>

definition continue :: "config \<Rightarrow> step \<Rightarrow> (bool \<times> tokenizer) option" where
  "continue cfg s =
     (case s of
        (Next cc, tk) \<Rightarrow> run cfg cc tk
      | (Return b, tk) \<Rightarrow> Some (b, tk)
      | (Diverge, tk) \<Rightarrow> None)"

text \<open>The end tag buffered by an earlier call; true if it is complete.\<close>

definition resumeBufferedEndTag :: "tokenizer \<Rightarrow> bool \<times> tokenizer" where
  "resumeBufferedEndTag tk =
     (if m_bufferedEndTagName tk \<noteq> [] \<and> \<not> isEndTagBufferingState (m_state tk) then
        let tk = (on_token (beginEndTag (m_bufferedEndTagName tk)) tk)\<lparr>m_bufferedEndTagName := []\<rparr>
        in (m_state tk = DataState, tk)
      else (False, tk))"

text \<open>
  The newline after \<open><pre>\<close>, \<open><listing>\<close> and \<open><textarea>\<close>, then the switch.
\<close>

definition skipLeadingNewLine :: "config \<Rightarrow> uchar \<Rightarrow> tokenizer \<Rightarrow> (bool \<times> tokenizer) option" where
  "skipLeadingNewLine cfg cc tk =
     (if m_skipLeadingNewLineForListing tk then
        let tk = tk\<lparr>m_skipLeadingNewLineForListing := False\<rparr>
        in if cc = ch_LF then
             if m_state tk = DataState then continue cfg (ADVANCE_TO DataState tk)
             else if m_state tk = RCDATAState then continue cfg (ADVANCE_TO RCDATAState tk)
             else run cfg cc (ASSERT_tokenizer (m_state tk = PLAINTEXTState) tk)
           else run cfg cc tk
      else run cfg cc tk)"

text \<open>
  \<open>nextToken(source, token)\<close>: the two arguments are \<open>m_source\<close> and \<open>m_token\<close> of the state it
  starts in.  The assertion that a token in progress is passed again is what the state-passing
  of \<open>m_token\<close> says.
\<close>

definition nextToken :: "config \<Rightarrow> tokenizer \<Rightarrow> (bool \<times> tokenizer) option" where
  "nextToken cfg tk =
     (let (complete, tk) = resumeBufferedEndTag tk in
      if complete then Some (True, tk)
      else case peek_source tk of
             (Next cc, tk) \<Rightarrow> skipLeadingNewLine cfg cc tk
           | (Return b, tk) \<Rightarrow> Some (b, tk)
           | (Diverge, tk) \<Rightarrow> None)"

section \<open>The callers\<close>

text \<open>
  \<open>updateStateFor\<close>; whether the frame runs plugins and scripts is an argument.
\<close>

definition updateStateFor :: "bool \<Rightarrow> bool \<Rightarrow> ustr \<Rightarrow> tokenizer \<Rightarrow> tokenizer" where
  "updateStateFor pluginsEnabled scriptEnabled tagName tk =
     (if tagName = ustr ''textarea'' \<or> tagName = ustr ''title'' then tk\<lparr>m_state := RCDATAState\<rparr>
      else if tagName = ustr ''plaintext'' then tk\<lparr>m_state := PLAINTEXTState\<rparr>
      else if tagName = ustr ''script'' then tk\<lparr>m_state := ScriptDataState\<rparr>
      else if tagName = ustr ''style'' \<or> tagName = ustr ''iframe'' \<or> tagName = ustr ''xmp''
              \<or> (tagName = ustr ''noembed'' \<and> pluginsEnabled)
              \<or> tagName = ustr ''noframes''
              \<or> (tagName = ustr ''noscript'' \<and> scriptEnabled)
      then tk\<lparr>m_state := RAWTEXTState\<rparr>
      else tk)"

text \<open>
  The loop of \<^verbatim>\<open>HTMLPreloadScanner::scan\<close> (and, but for what it does with a token, of
  \<^verbatim>\<open>HTMLViewSourceParser::pumpTokenizer\<close>): take a token, switch the tokenizer's state for a
  start tag, clear the token.  The result is the list of tokens it saw.
\<close>

definition processToken :: "bool \<Rightarrow> bool \<Rightarrow> tokenizer \<Rightarrow> tokenizer" where
  "processToken pluginsEnabled scriptEnabled tk =
     (let tk = (if m_type (m_token tk) = StartTag
                then updateStateFor pluginsEnabled scriptEnabled (m_data (m_token tk)) tk else tk)
      in on_token (token_clear 0) tk)"

partial_function (option) scan ::
  "config \<Rightarrow> bool \<Rightarrow> bool \<Rightarrow> tokenizer \<Rightarrow> (token list \<times> tokenizer) option" where
  "scan cfg pluginsEnabled scriptEnabled tk =
     Option.bind (nextToken cfg tk) (\<lambda>(b, tk).
       if \<not> b then Some ([], tk)
       else Option.bind (scan cfg pluginsEnabled scriptEnabled
                           (processToken pluginsEnabled scriptEnabled tk))
              (\<lambda>(ts, tk'). Some (m_token tk # ts, tk')))"

end
