(* ===== verification/HTMLTokenizerSource.thy ===== *)
theory HTMLTokenizerSource
  imports HTMLTokenizerStates
begin

text \<open>
  What the input stream preprocessor and the macros of the tokenizer do to the content of the
  source.  \<open>peek_spec\<close> says on the content alone which input character comes next (\<^verbatim>\<open>CR LF\<close> and
  \<^verbatim>\<open>CR\<close> become \<^verbatim>\<open>LF\<close>, NUL is dropped, replaced, or the end of file), and \<open>peek_refines\<close> says that
  \<open>peek\<close> computes it and changes nothing but the source, the line number and its two own members.
\<close>

section \<open>Reading forward\<close>

text \<open>\<open>s'\<close> is \<open>s\<close> with some characters read.\<close>

definition read_to :: "sstring \<Rightarrow> sstring \<Rightarrow> bool" where
  "read_to s s' \<longleftrightarrow>
     sstring_ok s' \<and> streamLength s' = streamLength s \<and> m_closed s' = m_closed s
     \<and> (\<exists>n. n \<le> length (chars s) \<and> chars s' = drop n (chars s) \<and> pushedChars s' = drop n (pushedChars s))"

lemma read_to_refl: "sstring_ok s \<Longrightarrow> read_to s s"
  unfolding read_to_def by (intro conjI exI [of _ 0]) simp_all

lemma read_to_trans:
  assumes "read_to s s'" "read_to s' s''"
  shows "read_to s s''"
proof -
  obtain n m where "n \<le> length (chars s)" "chars s' = drop n (chars s)" "pushedChars s' = drop n (pushedChars s)"
    and "m \<le> length (chars s')" "chars s'' = drop m (chars s')" "pushedChars s'' = drop m (pushedChars s')"
    using assms by (auto simp: read_to_def)
  then show ?thesis
    using assms unfolding read_to_def
    by (intro conjI exI [of _ "m + n"]) (auto simp: add.commute)
qed

lemma read_to_advance: "sstring_ok s \<Longrightarrow> chars s \<noteq> [] \<Longrightarrow> read_to s (advance s)"
  unfolding read_to_def
  by (intro conjI exI [of _ 1])
     (simp_all add: ss.adv_ok ss.total_adv ss.content_adv ss.back_adv drop_Suc Suc_le_eq)

lemma read_to_length: "read_to s s' \<Longrightarrow> length (chars s') \<le> length (chars s)"
  by (auto simp: read_to_def)

lemma read_to_pushed: "read_to s s' \<Longrightarrow> set (pushedChars s') \<subseteq> set (pushedChars s)"
  by (auto simp: read_to_def dest: in_set_dropD)

text \<open>The members other than the source, the line number and the preprocessor's own.\<close>

definition same_lexer :: "tokenizer \<Rightarrow> tokenizer \<Rightarrow> bool" where
  "same_lexer tk tk' \<longleftrightarrow>
     m_state tk' = m_state tk \<and> m_appropriateEndTagName tk' = m_appropriateEndTagName tk
     \<and> m_token tk' = m_token tk
     \<and> m_skipLeadingNewLineForListing tk' = m_skipLeadingNewLineForListing tk
     \<and> m_forceNullCharacterReplacement tk' = m_forceNullCharacterReplacement tk
     \<and> m_shouldAllowCDATA tk' = m_shouldAllowCDATA tk
     \<and> m_temporaryBuffer tk' = m_temporaryBuffer tk
     \<and> m_bufferedEndTagName tk' = m_bufferedEndTagName tk
     \<and> m_additionalAllowedCharacter tk' = m_additionalAllowedCharacter tk
     \<and> m_usePreHTML5ParserQuirks tk' = m_usePreHTML5ParserQuirks tk
     \<and> tokenizerAsserts tk' = tokenizerAsserts tk"

lemma same_lexer_refl [simp]: "same_lexer tk tk"
  by (simp add: same_lexer_def)

lemma same_lexer_trans: "same_lexer tk tk' \<Longrightarrow> same_lexer tk' tk'' \<Longrightarrow> same_lexer tk tk''"
  by (simp add: same_lexer_def)

lemma same_lexer_updates [simp]:
  "same_lexer tk (tk'\<lparr>m_source := s\<rparr>) = same_lexer tk tk'"
  "same_lexer tk (tk'\<lparr>m_lineNumber := l\<rparr>) = same_lexer tk tk'"
  "same_lexer tk (tk'\<lparr>m_nextInputCharacter := c\<rparr>) = same_lexer tk tk'"
  "same_lexer tk (tk'\<lparr>m_skipNextNewLine := b\<rparr>) = same_lexer tk tk'"
  "same_lexer (tk\<lparr>m_source := s\<rparr>) tk' = same_lexer tk tk'"
  "same_lexer (tk\<lparr>m_lineNumber := l\<rparr>) tk' = same_lexer tk tk'"
  "same_lexer (tk\<lparr>m_nextInputCharacter := c\<rparr>) tk' = same_lexer tk tk'"
  "same_lexer (tk\<lparr>m_skipNextNewLine := b\<rparr>) tk' = same_lexer tk tk'"
  by (simp_all add: same_lexer_def)

section \<open>The preprocessor\<close>

fun peek_plain :: "bool \<Rightarrow> bool \<Rightarrow> ustr \<Rightarrow> (uchar \<times> bool \<times> ustr) option" where
  "peek_plain closed dropNull [] = None"
| "peek_plain closed dropNull (c # cs) =
     (if c = ch_CR then Some (ch_LF, True, c # cs)
      else if c = 0 \<and> \<not> (closed \<and> cs = []) then
        (if dropNull then peek_plain closed dropNull cs else Some (0xFFFD, False, c # cs))
      else Some (c, False, c # cs))"

text \<open>
  The next input character, whether a newline after it is to be skipped, and the content from
  the raw character it stands for; \<open>None\<close> where the content runs out.
\<close>

definition peek_spec :: "bool \<Rightarrow> bool \<Rightarrow> bool \<Rightarrow> ustr \<Rightarrow> (uchar \<times> bool \<times> ustr) option" where
  "peek_spec closed dropNull skip cs =
     peek_plain closed dropNull (if skip \<and> cs \<noteq> [] \<and> hd cs = ch_LF then tl cs else cs)"

definition peek_result ::
  "tokenizer \<Rightarrow> (uchar \<times> bool \<times> ustr) option \<Rightarrow> bool \<times> tokenizer \<Rightarrow> bool" where
  "peek_result tk spec r \<longleftrightarrow>
     (case r of (b, tk') \<Rightarrow>
        same_lexer tk tk' \<and> read_to (m_source tk) (m_source tk')
        \<and> (case spec of
             None \<Rightarrow> \<not> b \<and> chars (m_source tk') = [] \<and> \<not> m_skipNextNewLine tk'
           | Some (cc, k, cs) \<Rightarrow> b \<and> chars (m_source tk') = cs \<and> m_nextInputCharacter tk' = cc
                               \<and> m_skipNextNewLine tk' = k))"

lemma specialCharacterMask: "and c (- 16) = 0 \<longleftrightarrow> \<not> 0xF < (c :: uchar)"
proof -
  have inv: "(- 16 :: uchar) = not 0xF" by simp
  have m: "(0xF :: uchar) = mask 4" by (simp add: mask_eq_exp_minus_1)
  have "c = or (and c (mask 4)) (and c (not (mask 4)))"
    by (simp flip: bit.conj_disj_distrib)
  then have one: "and c (not (mask 4)) = 0 \<Longrightarrow> take_bit 4 c = c" by (simp add: take_bit_eq_mask)
  have two: "take_bit 4 c = c \<Longrightarrow> and c (not (mask 4)) = 0"
    by (metis bit.conj_cancel_right bit.conj_zero_right and.assoc take_bit_eq_mask)
  have "take_bit 4 c = c \<longleftrightarrow> unat c < 16"
    by (simp add: word_unat_eq_iff unsigned_take_bit_eq take_bit_nat_eq_self_iff)
  also have "\<dots> \<longleftrightarrow> c \<le> 0xF" by (auto simp: word_le_nat_alt)
  finally show ?thesis using one two unfolding inv m by (auto simp: not_less)
qed

lemma peek_plain_ordinary: "0xF < c \<Longrightarrow> peek_plain closed dropNull (c # cs) = Some (c, False, c # cs)"
  by auto

lemma skipPendingNewLine_spec:
  assumes ok: "sstring_ok (m_source tk)" and ne: "chars (m_source tk) \<noteq> []"
    and cur: "m_nextInputCharacter tk = hd (chars (m_source tk))"
  shows "\<exists>b tk'. skipPendingNewLine tk = (b, tk') \<and> same_lexer tk tk'
           \<and> read_to (m_source tk) (m_source tk')
           \<and> chars (m_source tk') = (if m_skipNextNewLine tk \<and> hd (chars (m_source tk)) = ch_LF
                                     then tl (chars (m_source tk)) else chars (m_source tk))
           \<and> (b \<longleftrightarrow> chars (m_source tk') \<noteq> [])
           \<and> (b \<longrightarrow> m_nextInputCharacter tk' = hd (chars (m_source tk')))
           \<and> (\<not> b \<longrightarrow> \<not> m_skipNextNewLine tk')"
proof -
  obtain s l where sl: "advancePastNewline (m_source tk) (m_lineNumber tk) = (s, l)" by fastforce
  then have s: "s = advance (m_source tk)" by (metis advancePastNewline_fst fst_conv)
  have "sstring_ok s" "chars s = tl (chars (m_source tk))"
    using ss.adv_ok [OF ok ne] ss.content_adv [OF ok ne] by (simp_all add: s)
  then show ?thesis
    using sl read_to_advance [OF ok ne] read_to_refl [OF ok] ne cur
    by (auto simp: skipPendingNewLine_def ss.empty_iff ss.cur_hd s Let_def)
qed

lemma peek_refines:
  assumes "sstring_ok (m_source tk)" "chars (m_source tk) \<noteq> []"
  shows "\<exists>r. peek tk = Some r \<and> peek_result tk
           (peek_spec (m_closed (m_source tk)) (shouldSkipNullCharacters tk) (m_skipNextNewLine tk)
              (chars (m_source tk))) r"
  using assms
proof (induction "length (chars (m_source tk))" arbitrary: tk rule: less_induct)
  case less
  let ?s = "m_source tk"
  let ?cl = "m_closed ?s" and ?dn = "shouldSkipNullCharacters tk"
  let ?tk = "tk\<lparr>m_nextInputCharacter := current ?s\<rparr>"
  note ok = less.prems(1) and ne = less.prems(2)
  have cur: "current ?s = hd (chars ?s)" using ok ne by (simp add: ss.cur_hd)
  show ?case
  proof (cases "0xF < current ?s")
    case True
    then have "peek tk = Some (True, ?tk\<lparr>m_skipNextNewLine := False\<rparr>)"
      by (subst peek.simps) (simp add: specialCharacterMask Let_def)
    moreover have "peek_spec ?cl ?dn (m_skipNextNewLine tk) (chars ?s)
        = Some (current ?s, False, chars ?s)"
      using True ne cur by (cases "chars ?s") (auto simp: peek_spec_def)
    ultimately show ?thesis using read_to_refl [OF ok] by (simp add: peek_result_def)
  next
    case False
    have pre: "sstring_ok (m_source ?tk)" "chars (m_source ?tk) \<noteq> []"
      "m_nextInputCharacter ?tk = hd (chars (m_source ?tk))"
      using ok ne cur by simp_all
    obtain b tk1 where sp: "skipPendingNewLine ?tk = (b, tk1)" "same_lexer ?tk tk1"
      "read_to (m_source ?tk) (m_source tk1)"
      "chars (m_source tk1) = (if m_skipNextNewLine ?tk \<and> hd (chars (m_source ?tk)) = ch_LF
                               then tl (chars (m_source ?tk)) else chars (m_source ?tk))"
      "b \<longleftrightarrow> chars (m_source tk1) \<noteq> []" "b \<longrightarrow> m_nextInputCharacter tk1 = hd (chars (m_source tk1))"
      "\<not> b \<longrightarrow> \<not> m_skipNextNewLine tk1"
      using skipPendingNewLine_spec [OF pre] by blast
    note skip = sp(1) and same = sp(2) [unfolded same_lexer_updates] and b = sp(5)
    have rd: "read_to ?s (m_source tk1)"
      and c1: "chars (m_source tk1) = (if m_skipNextNewLine tk \<and> hd (chars ?s) = ch_LF
                                       then tl (chars ?s) else chars ?s)"
      and n: "b \<Longrightarrow> m_nextInputCharacter tk1 = hd (chars (m_source tk1))"
      and k: "\<not> b \<Longrightarrow> \<not> m_skipNextNewLine tk1"
      using sp(3,4,6,7) by simp_all
    let ?s1 = "m_source tk1"
    have spec: "peek_spec ?cl ?dn (m_skipNextNewLine tk) (chars ?s) = peek_plain ?cl ?dn (chars ?s1)"
      using ne c1 by (simp add: peek_spec_def)
    have slow: "peek tk = (if \<not> b then Some (False, tk1)
        else if m_nextInputCharacter tk1 = ch_CR
        then Some (True, tk1\<lparr>m_nextInputCharacter := ch_LF, m_skipNextNewLine := True\<rparr>)
        else
          let tk = tk1\<lparr>m_skipNextNewLine := False\<rparr> in
          if m_nextInputCharacter tk = 0 \<and> \<not> shouldTreatNullAsEndOfFileMarker tk then
            if shouldSkipNullCharacters tk then
              let tk = tk\<lparr>m_source := advancePastNonNewline (m_source tk)\<rparr>
              in if isEmpty (m_source tk) then Some (False, tk) else peek tk
            else Some (True, tk\<lparr>m_nextInputCharacter := 0xFFFD\<rparr>)
          else Some (True, tk))"
      using False by (subst peek.simps) (simp add: specialCharacterMask Let_def skip)
    show ?thesis
    proof (cases b)
      case False
      then show ?thesis using b k same rd by (simp add: slow peek_result_def spec)
    next
      case True
      have ok1: "sstring_ok ?s1" using rd by (simp add: read_to_def)
      obtain c cs where cs: "chars ?s1 = c # cs" using True b by (cases "chars ?s1") auto
      have nc: "m_nextInputCharacter tk1 = c" using n True cs by simp
      have len: "sstring_length ?s1 = Suc (length cs)" using sstring_length_chars [OF ok1] cs by simp
      have cl: "m_closed ?s1 = ?cl" using rd by (simp add: read_to_def)
      have dn: "shouldSkipNullCharacters (tk1\<lparr>m_skipNextNewLine := x\<rparr>) = ?dn" for x
        using same by (simp add: shouldSkipNullCharacters_def same_lexer_def)
      have eof: "shouldTreatNullAsEndOfFileMarker (tk1\<lparr>m_skipNextNewLine := x\<rparr>) \<longleftrightarrow> ?cl \<and> cs = []" for x
        by (simp add: shouldTreatNullAsEndOfFileMarker_def isClosed_def len cl)
      show ?thesis
      proof (cases "c = 0 \<and> \<not> (?cl \<and> cs = []) \<and> ?dn")
        case False
        then show ?thesis
          using True same rd cs by (auto simp: slow nc Let_def dn eof peek_result_def spec)
      next
        case drop: True
        let ?tk2 = "tk1\<lparr>m_skipNextNewLine := False, m_source := advance ?s1\<rparr>"
        have ne1: "chars ?s1 \<noteq> []" using cs by simp
        have ok2: "sstring_ok (advance ?s1)" and c2: "chars (advance ?s1) = cs"
          using ss.adv_ok [OF ok1 ne1] ss.content_adv [OF ok1 ne1] cs by simp_all
        have rd2: "read_to ?s (advance ?s1)"
          using rd read_to_advance [OF ok1 ne1] read_to_trans by blast
        have eq: "peek tk = (if cs = [] then Some (False, ?tk2) else peek ?tk2)"
          using True drop ok2 c2 by (simp add: slow nc Let_def dn eof ss.empty_iff)
        show ?thesis
        proof (cases "cs = []")
          case True
          have "peek_plain ?cl ?dn (chars ?s1) = None" using drop True cs by simp
          then show ?thesis using same rd2 c2 True by (simp add: eq peek_result_def spec)
        next
          case F: False
          have lt: "length (chars (m_source ?tk2)) < length (chars ?s)"
            using read_to_length [OF rd] cs c2 by simp
          have dn2: "shouldSkipNullCharacters ?tk2 = ?dn"
            using same by (simp add: shouldSkipNullCharacters_def same_lexer_def)
          obtain r where r: "peek ?tk2 = Some r" "peek_result ?tk2 (peek_plain ?cl ?dn cs) r"
            using less.hyps [OF lt] F ok2 c2 dn2 cl by (auto simp: peek_spec_def)
          have "peek_plain ?cl ?dn (chars ?s1) = peek_plain ?cl ?dn cs"
            using drop cs by simp
          then have "peek_result tk (peek_plain ?cl ?dn (chars ?s1)) r"
            using r(2) same rd2 read_to_trans [OF rd2]
            by (auto simp: peek_result_def elim: same_lexer_trans split: option.splits)
          then show ?thesis using F r(1) by (simp add: eq spec)
        qed
      qed
    qed
  qed
qed

end
