(* ===== verification/HTMLTokenizerInvariant.thy ===== *)
theory HTMLTokenizerInvariant
  imports HTMLTokenizerSource
begin

text \<open>
  The invariant of the tokenizer: which type of token each state may find, what it may ask of the
  current attribute and of the DOCTYPE data, which pushed-back characters can be in front of the
  source, and the measure that every step decreases.  \<open>step_of_ok\<close> is the one case analysis
  over the states; the theorems about \<open>run\<close>, \<open>nextToken\<close> and \<open>scan\<close> follow from it.
\<close>

section \<open>Classes of states\<close>

text \<open>What a state expects of the token (\<open>token_inv\<close> says what each class means).\<close>

datatype state_class = TextK | OpenK | TagK | NameK | NamedK | ValueK | CommentK | DoctypeK | PublicK | SystemK

primrec kind :: "State \<Rightarrow> state_class" where
  "kind DataState = TextK"
| "kind CharacterReferenceInDataState = TextK"
| "kind RCDATAState = TextK"
| "kind CharacterReferenceInRCDATAState = TextK"
| "kind RAWTEXTState = TextK"
| "kind ScriptDataState = TextK"
| "kind PLAINTEXTState = TextK"
| "kind TagOpenState = OpenK"
| "kind EndTagOpenState = OpenK"
| "kind TagNameState = TagK"
| "kind RCDATALessThanSignState = TextK"
| "kind RCDATAEndTagOpenState = TextK"
| "kind RCDATAEndTagNameState = TextK"
| "kind RAWTEXTLessThanSignState = TextK"
| "kind RAWTEXTEndTagOpenState = TextK"
| "kind RAWTEXTEndTagNameState = TextK"
| "kind ScriptDataLessThanSignState = TextK"
| "kind ScriptDataEndTagOpenState = TextK"
| "kind ScriptDataEndTagNameState = TextK"
| "kind ScriptDataEscapeStartState = TextK"
| "kind ScriptDataEscapeStartDashState = TextK"
| "kind ScriptDataEscapedState = TextK"
| "kind ScriptDataEscapedDashState = TextK"
| "kind ScriptDataEscapedDashDashState = TextK"
| "kind ScriptDataEscapedLessThanSignState = TextK"
| "kind ScriptDataEscapedEndTagOpenState = TextK"
| "kind ScriptDataEscapedEndTagNameState = TextK"
| "kind ScriptDataDoubleEscapeStartState = TextK"
| "kind ScriptDataDoubleEscapedState = TextK"
| "kind ScriptDataDoubleEscapedDashState = TextK"
| "kind ScriptDataDoubleEscapedDashDashState = TextK"
| "kind ScriptDataDoubleEscapedLessThanSignState = TextK"
| "kind ScriptDataDoubleEscapeEndState = TextK"
| "kind BeforeAttributeNameState = TagK"
| "kind AttributeNameState = NameK"
| "kind AfterAttributeNameState = NamedK"
| "kind BeforeAttributeValueState = NamedK"
| "kind AttributeValueDoubleQuotedState = ValueK"
| "kind AttributeValueSingleQuotedState = ValueK"
| "kind AttributeValueUnquotedState = ValueK"
| "kind CharacterReferenceInAttributeValueState = ValueK"
| "kind AfterAttributeValueQuotedState = TagK"
| "kind SelfClosingStartTagState = TagK"
| "kind BogusCommentState = OpenK"
| "kind ContinueBogusCommentState = CommentK"
| "kind MarkupDeclarationOpenState = OpenK"
| "kind CommentStartState = CommentK"
| "kind CommentStartDashState = CommentK"
| "kind CommentState = CommentK"
| "kind CommentEndDashState = CommentK"
| "kind CommentEndState = CommentK"
| "kind CommentEndBangState = CommentK"
| "kind DOCTYPEState = OpenK"
| "kind BeforeDOCTYPENameState = OpenK"
| "kind DOCTYPENameState = DoctypeK"
| "kind AfterDOCTYPENameState = DoctypeK"
| "kind AfterDOCTYPEPublicKeywordState = DoctypeK"
| "kind BeforeDOCTYPEPublicIdentifierState = DoctypeK"
| "kind DOCTYPEPublicIdentifierDoubleQuotedState = PublicK"
| "kind DOCTYPEPublicIdentifierSingleQuotedState = PublicK"
| "kind AfterDOCTYPEPublicIdentifierState = DoctypeK"
| "kind BetweenDOCTYPEPublicAndSystemIdentifiersState = DoctypeK"
| "kind AfterDOCTYPESystemKeywordState = DoctypeK"
| "kind BeforeDOCTYPESystemIdentifierState = DoctypeK"
| "kind DOCTYPESystemIdentifierDoubleQuotedState = SystemK"
| "kind DOCTYPESystemIdentifierSingleQuotedState = SystemK"
| "kind AfterDOCTYPESystemIdentifierState = DoctypeK"
| "kind BogusDOCTYPEState = DoctypeK"
| "kind CDATASectionState = TextK"
| "kind CDATASectionRightSquareBracketState = TextK"
| "kind CDATASectionDoubleRightSquareBracketState = TextK"

definition inTag :: "State \<Rightarrow> bool" where
  "inTag st \<longleftrightarrow> kind st \<in> {TagK, NameK, NamedK, ValueK}"

text \<open>Reading a character reference, reading the text around one, reading a possible end tag.\<close>

definition charRefStates :: "State set" where
  "charRefStates = {CharacterReferenceInDataState, CharacterReferenceInRCDATAState,
     CharacterReferenceInAttributeValueState}"

definition refStates :: "State set" where
  "refStates = {DataState, RCDATAState, AttributeValueDoubleQuotedState,
     AttributeValueSingleQuotedState, AttributeValueUnquotedState}"

definition endTagNameStates :: "State set" where
  "endTagNameStates = {RCDATAEndTagNameState, RAWTEXTEndTagNameState, ScriptDataEndTagNameState,
     ScriptDataEscapedEndTagNameState}"

section \<open>The invariant\<close>

definition attribute_complete :: "Attribute \<Rightarrow> bool" where
  "attribute_complete a \<longleftrightarrow> 0 < m_start (m_nameRange a) \<and> 0 < m_end (m_nameRange a)
     \<and> 0 < m_start (m_valueRange a) \<and> 0 < m_end (m_valueRange a)"

text \<open>The last attribute is the current one and its name (its value, too) has begun.\<close>

definition attribute_begun :: "bool \<Rightarrow> token \<Rightarrow> bool" where
  "attribute_begun value t \<longleftrightarrow>
     m_attributes t \<noteq> [] \<and> m_currentAttribute t = Some (length (m_attributes t) - 1)
     \<and> list_all attribute_complete (butlast (m_attributes t))
     \<and> 0 < m_start (m_nameRange (last (m_attributes t)))
     \<and> (value \<longrightarrow> 0 < m_end (m_nameRange (last (m_attributes t)))
                 \<and> 0 < m_start (m_valueRange (last (m_attributes t))))"

definition is_tag :: "token \<Rightarrow> bool" where
  "is_tag t \<longleftrightarrow> m_type t = StartTag \<or> m_type t = EndTag"

text \<open>
  The token a state can find.  In \<open>DataState\<close> at the end of the file (\<open>cc = 0\<close>) it can be any
  unfinished token: that is how the states in a tag give up.
\<close>

definition token_inv :: "State \<Rightarrow> uchar \<Rightarrow> token \<Rightarrow> bool" where
  "token_inv st cc t \<longleftrightarrow> tokenAsserts t \<and>
     (case kind st of
        TextK \<Rightarrow> m_type t = Uninitialized \<or> m_type t = Character \<or> (st = DataState \<and> cc = 0)
      | OpenK \<Rightarrow> m_type t = Uninitialized
      | TagK \<Rightarrow> is_tag t \<and> list_all attribute_complete (m_attributes t)
      | NameK \<Rightarrow> is_tag t \<and> attribute_begun False t
      | NamedK \<Rightarrow> is_tag t \<and> list_all attribute_complete (m_attributes t) \<and> attribute_begun True t
      | ValueK \<Rightarrow> is_tag t \<and> attribute_begun True t
      | CommentK \<Rightarrow> m_type t = Comment
      | DoctypeK \<Rightarrow> m_type t = DOCTYPE \<and> m_doctypeData t \<noteq> None
      | PublicK \<Rightarrow> m_type t = DOCTYPE \<and> (\<exists>d. m_doctypeData t = Some d \<and> m_hasPublicIdentifier d)
      | SystemK \<Rightarrow> m_type t = DOCTYPE \<and> (\<exists>d. m_doctypeData t = Some d \<and> m_hasSystemIdentifier d))"

text \<open>The lexer's own members: everything but the source and the preprocessor.\<close>

definition lexer_inv :: "uchar \<Rightarrow> tokenizer \<Rightarrow> bool" where
  "lexer_inv cc tk \<longleftrightarrow>
     tokenizerAsserts tk \<and> token_inv (m_state tk) cc (m_token tk)
     \<and> (m_bufferedEndTagName tk \<noteq> [] \<longleftrightarrow> m_state tk \<in> endTagNameStates)
     \<and> (m_state tk = CharacterReferenceInAttributeValueState \<longrightarrow>
          m_additionalAllowedCharacter tk \<in> {ch_QUOT, ch_APOS, ch_GT})"

definition pushed_inv :: "entity_table \<Rightarrow> State \<Rightarrow> ustr \<Rightarrow> bool" where
  "pushed_inv tbl st p \<longleftrightarrow>
     p = [] \<or> (st \<in> refStates \<and> list_all isReferenceChar p) \<or> (st \<in> charRefStates \<and> entity_reentry tbl p)"

definition source_inv :: "entity_table \<Rightarrow> State \<Rightarrow> sstring \<Rightarrow> bool" where
  "source_inv tbl st s \<longleftrightarrow>
     sstring_ok s \<and> pushed_inv tbl st (pushedChars s) \<and> 0 \<le> position s
     \<and> (inTag st \<longrightarrow> 0 < position s)"

text \<open>The input character and the source it was peeked from.\<close>

definition input_inv :: "uchar \<Rightarrow> sstring \<Rightarrow> bool" where
  "input_inv cc s \<longleftrightarrow>
     chars s \<noteq> [] \<and> (cc = 0 \<longrightarrow> m_closed s \<and> chars s = [0])
     \<and> (pushedChars s \<noteq> [] \<longrightarrow> cc = hd (chars s))"

definition inv :: "config \<Rightarrow> uchar \<Rightarrow> tokenizer \<Rightarrow> bool" where
  "inv cfg cc tk \<longleftrightarrow>
     lexer_inv cc tk \<and> source_inv (entities cfg) (m_state tk) (m_source tk) \<and> input_inv cc (m_source tk)"

section \<open>The measure\<close>

primrec rank :: "State \<Rightarrow> nat" where
  "rank DataState = 0"
| "rank CharacterReferenceInDataState = 3"
| "rank RCDATAState = 1"
| "rank CharacterReferenceInRCDATAState = 3"
| "rank RAWTEXTState = 1"
| "rank ScriptDataState = 1"
| "rank PLAINTEXTState = 1"
| "rank TagOpenState = 15"
| "rank EndTagOpenState = 4"
| "rank TagNameState = 3"
| "rank RCDATALessThanSignState = 3"
| "rank RCDATAEndTagOpenState = 3"
| "rank RCDATAEndTagNameState = 3"
| "rank RAWTEXTLessThanSignState = 3"
| "rank RAWTEXTEndTagOpenState = 3"
| "rank RAWTEXTEndTagNameState = 3"
| "rank ScriptDataLessThanSignState = 3"
| "rank ScriptDataEndTagOpenState = 3"
| "rank ScriptDataEndTagNameState = 3"
| "rank ScriptDataEscapeStartState = 3"
| "rank ScriptDataEscapeStartDashState = 3"
| "rank ScriptDataEscapedState = 2"
| "rank ScriptDataEscapedDashState = 3"
| "rank ScriptDataEscapedDashDashState = 3"
| "rank ScriptDataEscapedLessThanSignState = 3"
| "rank ScriptDataEscapedEndTagOpenState = 3"
| "rank ScriptDataEscapedEndTagNameState = 3"
| "rank ScriptDataDoubleEscapeStartState = 3"
| "rank ScriptDataDoubleEscapedState = 2"
| "rank ScriptDataDoubleEscapedDashState = 3"
| "rank ScriptDataDoubleEscapedDashDashState = 3"
| "rank ScriptDataDoubleEscapedLessThanSignState = 3"
| "rank ScriptDataDoubleEscapeEndState = 3"
| "rank BeforeAttributeNameState = 2"
| "rank AttributeNameState = 3"
| "rank AfterAttributeNameState = 3"
| "rank BeforeAttributeValueState = 3"
| "rank AttributeValueDoubleQuotedState = 2"
| "rank AttributeValueSingleQuotedState = 2"
| "rank AttributeValueUnquotedState = 2"
| "rank CharacterReferenceInAttributeValueState = 3"
| "rank AfterAttributeValueQuotedState = 3"
| "rank SelfClosingStartTagState = 3"
| "rank BogusCommentState = 3"
| "rank ContinueBogusCommentState = 2"
| "rank MarkupDeclarationOpenState = 4"
| "rank CommentStartState = 3"
| "rank CommentStartDashState = 3"
| "rank CommentState = 3"
| "rank CommentEndDashState = 3"
| "rank CommentEndState = 3"
| "rank CommentEndBangState = 3"
| "rank DOCTYPEState = 3"
| "rank BeforeDOCTYPENameState = 2"
| "rank DOCTYPENameState = 3"
| "rank AfterDOCTYPENameState = 3"
| "rank AfterDOCTYPEPublicKeywordState = 3"
| "rank BeforeDOCTYPEPublicIdentifierState = 3"
| "rank DOCTYPEPublicIdentifierDoubleQuotedState = 3"
| "rank DOCTYPEPublicIdentifierSingleQuotedState = 3"
| "rank AfterDOCTYPEPublicIdentifierState = 3"
| "rank BetweenDOCTYPEPublicAndSystemIdentifiersState = 3"
| "rank AfterDOCTYPESystemKeywordState = 3"
| "rank BeforeDOCTYPESystemIdentifierState = 3"
| "rank DOCTYPESystemIdentifierDoubleQuotedState = 3"
| "rank DOCTYPESystemIdentifierSingleQuotedState = 3"
| "rank AfterDOCTYPESystemIdentifierState = 3"
| "rank BogusDOCTYPEState = 3"
| "rank CDATASectionState = 2"
| "rank CDATASectionRightSquareBracketState = 3"
| "rank CDATASectionDoubleRightSquareBracketState = 3"

definition weight :: "tokenizer \<Rightarrow> nat" where
  "weight tk = (if m_type (m_token tk) = StartTag then 28 else 0) + rank (m_state tk)
     + (if m_bufferedEndTagName tk \<noteq> [] then 1 else 0)"

definition potential :: "tokenizer \<Rightarrow> nat" where
  "potential tk = 20 * length (chars (m_source tk)) + weight tk"

section \<open>Between the calls\<close>

text \<open>
  What holds before \<open>nextToken\<close>: the token of an earlier call is in progress, or the token is
  fresh, or an end tag is waiting in the buffer.
\<close>

definition waiting_end_tag :: "tokenizer \<Rightarrow> bool" where
  "waiting_end_tag tk \<longleftrightarrow>
     m_bufferedEndTagName tk \<noteq> [] \<and> m_type (m_token tk) = Uninitialized
     \<and> tokenizerAsserts tk \<and> tokenAsserts (m_token tk) \<and> pushedChars (m_source tk) = []
     \<and> m_state tk \<in> {DataState, BeforeAttributeNameState, SelfClosingStartTagState}"

definition entry_inv :: "config \<Rightarrow> tokenizer \<Rightarrow> bool" where
  "entry_inv cfg tk \<longleftrightarrow>
     source_inv (entities cfg) (m_state tk) (m_source tk)
     \<and> m_type (m_token tk) \<noteq> Character
     \<and> (lexer_inv 1 tk \<or> waiting_end_tag tk)
     \<and> (m_skipLeadingNewLineForListing tk \<longrightarrow>
          m_state tk \<in> {DataState, RCDATAState, PLAINTEXTState} \<and> m_bufferedEndTagName tk = [])"

text \<open>The token a call returns true with.\<close>

definition token_complete :: "token \<Rightarrow> bool" where
  "token_complete t \<longleftrightarrow>
     tokenAsserts t \<and> m_type t \<noteq> Uninitialized
     \<and> (m_type t = StartTag \<or> m_type t = EndTag \<longrightarrow> list_all attribute_complete (m_attributes t))
     \<and> (m_type t = DOCTYPE \<longrightarrow> m_doctypeData t \<noteq> None)"

abbreviation cleared :: "tokenizer \<Rightarrow> tokenizer" where
  "cleared tk \<equiv> on_token (token_clear 0) tk"

text \<open>
  What holds after \<open>nextToken\<close>, called with a potential of \<open>B\<close>; \<open>hb\<close> says a character token was
  there already.
\<close>

definition exit_inv :: "config \<Rightarrow> bool \<Rightarrow> nat \<Rightarrow> bool \<Rightarrow> tokenizer \<Rightarrow> bool" where
  "exit_inv cfg hb B b tk \<longleftrightarrow>
     \<not> m_skipLeadingNewLineForListing tk
     \<and> (if b then
          token_complete (m_token tk) \<and> entry_inv cfg (cleared tk)
          \<and> (m_type (m_token tk) \<noteq> Character \<longrightarrow> m_state tk = DataState
               \<and> pushedChars (m_source tk) = [] \<and> m_bufferedEndTagName tk = [])
          \<and> (m_type (m_token tk) = StartTag \<longrightarrow> potential (cleared tk) + 1 < B)
          \<and> (potential (cleared tk) < B \<or> hb \<and> potential (cleared tk) \<le> B)
        else entry_inv cfg tk
          \<and> (chars (m_source tk) = [] \<or> m_state tk \<in> charRefStates
             \<or> m_state tk \<in> {MarkupDeclarationOpenState, AfterDOCTYPENameState}))"

definition step_ok :: "config \<Rightarrow> bool \<Rightarrow> nat \<Rightarrow> step \<Rightarrow> bool" where
  "step_ok cfg hb B s \<longleftrightarrow>
     (case s of
        (Next cc, tk) \<Rightarrow> inv cfg cc tk \<and> \<not> m_skipLeadingNewLineForListing tk \<and> potential tk < B
      | (Return b, tk) \<Rightarrow> exit_inv cfg hb B b tk
      | (Diverge, tk) \<Rightarrow> False)"

section \<open>The operations of the token keep it\<close>

named_theorems token_ops

lemma ASSERT_simps [simp]:
  "b \<Longrightarrow> ASSERT_token b t = t" "c \<Longrightarrow> ASSERT_tokenizer c tk = tk"
  by (simp_all add: ASSERT_token_def ASSERT_tokenizer_def)

lemma m_type_ASSERT [simp]: "m_type (ASSERT_token b t) = m_type t"
  by (simp add: ASSERT_token_def)

lemma m_type_updCurrentAttribute [simp]: "m_type (updCurrentAttribute f t) = m_type t"
  by (simp add: updCurrentAttribute_def split: option.splits)

lemma m_type_updDoctype [simp]: "m_type (updDoctype P f t) = m_type t"
  by (simp add: updDoctype_def split: option.splits)

lemma m_type_token_ops [simp]:
  "m_type (beginStartTag c t) = StartTag" "m_type (beginEndTag cs t) = EndTag"
  "m_type (ensureIsCharacterToken t) = Character" "m_type (beginComment t) = Comment"
  "m_type (beginDOCTYPE t) = DOCTYPE" "m_type (beginDOCTYPE_char c t) = DOCTYPE"
  "m_type (makeEndOfFile t) = EndOfFile" "m_type (token_clear i t) = Uninitialized"
  "m_type (appendToName c t) = m_type t" "m_type (appendToCharacter cs t) = m_type t"
  "m_type (appendToComment c t) = m_type t" "m_type (addNewAttribute t) = m_type t"
  "m_type (beginAttributeName i t) = m_type t" "m_type (endAttributeName i t) = m_type t"
  "m_type (beginAttributeValue i t) = m_type t" "m_type (endAttributeValue i t) = m_type t"
  "m_type (appendToAttributeName c t) = m_type t" "m_type (appendToAttributeValue c t) = m_type t"
  "m_type (setSelfClosing t) = m_type t" "m_type (setForceQuirks t) = m_type t"
  "m_type (setPublicIdentifierToEmptyString t) = m_type t"
  "m_type (setSystemIdentifierToEmptyString t) = m_type t"
  "m_type (appendToPublicIdentifier c t) = m_type t" "m_type (appendToSystemIdentifier c t) = m_type t"
  by (simp_all add: beginStartTag_def beginEndTag_def ensureIsCharacterToken_def beginComment_def
      beginDOCTYPE_def beginDOCTYPE_char_def makeEndOfFile_def token_clear_def appendToName_def
      appendToCharacter_def appendToComment_def addNewAttribute_def beginAttributeName_def
      endAttributeName_def beginAttributeValue_def endAttributeValue_def appendToAttributeName_def
      appendToAttributeValue_def assertCurrentAttribute_def setSelfClosing_def setForceQuirks_def
      setPublicIdentifierToEmptyString_def setSystemIdentifierToEmptyString_def
      appendToPublicIdentifier_def appendToSystemIdentifier_def Let_def split: option.splits)

lemma tokenAsserts_clear [simp]: "tokenAsserts (token_clear i t) = tokenAsserts t"
  by (simp add: token_clear_def)

lemma is_tag_cong: "m_type t' = m_type t \<Longrightarrow> is_tag t' = is_tag t"
  by (simp add: is_tag_def)

text \<open>Through \<open>m_currentAttribute\<close>, when it points to the last attribute.\<close>

lemma begun_updCurrentAttribute:
  "attribute_begun v t \<Longrightarrow>
   updCurrentAttribute f t = t\<lparr>m_attributes := butlast (m_attributes t) @ [f (last (m_attributes t))]\<rparr>"
proof -
  assume b: "attribute_begun v t"
  then obtain xs x where xs: "m_attributes t = xs @ [x]"
    by (metis attribute_begun_def append_butlast_last_id)
  then show ?thesis using b by (simp add: attribute_begun_def updCurrentAttribute_def)
qed

lemma begun_assertCurrentAttribute:
  "attribute_begun v t \<Longrightarrow> assertCurrentAttribute P t = ASSERT_token (P (last (m_attributes t))) t"
  by (simp add: attribute_begun_def assertCurrentAttribute_def last_conv_nth)

lemma complete_split:
  "list_all attribute_complete xs \<longleftrightarrow>
   list_all attribute_complete (butlast xs) \<and> (xs \<noteq> [] \<longrightarrow> attribute_complete (last xs))"
  by (cases xs rule: rev_cases) auto

text \<open>The current attribute with \<open>f\<close> applied.\<close>

definition upd_last :: "(Attribute \<Rightarrow> Attribute) \<Rightarrow> token \<Rightarrow> token" where
  "upd_last f t = t\<lparr>m_attributes := butlast (m_attributes t) @ [f (last (m_attributes t))]\<rparr>"

lemma upd_last_simps [simp]:
  "m_type (upd_last f t) = m_type t" "tokenAsserts (upd_last f t) = tokenAsserts t"
  "is_tag (upd_last f t) = is_tag t"
  "m_currentAttribute (upd_last f t) = m_currentAttribute t"
  by (simp_all add: upd_last_def is_tag_def)

lemma begun_upd_last [simp]:
  "attribute_begun v (upd_last f t) \<longleftrightarrow>
     m_currentAttribute t = Some (length (butlast (m_attributes t)))
     \<and> list_all attribute_complete (butlast (m_attributes t))
     \<and> 0 < m_start (m_nameRange (f (last (m_attributes t))))
     \<and> (v \<longrightarrow> 0 < m_end (m_nameRange (f (last (m_attributes t))))
             \<and> 0 < m_start (m_valueRange (f (last (m_attributes t)))))"
  by (simp add: attribute_begun_def upd_last_def)

lemma complete_upd_last [simp]:
  "list_all attribute_complete (m_attributes (upd_last f t)) \<longleftrightarrow>
     list_all attribute_complete (butlast (m_attributes t)) \<and> attribute_complete (f (last (m_attributes t)))"
  by (simp add: upd_last_def)

lemma attribute_ops_eq:
  assumes "attribute_begun v t"
  shows "endAttributeName i t = upd_last (\<lambda>a. a\<lparr>m_nameRange := (m_nameRange a)\<lparr>m_end := i\<rparr>,
                                m_valueRange := \<lparr>m_start = i, m_end = i\<rparr>\<rparr>) t"
    "beginAttributeValue i t = upd_last (\<lambda>a. a\<lparr>m_valueRange := \<lparr>m_start = i, m_end = 0\<rparr>\<rparr>) t"
    "endAttributeValue i t = upd_last (\<lambda>a. a\<lparr>m_valueRange := (m_valueRange a)\<lparr>m_end := i\<rparr>\<rparr>) t"
    "is_tag t \<Longrightarrow> c \<noteq> 0 \<Longrightarrow>
       appendToAttributeName c t = upd_last (\<lambda>a. a\<lparr>m_name := m_name a @ [c]\<rparr>) t"
    "is_tag t \<Longrightarrow> c \<noteq> 0 \<Longrightarrow> v \<Longrightarrow>
       appendToAttributeValue c t = upd_last (\<lambda>a. a\<lparr>m_value := m_value a @ [c]\<rparr>) t"
proof -
  note u = begun_updCurrentAttribute [OF assms, folded upd_last_def]
    and a = begun_assertCurrentAttribute [OF assms]
  show "endAttributeName i t = upd_last (\<lambda>a. a\<lparr>m_nameRange := (m_nameRange a)\<lparr>m_end := i\<rparr>,
                                m_valueRange := \<lparr>m_start = i, m_end = i\<rparr>\<rparr>) t"
    "beginAttributeValue i t = upd_last (\<lambda>a. a\<lparr>m_valueRange := \<lparr>m_start = i, m_end = 0\<rparr>\<rparr>) t"
    "endAttributeValue i t = upd_last (\<lambda>a. a\<lparr>m_valueRange := (m_valueRange a)\<lparr>m_end := i\<rparr>\<rparr>) t"
    by (simp_all add: endAttributeName_def beginAttributeValue_def endAttributeValue_def u)
  have n: "m_start (m_nameRange (last (m_attributes t))) \<noteq> 0" using assms by (simp add: attribute_begun_def)
  show "is_tag t \<Longrightarrow> c \<noteq> 0 \<Longrightarrow>
       appendToAttributeName c t = upd_last (\<lambda>a. a\<lparr>m_name := m_name a @ [c]\<rparr>) t"
    using n by (simp add: appendToAttributeName_def is_tag_def a u)
  assume "is_tag t" "c \<noteq> 0" v
  moreover have "m_start (m_valueRange (last (m_attributes t))) \<noteq> 0"
    using assms \<open>v\<close> by (simp add: attribute_begun_def)
  ultimately show "appendToAttributeValue c t = upd_last (\<lambda>a. a\<lparr>m_value := m_value a @ [c]\<rparr>) t"
    by (simp add: appendToAttributeValue_def is_tag_def a u)
qed

lemma begun_cases:
  "attribute_begun v t \<Longrightarrow>
     m_currentAttribute t = Some (length (butlast (m_attributes t)))
     \<and> list_all attribute_complete (butlast (m_attributes t))
     \<and> 0 < m_start (m_nameRange (last (m_attributes t)))
     \<and> (v \<longrightarrow> 0 < m_end (m_nameRange (last (m_attributes t)))
             \<and> 0 < m_start (m_valueRange (last (m_attributes t))))"
  by (simp add: attribute_begun_def)

lemma token_inv_startAttribute [token_ops]:
  assumes "tokenAsserts t" "is_tag t" "list_all attribute_complete (m_attributes t)" "0 < i" "c \<noteq> 0"
    "kind st = NameK"
  shows "token_inv st cc (appendToAttributeName c (beginAttributeName i (addNewAttribute t)))"
proof -
  let ?t = "beginAttributeName i (addNewAttribute t)"
  have "m_currentAttribute (addNewAttribute t) = Some (length (m_attributes t))"
    "m_attributes (addNewAttribute t) = m_attributes t @ [newAttribute]" "tokenAsserts (addNewAttribute t)"
    using assms by (simp_all add: addNewAttribute_def is_tag_def)
  then have b: "attribute_begun False ?t" "tokenAsserts ?t"
    using assms(3,4) by (simp_all add: beginAttributeName_def updCurrentAttribute_def attribute_begun_def)
  moreover have "is_tag ?t" using assms(2) by (simp add: is_tag_def)
  ultimately show ?thesis
    using assms(5,6) begun_cases [OF b(1)] by (simp add: token_inv_def attribute_ops_eq(4))
qed

lemma token_inv_appendToAttributeName [token_ops]:
  "tokenAsserts t \<Longrightarrow> is_tag t \<Longrightarrow> attribute_begun False t \<Longrightarrow> c \<noteq> 0 \<Longrightarrow> kind st = NameK \<Longrightarrow>
   token_inv st cc (appendToAttributeName c t)"
  using begun_cases [of False t] by (simp add: token_inv_def attribute_ops_eq(4))

lemma endAttributeName_ops [token_ops]:
  assumes "tokenAsserts t" "is_tag t" "attribute_begun False t" "0 < i"
  shows "kind st = NamedK \<Longrightarrow> token_inv st cc (endAttributeName i t)"
    "kind st = TagK \<Longrightarrow> token_inv st cc (endAttributeName i t)"
    "tokenAsserts (endAttributeName i t)"
    "list_all attribute_complete (m_attributes (endAttributeName i t))"
  using assms begun_cases [OF assms(3)]
  by (simp_all add: token_inv_def attribute_ops_eq(1) attribute_complete_def)

lemma token_inv_beginAttributeValue [token_ops]:
  "tokenAsserts t \<Longrightarrow> is_tag t \<Longrightarrow> attribute_begun True t \<Longrightarrow> 0 < i \<Longrightarrow> kind st = ValueK \<Longrightarrow>
   token_inv st cc (beginAttributeValue i t)"
  using begun_cases [of True t] by (simp add: token_inv_def attribute_ops_eq(2))

lemma appendToAttributeValue_begun:
  "tokenAsserts t \<Longrightarrow> is_tag t \<Longrightarrow> attribute_begun True t \<Longrightarrow> c \<noteq> 0 \<Longrightarrow>
   tokenAsserts (appendToAttributeValue c t) \<and> is_tag (appendToAttributeValue c t)
   \<and> attribute_begun True (appendToAttributeValue c t)"
  using begun_cases [of True t] by (simp add: attribute_ops_eq(5))

lemma token_inv_appendToAttributeValue [token_ops]:
  "tokenAsserts t \<Longrightarrow> is_tag t \<Longrightarrow> attribute_begun True t \<Longrightarrow> c \<noteq> 0 \<Longrightarrow> kind st = ValueK \<Longrightarrow>
   token_inv st cc (appendToAttributeValue c t)"
  using appendToAttributeValue_begun [of t c] by (simp add: token_inv_def)

lemma token_inv_fold_appendToAttributeValue [token_ops]:
  "tokenAsserts t \<Longrightarrow> is_tag t \<Longrightarrow> attribute_begun True t \<Longrightarrow> 0 \<notin> set cs \<Longrightarrow> kind st = ValueK \<Longrightarrow>
   token_inv st cc (fold appendToAttributeValue cs t)"
  by (induction cs arbitrary: t) (auto simp: token_inv_def dest: appendToAttributeValue_begun)

lemma token_inv_begin_append_value [token_ops]:
  "tokenAsserts t \<Longrightarrow> is_tag t \<Longrightarrow> attribute_begun True t \<Longrightarrow> 0 < i \<Longrightarrow> c \<noteq> 0 \<Longrightarrow> kind st = ValueK \<Longrightarrow>
   token_inv st cc (appendToAttributeValue c (beginAttributeValue i t))"
  using token_inv_beginAttributeValue [of t i st cc]
    appendToAttributeValue_begun [of "beginAttributeValue i t" c]
  by (simp add: token_inv_def)

lemma endAttributeValue_ops [token_ops]:
  assumes "tokenAsserts t" "is_tag t" "attribute_begun True t" "0 < i"
  shows "kind st = TagK \<Longrightarrow> token_inv st cc (endAttributeValue i t)"
    "tokenAsserts (endAttributeValue i t)"
    "list_all attribute_complete (m_attributes (endAttributeValue i t))"
  using assms begun_cases [OF assms(3)]
  by (simp_all add: token_inv_def attribute_ops_eq(3) attribute_complete_def)

text \<open>The other operations: beginning a token, appending to it, the DOCTYPE data.\<close>

lemma begin_ops [token_ops]:
  assumes "tokenAsserts t" "m_type t = Uninitialized"
  shows "c \<noteq> 0 \<Longrightarrow> kind st = TagK \<Longrightarrow> token_inv st cc (beginStartTag c t)"
    "kind st = TagK \<Longrightarrow> token_inv st cc (beginEndTag cs t)"
    "kind st = CommentK \<Longrightarrow> token_inv st cc (beginComment t)"
    "c \<noteq> 0 \<Longrightarrow> kind st = DoctypeK \<Longrightarrow> token_inv st cc (beginDOCTYPE_char c t)"
    "tokenAsserts (beginEndTag cs t)" "list_all attribute_complete (m_attributes (beginEndTag cs t))"
    "tokenAsserts (setForceQuirks (beginDOCTYPE t))"
    "m_doctypeData (setForceQuirks (beginDOCTYPE t)) \<noteq> None"
  using assms
  by (simp_all add: token_inv_def is_tag_def beginStartTag_def beginEndTag_def beginComment_def
      beginDOCTYPE_char_def beginDOCTYPE_def setForceQuirks_def updDoctype_def Let_def)

lemma append_ops [token_ops]:
  assumes "tokenAsserts t" "c \<noteq> 0"
  shows "is_tag t \<Longrightarrow> list_all attribute_complete (m_attributes t) \<Longrightarrow> kind st = TagK \<Longrightarrow>
           token_inv st cc (appendToName c t)"
    "m_type t = DOCTYPE \<Longrightarrow> m_doctypeData t \<noteq> None \<Longrightarrow> kind st = DoctypeK \<Longrightarrow>
           token_inv st cc (appendToName c t)"
    "m_type t = Comment \<Longrightarrow> kind st = CommentK \<Longrightarrow> token_inv st cc (appendToComment c t)"
    "m_type t = Comment \<Longrightarrow> tokenAsserts (appendToComment c t)"
  using assms
  by (auto simp: token_inv_def is_tag_def appendToName_def appendToComment_def Let_def)

lemma doctype_ops [token_ops]:
  assumes "tokenAsserts t" "m_type t = DOCTYPE" "m_doctypeData t \<noteq> None"
  shows "kind st = PublicK \<Longrightarrow> token_inv st cc (setPublicIdentifierToEmptyString t)"
    "kind st = SystemK \<Longrightarrow> token_inv st cc (setSystemIdentifierToEmptyString t)"
    "kind st = DoctypeK \<Longrightarrow> token_inv st cc (setForceQuirks t)"
    "tokenAsserts (setForceQuirks t)" "m_doctypeData (setForceQuirks t) \<noteq> None"
  using assms
  by (auto simp: token_inv_def setPublicIdentifierToEmptyString_def setForceQuirks_def
      setSystemIdentifierToEmptyString_def updDoctype_def)

lemma identifier_ops [token_ops]:
  assumes "tokenAsserts t" "m_type t = DOCTYPE" "m_doctypeData t = Some d" "c \<noteq> 0"
  shows "m_hasPublicIdentifier d \<Longrightarrow> kind st = PublicK \<Longrightarrow> token_inv st cc (appendToPublicIdentifier c t)"
    "m_hasSystemIdentifier d \<Longrightarrow> kind st = SystemK \<Longrightarrow> token_inv st cc (appendToSystemIdentifier c t)"
  using assms
  by (auto simp: token_inv_def appendToPublicIdentifier_def appendToSystemIdentifier_def updDoctype_def)

lemma setSelfClosing_ops [token_ops]:
  "tokenAsserts t \<Longrightarrow> is_tag t \<Longrightarrow> tokenAsserts (setSelfClosing t)"
  "is_tag t \<Longrightarrow> m_attributes (setSelfClosing t) = m_attributes t"
  by (auto simp: setSelfClosing_def is_tag_def)

section \<open>Buffered characters\<close>

lemma bufferCharacter_simps [simp]:
  "m_state (bufferCharacter c tk) = m_state tk" "m_source (bufferCharacter c tk) = m_source tk"
  "m_bufferedEndTagName (bufferCharacter c tk) = m_bufferedEndTagName tk"
  "m_temporaryBuffer (bufferCharacter c tk) = m_temporaryBuffer tk"
  "m_additionalAllowedCharacter (bufferCharacter c tk) = m_additionalAllowedCharacter tk"
  "m_skipLeadingNewLineForListing (bufferCharacter c tk) = m_skipLeadingNewLineForListing tk"
  "m_appropriateEndTagName (bufferCharacter c tk) = m_appropriateEndTagName tk"
  "m_type (m_token (bufferCharacter c tk)) = Character"
  "c \<noteq> 0 \<Longrightarrow> tokenizerAsserts (bufferCharacter c tk) = tokenizerAsserts tk"
  by (simp_all add: bufferCharacter_def ASSERT_tokenizer_def)

lemma tokenAsserts_bufferCharacter [simp]:
  "tokenAsserts (m_token tk) \<Longrightarrow> m_type (m_token tk) = Uninitialized \<or> m_type (m_token tk) = Character \<Longrightarrow>
   tokenAsserts (m_token (bufferCharacter c tk))"
  by (auto simp: bufferCharacter_def ensureIsCharacterToken_def appendToCharacter_def
      ASSERT_tokenizer_def ASSERT_token_def Let_def)

lemma appendToTemporaryBuffer_simps [simp]:
  "m_state (appendToTemporaryBuffer c tk) = m_state tk" "m_source (appendToTemporaryBuffer c tk) = m_source tk"
  "m_bufferedEndTagName (appendToTemporaryBuffer c tk) = m_bufferedEndTagName tk"
  "m_additionalAllowedCharacter (appendToTemporaryBuffer c tk) = m_additionalAllowedCharacter tk"
  "m_skipLeadingNewLineForListing (appendToTemporaryBuffer c tk) = m_skipLeadingNewLineForListing tk"
  "m_token (appendToTemporaryBuffer c tk) = m_token tk"
  "tokenizerAsserts (appendToTemporaryBuffer c tk) = tokenizerAsserts tk"
  by (simp_all add: appendToTemporaryBuffer_def)

lemma addToPossibleEndTag_simps [simp]:
  "m_state (addToPossibleEndTag c tk) = m_state tk" "m_source (addToPossibleEndTag c tk) = m_source tk"
  "m_bufferedEndTagName (addToPossibleEndTag c tk) = m_bufferedEndTagName tk @ [c]"
  "m_additionalAllowedCharacter (addToPossibleEndTag c tk) = m_additionalAllowedCharacter tk"
  "m_skipLeadingNewLineForListing (addToPossibleEndTag c tk) = m_skipLeadingNewLineForListing tk"
  "m_token (addToPossibleEndTag c tk) = m_token tk"
  "isEndTagBufferingState (m_state tk) \<Longrightarrow> tokenizerAsserts (addToPossibleEndTag c tk) = tokenizerAsserts tk"
  by (simp_all add: addToPossibleEndTag_def ASSERT_tokenizer_def)

lemma startAttribute_simps [simp]:
  "m_state (startAttribute c tk) = m_state tk" "m_source (startAttribute c tk) = m_source tk"
  "m_bufferedEndTagName (startAttribute c tk) = m_bufferedEndTagName tk"
  "m_additionalAllowedCharacter (startAttribute c tk) = m_additionalAllowedCharacter tk"
  "m_skipLeadingNewLineForListing (startAttribute c tk) = m_skipLeadingNewLineForListing tk"
  "tokenizerAsserts (startAttribute c tk) = tokenizerAsserts tk"
  "m_token (startAttribute c tk)
   = appendToAttributeName c (beginAttributeName (consumed tk) (addNewAttribute (m_token tk)))"
  by (simp_all add: startAttribute_def)

section \<open>The macros keep the invariant\<close>

lemma source_advance_eq:
  "\<exists>l. source_advance tk = tk\<lparr>m_source := advance (m_source tk), m_lineNumber := l\<rparr>"
  using advance_line_fst [of "m_source tk" "m_lineNumber tk"]
  by (cases "advance_line (m_source tk) (m_lineNumber tk)") (auto simp: source_advance_def)

lemma source_advance_simps [simp]:
  "m_source (source_advance tk) = advance (m_source tk)" "same_lexer tk (source_advance tk)"
  using source_advance_eq [of tk] by auto

lemma lexer_inv_same: "same_lexer tk tk' \<Longrightarrow> lexer_inv cc tk' = lexer_inv cc tk"
  by (simp add: same_lexer_def lexer_inv_def)

lemma weight_same: "same_lexer tk tk' \<Longrightarrow> weight tk' = weight tk"
  by (simp add: same_lexer_def weight_def)

lemma token_inv_any: "token_inv st 1 t \<Longrightarrow> token_inv st cc t"
  by (auto simp: token_inv_def split: state_class.splits)

lemma lexer_inv_any: "lexer_inv 1 tk \<Longrightarrow> lexer_inv cc tk"
  by (auto simp: lexer_inv_def token_inv_any)

lemma position_read: "read_to s s' \<Longrightarrow> position s \<le> position s'"
  by (auto simp: read_to_def streamLength_def)

lemma position_advance: "sstring_ok s \<Longrightarrow> chars s \<noteq> [] \<Longrightarrow> position (advance s) = position s + 1"
  using streamLength_advance [of s] ss.content_adv [of s]
  by (cases "chars s") (simp_all add: streamLength_def)

lemma consumed_position: "position s \<le> numberOfCharactersConsumed s"
  by (simp add: position_def)

lemma isReferenceChar_ordinary: "isReferenceChar c \<Longrightarrow> 0xF < c"
  by (auto simp: isReferenceChar_def isNameChar_def isLetter_def word_le_nat_alt word_less_nat_alt)

lemma isLetter_reference: "isLetter c \<Longrightarrow> isReferenceChar c"
  by (simp add: isReferenceChar_def isNameChar_def)

lemma pushed_inv_hd: "pushed_inv tbl st p \<Longrightarrow> p \<noteq> [] \<Longrightarrow> isReferenceChar (hd p)"
  using isLetter_reference [of "hd p"]
  by (cases p) (auto simp: pushed_inv_def entity_reentry_def isReferenceChar_def)

lemma peek_plain_Some:
  "peek_plain closed dn cs = Some (cc, k, rest) \<Longrightarrow>
   rest \<noteq> [] \<and> (cc = 0 \<longrightarrow> closed \<and> rest = [0])"
  by (induction closed dn cs rule: peek_plain.induct) (auto split: if_splits)

text \<open>What is pushed back is in front, and no special character.\<close>

lemma peek_pushed:
  assumes p: "pushed_inv tbl st (pushedChars s)" "pushedChars s \<noteq> []"
  shows "peek_spec closed dn skip (chars s) = Some (hd (chars s), False, chars s)"
proof -
  have "0xF < hd (pushedChars s)"
    using pushed_inv_hd [OF p] by (rule isReferenceChar_ordinary)
  moreover obtain c cs where "chars s = c # cs" "c = hd (pushedChars s)"
    using p(2) by (cases "pushedChars s") (auto simp: chars_def)
  ultimately show ?thesis by (auto simp: peek_spec_def)
qed

lemma read_to_same_length:
  assumes "read_to s s'" "chars s' = chars s" "chars s \<noteq> []"
  shows "pushedChars s' = pushedChars s"
proof -
  obtain n where n: "chars s = drop n (chars s)" "pushedChars s' = drop n (pushedChars s)"
    using assms by (auto simp: read_to_def)
  then have "length (chars s) = length (chars s) - n" by (metis length_drop)
  moreover have "0 < length (chars s)" using assms(3) by simp
  ultimately have "n = 0" by linarith
  then show ?thesis using n(2) by simp
qed

lemma source_inv_peek:
  assumes "source_inv tbl st s" "read_to s s'" "pushedChars s \<noteq> [] \<Longrightarrow> pushedChars s' = pushedChars s"
  shows "source_inv tbl st s'"
proof -
  have "pushed_inv tbl st (pushedChars s')"
    using assms read_to_pushed [OF assms(2)]
    by (cases "pushedChars s = []") (auto simp: source_inv_def pushed_inv_def)
  moreover have "sstring_ok s'" using assms(2) by (simp add: read_to_def)
  ultimately show ?thesis using assms(1) position_read [OF assms(2)] by (auto simp: source_inv_def)
qed

text \<open>Leaving a call because the source is empty.\<close>

lemma return_empty_ok:
  assumes "source_inv (entities cfg) (m_state tk) (m_source tk)" "lexer_inv 1 tk"
    "chars (m_source tk) = []" "\<not> m_skipLeadingNewLineForListing tk" "potential tk < B"
  shows "step_ok cfg hb B (RETURN (haveBufferedCharacterToken tk) tk)"
proof -
  have tx: "m_type (m_token tk) = Character \<Longrightarrow> kind (m_state tk) = TextK"
    using assms(2) by (auto simp: lexer_inv_def token_inv_def is_tag_def split: state_class.splits)
  have inv: "lexer_inv 1 (cleared tk)" if "m_type (m_token tk) = Character"
    using assms(2) tx [OF that] by (simp add: lexer_inv_def token_inv_def)
  have "weight (cleared tk) \<le> weight tk" by (simp add: weight_def)
  then show ?thesis
    using assms inv
    by (auto simp: step_ok_def RETURN_def exit_inv_def entry_inv_def haveBufferedCharacterToken_def
        token_complete_def potential_def lexer_inv_def token_inv_def)
qed

text \<open>
  What a peek does: either nothing is left and the call returns, or there is the next character.
\<close>

lemma peeked_cases:
  assumes src: "source_inv (entities cfg) (m_state tk) (m_source tk)" and lex: "lexer_inv 1 tk"
    and "s = peeked (if isEmpty (m_source tk) then Some (False, tk) else peek tk) tk0"
  obtains
    (empty) tk' where "s = RETURN (haveBufferedCharacterToken tk') tk'" "same_lexer tk tk'"
      "source_inv (entities cfg) (m_state tk') (m_source tk')" "chars (m_source tk') = []"
  | (char) cc tk' where "s = (Next cc, tk')" "same_lexer tk tk'" "inv cfg cc tk'"
      "read_to (m_source tk) (m_source tk')"
proof (cases "chars (m_source tk) = []")
  case True
  then have "isEmpty (m_source tk)" using src by (simp add: source_inv_def ss.empty_iff)
  then show ?thesis using empty [of tk] assms True by (simp add: peeked_def same_lexer_def)
next
  case ne: False
  let ?s = "m_source tk"
  have ok: "sstring_ok ?s" and p: "pushed_inv (entities cfg) (m_state tk) (pushedChars ?s)"
    using src by (simp_all add: source_inv_def)
  let ?spec = "peek_spec (m_closed ?s) (shouldSkipNullCharacters tk) (m_skipNextNewLine tk) (chars ?s)"
  obtain b tk' where pk: "peek tk = Some (b, tk')" and res: "peek_result tk ?spec (b, tk')"
    using peek_refines [OF ok ne] by (metis surj_pair)
  have same: "same_lexer tk tk'" and rd: "read_to ?s (m_source tk')"
    using res by (auto simp: peek_result_def)
  have st: "m_state tk' = m_state tk" using same by (simp add: same_lexer_def)
  have keep: "pushedChars (m_source tk') = pushedChars ?s" "chars (m_source tk') = chars ?s"
    "m_nextInputCharacter tk' = hd (chars ?s)" if "pushedChars ?s \<noteq> []"
    using res peek_pushed [OF p that] read_to_same_length [OF rd _ ne] by (auto simp: peek_result_def)
  have src': "source_inv (entities cfg) (m_state tk') (m_source tk')"
    using source_inv_peek [OF src rd keep(1)] st by simp
  have lex': "lexer_inv cc tk'" for cc using lexer_inv_any [OF lex] lexer_inv_same [OF same] by simp
  have s: "s = peeked (Some (b, tk')) tk0" using assms(3) ok ne by (simp add: ss.empty_iff pk)
  show ?thesis
  proof (cases ?spec)
    case None
    then have "\<not> b" "chars (m_source tk') = []" using res by (auto simp: peek_result_def)
    then show ?thesis using empty [OF _ same src'] s by (simp add: peeked_def)
  next
    case (Some r)
    then obtain cc k cs where r: "?spec = Some (cc, k, cs)" by (metis surj_pair)
    then have b: b "m_nextInputCharacter tk' = cc" "chars (m_source tk') = cs"
      using res by (auto simp: peek_result_def)
    have cs: "cs \<noteq> []" "cc = 0 \<Longrightarrow> m_closed ?s \<and> cs = [0]"
      using r peek_plain_Some unfolding peek_spec_def by blast+
    have "input_inv cc (m_source tk')"
      using cs b keep rd read_to_pushed [OF rd]
      by (cases "pushedChars ?s = []") (auto simp: input_inv_def read_to_def)
    then show ?thesis
      using char [OF _ same _ rd] b s src' lex' by (simp add: peeked_def inv_def)
  qed
qed

lemma same_lexer_skip:
  "same_lexer tk tk' \<Longrightarrow> m_skipLeadingNewLineForListing tk' = m_skipLeadingNewLineForListing tk"
  by (simp add: same_lexer_def)

lemma potential_read:
  "same_lexer tk tk' \<Longrightarrow> read_to (m_source tk) (m_source tk') \<Longrightarrow> potential tk' \<le> potential tk"
  using read_to_length [of "m_source tk" "m_source tk'"] weight_same [of tk tk'] by (simp add: potential_def)

lemma peeked_ok:
  assumes src: "source_inv (entities cfg) (m_state tk) (m_source tk)" and lex: "lexer_inv 1 tk"
    and skip: "\<not> m_skipLeadingNewLineForListing tk" and pot: "potential tk < B"
  shows "step_ok cfg hb B (peeked (if isEmpty (m_source tk) then Some (False, tk) else peek tk) tk0)"
proof (cases rule: peeked_cases [OF src lex refl, of tk0, case_names empty char])
  case (empty tk')
  have "potential tk' < B"
    using pot weight_same [OF empty(2)] empty(4) by (simp add: potential_def)
  then show ?thesis
    using return_empty_ok [of cfg tk' B hb] empty skip lex lexer_inv_same [OF empty(2)]
      same_lexer_skip [OF empty(2)] by simp
next
  case (char cc tk')
  then show ?thesis
    using potential_read [OF char(2,4)] pot skip same_lexer_skip [OF char(2)] by (simp add: step_ok_def)
qed

text \<open>The premises every macro has on the state it sets and on the members it finds.\<close>

definition target_ok :: "State \<Rightarrow> tokenizer \<Rightarrow> bool" where
  "target_ok st tk \<longleftrightarrow>
     tokenizerAsserts tk \<and> token_inv st 1 (m_token tk)
     \<and> (m_bufferedEndTagName tk \<noteq> [] \<longleftrightarrow> st \<in> endTagNameStates)
     \<and> (st = CharacterReferenceInAttributeValueState \<longrightarrow>
          m_additionalAllowedCharacter tk \<in> {ch_QUOT, ch_APOS, ch_GT})"

lemma target_ok_lexer_inv: "target_ok st tk = lexer_inv 1 (tk\<lparr>m_state := st\<rparr>)"
  by (simp add: target_ok_def lexer_inv_def)

definition front_ok :: "State \<Rightarrow> sstring \<Rightarrow> bool" where
  "front_ok st s \<longleftrightarrow> sstring_ok s \<and> chars s \<noteq> [] \<and> 0 \<le> position s
     \<and> (pushedChars s = [] \<or> st \<in> refStates \<and> list_all isReferenceChar (pushedChars s))"

lemma list_all_tl: "list_all P xs \<Longrightarrow> list_all P (tl xs)"
  by (cases xs) auto

lemma source_inv_advance:
  assumes "front_ok st s"
  shows "source_inv tbl st (advance s)" "length (chars (advance s)) < length (chars s)"
    "0 < position (advance s)" "sstring_ok (advance s)"
proof -
  have ok: "sstring_ok s" and ne: "chars s \<noteq> []" using assms by (simp_all add: front_ok_def)
  have "pushed_inv tbl st (pushedChars (advance s))"
    using assms ss.back_adv [OF ok ne] by (auto simp: front_ok_def pushed_inv_def list_all_tl)
  then show "source_inv tbl st (advance s)" "0 < position (advance s)" "sstring_ok (advance s)"
    using assms ss.adv_ok [OF ok ne] position_advance [OF ok ne]
    by (simp_all add: source_inv_def front_ok_def)
  show "length (chars (advance s)) < length (chars s)"
    using ss.content_adv [OF ok ne] ne by (cases "chars s") simp_all
qed

lemma same_lexer_trans_state:
  "same_lexer (tk\<lparr>m_state := st\<rparr>) tk' \<Longrightarrow> m_state tk' = st \<and> m_token tk' = m_token tk
     \<and> m_skipLeadingNewLineForListing tk' = m_skipLeadingNewLineForListing tk"
  by (simp add: same_lexer_def)

lemma ADVANCE_TO_ok:
  assumes front: "front_ok st (m_source tk)" and target: "target_ok st tk"
    and skip: "\<not> m_skipLeadingNewLineForListing tk"
    and pot: "20 * length (chars (m_source tk)) + weight (tk\<lparr>m_state := st\<rparr>) < B + 20"
  shows "step_ok cfg hb B (ADVANCE_TO st tk)"
proof -
  let ?tk = "source_advance (tk\<lparr>m_state := st\<rparr>)"
  have same: "same_lexer (tk\<lparr>m_state := st\<rparr>) ?tk" by simp
  note adv = source_inv_advance [OF front]
  have "source_inv (entities cfg) (m_state ?tk) (m_source ?tk)"
    using adv(1) same_lexer_trans_state [OF same] by simp
  moreover have "lexer_inv 1 ?tk"
    using target lexer_inv_same [OF same] by (simp add: target_ok_lexer_inv)
  moreover have "\<not> m_skipLeadingNewLineForListing ?tk"
    using skip same_lexer_trans_state [OF same] by simp
  moreover have "potential ?tk < B"
    using pot adv(2) weight_same [OF same] by (simp add: potential_def)
  ultimately show ?thesis
    using peeked_ok [of cfg ?tk B hb "tk\<lparr>m_state := st\<rparr>"]
    by (simp add: ADVANCE_TO_def preprocessor_advance_def Let_def)
qed

lemma SWITCH_TO_ok:
  assumes "source_inv (entities cfg) st (m_source tk)" "target_ok st tk"
    "\<not> m_skipLeadingNewLineForListing tk"
    "20 * length (chars (m_source tk)) + weight (tk\<lparr>m_state := st\<rparr>) < B"
  shows "step_ok cfg hb B (SWITCH_TO st tk)"
  using assms peeked_ok [of cfg "tk\<lparr>m_state := st\<rparr>" B hb "tk\<lparr>m_state := st\<rparr>"]
  by (simp add: SWITCH_TO_def peek_source_def target_ok_lexer_inv potential_def)

lemma RECONSUME_IN_ok:
  assumes "source_inv (entities cfg) st (m_source tk)" "input_inv cc (m_source tk)"
    "lexer_inv cc (tk\<lparr>m_state := st\<rparr>)" "\<not> m_skipLeadingNewLineForListing tk"
    "20 * length (chars (m_source tk)) + weight (tk\<lparr>m_state := st\<rparr>) < B"
  shows "step_ok cfg hb B (RECONSUME_IN st cc tk)"
  using assms by (simp add: RECONSUME_IN_def step_ok_def inv_def potential_def)

lemma saveEndTagNameIfNeeded_facts:
  assumes "token_complete (m_token tk)"
  shows "\<exists>name. saveEndTagNameIfNeeded tk = tk\<lparr>m_appropriateEndTagName := name\<rparr>"
proof -
  have "saveEndTagNameIfNeeded tk
      = tk\<lparr>m_appropriateEndTagName :=
           (if m_type (m_token tk) = StartTag then m_data (m_token tk) else m_appropriateEndTagName tk)\<rparr>"
    using assms
    by (auto simp: saveEndTagNameIfNeeded_def token_complete_def token_name_def Let_def)
  then show ?thesis by blast
qed

text \<open>A complete token, no end tag in the buffer, nothing pushed back: ready to return it.\<close>

definition emit_ok :: "tokenizer \<Rightarrow> bool" where
  "emit_ok tk \<longleftrightarrow> token_complete (m_token tk) \<and> m_type (m_token tk) \<noteq> Character
     \<and> tokenizerAsserts tk \<and> m_bufferedEndTagName tk = []
     \<and> \<not> m_skipLeadingNewLineForListing tk
     \<and> sstring_ok (m_source tk) \<and> 0 \<le> position (m_source tk) \<and> pushedChars (m_source tk) = []"

lemma emit_exit:
  assumes emit: "emit_ok tk" and st: "m_state tk = DataState"
    and pot: "20 * length (chars (m_source tk)) + (if m_type (m_token tk) = StartTag then 1 else 0) < B"
  shows "step_ok cfg hb B (RETURN True tk)"
proof -
  have inv: "lexer_inv 1 (cleared tk)"
    using emit st
    by (simp add: lexer_inv_def token_inv_def emit_ok_def token_complete_def endTagNameStates_def)
  have "weight (cleared tk) = 0" using emit st by (simp add: weight_def emit_ok_def)
  then show ?thesis
    using emit st inv pot
    by (auto simp: step_ok_def RETURN_def exit_inv_def entry_inv_def emit_ok_def potential_def
        source_inv_def pushed_inv_def inTag_def split: if_splits)
qed

lemma emitAndReconsumeIn_ok:
  assumes "emit_ok tk"
    "20 * length (chars (m_source tk)) + (if m_type (m_token tk) = StartTag then 1 else 0) < B"
  shows "step_ok cfg hb B (emitAndReconsumeIn DataState tk)"
proof -
  have "token_complete (m_token (tk\<lparr>m_state := DataState\<rparr>))" using assms by (simp add: emit_ok_def)
  from saveEndTagNameIfNeeded_facts [OF this] obtain name where
    "saveEndTagNameIfNeeded (tk\<lparr>m_state := DataState\<rparr>)
       = tk\<lparr>m_state := DataState, m_appropriateEndTagName := name\<rparr>" by auto
  then show ?thesis
    using assms emit_exit [of "tk\<lparr>m_state := DataState, m_appropriateEndTagName := name\<rparr>" B cfg hb]
    by (simp add: emitAndReconsumeIn_def emit_ok_def)
qed

lemma assignSString_eq: "assignSString self other = other"
  by (simp add: assignSString_def)

lemma emitAndResumeIn_ok:
  assumes emit: "emit_ok tk" and ne: "chars (m_source tk) \<noteq> []"
    and pot: "20 * length (chars (m_source tk)) + (if m_type (m_token tk) = StartTag then 22 else 0) \<le> B"
  shows "step_ok cfg hb B (emitAndResumeIn cfg DataState tk)"
proof -
  let ?s = "m_source tk"
  have ok: "sstring_ok ?s" and p: "pushedChars ?s = []" and pos: "0 \<le> position ?s"
    using emit by (simp_all add: emit_ok_def)
  have adv: "sstring_ok (advance ?s)" "pushedChars (advance ?s) = []" "0 \<le> position (advance ?s)"
    using ss.adv_ok [OF ok ne] ss.back_adv [OF ok ne] p pos position_advance [OF ok ne] by simp_all
  have len: "length (chars (advance ?s)) < length (chars ?s)"
    using ss.content_adv [OF ok ne] ne by (cases "chars ?s") simp_all
  obtain l where sa: "source_advance (tk\<lparr>m_state := DataState\<rparr>)
      = tk\<lparr>m_state := DataState, m_source := advance ?s, m_lineNumber := l\<rparr>"
    using source_advance_eq [of "tk\<lparr>m_state := DataState\<rparr>"] by auto
  have "token_complete (m_token (source_advance (tk\<lparr>m_state := DataState\<rparr>)))"
    using emit by (simp add: sa emit_ok_def)
  from saveEndTagNameIfNeeded_facts [OF this] obtain name where
    save: "saveEndTagNameIfNeeded (source_advance (tk\<lparr>m_state := DataState\<rparr>))
       = tk\<lparr>m_state := DataState, m_source := advance ?s, m_lineNumber := l,
            m_appropriateEndTagName := name\<rparr>" (is "_ = ?tk")
    unfolding sa by auto
  have plain: "step_ok cfg hb B (RETURN True ?tk)"
    using emit adv pot len by (intro emit_exit) (auto simp: emit_ok_def)
  let ?div = "?tk\<lparr>m_source := mkSString ([0x3000, 0x3000] @ toString (advance ?s))\<rparr>"
  have divided: "step_ok cfg hb B (RETURN True ?div)" if "m_type (m_token tk) = StartTag"
  proof (rule emit_exit)
    show "emit_ok ?div" using emit by (simp add: emit_ok_def position_def)
    show "20 * length (chars (m_source ?div))
            + (if m_type (m_token ?div) = StartTag then 1 else 0) < B"
      using pot len that adv(1) by (simp add: toString_chars)
  qed simp
  show ?thesis
  proof (cases "DIVIDE_PAGES cfg \<and> m_type (m_token tk) = StartTag \<and> length name = 1
      \<and> (hd name = ch_P \<or> hd name = ch_p)")
    case True
    then show ?thesis
      using divided by (simp add: emitAndResumeIn_def save dividePages_def assignSString_eq)
  next
    case False
    then have "(if DIVIDE_PAGES cfg then dividePages ?tk else ?tk) = ?tk"
      by (auto simp: dividePages_def)
    then show ?thesis using plain unfolding emitAndResumeIn_def save Let_def by simp
  qed
qed

text \<open>Text is buffered or not: the end of the file, and the buffered end tag.\<close>

definition text_ok :: "tokenizer \<Rightarrow> bool" where
  "text_ok tk \<longleftrightarrow> tokenizerAsserts tk \<and> tokenAsserts (m_token tk)
     \<and> (m_type (m_token tk) = Uninitialized \<or> m_type (m_token tk) = Character)
     \<and> \<not> m_skipLeadingNewLineForListing tk"

lemma character_exit:
  assumes tx: "text_ok tk" and type: "m_type (m_token tk) = Character"
    and src: "source_inv (entities cfg) (m_state tk) (m_source tk)"
    and st: "kind (m_state tk) = TextK \<and> (m_bufferedEndTagName tk \<noteq> [] \<longleftrightarrow> m_state tk \<in> endTagNameStates)
           \<or> m_bufferedEndTagName tk \<noteq> [] \<and> pushedChars (m_source tk) = []
             \<and> m_state tk \<in> {DataState, BeforeAttributeNameState, SelfClosingStartTagState}"
    and pot: "potential tk < B \<or> hb \<and> potential tk \<le> B"
  shows "step_ok cfg hb B (RETURN True tk)"
proof -
  have "lexer_inv 1 (cleared tk) \<or> waiting_end_tag (cleared tk)"
    using tx st by (auto simp: text_ok_def lexer_inv_def token_inv_def waiting_end_tag_def)
  moreover have "potential (cleared tk) \<le> potential tk" by (simp add: potential_def weight_def)
  ultimately show ?thesis
    using assms
    by (auto simp: step_ok_def RETURN_def exit_inv_def entry_inv_def text_ok_def token_complete_def)
qed

lemma emitEndOfFile_ok:
  assumes inv: "inv cfg 0 tk" and skip: "\<not> m_skipLeadingNewLineForListing tk"
    and st: "m_state tk \<in> {DataState, RCDATAState, RAWTEXTState, ScriptDataState, PLAINTEXTState}"
  shows "step_ok cfg (m_type (m_token tk) = Character) (potential tk) (emitEndOfFile tk)"
proof (cases "haveBufferedCharacterToken tk")
  case True
  then have "step_ok cfg True (potential tk) (RETURN True tk)"
    using inv skip st
    by (intro character_exit)
       (auto simp: text_ok_def inv_def lexer_inv_def token_inv_def haveBufferedCharacterToken_def)
  then show ?thesis using True by (simp add: emitEndOfFile_def haveBufferedCharacterToken_def)
next
  case False
  have src: "sstring_ok (m_source tk)" "chars (m_source tk) = [0]" "0 \<le> position (m_source tk)"
    and lex: "tokenizerAsserts tk" "tokenAsserts (m_token tk)" "m_bufferedEndTagName tk = []"
    using inv st
    by (auto simp: inv_def source_inv_def input_inv_def lexer_inv_def token_inv_def endTagNameStates_def)
  have "pushedChars (m_source tk) = []"
    using src(2) pushed_inv_hd [of "entities cfg" "m_state tk" "pushedChars (m_source tk)"] inv
    by (cases "pushedChars (m_source tk)")
       (auto simp: inv_def source_inv_def chars_def isReferenceChar_def)
  then have front: "front_ok DataState (m_source tk)" using src by (simp add: front_ok_def)
  obtain l where sa: "source_advance (tk\<lparr>m_state := DataState\<rparr>)
      = tk\<lparr>m_state := DataState, m_source := advance (m_source tk), m_lineNumber := l\<rparr>"
    using source_advance_eq [of "tk\<lparr>m_state := DataState\<rparr>"] by auto
  let ?tk = "on_token (\<lambda>t. makeEndOfFile (token_clear 0 t)) (source_advance (tk\<lparr>m_state := DataState\<rparr>))"
  have "pushedChars (advance (m_source tk)) = []"
    using ss.back_adv [of "m_source tk"] src \<open>pushedChars (m_source tk) = []\<close> by simp
  moreover have "tokenAsserts (makeEndOfFile (token_clear 0 (m_token tk)))"
    using lex by (simp add: makeEndOfFile_def)
  ultimately have "emit_ok ?tk"
    using lex skip source_inv_advance [OF front]
    by (simp add: sa emit_ok_def token_complete_def)
  moreover have "20 * length (chars (m_source ?tk)) < potential tk"
    using source_inv_advance(2) [OF front] by (simp add: potential_def)
  ultimately have "step_ok cfg (m_type (m_token tk) = Character) (potential tk) (RETURN True ?tk)"
    by (intro emit_exit) (simp_all add: sa)
  then show ?thesis using False by (simp add: emitEndOfFile_def)
qed

text \<open>Both uses of the flush: in a call that holds text, and in one that does not.\<close>

lemma flush_character:
  "m_type (m_token tk) = Character \<Longrightarrow> flushBufferedEndTag tk = (True, source_advance tk)"
  using source_advance_eq [of tk] by (auto simp: flushBufferedEndTag_def)

lemma flush_uninitialized:
  "m_type (m_token tk) = Uninitialized \<Longrightarrow>
   flushBufferedEndTag tk =
     (False, (on_token (beginEndTag (m_bufferedEndTagName tk)) (source_advance tk))\<lparr>m_bufferedEndTagName := []\<rparr>)"
  using source_advance_eq [of tk] by (auto simp: flushBufferedEndTag_def)

lemma flush_character_exit:
  assumes tx: "text_ok tk" and type: "m_type (m_token tk) = Character"
    and front: "front_ok st (m_source tk)" and p: "pushedChars (m_source tk) = []"
    and buf: "m_bufferedEndTagName tk \<noteq> []"
    and st: "st \<in> {DataState, BeforeAttributeNameState, SelfClosingStartTagState}"
    and pot: "20 * length (chars (m_source tk)) \<le> B"
  shows "step_ok cfg hb B (RETURN True (source_advance (tk\<lparr>m_state := st\<rparr>)))"
proof -
  obtain l where sa: "source_advance (tk\<lparr>m_state := st\<rparr>)
      = tk\<lparr>m_state := st, m_source := advance (m_source tk), m_lineNumber := l\<rparr>"
    using source_advance_eq [of "tk\<lparr>m_state := st\<rparr>"] by auto
  note adv = source_inv_advance [OF front]
  show ?thesis
  proof (rule character_exit)
    show "source_inv (entities cfg) (m_state (source_advance (tk\<lparr>m_state := st\<rparr>)))
            (m_source (source_advance (tk\<lparr>m_state := st\<rparr>)))"
      using adv(1) by (simp add: sa)
    have "rank st \<le> 3" using st by auto
    then show "potential (source_advance (tk\<lparr>m_state := st\<rparr>)) < B
        \<or> hb \<and> potential (source_advance (tk\<lparr>m_state := st\<rparr>)) \<le> B"
      using pot adv(2) type by (simp add: sa potential_def weight_def)
    have "pushedChars (advance (m_source tk)) = []"
      using ss.back_adv [of "m_source tk"] front p by (simp add: front_ok_def)
    then show "kind (m_state (source_advance (tk\<lparr>m_state := st\<rparr>))) = TextK
        \<and> (m_bufferedEndTagName (source_advance (tk\<lparr>m_state := st\<rparr>)) \<noteq> []
            \<longleftrightarrow> m_state (source_advance (tk\<lparr>m_state := st\<rparr>)) \<in> endTagNameStates)
        \<or> m_bufferedEndTagName (source_advance (tk\<lparr>m_state := st\<rparr>)) \<noteq> []
          \<and> pushedChars (m_source (source_advance (tk\<lparr>m_state := st\<rparr>))) = []
          \<and> m_state (source_advance (tk\<lparr>m_state := st\<rparr>))
              \<in> {DataState, BeforeAttributeNameState, SelfClosingStartTagState}"
      using buf st by (simp add: sa)
  qed (use tx type in \<open>auto simp: sa text_ok_def\<close>)
qed

lemma FLUSH_AND_ADVANCE_TO_ok:
  assumes tx: "text_ok tk" and front: "front_ok st (m_source tk)"
    and p: "pushedChars (m_source tk) = []" and buf: "m_bufferedEndTagName tk \<noteq> []"
    and st: "st \<in> {BeforeAttributeNameState, SelfClosingStartTagState}"
    and pot: "20 * length (chars (m_source tk)) \<le> B"
  shows "step_ok cfg hb B (FLUSH_AND_ADVANCE_TO st tk)"
proof (cases "m_type (m_token tk) = Character")
  case True
  then show ?thesis
    using flush_character_exit [OF tx True front p buf _ pot] st
    by (auto simp: FLUSH_AND_ADVANCE_TO_def flush_character)
next
  case False
  then have un: "m_type (m_token tk) = Uninitialized" using tx by (simp add: text_ok_def)
  obtain l where sa: "source_advance (tk\<lparr>m_state := st\<rparr>)
      = tk\<lparr>m_state := st, m_source := advance (m_source tk), m_lineNumber := l\<rparr>"
    using source_advance_eq [of "tk\<lparr>m_state := st\<rparr>"] by auto
  let ?tk = "(on_token (beginEndTag (m_bufferedEndTagName tk)) (source_advance (tk\<lparr>m_state := st\<rparr>)))
               \<lparr>m_bufferedEndTagName := []\<rparr>"
  note adv = source_inv_advance [OF front]
  have "step_ok cfg hb B (peek_source ?tk)"
    unfolding peek_source_def
  proof (rule peeked_ok)
    show "source_inv (entities cfg) (m_state ?tk) (m_source ?tk)" using adv(1) by (simp add: sa)
    have "tokenAsserts (m_token tk)" "tokenizerAsserts tk" using tx by (simp_all add: text_ok_def)
    then show "lexer_inv 1 ?tk"
      using st un by (auto simp: sa lexer_inv_def token_ops endTagNameStates_def)
    show "\<not> m_skipLeadingNewLineForListing ?tk" using tx by (simp add: sa text_ok_def)
    have "rank st \<le> 3" using st by auto
    then show "potential ?tk < B" using pot adv(2) by (simp add: sa potential_def weight_def)
  qed
  then show ?thesis by (simp add: FLUSH_AND_ADVANCE_TO_def flush_uninitialized un)
qed

lemma flushEmitAndResumeIn_ok:
  assumes tx: "text_ok tk" and front: "front_ok DataState (m_source tk)"
    and p: "pushedChars (m_source tk) = []" and buf: "m_bufferedEndTagName tk \<noteq> []"
    and pot: "20 * length (chars (m_source tk)) \<le> B"
  shows "step_ok cfg hb B (flushEmitAndResumeIn DataState tk)"
proof (cases "m_type (m_token tk) = Character")
  case True
  then show ?thesis
    using flush_character_exit [OF tx True front p buf _ pot]
    by (simp add: flushEmitAndResumeIn_def flush_character)
next
  case False
  then have un: "m_type (m_token tk) = Uninitialized" using tx by (simp add: text_ok_def)
  obtain l where sa: "source_advance (tk\<lparr>m_state := DataState\<rparr>)
      = tk\<lparr>m_state := DataState, m_source := advance (m_source tk), m_lineNumber := l\<rparr>"
    using source_advance_eq [of "tk\<lparr>m_state := DataState\<rparr>"] by auto
  note adv = source_inv_advance [OF front]
  have "pushedChars (advance (m_source tk)) = []"
    using ss.back_adv [of "m_source tk"] front p by (simp add: front_ok_def)
  then have "step_ok cfg hb B (RETURN True
      ((on_token (beginEndTag (m_bufferedEndTagName tk)) (source_advance (tk\<lparr>m_state := DataState\<rparr>)))
         \<lparr>m_bufferedEndTagName := []\<rparr>))"
    using tx un adv pot
    by (intro emit_exit) (auto simp: sa emit_ok_def text_ok_def token_complete_def token_ops)
  then show ?thesis by (simp add: flushEmitAndResumeIn_def flush_uninitialized un)
qed

section \<open>Character references and look-ahead\<close>

lemma text_ok_bufferCharacter: "text_ok tk \<Longrightarrow> c \<noteq> 0 \<Longrightarrow> text_ok (bufferCharacter c tk)"
  by (simp add: text_ok_def)

lemma fold_bufferCharacter:
  assumes "text_ok tk" "0 \<notin> set cs"
  shows "text_ok (fold bufferCharacter cs tk) \<and> m_state (fold bufferCharacter cs tk) = m_state tk
       \<and> m_source (fold bufferCharacter cs tk) = m_source tk
       \<and> m_bufferedEndTagName (fold bufferCharacter cs tk) = m_bufferedEndTagName tk"
  using assms by (induction cs arbitrary: tk) (simp_all add: text_ok_bufferCharacter)

text \<open>What \<open>implements\<close> says of the source, in the terms of the invariant.\<close>

lemma implements_source:
  assumes impl: "implements tbl s out r" and s: "sstring_ok s" "0 \<le> position s" "chars s \<noteq> []"
    and out: "\<And>us n. out = Reference us n \<Longrightarrow> n \<le> length (chars s)"
  shows "sstring_ok (entitySource r)" "position s \<le> position (entitySource r)"
    "length (chars (entitySource r)) \<le> length (chars s)"
    "notEnoughCharacters r \<Longrightarrow> entity_reentry tbl (pushedChars (entitySource r))"
    "\<not> notEnoughCharacters r \<Longrightarrow> list_all isReferenceChar (pushedChars (entitySource r))"
proof -
  show "sstring_ok (entitySource r)" using impl by (simp add: implements_def)
  have len: "length (chars (entitySource r)) \<le> length (chars s)"
    using impl out by (cases out) (auto simp: implements_def)
  moreover have "streamLength (entitySource r) = streamLength s" using impl by (simp add: implements_def)
  ultimately show "position s \<le> position (entitySource r)" by (simp add: streamLength_def)
  show "length (chars (entitySource r)) \<le> length (chars s)" by (rule len)
  show "notEnoughCharacters r \<Longrightarrow> entity_reentry tbl (pushedChars (entitySource r))"
    "\<not> notEnoughCharacters r \<Longrightarrow> list_all isReferenceChar (pushedChars (entitySource r))"
    using impl by (cases out; simp add: implements_def)+
qed

lemma consumeHTMLEntity_source:
  assumes inv: "inv cfg cc tk" and tbl: "table_ok (entities cfg)" and st: "m_state tk \<in> charRefStates"
    and aac: "aac \<in> {0, ch_QUOT, ch_APOS, ch_GT}"
  obtains r where "consumeHTMLEntity (entities cfg) (m_source tk) aac = Some r"
    "success r \<Longrightarrow> 0 \<notin> set (decodedEntity r)" "\<not> success r \<Longrightarrow> decodedEntity r = []"
    "sstring_ok (entitySource r)" "position (m_source tk) \<le> position (entitySource r)"
    "length (chars (entitySource r)) \<le> length (chars (m_source tk))"
    "notEnoughCharacters r \<Longrightarrow> entity_reentry (entities cfg) (pushedChars (entitySource r))"
    "\<not> notEnoughCharacters r \<Longrightarrow> list_all isReferenceChar (pushedChars (entitySource r))"
proof -
  let ?s = "m_source tk" and ?tbl = "entities cfg"
  have s: "sstring_ok ?s" "0 \<le> position ?s" "chars ?s \<noteq> []"
    using inv by (simp_all add: inv_def source_inv_def input_inv_def)
  have "entity_reentry ?tbl (pushedChars ?s)"
    using inv st by (auto simp: inv_def source_inv_def pushed_inv_def charRefStates_def refStates_def
        numeric_prefix_reentry)
  moreover have "aac = 0 \<or> \<not> isReferenceChar aac"
    using aac by (auto simp: isReferenceChar_def isNameChar_def isLetter_def)
  ultimately obtain r where r: "consumeHTMLEntity ?tbl ?s aac = Some r"
    "implements ?tbl ?s (entity_spec ?tbl aac (chars ?s)) r"
    using consumeHTMLEntity_implements [OF s(1) tbl] by blast
  have ref: "entity_spec ?tbl aac (chars ?s) = Reference us n \<Longrightarrow> 0 \<notin> set us \<and> n \<le> length (chars ?s)" for us n
    using entity_spec_reference [OF tbl] by blast
  show ?thesis
  proof (rule that [OF r(1)])
    show "success r \<Longrightarrow> 0 \<notin> set (decodedEntity r)"
      using r(2) ref by (cases "entity_spec ?tbl aac (chars ?s)") (auto simp: implements_def)
    show "\<not> success r \<Longrightarrow> decodedEntity r = []"
      using r(2) by (cases "entity_spec ?tbl aac (chars ?s)") (auto simp: implements_def)
  qed (use implements_source [OF r(2) s] ref in blast)+
qed

text \<open>Returning false with a reference or a declaration that may still go on.\<close>

lemma return_waiting_ok:
  assumes "source_inv (entities cfg) (m_state tk) (m_source tk)" "lexer_inv 1 tk"
    "m_state tk \<in> charRefStates \<or> m_state tk \<in> {MarkupDeclarationOpenState, AfterDOCTYPENameState}"
    "\<not> m_skipLeadingNewLineForListing tk"
    "m_type (m_token tk) = Character \<Longrightarrow> potential tk < B \<or> hb \<and> potential tk \<le> B"
  shows "step_ok cfg hb B (RETURN (haveBufferedCharacterToken tk) tk)"
proof (cases "m_type (m_token tk) = Character")
  case True
  then have "kind (m_state tk) = TextK"
    using assms(2) by (auto simp: lexer_inv_def token_inv_def is_tag_def split: state_class.splits)
  then have "step_ok cfg hb B (RETURN True tk)"
    using assms True by (intro character_exit) (auto simp: text_ok_def lexer_inv_def token_inv_def)
  then show ?thesis using True by (simp add: haveBufferedCharacterToken_def)
next
  case False
  then show ?thesis
    using assms by (auto simp: haveBufferedCharacterToken_def step_ok_def RETURN_def exit_inv_def entry_inv_def)
qed

lemma characterReferenceIn_ok:
  assumes inv: "inv cfg cc tk" and tbl: "table_ok (entities cfg)"
    and skip: "\<not> m_skipLeadingNewLineForListing tk"
    and st: "m_state tk \<in> {CharacterReferenceInDataState, CharacterReferenceInRCDATAState}"
    and st': "st \<in> {DataState, RCDATAState}"
  shows "step_ok cfg (m_type (m_token tk) = Character) (potential tk) (characterReferenceIn st cfg cc tk)"
proof -
  have cr: "m_state tk \<in> charRefStates" using st by (auto simp: charRefStates_def)
  obtain r where r: "consumeHTMLEntity (entities cfg) (m_source tk) 0 = Some r"
    "success r \<Longrightarrow> 0 \<notin> set (decodedEntity r)" "\<not> success r \<Longrightarrow> decodedEntity r = []"
    "sstring_ok (entitySource r)" "position (m_source tk) \<le> position (entitySource r)"
    "length (chars (entitySource r)) \<le> length (chars (m_source tk))"
    "notEnoughCharacters r \<Longrightarrow> entity_reentry (entities cfg) (pushedChars (entitySource r))"
    "\<not> notEnoughCharacters r \<Longrightarrow> list_all isReferenceChar (pushedChars (entitySource r))"
    using consumeHTMLEntity_source [OF inv tbl cr, of 0] by auto
  let ?tk = "tk\<lparr>m_source := entitySource r\<rparr>"
  have lex: "lexer_inv 1 tk" and pos: "0 \<le> position (m_source tk)"
    using inv st by (auto simp: inv_def lexer_inv_def token_inv_def source_inv_def)
  then have tx: "text_ok ?tk" using st skip by (auto simp: lexer_inv_def token_inv_def text_ok_def)
  have buf: "m_bufferedEndTagName tk = []" using lex st by (auto simp: lexer_inv_def endTagNameStates_def)
  have pot: "potential ?tk \<le> potential tk" using r(6) by (simp add: potential_def weight_def)
  show ?thesis
  proof (cases "notEnoughCharacters r")
    case True
    have "source_inv (entities cfg) (m_state ?tk) (m_source ?tk)"
      using True r pos st cr by (auto simp: source_inv_def pushed_inv_def inTag_def)
    moreover have "lexer_inv 1 ?tk" using lex by (simp add: lexer_inv_def)
    ultimately have "step_ok cfg (m_type (m_token tk) = Character) (potential tk)
        (RETURN (haveBufferedCharacterToken ?tk) ?tk)"
      using cr skip pot by (intro return_waiting_ok) simp_all
    then show ?thesis using r(1) True by (simp add: characterReferenceIn_def processEntity_def)
  next
    case False
    define tk' where "tk' = (if \<not> success r
        then bufferCharacter ch_AMP (ASSERT_tokenizer (decodedEntity r = []) ?tk)
        else fold bufferCharacter (decodedEntity r) ?tk)"
    have tk': "text_ok tk' \<and> m_state tk' = m_state tk \<and> m_source tk' = entitySource r
        \<and> m_bufferedEndTagName tk' = []"
      using r(2,3) fold_bufferCharacter [OF tx, of "decodedEntity r"] text_ok_bufferCharacter [OF tx] buf
      by (auto simp: tk'_def)
    have "step_ok cfg (m_type (m_token tk) = Character) (potential tk) (SWITCH_TO st tk')"
    proof (rule SWITCH_TO_ok)
      show "source_inv (entities cfg) st (m_source tk')"
        using st' r(4,5,8) tk' pos False
        by (auto simp: source_inv_def pushed_inv_def inTag_def refStates_def)
      show "target_ok st tk'"
        using st' tk' by (auto simp: target_ok_def token_inv_def text_ok_def endTagNameStates_def)
      show "\<not> m_skipLeadingNewLineForListing tk'" using tk' by (simp add: text_ok_def)
      have "weight (tk'\<lparr>m_state := st\<rparr>) \<le> 1" using st' tk' by (auto simp: weight_def text_ok_def)
      moreover have "3 \<le> weight tk" using st by (auto simp: weight_def)
      ultimately show "20 * length (chars (m_source tk')) + weight (tk'\<lparr>m_state := st\<rparr>) < potential tk"
        using r(6) tk' by (simp add: potential_def)
    qed
    then show ?thesis
      using r(1) False by (simp add: characterReferenceIn_def processEntity_def tk'_def Let_def split: if_splits)
  qed
qed

lemma CharacterReferenceInAttributeValue_ok:
  assumes inv: "inv cfg cc tk" and tbl: "table_ok (entities cfg)"
    and skip: "\<not> m_skipLeadingNewLineForListing tk"
    and st: "m_state tk = CharacterReferenceInAttributeValueState"
  shows "step_ok cfg (m_type (m_token tk) = Character) (potential tk)
           (step_CharacterReferenceInAttributeValueState cfg cc tk)"
proof -
  let ?aac = "m_additionalAllowedCharacter tk"
  have cr: "m_state tk \<in> charRefStates" using st by (simp add: charRefStates_def)
  have aac: "?aac \<in> {ch_QUOT, ch_APOS, ch_GT}" using inv st by (simp add: inv_def lexer_inv_def)
  then have "?aac \<in> {0, ch_QUOT, ch_APOS, ch_GT}" by blast
  from consumeHTMLEntity_source [OF inv tbl cr this] obtain r where
    r: "consumeHTMLEntity (entities cfg) (m_source tk) ?aac = Some r"
    "success r \<Longrightarrow> 0 \<notin> set (decodedEntity r)" "\<not> success r \<Longrightarrow> decodedEntity r = []"
    "sstring_ok (entitySource r)" "position (m_source tk) \<le> position (entitySource r)"
    "length (chars (entitySource r)) \<le> length (chars (m_source tk))"
    "notEnoughCharacters r \<Longrightarrow> entity_reentry (entities cfg) (pushedChars (entitySource r))"
    "\<not> notEnoughCharacters r \<Longrightarrow> list_all isReferenceChar (pushedChars (entitySource r))" by blast
  let ?tk = "tk\<lparr>m_source := entitySource r\<rparr>"
  have lex: "lexer_inv 1 tk" and pos: "0 < position (m_source tk)"
    using inv st by (auto simp: inv_def lexer_inv_def token_inv_def source_inv_def inTag_def)
  then have t: "tokenAsserts (m_token tk)" "is_tag (m_token tk)" "attribute_begun True (m_token tk)"
    "tokenizerAsserts tk" "m_bufferedEndTagName tk = []"
    using st by (auto simp: lexer_inv_def token_inv_def endTagNameStates_def)
  show ?thesis
  proof (cases "notEnoughCharacters r")
    case True
    have "source_inv (entities cfg) (m_state ?tk) (m_source ?tk)"
      using True r pos st cr by (auto simp: source_inv_def pushed_inv_def inTag_def)
    moreover have "lexer_inv 1 ?tk" using lex by (simp add: lexer_inv_def)
    moreover have "m_type (m_token tk) \<noteq> Character" using t(2) by (auto simp: is_tag_def)
    ultimately have "step_ok cfg (m_type (m_token tk) = Character) (potential tk)
        (RETURN (haveBufferedCharacterToken ?tk) ?tk)"
      using cr skip by (intro return_waiting_ok) simp_all
    then show ?thesis
      using r(1) True by (simp add: step_CharacterReferenceInAttributeValueState_def Let_def)
  next
    case False
    define cs where "cs = (if success r then decodedEntity r else [ch_AMP])"
    let ?tk' = "on_token (fold appendToAttributeValue cs) ?tk"
    have cs: "0 \<notin> set cs" using r(2) by (simp add: cs_def)
    have sw: "step_ok cfg (m_type (m_token tk) = Character) (potential tk) (SWITCH_TO v ?tk')"
      if v: "kind v = ValueK" "v \<in> refStates" "rank v = 2" for v
    proof (rule SWITCH_TO_ok)
      show "source_inv (entities cfg) v (m_source ?tk')"
        using v r(4,5,8) pos False by (auto simp: source_inv_def pushed_inv_def)
      have "v \<noteq> CharacterReferenceInAttributeValueState" using v(2) by (auto simp: refStates_def)
      moreover have "v \<notin> endTagNameStates" using v(1) by (auto simp: endTagNameStates_def)
      ultimately show "target_ok v ?tk'"
        using t cs v(1) by (simp add: target_ok_def token_ops)
      have "m_type (fold appendToAttributeValue cs (m_token tk)) = m_type (m_token tk)"
        by (induction cs arbitrary: tk rule: rev_induct) simp_all
      then show "20 * length (chars (m_source ?tk')) + weight (?tk'\<lparr>m_state := v\<rparr>) < potential tk"
        using r(6) v(3) st by (simp add: potential_def weight_def)
    qed (use skip in simp)
    have "step_CharacterReferenceInAttributeValueState cfg cc tk =
        (if ?aac = ch_QUOT then SWITCH_TO AttributeValueDoubleQuotedState ?tk'
         else if ?aac = ch_APOS then SWITCH_TO AttributeValueSingleQuotedState ?tk'
         else SWITCH_TO AttributeValueUnquotedState ?tk')"
      using r(1,3) False aac
      by (auto simp: step_CharacterReferenceInAttributeValueState_def cs_def Let_def)
    then show ?thesis using sw by (simp add: refStates_def)
  qed
qed

text \<open>Advancing over a string the look-ahead has matched.\<close>

lemma advanceString_fold:
  assumes "sstring_ok (m_source tk)" "length str \<le> length (chars (m_source tk))"
    and "list_all2 Q (take (length str) (chars (m_source tk))) str"
  shows "fold (\<lambda>c tk. (ASSERT_tokenizer (Q (current (m_source tk)) c) tk)\<lparr>m_source := advance (m_source tk)\<rparr>)
           str tk = tk\<lparr>m_source := (advance ^^ length str) (m_source tk)\<rparr>"
  using assms
proof (induction str arbitrary: tk)
  case (Cons c str)
  obtain d ds where cs: "chars (m_source tk) = d # ds" using Cons.prems(2) by (cases "chars (m_source tk)") auto
  have ne: "chars (m_source tk) \<noteq> []" using cs by simp
  have "Q (current (m_source tk)) c" using Cons.prems(1,3) cs by (simp add: ss.cur_hd)
  moreover have "sstring_ok (advance (m_source tk))" "chars (advance (m_source tk)) = ds"
    using ss.adv_ok [OF Cons.prems(1) ne] ss.content_adv [OF Cons.prems(1) ne] cs by simp_all
  ultimately show ?case
    using Cons.IH [of "tk\<lparr>m_source := advance (m_source tk)\<rparr>"] Cons.prems cs
    by (simp add: funpow_swap1)
qed simp

lemma list_all2_map_eq: "map f xs = map f ys \<Longrightarrow> list_all2 (\<lambda>a b. f a = f b) xs ys"
  by (induction xs arbitrary: ys) (auto simp: Cons_eq_map_conv)

lemma advanceString_eqs:
  assumes "sstring_ok (m_source tk)" "length str \<le> length (chars (m_source tk))"
  shows "take (length str) (chars (m_source tk)) = str \<Longrightarrow>
     advanceStringAndASSERT str tk = tk\<lparr>m_source := (advance ^^ length str) (m_source tk)\<rparr>"
    "map (foldCase cfg) (take (length str) (chars (m_source tk))) = map (foldCase cfg) str \<Longrightarrow>
     advanceStringAndASSERTIgnoringCase cfg str tk
       = tk\<lparr>m_source := (advance ^^ length str) (m_source tk)\<rparr>"
  unfolding advanceStringAndASSERT_def advanceStringAndASSERTIgnoringCase_def
  using assms by (auto intro!: advanceString_fold list_all2_map_eq simp: list.rel_eq)

text \<open>
  The rule for the four look-aheads: nothing is pushed back in front of them, so they leave the
  content as it is.
\<close>

lemma onLookAhead_ok:
  assumes la: "r = lookAheadInline equals (m_source tk) str"
    and src: "source_inv (entities cfg) (m_state tk) (m_source tk)" and p: "pushedChars (m_source tk) = []"
    and lex: "lexer_inv 1 tk" and skip: "\<not> m_skipLeadingNewLineForListing tk"
    and type: "m_type (m_token tk) \<noteq> Character"
    and st: "m_state tk \<in> {MarkupDeclarationOpenState, AfterDOCTYPENameState}"
    and match: "\<And>s. sstring_ok s \<Longrightarrow> chars s = chars (m_source tk) \<Longrightarrow> pushedChars s = [] \<Longrightarrow>
        streamLength s = streamLength (m_source tk) \<Longrightarrow> m_closed s = m_closed (m_source tk) \<Longrightarrow>
        length str \<le> length (chars s) \<Longrightarrow> equals str (take (length str) (chars s)) \<Longrightarrow>
        step_ok cfg hb B (f (tk\<lparr>m_source := s\<rparr>))"
    and fall: "\<And>s. sstring_ok s \<Longrightarrow> chars s = chars (m_source tk) \<Longrightarrow> pushedChars s = [] \<Longrightarrow>
        streamLength s = streamLength (m_source tk) \<Longrightarrow> m_closed s = m_closed (m_source tk) \<Longrightarrow>
        step_ok cfg hb B (g (tk\<lparr>m_source := s\<rparr>))"
  shows "step_ok cfg hb B (onLookAhead r f g tk)"
proof -
  have ok: "sstring_ok (m_source tk)" using src by (simp add: source_inv_def)
  obtain res s where rs: "r = (res, s)" by fastforce
  have "length (pushedChars (m_source tk)) \<le> length str" using p by simp
  note spec = lookAheadInline_spec [OF ok this, of equals, folded la, unfolded rs fst_conv snd_conv]
  have s: "sstring_ok s" "chars s = chars (m_source tk)" "pushedChars s = []"
    "streamLength s = streamLength (m_source tk)" "m_closed s = m_closed (m_source tk)"
    using spec p by simp_all
  then have pos: "position s = position (m_source tk)" by (simp add: streamLength_def)
  show ?thesis
  proof (cases res)
    case DidMatch
    then have "length str \<le> length (chars s)" "equals str (take (length str) (chars s))"
      using spec(1) s by (simp_all add: lookAhead_spec_def split: if_splits)
    then show ?thesis using match [OF s] DidMatch by (simp add: onLookAhead_def rs)
  next
    case DidNotMatch
    then show ?thesis using fall [OF s] by (simp add: onLookAhead_def rs)
  next
    case NotEnoughCharacters
    have "source_inv (entities cfg) (m_state tk) s"
      using src s(1,3) pos by (simp add: source_inv_def pushed_inv_def)
    moreover have "lexer_inv 1 (tk\<lparr>m_source := s\<rparr>)" using lex by (simp add: lexer_inv_def)
    ultimately have "step_ok cfg hb B
        (RETURN (haveBufferedCharacterToken (tk\<lparr>m_source := s\<rparr>)) (tk\<lparr>m_source := s\<rparr>))"
      using st skip type by (intro return_waiting_ok) auto
    then show ?thesis using NotEnoughCharacters by (simp add: onLookAhead_def rs Let_def)
  qed
qed

end
