(* ===== verification/HTMLTokenizerSteps.thy ===== *)
theory HTMLTokenizerSteps
  imports HTMLTokenizerInvariant
begin

text \<open>
  Every block of the tokenizer keeps the invariant and decreases the potential: one lemma per state,
  each by the rules of its macros, and \<open>step_of_ok\<close> over all of them.
\<close>

section \<open>What a block starts with\<close>

text \<open>A block run with the input character \<open>cc\<close>, and what it has to establish.\<close>

definition block_pre :: "config \<Rightarrow> State \<Rightarrow> uchar \<Rightarrow> tokenizer \<Rightarrow> bool" where
  "block_pre cfg st cc tk \<longleftrightarrow>
     inv cfg cc tk \<and> m_state tk = st \<and> \<not> m_skipLeadingNewLineForListing tk \<and> table_ok (entities cfg)"

abbreviation block_ok :: "config \<Rightarrow> tokenizer \<Rightarrow> step \<Rightarrow> bool" where
  "block_ok cfg tk s \<equiv> step_ok cfg (m_type (m_token tk) = Character) (potential tk) s"

lemma block_pushed:
  "block_pre cfg st cc tk \<Longrightarrow> st \<notin> charRefStates \<Longrightarrow> st \<notin> refStates \<or> \<not> isReferenceChar cc \<Longrightarrow>
   pushedChars (m_source tk) = []"
  using pushed_inv_hd [of "entities cfg" st "pushedChars (m_source tk)"]
  by (cases "pushedChars (m_source tk)")
     (auto simp: block_pre_def inv_def source_inv_def pushed_inv_def input_inv_def chars_def)

lemma block_front:
  assumes "block_pre cfg st cc tk" "st \<notin> charRefStates"
  shows "st \<notin> refStates \<or> \<not> isReferenceChar cc \<Longrightarrow> front_ok st' (m_source tk)"
    and "front_ok st (m_source tk)"
proof -
  have s: "sstring_ok (m_source tk)" "chars (m_source tk) \<noteq> []" "0 \<le> position (m_source tk)"
    and p: "pushed_inv (entities cfg) st (pushedChars (m_source tk))"
    using assms(1) unfolding block_pre_def inv_def source_inv_def input_inv_def by blast+
  show "st \<notin> refStates \<or> \<not> isReferenceChar cc \<Longrightarrow> front_ok st' (m_source tk)"
    using s block_pushed [OF assms] by (simp add: front_ok_def)
  show "front_ok st (m_source tk)"
    using s p assms(2) by (simp add: front_ok_def pushed_inv_def)
qed

lemma block_source:
  assumes "block_pre cfg st cc tk" "st \<notin> charRefStates" "st \<notin> refStates \<or> \<not> isReferenceChar cc"
    "inTag st' \<longrightarrow> inTag st"
  shows "source_inv (entities cfg) st' (m_source tk)"
  using assms block_pushed [OF assms(1-3)]
  by (auto simp: block_pre_def inv_def source_inv_def pushed_inv_def)

lemma block_facts:
  assumes "block_pre cfg st cc tk"
  shows "tokenizerAsserts tk" "token_inv st cc (m_token tk)" "sstring_ok (m_source tk)"
    "chars (m_source tk) \<noteq> []" "0 \<le> position (m_source tk)" "input_inv cc (m_source tk)"
    "\<not> m_skipLeadingNewLineForListing tk" "m_state tk = st"
    "st \<notin> endTagNameStates \<Longrightarrow> m_bufferedEndTagName tk = []"
    "inTag st \<Longrightarrow> 0 < consumed tk"
  using assms consumed_position [of "m_source tk"]
  by (auto simp: block_pre_def inv_def lexer_inv_def source_inv_def input_inv_def)

lemma toLowerCase_nonzero: "isASCIIUpper c \<Longrightarrow> toLowerCase c \<noteq> 0"
proof -
  assume "isASCIIUpper c"
  then have "unat c \<ge> 65" "unat c \<le> 90" by (simp_all add: isASCIIUpper_def word_le_nat_alt)
  then have "unat (toLowerCase c) = unat c + 32" by (simp add: toLowerCase_def unat_word_ariths)
  then show ?thesis by auto
qed

lemma class_nonzero [simp]:
  "isASCIIUpper c \<Longrightarrow> (c = 0) = False" "isASCIILower c \<Longrightarrow> (c = 0) = False"
  "isTokenizerWhitespace c \<Longrightarrow> (c = 0) = False"
  by (auto simp: isASCIIUpper_def isASCIILower_def isTokenizerWhitespace_def)

lemma separators_not_reference [simp]:
  "\<not> isReferenceChar 0" "\<not> isReferenceChar ch_AMP" "\<not> isReferenceChar ch_LT" "\<not> isReferenceChar ch_GT"
  "\<not> isReferenceChar ch_QUOT" "\<not> isReferenceChar ch_APOS"
  "isTokenizerWhitespace c \<Longrightarrow> \<not> isReferenceChar c"
  by (auto simp: isReferenceChar_def isNameChar_def isLetter_def isTokenizerWhitespace_def)

section \<open>The rules of the macros inside a block\<close>

lemma rank_le: "rank st \<le> 15"
  by (cases st) simp_all

lemma rank_positive: "st \<noteq> DataState \<Longrightarrow> 0 < rank st"
  by (cases st) simp_all

lemma is_tag_simps:
  "is_tag t \<Longrightarrow> m_type t \<noteq> Character" "is_tag t \<Longrightarrow> m_type t \<noteq> Uninitialized"
  by (auto simp: is_tag_def)

lemma token_complete_intros:
  "tokenAsserts t \<Longrightarrow> is_tag t \<Longrightarrow> list_all attribute_complete (m_attributes t) \<Longrightarrow> token_complete t"
  "tokenAsserts t \<Longrightarrow> m_type t = Comment \<Longrightarrow> token_complete t"
  "tokenAsserts t \<Longrightarrow> m_type t = DOCTYPE \<Longrightarrow> m_doctypeData t \<noteq> None \<Longrightarrow> token_complete t"
  by (auto simp: token_complete_def is_tag_def)

lemma block_advance:
  assumes pre: "block_pre cfg st0 cc tk" and "m_source tk' = m_source tk" "\<not> m_skipLeadingNewLineForListing tk'" "st0 \<notin> charRefStates"
    and "st0 \<notin> refStates \<or> st' = st0 \<or> \<not> isReferenceChar cc"
    and "target_ok st' tk'"
    and "m_type (m_token tk') = StartTag \<longrightarrow>
           m_type (m_token tk) = StartTag \<or> st0 = TagOpenState \<and> st' = TagNameState"
  shows "step_ok cfg hb (potential tk) (ADVANCE_TO st' tk')"
proof (rule ADVANCE_TO_ok)
  show "front_ok st' (m_source tk')"
    using assms(2,4,5) block_front [OF pre assms(4)] by auto
  have "rank st' \<le> 15" "rank (m_state tk) \<le> 15" by (rule rank_le)+
  then show "20 * length (chars (m_source tk')) + weight (tk'\<lparr>m_state := st'\<rparr>) < potential tk + 20"
    using assms(2,7) pre
    by (cases "m_type (m_token tk') = StartTag") (auto simp: potential_def weight_def block_pre_def)
qed (use assms in simp_all)

lemma block_reconsume:
  assumes pre: "block_pre cfg st0 cc tk" and "m_source tk' = m_source tk" "\<not> m_skipLeadingNewLineForListing tk'" "st0 \<notin> charRefStates"
    and "st0 \<notin> refStates \<or> \<not> isReferenceChar cc" "inTag st' \<longrightarrow> inTag st0"
    and "tokenizerAsserts tk'" "token_inv st' cc (m_token tk')" "m_bufferedEndTagName tk' = []"
    and "st' \<noteq> CharacterReferenceInAttributeValueState" "st' \<notin> endTagNameStates"
    and "m_type (m_token tk') = StartTag \<longrightarrow> m_type (m_token tk) = StartTag" "rank st' < rank st0"
    and cc': "cc' = cc"
  shows "step_ok cfg hb (potential tk) (RECONSUME_IN st' cc' tk')"
  unfolding cc'
proof (rule RECONSUME_IN_ok)
  show "source_inv (entities cfg) st' (m_source tk')"
    using assms(2) block_source [OF pre assms(4-6)] by simp
  show "20 * length (chars (m_source tk')) + weight (tk'\<lparr>m_state := st'\<rparr>) < potential tk"
    using assms pre by (auto simp: potential_def weight_def block_pre_def)
  show "input_inv cc (m_source tk')" using block_facts(6) [OF pre] assms(2) by simp
qed (use assms in \<open>simp_all add: lexer_inv_def\<close>)

lemma block_emit:
  assumes pre: "block_pre cfg st0 cc tk" and "m_source tk' = m_source tk" "\<not> m_skipLeadingNewLineForListing tk'" "st0 \<notin> charRefStates"
    and "st0 \<notin> refStates \<or> \<not> isReferenceChar cc"
    and "tokenizerAsserts tk'" "m_bufferedEndTagName tk' = []"
    and "token_complete (m_token tk')" "m_type (m_token tk') \<noteq> Character"
    and "m_type (m_token tk') = StartTag \<longrightarrow> m_type (m_token tk) = StartTag"
  shows "step_ok cfg hb (potential tk) (emitAndResumeIn cfg DataState tk')"
    and "st0 \<noteq> DataState \<Longrightarrow> step_ok cfg hb (potential tk) (emitAndReconsumeIn DataState tk')"
proof -
  have emit: "emit_ok tk'"
    using assms block_pushed [OF pre assms(4,5)] block_facts [OF pre] by (simp add: emit_ok_def)
  show "step_ok cfg hb (potential tk) (emitAndResumeIn cfg DataState tk')"
    using emit assms(2,10) block_facts(4) [OF pre]
    by (intro emitAndResumeIn_ok) (auto simp: potential_def weight_def)
  show "step_ok cfg hb (potential tk) (emitAndReconsumeIn DataState tk')" if "st0 \<noteq> DataState"
    using emit assms(2,10) rank_positive [OF that] pre
    by (intro emitAndReconsumeIn_ok) (auto simp: potential_def weight_def block_pre_def)
qed

lemma token_inv_intros:
  "kind st = TextK \<Longrightarrow> tokenAsserts t \<Longrightarrow> m_type t = Uninitialized \<or> m_type t = Character \<Longrightarrow>
     token_inv st cc t"
  "tokenAsserts t \<Longrightarrow> token_inv DataState 0 t"
  "kind st = OpenK \<Longrightarrow> tokenAsserts t \<Longrightarrow> m_type t = Uninitialized \<Longrightarrow> token_inv st cc t"
  "kind st = TagK \<Longrightarrow> tokenAsserts t \<Longrightarrow> is_tag t \<Longrightarrow> list_all attribute_complete (m_attributes t) \<Longrightarrow>
     token_inv st cc t"
  "kind st = NamedK \<Longrightarrow> tokenAsserts t \<Longrightarrow> is_tag t \<Longrightarrow> list_all attribute_complete (m_attributes t) \<Longrightarrow>
     attribute_begun True t \<Longrightarrow> token_inv st cc t"
  "kind st = ValueK \<Longrightarrow> tokenAsserts t \<Longrightarrow> is_tag t \<Longrightarrow> attribute_begun True t \<Longrightarrow> token_inv st cc t"
  "kind st = CommentK \<Longrightarrow> tokenAsserts t \<Longrightarrow> m_type t = Comment \<Longrightarrow> token_inv st cc t"
  "kind st = DoctypeK \<Longrightarrow> tokenAsserts t \<Longrightarrow> m_type t = DOCTYPE \<Longrightarrow> m_doctypeData t \<noteq> None \<Longrightarrow>
     token_inv st cc t"
  by (auto simp: token_inv_def)

lemma is_tag_ops:
  "is_tag (beginStartTag c t)" "is_tag (beginEndTag cs t)" "is_tag (appendToName c t) = is_tag t"
  "is_tag (endAttributeName i t) = is_tag t" "is_tag (endAttributeValue i t) = is_tag t"
  "is_tag (setSelfClosing t) = is_tag t"
  by (simp_all add: is_tag_def)

text \<open>What the class of the block's state says of the token.\<close>

lemma block_token:
  assumes "block_pre cfg st cc tk"
  shows "tokenAsserts (m_token tk)"
    "kind st = TextK \<Longrightarrow> st \<noteq> DataState \<or> cc \<noteq> 0 \<Longrightarrow>
       m_type (m_token tk) = Uninitialized \<or> m_type (m_token tk) = Character"
    "kind st = OpenK \<Longrightarrow> m_type (m_token tk) = Uninitialized"
    "inTag st \<Longrightarrow> is_tag (m_token tk)"
    "kind st \<in> {TagK, NamedK} \<Longrightarrow> list_all attribute_complete (m_attributes (m_token tk))"
    "kind st = NameK \<Longrightarrow> attribute_begun False (m_token tk)"
    "kind st \<in> {NamedK, ValueK} \<Longrightarrow> attribute_begun True (m_token tk)"
    "kind st = CommentK \<Longrightarrow> m_type (m_token tk) = Comment"
    "kind st \<in> {DoctypeK, PublicK, SystemK} \<Longrightarrow>
       m_type (m_token tk) = DOCTYPE \<and> m_doctypeData (m_token tk) \<noteq> None"
    "kind st = PublicK \<Longrightarrow> \<exists>d. m_doctypeData (m_token tk) = Some d \<and> m_hasPublicIdentifier d"
    "kind st = SystemK \<Longrightarrow> \<exists>d. m_doctypeData (m_token tk) = Some d \<and> m_hasSystemIdentifier d"
  using block_facts(2) [OF assms]
  by (auto simp: token_inv_def inTag_def split: state_class.splits)

lemmas block_rules = block_advance block_reconsume block_emit

lemmas block_simps = target_ok_def token_ops token_inv_intros is_tag_simps token_complete_intros
  toLowerCase_nonzero charRefStates_def refStates_def endTagNameStates_def inTag_def is_tag_ops Let_def

section \<open>The blocks\<close>

lemma step_TagOpenState_ok:
  assumes pre: "block_pre cfg TagOpenState cc tk"
  shows "block_ok cfg tk (step_TagOpenState cfg cc tk)"
  using block_facts(1,7,9,10) [OF pre] block_token [OF pre]
  by (simp add: step_TagOpenState_def block_rules [OF pre] block_simps)

lemma step_EndTagOpenState_ok:
  assumes pre: "block_pre cfg EndTagOpenState cc tk"
  shows "block_ok cfg tk (step_EndTagOpenState cfg cc tk)"
  using block_facts(1,7,9,10) [OF pre] block_token [OF pre]
  by (simp add: step_EndTagOpenState_def block_rules [OF pre] block_simps)

lemma step_TagNameState_ok:
  assumes pre: "block_pre cfg TagNameState cc tk"
  shows "block_ok cfg tk (step_TagNameState cfg cc tk)"
  using block_facts(1,7,9,10) [OF pre] block_token [OF pre]
  by (simp add: step_TagNameState_def block_rules [OF pre] block_simps)

lemma step_RCDATALessThanSignState_ok:
  assumes pre: "block_pre cfg RCDATALessThanSignState cc tk"
  shows "block_ok cfg tk (step_RCDATALessThanSignState cfg cc tk)"
  using block_facts(1,7,9,10) [OF pre] block_token [OF pre]
  by (simp add: step_RCDATALessThanSignState_def lessThanSignIn_def block_rules [OF pre] block_simps)

lemma step_RAWTEXTLessThanSignState_ok:
  assumes pre: "block_pre cfg RAWTEXTLessThanSignState cc tk"
  shows "block_ok cfg tk (step_RAWTEXTLessThanSignState cfg cc tk)"
  using block_facts(1,7,9,10) [OF pre] block_token [OF pre]
  by (simp add: step_RAWTEXTLessThanSignState_def lessThanSignIn_def block_rules [OF pre] block_simps)

lemma step_ScriptDataLessThanSignState_ok:
  assumes pre: "block_pre cfg ScriptDataLessThanSignState cc tk"
  shows "block_ok cfg tk (step_ScriptDataLessThanSignState cfg cc tk)"
  using block_facts(1,7,9,10) [OF pre] block_token [OF pre]
  by (simp add: step_ScriptDataLessThanSignState_def lessThanSignIn_def block_rules [OF pre] block_simps)

lemma step_ScriptDataEscapeStartState_ok:
  assumes pre: "block_pre cfg ScriptDataEscapeStartState cc tk"
  shows "block_ok cfg tk (step_ScriptDataEscapeStartState cfg cc tk)"
  using block_facts(1,7,9,10) [OF pre] block_token [OF pre]
  by (simp add: step_ScriptDataEscapeStartState_def block_rules [OF pre] block_simps)

lemma step_ScriptDataEscapeStartDashState_ok:
  assumes pre: "block_pre cfg ScriptDataEscapeStartDashState cc tk"
  shows "block_ok cfg tk (step_ScriptDataEscapeStartDashState cfg cc tk)"
  using block_facts(1,7,9,10) [OF pre] block_token [OF pre]
  by (simp add: step_ScriptDataEscapeStartDashState_def block_rules [OF pre] block_simps)

lemma step_ScriptDataEscapedState_ok:
  assumes pre: "block_pre cfg ScriptDataEscapedState cc tk"
  shows "block_ok cfg tk (step_ScriptDataEscapedState cfg cc tk)"
  using block_facts(1,7,9,10) [OF pre] block_token [OF pre]
  by (simp add: step_ScriptDataEscapedState_def block_rules [OF pre] block_simps)

lemma step_ScriptDataEscapedDashState_ok:
  assumes pre: "block_pre cfg ScriptDataEscapedDashState cc tk"
  shows "block_ok cfg tk (step_ScriptDataEscapedDashState cfg cc tk)"
  using block_facts(1,7,9,10) [OF pre] block_token [OF pre]
  by (simp add: step_ScriptDataEscapedDashState_def block_rules [OF pre] block_simps)

lemma step_ScriptDataEscapedDashDashState_ok:
  assumes pre: "block_pre cfg ScriptDataEscapedDashDashState cc tk"
  shows "block_ok cfg tk (step_ScriptDataEscapedDashDashState cfg cc tk)"
  using block_facts(1,7,9,10) [OF pre] block_token [OF pre]
  by (simp add: step_ScriptDataEscapedDashDashState_def block_rules [OF pre] block_simps)

lemma step_ScriptDataEscapedLessThanSignState_ok:
  assumes pre: "block_pre cfg ScriptDataEscapedLessThanSignState cc tk"
  shows "block_ok cfg tk (step_ScriptDataEscapedLessThanSignState cfg cc tk)"
  using block_facts(1,7,9,10) [OF pre] block_token [OF pre]
  by (simp add: step_ScriptDataEscapedLessThanSignState_def lessThanSignIn_def block_rules [OF pre] block_simps)

lemma step_ScriptDataDoubleEscapeStartState_ok:
  assumes pre: "block_pre cfg ScriptDataDoubleEscapeStartState cc tk"
  shows "block_ok cfg tk (step_ScriptDataDoubleEscapeStartState cfg cc tk)"
  using block_facts(1,7,9,10) [OF pre] block_token [OF pre]
  by (simp add: step_ScriptDataDoubleEscapeStartState_def block_rules [OF pre] block_simps)

lemma step_ScriptDataDoubleEscapedState_ok:
  assumes pre: "block_pre cfg ScriptDataDoubleEscapedState cc tk"
  shows "block_ok cfg tk (step_ScriptDataDoubleEscapedState cfg cc tk)"
  using block_facts(1,7,9,10) [OF pre] block_token [OF pre]
  by (simp add: step_ScriptDataDoubleEscapedState_def block_rules [OF pre] block_simps)

lemma step_ScriptDataDoubleEscapedDashState_ok:
  assumes pre: "block_pre cfg ScriptDataDoubleEscapedDashState cc tk"
  shows "block_ok cfg tk (step_ScriptDataDoubleEscapedDashState cfg cc tk)"
  using block_facts(1,7,9,10) [OF pre] block_token [OF pre]
  by (simp add: step_ScriptDataDoubleEscapedDashState_def block_rules [OF pre] block_simps)

lemma step_ScriptDataDoubleEscapedDashDashState_ok:
  assumes pre: "block_pre cfg ScriptDataDoubleEscapedDashDashState cc tk"
  shows "block_ok cfg tk (step_ScriptDataDoubleEscapedDashDashState cfg cc tk)"
  using block_facts(1,7,9,10) [OF pre] block_token [OF pre]
  by (simp add: step_ScriptDataDoubleEscapedDashDashState_def block_rules [OF pre] block_simps)

lemma step_ScriptDataDoubleEscapedLessThanSignState_ok:
  assumes pre: "block_pre cfg ScriptDataDoubleEscapedLessThanSignState cc tk"
  shows "block_ok cfg tk (step_ScriptDataDoubleEscapedLessThanSignState cfg cc tk)"
  using block_facts(1,7,9,10) [OF pre] block_token [OF pre]
  by (simp add: step_ScriptDataDoubleEscapedLessThanSignState_def block_rules [OF pre] block_simps)

lemma step_ScriptDataDoubleEscapeEndState_ok:
  assumes pre: "block_pre cfg ScriptDataDoubleEscapeEndState cc tk"
  shows "block_ok cfg tk (step_ScriptDataDoubleEscapeEndState cfg cc tk)"
  using block_facts(1,7,9,10) [OF pre] block_token [OF pre]
  by (simp add: step_ScriptDataDoubleEscapeEndState_def block_rules [OF pre] block_simps)

lemma step_BeforeAttributeNameState_ok:
  assumes pre: "block_pre cfg BeforeAttributeNameState cc tk"
  shows "block_ok cfg tk (step_BeforeAttributeNameState cfg cc tk)"
  using block_facts(1,7,9,10) [OF pre] block_token [OF pre]
  by (simp add: step_BeforeAttributeNameState_def block_rules [OF pre] block_simps)

lemma step_AttributeNameState_ok:
  assumes pre: "block_pre cfg AttributeNameState cc tk"
  shows "block_ok cfg tk (step_AttributeNameState cfg cc tk)"
  using block_facts(1,7,9,10) [OF pre] block_token [OF pre]
  by (simp add: step_AttributeNameState_def block_rules [OF pre] block_simps)

lemma step_AfterAttributeNameState_ok:
  assumes pre: "block_pre cfg AfterAttributeNameState cc tk"
  shows "block_ok cfg tk (step_AfterAttributeNameState cfg cc tk)"
  using block_facts(1,7,9,10) [OF pre] block_token [OF pre]
  by (simp add: step_AfterAttributeNameState_def block_rules [OF pre] block_simps)

lemma step_BeforeAttributeValueState_ok:
  assumes pre: "block_pre cfg BeforeAttributeValueState cc tk"
  shows "block_ok cfg tk (step_BeforeAttributeValueState cfg cc tk)"
  using block_facts(1,7,9,10) [OF pre] block_token [OF pre]
  by (simp add: step_BeforeAttributeValueState_def block_rules [OF pre] block_simps)

lemma step_AttributeValueDoubleQuotedState_ok:
  assumes pre: "block_pre cfg AttributeValueDoubleQuotedState cc tk"
  shows "block_ok cfg tk (step_AttributeValueDoubleQuotedState cfg cc tk)"
  using block_facts(1,7,9,10) [OF pre] block_token [OF pre]
  by (simp add: step_AttributeValueDoubleQuotedState_def block_rules [OF pre] block_simps)

lemma step_AttributeValueSingleQuotedState_ok:
  assumes pre: "block_pre cfg AttributeValueSingleQuotedState cc tk"
  shows "block_ok cfg tk (step_AttributeValueSingleQuotedState cfg cc tk)"
  using block_facts(1,7,9,10) [OF pre] block_token [OF pre]
  by (simp add: step_AttributeValueSingleQuotedState_def block_rules [OF pre] block_simps)

lemma step_AttributeValueUnquotedState_ok:
  assumes pre: "block_pre cfg AttributeValueUnquotedState cc tk"
  shows "block_ok cfg tk (step_AttributeValueUnquotedState cfg cc tk)"
  using block_facts(1,7,9,10) [OF pre] block_token [OF pre]
  by (simp add: step_AttributeValueUnquotedState_def block_rules [OF pre] block_simps)

lemma step_AfterAttributeValueQuotedState_ok:
  assumes pre: "block_pre cfg AfterAttributeValueQuotedState cc tk"
  shows "block_ok cfg tk (step_AfterAttributeValueQuotedState cfg cc tk)"
  using block_facts(1,7,9,10) [OF pre] block_token [OF pre]
  by (simp add: step_AfterAttributeValueQuotedState_def block_rules [OF pre] block_simps)

lemma step_SelfClosingStartTagState_ok:
  assumes pre: "block_pre cfg SelfClosingStartTagState cc tk"
  shows "block_ok cfg tk (step_SelfClosingStartTagState cfg cc tk)"
  using block_facts(1,7,9,10) [OF pre] block_token [OF pre]
  by (simp add: step_SelfClosingStartTagState_def block_rules [OF pre] block_simps)

lemma step_BogusCommentState_ok:
  assumes pre: "block_pre cfg BogusCommentState cc tk"
  shows "block_ok cfg tk (step_BogusCommentState cfg cc tk)"
  using block_facts(1,7,9,10) [OF pre] block_token [OF pre]
  by (simp add: step_BogusCommentState_def block_rules [OF pre] block_simps)

lemma step_ContinueBogusCommentState_ok:
  assumes pre: "block_pre cfg ContinueBogusCommentState cc tk"
  shows "block_ok cfg tk (step_ContinueBogusCommentState cfg cc tk)"
  using block_facts(1,7,9,10) [OF pre] block_token [OF pre]
  by (simp add: step_ContinueBogusCommentState_def block_rules [OF pre] block_simps)

lemma step_CommentStartState_ok:
  assumes pre: "block_pre cfg CommentStartState cc tk"
  shows "block_ok cfg tk (step_CommentStartState cfg cc tk)"
  using block_facts(1,7,9,10) [OF pre] block_token [OF pre]
  by (simp add: step_CommentStartState_def block_rules [OF pre] block_simps)

lemma step_CommentStartDashState_ok:
  assumes pre: "block_pre cfg CommentStartDashState cc tk"
  shows "block_ok cfg tk (step_CommentStartDashState cfg cc tk)"
  using block_facts(1,7,9,10) [OF pre] block_token [OF pre]
  by (simp add: step_CommentStartDashState_def block_rules [OF pre] block_simps)

lemma step_CommentState_ok:
  assumes pre: "block_pre cfg CommentState cc tk"
  shows "block_ok cfg tk (step_CommentState cfg cc tk)"
  using block_facts(1,7,9,10) [OF pre] block_token [OF pre]
  by (simp add: step_CommentState_def block_rules [OF pre] block_simps)

lemma step_CommentEndDashState_ok:
  assumes pre: "block_pre cfg CommentEndDashState cc tk"
  shows "block_ok cfg tk (step_CommentEndDashState cfg cc tk)"
  using block_facts(1,7,9,10) [OF pre] block_token [OF pre]
  by (simp add: step_CommentEndDashState_def block_rules [OF pre] block_simps)

lemma step_CommentEndState_ok:
  assumes pre: "block_pre cfg CommentEndState cc tk"
  shows "block_ok cfg tk (step_CommentEndState cfg cc tk)"
  using block_facts(1,7,9,10) [OF pre] block_token [OF pre]
  by (simp add: step_CommentEndState_def block_rules [OF pre] block_simps)

lemma step_CommentEndBangState_ok:
  assumes pre: "block_pre cfg CommentEndBangState cc tk"
  shows "block_ok cfg tk (step_CommentEndBangState cfg cc tk)"
  using block_facts(1,7,9,10) [OF pre] block_token [OF pre]
  by (simp add: step_CommentEndBangState_def block_rules [OF pre] block_simps)

lemma step_DOCTYPEState_ok:
  assumes pre: "block_pre cfg DOCTYPEState cc tk"
  shows "block_ok cfg tk (step_DOCTYPEState cfg cc tk)"
  using block_facts(1,7,9,10) [OF pre] block_token [OF pre]
  by (simp add: step_DOCTYPEState_def block_rules [OF pre] block_simps)

lemma step_BeforeDOCTYPENameState_ok:
  assumes pre: "block_pre cfg BeforeDOCTYPENameState cc tk"
  shows "block_ok cfg tk (step_BeforeDOCTYPENameState cfg cc tk)"
  using block_facts(1,7,9,10) [OF pre] block_token [OF pre]
  by (simp add: step_BeforeDOCTYPENameState_def block_rules [OF pre] block_simps)

lemma step_DOCTYPENameState_ok:
  assumes pre: "block_pre cfg DOCTYPENameState cc tk"
  shows "block_ok cfg tk (step_DOCTYPENameState cfg cc tk)"
  using block_facts(1,7,9,10) [OF pre] block_token [OF pre]
  by (simp add: step_DOCTYPENameState_def block_rules [OF pre] block_simps)

lemma step_AfterDOCTYPEPublicKeywordState_ok:
  assumes pre: "block_pre cfg AfterDOCTYPEPublicKeywordState cc tk"
  shows "block_ok cfg tk (step_AfterDOCTYPEPublicKeywordState cfg cc tk)"
  using block_facts(1,7,9,10) [OF pre] block_token [OF pre]
  by (simp add: step_AfterDOCTYPEPublicKeywordState_def block_rules [OF pre] block_simps)

lemma step_BeforeDOCTYPEPublicIdentifierState_ok:
  assumes pre: "block_pre cfg BeforeDOCTYPEPublicIdentifierState cc tk"
  shows "block_ok cfg tk (step_BeforeDOCTYPEPublicIdentifierState cfg cc tk)"
  using block_facts(1,7,9,10) [OF pre] block_token [OF pre]
  by (simp add: step_BeforeDOCTYPEPublicIdentifierState_def block_rules [OF pre] block_simps)

lemma step_DOCTYPEPublicIdentifierDoubleQuotedState_ok:
  assumes pre: "block_pre cfg DOCTYPEPublicIdentifierDoubleQuotedState cc tk"
  shows "block_ok cfg tk (step_DOCTYPEPublicIdentifierDoubleQuotedState cfg cc tk)"
  using block_facts(1,7,9,10) [OF pre] block_token [OF pre]
  by (clarsimp simp: step_DOCTYPEPublicIdentifierDoubleQuotedState_def block_rules [OF pre] block_simps)

lemma step_DOCTYPEPublicIdentifierSingleQuotedState_ok:
  assumes pre: "block_pre cfg DOCTYPEPublicIdentifierSingleQuotedState cc tk"
  shows "block_ok cfg tk (step_DOCTYPEPublicIdentifierSingleQuotedState cfg cc tk)"
  using block_facts(1,7,9,10) [OF pre] block_token [OF pre]
  by (clarsimp simp: step_DOCTYPEPublicIdentifierSingleQuotedState_def block_rules [OF pre] block_simps)

lemma step_AfterDOCTYPEPublicIdentifierState_ok:
  assumes pre: "block_pre cfg AfterDOCTYPEPublicIdentifierState cc tk"
  shows "block_ok cfg tk (step_AfterDOCTYPEPublicIdentifierState cfg cc tk)"
  using block_facts(1,7,9,10) [OF pre] block_token [OF pre]
  by (simp add: step_AfterDOCTYPEPublicIdentifierState_def block_rules [OF pre] block_simps)

lemma step_BetweenDOCTYPEPublicAndSystemIdentifiersState_ok:
  assumes pre: "block_pre cfg BetweenDOCTYPEPublicAndSystemIdentifiersState cc tk"
  shows "block_ok cfg tk (step_BetweenDOCTYPEPublicAndSystemIdentifiersState cfg cc tk)"
  using block_facts(1,7,9,10) [OF pre] block_token [OF pre]
  by (simp add: step_BetweenDOCTYPEPublicAndSystemIdentifiersState_def block_rules [OF pre] block_simps)

lemma step_AfterDOCTYPESystemKeywordState_ok:
  assumes pre: "block_pre cfg AfterDOCTYPESystemKeywordState cc tk"
  shows "block_ok cfg tk (step_AfterDOCTYPESystemKeywordState cfg cc tk)"
  using block_facts(1,7,9,10) [OF pre] block_token [OF pre]
  by (simp add: step_AfterDOCTYPESystemKeywordState_def block_rules [OF pre] block_simps)

lemma step_BeforeDOCTYPESystemIdentifierState_ok:
  assumes pre: "block_pre cfg BeforeDOCTYPESystemIdentifierState cc tk"
  shows "block_ok cfg tk (step_BeforeDOCTYPESystemIdentifierState cfg cc tk)"
  using block_facts(1,7,9,10) [OF pre] block_token [OF pre]
  by (simp add: step_BeforeDOCTYPESystemIdentifierState_def block_rules [OF pre] block_simps)

lemma step_DOCTYPESystemIdentifierDoubleQuotedState_ok:
  assumes pre: "block_pre cfg DOCTYPESystemIdentifierDoubleQuotedState cc tk"
  shows "block_ok cfg tk (step_DOCTYPESystemIdentifierDoubleQuotedState cfg cc tk)"
  using block_facts(1,7,9,10) [OF pre] block_token [OF pre]
  by (clarsimp simp: step_DOCTYPESystemIdentifierDoubleQuotedState_def block_rules [OF pre] block_simps)

lemma step_DOCTYPESystemIdentifierSingleQuotedState_ok:
  assumes pre: "block_pre cfg DOCTYPESystemIdentifierSingleQuotedState cc tk"
  shows "block_ok cfg tk (step_DOCTYPESystemIdentifierSingleQuotedState cfg cc tk)"
  using block_facts(1,7,9,10) [OF pre] block_token [OF pre]
  by (clarsimp simp: step_DOCTYPESystemIdentifierSingleQuotedState_def block_rules [OF pre] block_simps)

lemma step_AfterDOCTYPESystemIdentifierState_ok:
  assumes pre: "block_pre cfg AfterDOCTYPESystemIdentifierState cc tk"
  shows "block_ok cfg tk (step_AfterDOCTYPESystemIdentifierState cfg cc tk)"
  using block_facts(1,7,9,10) [OF pre] block_token [OF pre]
  by (simp add: step_AfterDOCTYPESystemIdentifierState_def block_rules [OF pre] block_simps)

lemma step_BogusDOCTYPEState_ok:
  assumes pre: "block_pre cfg BogusDOCTYPEState cc tk"
  shows "block_ok cfg tk (step_BogusDOCTYPEState cfg cc tk)"
  using block_facts(1,7,9,10) [OF pre] block_token [OF pre]
  by (simp add: step_BogusDOCTYPEState_def block_rules [OF pre] block_simps)

lemma step_CDATASectionState_ok:
  assumes pre: "block_pre cfg CDATASectionState cc tk"
  shows "block_ok cfg tk (step_CDATASectionState cfg cc tk)"
  using block_facts(1,7,9,10) [OF pre] block_token [OF pre]
  by (simp add: step_CDATASectionState_def block_rules [OF pre] block_simps)

lemma step_CDATASectionRightSquareBracketState_ok:
  assumes pre: "block_pre cfg CDATASectionRightSquareBracketState cc tk"
  shows "block_ok cfg tk (step_CDATASectionRightSquareBracketState cfg cc tk)"
  using block_facts(1,7,9,10) [OF pre] block_token [OF pre]
  by (simp add: step_CDATASectionRightSquareBracketState_def block_rules [OF pre] block_simps)

lemma step_CDATASectionDoubleRightSquareBracketState_ok:
  assumes pre: "block_pre cfg CDATASectionDoubleRightSquareBracketState cc tk"
  shows "block_ok cfg tk (step_CDATASectionDoubleRightSquareBracketState cfg cc tk)"
  using block_facts(1,7,9,10) [OF pre] block_token [OF pre]
  by (simp add: step_CDATASectionDoubleRightSquareBracketState_def block_rules [OF pre] block_simps)

lemma block_text:
  assumes "block_pre cfg st cc tk" "kind st = TextK" "st \<noteq> DataState \<or> cc \<noteq> 0"
  shows "text_ok tk"
  using block_facts(1,7) [OF assms(1)] block_token(1,2) [OF assms(1)] assms(2,3) by (simp add: text_ok_def)

lemma block_buffer:
  assumes "block_pre cfg st cc tk" "st \<in> endTagNameStates"
  shows "m_bufferedEndTagName tk \<noteq> []"
  using assms by (auto simp: block_pre_def inv_def lexer_inv_def)

lemma text_states_ok:
  assumes pre: "block_pre cfg st 0 tk" and "st \<in> {DataState, RCDATAState, RAWTEXTState, ScriptDataState, PLAINTEXTState}"
  shows "block_ok cfg tk (emitEndOfFile tk)"
  using assms by (intro emitEndOfFile_ok) (auto simp: block_pre_def)

lemma data_character:
  assumes pre: "block_pre cfg DataState cc tk" and "m_type (m_token tk) = Character" "cc \<noteq> 0"
  shows "step_ok cfg True (potential tk) (RETURN True tk)"
proof (rule character_exit)
  show "text_ok tk" by (rule block_text [OF pre]) (use assms in simp_all)
  show "source_inv (entities cfg) (m_state tk) (m_source tk)"
    using pre unfolding block_pre_def inv_def by blast
qed (use block_facts(8,9) [OF pre] assms in \<open>simp_all add: endTagNameStates_def\<close>)

lemma step_DataState_ok:
  assumes pre: "block_pre cfg DataState cc tk"
  shows "block_ok cfg tk (step_DataState cfg cc tk)"
  using block_facts(1,7,9,10) [OF pre] block_token [OF pre] text_states_ok [of cfg DataState tk] data_character [OF pre] pre
  by (auto simp: step_DataState_def block_rules [OF pre] block_simps)

lemma step_RCDATAState_ok:
  assumes pre: "block_pre cfg RCDATAState cc tk"
  shows "block_ok cfg tk (step_RCDATAState cfg cc tk)"
  using block_facts(1,7,9,10) [OF pre] block_token [OF pre] text_states_ok [of cfg RCDATAState tk] pre
  by (auto simp: step_RCDATAState_def block_rules [OF pre] block_simps)

lemma step_RAWTEXTState_ok:
  assumes pre: "block_pre cfg RAWTEXTState cc tk"
  shows "block_ok cfg tk (step_RAWTEXTState cfg cc tk)"
  using block_facts(1,7,9,10) [OF pre] block_token [OF pre] text_states_ok [of cfg RAWTEXTState tk] pre
  by (auto simp: step_RAWTEXTState_def block_rules [OF pre] block_simps)

lemma step_ScriptDataState_ok:
  assumes pre: "block_pre cfg ScriptDataState cc tk"
  shows "block_ok cfg tk (step_ScriptDataState cfg cc tk)"
  using block_facts(1,7,9,10) [OF pre] block_token [OF pre] text_states_ok [of cfg ScriptDataState tk] pre
  by (auto simp: step_ScriptDataState_def block_rules [OF pre] block_simps)

lemma step_PLAINTEXTState_ok:
  assumes pre: "block_pre cfg PLAINTEXTState cc tk"
  shows "block_ok cfg tk (step_PLAINTEXTState cfg cc tk)"
  using block_facts(1,7,9,10) [OF pre] block_token [OF pre] text_states_ok [of cfg PLAINTEXTState tk] pre
  by (auto simp: step_PLAINTEXTState_def block_rules [OF pre] block_simps)

lemma endTagOpenIn_ok:
  assumes pre: "block_pre cfg st cc tk"
    and st: "(st, st1, st2) \<in> {(RCDATAEndTagOpenState, RCDATAEndTagNameState, RCDATAState),
      (RAWTEXTEndTagOpenState, RAWTEXTEndTagNameState, RAWTEXTState),
      (ScriptDataEndTagOpenState, ScriptDataEndTagNameState, ScriptDataState),
      (ScriptDataEscapedEndTagOpenState, ScriptDataEscapedEndTagNameState, ScriptDataEscapedState)}"
  shows "block_ok cfg tk (endTagOpenIn st1 st2 cfg cc tk)"
  using st block_facts(1,7,8,9,10) [OF pre] block_token [OF pre]
  by (auto simp: endTagOpenIn_def block_rules [OF pre] block_simps isEndTagBufferingState_def)

lemma endTagNameIn_ok:
  assumes pre: "block_pre cfg st cc tk"
    and st: "(st, st2) \<in> {(RCDATAEndTagNameState, RCDATAState), (RAWTEXTEndTagNameState, RAWTEXTState),
      (ScriptDataEndTagNameState, ScriptDataState), (ScriptDataEscapedEndTagNameState, ScriptDataEscapedState)}"
  shows "block_ok cfg tk (endTagNameIn st st2 cfg cc tk)"
proof -
  have k: "kind st = TextK" "st \<in> endTagNameStates" "st \<notin> charRefStates" "st \<notin> refStates"
    "isEndTagBufferingState st" "st \<noteq> DataState"
    using st by (auto simp: endTagNameStates_def charRefStates_def refStates_def isEndTagBufferingState_def)
  have tx: "text_ok tk" using k by (intro block_text [OF pre]) auto
  have buf: "m_bufferedEndTagName tk \<noteq> []" by (rule block_buffer [OF pre k(2)])
  have p: "pushedChars (m_source tk) = []" using k by (intro block_pushed [OF pre]) auto
  have front: "front_ok st' (m_source tk)" for st' using k by (intro block_front [OF pre]) auto
  have pot: "20 * length (chars (m_source tk)) \<le> potential tk" by (simp add: potential_def)
  let ?hb = "m_type (m_token tk) = Character"
  have st2: "kind st2 = TextK" "st2 \<notin> endTagNameStates" "\<not> inTag st2" "rank st2 < rank st"
    "st2 \<noteq> CharacterReferenceInAttributeValueState" "st \<noteq> CharacterReferenceInAttributeValueState"
    using st by (auto simp: endTagNameStates_def inTag_def)
  have tok: "tokenAsserts (m_token tk)" "tokenizerAsserts tk" "\<not> m_skipLeadingNewLineForListing tk"
    "m_type (m_token tk) = Uninitialized \<or> m_type (m_token tk) = Character"
    using tx by (simp_all add: text_ok_def)
  have ADV: "block_ok cfg tk (ADVANCE_TO st (addToPossibleEndTag c (appendToTemporaryBuffer cc tk)))" for c
    using k st2 tok block_facts(8) [OF pre]
    by (intro block_advance [OF pre]) (simp_all add: target_ok_def token_inv_intros)
  let ?tk = "bufferCharacter ch_SLASH (bufferCharacter ch_LT tk)"
  have "tokenAsserts (appendToCharacter cs (m_token ?tk))" for cs
    using tok by (simp add: appendToCharacter_def Let_def)
  then have REC: "block_ok cfg tk (RECONSUME_IN st2 cc
      ((on_token (appendToCharacter (m_temporaryBuffer tk)) ?tk)\<lparr>m_bufferedEndTagName := []\<rparr>))"
    using k st2 tok by (intro block_reconsume [OF pre]) (simp_all add: token_inv_intros)
  show ?thesis
    unfolding endTagNameIn_def
    using ADV REC FLUSH_AND_ADVANCE_TO_ok [OF tx front p buf _ pot]
      flushEmitAndResumeIn_ok [OF tx front p buf pot]
    by (simp add: Let_def)
qed

lemma step_RCDATAEndTagOpenState_ok:
  assumes pre: "block_pre cfg RCDATAEndTagOpenState cc tk"
  shows "block_ok cfg tk (step_RCDATAEndTagOpenState cfg cc tk)"
  unfolding step_RCDATAEndTagOpenState_def by (rule endTagOpenIn_ok [OF pre]) simp

lemma step_RCDATAEndTagNameState_ok:
  assumes pre: "block_pre cfg RCDATAEndTagNameState cc tk"
  shows "block_ok cfg tk (step_RCDATAEndTagNameState cfg cc tk)"
  unfolding step_RCDATAEndTagNameState_def by (rule endTagNameIn_ok [OF pre]) simp

lemma step_RAWTEXTEndTagOpenState_ok:
  assumes pre: "block_pre cfg RAWTEXTEndTagOpenState cc tk"
  shows "block_ok cfg tk (step_RAWTEXTEndTagOpenState cfg cc tk)"
  unfolding step_RAWTEXTEndTagOpenState_def by (rule endTagOpenIn_ok [OF pre]) simp

lemma step_RAWTEXTEndTagNameState_ok:
  assumes pre: "block_pre cfg RAWTEXTEndTagNameState cc tk"
  shows "block_ok cfg tk (step_RAWTEXTEndTagNameState cfg cc tk)"
  unfolding step_RAWTEXTEndTagNameState_def by (rule endTagNameIn_ok [OF pre]) simp

lemma step_ScriptDataEndTagOpenState_ok:
  assumes pre: "block_pre cfg ScriptDataEndTagOpenState cc tk"
  shows "block_ok cfg tk (step_ScriptDataEndTagOpenState cfg cc tk)"
  unfolding step_ScriptDataEndTagOpenState_def by (rule endTagOpenIn_ok [OF pre]) simp

lemma step_ScriptDataEndTagNameState_ok:
  assumes pre: "block_pre cfg ScriptDataEndTagNameState cc tk"
  shows "block_ok cfg tk (step_ScriptDataEndTagNameState cfg cc tk)"
  unfolding step_ScriptDataEndTagNameState_def by (rule endTagNameIn_ok [OF pre]) simp

lemma step_ScriptDataEscapedEndTagOpenState_ok:
  assumes pre: "block_pre cfg ScriptDataEscapedEndTagOpenState cc tk"
  shows "block_ok cfg tk (step_ScriptDataEscapedEndTagOpenState cfg cc tk)"
  unfolding step_ScriptDataEscapedEndTagOpenState_def by (rule endTagOpenIn_ok [OF pre]) simp

lemma step_ScriptDataEscapedEndTagNameState_ok:
  assumes pre: "block_pre cfg ScriptDataEscapedEndTagNameState cc tk"
  shows "block_ok cfg tk (step_ScriptDataEscapedEndTagNameState cfg cc tk)"
  unfolding step_ScriptDataEscapedEndTagNameState_def by (rule endTagNameIn_ok [OF pre]) simp

lemma step_CharacterReference_ok:
  assumes pre: "block_pre cfg st cc tk"
  shows "st = CharacterReferenceInDataState \<Longrightarrow> block_ok cfg tk (step_CharacterReferenceInDataState cfg cc tk)"
    "st = CharacterReferenceInRCDATAState \<Longrightarrow> block_ok cfg tk (step_CharacterReferenceInRCDATAState cfg cc tk)"
    "st = CharacterReferenceInAttributeValueState \<Longrightarrow>
       block_ok cfg tk (step_CharacterReferenceInAttributeValueState cfg cc tk)"
  using pre characterReferenceIn_ok [of cfg cc tk] CharacterReferenceInAttributeValue_ok [of cfg cc tk]
  by (simp_all add: block_pre_def step_CharacterReferenceInDataState_def step_CharacterReferenceInRCDATAState_def)

text \<open>The look-aheads: \<open>f\<close> where the string matched, \<open>g\<close> where it did not.\<close>

lemma lookAhead_ok:
  assumes pre: "block_pre cfg st cc tk" and st: "st \<in> {MarkupDeclarationOpenState, AfterDOCTYPENameState}"
    and la: "r = lookAheadInline equals (m_source tk) str"
    and match: "\<And>s. sstring_ok s \<Longrightarrow> length str \<le> length (chars s) \<Longrightarrow>
        equals str (take (length str) (chars s)) \<Longrightarrow>
        f (tk\<lparr>m_source := s\<rparr>) = SWITCH_TO st' (on_token h (tk\<lparr>m_source := (advance ^^ length str) s\<rparr>))"
    and st': "target_ok st' (on_token h tk)" "\<not> inTag st'" "str \<noteq> []" "m_type (h (m_token tk)) \<noteq> StartTag"
      "st' \<notin> endTagNameStates"
    and fall: "\<And>s. block_pre cfg st cc (tk\<lparr>m_source := s\<rparr>) \<Longrightarrow> chars s = chars (m_source tk) \<Longrightarrow>
        step_ok cfg False (potential (tk\<lparr>m_source := s\<rparr>)) (g (tk\<lparr>m_source := s\<rparr>))"
  shows "step_ok cfg False (potential tk) (onLookAhead r f g tk)"
proof (rule onLookAhead_ok [OF la])
  have p: "pushedChars (m_source tk) = []"
    using st by (intro block_pushed [OF pre]) (auto simp: charRefStates_def refStates_def)
  then show "pushedChars (m_source tk) = []" .
  have un: "st \<notin> endTagNameStates" "st \<noteq> DataState" "st \<noteq> CharacterReferenceInAttributeValueState" "\<not> inTag st"
    using st by (auto simp: endTagNameStates_def inTag_def)
  have lex: "lexer_inv cc tk" and src: "source_inv (entities cfg) st (m_source tk)"
    and inp: "input_inv cc (m_source tk)" and tbl: "table_ok (entities cfg)"
    using pre unfolding block_pre_def inv_def by auto
  note f = block_facts [OF pre]
  show "m_type (m_token tk) \<noteq> Character" using f(2) st by (auto simp: token_inv_def)
  have "token_inv st 1 (m_token tk)" using f(2) un(2) st by (auto simp: token_inv_def)
  then show "lexer_inv 1 tk" using lex f(8) by (simp add: lexer_inv_def)
  show "source_inv (entities cfg) (m_state tk) (m_source tk)" using src f(8) by simp
  show "m_state tk \<in> {MarkupDeclarationOpenState, AfterDOCTYPENameState}" using st f(8) by simp
  show "\<not> m_skipLeadingNewLineForListing tk" by (rule f(7))
  fix s
  assume s: "sstring_ok s" "chars s = chars (m_source tk)" "pushedChars s = []"
    "streamLength s = streamLength (m_source tk)" "m_closed s = m_closed (m_source tk)"
  have pos: "position s = position (m_source tk)" using s(2,4) by (simp add: streamLength_def)
  have "block_pre cfg st cc (tk\<lparr>m_source := s\<rparr>)"
    using lex src inp tbl s p pos un(4) f(7,8)
    by (simp add: block_pre_def inv_def lexer_inv_def source_inv_def pushed_inv_def input_inv_def)
  from fall [OF this s(2)] show "step_ok cfg False (potential tk) (g (tk\<lparr>m_source := s\<rparr>))"
    using s(2) by (simp add: potential_def weight_def)
  assume m: "length str \<le> length (chars s)" "equals str (take (length str) (chars s))"
  let ?s = "(advance ^^ length str) s"
  note adv = ss.adv_funpow [OF s(1) m(1)] ss.total_adv_funpow [OF s(1) m(1)]
  have len: "length (chars ?s) + 1 \<le> length (chars (m_source tk))"
    using adv s(2) m(1) st'(3) by (cases str) simp_all
  have "0 \<le> position ?s" using adv len s(4) f(5) by (simp add: streamLength_def)
  then have "source_inv (entities cfg) st' ?s"
    using adv s(3) st'(2) by (simp add: source_inv_def pushed_inv_def)
  moreover have "target_ok st' (on_token h (tk\<lparr>m_source := ?s\<rparr>))"
    using st'(1) by (simp add: target_ok_def)
  moreover have "rank st' \<le> 15" by (rule rank_le)
  ultimately have "step_ok cfg False (potential tk) (SWITCH_TO st' (on_token h (tk\<lparr>m_source := ?s\<rparr>)))"
    using len f(7) st'(1,4,5) by (intro SWITCH_TO_ok) (auto simp: potential_def weight_def target_ok_def)
  then show "step_ok cfg False (potential tk) (f (tk\<lparr>m_source := s\<rparr>))" using match [OF s(1) m] by simp
qed

lemma step_MarkupDeclarationOpenState_ok:
  assumes pre: "block_pre cfg MarkupDeclarationOpenState cc tk"
  shows "block_ok cfg tk (step_MarkupDeclarationOpenState cfg cc tk)"
proof -
  have bogus: "step_ok cfg hb (potential tk) (RECONSUME_IN BogusCommentState cc tk)"
    if pre: "block_pre cfg MarkupDeclarationOpenState cc tk" for tk hb
    using block_facts(1,7,9,10) [OF pre] block_token [OF pre]
    by (simp add: block_rules [OF pre] block_simps)
  note f = block_facts [OF pre] and tok = block_token [OF pre]
  have type: "(m_type (m_token tk) = Character) = False" using tok by simp
  note eqs = lookAhead_def lookAheadIgnoringCase_def
  have t: "target_ok CommentStartState (on_token beginComment tk)"
    "target_ok DOCTYPEState tk" "target_ok CDATASectionState tk"
    using f(1,7,9) tok by (simp_all add: block_simps)
  have dd: "step_ok cfg False (potential tk)
      (onLookAhead (lookAhead (m_source tk) dashDashString)
          (\<lambda>tk. SWITCH_TO CommentStartState (on_token beginComment (advanceStringAndASSERT dashDashString tk)))
          (RECONSUME_IN BogusCommentState cc) tk)"
    by (rule lookAhead_ok [OF pre _ lookAhead_def, where st' = CommentStartState and h = beginComment])
      (use t bogus in \<open>auto simp: advanceString_eqs equalsLiterally_def dashDashString_def ustr_def
          inTag_def endTagNameStates_def\<close>)
  have dt: "step_ok cfg False (potential tk)
      (onLookAhead (lookAheadIgnoringCase (foldCase cfg) (m_source tk) doctypeString)
          (\<lambda>tk. SWITCH_TO DOCTYPEState (advanceStringAndASSERTIgnoringCase cfg doctypeString tk))
          (RECONSUME_IN BogusCommentState cc) tk)"
    by (rule lookAhead_ok [OF pre _ lookAheadIgnoringCase_def, where st' = DOCTYPEState and h = "\<lambda>t. t"])
      (use t type tok bogus in \<open>auto simp: advanceString_eqs equalsIgnoringCase_def doctypeString_def ustr_def
          inTag_def endTagNameStates_def\<close>)
  have cd: "step_ok cfg False (potential tk)
      (onLookAhead (lookAhead (m_source tk) cdataString)
          (\<lambda>tk. SWITCH_TO CDATASectionState (advanceStringAndASSERT cdataString tk))
          (RECONSUME_IN BogusCommentState cc) tk)"
    by (rule lookAhead_ok [OF pre _ lookAhead_def, where st' = CDATASectionState and h = "\<lambda>t. t"])
      (use t tok bogus in \<open>auto simp: advanceString_eqs equalsLiterally_def cdataString_def ustr_def
          inTag_def endTagNameStates_def\<close>)
  show ?thesis
    using dd dt cd bogus [OF pre] by (auto simp: step_MarkupDeclarationOpenState_def Let_def type)
qed

lemma step_AfterDOCTYPENameState_ok:
  assumes pre: "block_pre cfg AfterDOCTYPENameState cc tk"
  shows "block_ok cfg tk (step_AfterDOCTYPENameState cfg cc tk)"
proof -
  have bogus: "step_ok cfg hb (potential tk) (ADVANCE_TO BogusDOCTYPEState (on_token setForceQuirks tk))"
    if pre: "block_pre cfg AfterDOCTYPENameState cc tk" for tk hb
    using block_facts(1,7,9,10) [OF pre] block_token [OF pre]
    by (simp add: block_rules [OF pre] block_simps)
  note f = block_facts [OF pre] and tok = block_token [OF pre]
  have type: "(m_type (m_token tk) = Character) = False" using tok by simp
  have fall: "step_ok cfg hb (potential (tk\<lparr>m_source := s\<rparr>))
      (ADVANCE_TO BogusDOCTYPEState (tk\<lparr>m_source := s, m_token := setForceQuirks (m_token tk)\<rparr>))"
    if "block_pre cfg AfterDOCTYPENameState cc (tk\<lparr>m_source := s\<rparr>)" for s hb
    using bogus [OF that] by simp
  have t: "target_ok AfterDOCTYPEPublicKeywordState tk" "target_ok AfterDOCTYPESystemKeywordState tk"
    using f(1,7,9) tok by (simp_all add: block_simps)
  have pub: "step_ok cfg False (potential tk)
      (onLookAhead (lookAheadIgnoringCase (foldCase cfg) (m_source tk) publicString)
          (\<lambda>tk. SWITCH_TO AfterDOCTYPEPublicKeywordState (advanceStringAndASSERTIgnoringCase cfg publicString tk))
          (\<lambda>tk. ADVANCE_TO BogusDOCTYPEState (on_token setForceQuirks tk)) tk)"
    by (rule lookAhead_ok [OF pre _ lookAheadIgnoringCase_def,
          where st' = AfterDOCTYPEPublicKeywordState and h = "\<lambda>t. t"])
      (use t tok fall in \<open>auto simp: advanceString_eqs equalsIgnoringCase_def publicString_def ustr_def
          inTag_def endTagNameStates_def\<close>)
  have sys: "step_ok cfg False (potential tk)
      (onLookAhead (lookAheadIgnoringCase (foldCase cfg) (m_source tk) systemString)
          (\<lambda>tk. SWITCH_TO AfterDOCTYPESystemKeywordState (advanceStringAndASSERTIgnoringCase cfg systemString tk))
          (\<lambda>tk. ADVANCE_TO BogusDOCTYPEState (on_token setForceQuirks tk)) tk)"
    by (rule lookAhead_ok [OF pre _ lookAheadIgnoringCase_def,
          where st' = AfterDOCTYPESystemKeywordState and h = "\<lambda>t. t"])
      (use t tok fall in \<open>auto simp: advanceString_eqs equalsIgnoringCase_def systemString_def ustr_def
          inTag_def endTagNameStates_def\<close>)
  show ?thesis
    using pub sys bogus [OF pre] f(1,7,9,10) tok 
    by (simp add: step_AfterDOCTYPENameState_def type block_rules [OF pre] block_simps)
qed

section \<open>All of them\<close>

lemmas step_oks =
  step_DataState_ok step_RCDATAState_ok step_RAWTEXTState_ok step_ScriptDataState_ok
    step_PLAINTEXTState_ok step_TagOpenState_ok step_EndTagOpenState_ok step_TagNameState_ok
    step_RCDATALessThanSignState_ok step_RCDATAEndTagOpenState_ok step_RCDATAEndTagNameState_ok
    step_RAWTEXTLessThanSignState_ok step_RAWTEXTEndTagOpenState_ok step_RAWTEXTEndTagNameState_ok
    step_ScriptDataLessThanSignState_ok step_ScriptDataEndTagOpenState_ok
    step_ScriptDataEndTagNameState_ok step_ScriptDataEscapeStartState_ok
    step_ScriptDataEscapeStartDashState_ok step_ScriptDataEscapedState_ok
    step_ScriptDataEscapedDashState_ok step_ScriptDataEscapedDashDashState_ok
    step_ScriptDataEscapedLessThanSignState_ok step_ScriptDataEscapedEndTagOpenState_ok
    step_ScriptDataEscapedEndTagNameState_ok step_ScriptDataDoubleEscapeStartState_ok
    step_ScriptDataDoubleEscapedState_ok step_ScriptDataDoubleEscapedDashState_ok
    step_ScriptDataDoubleEscapedDashDashState_ok step_ScriptDataDoubleEscapedLessThanSignState_ok
    step_ScriptDataDoubleEscapeEndState_ok step_BeforeAttributeNameState_ok step_AttributeNameState_ok
    step_AfterAttributeNameState_ok step_BeforeAttributeValueState_ok
    step_AttributeValueDoubleQuotedState_ok step_AttributeValueSingleQuotedState_ok
    step_AttributeValueUnquotedState_ok step_AfterAttributeValueQuotedState_ok
    step_SelfClosingStartTagState_ok step_BogusCommentState_ok step_ContinueBogusCommentState_ok
    step_MarkupDeclarationOpenState_ok step_CommentStartState_ok step_CommentStartDashState_ok
    step_CommentState_ok step_CommentEndDashState_ok step_CommentEndState_ok step_CommentEndBangState_ok
    step_DOCTYPEState_ok step_BeforeDOCTYPENameState_ok step_DOCTYPENameState_ok
    step_AfterDOCTYPENameState_ok step_AfterDOCTYPEPublicKeywordState_ok
    step_BeforeDOCTYPEPublicIdentifierState_ok step_DOCTYPEPublicIdentifierDoubleQuotedState_ok
    step_DOCTYPEPublicIdentifierSingleQuotedState_ok step_AfterDOCTYPEPublicIdentifierState_ok
    step_BetweenDOCTYPEPublicAndSystemIdentifiersState_ok step_AfterDOCTYPESystemKeywordState_ok
    step_BeforeDOCTYPESystemIdentifierState_ok step_DOCTYPESystemIdentifierDoubleQuotedState_ok
    step_DOCTYPESystemIdentifierSingleQuotedState_ok step_AfterDOCTYPESystemIdentifierState_ok
    step_BogusDOCTYPEState_ok step_CDATASectionState_ok step_CDATASectionRightSquareBracketState_ok
    step_CDATASectionDoubleRightSquareBracketState_ok

theorem step_of_ok:
  assumes "block_pre cfg st cc tk"
  shows "block_ok cfg tk (step_of st cfg cc tk)"
  using assms step_CharacterReference_ok [OF assms]
  by (cases st) (simp_all add: step_of_def step_oks)

end
