(* ===== verification/HTMLTokenizerRun.thy ===== *)
theory HTMLTokenizerRun
  imports HTMLTokenizerSteps
begin

text \<open>
  The calls: \<open>run\<close>, \<open>nextToken\<close> and the scanner's loop return and keep the invariant, in every
  session of the tokenizer's clients (the relation \<open>session\<close>).
\<close>

section \<open>The switch\<close>

lemma exit_inv_weaken:
  "exit_inv cfg hb' B' b tk \<Longrightarrow> B' < B \<Longrightarrow> exit_inv cfg hb B b tk"
  by (auto simp: exit_inv_def)

lemma run_ok:
  assumes "inv cfg cc tk" "\<not> m_skipLeadingNewLineForListing tk" "table_ok (entities cfg)"
  shows "\<exists>b tk'. run cfg cc tk = Some (b, tk')
           \<and> exit_inv cfg (m_type (m_token tk) = Character) (potential tk) b tk'"
  using assms
proof (induction "potential tk" arbitrary: cc tk rule: less_induct)
  case less
  have "block_pre cfg (m_state tk) cc tk" using less.prems by (simp add: block_pre_def)
  from step_of_ok [OF this]
  have step: "block_ok cfg tk (step_of (m_state tk) cfg cc tk)" .
  obtain f tk1 where s: "step_of (m_state tk) cfg cc tk = (f, tk1)" by fastforce
  show ?case
  proof (cases f)
    case (Next cc1)
    then have 1: "inv cfg cc1 tk1" "\<not> m_skipLeadingNewLineForListing tk1" "potential tk1 < potential tk"
      using step s by (simp_all add: step_ok_def)
    obtain b tk' where r: "run cfg cc1 tk1 = Some (b, tk')"
      "exit_inv cfg (m_type (m_token tk1) = Character) (potential tk1) b tk'"
      using less.hyps [OF 1(3,1,2) less.prems(3)] by blast
    then have "exit_inv cfg (m_type (m_token tk) = Character) (potential tk) b tk'"
      using exit_inv_weaken [OF _ 1(3)] by blast
    then show ?thesis using r s Next by (subst run.simps) simp
  next
    case (Return b)
    then have "run cfg cc tk = Some (b, tk1)" using s by (subst run.simps) simp
    then show ?thesis using step s Return by (simp add: step_ok_def)
  next
    case Diverge
    then show ?thesis using step s by (simp add: step_ok_def)
  qed
qed

lemma continue_ok:
  assumes "step_ok cfg hb B s" "table_ok (entities cfg)"
  shows "\<exists>b tk'. continue cfg s = Some (b, tk') \<and> exit_inv cfg hb B b tk'"
proof -
  obtain f tk where s: "s = (f, tk)" by fastforce
  show ?thesis
  proof (cases f)
    case (Next cc)
    then have "inv cfg cc tk" "\<not> m_skipLeadingNewLineForListing tk" "potential tk < B"
      using assms(1) by (simp_all add: s step_ok_def)
    then show ?thesis
      using run_ok [OF _ _ assms(2)] exit_inv_weaken Next by (fastforce simp: s continue_def)
  qed (use assms(1) in \<open>auto simp: s continue_def step_ok_def\<close>)
qed

section \<open>nextToken\<close>

lemma skipLeadingNewLine_ok:
  assumes inv: "inv cfg cc tk" and tbl: "table_ok (entities cfg)"
    and skip: "m_skipLeadingNewLineForListing tk \<longrightarrow> m_state tk \<in> {DataState, RCDATAState, PLAINTEXTState}"
    and type: "m_type (m_token tk) \<noteq> Character"
  shows "\<exists>b tk'. skipLeadingNewLine cfg cc tk = Some (b, tk') \<and> exit_inv cfg False (potential tk) b tk'"
proof -
  let ?tk = "tk\<lparr>m_skipLeadingNewLineForListing := False\<rparr>"
  have inv': "inv cfg cc ?tk" using inv by (simp add: inv_def lexer_inv_def)
  have pot: "potential ?tk = potential tk" by (simp add: potential_def weight_def)
  have go: "\<exists>b tk'. run cfg cc ?tk = Some (b, tk') \<and> exit_inv cfg False (potential tk) b tk'"
    using run_ok [OF inv' _ tbl] type pot by simp
  have adv: "\<exists>b tk'. continue cfg (ADVANCE_TO st ?tk) = Some (b, tk') \<and> exit_inv cfg False (potential tk) b tk'"
    if st: "m_state tk = st" "st \<in> {DataState, RCDATAState}" and cc: "cc = ch_LF" for st
  proof (rule continue_ok [OF _ tbl])
    have pre: "block_pre cfg st cc ?tk" using inv' st(1) tbl by (simp add: block_pre_def)
    show "step_ok cfg False (potential tk) (ADVANCE_TO st ?tk)"
      using block_advance [OF pre, of ?tk st False] block_facts(1,9) [OF pre] block_token(1,2) [OF pre] st(2) cc
      by (auto simp: pot block_simps)
  qed
  show ?thesis
  proof (cases "m_skipLeadingNewLineForListing tk")
    case True
    then show ?thesis
      using go adv skip by (auto simp: skipLeadingNewLine_def Let_def)
  next
    case False
    then have "?tk = tk" by (cases tk) simp
    then show ?thesis using go False unfolding skipLeadingNewLine_def by metis
  qed
qed

lemma resume_lexer_inv:
  assumes "lexer_inv 1 tk"
  shows "resumeBufferedEndTag tk = (False, tk)"
proof -
  have "m_bufferedEndTagName tk \<noteq> [] \<Longrightarrow> isEndTagBufferingState (m_state tk)"
    using assms by (auto simp: lexer_inv_def endTagNameStates_def isEndTagBufferingState_def)
  then show ?thesis by (auto simp: resumeBufferedEndTag_def)
qed

lemma resume_waiting:
  assumes "waiting_end_tag tk"
  shows "resumeBufferedEndTag tk = (m_state tk = DataState,
     (on_token (beginEndTag (m_bufferedEndTagName tk)) tk)\<lparr>m_bufferedEndTagName := []\<rparr>)"
  using assms by (auto simp: waiting_end_tag_def resumeBufferedEndTag_def isEndTagBufferingState_def Let_def)

text \<open>What a call that started with the potential \<open>B\<close> has to show for it.\<close>

definition call_ok :: "config \<Rightarrow> nat \<Rightarrow> bool \<Rightarrow> tokenizer \<Rightarrow> bool" where
  "call_ok cfg B b tk \<longleftrightarrow>
     (if b then token_complete (m_token tk) \<and> entry_inv cfg (cleared tk) \<and> potential (cleared tk) < B
           \<and> \<not> m_skipLeadingNewLineForListing tk
           \<and> (m_type (m_token tk) \<noteq> Character \<longrightarrow> m_state tk = DataState
                \<and> pushedChars (m_source tk) = [] \<and> m_bufferedEndTagName tk = [])
           \<and> (m_type (m_token tk) = StartTag \<longrightarrow> potential (cleared tk) + 1 < B)
      else entry_inv cfg tk
        \<and> (chars (m_source tk) = [] \<or> m_state tk \<in> charRefStates
           \<or> m_state tk \<in> {MarkupDeclarationOpenState, AfterDOCTYPENameState}))"

lemma call_ok_exit: "exit_inv cfg False B' b tk \<Longrightarrow> B' \<le> B \<Longrightarrow> call_ok cfg B b tk"
  by (auto simp: exit_inv_def call_ok_def)

lemma switch_ok:
  assumes src: "source_inv (entities cfg) (m_state tk) (m_source tk)" and lex: "lexer_inv 1 tk"
    and type: "m_type (m_token tk) \<noteq> Character" and tbl: "table_ok (entities cfg)"
    and skip: "m_skipLeadingNewLineForListing tk \<longrightarrow> m_state tk \<in> {DataState, RCDATAState, PLAINTEXTState}"
  shows "\<exists>b tk'. (case peek_source tk of
             (Next cc, tk) \<Rightarrow> skipLeadingNewLine cfg cc tk
           | (Return b, tk) \<Rightarrow> Some (b, tk)
           | (Diverge, tk) \<Rightarrow> None) = Some (b, tk') \<and> call_ok cfg (potential tk) b tk'"
proof (cases rule: peeked_cases [OF src lex refl, of tk, case_names empty char])
  case (empty tk')
  have same: "m_skipLeadingNewLineForListing tk' = m_skipLeadingNewLineForListing tk"
    "m_state tk' = m_state tk" "m_token tk' = m_token tk"
    using empty(2) by (simp_all add: same_lexer_def)
  have lex': "lexer_inv 1 tk'" using lex lexer_inv_same [OF empty(2)] by simp
  then have "m_state tk' \<notin> endTagNameStates \<Longrightarrow> m_bufferedEndTagName tk' = []"
    by (simp add: lexer_inv_def)
  then have "m_skipLeadingNewLineForListing tk' \<longrightarrow> m_bufferedEndTagName tk' = []"
    using skip same by (auto simp: endTagNameStates_def)
  then have "call_ok cfg (potential tk) False tk'"
    using empty(3,4) lex' type skip same by (simp add: call_ok_def entry_inv_def)
  then show ?thesis
    using empty(1) type same
    by (intro exI [of _ False]) (simp add: peek_source_def RETURN_def haveBufferedCharacterToken_def)
next
  case (char cc tk')
  have same: "m_skipLeadingNewLineForListing tk' = m_skipLeadingNewLineForListing tk"
    "m_state tk' = m_state tk" "m_token tk' = m_token tk"
    using char(2) by (simp_all add: same_lexer_def)
  obtain b tk2 where "skipLeadingNewLine cfg cc tk' = Some (b, tk2)"
    "exit_inv cfg False (potential tk') b tk2"
    using skipLeadingNewLine_ok [OF char(3) tbl] skip type same by auto
  then show ?thesis
    using char(1) call_ok_exit [OF _ potential_read [OF char(2,4)]] by (simp add: peek_source_def)
qed

lemma nextToken_ok:
  assumes entry: "entry_inv cfg tk" and tbl: "table_ok (entities cfg)"
  shows "\<exists>b tk'. nextToken cfg tk = Some (b, tk') \<and> call_ok cfg (potential tk) b tk'"
proof -
  have src: "source_inv (entities cfg) (m_state tk) (m_source tk)"
    and type: "m_type (m_token tk) \<noteq> Character"
    and skip: "m_skipLeadingNewLineForListing tk \<longrightarrow> m_state tk \<in> {DataState, RCDATAState, PLAINTEXTState}"
    and lex: "lexer_inv 1 tk \<or> waiting_end_tag tk"
    using entry by (auto simp: entry_inv_def)
  show ?thesis
    using lex
  proof
    assume l: "lexer_inv 1 tk"
    show ?thesis
      using switch_ok [OF src l type tbl skip] by (simp add: nextToken_def resume_lexer_inv [OF l])
  next
    assume w: "waiting_end_tag tk"
    let ?tk = "(on_token (beginEndTag (m_bufferedEndTagName tk)) tk)\<lparr>m_bufferedEndTagName := []\<rparr>"
    have t: "tokenAsserts (m_token tk)" "tokenizerAsserts tk" "m_type (m_token tk) = Uninitialized"
      "m_bufferedEndTagName tk \<noteq> []" "pushedChars (m_source tk) = []"
      "m_state tk \<in> {DataState, BeforeAttributeNameState, SelfClosingStartTagState}"
      using w by (simp_all add: waiting_end_tag_def)
    have noskip: "\<not> m_skipLeadingNewLineForListing tk" using entry t(4) by (simp add: entry_inv_def)
    have pot: "potential ?tk < potential tk" using t(3,4) by (simp add: potential_def weight_def)
    show ?thesis
    proof (cases "m_state tk = DataState")
      case True
      have "call_ok cfg (potential tk) True ?tk"
        using t pot src noskip True
        by (simp add: call_ok_def token_complete_def entry_inv_def lexer_inv_def token_inv_def token_ops
            endTagNameStates_def potential_def weight_def)
      then show ?thesis using True by (intro exI [of _ True]) (simp add: nextToken_def resume_waiting [OF w])
    next
      case False
      have "lexer_inv 1 ?tk"
        using t False by (auto simp: lexer_inv_def token_ops is_tag_def endTagNameStates_def)
      then obtain b tk' where "(case peek_source ?tk of
             (Next cc, tk) \<Rightarrow> skipLeadingNewLine cfg cc tk
           | (Return b, tk) \<Rightarrow> Some (b, tk)
           | (Diverge, tk) \<Rightarrow> None) = Some (b, tk')" "call_ok cfg (potential ?tk) b tk'"
        using switch_ok [of cfg ?tk] src tbl noskip by auto
      moreover have "call_ok cfg (potential tk) b tk'"
        using calculation(2) pot by (auto simp: call_ok_def)
      ultimately show ?thesis using False by (simp add: nextToken_def resume_waiting [OF w])
    qed
  qed
qed

end
