(* ===== verification/HTMLInputStream.thy ===== *)
theory HTMLInputStream
  imports SegmentedString
begin

text \<open>
  \<^verbatim>\<open>WebCore/html/parser/HTMLInputStream.h\<close>: the input of the parser, a current string and the
  strings that wait behind the insertion points of the scripts being run.  The
  \<open>InsertionPointRecord\<close>s of the C++ live on the stack and \<open>m_last\<close> points to the string of the
  outermost of them (to \<open>m_first\<close> when there is none); here they are the list \<open>m_records\<close>,
  innermost first.
\<close>

section \<open>Operations\<close>

record inputStream =
  m_first :: sstring
  m_records :: "sstring list"

definition emptyInputStream :: inputStream where
  "emptyInputStream = \<lparr>m_first = emptySString, m_records = []\<rparr>"

text \<open>\<open>*m_last\<close>, read and assigned.\<close>

definition lastString :: "inputStream \<Rightarrow> sstring" where
  "lastString i = (if m_records i = [] then m_first i else last (m_records i))"

definition updLast :: "(sstring \<Rightarrow> sstring) \<Rightarrow> inputStream \<Rightarrow> inputStream" where
  "updLast f i =
     (if m_records i = [] then i\<lparr>m_first := f (m_first i)\<rparr>
      else i\<lparr>m_records := butlast (m_records i) @ [f (last (m_records i))]\<rparr>)"

definition appendToEnd :: "sstring \<Rightarrow> inputStream \<Rightarrow> inputStream" where
  "appendToEnd s = updLast (\<lambda>l. append_sstring l s)"

definition insertAtCurrentInsertionPoint :: "sstring \<Rightarrow> inputStream \<Rightarrow> inputStream" where
  "insertAtCurrentInsertionPoint s i = i\<lparr>m_first := append_sstring (m_first i) s\<rparr>"

definition haveSeenEndOfFile :: "inputStream \<Rightarrow> bool" where
  "haveSeenEndOfFile i = isClosed (lastString i)"

definition hasInsertionPoint :: "inputStream \<Rightarrow> bool" where
  "hasInsertionPoint i = (if m_records i \<noteq> [] then True else \<not> haveSeenEndOfFile i)"

definition markEndOfFile :: "inputStream \<Rightarrow> inputStream" where
  "markEndOfFile i = updLast close (updLast (\<lambda>l. append_sstring l (mkSString [0])) i)"

text \<open>The constructor and the destructor of an \<open>InsertionPointRecord\<close>.\<close>

definition splitInto :: "inputStream \<Rightarrow> inputStream" where
  "splitInto i = i\<lparr>m_first := assignSString (m_first i) emptySString,
     m_records := assignSString emptySString (m_first i) # m_records i\<rparr>"

definition mergeFrom :: "inputStream \<Rightarrow> inputStream" where
  "mergeFrom i =
     (case m_records i of
        [] \<Rightarrow> i
      | n # rs \<Rightarrow>
          let s = append_sstring (m_first i) n
          in i\<lparr>m_first := (if isClosed n then close s else s), m_records := rs\<rparr>)"

section \<open>Invariant and content\<close>

text \<open>A string that waits has nothing pushed back (\<open>append\<close> asserts it), and only the last is closed.\<close>

definition waiting_ok :: "sstring \<Rightarrow> bool" where
  "waiting_ok s \<longleftrightarrow> sstring_ok s \<and> pushedChars s = []"

definition inputStream_ok :: "inputStream \<Rightarrow> bool" where
  "inputStream_ok i \<longleftrightarrow>
     sstring_ok (m_first i) \<and> list_all waiting_ok (m_records i)
     \<and> (m_records i \<noteq> [] \<longrightarrow>
          \<not> m_closed (m_first i) \<and> list_all (\<lambda>s. \<not> m_closed s) (butlast (m_records i)))"

text \<open>The characters before and after the current insertion point.\<close>

definition beforeInsertionPoint :: "inputStream \<Rightarrow> uchar list" where
  "beforeInsertionPoint i = chars (m_first i)"

definition afterInsertionPoint :: "inputStream \<Rightarrow> uchar list" where
  "afterInsertionPoint i = concat (map chars (m_records i))"

definition content :: "inputStream \<Rightarrow> uchar list" where
  "content i = beforeInsertionPoint i @ afterInsertionPoint i"

lemmas stream_defs = beforeInsertionPoint_def afterInsertionPoint_def content_def inputStream_ok_def
  waiting_ok_def haveSeenEndOfFile_def isClosed_def lastString_def

lemma emptySString_facts [simp]:
  "sstring_ok emptySString" "chars emptySString = []" "pushedChars emptySString = []"
  "m_closed emptySString = False" "numberOfCharactersConsumed emptySString = 0"
  by (simp_all add: emptySString_def emptySubstring_def sstring_ok_def sub_ok_def chars_def pushedChars_def
      sub_chars_def stringCursor_def numberOfCharactersConsumed_def sub_numberOfCharactersConsumed_def)

lemma close_facts [simp]:
  "sstring_ok (close s) = sstring_ok s" "chars (close s) = chars s" "pushedChars (close s) = pushedChars s"
  "m_closed (close s)" "numberOfCharactersConsumed (close s) = numberOfCharactersConsumed s"
  by (simp_all add: close_def sstring_ok_def stringCursor_def chars_def pushedChars_def
      numberOfCharactersConsumed_def)

lemma assignSString_simp [simp]: "assignSString self other = other"
  by (simp add: assignSString_def)

lemma position_close [simp]: "position (close s) = position s"
  by (simp add: position_def)

text \<open>Appending never moves the position back.\<close>

lemma consumed_append_sub:
  "sub_ok u \<Longrightarrow> numberOfCharactersConsumed s \<le> numberOfCharactersConsumed (append_sub s u)"
  by (auto simp: append_sub_def numberOfCharactersConsumed_def sub_numberOfCharactersConsumed_def
      sub_ok_def split: option.splits)

lemma consumed_foldl_append_sub:
  "\<forall>u \<in> set us. sub_ok u \<Longrightarrow>
   numberOfCharactersConsumed s \<le> numberOfCharactersConsumed (foldl append_sub s us)"
proof (induction us arbitrary: s)
  case (Cons u us)
  then have "numberOfCharactersConsumed s \<le> numberOfCharactersConsumed (append_sub s u)"
    using consumed_append_sub [of u s] by simp
  also have "\<dots> \<le> numberOfCharactersConsumed (foldl append_sub (append_sub s u) us)"
    using Cons by simp
  finally show ?case by simp
qed simp

lemma position_append:
  assumes "sstring_ok self" "waiting_ok s"
  shows "position self \<le> position (append_sstring self s)"
proof -
  have "sub_ok (m_currentString s)" "\<forall>u \<in> set (m_substrings s). sub_ok u"
    using assms by (auto simp: waiting_ok_def sstring_ok_def)
  then have "numberOfCharactersConsumed self \<le> numberOfCharactersConsumed (append_sstring self s)"
    using consumed_append_sub [of "m_currentString s" self]
      consumed_foldl_append_sub [of "m_substrings s" "append_sub self (m_currentString s)"]
    by (simp add: append_sstring_def Let_def)
  then show ?thesis
    using assms pushedChars_append [of self s] by (simp add: position_def waiting_ok_def)
qed

section \<open>What the operations do to the content\<close>

lemma updLast_content:
  assumes "\<And>s. sstring_ok s \<Longrightarrow> chars (f s) = chars s @ xs" "inputStream_ok i"
  shows "content (updLast f i) = content i @ xs"
proof (cases "m_records i" rule: rev_cases)
  case Nil
  then show ?thesis using assms by (simp add: updLast_def stream_defs)
next
  case (snoc rs r)
  then show ?thesis using assms by (simp add: updLast_def stream_defs)
qed

lemma updLast_ok:
  assumes "\<And>s. sstring_ok s \<Longrightarrow> sstring_ok (f s) \<and> pushedChars (f s) = pushedChars s" "inputStream_ok i"
  shows "inputStream_ok (updLast f i)"
  using assms by (cases "m_records i" rule: rev_cases) (auto simp: updLast_def stream_defs)

lemma lastString_updLast [simp]: "lastString (updLast f i) = f (lastString i)"
  by (simp add: updLast_def lastString_def)

lemma lastString_ok: "inputStream_ok i \<Longrightarrow> sstring_ok (lastString i)"
  by (cases "m_records i" rule: rev_cases) (auto simp: stream_defs)

lemma appendToEnd_facts:
  assumes "inputStream_ok i" "waiting_ok s"
  shows "inputStream_ok (appendToEnd s i)" "content (appendToEnd s i) = content i @ chars s"
    "haveSeenEndOfFile (appendToEnd s i) = haveSeenEndOfFile i"
proof -
  have s: "sstring_ok s" "pushedChars s = []" using assms(2) by (simp_all add: waiting_ok_def)
  show "inputStream_ok (appendToEnd s i)"
    unfolding appendToEnd_def by (rule updLast_ok [OF _ assms(1)]) (simp add: append_facts s)
  show "content (appendToEnd s i) = content i @ chars s"
    unfolding appendToEnd_def by (rule updLast_content [OF _ assms(1)]) (simp add: append_facts s)
  show "haveSeenEndOfFile (appendToEnd s i) = haveSeenEndOfFile i"
    using lastString_ok [OF assms(1)]
    by (simp add: appendToEnd_def haveSeenEndOfFile_def isClosed_def append_facts s)
qed

lemma insert_facts:
  assumes "inputStream_ok i" "waiting_ok s"
  shows "inputStream_ok (insertAtCurrentInsertionPoint s i)"
    "beforeInsertionPoint (insertAtCurrentInsertionPoint s i) = beforeInsertionPoint i @ chars s"
    "afterInsertionPoint (insertAtCurrentInsertionPoint s i) = afterInsertionPoint i"
    "haveSeenEndOfFile (insertAtCurrentInsertionPoint s i) = haveSeenEndOfFile i"
  using assms by (auto simp: insertAtCurrentInsertionPoint_def stream_defs append_facts)

lemma markEndOfFile_facts:
  assumes "inputStream_ok i"
  shows "inputStream_ok (markEndOfFile i)" "content (markEndOfFile i) = content i @ [0]"
    "haveSeenEndOfFile (markEndOfFile i)"
proof -
  let ?i = "updLast (\<lambda>l. append_sstring l (mkSString [0])) i"
  have 1: "inputStream_ok ?i" "content ?i = content i @ [0]"
    using assms by (auto intro!: updLast_ok updLast_content simp: append_facts)
  show "inputStream_ok (markEndOfFile i)"
    unfolding markEndOfFile_def by (rule updLast_ok [OF _ 1(1)]) simp
  show "content (markEndOfFile i) = content i @ [0]"
    using updLast_content [OF _ 1(1), of close "[]"] 1(2) by (simp add: markEndOfFile_def)
  show "haveSeenEndOfFile (markEndOfFile i)"
    by (simp add: markEndOfFile_def haveSeenEndOfFile_def isClosed_def)
qed

lemma splitInto_facts:
  assumes "inputStream_ok i" "pushedChars (m_first i) = []"
  shows "inputStream_ok (splitInto i)" "beforeInsertionPoint (splitInto i) = []"
    "afterInsertionPoint (splitInto i) = content i" "haveSeenEndOfFile (splitInto i) = haveSeenEndOfFile i"
  using assms by (auto simp: splitInto_def stream_defs)

lemma mergeFrom_facts:
  assumes "inputStream_ok i"
  shows "inputStream_ok (mergeFrom i)" "content (mergeFrom i) = content i"
    "haveSeenEndOfFile (mergeFrom i) = haveSeenEndOfFile i"
  using assms
  by (auto simp: mergeFrom_def stream_defs Let_def append_facts split: list.splits if_splits)

end
