(* ===== verification/HTMLTokenizerSession.thy ===== *)
theory HTMLTokenizerSession
  imports HTMLTokenizerRun HTMLInputStream
begin

text \<open>
  The sessions of the tokenizer: what \<^verbatim>\<open>HTMLDocumentParser\<close>, \<^verbatim>\<open>HTMLTreeBuilder\<close> and the scanners
  do to the tokenizer and to its input stream between the calls, as an inductive relation; the
  invariant \<open>entry_inv\<close> holds in all of them.
\<close>

section \<open>The clients\<close>

text \<open>The stream of a session: the tokenizer reads the current string.\<close>

abbreviation stream_of :: "tokenizer \<Rightarrow> sstring list \<Rightarrow> inputStream" where
  "stream_of tk rs \<equiv> \<lparr>m_first = m_source tk, m_records = rs\<rparr>"

abbreviation with_stream :: "tokenizer \<Rightarrow> inputStream \<Rightarrow> tokenizer" where
  "with_stream tk i \<equiv> tk\<lparr>m_source := m_first i\<rparr>"

text \<open>The states a fragment parser starts in (\<open>tokenizerStateForContextElement\<close>) and a start tag sets.\<close>

definition contextStates :: "State set" where
  "contextStates = {DataState, RCDATAState, RAWTEXTState, ScriptDataState, PLAINTEXTState}"

text \<open>
  What the tree builder does with a complete token, as far as the tokenizer sees it: for a start
  tag it may set the state and ask for the newline after it to be skipped; it sets the two flags
  for the insertion mode it is in (\<^verbatim>\<open>HTMLTreeBuilder.cpp\<close> 456, 800, 824, 921, 2758, 2767, 2776), and
  the token is cleared.
\<close>

inductive token_handled :: "tokenizer \<Rightarrow> tokenizer \<Rightarrow> bool" where
  startTag: "m_type (m_token tk) = StartTag \<Longrightarrow> st \<in> contextStates \<Longrightarrow>
     skip \<longrightarrow> st \<in> {DataState, RCDATAState, PLAINTEXTState} \<Longrightarrow>
     token_handled tk ((cleared tk)\<lparr>m_state := st, m_skipLeadingNewLineForListing := skip,
       m_forceNullCharacterReplacement := force, m_shouldAllowCDATA := cdata\<rparr>)"
| other: "token_handled tk ((cleared tk)\<lparr>m_forceNullCharacterReplacement := force,
       m_shouldAllowCDATA := cdata\<rparr>)"

text \<open>
  A session: the tokenizer and the strings behind the insertion points.  It starts in one of the states above, or
  (\<^verbatim>\<open>TextDocumentParser\<close>) in \<open>PLAINTEXTState\<close> after the tree builder got a fake \<open><pre>\<close> tag.  Strings come from the
  network (\<open>appended\<close>) and from scripts (\<open>written\<close>); a script runs after an end tag
  (\<open>script\<close> to \<open>finished\<close>).
\<close>

inductive session :: "config \<Rightarrow> tokenizer \<Rightarrow> sstring list \<Rightarrow> bool" for cfg where
  start: "st \<in> contextStates \<Longrightarrow> session cfg ((newTokenizer quirks)\<lparr>m_state := st\<rparr>) []"
| textDocument: "session cfg ((newTokenizer quirks)\<lparr>m_state := PLAINTEXTState, m_skipLeadingNewLineForListing := True\<rparr>) []"
| appended: "session cfg tk rs \<Longrightarrow> \<not> haveSeenEndOfFile (stream_of tk rs) \<Longrightarrow> waiting_ok s \<Longrightarrow>
     i = appendToEnd s (stream_of tk rs) \<Longrightarrow> session cfg (with_stream tk i) (m_records i)"
| written: "session cfg tk rs \<Longrightarrow> \<not> m_closed (m_source tk) \<Longrightarrow> waiting_ok s \<Longrightarrow>
     i = insertAtCurrentInsertionPoint s (stream_of tk rs) \<Longrightarrow> session cfg (with_stream tk i) (m_records i)"
| ended: "session cfg tk rs \<Longrightarrow> \<not> haveSeenEndOfFile (stream_of tk rs) \<Longrightarrow>
     i = markEndOfFile (stream_of tk rs) \<Longrightarrow> session cfg (with_stream tk i) (m_records i)"
| waits: "session cfg tk rs \<Longrightarrow> nextToken cfg tk = Some (False, tk') \<Longrightarrow> session cfg tk' rs"
| emits: "session cfg tk rs \<Longrightarrow> nextToken cfg tk = Some (True, tk') \<Longrightarrow> token_handled tk' tk'' \<Longrightarrow>
     session cfg tk'' rs"
| script: "session cfg tk rs \<Longrightarrow> nextToken cfg tk = Some (True, tk') \<Longrightarrow>
     m_type (m_token tk') = EndTag \<Longrightarrow> token_handled tk' tk'' \<Longrightarrow>
     i = splitInto (stream_of tk'' rs) \<Longrightarrow> session cfg (with_stream tk'' i) (m_records i)"
| finished: "session cfg tk rs \<Longrightarrow> i = mergeFrom (stream_of tk rs) \<Longrightarrow>
     session cfg (with_stream tk i) (m_records i)"

inductive_cases token_handledE: "token_handled tk tk'"

section \<open>Every session keeps the invariant\<close>

lemma kind_contextStates: "st \<in> contextStates \<Longrightarrow> kind st = TextK \<and> rank st \<le> 1 \<and> st \<notin> endTagNameStates
    \<and> st \<noteq> CharacterReferenceInAttributeValueState \<and> \<not> inTag st"
  by (auto simp: contextStates_def endTagNameStates_def inTag_def)

lemma entry_inv_start:
  "st \<in> contextStates \<Longrightarrow> entry_inv cfg ((newTokenizer quirks)\<lparr>m_state := st\<rparr>)"
  "entry_inv cfg ((newTokenizer quirks)\<lparr>m_state := PLAINTEXTState, m_skipLeadingNewLineForListing := True\<rparr>)"
  using kind_contextStates [of PLAINTEXTState, unfolded contextStates_def]
  by (auto dest!: kind_contextStates simp: entry_inv_def lexer_inv_def token_inv_def source_inv_def
      newTokenizer_def reset_def newToken_def token_clear_def position_def pushed_inv_def)

text \<open>The tokenizer's own part of the invariant does not look at the source.\<close>

lemma entry_inv_source:
  assumes "entry_inv cfg tk" "sstring_ok s" "pushedChars s = pushedChars (m_source tk)"
    "position (m_source tk) \<le> position s"
  shows "entry_inv cfg (tk\<lparr>m_source := s\<rparr>)"
  using assms by (auto simp: entry_inv_def source_inv_def lexer_inv_def waiting_end_tag_def)

lemma entry_inv_fresh:
  assumes "entry_inv cfg tk" "\<not> inTag (m_state tk)" "pushedChars (m_source tk) = []"
    "sstring_ok s" "pushedChars s = []" "0 \<le> position s"
  shows "entry_inv cfg (tk\<lparr>m_source := s\<rparr>)"
  using assms by (auto simp: entry_inv_def source_inv_def lexer_inv_def waiting_end_tag_def pushed_inv_def)

lemma token_handled_ok:
  assumes call: "call_ok cfg B True tk" and h: "token_handled tk tk'"
  shows "entry_inv cfg tk' \<and> potential tk' < B \<and> m_source tk' = m_source tk"
proof -
  have c: "entry_inv cfg (cleared tk)" "potential (cleared tk) < B" "\<not> m_skipLeadingNewLineForListing tk"
    using call by (simp_all add: call_ok_def)
  have s: "m_type (m_token tk) = StartTag \<Longrightarrow> m_state tk = DataState \<and> pushedChars (m_source tk) = []
      \<and> m_bufferedEndTagName tk = [] \<and> potential (cleared tk) + 1 < B"
    using call by (simp add: call_ok_def)
  show ?thesis
    using h
  proof cases
    case (startTag st skip cdata force)
    note k = kind_contextStates [OF startTag(3)] and s = s [OF startTag(2)]
    have lex: "lexer_inv 1 (cleared tk)"
      using c(1) s by (auto simp: entry_inv_def waiting_end_tag_def)
    have "potential tk' \<le> potential (cleared tk) + 1"
      using k startTag(1) by (simp add: potential_def weight_def)
    moreover have "entry_inv cfg tk'"
      using c(1) lex k s startTag(1,4)
      by (auto simp: entry_inv_def lexer_inv_def token_inv_def source_inv_def pushed_inv_def)
    ultimately show ?thesis using s startTag(1) by simp
  next
    case other
    then show ?thesis
      using c by (auto simp: entry_inv_def lexer_inv_def waiting_end_tag_def potential_def weight_def)
  qed
qed

lemma nextToken_call:
  "entry_inv cfg tk \<Longrightarrow> table_ok (entities cfg) \<Longrightarrow> nextToken cfg tk = Some (b, tk') \<Longrightarrow>
   call_ok cfg (potential tk) b tk'"
  using nextToken_ok by fastforce

text \<open>The stream operations that leave the tokenizer in the middle of what it reads.\<close>

lemma entry_inv_append:
  assumes "entry_inv cfg tk" "waiting_ok s" "f = close \<or> f = id"
  shows "entry_inv cfg (tk\<lparr>m_source := f (append_sstring (m_source tk) s)\<rparr>)"
proof (rule entry_inv_source [OF assms(1)])
  have ok: "sstring_ok (m_source tk)" using assms(1) by (simp add: entry_inv_def source_inv_def)
  then show "position (m_source tk) \<le> position (f (append_sstring (m_source tk) s))"
    using position_append [OF ok assms(2)] assms(3) by auto
  show "sstring_ok (f (append_sstring (m_source tk) s))"
    "pushedChars (f (append_sstring (m_source tk) s)) = pushedChars (m_source tk)"
    using ok assms(2,3) by (auto simp: append_facts waiting_ok_def)
qed

lemma entry_inv_updLast:
  assumes "entry_inv cfg tk" "list_all waiting_ok rs" "waiting_ok s" "f = close \<or> f = id"
    and i: "i = updLast (\<lambda>l. f (append_sstring l s)) (stream_of tk rs)"
  shows "entry_inv cfg (with_stream tk i) \<and> list_all waiting_ok (m_records i)"
proof (cases rs rule: rev_cases)
  case Nil
  then show ?thesis using entry_inv_append [OF assms(1,3,4)] i by (simp add: updLast_def)
next
  case (snoc rs' r)
  then have "waiting_ok (f (append_sstring r s))"
    using assms(2-4) by (auto simp: waiting_ok_def append_facts)
  then show ?thesis using snoc assms(1,2) i by (cases tk) (simp add: updLast_def)
qed

lemma markEndOfFile_updLast:
  "markEndOfFile i = updLast (\<lambda>l. close (append_sstring l (mkSString [0]))) i"
  by (simp add: markEndOfFile_def updLast_def)

lemma waiting_ok_mkSString: "waiting_ok (mkSString xs)"
  by (simp add: waiting_ok_def)

lemma session_inv:
  assumes tbl: "table_ok (entities cfg)" and "session cfg tk rs"
  shows "entry_inv cfg tk \<and> list_all waiting_ok rs"
  using assms(2)
proof (induction rule: session.induct)
  case (start st quirks)
  then show ?case by (simp add: entry_inv_start)
next
  case (textDocument quirks)
  then show ?case using entry_inv_start(2) by simp
next
  case (appended tk rs s i)
  then show ?case using entry_inv_updLast [of cfg tk rs s id i] by (simp add: appendToEnd_def)
next
  case (written tk rs s i)
  then show ?case
    using entry_inv_append [of cfg tk s id] by (simp add: insertAtCurrentInsertionPoint_def)
next
  case (ended tk rs i)
  then show ?case
    using entry_inv_updLast [of cfg tk rs "mkSString [0]" close i]
    by (simp add: markEndOfFile_updLast waiting_ok_mkSString)
next
  case (waits tk rs tk')
  then show ?case using nextToken_call [OF _ tbl waits.hyps(2)] by (simp add: call_ok_def)
next
  case (emits tk rs tk' tk'')
  then show ?case using token_handled_ok nextToken_call [OF _ tbl emits.hyps(2)] by blast
next
  case (script tk rs tk' tk'' i)
  have call: "call_ok cfg (potential tk) True tk'"
    using nextToken_call [OF _ tbl script.hyps(2)] script.IH by blast
  have e: "entry_inv cfg tk''" "m_source tk'' = m_source tk'"
    using token_handled_ok [OF call script.hyps(4)] by blast+
  have p: "pushedChars (m_source tk'') = []" "m_state tk' = DataState"
    using call script.hyps(3) e(2) by (simp_all add: call_ok_def)
  have "m_state tk'' = DataState"
    using script.hyps(3,4) p(2) by (auto elim: token_handledE)
  then have "entry_inv cfg (tk''\<lparr>m_source := emptySString\<rparr>)"
    using e(1) p(1) by (intro entry_inv_fresh) (simp_all add: inTag_def position_def)
  then show ?case
    using script.IH script.hyps(5) e(1) p(1)
    by (simp add: splitInto_def waiting_ok_def entry_inv_def source_inv_def)
next
  case (finished tk rs i)
  show ?case
  proof (cases rs)
    case (Cons r rs')
    then show ?thesis
      using finished entry_inv_append [of cfg tk r id] entry_inv_append [of cfg tk r close]
      by (simp add: mergeFrom_def Let_def)
  qed (use finished in \<open>cases tk, simp add: mergeFrom_def\<close>)
qed

section \<open>The scanner\<close>

lemma processToken_handled:
  "\<not> m_skipLeadingNewLineForListing tk \<Longrightarrow> m_state tk \<in> contextStates \<or> m_type (m_token tk) \<noteq> StartTag \<Longrightarrow>
   token_handled tk (processToken plugins script tk)"
proof -
  assume a: "\<not> m_skipLeadingNewLineForListing tk" "m_state tk \<in> contextStates \<or> m_type (m_token tk) \<noteq> StartTag"
  show ?thesis
  proof (cases "m_type (m_token tk) = StartTag")
    case True
    have "\<exists>st \<in> contextStates. updateStateFor plugins script (m_data (m_token tk)) tk = tk\<lparr>m_state := st\<rparr>"
      using a True unfolding updateStateFor_def contextStates_def
      by (cases tk) auto
    then obtain st where "st \<in> contextStates" "processToken plugins script tk = (cleared tk)\<lparr>m_state := st\<rparr>"
      using True by (auto simp: processToken_def)
    moreover have "(cleared tk)\<lparr>m_state := st\<rparr> = (cleared tk)\<lparr>m_state := st, m_skipLeadingNewLineForListing := False,
       m_forceNullCharacterReplacement := m_forceNullCharacterReplacement tk,
       m_shouldAllowCDATA := m_shouldAllowCDATA tk\<rparr>"
      using a(1) by (cases tk) simp
    ultimately show ?thesis
      using True token_handled.startTag [of tk st False "m_shouldAllowCDATA tk" "m_forceNullCharacterReplacement tk"]
      by simp
  next
    case False
    have "cleared tk = (cleared tk)\<lparr>m_forceNullCharacterReplacement := m_forceNullCharacterReplacement tk,
       m_shouldAllowCDATA := m_shouldAllowCDATA tk\<rparr>"
      by (cases tk) simp
    then show ?thesis
      using False token_handled.other [of tk "m_shouldAllowCDATA tk" "m_forceNullCharacterReplacement tk"]
      by (simp add: processToken_def)
  qed
qed

lemma scan_ok:
  assumes "entry_inv cfg tk" "table_ok (entities cfg)"
  shows "\<exists>ts tk'. scan cfg plugins script tk = Some (ts, tk') \<and> list_all token_complete ts
     \<and> length ts \<le> potential tk \<and> call_ok cfg (potential tk) False tk'"
  using assms
proof (induction "potential tk" arbitrary: tk rule: less_induct)
  case less
  obtain b tk1 where n: "nextToken cfg tk = Some (b, tk1)" and call: "call_ok cfg (potential tk) b tk1"
    using nextToken_ok [OF less.prems] by blast
  show ?case
  proof (cases b)
    case False
    then show ?thesis using n call by (subst scan.simps) simp
  next
    case True
    have c: "token_complete (m_token tk1)" "\<not> m_skipLeadingNewLineForListing tk1"
      "m_type (m_token tk1) = StartTag \<Longrightarrow> m_state tk1 = DataState"
      using call True by (simp_all add: call_ok_def)
    let ?tk = "processToken plugins script tk1"
    have h: "token_handled tk1 ?tk"
      using c(2,3) by (intro processToken_handled) (auto simp: contextStates_def)
    have "call_ok cfg (potential tk) True tk1" using call True by simp
    from token_handled_ok [OF this h] have e: "entry_inv cfg ?tk" "potential ?tk < potential tk"
      by simp_all
    obtain ts tk' where r: "scan cfg plugins script ?tk = Some (ts, tk')" "list_all token_complete ts"
      "length ts \<le> potential ?tk" "call_ok cfg (potential ?tk) False tk'"
      using less.hyps [OF e(2,1) less.prems(2)] by blast
    have "scan cfg plugins script tk = Some (m_token tk1 # ts, tk')"
      using n True r(1) by (subst scan.simps) simp
    moreover have "call_ok cfg (potential tk) False tk'" using r(4) by (simp add: call_ok_def)
    ultimately show ?thesis using c(1) r(2,3) e(2) by simp
  qed
qed

end
