(* ===== verification/HTMLTokenizerEnd.thy ===== *)
theory HTMLTokenizerEnd
  imports HTMLTokenizerSession
begin

text \<open>
  The end of the file: a source that was closed with the marker keeps it in front of the tokenizer
  until the end-of-file token is emitted, unless the call is caught in one of the look-aheads.
  Only \<open>dividePages\<close> breaks this: after a \<open><p>\<close> tag it forgets that the source was closed.
\<close>

section \<open>The marker ahead\<close>

definition end_left :: "sstring \<Rightarrow> bool" where
  "end_left s \<longleftrightarrow> sstring_ok s \<and> m_closed s \<and> chars s \<noteq> [] \<and> last (chars s) = 0"

text \<open>With the input character: it is the marker when nothing else is left.\<close>

definition end_ahead :: "uchar \<Rightarrow> sstring \<Rightarrow> bool" where
  "end_ahead cc s \<longleftrightarrow> end_left s \<and> (cc = 0 \<longleftrightarrow> chars s = [0])"

lemma end_ahead_left: "end_ahead cc s \<Longrightarrow> end_left s"
  by (simp add: end_ahead_def)

lemma end_left_facts:
  assumes "end_left s"
  shows "sstring_ok s" "m_closed s" "chars s \<noteq> []" "last (chars s) = 0"
  using assms by (simp_all add: end_left_def)

text \<open>The two states whose look-ahead can wait for characters that never come.\<close>

definition lookAheadStates :: "State set" where
  "lookAheadStates = {MarkupDeclarationOpenState, AfterDOCTYPENameState}"

text \<open>The tokenizer has emitted a \<open><p>\<close> tag and \<open>dividePages\<close> has replaced the source.\<close>

definition isPageTag :: "token \<Rightarrow> bool" where
  "isPageTag t \<longleftrightarrow> m_type t = StartTag \<and> (m_data t = [ch_P] \<or> m_data t = [ch_p])"

definition divided :: "config \<Rightarrow> tokenizer \<Rightarrow> bool" where
  "divided cfg tk \<longleftrightarrow> DIVIDE_PAGES cfg \<and> isPageTag (m_token tk) \<and> \<not> m_closed (m_source tk)"

definition end_ok :: "config \<Rightarrow> step \<Rightarrow> bool" where
  "end_ok cfg s \<longleftrightarrow>
     (case s of
        (Next cc, tk) \<Rightarrow> end_ahead cc (m_source tk)
      | (Return b, tk) \<Rightarrow>
          (b \<and> m_type (m_token tk) = EndOfFile \<and> chars (m_source tk) = [])
          \<or> (end_left (m_source tk) \<and> (b \<or> m_state tk \<in> lookAheadStates))
          \<or> (b \<and> divided cfg tk)
      | (Diverge, tk) \<Rightarrow> False)"

lemma end_left_advance:
  assumes "end_ahead cc s" "cc \<noteq> 0"
  shows "end_left (advance s)"
proof -
  note s = end_left_facts [OF end_ahead_left [OF assms(1)]]
  have "chars s \<noteq> [0]" using assms by (simp add: end_ahead_def)
  then have "tl (chars s) \<noteq> []" using s(3,4) by (cases "chars s") auto
  then show ?thesis
    using s ss.content_adv [OF s(1,3)] ss.adv_ok [OF s(1,3)] by (simp add: end_left_def last_tl)
qed

lemma peek_plain_end:
  "cs \<noteq> [] \<Longrightarrow> last cs = 0 \<Longrightarrow> \<exists>cc k rest. peek_plain True dn cs = Some (cc, k, rest)
     \<and> rest \<noteq> [] \<and> last rest = 0 \<and> (rest = [0] \<longleftrightarrow> cc = 0)"
  by (induction True dn cs rule: peek_plain.induct) auto

lemma last_after_newline:
  "xs \<noteq> [] \<Longrightarrow> last xs = 0 \<Longrightarrow> c \<noteq> 0 \<Longrightarrow>
   (if b \<and> xs \<noteq> [] \<and> hd xs = c then tl xs else xs) \<noteq> []
   \<and> last (if b \<and> xs \<noteq> [] \<and> hd xs = c then tl xs else xs) = (0 :: uchar)"
  by (cases xs) (auto split: if_splits)

lemma peek_end:
  assumes "end_left (m_source tk)"
  shows "end_ok cfg (peek_source tk)"
proof -
  let ?s = "m_source tk"
  note s = end_left_facts [OF assms]
  let ?cs = "if m_skipNextNewLine tk \<and> chars ?s \<noteq> [] \<and> hd (chars ?s) = ch_LF then tl (chars ?s) else chars ?s"
  have "?cs \<noteq> [] \<and> last ?cs = 0" by (rule last_after_newline [OF s(3,4)]) simp
  then obtain cc k rest where "peek_plain True (shouldSkipNullCharacters tk) ?cs = Some (cc, k, rest)"
    and rest: "rest \<noteq> []" "last rest = 0" "rest = [0] \<longleftrightarrow> cc = 0"
    using peek_plain_end by blast
  then have spec: "peek_spec (m_closed ?s) (shouldSkipNullCharacters tk) (m_skipNextNewLine tk) (chars ?s)
      = Some (cc, k, rest)"
    by (simp only: peek_spec_def s(2))
  obtain b tk' where pk: "peek tk = Some (b, tk')" and r: "peek_result tk (Some (cc, k, rest)) (b, tk')"
    using peek_refines [OF s(1,3)] spec by (metis surj_pair)
  have "b" "chars (m_source tk') = rest" "m_nextInputCharacter tk' = cc" "sstring_ok (m_source tk')"
    "m_closed (m_source tk')"
    using r s(2) by (auto simp: peek_result_def read_to_def)
  then have "end_ahead (m_nextInputCharacter tk') (m_source tk')"
    using rest by (simp add: end_ahead_def end_left_def)
  then show ?thesis
    using \<open>b\<close> s(1,3) by (simp add: peek_source_def peeked_def ss.empty_iff pk end_ok_def)
qed

section \<open>The macros\<close>

lemma m_source_ASSERT [simp]: "m_source (ASSERT_tokenizer b tk) = m_source tk"
  by (simp add: ASSERT_tokenizer_def)

lemma m_source_saveEndTagName [simp]: "m_source (saveEndTagNameIfNeeded tk) = m_source tk"
  by (simp add: saveEndTagNameIfNeeded_def ASSERT_tokenizer_def Let_def token_name_def)

lemma m_source_flush [simp]: "m_source (snd (flushBufferedEndTag tk)) = advance (m_source tk)"
  by (simp add: flushBufferedEndTag_def Let_def ASSERT_tokenizer_def)

lemma end_ADVANCE_TO: "end_ahead cc (m_source tk) \<Longrightarrow> m_source tk' = m_source tk \<Longrightarrow> cc \<noteq> 0 \<Longrightarrow> end_ok cfg (ADVANCE_TO st tk')"
proof -
  assume ahead: "end_ahead cc (m_source tk)" and s: "m_source tk' = m_source tk" "cc \<noteq> 0"
  let ?tk = "source_advance (tk'\<lparr>m_state := st\<rparr>)"
  have left: "end_left (m_source ?tk)" using end_left_advance [OF ahead s(2)] s(1) by simp
  have "end_ok cfg (peek_source ?tk)" by (rule peek_end [OF left])
  moreover have "peeked r tk0 = peeked r tk1" if "r \<noteq> None" for r tk0 tk1
    using that by (auto simp: peeked_def)
  moreover have "peek ?tk \<noteq> None"
    using peek_refines [OF end_left_facts(1,3) [OF left]] by blast
  ultimately show ?thesis
    using end_left_facts [OF left]
    by (simp add: ADVANCE_TO_def peek_source_def preprocessor_advance_def ss.empty_iff) metis
qed

lemma end_RECONSUME_IN: "end_ahead cc (m_source tk) \<Longrightarrow> m_source tk' = m_source tk \<Longrightarrow> cc' = cc \<Longrightarrow> end_ok cfg (RECONSUME_IN st cc' tk')"
  by (simp add: RECONSUME_IN_def end_ok_def)

lemma end_RETURN: "end_ahead cc (m_source tk) \<Longrightarrow> m_source tk' = m_source tk \<Longrightarrow> end_ok cfg (RETURN True tk')"
  by (simp add: end_ahead_left RETURN_def end_ok_def)

lemma m_data_ASSERT [simp]: "m_data (ASSERT_token b t) = m_data t"
  by (simp add: ASSERT_token_def)

lemma dividePages_cases:
  obtains tk' where "emitAndResumeIn cfg st tk = (Return True, tk')" "m_source tk' = advance (m_source tk)"
      "isPageTag (m_token tk) \<longrightarrow> \<not> DIVIDE_PAGES cfg" "m_type (m_token tk') = m_type (m_token tk)"
  | tk' where "emitAndResumeIn cfg st tk = (Return True, tk')" "divided cfg tk'" "isPageTag (m_token tk)"
proof -
  let ?tk = "saveEndTagNameIfNeeded (source_advance (tk\<lparr>m_state := st\<rparr>))"
  have adv: "m_token (source_advance t) = m_token t" for t by (simp add: source_advance_def split: prod.split)
  have type: "m_type (m_token ?tk) = m_type (m_token tk)" "m_data (m_token ?tk) = m_data (m_token tk)"
    by (simp_all add: saveEndTagNameIfNeeded_def token_name_def ASSERT_tokenizer_def Let_def adv)
  have name: "m_type (m_token tk) = StartTag \<Longrightarrow> m_appropriateEndTagName ?tk = m_data (m_token tk)"
    by (simp add: saveEndTagNameIfNeeded_def token_name_def ASSERT_tokenizer_def Let_def adv)
  have one: "length xs = 1 \<and> (hd xs = a \<or> hd xs = b) \<longleftrightarrow> xs = [a] \<or> xs = [b]" for xs and a b :: uchar
    by (cases xs) auto
  have closed: "\<not> m_closed (mkSString xs)" for xs by (simp add: mkSString_def Let_def)
  show thesis
  proof (cases "DIVIDE_PAGES cfg \<and> isPageTag (m_token tk)")
    case True
    then show thesis using that(2) [of "dividePages ?tk"] name type closed one
      by (auto simp: emitAndResumeIn_def RETURN_def divided_def isPageTag_def dividePages_def assignSString_eq)
  next
    case False
    then have "(if DIVIDE_PAGES cfg then dividePages ?tk else ?tk) = ?tk"
      using name type(1) one by (auto simp: dividePages_def isPageTag_def)
    then show thesis using that(1) [of ?tk] False type by (auto simp: emitAndResumeIn_def RETURN_def Let_def)
  qed
qed

lemma end_emitAndResumeIn:
  "end_ahead cc (m_source tk) \<Longrightarrow> m_source tk' = m_source tk \<Longrightarrow> cc \<noteq> 0 \<Longrightarrow> end_ok cfg (emitAndResumeIn cfg st tk')"
  by (rule dividePages_cases [of cfg st tk']) (simp_all add: end_left_advance end_ok_def)

lemma end_emitAndReconsumeIn: "end_ahead cc (m_source tk) \<Longrightarrow> m_source tk' = m_source tk \<Longrightarrow> end_ok cfg (emitAndReconsumeIn st tk')"
  by (simp add: end_ahead_left emitAndReconsumeIn_def RETURN_def end_ok_def)

lemma end_emitEndOfFile:
  assumes ahead: "end_ahead cc (m_source tk)" and "cc = 0"
  shows "end_ok cfg (emitEndOfFile tk)"
proof -
  have one: "chars (m_source tk) = [0]" using assms by (simp add: end_ahead_def)
  then have "chars (advance (m_source tk)) = []"
    using ss.content_adv [OF end_left_facts(1,3) [OF end_ahead_left [OF ahead]]] by simp
  then show ?thesis
    using end_ahead_left [OF ahead] by (simp add: emitEndOfFile_def RETURN_def end_ok_def)
qed

lemma end_FLUSH_AND_ADVANCE_TO: "end_ahead cc (m_source tk) \<Longrightarrow> m_source tk' = m_source tk \<Longrightarrow> cc \<noteq> 0 \<Longrightarrow> end_ok cfg (FLUSH_AND_ADVANCE_TO st tk')"
proof -
  assume ahead: "end_ahead cc (m_source tk)" and s: "m_source tk' = m_source tk" "cc \<noteq> 0"
  obtain e tk1 where f: "flushBufferedEndTag (tk'\<lparr>m_state := st\<rparr>) = (e, tk1)" by fastforce
  have "m_source tk1 = advance (m_source tk)"
    using m_source_flush [of "tk'\<lparr>m_state := st\<rparr>"] s(1) by (simp add: f)
  then show ?thesis
    using peek_end [of tk1] end_left_advance [OF ahead s(2)]
    by (simp add: FLUSH_AND_ADVANCE_TO_def f RETURN_def end_ok_def)
qed

lemma end_flushEmitAndResumeIn:
  "end_ahead cc (m_source tk) \<Longrightarrow> m_source tk' = m_source tk \<Longrightarrow> cc \<noteq> 0 \<Longrightarrow> end_ok cfg (flushEmitAndResumeIn st tk')"
  by (simp add: end_left_advance flushEmitAndResumeIn_def RETURN_def end_ok_def)

lemmas end_rules = end_ADVANCE_TO end_RECONSUME_IN end_RETURN end_emitAndResumeIn end_emitAndReconsumeIn
  end_emitEndOfFile end_FLUSH_AND_ADVANCE_TO end_flushEmitAndResumeIn

lemma end_SWITCH_TO: "end_left (m_source tk) \<Longrightarrow> end_ok cfg (SWITCH_TO st tk)"
  using peek_end [of "tk\<lparr>m_state := st\<rparr>"] by (simp add: SWITCH_TO_def)

text \<open>A reference is decided before the marker.\<close>

lemma end_consumeHTMLEntity:
  assumes inv: "inv cfg cc tk" and tbl: "table_ok (entities cfg)" and st: "m_state tk \<in> charRefStates"
    and aac: "aac \<in> {0, ch_QUOT, ch_APOS, ch_GT}" and ahead: "end_ahead cc (m_source tk)"
  obtains r where "consumeHTMLEntity (entities cfg) (m_source tk) aac = Some r"
    "end_left (entitySource r)" "\<not> notEnoughCharacters r"
proof -
  let ?s = "m_source tk" and ?tbl = "entities cfg"
  note s = end_left_facts [OF end_ahead_left [OF ahead]]
  have "entity_reentry ?tbl (pushedChars ?s)"
    using inv st by (auto simp: inv_def source_inv_def pushed_inv_def charRefStates_def refStates_def
        numeric_prefix_reentry)
  moreover have "aac = 0 \<or> \<not> isReferenceChar aac"
    using aac by (auto simp: isReferenceChar_def isNameChar_def isLetter_def)
  ultimately obtain r where r: "consumeHTMLEntity ?tbl ?s aac = Some r"
    "implements ?tbl ?s (entity_spec ?tbl aac (chars ?s)) r"
    using consumeHTMLEntity_implements [OF s(1) tbl] by blast
  note nul = entity_spec_nul [OF tbl s(4,3), of aac]
  show ?thesis
  proof (rule that [OF r(1)])
    show "\<not> notEnoughCharacters r"
      using r(2) nul(1) by (cases "entity_spec ?tbl aac (chars ?s)") (auto simp: implements_def)
    show "end_left (entitySource r)"
      using r(2) nul s
      by (cases "entity_spec ?tbl aac (chars ?s)") (auto simp: implements_def end_left_def last_drop)
  qed
qed

lemma m_source_fold_bufferCharacter [simp]: "m_source (fold bufferCharacter cs tk) = m_source tk"
  by (induction cs arbitrary: tk) simp_all

lemma end_characterReferenceIn:
  assumes "inv cfg cc tk" "table_ok (entities cfg)" "m_state tk \<in> charRefStates" "end_ahead cc (m_source tk)"
  shows "end_ok cfg (characterReferenceIn st cfg cc tk)"
proof (rule end_consumeHTMLEntity [OF assms(1-3) _ assms(4), of 0])
  fix r
  assume "consumeHTMLEntity (entities cfg) (m_source tk) 0 = Some r" "end_left (entitySource r)"
    "\<not> notEnoughCharacters r"
  then show ?thesis
    by (simp add: characterReferenceIn_def processEntity_def Let_def ASSERT_tokenizer_def end_SWITCH_TO)
qed simp

lemma end_CharacterReferenceInAttributeValue:
  assumes "inv cfg cc tk" "table_ok (entities cfg)" "m_state tk = CharacterReferenceInAttributeValueState"
    and "end_ahead cc (m_source tk)"
  shows "end_ok cfg (step_CharacterReferenceInAttributeValueState cfg cc tk)"
proof -
  have st: "m_state tk \<in> charRefStates" using assms(3) by (simp add: charRefStates_def)
  have "m_additionalAllowedCharacter tk \<in> {ch_QUOT, ch_APOS, ch_GT}"
    using assms(1,3) by (simp add: inv_def lexer_inv_def)
  moreover from this have "m_additionalAllowedCharacter tk \<in> {0, ch_QUOT, ch_APOS, ch_GT}" by blast
  from end_consumeHTMLEntity [OF assms(1,2) st this assms(4)] obtain r where
    "consumeHTMLEntity (entities cfg) (m_source tk) (m_additionalAllowedCharacter tk) = Some r"
    "end_left (entitySource r)" "\<not> notEnoughCharacters r" .
  ultimately show ?thesis
    by (auto simp: step_CharacterReferenceInAttributeValueState_def Let_def ASSERT_tokenizer_def end_SWITCH_TO)
qed

lemma end_onLookAhead:
  assumes la: "r = lookAheadInline equals (m_source tk) str"
    and ahead: "end_ahead cc (m_source tk)" and p: "pushedChars (m_source tk) = []"
    and st: "m_state tk \<in> lookAheadStates"
    and match: "\<And>s. end_left s \<Longrightarrow> length str \<le> length (chars s) \<Longrightarrow> equals str (take (length str) (chars s)) \<Longrightarrow>
        end_ok cfg (f (tk\<lparr>m_source := s\<rparr>))"
    and fall: "\<And>s. end_ahead cc s \<Longrightarrow> end_ok cfg (g (tk\<lparr>m_source := s\<rparr>))"
  shows "end_ok cfg (onLookAhead r f g tk)"
proof -
  have ok: "sstring_ok (m_source tk)" by (rule end_left_facts(1) [OF end_ahead_left [OF ahead]])
  obtain res s where rs: "r = (res, s)" by fastforce
  have "length (pushedChars (m_source tk)) \<le> length str" using p by simp
  note spec = lookAheadInline_spec [OF ok this, of equals, folded la, unfolded rs fst_conv snd_conv]
  have s: "end_ahead cc s" using spec ahead by (simp add: end_ahead_def end_left_def)
  note left = end_ahead_left [OF s]
  show ?thesis
  proof (cases res)
    case DidMatch
    then have "length str \<le> length (chars s)" "equals str (take (length str) (chars s))"
      using spec(1,2) by (simp_all add: lookAhead_spec_def split: if_splits)
    then show ?thesis using match [OF left] DidMatch by (simp add: onLookAhead_def rs)
  next
    case DidNotMatch
    then show ?thesis using fall [OF s] by (simp add: onLookAhead_def rs)
  next
    case NotEnoughCharacters
    then show ?thesis using left st by (simp add: onLookAhead_def rs Let_def RETURN_def end_ok_def)
  qed
qed

section \<open>Every block\<close>

text \<open>The folding of the Unicode library takes no letter for a NUL.\<close>

definition foldCase_ok :: "config \<Rightarrow> bool" where
  "foldCase_ok cfg \<longleftrightarrow> (\<forall>c. isLetter c \<longrightarrow> foldCase cfg c \<noteq> foldCase cfg 0)"

lemma m_source_fold_advance:
  "m_source (fold (\<lambda>c tk. (ASSERT_tokenizer (P c tk) tk)\<lparr>m_source := advance (m_source tk)\<rparr>) str tk)
   = (advance ^^ length str) (m_source tk)"
  by (induction str arbitrary: tk) (simp_all add: funpow_swap1)

lemma m_source_advanceString [simp]:
  "m_source (advanceStringAndASSERT str tk) = (advance ^^ length str) (m_source tk)"
  "m_source (advanceStringAndASSERTIgnoringCase cfg str tk) = (advance ^^ length str) (m_source tk)"
  by (simp_all add: advanceStringAndASSERT_def advanceStringAndASSERTIgnoringCase_def m_source_fold_advance)

text \<open>A string without the marker ends before it.\<close>

lemma end_left_funpow:
  assumes s: "end_left s" "length str \<le> length (chars s)"
    and m: "map f (take (length str) (chars s)) = map f str" "f 0 \<notin> f ` set str"
  shows "end_left ((advance ^^ length str) s)"
proof -
  note e = end_left_facts [OF s(1)]
  have "length str \<noteq> length (chars s)"
  proof
    assume l: "length str = length (chars s)"
    then have "f ` set (chars s) = f ` set str" using m(1) by (metis list.set_map order_refl take_all)
    then show False using m(2) e(3,4) by (metis image_eqI last_in_set)
  qed
  then show ?thesis
    using s(2) e ss.adv_funpow [OF e(1) s(2)] by (simp add: end_left_def last_drop)
qed

lemma end_left_literal:
  "end_left s \<Longrightarrow> length str \<le> length (chars s) \<Longrightarrow> equalsLiterally str (take (length str) (chars s)) \<Longrightarrow>
   0 \<notin> set str \<Longrightarrow> end_left ((advance ^^ length str) s)"
  using end_left_funpow [of s str id] by (simp add: equalsLiterally_def)

lemma end_left_ignoringCase:
  "foldCase_ok cfg \<Longrightarrow> end_left s \<Longrightarrow> length str \<le> length (chars s) \<Longrightarrow>
   equalsIgnoringCase (foldCase cfg) str (take (length str) (chars s)) \<Longrightarrow> list_all isLetter str \<Longrightarrow>
   end_left ((advance ^^ length str) s)"
  by (rule end_left_funpow [of s str "foldCase cfg"])
    (fastforce simp: equalsIgnoringCase_def foldCase_ok_def list_all_iff)+

lemma keyword_letters:
  "list_all isLetter doctypeString" "list_all isLetter publicString" "list_all isLetter systemString"
  "0 \<notin> set dashDashString" "0 \<notin> set cdataString"
  by (simp_all add: doctypeString_def publicString_def systemString_def dashDashString_def cdataString_def
      ustr_def isLetter_def)

lemma lookAhead_pushed:
  assumes "block_pre cfg st cc tk" "st \<in> lookAheadStates"
  shows "pushedChars (m_source tk) = []" "m_state tk \<in> lookAheadStates"
  using assms block_pushed [OF assms(1)] block_facts(8) [OF assms(1)]
  by (auto simp: lookAheadStates_def charRefStates_def refStates_def)

lemma end_lookAheads:
  assumes pre: "block_pre cfg st cc tk" "st \<in> lookAheadStates" and ahead: "end_ahead cc (m_source tk)"
    and fall: "\<And>s. end_ahead cc s \<Longrightarrow> end_ok cfg (g (tk\<lparr>m_source := s\<rparr>))"
  shows "0 \<notin> set str \<Longrightarrow> (\<And>tk. m_source (h tk) = (advance ^^ length str) (m_source tk)) \<Longrightarrow>
      end_ok cfg (onLookAhead (lookAhead (m_source tk) str) (\<lambda>tk. SWITCH_TO st' (h tk)) g tk)"
    and "foldCase_ok cfg \<Longrightarrow> list_all isLetter str \<Longrightarrow>
      end_ok cfg (onLookAhead (lookAheadIgnoringCase (foldCase cfg) (m_source tk) str)
        (\<lambda>tk. SWITCH_TO st' (advanceStringAndASSERTIgnoringCase cfg str tk)) g tk)"
  using lookAhead_pushed [OF pre] fall
  by (auto intro!: end_onLookAhead [OF lookAhead_def ahead] end_onLookAhead [OF lookAheadIgnoringCase_def ahead]
      end_SWITCH_TO intro: end_left_literal end_left_ignoringCase)

lemma end_MarkupDeclarationOpen:
  assumes pre: "block_pre cfg MarkupDeclarationOpenState cc tk" and ahead: "end_ahead cc (m_source tk)"
    and f: "foldCase_ok cfg"
  shows "end_ok cfg (step_MarkupDeclarationOpenState cfg cc tk)"
proof -
  have bogus: "end_ok cfg (RECONSUME_IN BogusCommentState cc (tk\<lparr>m_source := s\<rparr>))" if "end_ahead cc s" for s
    using that by (intro end_RECONSUME_IN [of cc "tk\<lparr>m_source := s\<rparr>"]) simp_all
  have st: "MarkupDeclarationOpenState \<in> lookAheadStates" by (simp add: lookAheadStates_def)
  note la = end_lookAheads [OF pre st ahead, of "RECONSUME_IN BogusCommentState cc"]
  have "end_ok cfg (onLookAhead (lookAhead (m_source tk) dashDashString)
      (\<lambda>tk. SWITCH_TO CommentStartState (on_token beginComment (advanceStringAndASSERT dashDashString tk)))
      (RECONSUME_IN BogusCommentState cc) tk)"
    by (rule la(1)) (simp_all add: bogus keyword_letters)
  moreover have "end_ok cfg (onLookAhead (lookAheadIgnoringCase (foldCase cfg) (m_source tk) doctypeString)
      (\<lambda>tk. SWITCH_TO DOCTYPEState (advanceStringAndASSERTIgnoringCase cfg doctypeString tk))
      (RECONSUME_IN BogusCommentState cc) tk)"
    by (rule la(2)) (simp_all add: bogus keyword_letters f)
  moreover have "end_ok cfg (onLookAhead (lookAhead (m_source tk) cdataString)
      (\<lambda>tk. SWITCH_TO CDATASectionState (advanceStringAndASSERT cdataString tk))
      (RECONSUME_IN BogusCommentState cc) tk)"
    by (rule la(1)) (simp_all add: bogus keyword_letters)
  ultimately show ?thesis
    using bogus [OF ahead] by (auto simp: step_MarkupDeclarationOpenState_def Let_def)
qed

lemma end_AfterDOCTYPEName:
  assumes pre: "block_pre cfg AfterDOCTYPENameState cc tk" and ahead: "end_ahead cc (m_source tk)"
    and f: "foldCase_ok cfg"
  shows "end_ok cfg (step_AfterDOCTYPENameState cfg cc tk)"
proof -
  have bogus: "end_ok cfg (ADVANCE_TO BogusDOCTYPEState (on_token setForceQuirks (tk\<lparr>m_source := s\<rparr>)))"
    if "end_ahead cc s" "cc \<noteq> 0" for s
    using that by (intro end_ADVANCE_TO [of cc "tk\<lparr>m_source := s\<rparr>"]) simp_all
  have la: "cc \<noteq> 0 \<Longrightarrow> list_all isLetter str \<Longrightarrow>
      end_ok cfg (onLookAhead (lookAheadIgnoringCase (foldCase cfg) (m_source tk) str)
        (\<lambda>tk. SWITCH_TO st' (advanceStringAndASSERTIgnoringCase cfg str tk))
        (\<lambda>tk. ADVANCE_TO BogusDOCTYPEState (on_token setForceQuirks tk)) tk)" for str st'
    using bogus by (intro end_lookAheads(2) [OF pre _ ahead _ f]) (simp_all add: lookAheadStates_def)
  show ?thesis
    using la keyword_letters
    by (simp add: step_AfterDOCTYPENameState_def Let_def end_rules [OF ahead])
qed

lemmas plain_step_defs =
  step_DataState_def step_CharacterReferenceInDataState_def step_RCDATAState_def
    step_CharacterReferenceInRCDATAState_def step_RAWTEXTState_def step_ScriptDataState_def
    step_PLAINTEXTState_def step_TagOpenState_def step_EndTagOpenState_def step_TagNameState_def
    step_RCDATALessThanSignState_def step_RCDATAEndTagOpenState_def step_RCDATAEndTagNameState_def
    step_RAWTEXTLessThanSignState_def step_RAWTEXTEndTagOpenState_def step_RAWTEXTEndTagNameState_def
    step_ScriptDataLessThanSignState_def step_ScriptDataEndTagOpenState_def
    step_ScriptDataEndTagNameState_def step_ScriptDataEscapeStartState_def
    step_ScriptDataEscapeStartDashState_def step_ScriptDataEscapedState_def
    step_ScriptDataEscapedDashState_def step_ScriptDataEscapedDashDashState_def
    step_ScriptDataEscapedLessThanSignState_def step_ScriptDataEscapedEndTagOpenState_def
    step_ScriptDataEscapedEndTagNameState_def step_ScriptDataDoubleEscapeStartState_def
    step_ScriptDataDoubleEscapedState_def step_ScriptDataDoubleEscapedDashState_def
    step_ScriptDataDoubleEscapedDashDashState_def step_ScriptDataDoubleEscapedLessThanSignState_def
    step_ScriptDataDoubleEscapeEndState_def step_BeforeAttributeNameState_def step_AttributeNameState_def
    step_AfterAttributeNameState_def step_BeforeAttributeValueState_def
    step_AttributeValueDoubleQuotedState_def step_AttributeValueSingleQuotedState_def
    step_AttributeValueUnquotedState_def step_AfterAttributeValueQuotedState_def
    step_SelfClosingStartTagState_def step_BogusCommentState_def step_ContinueBogusCommentState_def
    step_CommentStartState_def step_CommentStartDashState_def step_CommentState_def
    step_CommentEndDashState_def step_CommentEndState_def step_CommentEndBangState_def
    step_DOCTYPEState_def step_BeforeDOCTYPENameState_def step_DOCTYPENameState_def
    step_AfterDOCTYPEPublicKeywordState_def step_BeforeDOCTYPEPublicIdentifierState_def
    step_DOCTYPEPublicIdentifierDoubleQuotedState_def step_DOCTYPEPublicIdentifierSingleQuotedState_def
    step_AfterDOCTYPEPublicIdentifierState_def step_BetweenDOCTYPEPublicAndSystemIdentifiersState_def
    step_AfterDOCTYPESystemKeywordState_def step_BeforeDOCTYPESystemIdentifierState_def
    step_DOCTYPESystemIdentifierDoubleQuotedState_def step_DOCTYPESystemIdentifierSingleQuotedState_def
    step_AfterDOCTYPESystemIdentifierState_def step_BogusDOCTYPEState_def step_CDATASectionState_def
    step_CDATASectionRightSquareBracketState_def step_CDATASectionDoubleRightSquareBracketState_def
    lessThanSignIn_def endTagOpenIn_def endTagNameIn_def Let_def

theorem step_end_ok:
  assumes pre: "block_pre cfg st cc tk" and ahead: "end_ahead cc (m_source tk)"
    and f: "foldCase_ok cfg"
  shows "end_ok cfg (step_of st cfg cc tk)"
proof -
  have inv: "inv cfg cc tk" "table_ok (entities cfg)" using pre by (simp_all add: block_pre_def)
  note st = block_facts(8) [OF pre]
  show ?thesis
    using end_MarkupDeclarationOpen [of cfg cc tk] end_AfterDOCTYPEName [of cfg cc tk] f pre ahead inv st
      end_characterReferenceIn [of cfg cc tk] end_CharacterReferenceInAttributeValue [of cfg cc tk]
    by (cases st) (simp_all add: step_of_def plain_step_defs end_rules [OF ahead] charRefStates_def)
qed

section \<open>The calls\<close>

text \<open>The parameters of the theorems about the end: the table and the folding.\<close>

definition end_config :: "config \<Rightarrow> bool" where
  "end_config cfg \<longleftrightarrow> table_ok (entities cfg) \<and> foldCase_ok cfg"

definition end_exit :: "config \<Rightarrow> bool \<Rightarrow> tokenizer \<Rightarrow> bool" where
  "end_exit cfg b tk \<longleftrightarrow>
     (b \<and> m_type (m_token tk) = EndOfFile \<and> chars (m_source tk) = [])
     \<or> (end_left (m_source tk) \<and> (b \<or> m_state tk \<in> lookAheadStates))
     \<or> (b \<and> divided cfg tk)"

lemma end_ok_Return: "end_ok cfg (Return b, tk) = end_exit cfg b tk"
  by (simp add: end_ok_def end_exit_def)

lemma run_end:
  assumes "run cfg cc tk = Some (b, tk')" "end_config cfg" "inv cfg cc tk"
    "\<not> m_skipLeadingNewLineForListing tk" "end_ahead cc (m_source tk)"
  shows "end_exit cfg b tk'"
  using assms
proof (induction "potential tk" arbitrary: cc tk rule: less_induct)
  case less
  have pre: "block_pre cfg (m_state tk) cc tk"
    using less.prems by (simp add: block_pre_def end_config_def)
  obtain f tk1 where s: "step_of (m_state tk) cfg cc tk = (f, tk1)" by fastforce
  have end1: "end_ok cfg (f, tk1)"
    using step_end_ok [OF pre less.prems(5)] less.prems(2) by (simp add: s end_config_def)
  have ok: "block_ok cfg tk (f, tk1)" using step_of_ok [OF pre] by (simp add: s)
  show ?case
  proof (cases f)
    case (Next cc1)
    then have "run cfg cc1 tk1 = Some (b, tk')" using less.prems(1) s by (subst (asm) run.simps) simp
    then show ?thesis
      using less.hyps [of tk1 cc1] ok end1 less.prems(2) Next by (simp add: step_ok_def end_ok_def)
  next
    case (Return b1)
    then have "b1 = b" "tk1 = tk'" using less.prems(1) s by (subst (asm) run.simps; simp)+
    then show ?thesis using end1 Return by (simp add: end_ok_Return)
  next
    case Diverge
    then show ?thesis using end1 by (simp add: end_ok_def)
  qed
qed

lemma continue_end:
  assumes "continue cfg s = Some (b, tk')" "end_config cfg" "step_ok cfg hb B s" "end_ok cfg s"
  shows "end_exit cfg b tk'"
proof -
  obtain f tk where s: "s = (f, tk)" by fastforce
  show ?thesis
    using assms run_end [of cfg _ tk b tk']
    by (cases f) (auto simp: s continue_def step_ok_def end_ok_def end_exit_def)
qed

lemma skipLeadingNewLine_end:
  assumes inv: "inv cfg cc tk" and cfg: "end_config cfg" and ahead: "end_ahead cc (m_source tk)"
    and r: "skipLeadingNewLine cfg cc tk = Some (b, tk')"
    and skip: "m_skipLeadingNewLineForListing tk \<longrightarrow> m_state tk \<in> {DataState, RCDATAState, PLAINTEXTState}"
  shows "end_exit cfg b tk'"
proof (cases "m_skipLeadingNewLineForListing tk")
  case False
  then show ?thesis using r run_end [OF _ cfg inv _ ahead] by (simp add: skipLeadingNewLine_def)
next
  case True
  let ?tk = "tk\<lparr>m_skipLeadingNewLineForListing := False\<rparr>"
  have inv': "inv cfg cc ?tk" using inv by (simp add: inv_def lexer_inv_def)
  have go: "run cfg cc ?tk = Some (b, tk') \<Longrightarrow> end_exit cfg b tk'"
    using run_end [OF _ cfg inv'] ahead by simp
  have adv: "end_exit cfg b tk'"
    if st: "m_state tk = st" "st \<in> {DataState, RCDATAState}" and cc: "cc = ch_LF"
      and c: "continue cfg (ADVANCE_TO st ?tk) = Some (b, tk')" for st
  proof (rule continue_end [OF c cfg])
    have pre: "block_pre cfg st cc ?tk" using inv' st(1) cfg by (simp add: block_pre_def end_config_def)
    show "step_ok cfg False (potential ?tk) (ADVANCE_TO st ?tk)"
      using block_advance [OF pre, of ?tk st False] block_facts(1,9) [OF pre] block_token(1,2) [OF pre] st(2) cc
      by (auto simp: block_simps)
    show "end_ok cfg (ADVANCE_TO st ?tk)" using cc by (intro end_ADVANCE_TO [OF ahead]) simp_all
  qed
  show ?thesis
    using r True skip go adv by (auto simp: skipLeadingNewLine_def Let_def split: if_splits)
qed

lemma switch_end:
  assumes src: "source_inv (entities cfg) (m_state tk) (m_source tk)" and lex: "lexer_inv 1 tk"
    and cfg: "end_config cfg" and left: "end_left (m_source tk)"
    and skip: "m_skipLeadingNewLineForListing tk \<longrightarrow> m_state tk \<in> {DataState, RCDATAState, PLAINTEXTState}"
    and r: "(case peek_source tk of
             (Next cc, tk) \<Rightarrow> skipLeadingNewLine cfg cc tk
           | (Return b, tk) \<Rightarrow> Some (b, tk)
           | (Diverge, tk) \<Rightarrow> None) = Some (b, tk')"
  shows "end_exit cfg b tk'"
proof (cases rule: peeked_cases [OF src lex refl, of tk, case_names empty char])
  case (empty tk1)
  then have "end_ok cfg (Return (haveBufferedCharacterToken tk1), tk1)"
    using peek_end [OF left] by (simp add: peek_source_def RETURN_def)
  then show ?thesis using empty r by (auto simp: peek_source_def RETURN_def end_ok_Return)
next
  case (char cc tk1)
  then have "end_ahead cc (m_source tk1)"
    using peek_end [OF left] by (simp add: peek_source_def end_ok_def)
  then show ?thesis
    using skipLeadingNewLine_end [OF char(3) cfg] skip r char(1,2)
    by (simp add: peek_source_def same_lexer_def)
qed

lemma nextToken_end:
  assumes entry: "entry_inv cfg tk" and cfg: "end_config cfg" and left: "end_left (m_source tk)"
    and r: "nextToken cfg tk = Some (b, tk')"
  shows "end_exit cfg b tk'"
proof -
  have src: "source_inv (entities cfg) (m_state tk) (m_source tk)"
    and skip: "m_skipLeadingNewLineForListing tk \<longrightarrow>
        m_state tk \<in> {DataState, RCDATAState, PLAINTEXTState} \<and> m_bufferedEndTagName tk = []"
    and lex: "lexer_inv 1 tk \<or> waiting_end_tag tk"
    using entry by (simp_all add: entry_inv_def)
  show ?thesis
    using lex
  proof
    assume l: "lexer_inv 1 tk"
    then show ?thesis
      using switch_end [OF src l cfg left] skip r by (simp add: nextToken_def resume_lexer_inv [OF l])
  next
    assume w: "waiting_end_tag tk"
    let ?tk = "(on_token (beginEndTag (m_bufferedEndTagName tk)) tk)\<lparr>m_bufferedEndTagName := []\<rparr>"
    have t: "tokenAsserts (m_token tk)" "tokenizerAsserts tk" "m_type (m_token tk) = Uninitialized"
      "m_bufferedEndTagName tk \<noteq> []"
      "m_state tk \<in> {DataState, BeforeAttributeNameState, SelfClosingStartTagState}"
      using w by (simp_all add: waiting_end_tag_def)
    show ?thesis
    proof (cases "m_state tk = DataState")
      case True
      then have "b" "tk' = ?tk" using r by (simp_all add: nextToken_def resume_waiting [OF w])
      then show ?thesis using left by (simp add: end_exit_def)
    next
      case False
      have "lexer_inv 1 ?tk"
        using t False by (auto simp: lexer_inv_def token_ops is_tag_def endTagNameStates_def)
      then show ?thesis
        using switch_end [of cfg ?tk b tk'] src cfg left skip t(4) r False
        by (simp add: nextToken_def resume_waiting [OF w])
    qed
  qed
qed

text \<open>Nothing is left after the end-of-file token.\<close>

lemma nextToken_empty:
  assumes entry: "entry_inv cfg tk" and e: "chars (m_source tk) = []" "m_bufferedEndTagName tk = []"
  shows "\<exists>tk'. nextToken cfg tk = Some (False, tk') \<and> chars (m_source tk') = []"
proof -
  have src: "source_inv (entities cfg) (m_state tk) (m_source tk)" and lex: "lexer_inv 1 tk"
    and type: "m_type (m_token tk) \<noteq> Character"
    using entry e(2) by (auto simp: entry_inv_def waiting_end_tag_def)
  show ?thesis
  proof (cases rule: peeked_cases [OF src lex refl, of tk, case_names empty char])
    case (empty tk')
    then show ?thesis
      using type by (simp add: nextToken_def resume_lexer_inv [OF lex] peek_source_def RETURN_def
          haveBufferedCharacterToken_def same_lexer_def)
  next
    case (char cc tk')
    then show ?thesis using e(1) read_to_length [OF char(4)] by (simp add: inv_def input_inv_def)
  qed
qed

text \<open>What ends a scan of a closed document.\<close>

definition scan_exit :: "config \<Rightarrow> token list \<Rightarrow> tokenizer \<Rightarrow> bool" where
  "scan_exit cfg ts tk \<longleftrightarrow>
     (ts \<noteq> [] \<and> m_type (last ts) = EndOfFile \<and> chars (m_source tk) = [])
     \<or> (m_state tk \<in> lookAheadStates \<and> end_left (m_source tk))
     \<or> (DIVIDE_PAGES cfg \<and> (\<exists>t \<in> set ts. isPageTag t))"

lemma scan_end:
  assumes "entry_inv cfg tk" "end_config cfg" "end_left (m_source tk)"
    "scan cfg plugins script tk = Some (ts, tk')"
  shows "scan_exit cfg ts tk'"
  using assms
proof (induction "potential tk" arbitrary: tk ts rule: less_induct)
  case less
  have tbl: "table_ok (entities cfg)" using less.prems(2) by (simp add: end_config_def)
  obtain b tk1 where n: "nextToken cfg tk = Some (b, tk1)" and call: "call_ok cfg (potential tk) b tk1"
    using nextToken_ok [OF less.prems(1) tbl] by blast
  have exit: "end_exit cfg b tk1" by (rule nextToken_end [OF less.prems(1-3) n])
  show ?case
  proof (cases b)
    case False
    then show ?thesis using n less.prems(4) exit by (subst (asm) scan.simps) (simp add: end_exit_def scan_exit_def)
  next
    case True
    then have call: "call_ok cfg (potential tk) True tk1" using call by simp
    let ?tk = "processToken plugins script tk1"
    have h: "token_handled tk1 ?tk"
      using call by (intro processToken_handled) (auto simp: contextStates_def call_ok_def)
    note e = token_handled_ok [OF call h]
    obtain ts1 where s: "scan cfg plugins script ?tk = Some (ts1, tk')" "ts = m_token tk1 # ts1"
      using n True less.prems(4) by (subst (asm) scan.simps) (auto split: bind_splits)
    show ?thesis
    proof (cases "end_left (m_source tk1)")
      case left: True
      have "scan_exit cfg ts1 tk'"
        using e less.prems(2) left s(1) by (intro less.hyps) simp_all
      then show ?thesis by (auto simp: s(2) scan_exit_def)
    next
      case False
      then consider "DIVIDE_PAGES cfg" "isPageTag (m_token tk1)" | "m_type (m_token tk1) = EndOfFile" "chars (m_source tk1) = []"
        using exit by (auto simp: end_exit_def divided_def)
      then show ?thesis
      proof cases
      case 1
      then show ?thesis by (simp add: s(2) scan_exit_def)
      next
      case eof: 2
      have "m_bufferedEndTagName ?tk = []"
        using call eof(1) by (simp add: call_ok_def processToken_def)
      then obtain tk2 where "nextToken cfg ?tk = Some (False, tk2)" "chars (m_source tk2) = []"
        using nextToken_empty [of cfg ?tk] e eof(2) by auto
      then have "ts1 = []" "chars (m_source tk') = []"
        using s(1) by (subst (asm) scan.simps; simp)+
      then show ?thesis using eof(1) s(2) by (simp add: scan_exit_def)
      qed
    qed
  qed
qed

end
