(* ===== verification/HTMLTokenizerOpen.thy ===== *)
theory HTMLTokenizerOpen
  imports HTMLTokenizerEnd
begin

text \<open>
  A source that is not closed: the tokenizer never closes it, and where it reads a NUL it does not take it
  for the end of the file.  No end-of-file token can come of it, however far it is scanned.
\<close>

section \<open>The macros\<close>

text \<open>A step has left the source open and made no end-of-file token.\<close>

definition opens :: "tokenizer \<Rightarrow> bool" where
  "opens tk \<longleftrightarrow> \<not> m_closed (m_source tk) \<and> m_type (m_token tk) \<noteq> EndOfFile"

definition open_ok :: "step \<Rightarrow> bool" where
  "open_ok s \<longleftrightarrow> opens (snd s)"

lemma advance_closed [simp]:
  "m_closed (advancePastNonNewline s) = m_closed s"
  "m_closed (m_source (source_advance tk)) = m_closed (m_source tk)"
  "m_token (source_advance tk) = m_token tk"
proof -
  show "m_closed (advancePastNonNewline s) = m_closed s"
    using m_closed_advance [of s] by (simp add: advancePastNonNewline_def advance_def)
  obtain s l where "advance_line (m_source tk) (m_lineNumber tk) = (s, l)" by fastforce
  moreover from this have "s = advance (m_source tk)" by (metis advance_line_fst fst_conv)
  ultimately show "m_closed (m_source (source_advance tk)) = m_closed (m_source tk)"
    "m_token (source_advance tk) = m_token tk"
    by (simp_all add: source_advance_def)
qed

lemma skipPendingNewLine_closed:
  "m_closed (m_source (snd (skipPendingNewLine tk))) = m_closed (m_source tk)"
  "m_token (snd (skipPendingNewLine tk)) = m_token tk"
proof -
  obtain s l where "advancePastNewline (m_source tk) (m_lineNumber tk) = (s, l)" by fastforce
  moreover from this have "s = advance (m_source tk)" by (metis advancePastNewline_fst fst_conv)
  ultimately show "m_closed (m_source (snd (skipPendingNewLine tk))) = m_closed (m_source tk)"
    "m_token (snd (skipPendingNewLine tk)) = m_token tk"
    by (simp_all add: skipPendingNewLine_def Let_def)
qed

lemma peek_closed:
  assumes "peek tk = Some r"
  shows "m_closed (m_source (snd r)) = m_closed (m_source tk) \<and> m_token (snd r) = m_token tk"
proof (rule peek.raw_induct [where P = "\<lambda>tk r. m_closed (m_source (snd r)) = m_closed (m_source tk)
      \<and> m_token (snd r) = m_token tk", OF _ assms], goal_cases)
  case (1 p tk r)
  obtain ok tk1 where k: "skipPendingNewLine (tk\<lparr>m_nextInputCharacter := current (m_source tk)\<rparr>) = (ok, tk1)" by fastforce
  then have tk1: "m_closed (m_source tk1) = m_closed (m_source tk)" "m_token tk1 = m_token tk"
    using skipPendingNewLine_closed [of "tk\<lparr>m_nextInputCharacter := current (m_source tk)\<rparr>"] by simp_all
  show ?case
    using 1(1) [of "tk1\<lparr>m_skipNextNewLine := False, m_source := advancePastNonNewline (m_source tk1)\<rparr>" r] 1(2) tk1
    by (auto simp: Let_def k split: if_splits)
qed

lemma opens_token: "opens tk \<Longrightarrow> \<not> m_closed (m_source tk)" "opens tk \<Longrightarrow> m_type (m_token tk) \<noteq> EndOfFile"
  by (simp_all add: opens_def)

lemma opens_same: "m_closed (m_source tk') = m_closed (m_source tk) \<Longrightarrow> m_token tk' = m_token tk \<Longrightarrow> opens tk' = opens tk"
  by (simp add: opens_def)

lemma open_RETURN: "opens tk \<Longrightarrow> open_ok (RETURN b tk)"
  by (simp add: RETURN_def open_ok_def)

lemma open_peeked: "opens tk \<Longrightarrow> (\<And>ok tk'. r = Some (ok, tk') \<Longrightarrow> opens tk') \<Longrightarrow> open_ok (peeked r tk)"
  by (auto simp: peeked_def open_ok_def RETURN_def split: option.split)

lemma open_peek: "opens tk \<Longrightarrow> peek tk = Some (ok, tk') \<Longrightarrow> opens tk'"
  using peek_closed [of tk "(ok, tk')"] by (simp add: opens_def)

lemma open_peek_source: "opens tk \<Longrightarrow> open_ok (peek_source tk)"
  unfolding peek_source_def by (rule open_peeked) (auto intro: open_peek split: if_splits)

lemma open_RECONSUME_IN: "opens tk \<Longrightarrow> open_ok (RECONSUME_IN st cc tk)"
  by (simp add: RECONSUME_IN_def open_ok_def opens_def)

lemma open_ADVANCE_TO: "opens tk \<Longrightarrow> open_ok (ADVANCE_TO st tk)"
proof -
  assume "opens tk"
  then have "opens (tk\<lparr>m_state := st\<rparr>)" "opens (source_advance (tk\<lparr>m_state := st\<rparr>))" by (simp_all add: opens_def)
  then show ?thesis unfolding ADVANCE_TO_def preprocessor_advance_def Let_def
    by (intro open_peeked) (auto intro: open_peek split: if_splits)
qed

lemma open_SWITCH_TO: "opens tk \<Longrightarrow> open_ok (SWITCH_TO st tk)"
  unfolding SWITCH_TO_def by (rule open_peek_source) (simp add: opens_def)

lemma m_type_saveEndTagName [simp]: "m_type (m_token (saveEndTagNameIfNeeded tk)) = m_type (m_token tk)"
  by (simp add: saveEndTagNameIfNeeded_def token_name_def ASSERT_tokenizer_def Let_def)

lemma open_emitAndResumeIn: "opens tk \<Longrightarrow> open_ok (emitAndResumeIn cfg st tk)"
  by (rule dividePages_cases [of cfg st tk]) (auto simp: opens_def open_ok_def divided_def isPageTag_def)

lemma open_emitAndReconsumeIn: "opens tk \<Longrightarrow> open_ok (emitAndReconsumeIn st tk)"
  by (simp add: emitAndReconsumeIn_def RETURN_def open_ok_def opens_def)

lemma flush_type: "m_type (m_token (snd (flushBufferedEndTag tk))) \<in> {Character, EndTag}"
  by (simp add: flushBufferedEndTag_def Let_def)

lemma open_flush: "opens tk \<Longrightarrow> opens (snd (flushBufferedEndTag tk))"
  using flush_type [of tk] by (auto simp: opens_def)

lemma open_FLUSH_AND_ADVANCE_TO: "opens tk \<Longrightarrow> open_ok (FLUSH_AND_ADVANCE_TO st tk)"
proof -
  assume "opens tk"
  then have "opens (snd (flushBufferedEndTag (tk\<lparr>m_state := st\<rparr>)))" by (intro open_flush) (simp add: opens_def)
  then show ?thesis
    by (auto simp: FLUSH_AND_ADVANCE_TO_def intro: open_RETURN open_peek_source split: prod.split)
qed

lemma open_flushEmitAndResumeIn: "opens tk \<Longrightarrow> open_ok (flushEmitAndResumeIn st tk)"
  unfolding flushEmitAndResumeIn_def by (intro open_RETURN open_flush) (simp add: opens_def)

lemmas open_rules = open_ADVANCE_TO open_RECONSUME_IN open_RETURN open_emitAndResumeIn open_emitAndReconsumeIn
  open_FLUSH_AND_ADVANCE_TO open_flushEmitAndResumeIn open_SWITCH_TO

section \<open>Every block\<close>

lemma lookAhead_closed:
  "m_closed (snd (lookAhead s str)) = m_closed s" "m_closed (snd (lookAheadIgnoringCase fc s str)) = m_closed s"
proof -
  have "m_closed (snd (advance_count n s)) = m_closed s" for n s
    by (induction n s rule: advance_count.induct) (auto simp: Let_def split: prod.split)
  then have "m_closed s' = m_closed s" if "advance_count n s = (cs, s')" for n cs s s'
    using that by (metis snd_conv)
  then have "m_closed (snd (lookAheadInline equals s str)) = m_closed s" for equals
    by (auto simp: lookAheadInline_def lookAheadSlowCase_def Let_def split: prod.split)
  then show "m_closed (snd (lookAhead s str)) = m_closed s" "m_closed (snd (lookAheadIgnoringCase fc s str)) = m_closed s"
    by (simp_all add: lookAhead_def lookAheadIgnoringCase_def)
qed

lemma open_onLookAhead:
  assumes "opens tk" "m_closed (snd r) = m_closed (m_source tk)"
    and "\<And>s. \<not> m_closed s \<Longrightarrow> open_ok (f (tk\<lparr>m_source := s\<rparr>))" "\<And>s. \<not> m_closed s \<Longrightarrow> open_ok (g (tk\<lparr>m_source := s\<rparr>))"
  shows "open_ok (onLookAhead r f g tk)"
  using assms by (auto simp: onLookAhead_def opens_def open_RETURN Let_def split: prod.split LookAheadResult.split)

lemma m_token_ASSERT [simp]: "m_token (ASSERT_tokenizer b tk) = m_token tk"
  by (simp add: ASSERT_tokenizer_def)

lemma m_type_fold_bufferCharacter: "m_type (m_token tk) \<noteq> EndOfFile \<Longrightarrow> m_type (m_token (fold bufferCharacter cs tk)) \<noteq> EndOfFile"
  by (induction cs arbitrary: tk) (simp_all add: bufferCharacter_def)

lemma open_consumeHTMLEntity:
  assumes pre: "block_pre cfg st cc tk" "st \<in> charRefStates" and aac: "aac \<in> {0, ch_QUOT, ch_APOS, ch_GT}"
    and r: "consumeHTMLEntity (entities cfg) (m_source tk) aac = Some r"
  shows "m_closed (entitySource r) = m_closed (m_source tk)"
proof -
  have inv: "inv cfg cc tk" "table_ok (entities cfg)" using pre(1) by (simp_all add: block_pre_def)
  have st: "m_state tk \<in> charRefStates" using block_facts(8) [OF pre(1)] pre(2) by simp
  have "entity_reentry (entities cfg) (pushedChars (m_source tk))"
    using inv(1) st by (auto simp: inv_def source_inv_def pushed_inv_def charRefStates_def refStates_def
        numeric_prefix_reentry)
  moreover have "aac = 0 \<or> \<not> isReferenceChar aac"
    using aac by (auto simp: isReferenceChar_def isNameChar_def isLetter_def)
  moreover have "sstring_ok (m_source tk)" using inv(1) by (simp add: inv_def source_inv_def)
  ultimately obtain r' out where "consumeHTMLEntity (entities cfg) (m_source tk) aac = Some r'"
    "implements (entities cfg) (m_source tk) out r'"
    using consumeHTMLEntity_implements inv(2) by blast
  then show ?thesis using r by (simp add: implements_def)
qed

lemma open_characterReferenceIn:
  assumes "block_pre cfg st cc tk" "st \<in> charRefStates" "opens tk"
  shows "open_ok (characterReferenceIn st' cfg cc tk)"
proof (cases "consumeHTMLEntity (entities cfg) (m_source tk) 0")
  case None
  then show ?thesis using assms(3) by (simp add: characterReferenceIn_def processEntity_def open_ok_def)
next
  case (Some r)
  have "m_closed (entitySource r) = m_closed (m_source tk)"
    by (rule open_consumeHTMLEntity [OF assms(1,2) _ Some]) simp
  then show ?thesis
    using assms(3) m_type_fold_bufferCharacter [of "tk\<lparr>m_source := entitySource r\<rparr>"] Some
    by (simp add: characterReferenceIn_def processEntity_def open_rules Let_def opens_def)
qed

lemma open_CharacterReferenceInAttributeValue:
  assumes "block_pre cfg CharacterReferenceInAttributeValueState cc tk" "opens tk"
  shows "open_ok (step_CharacterReferenceInAttributeValueState cfg cc tk)"
proof -
  have st: "CharacterReferenceInAttributeValueState \<in> charRefStates" by (simp add: charRefStates_def)
  have "m_additionalAllowedCharacter tk \<in> {ch_QUOT, ch_APOS, ch_GT}"
    using assms(1) block_facts(8) [OF assms(1)] by (simp add: block_pre_def inv_def lexer_inv_def)
  then have "m_additionalAllowedCharacter tk \<in> {0, ch_QUOT, ch_APOS, ch_GT}" by blast
  note closed = open_consumeHTMLEntity [OF assms(1) st this]
  show ?thesis
  proof (cases "consumeHTMLEntity (entities cfg) (m_source tk) (m_additionalAllowedCharacter tk)")
    case None
    then show ?thesis using assms(2) by (simp add: step_CharacterReferenceInAttributeValueState_def open_ok_def)
  next
    case (Some r)
    have "m_type (fold appendToAttributeValue cs t) = m_type t" for cs t
      by (induction cs arbitrary: t) simp_all
    then show ?thesis using assms(2) closed [OF Some] Some
      by (simp add: step_CharacterReferenceInAttributeValueState_def open_rules opens_def Let_def)
  qed
qed

lemma m_token_advanceString [simp]:
  "m_token (advanceStringAndASSERT str tk) = m_token tk" "m_token (advanceStringAndASSERTIgnoringCase cfg str tk) = m_token tk"
proof -
  have "m_token (fold (\<lambda>c tk. (ASSERT_tokenizer (P c tk) tk)\<lparr>m_source := advance (m_source tk)\<rparr>) str tk) = m_token tk" for P
    by (induction str arbitrary: tk) simp_all
  then show "m_token (advanceStringAndASSERT str tk) = m_token tk"
    "m_token (advanceStringAndASSERTIgnoringCase cfg str tk) = m_token tk"
    by (simp_all add: advanceStringAndASSERT_def advanceStringAndASSERTIgnoringCase_def)
qed

lemma open_lookAheadStates:
  assumes "opens tk"
  shows "open_ok (step_MarkupDeclarationOpenState cfg cc tk)" "cc \<noteq> 0 \<Longrightarrow> open_ok (step_AfterDOCTYPENameState cfg cc tk)"
  using assms
  by (auto simp: step_MarkupDeclarationOpenState_def step_AfterDOCTYPENameState_def Let_def lookAhead_closed opens_def
      intro!: open_onLookAhead open_rules)

theorem step_open_ok:
  assumes pre: "block_pre cfg st cc tk" and o: "opens tk"
  shows "open_ok (step_of st cfg cc tk)"
proof -
  have cc: "cc \<noteq> 0" using pre o by (auto simp: block_pre_def inv_def input_inv_def opens_def)
  note o' = o [unfolded opens_def]
  show ?thesis
    using o' cc o pre open_characterReferenceIn [of cfg _ cc tk] open_CharacterReferenceInAttributeValue [of cfg cc tk]
      open_lookAheadStates [of tk, where cfg = cfg and cc = cc]
    by (cases st) (simp_all add: step_of_def plain_step_defs open_rules opens_def charRefStates_def)
qed

section \<open>The calls\<close>

lemma run_open:
  assumes "run cfg cc tk = Some (b, tk')" "table_ok (entities cfg)" "inv cfg cc tk" "\<not> m_skipLeadingNewLineForListing tk"
    "opens tk"
  shows "opens tk'"
  using assms
proof (induction "potential tk" arbitrary: cc tk rule: less_induct)
  case less
  have pre: "block_pre cfg (m_state tk) cc tk" using less.prems by (simp add: block_pre_def)
  obtain f tk1 where s: "step_of (m_state tk) cfg cc tk = (f, tk1)" by fastforce
  have open1: "opens tk1" using step_open_ok [OF pre less.prems(5)] by (simp add: s open_ok_def)
  have ok: "block_ok cfg tk (f, tk1)" using step_of_ok [OF pre] by (simp add: s)
  show ?case
  proof (cases f)
    case (Next cc1)
    then have "run cfg cc1 tk1 = Some (b, tk')" using less.prems(1) s by (subst (asm) run.simps) simp
    then show ?thesis using less.hyps [of tk1 cc1] ok open1 less.prems(2) Next by (simp add: step_ok_def)
  next
    case (Return b1)
    then have "tk1 = tk'" using less.prems(1) s by (subst (asm) run.simps; simp)+
    then show ?thesis using open1 by simp
  next
    case Diverge
    then show ?thesis using less.prems(1) s by (subst (asm) run.simps) simp
  qed
qed

lemma continue_open:
  assumes "continue cfg s = Some (b, tk')" "table_ok (entities cfg)" "step_ok cfg hb B s" "open_ok s"
  shows "opens tk'"
proof -
  obtain f tk where s: "s = (f, tk)" by fastforce
  show ?thesis
    using assms run_open [of cfg _ tk b tk'] by (cases f) (auto simp: s continue_def step_ok_def open_ok_def)
qed

lemma skipLeadingNewLine_open:
  assumes inv: "inv cfg cc tk" and tbl: "table_ok (entities cfg)" and o: "opens tk"
    and r: "skipLeadingNewLine cfg cc tk = Some (b, tk')"
    and skip: "m_skipLeadingNewLineForListing tk \<longrightarrow> m_state tk \<in> {DataState, RCDATAState, PLAINTEXTState}"
  shows "opens tk'"
proof (cases "m_skipLeadingNewLineForListing tk")
  case False
  then show ?thesis using r run_open [OF _ tbl inv _ o] by (simp add: skipLeadingNewLine_def)
next
  case True
  let ?tk = "tk\<lparr>m_skipLeadingNewLineForListing := False\<rparr>"
  have inv': "inv cfg cc ?tk" and o': "opens ?tk" using inv o by (simp_all add: inv_def lexer_inv_def opens_def)
  have go: "run cfg cc ?tk = Some (b, tk') \<Longrightarrow> opens tk'" using run_open [OF _ tbl inv' _ o'] by simp
  have adv: "opens tk'"
    if st: "m_state tk = st" "st \<in> {DataState, RCDATAState}" and cc: "cc = ch_LF"
      and c: "continue cfg (ADVANCE_TO st ?tk) = Some (b, tk')" for st
  proof (rule continue_open [OF c tbl])
    have pre: "block_pre cfg st cc ?tk" using inv' st(1) tbl by (simp add: block_pre_def)
    show "step_ok cfg False (potential ?tk) (ADVANCE_TO st ?tk)"
      using block_advance [OF pre, of ?tk st False] block_facts(1,9) [OF pre] block_token(1,2) [OF pre] st(2) cc
      by (auto simp: block_simps)
    show "open_ok (ADVANCE_TO st ?tk)" by (rule open_ADVANCE_TO [OF o'])
  qed
  show ?thesis
    using r True skip go adv by (auto simp: skipLeadingNewLine_def Let_def split: if_splits)
qed

lemma switch_open:
  assumes src: "source_inv (entities cfg) (m_state tk) (m_source tk)" and lex: "lexer_inv 1 tk"
    and tbl: "table_ok (entities cfg)" and o: "opens tk"
    and skip: "m_skipLeadingNewLineForListing tk \<longrightarrow> m_state tk \<in> {DataState, RCDATAState, PLAINTEXTState}"
    and r: "(case peek_source tk of
             (Next cc, tk) \<Rightarrow> skipLeadingNewLine cfg cc tk
           | (Return b, tk) \<Rightarrow> Some (b, tk)
           | (Diverge, tk) \<Rightarrow> None) = Some (b, tk')"
  shows "opens tk'"
proof (cases rule: peeked_cases [OF src lex refl, of tk, case_names empty char])
  case (empty tk1)
  then have "open_ok (Return (haveBufferedCharacterToken tk1), tk1)"
    using open_peek_source [OF o] by (simp add: peek_source_def RETURN_def)
  then show ?thesis using empty r by (auto simp: peek_source_def RETURN_def open_ok_def)
next
  case (char cc tk1)
  then have "opens tk1" using open_peek_source [OF o] by (simp add: peek_source_def open_ok_def)
  then show ?thesis
    using skipLeadingNewLine_open [OF char(3) tbl] skip r char(1,2)
    by (simp add: peek_source_def same_lexer_def)
qed

lemma nextToken_open:
  assumes entry: "entry_inv cfg tk" and tbl: "table_ok (entities cfg)" and o: "opens tk"
    and r: "nextToken cfg tk = Some (b, tk')"
  shows "opens tk'"
proof -
  have src: "source_inv (entities cfg) (m_state tk) (m_source tk)"
    and skip: "m_skipLeadingNewLineForListing tk \<longrightarrow>
        m_state tk \<in> {DataState, RCDATAState, PLAINTEXTState} \<and> m_bufferedEndTagName tk = []"
    and lex: "lexer_inv 1 tk \<or> waiting_end_tag tk"
    using entry by (simp_all add: entry_inv_def)
  show ?thesis
    using lex
  proof
    assume l: "lexer_inv 1 tk"
    then show ?thesis
      using switch_open [OF src l tbl o] skip r by (simp add: nextToken_def resume_lexer_inv [OF l])
  next
    assume w: "waiting_end_tag tk"
    let ?tk = "(on_token (beginEndTag (m_bufferedEndTagName tk)) tk)\<lparr>m_bufferedEndTagName := []\<rparr>"
    have t: "tokenAsserts (m_token tk)" "tokenizerAsserts tk" "m_type (m_token tk) = Uninitialized"
      "m_bufferedEndTagName tk \<noteq> []"
      "m_state tk \<in> {DataState, BeforeAttributeNameState, SelfClosingStartTagState}"
      using w by (simp_all add: waiting_end_tag_def)
    have o': "opens ?tk" using o by (simp add: opens_def)
    show ?thesis
    proof (cases "m_state tk = DataState")
      case True
      then have "tk' = ?tk" using r by (simp add: nextToken_def resume_waiting [OF w])
      then show ?thesis using o' by simp
    next
      case False
      have "lexer_inv 1 ?tk"
        using t False by (auto simp: lexer_inv_def token_ops is_tag_def endTagNameStates_def)
      then show ?thesis
        using switch_open [of cfg ?tk b tk'] src tbl o' skip t(4) r False
        by (simp add: nextToken_def resume_waiting [OF w])
    qed
  qed
qed

text \<open>A scan of a source that is not closed sees no end-of-file token.\<close>

lemma scan_open:
  assumes "entry_inv cfg tk" "table_ok (entities cfg)" "opens tk" "scan cfg plugins script tk = Some (ts, tk')"
  shows "EndOfFile \<notin> m_type ` set ts \<and> opens tk'"
  using assms
proof (induction "potential tk" arbitrary: tk ts rule: less_induct)
  case less
  note tbl = less.prems(2)
  obtain b tk1 where n: "nextToken cfg tk = Some (b, tk1)" and call: "call_ok cfg (potential tk) b tk1"
    using nextToken_ok [OF less.prems(1) tbl] by blast
  have o: "opens tk1" by (rule nextToken_open [OF less.prems(1-3) n])
  show ?case
  proof (cases b)
    case False
    then show ?thesis using n less.prems(4) o by (subst (asm) scan.simps) auto
  next
    case True
    then have call: "call_ok cfg (potential tk) True tk1" using call by simp
    let ?tk = "processToken plugins script tk1"
    have h: "token_handled tk1 ?tk"
      using call by (intro processToken_handled) (auto simp: contextStates_def call_ok_def)
    note e = token_handled_ok [OF call h]
    obtain ts1 where s: "scan cfg plugins script ?tk = Some (ts1, tk')" "ts = m_token tk1 # ts1"
      using n True less.prems(4) by (subst (asm) scan.simps) (auto split: bind_splits)
    have "m_type (m_token ?tk) = Uninitialized" by (simp add: processToken_def Let_def)
    then have "opens ?tk" using e o by (simp add: opens_def)
    then have "EndOfFile \<notin> m_type ` set ts1 \<and> opens tk'"
      using e tbl s(1) by (intro less.hyps) simp_all
    then show ?thesis using o by (auto simp: s(2) opens_def)
  qed
qed

end
