(* ===== verification/HTMLTokenizerExamples.thy ===== *)
theory HTMLTokenizerExamples
  imports HTMLTokenizerEnd
begin

text \<open>
  A configuration and documents for the concrete instances: the table generated from
  \<open>exampleRows\<close>, ASCII case folding, and a tokenizer that has been given a whole document; and the
  equations that evaluate the tokenizer on them.
\<close>

definition exampleConfig :: config where
  "exampleConfig = \<lparr>entities = generateTable exampleRows,
     foldCase = (\<lambda>c. if isASCIIUpper c then c + 0x20 else c), DIVIDE_PAGES = False\<rparr>"

text \<open>A tokenizer in a state of its context, with a source that was appended and closed.\<close>

definition document :: "State \<Rightarrow> ustr \<Rightarrow> tokenizer" where
  "document st xs =
     (newTokenizer False)\<lparr>m_state := st,
       m_source := m_first (markEndOfFile (appendToEnd (mkSString xs) emptyInputStream))\<rparr>"

lemma exampleConfig_ok: "table_ok (entities exampleConfig)" "end_config exampleConfig"
proof -
  show t: "table_ok (entities exampleConfig)"
    using generateTable_ok [OF exampleRows_ok] by (simp add: exampleConfig_def)
  have "c + 0x20 \<noteq> 0" if "isASCIIUpper c" for c
    using toLowerCase_nonzero [OF that] by (simp add: toLowerCase_def)
  then have "foldCase_ok exampleConfig"
    by (auto simp: foldCase_ok_def exampleConfig_def isLetter_def isASCIIUpper_def)
  then show "end_config exampleConfig" using t by (simp add: end_config_def exampleConfig_def)
qed

lemma document_source:
  "m_records (markEndOfFile (appendToEnd (mkSString xs) emptyInputStream)) = []"
  by (simp add: markEndOfFile_def appendToEnd_def updLast_def emptyInputStream_def)

lemma session_document:
  assumes "st \<in> contextStates"
  shows "session cfg (document st xs) []"
proof -
  let ?tk = "(newTokenizer False)\<lparr>m_state := st\<rparr>"
  let ?i = "appendToEnd (mkSString xs) emptyInputStream"
  have e: "stream_of ?tk [] = emptyInputStream"
    by (simp add: newTokenizer_def reset_def emptyInputStream_def)
  have n: "\<not> haveSeenEndOfFile emptyInputStream" "\<not> haveSeenEndOfFile ?i" "m_records ?i = []"
    using appendToEnd_facts(3) [of emptyInputStream "mkSString xs"]
    by (simp_all add: stream_defs emptyInputStream_def appendToEnd_def updLast_def)
  have "session cfg (with_stream ?tk ?i) (m_records ?i)"
    using session.appended [OF session.start [OF assms, of cfg False], of "mkSString xs" ?i]
    unfolding e using n(1) by (simp add: waiting_ok_mkSString)
  then have "session cfg (with_stream ?tk ?i) []" using n(3) by simp
  moreover have "stream_of (with_stream ?tk ?i) [] = ?i" using n(3) by (cases ?i) simp
  ultimately have "session cfg (with_stream (with_stream ?tk ?i) (markEndOfFile ?i)) (m_records (markEndOfFile ?i))"
    using session.ended [of cfg "with_stream ?tk ?i" "[]" "markEndOfFile ?i"] n(2) by simp
  then show ?thesis by (simp add: document_def document_source)
qed

lemma document_facts:
  "m_state (document st xs) = st" "end_left (m_source (document st xs))"
  "chars (m_source (document st xs)) = xs @ [0]" "m_token (document st xs) = newToken"
proof -
  have i: "inputStream_ok emptyInputStream"
    by (simp add: stream_defs emptyInputStream_def)
  note a = appendToEnd_facts [OF i waiting_ok_mkSString, of xs]
  note m = markEndOfFile_facts [OF a(1)]
  show "m_state (document st xs) = st" "m_token (document st xs) = newToken"
    by (simp_all add: document_def newTokenizer_def reset_def)
  have "content emptyInputStream = []" by (simp add: stream_defs emptyInputStream_def)
  then have c: "chars (m_first (markEndOfFile (appendToEnd (mkSString xs) emptyInputStream))) = xs @ [0]"
    using m(2) a(2) document_source [of xs] by (simp add: content_def beforeInsertionPoint_def afterInsertionPoint_def)
  then show "chars (m_source (document st xs)) = xs @ [0]" by (simp add: document_def)
  have "m_closed (m_first (markEndOfFile (appendToEnd (mkSString xs) emptyInputStream)))"
    using m(3) document_source [of xs] by (simp add: haveSeenEndOfFile_def lastString_def isClosed_def)
  then show "end_left (m_source (document st xs))"
    using c m(1) by (simp add: end_left_def document_def inputStream_ok_def)
qed

lemma document_entry: "st \<in> contextStates \<Longrightarrow> entry_inv exampleConfig (document st xs)"
  using session_inv [OF exampleConfig_ok(1) session_document] by blast

lemma contextStates_simps [simp]:
  "DataState \<in> contextStates" "RCDATAState \<in> contextStates" "RAWTEXTState \<in> contextStates"
  "ScriptDataState \<in> contextStates" "PLAINTEXTState \<in> contextStates"
  by (simp_all add: contextStates_def)

section \<open>Evaluation\<close>

lemmas document_eval = document_def newTokenizer_def reset_def newToken_def token_clear_def
  markEndOfFile_def appendToEnd_def emptyInputStream_def updLast_def append_sstring_def emptySString_def
  emptySubstring_def mkSString_def mkSubstring_def append_sub_def resetCurrentChar_def close_def
  stringCursor_def ustr_def exampleConfig_def

lemmas source_eval = advance_def advanceFast_def advanceSlowCase_def advanceSubstring_def fastPath_def
  sub_step_def sub_deref_def sub_clear_def advance_line_def advanceSlowCase_line_def isClosed_def sstring_length_def
  isEmpty_def current_def lookAhead_def lookAheadIgnoringCase_def lookAheadInline_def
  lookAheadSlowCase_def numberOfCharactersConsumed_def sub_numberOfCharactersConsumed_def

lemmas macro_eval = peek.simps run.simps scan.simps nextToken_def resumeBufferedEndTag_def peek_source_def
  peeked_def skipLeadingNewLine_def skipPendingNewLine_def shouldTreatNullAsEndOfFileMarker_def
  source_advance_def shouldSkipNullCharacters_def preprocessor_advance_def ADVANCE_TO_def RETURN_def
  RECONSUME_IN_def haveBufferedCharacterToken_def onLookAhead_def step_of_def
  emitAndResumeIn_def emitAndReconsumeIn_def emitEndOfFile_def saveEndTagNameIfNeeded_def token_name_def
  processToken_def updateStateFor_def bufferCharacter_def

lemmas token_eval = beginStartTag_def beginEndTag_def ensureIsCharacterToken_def appendToCharacter_def
  appendToName_def addNewAttribute_def beginAttributeName_def endAttributeName_def beginAttributeValue_def
  endAttributeValue_def appendToAttributeName_def appendToAttributeValue_def updCurrentAttribute_def
  assertCurrentAttribute_def newAttribute_def makeEndOfFile_def

lemmas tag_eval = step_DataState_def step_TagOpenState_def step_TagNameState_def isASCIIUpper_def
  isASCIILower_def isTokenizerWhitespace_def

lemmas tokenizer_eval = document_eval source_eval macro_eval token_eval

end
