(* ===== verification/HTMLTokenizerDocuments.thy ===== *)
theory HTMLTokenizerDocuments
  imports HTMLTokenizerOpen HTMLTokenizerExamples
begin

text \<open>
  Documents that begin with text: how the tokenizer reads plain characters up to the first tag, from an
  arbitrary text, and what it does at \<^verbatim>\<open><p>\<close> and at an unfinished \<^verbatim>\<open><!d\<close>.
\<close>

section \<open>Reading plain characters\<close>

text \<open>The tokenizer is in front of the characters \<open>cs\<close>, with nothing pending.\<close>

definition at_chars :: "tokenizer \<Rightarrow> ustr \<Rightarrow> bool" where
  "at_chars tk cs \<longleftrightarrow> sstring_ok (m_source tk) \<and> chars (m_source tk) = cs \<and> pushedChars (m_source tk) = []
     \<and> \<not> m_skipNextNewLine tk \<and> \<not> m_skipLeadingNewLineForListing tk \<and> m_bufferedEndTagName tk = []"

definition plainText :: "ustr \<Rightarrow> bool" where
  "plainText cs \<longleftrightarrow> set cs \<inter> {0, ch_CR, ch_AMP, ch_LT} = {}"

lemma read_peek:
  assumes "at_chars tk (c # cs)" "c \<notin> {0, ch_CR}"
  obtains tk' where "peek_source tk = (Next c, tk')" "peek tk = Some (True, tk')" "same_lexer tk tk'" "at_chars tk' (c # cs)"
proof -
  note a = assms(1) [unfolded at_chars_def]
  have "peek_spec (m_closed (m_source tk)) (shouldSkipNullCharacters tk) (m_skipNextNewLine tk) (chars (m_source tk))
      = Some (c, False, c # cs)"
    using a assms(2) by (simp add: peek_spec_def)
  then obtain b tk' where pk: "peek tk = Some (b, tk')" and r: "peek_result tk (Some (c, False, c # cs)) (b, tk')"
    using peek_refines [of tk] a by (metis list.distinct(1) surj_pair)
  then have b: "b" "same_lexer tk tk'" "read_to (m_source tk) (m_source tk')" "chars (m_source tk') = c # cs"
    "m_nextInputCharacter tk' = c" "\<not> m_skipNextNewLine tk'"
    by (simp_all add: peek_result_def)
  have "pushedChars (m_source tk') = []" "sstring_ok (m_source tk')"
    using b(3) a by (auto simp: read_to_def)
  then have "at_chars tk' (c # cs)" using a b by (simp add: at_chars_def same_lexer_def)
  moreover have "peek_source tk = (Next c, tk')"
    using pk b a by (simp add: peek_source_def peeked_def ss.empty_iff)
  ultimately show thesis using that pk b by simp
qed

lemma read_advance:
  assumes "at_chars tk (x # c # cs)" "c \<notin> {0, ch_CR}"
  obtains tk' where "ADVANCE_TO st tk = (Next c, tk')" "same_lexer (tk\<lparr>m_state := st\<rparr>) tk'" "at_chars tk' (c # cs)"
proof -
  let ?tk = "source_advance (tk\<lparr>m_state := st\<rparr>)"
  note a = assms(1) [unfolded at_chars_def]
  obtain l where l: "?tk = tk\<lparr>m_state := st, m_source := advance (m_source tk), m_lineNumber := l\<rparr>"
  proof -
    obtain s l where "advance_line (m_source tk) (m_lineNumber tk) = (s, l)" by fastforce
    moreover from this have "s = advance (m_source tk)" by (metis advance_line_fst fst_conv)
    ultimately show thesis using that [of l] by (simp add: source_advance_def)
  qed
  have ne: "chars (m_source tk) \<noteq> []" using a by simp
  have "at_chars ?tk (c # cs)"
    using a ss.adv_ok [OF _ ne] ss.content_adv [OF _ ne] ss.back_adv [OF _ ne] by (simp add: at_chars_def l)
  from read_peek [OF this assms(2)] obtain tk' where tk': "peek ?tk = Some (True, tk')" "same_lexer ?tk tk'"
    "at_chars tk' (c # cs)" "peek_source ?tk = (Next c, tk')" by metis
  have "\<not> isEmpty (m_source ?tk)" "m_nextInputCharacter tk' = c"
    using tk'(1,4) by (auto simp: peek_source_def peeked_def RETURN_def split: if_splits)
  then have "ADVANCE_TO st tk = (Next c, tk')"
    using tk'(1) by (simp add: ADVANCE_TO_def preprocessor_advance_def peeked_def)
  moreover have "same_lexer (tk\<lparr>m_state := st\<rparr>) tk'" using tk'(2) by (simp add: l)
  ultimately show thesis using that tk'(3) by blast
qed

lemma bufferCharacter_at:
  "at_chars (bufferCharacter c tk) cs = at_chars tk cs" "m_state (bufferCharacter c tk) = m_state tk"
  "m_type (m_token (bufferCharacter c tk)) = Character"
  by (simp_all add: bufferCharacter_def at_chars_def ASSERT_tokenizer_def)

text \<open>Text is collected in a character token up to the next tag.\<close>

lemma run_text:
  assumes "plainText xs" "at_chars tk (xs @ ch_LT # cs)" "m_state tk = DataState" "xs = x # ys"
  shows "\<exists>tk'. run cfg x tk = Some (True, tk') \<and> at_chars tk' (ch_LT # cs) \<and> m_state tk' = DataState
    \<and> m_type (m_token tk') = Character"
  using assms
proof (induction xs arbitrary: tk x ys)
  case (Cons y zs)
  have x: "x \<notin> {0, ch_CR, ch_AMP, ch_LT}" "plainText zs" "x = y" "ys = zs"
    using Cons.prems(1,4) by (auto simp: plainText_def)
  let ?tk = "bufferCharacter x tk" and ?next = "hd (zs @ [ch_LT])"
  have "at_chars ?tk (x # ?next # tl (zs @ ch_LT # cs))"
    using Cons.prems(2) x(3) by (cases zs) (simp_all add: bufferCharacter_at)
  moreover have next_ok: "?next \<notin> {0, ch_CR}" using x(2) by (cases zs) (auto simp: plainText_def)
  ultimately obtain tk1 where tk1: "ADVANCE_TO DataState ?tk = (Next ?next, tk1)" "same_lexer (?tk\<lparr>m_state := DataState\<rparr>) tk1"
    "at_chars tk1 (?next # tl (zs @ ch_LT # cs))"
    using read_advance [where st = DataState] by metis
  have data: "m_state tk1 = DataState" "m_type (m_token tk1) = Character"
    using tk1(2) bufferCharacter_at(3) [of x tk] by (simp_all add: same_lexer_def)
  have "run cfg x tk = run cfg ?next tk1"
    using x(1) tk1(1) Cons.prems(3) by (subst run.simps) (simp add: step_of_def step_DataState_def)
  moreover have "\<exists>tk'. run cfg ?next tk1 = Some (True, tk') \<and> at_chars tk' (ch_LT # cs) \<and> m_state tk' = DataState
      \<and> m_type (m_token tk') = Character"
  proof (cases zs)
    case Nil
    then show ?thesis using data tk1(3)
      by (subst run.simps) (simp add: step_of_def step_DataState_def RETURN_def)
  next
    case (Cons z us)
    then show ?thesis using Cons.IH [OF x(2) _ data(1) Cons] tk1(3) by simp
  qed
  ultimately show ?case by simp
qed simp

lemma nextToken_at:
  assumes "at_chars tk (c # cs)" "c \<notin> {0, ch_CR}"
  obtains tk' where "nextToken cfg tk = run cfg c tk'" "same_lexer tk tk'" "at_chars tk' (c # cs)"
proof -
  obtain tk' where tk': "peek_source tk = (Next c, tk')" "same_lexer tk tk'" "at_chars tk' (c # cs)"
    using read_peek [OF assms] by metis
  moreover have "resumeBufferedEndTag tk = (False, tk)" "\<not> m_skipLeadingNewLineForListing tk'"
    using assms(1) tk'(3) by (simp_all add: resumeBufferedEndTag_def at_chars_def)
  ultimately show thesis using that by (simp add: nextToken_def skipLeadingNewLine_def)
qed

lemma nextToken_text:
  assumes "plainText xs" "xs \<noteq> []" "at_chars tk (xs @ ch_LT # cs)" "m_state tk = DataState"
  obtains tk' where "nextToken cfg tk = Some (True, tk')" "at_chars tk' (ch_LT # cs)" "m_state tk' = DataState"
    "m_type (m_token tk') = Character"
proof -
  obtain x ys where xs: "xs = x # ys" using assms(2) by (cases xs) auto
  then have "x \<notin> {0, ch_CR}" using assms(1) by (auto simp: plainText_def)
  then obtain tk1 where "nextToken cfg tk = run cfg x tk1" "same_lexer tk tk1" "at_chars tk1 (xs @ ch_LT # cs)"
    using nextToken_at [of tk x "ys @ ch_LT # cs"] assms(3) xs by auto
  then show thesis using run_text [OF assms(1), of tk1 cs x ys cfg] xs assms(4) that by (auto simp: same_lexer_def)
qed

text \<open>So a scan of text and a tag is the text and a scan from the tag.\<close>

lemma scan_text:
  assumes "plainText xs" "at_chars tk (xs @ ch_LT # cs)" "m_state tk = DataState"
    "m_type (m_token tk) = Uninitialized \<and> m_data (m_token tk) = []" "entry_inv cfg tk" "table_ok (entities cfg)" "scan cfg plugins script tk = Some (ts, tk')"
  obtains ts1 tk1 where "scan cfg plugins script tk1 = Some (ts1, tk')" "at_chars tk1 (ch_LT # cs)" "m_state tk1 = DataState"
    "m_type (m_token tk1) = Uninitialized \<and> m_data (m_token tk1) = []" "entry_inv cfg tk1" "EndOfFile \<in> m_type ` set ts \<longleftrightarrow> EndOfFile \<in> m_type ` set ts1"
proof (cases "xs = []")
  case True
  then show thesis using that [OF assms(7)] assms by simp
next
  case False
  obtain tk2 where n: "nextToken cfg tk = Some (True, tk2)" "at_chars tk2 (ch_LT # cs)" "m_state tk2 = DataState"
    "m_type (m_token tk2) = Character"
    using nextToken_text [OF assms(1) False assms(2,3)] by blast
  let ?tk = "processToken plugins script tk2"
  have tk: "?tk = cleared tk2" using n(4) by (simp add: processToken_def)
  obtain ts1 where s: "scan cfg plugins script ?tk = Some (ts1, tk')" "ts = m_token tk2 # ts1"
    using n(1) assms(7) by (subst (asm) scan.simps) (auto split: bind_splits)
  have "call_ok cfg (potential tk) True tk2" using nextToken_ok [OF assms(5,6)] n(1) by auto
  then have "entry_inv cfg ?tk" by (simp add: tk call_ok_def)
  then show thesis using that [OF s(1)] n s(2) tk by (auto simp: at_chars_def token_clear_def)
qed

lemma document_at: "at_chars (document st xs) (xs @ [0])"
proof -
  have "sstring_ok (m_source (document st xs))" using document_facts(2) [of st xs] by (simp add: end_left_def)
  moreover have "pushedChars emptySString = []" "sstring_ok emptySString"
    by (simp_all add: emptySString_def pushedChars_def sstring_ok_def emptySubstring_def sub_ok_def stringCursor_def)
  then have "pushedChars (m_source (document st xs)) = []"
    by (simp add: document_def markEndOfFile_def appendToEnd_def updLast_def emptyInputStream_def append_facts)
  ultimately show ?thesis by (simp add: at_chars_def document_facts) (simp add: document_def newTokenizer_def reset_def)
qed

text \<open>So the scan of a document of text and a tag is that of a tokenizer in front of the tag.\<close>

lemma scan_document:
  assumes "table_ok (entities cfg)" "plainText text" "xs @ [0] = text @ ch_LT # cs"
  obtains ts tk' ts1 tk1 where "scan cfg plugins script (document DataState xs) = Some (ts, tk')"
    "scan cfg plugins script tk1 = Some (ts1, tk')" "at_chars tk1 (ch_LT # cs)" "m_state tk1 = DataState"
    "m_type (m_token tk1) = Uninitialized \<and> m_data (m_token tk1) = []" "entry_inv cfg tk1"
    "EndOfFile \<in> m_type ` set ts \<longleftrightarrow> EndOfFile \<in> m_type ` set ts1"
proof -
  let ?doc = "document DataState xs"
  have at: "at_chars ?doc (text @ ch_LT # cs)" using document_at [of DataState xs] by (simp only: assms(3))
  have entry: "entry_inv cfg ?doc" using session_inv [OF assms(1) session_document] by simp
  obtain ts tk' where s: "scan cfg plugins script ?doc = Some (ts, tk')" using scan_ok [OF entry assms(1)] by blast
  have new: "m_type (m_token ?doc) = Uninitialized \<and> m_data (m_token ?doc) = []" "m_state ?doc = DataState"
    by (simp_all add: document_facts newToken_def token_clear_def)
  show thesis by (rule scan_text [OF assms(2) at new(2,1) entry assms(1) s]) (rule that [OF s])
qed

section \<open>A page tag and an unfinished declaration\<close>

text \<open>From the less-than sign, the character after it.\<close>

lemma run_tagOpen:
  assumes "at_chars tk (ch_LT # c # cs)" "m_state tk = DataState" "m_type (m_token tk) = Uninitialized" "c \<notin> {0, ch_CR}"
  obtains tk' where "nextToken cfg tk = run cfg c tk'" "at_chars tk' (c # cs)" "m_state tk' = TagOpenState"
    "m_token tk' = m_token tk"
proof -
  obtain tk1 where tk1: "nextToken cfg tk = run cfg ch_LT tk1" "same_lexer tk tk1" "at_chars tk1 (ch_LT # c # cs)"
    using nextToken_at [OF assms(1)] by auto
  obtain tk2 where tk2: "ADVANCE_TO TagOpenState tk1 = (Next c, tk2)" "same_lexer (tk1\<lparr>m_state := TagOpenState\<rparr>) tk2"
    "at_chars tk2 (c # cs)"
    using read_advance [OF tk1(3) assms(4)] by blast
  have "run cfg ch_LT tk1 = run cfg c tk2"
    using tk1(2) tk2(1) assms(2,3)
    by (subst run.simps) (simp add: same_lexer_def step_of_def step_DataState_def)
  then show thesis using that [of tk2] tk1 tk2 by (simp add: same_lexer_def)
qed

text \<open>\<^verbatim>\<open><p>\<close> is a start tag, and with \<open>DIVIDE_PAGES\<close> the source is replaced after it.\<close>

lemma nextToken_pageTag:
  assumes "at_chars tk (ustr ''<p>'' @ cs)" "m_state tk = DataState" "m_type (m_token tk) = Uninitialized"
    and "m_data (m_token tk) = []" "DIVIDE_PAGES cfg"
  obtains tk' where "nextToken cfg tk = Some (True, tk')" "divided cfg tk'"
proof -
  have chars: "ustr ''<p>'' @ cs = ch_LT # ch_p # ch_GT # cs" by (simp add: ustr_def)
  obtain tk1 where tk1: "nextToken cfg tk = run cfg ch_p tk1" "at_chars tk1 (ch_p # ch_GT # cs)" "m_state tk1 = TagOpenState"
    "m_token tk1 = m_token tk"
    using run_tagOpen [of tk ch_p "ch_GT # cs"] assms(1-3) chars by auto
  let ?tk = "on_token (beginStartTag ch_p) tk1"
  have at: "at_chars ?tk (ch_p # ch_GT # cs)" using tk1(2) by (simp add: at_chars_def)
  have "ch_GT \<notin> {0, ch_CR}" by simp
  from read_advance [OF at this, of TagNameState] obtain tk2 where tk2: "ADVANCE_TO TagNameState ?tk = (Next ch_GT, tk2)"
    "same_lexer (?tk\<lparr>m_state := TagNameState\<rparr>) tk2" by blast
  have p: "run cfg ch_p tk1 = run cfg ch_GT tk2"
    using tk1(3) tk2(1) by (subst run.simps) (simp add: step_of_def step_TagOpenState_def isASCIIUpper_def isASCIILower_def)
  have gt: "step_of (m_state tk2) cfg ch_GT tk2 = emitAndResumeIn cfg DataState tk2"
    using tk2(2) by (simp add: same_lexer_def step_of_def step_TagNameState_def isTokenizerWhitespace_def)
  have "isPageTag (m_token tk2)"
    using tk2(2) tk1(4) assms(4) by (simp add: same_lexer_def isPageTag_def beginStartTag_def)
  then obtain tk3 where tk3: "emitAndResumeIn cfg DataState tk2 = (Return True, tk3)" "divided cfg tk3"
    using dividePages_cases [of cfg DataState tk2] assms(5) by metis
  have "run cfg ch_GT tk2 = Some (True, tk3)" by (subst run.simps) (simp add: gt tk3(1))
  then show thesis using that [of tk3] tk1(1) tk3(2) p by simp
qed

lemma scan_divided:
  assumes "entry_inv cfg tk" "table_ok (entities cfg)" "scan cfg plugins script tk = Some (ts, tk')"
    and n: "nextToken cfg tk = Some (True, tk1)" and d: "divided cfg tk1"
  shows "EndOfFile \<notin> m_type ` set ts \<and> \<not> m_closed (m_source tk')"
proof -
  have call: "call_ok cfg (potential tk) True tk1" using nextToken_ok [OF assms(1,2)] n by auto
  let ?tk = "processToken plugins script tk1"
  have h: "token_handled tk1 ?tk" using call by (intro processToken_handled) (auto simp: contextStates_def call_ok_def)
  note e = token_handled_ok [OF call h]
  obtain ts1 where s: "scan cfg plugins script ?tk = Some (ts1, tk')" "ts = m_token tk1 # ts1"
    using n assms(3) by (subst (asm) scan.simps) (auto split: bind_splits)
  have "m_type (m_token ?tk) = Uninitialized" by (simp add: processToken_def Let_def)
  then have "opens ?tk" using e d by (simp add: opens_def divided_def)
  then show ?thesis using scan_open [of cfg ?tk] e assms(2) s d by (auto simp: opens_def divided_def isPageTag_def)
qed

text \<open>An unfinished declaration waits for characters that do not come.\<close>

lemma run_declaration:
  assumes "at_chars tk (d # cs)" "m_state tk = MarkupDeclarationOpenState" "m_type (m_token tk) = Uninitialized"
    and "d \<in> {ch_d, ch_D}" "length cs \<le> 5"
  obtains tk' where "run cfg d tk = Some (False, tk')" "m_state tk' = MarkupDeclarationOpenState" "at_chars tk' (d # cs)"
    "m_type (m_token tk') = Uninitialized"
proof -
  note spec = lookAheadInline_spec [of "m_source tk" doctypeString "equalsIgnoringCase (foldCase cfg)"]
  let ?r = "lookAheadIgnoringCase (foldCase cfg) (m_source tk) doctypeString"
  have "length doctypeString = 7" by (simp add: doctypeString_def ustr_def)
  then have r: "fst ?r = NotEnoughCharacters" "chars (snd ?r) = d # cs" "sstring_ok (snd ?r)" "pushedChars (snd ?r) = []"
    using spec assms(1,5) by (simp_all add: at_chars_def lookAheadIgnoringCase_def lookAhead_spec_def)
  let ?tk = "tk\<lparr>m_source := snd ?r\<rparr>"
  obtain s where s: "?r = (NotEnoughCharacters, s)" using r(1) by (metis prod.collapse)
  have "step_of (m_state tk) cfg d tk = (Return False, ?tk)"
    using assms(2-4)
    by (auto simp: step_of_def step_MarkupDeclarationOpenState_def onLookAhead_def RETURN_def haveBufferedCharacterToken_def
        s Let_def)
  then have "run cfg d tk = Some (False, ?tk)" by (subst run.simps) simp
  then show thesis using that [of ?tk] assms(1-3) r by (simp add: at_chars_def)
qed

lemma nextToken_declaration:
  assumes "at_chars tk (ustr ''<!'' @ d # cs)" "m_state tk = DataState" "m_type (m_token tk) = Uninitialized"
    and "d \<in> {ch_d, ch_D}" "length cs \<le> 5"
  obtains tk' tk'' where "nextToken cfg tk = Some (False, tk')" "m_state tk' = MarkupDeclarationOpenState"
    "nextToken cfg tk' = Some (False, tk'')"
proof -
  have chars: "ustr ''<!'' @ d # cs = ch_LT # ch_BANG # d # cs" by (simp add: ustr_def)
  have d: "d \<notin> {0, ch_CR}" using assms(4) by auto
  obtain tk1 where tk1: "nextToken cfg tk = run cfg ch_BANG tk1" "at_chars tk1 (ch_BANG # d # cs)" "m_state tk1 = TagOpenState"
    "m_token tk1 = m_token tk"
    using run_tagOpen [of tk ch_BANG "d # cs"] assms(1-3) chars by auto
  from read_advance [OF tk1(2) d, of MarkupDeclarationOpenState] obtain tk2 where
    tk2: "ADVANCE_TO MarkupDeclarationOpenState tk1 = (Next d, tk2)"
      "same_lexer (tk1\<lparr>m_state := MarkupDeclarationOpenState\<rparr>) tk2" "at_chars tk2 (d # cs)" by blast
  have 1: "run cfg ch_BANG tk1 = run cfg d tk2"
    using tk1(3) tk2(1) by (subst run.simps) (simp add: step_of_def step_TagOpenState_def)
  have "m_type (m_token tk2) = Uninitialized" "m_state tk2 = MarkupDeclarationOpenState"
    using tk1(4) tk2(2) assms(3) by (simp_all add: same_lexer_def)
  then obtain tk3 where tk3: "run cfg d tk2 = Some (False, tk3)" "m_state tk3 = MarkupDeclarationOpenState"
    "at_chars tk3 (d # cs)" "m_type (m_token tk3) = Uninitialized"
    using run_declaration [OF tk2(3) _ _ assms(4,5)] by blast
  obtain tk4 where tk4: "nextToken cfg tk3 = run cfg d tk4" "same_lexer tk3 tk4" "at_chars tk4 (d # cs)"
    using nextToken_at [OF tk3(3) d] by blast
  then obtain tk5 where "run cfg d tk4 = Some (False, tk5)"
    using run_declaration [OF tk4(3) _ _ assms(4,5)] tk3(2,4) by (auto simp: same_lexer_def)
  then show thesis using that [of tk3 tk5] 1 tk1(1) tk3(1,2) tk4(1) by simp
qed

end
