(* ===== verification/HTMLElements.thy ===== *)
theory HTMLElements
  imports WebKit_Prelude "HOL-Library.Monad_Syntax"
begin

text \<open>
  The elements the tree construction works with: an \<open>Element*\<close> is its address together with the
  immutable part of the object, the namespace and the local name of its \<open>QualifiedName\<close>
  (\<^verbatim>\<open>WebCore/dom/QualifiedName.h\<close>), so that equality of \<open>element\<close>s is equality of pointers.
  \<open>hasTagName\<close> and \<open>hasLocalName\<close> are those of \<^verbatim>\<open>WebCore/dom/Element.h\<close> and \<^verbatim>\<open>WebCore/dom/Node.h\<close>.
\<close>

section \<open>Names\<close>

datatype namespace = NoNamespace | XHTML | MathML | SVG | XLink | XML | XMLNS

record element =
  nodeAddress :: nat
  namespaceURI :: namespace
  localName :: ustr

definition hasLocalName :: "element \<Rightarrow> ustr \<Rightarrow> bool" where
  "hasLocalName e n \<longleftrightarrow> localName e = n"

text \<open>
  A \<open>QualifiedName\<close>, the name of an attribute; \<open>matches\<close> ignores the prefix.
\<close>

record qualifiedName =
  qn_prefix :: ustr
  qn_localName :: ustr
  qn_namespace :: namespace

definition qn_matches :: "qualifiedName \<Rightarrow> qualifiedName \<Rightarrow> bool" where
  "qn_matches n m \<longleftrightarrow> qn_localName n = qn_localName m \<and> qn_namespace n = qn_namespace m"

definition plainName :: "ustr \<Rightarrow> qualifiedName" where
  "plainName n = \<lparr>qn_prefix = [], qn_localName = n, qn_namespace = NoNamespace\<rparr>"

lemma plainName_simps [simp]:
  "qn_localName (plainName n) = n" "qn_namespace (plainName n) = NoNamespace"
  "plainName n = plainName m \<longleftrightarrow> n = m" "qn_matches (plainName n) (plainName m) \<longleftrightarrow> n = m"
  by (auto simp: plainName_def qn_matches_def)

text \<open>The tags of \<open>HTMLNames\<close>, of \<open>MathMLNames\<close> and of \<open>SVGNames\<close>.\<close>

definition hasQName :: "element \<Rightarrow> namespace \<Rightarrow> string \<Rightarrow> bool" where
  "hasQName e ns n \<longleftrightarrow> namespaceURI e = ns \<and> localName e = ustr n"

abbreviation hasTagName :: "element \<Rightarrow> string \<Rightarrow> bool" where
  "hasTagName e n \<equiv> hasQName e XHTML n"

lemma of_char_word_inject:
  "(of_nat (of_char c) :: uchar) = of_nat (of_char d) \<longleftrightarrow> c = d"
proof
  assume eq: "(of_nat (of_char c) :: uchar) = of_nat (of_char d)"
  have "of_char x < (65536 :: nat)" for x :: char
    using nat_of_char_less_256 [of x] by linarith
  then have "take_bit 16 (of_char x :: nat) = of_char x" for x :: char
    by (simp add: take_bit_nat_eq_self)
  then show "c = d" using eq by (simp add: word_of_nat_eq_iff)
qed simp

lemma ustr_inject [simp]: "ustr s = ustr t \<longleftrightarrow> s = t"
proof (induction s arbitrary: t)
  case (Cons c s)
  then show ?case by (cases t) (simp_all add: ustr_def of_char_word_inject)
qed (simp add: ustr_def eq_commute)

lemma hasQName_unique: "hasQName e ns n \<Longrightarrow> hasQName e ns' n' \<longleftrightarrow> ns' = ns \<and> n' = n"
  by (auto simp: hasQName_def)

end
