(* ===== verification/HTMLElementStack.thy ===== *)
theory HTMLElementStack
  imports HTMLElements "HOL-Library.Multiset"
begin

text \<open>
  \<^verbatim>\<open>WebCore/html/parser/HTMLElementStack.cpp\<close> and \<^verbatim>\<open>.h\<close>: the stack of open elements.  The chain of
  \<open>ElementRecord\<close>s from \<open>m_top\<close> is a list, top first; a record is an address (the code compares
  \<open>ElementRecord*\<close>) and the element it holds.  The calls of \<open>beginParsingChildren\<close> and
  \<open>finishParsingChildren\<close> on the elements are logged in \<open>parsingCalls\<close>; \<open>stackAsserts\<close> is the ghost
  of the debug build, true as long as every \<open>ASSERT\<close> holds.  An operation is \<open>None\<close> where the code
  follows a null pointer.
\<close>

section \<open>Kinds of elements\<close>

definition isNumberedHeaderElement :: "element \<Rightarrow> bool" where
  "isNumberedHeaderElement e \<longleftrightarrow>
     hasTagName e ''h1'' \<or> hasTagName e ''h2'' \<or> hasTagName e ''h3''
     \<or> hasTagName e ''h4'' \<or> hasTagName e ''h5'' \<or> hasTagName e ''h6''"

definition isScopeMarker :: "element \<Rightarrow> bool" where
  "isScopeMarker e \<longleftrightarrow>
     hasTagName e ''applet'' \<or> hasTagName e ''caption'' \<or> hasTagName e ''html''
     \<or> hasTagName e ''marquee'' \<or> hasTagName e ''object'' \<or> hasTagName e ''table''
     \<or> hasTagName e ''td'' \<or> hasTagName e ''th''
     \<or> hasQName e MathML ''mi'' \<or> hasQName e MathML ''mo'' \<or> hasQName e MathML ''mn''
     \<or> hasQName e MathML ''ms'' \<or> hasQName e MathML ''mtext''
     \<or> hasQName e MathML ''annotation-xml''
     \<or> hasQName e SVG ''foreignObject'' \<or> hasQName e SVG ''desc'' \<or> hasQName e SVG ''title''"

definition isListItemScopeMarker :: "element \<Rightarrow> bool" where
  "isListItemScopeMarker e \<longleftrightarrow> isScopeMarker e \<or> hasTagName e ''ol'' \<or> hasTagName e ''ul''"

definition isTableScopeMarker :: "element \<Rightarrow> bool" where
  "isTableScopeMarker e \<longleftrightarrow> hasTagName e ''table'' \<or> hasTagName e ''html''"

definition isTableBodyScopeMarker :: "element \<Rightarrow> bool" where
  "isTableBodyScopeMarker e \<longleftrightarrow>
     hasTagName e ''tbody'' \<or> hasTagName e ''tfoot'' \<or> hasTagName e ''thead''
     \<or> hasTagName e ''html''"

definition isTableRowScopeMarker :: "element \<Rightarrow> bool" where
  "isTableRowScopeMarker e \<longleftrightarrow> hasTagName e ''tr'' \<or> hasTagName e ''html''"

definition isForeignContentScopeMarker :: "element \<Rightarrow> bool" where
  "isForeignContentScopeMarker e \<longleftrightarrow>
     hasQName e MathML ''mi'' \<or> hasQName e MathML ''mo'' \<or> hasQName e MathML ''mn''
     \<or> hasQName e MathML ''ms'' \<or> hasQName e MathML ''mtext''
     \<or> hasQName e SVG ''foreignObject'' \<or> hasQName e SVG ''desc'' \<or> hasQName e SVG ''title''
     \<or> namespaceURI e = XHTML"

definition isButtonScopeMarker :: "element \<Rightarrow> bool" where
  "isButtonScopeMarker e \<longleftrightarrow> isScopeMarker e \<or> hasTagName e ''button''"

definition isSelectScopeMarker :: "element \<Rightarrow> bool" where
  "isSelectScopeMarker e \<longleftrightarrow> \<not> hasTagName e ''optgroup'' \<and> \<not> hasTagName e ''option''"

section \<open>The stack\<close>

record elementRecord =
  recordAddress :: nat
  m_element :: element

datatype parsingCall = BeginParsingChildren element | FinishParsingChildren element

record elementStack =
  m_top :: "elementRecord list"
  m_htmlElement :: "element option"
  m_headElement :: "element option"
  m_bodyElement :: "element option"
  nextRecord :: nat
  parsingCalls :: "parsingCall list"
  stackAsserts :: bool

definition emptyElementStack :: elementStack where
  "emptyElementStack =
     \<lparr>m_top = [], m_htmlElement = None, m_headElement = None, m_bodyElement = None,
      nextRecord = 0, parsingCalls = [], stackAsserts = True\<rparr>"

abbreviation elements :: "elementStack \<Rightarrow> element list" where
  "elements s \<equiv> map m_element (m_top s)"

definition ASSERT_stack :: "bool \<Rightarrow> elementStack \<Rightarrow> elementStack" where
  "ASSERT_stack b s = (if b then s else s\<lparr>stackAsserts := False\<rparr>)"

definition callParsing :: "parsingCall \<Rightarrow> elementStack \<Rightarrow> elementStack" where
  "callParsing c s = s\<lparr>parsingCalls := parsingCalls s @ [c]\<rparr>"

definition topElement :: "elementStack \<Rightarrow> element option" where
  "topElement s = (case m_top s of [] \<Rightarrow> None | r # _ \<Rightarrow> Some (m_element r))"

definition topRecord :: "elementStack \<Rightarrow> elementRecord option" where
  "topRecord s = (case m_top s of [] \<Rightarrow> None | r # _ \<Rightarrow> Some r)"

definition oneBelowTop :: "elementStack \<Rightarrow> element option" where
  "oneBelowTop s = (case m_top s of _ # r # _ \<Rightarrow> Some (m_element r) | _ \<Rightarrow> None)"

definition bottomElement :: "elementStack \<Rightarrow> element option" where
  "bottomElement s = m_htmlElement s"

definition hasOnlyOneElement :: "elementStack \<Rightarrow> bool option" where
  "hasOnlyOneElement s = (case m_top s of [] \<Rightarrow> None | r # rs \<Rightarrow> Some (rs = []))"

definition secondElementIsHTMLBodyElement :: "elementStack \<Rightarrow> bool" where
  "secondElementIsHTMLBodyElement s \<longleftrightarrow> m_bodyElement s \<noteq> None"

subsection \<open>Pushing\<close>

definition newRecord :: "element \<Rightarrow> elementStack \<Rightarrow> elementRecord" where
  "newRecord e s = \<lparr>recordAddress = nextRecord s, m_element = e\<rparr>"

definition pushCommon :: "element \<Rightarrow> elementStack \<Rightarrow> elementStack" where
  "pushCommon e s =
     (let s = ASSERT_stack (m_htmlElement s \<noteq> None) s;
          s = s\<lparr>m_top := newRecord e s # m_top s, nextRecord := Suc (nextRecord s)\<rparr>
      in callParsing (BeginParsingChildren e) s)"

definition pushHTMLHtmlElement :: "element \<Rightarrow> elementStack \<Rightarrow> elementStack" where
  "pushHTMLHtmlElement e s =
     (let s = ASSERT_stack (m_top s = []) s;
          s = ASSERT_stack (hasTagName e ''html'') s;
          s = ASSERT_stack (m_htmlElement s = None) s
      in pushCommon e (s\<lparr>m_htmlElement := Some e\<rparr>))"

definition pushHTMLHeadElement :: "element \<Rightarrow> elementStack \<Rightarrow> elementStack" where
  "pushHTMLHeadElement e s =
     (let s = ASSERT_stack (hasTagName e ''head'') s;
          s = ASSERT_stack (m_headElement s = None) s
      in pushCommon e (s\<lparr>m_headElement := Some e\<rparr>))"

definition pushHTMLBodyElement :: "element \<Rightarrow> elementStack \<Rightarrow> elementStack" where
  "pushHTMLBodyElement e s =
     (let s = ASSERT_stack (hasTagName e ''body'') s;
          s = ASSERT_stack (m_bodyElement s = None) s
      in pushCommon e (s\<lparr>m_bodyElement := Some e\<rparr>))"

definition push_element :: "element \<Rightarrow> elementStack \<Rightarrow> elementStack" where
  "push_element e s =
     (let s = ASSERT_stack (\<not> hasTagName e ''html'') s;
          s = ASSERT_stack (\<not> hasTagName e ''head'') s;
          s = ASSERT_stack (\<not> hasTagName e ''body'') s;
          s = ASSERT_stack (m_htmlElement s \<noteq> None) s
      in pushCommon e s)"

text \<open>The loop looks for the record above \<open>recordBelow\<close>; \<open>None\<close> is its end.\<close>

fun insertAbove_loop :: "elementRecord \<Rightarrow> nat \<Rightarrow> elementRecord list \<Rightarrow> elementRecord list option" where
  "insertAbove_loop new below (r # n # rs) =
     (if recordAddress n = below then Some (r # new # n # rs)
      else map_option ((#) r) (insertAbove_loop new below (n # rs)))"
| "insertAbove_loop new below _ = None"

definition insertAbove :: "element \<Rightarrow> nat \<Rightarrow> elementStack \<Rightarrow> elementStack" where
  "insertAbove e recordBelow s =
     (let s = ASSERT_stack (m_top s \<noteq> []) s;
          s = ASSERT_stack (\<not> hasTagName e ''html'') s;
          s = ASSERT_stack (\<not> hasTagName e ''head'') s;
          s = ASSERT_stack (\<not> hasTagName e ''body'') s;
          s = ASSERT_stack (m_htmlElement s \<noteq> None) s
      in if map_option recordAddress (topRecord s) = Some recordBelow then push_element e s
         else case insertAbove_loop (newRecord e s) recordBelow (m_top s) of
                Some rs \<Rightarrow> callParsing (BeginParsingChildren e) (s\<lparr>m_top := rs, nextRecord := Suc (nextRecord s)\<rparr>)
              | None \<Rightarrow> ASSERT_stack False s)"

subsection \<open>Popping\<close>

definition popCommon :: "elementStack \<Rightarrow> elementStack option" where
  "popCommon s =
     (case m_top s of
        [] \<Rightarrow> None
      | r # rs \<Rightarrow>
          Some (let e = m_element r;
                    s = ASSERT_stack (\<not> hasTagName e ''html'') s;
                    s = ASSERT_stack (\<not> hasTagName e ''head'' \<or> m_headElement s = None) s;
                    s = ASSERT_stack (\<not> hasTagName e ''body'' \<or> m_bodyElement s = None) s
                in (callParsing (FinishParsingChildren e) s)\<lparr>m_top := rs\<rparr>))"

definition popHTMLHeadElement :: "elementStack \<Rightarrow> elementStack option" where
  "popHTMLHeadElement s =
     do { e \<leftarrow> topElement s;
          popCommon ((ASSERT_stack (m_headElement s = Some e) s)\<lparr>m_headElement := None\<rparr>) }"

definition popHTMLBodyElement :: "elementStack \<Rightarrow> elementStack option" where
  "popHTMLBodyElement s =
     do { e \<leftarrow> topElement s;
          popCommon ((ASSERT_stack (m_bodyElement s = Some e) s)\<lparr>m_bodyElement := None\<rparr>) }"

definition pop_element :: "elementStack \<Rightarrow> elementStack option" where
  "pop_element s =
     do { e \<leftarrow> topElement s; popCommon (ASSERT_stack (\<not> hasTagName e ''head'') s) }"

lemma popCommon_length: "popCommon s = Some s' \<Longrightarrow> length (m_top s) = Suc (length (m_top s'))"
  by (auto simp: popCommon_def ASSERT_stack_def callParsing_def Let_def split: list.splits)

lemma m_top_ASSERT_stack [simp]: "m_top (ASSERT_stack b s) = m_top s"
  by (simp add: ASSERT_stack_def)

lemma pop_element_length: "pop_element s = Some s' \<Longrightarrow> length (m_top s) = Suc (length (m_top s'))"
  by (auto simp: pop_element_def bind_eq_Some_conv dest: popCommon_length)

text \<open>The loops \<open>while (!stop(top())) pop();\<close>.\<close>

function popLoop :: "(element \<Rightarrow> bool) \<Rightarrow> elementStack \<Rightarrow> elementStack option" where
  "popLoop stop s =
     (case topElement s of
        None \<Rightarrow> None
      | Some e \<Rightarrow>
          if stop e then Some s
          else case pop_element s of None \<Rightarrow> None | Some s' \<Rightarrow> popLoop stop s')"
  by pat_completeness auto
termination
  by (relation "measure (\<lambda>(stop, s). length (m_top s))") (auto dest: pop_element_length)

declare popLoop.simps [simp del]

definition popUntil :: "ustr \<Rightarrow> elementStack \<Rightarrow> elementStack option" where
  "popUntil tagName = popLoop (\<lambda>e. hasLocalName e tagName)"

definition popUntilPopped :: "ustr \<Rightarrow> elementStack \<Rightarrow> elementStack option" where
  "popUntilPopped tagName s = do { s \<leftarrow> popUntil tagName s; pop_element s }"

definition popUntilNumberedHeaderElementPopped :: "elementStack \<Rightarrow> elementStack option" where
  "popUntilNumberedHeaderElementPopped s = do { s \<leftarrow> popLoop isNumberedHeaderElement s; pop_element s }"

definition popUntil_element :: "element \<Rightarrow> elementStack \<Rightarrow> elementStack option" where
  "popUntil_element e = popLoop (\<lambda>t. t = e)"

definition popUntilPopped_element :: "element \<Rightarrow> elementStack \<Rightarrow> elementStack option" where
  "popUntilPopped_element e s = do { s \<leftarrow> popUntil_element e s; pop_element s }"

definition popUntilTableScopeMarker :: "elementStack \<Rightarrow> elementStack option" where
  "popUntilTableScopeMarker = popLoop isTableScopeMarker"

definition popUntilTableBodyScopeMarker :: "elementStack \<Rightarrow> elementStack option" where
  "popUntilTableBodyScopeMarker = popLoop isTableBodyScopeMarker"

definition popUntilTableRowScopeMarker :: "elementStack \<Rightarrow> elementStack option" where
  "popUntilTableRowScopeMarker = popLoop isTableRowScopeMarker"

definition popUntilForeignContentScopeMarker :: "elementStack \<Rightarrow> elementStack option" where
  "popUntilForeignContentScopeMarker = popLoop isForeignContentScopeMarker"

function popAll_loop :: "elementStack \<Rightarrow> elementStack" where
  "popAll_loop s =
     (case m_top s of
        [] \<Rightarrow> s
      | r # rs \<Rightarrow> popAll_loop ((callParsing (FinishParsingChildren (m_element r)) s)\<lparr>m_top := rs\<rparr>))"
  by pat_completeness auto
termination
  by (relation "measure (length \<circ> m_top)") auto

declare popAll_loop.simps [simp del]

definition popAll :: "elementStack \<Rightarrow> elementStack" where
  "popAll s = popAll_loop (s\<lparr>m_htmlElement := None, m_headElement := None, m_bodyElement := None\<rparr>)"

subsection \<open>Removing\<close>

text \<open>The loop reads \<open>pos->next()->element()\<close>: past the last record that is a null pointer.\<close>

fun removeNonTop_loop :: "element \<Rightarrow> elementRecord list \<Rightarrow> elementRecord list option" where
  "removeNonTop_loop e (r # n # rs) =
     (if m_element n = e then Some (r # rs) else map_option ((#) r) (removeNonTop_loop e (n # rs)))"
| "removeNonTop_loop e _ = None"

definition removeNonTopCommon :: "element \<Rightarrow> elementStack \<Rightarrow> elementStack option" where
  "removeNonTopCommon e s =
     do { t \<leftarrow> topElement s;
          let s = ASSERT_stack (\<not> hasTagName e ''html'') s;
          let s = ASSERT_stack (\<not> hasTagName e ''body'') s;
          let s = ASSERT_stack (t \<noteq> e) s;
          rs \<leftarrow> removeNonTop_loop e (m_top s);
          Some ((callParsing (FinishParsingChildren e) s)\<lparr>m_top := rs\<rparr>) }"

definition removeHTMLHeadElement :: "element \<Rightarrow> elementStack \<Rightarrow> elementStack option" where
  "removeHTMLHeadElement e s =
     do { t \<leftarrow> topElement s;
          let s = ASSERT_stack (m_headElement s = Some e) s;
          if t = e then popHTMLHeadElement s
          else removeNonTopCommon e (s\<lparr>m_headElement := None\<rparr>) }"

definition remove_element :: "element \<Rightarrow> elementStack \<Rightarrow> elementStack option" where
  "remove_element e s =
     do { t \<leftarrow> topElement s;
          let s = ASSERT_stack (\<not> hasTagName e ''head'') s;
          if t = e then pop_element s else removeNonTopCommon e s }"

text \<open>\<open>ElementRecord::replaceElement\<close> on the record with the given address.\<close>

definition replaceElement :: "nat \<Rightarrow> element \<Rightarrow> elementStack \<Rightarrow> elementStack" where
  "replaceElement a e s =
     s\<lparr>m_top := map (\<lambda>r. if recordAddress r = a then r\<lparr>m_element := e\<rparr> else r) (m_top s)\<rparr>"

subsection \<open>Searching\<close>

definition find_record :: "element \<Rightarrow> elementStack \<Rightarrow> elementRecord option" where
  "find_record e s = find (\<lambda>r. m_element r = e) (m_top s)"

definition topmost :: "ustr \<Rightarrow> elementStack \<Rightarrow> elementRecord option" where
  "topmost tagName s = find (\<lambda>r. hasLocalName (m_element r) tagName) (m_top s)"

definition contains_element :: "element \<Rightarrow> elementStack \<Rightarrow> bool" where
  "contains_element e s \<longleftrightarrow> find_record e s \<noteq> None"

definition contains_name :: "ustr \<Rightarrow> elementStack \<Rightarrow> bool" where
  "contains_name tagName s \<longleftrightarrow> topmost tagName s \<noteq> None"

text \<open>\<open>next()\<close> of the record with the given address, and \<open>isAbove\<close>.\<close>

definition recordsBelow :: "nat \<Rightarrow> elementStack \<Rightarrow> elementRecord list" where
  "recordsBelow a s = tl (dropWhile (\<lambda>r. recordAddress r \<noteq> a) (m_top s))"

definition isAbove :: "nat \<Rightarrow> nat \<Rightarrow> elementStack \<Rightarrow> bool" where
  "isAbove a other s \<longleftrightarrow> list_ex (\<lambda>r. recordAddress r = other) (recordsBelow a s)"

text \<open>
  The scope queries walk down the stack.  \<open>None\<close> is the end of the stack, an
  \<open>ASSERT_NOT_REACHED\<close>.
\<close>

fun scopeLoop :: "(element \<Rightarrow> bool) \<Rightarrow> (element \<Rightarrow> bool) \<Rightarrow> element list \<Rightarrow> bool option" where
  "scopeLoop target marker [] = None"
| "scopeLoop target marker (e # es) =
     (if target e then Some True else if marker e then Some False else scopeLoop target marker es)"

definition inScopeCommon :: "(element \<Rightarrow> bool) \<Rightarrow> ustr \<Rightarrow> elementStack \<Rightarrow> bool" where
  "inScopeCommon marker targetTag s \<longleftrightarrow>
     scopeLoop (\<lambda>e. hasLocalName e targetTag) marker (elements s) = Some True"

definition inScope_element :: "element \<Rightarrow> elementStack \<Rightarrow> bool" where
  "inScope_element e s \<longleftrightarrow> scopeLoop (\<lambda>t. t = e) isScopeMarker (elements s) = Some True"

definition inScope :: "ustr \<Rightarrow> elementStack \<Rightarrow> bool" where
  "inScope = inScopeCommon isScopeMarker"

definition inListItemScope :: "ustr \<Rightarrow> elementStack \<Rightarrow> bool" where
  "inListItemScope = inScopeCommon isListItemScopeMarker"

definition inTableScope :: "ustr \<Rightarrow> elementStack \<Rightarrow> bool" where
  "inTableScope = inScopeCommon isTableScopeMarker"

definition inButtonScope :: "ustr \<Rightarrow> elementStack \<Rightarrow> bool" where
  "inButtonScope = inScopeCommon isButtonScopeMarker"

definition inSelectScope :: "ustr \<Rightarrow> elementStack \<Rightarrow> bool" where
  "inSelectScope = inScopeCommon isSelectScopeMarker"

definition hasNumberedHeaderElementInScope :: "elementStack \<Rightarrow> bool" where
  "hasNumberedHeaderElementInScope s \<longleftrightarrow>
     scopeLoop isNumberedHeaderElement isScopeMarker (elements s) = Some True"

fun onlyHTMLLoop :: "element list \<Rightarrow> bool option" where
  "onlyHTMLLoop [] = None"
| "onlyHTMLLoop (e # es) =
     (if namespaceURI e \<noteq> XHTML then Some False else if isScopeMarker e then Some True else onlyHTMLLoop es)"

text \<open>Here the code answers true after the \<open>ASSERT_NOT_REACHED\<close>.\<close>

definition hasOnlyHTMLElementsInScope :: "elementStack \<Rightarrow> bool" where
  "hasOnlyHTMLElementsInScope s \<longleftrightarrow> onlyHTMLLoop (elements s) \<noteq> Some False"

section \<open>What the operations do\<close>

lemma ASSERT_stack_simps [simp]:
  "m_htmlElement (ASSERT_stack b s) = m_htmlElement s" "m_headElement (ASSERT_stack b s) = m_headElement s"
  "m_bodyElement (ASSERT_stack b s) = m_bodyElement s" "nextRecord (ASSERT_stack b s) = nextRecord s"
  "parsingCalls (ASSERT_stack b s) = parsingCalls s"
  "stackAsserts (ASSERT_stack b s) \<longleftrightarrow> b \<and> stackAsserts s"
  "newRecord e (ASSERT_stack b s) = newRecord e s" "topElement (ASSERT_stack b s) = topElement s"
  "topRecord (ASSERT_stack b s) = topRecord s"
  by (simp_all add: ASSERT_stack_def newRecord_def topElement_def topRecord_def)

lemma callParsing_simps [simp]:
  "m_top (callParsing c s) = m_top s" "m_htmlElement (callParsing c s) = m_htmlElement s"
  "m_headElement (callParsing c s) = m_headElement s" "m_bodyElement (callParsing c s) = m_bodyElement s"
  "nextRecord (callParsing c s) = nextRecord s" "stackAsserts (callParsing c s) = stackAsserts s"
  "parsingCalls (callParsing c s) = parsingCalls s @ [c]"
  by (simp_all add: callParsing_def)

text \<open>Popping a prefix of the stack: what every \<open>pop\<close> and every loop of them comes to.\<close>

definition poppable :: "elementStack \<Rightarrow> element \<Rightarrow> bool" where
  "poppable s e \<longleftrightarrow> \<not> hasTagName e ''html'' \<and> \<not> hasTagName e ''head''
     \<and> (\<not> hasTagName e ''body'' \<or> m_bodyElement s = None)"

definition popped :: "elementRecord list \<Rightarrow> elementStack \<Rightarrow> elementStack" where
  "popped rs s =
     s\<lparr>m_top := drop (length rs) (m_top s),
       parsingCalls := parsingCalls s @ map (FinishParsingChildren \<circ> m_element) rs,
       stackAsserts := stackAsserts s \<and> list_all (poppable s \<circ> m_element) rs\<rparr>"

lemma popped_simps [simp]:
  "m_top (popped rs s) = drop (length rs) (m_top s)" "m_htmlElement (popped rs s) = m_htmlElement s"
  "m_headElement (popped rs s) = m_headElement s" "m_bodyElement (popped rs s) = m_bodyElement s"
  "nextRecord (popped rs s) = nextRecord s"
  "parsingCalls (popped rs s) = parsingCalls s @ map (FinishParsingChildren \<circ> m_element) rs"
  "stackAsserts (popped rs s) \<longleftrightarrow> stackAsserts s \<and> list_all (poppable s \<circ> m_element) rs"
  "poppable (popped rs s) = poppable s"
  by (simp_all add: popped_def poppable_def fun_eq_iff)

lemma popped_Nil [simp]: "popped [] s = s"
  by (simp add: popped_def)

lemma popped_popped: "popped rs' (popped rs s) = popped (rs @ rs') s"
  by (rule elementStack.equality) (simp_all add: add.commute)

lemma pop_element_eq:
  "pop_element s = (case m_top s of [] \<Rightarrow> None | r # _ \<Rightarrow> Some (popped [r] s))"
  by (auto simp: pop_element_def popCommon_def topElement_def popped_def poppable_def callParsing_def
      ASSERT_stack_def Let_def split: list.splits)

lemma popLoop_eq:
  "popLoop stop s =
     (let rs = takeWhile (\<lambda>r. \<not> stop (m_element r)) (m_top s)
      in if rs = m_top s then None else Some (popped rs s))"
proof (induction stop s rule: popLoop.induct)
  case (1 stop s)
  show ?case
  proof (cases "m_top s")
    case Nil
    then show ?thesis by (simp add: popLoop.simps [of stop s] topElement_def)
  next
    case (Cons r rs)
    then show ?thesis
      using 1 by (simp add: popLoop.simps [of stop s] topElement_def pop_element_eq Let_def popped_popped)
  qed
qed

lemma popAll_eq:
  "popAll s = s\<lparr>m_top := [], m_htmlElement := None, m_headElement := None, m_bodyElement := None,
     parsingCalls := parsingCalls s @ map (FinishParsingChildren \<circ> m_element) (m_top s)\<rparr>"
proof -
  have "popAll_loop t = t\<lparr>m_top := [],
      parsingCalls := parsingCalls t @ map (FinishParsingChildren \<circ> m_element) (m_top t)\<rparr>" for t
  proof (induction t rule: popAll_loop.induct)
    case (1 t)
    then show ?case
      by (cases "m_top t") (simp_all add: popAll_loop.simps [of t] callParsing_def)
  qed
  then show ?thesis by (simp add: popAll_def)
qed

lemma removeNonTop_loop_eq:
  "removeNonTop_loop e (r # rs) =
     (if e \<in> m_element ` set rs
      then Some (r # takeWhile (\<lambda>n. m_element n \<noteq> e) rs @ tl (dropWhile (\<lambda>n. m_element n \<noteq> e) rs))
      else None)"
  by (induction rs arbitrary: r) auto

lemma insertAbove_loop_eq:
  "insertAbove_loop new a (r # rs) =
     (if a \<in> recordAddress ` set rs
      then Some (r # takeWhile (\<lambda>n. recordAddress n \<noteq> a) rs @ new # dropWhile (\<lambda>n. recordAddress n \<noteq> a) rs)
      else None)"
  by (induction rs arbitrary: r) auto

end
