(* ===== verification/HTMLElementScopes.thy ===== *)
theory HTMLElementScopes
  imports HTMLElementStack
begin

text \<open>
  The invariant of the stack of open elements, its preservation in every sequence of operations, the
  account of the parsing calls, and the scopes: \<open>scope\<close> is the contract every scope marker meets (the
  html element is one), \<open>inner_scope\<close> that of a scope within another.
\<close>

section \<open>The invariant\<close>

text \<open>
  The html element is at the bottom and nowhere else; an element with the tag head or body is the one
  the stack remembers, and conversely.
\<close>

definition remembered :: "string \<Rightarrow> element option \<Rightarrow> element list \<Rightarrow> bool" where
  "remembered n m es \<longleftrightarrow> set_option m = {e \<in> set es. hasTagName e n}"

definition stack_ok :: "elementStack \<Rightarrow> bool" where
  "stack_ok s \<longleftrightarrow>
     distinct (elements s) \<and> distinct (map recordAddress (m_top s))
     \<and> (\<forall>r \<in> set (m_top s). recordAddress r < nextRecord s)
     \<and> remembered ''html'' (m_htmlElement s) (elements s)
     \<and> remembered ''head'' (m_headElement s) (elements s)
     \<and> remembered ''body'' (m_bodyElement s) (elements s)
     \<and> (m_top s \<noteq> [] \<longrightarrow> hasTagName (last (elements s)) ''html'')"

lemma remembered_cong: "set es = set es' \<Longrightarrow> remembered n m es = remembered n m es'"
  by (simp add: remembered_def)

lemma remembered_other:
  "\<not> hasTagName e n \<Longrightarrow> set es' = insert e (set es) \<Longrightarrow> remembered n m es' = remembered n m es"
proof -
  assume "\<not> hasTagName e n" "set es' = insert e (set es)"
  then have "{e' \<in> set es'. hasTagName e' n} = {e' \<in> set es. hasTagName e' n}" by auto
  then show ?thesis by (simp add: remembered_def)
qed

lemma remembered_None: "remembered n None es \<longleftrightarrow> (\<forall>e \<in> set es. \<not> hasTagName e n)"
  by (auto simp: remembered_def)

lemma remembered_new:
  "hasTagName e n \<Longrightarrow> remembered n None es \<Longrightarrow> remembered n (Some e) (e # es)"
  by (auto simp: remembered_def)

lemma rememberedD: "remembered n m es \<Longrightarrow> e \<in> set es \<Longrightarrow> hasTagName e n \<Longrightarrow> m = Some e"
  unfolding remembered_def by (metis (mono_tags, lifting) elem_set mem_Collect_eq)

lemma special_tags:
  "hasTagName e ''head'' \<Longrightarrow> \<not> hasTagName e ''html'' \<and> \<not> hasTagName e ''body''"
  "hasTagName e ''body'' \<Longrightarrow> \<not> hasTagName e ''html'' \<and> \<not> hasTagName e ''head''"
  "hasTagName e ''html'' \<Longrightarrow> \<not> hasTagName e ''head'' \<and> \<not> hasTagName e ''body''"
  by (simp_all add: hasQName_def)

lemma rememberedE: "remembered n (Some e) es \<Longrightarrow> e \<in> set es \<and> hasTagName e n"
  by (auto simp: remembered_def)

lemma remembered_gone:
  "remembered n (Some e) (xs @ e # ys) \<Longrightarrow> distinct (xs @ e # ys) \<Longrightarrow> remembered n None (xs @ ys)"
  by (fastforce simp: remembered_None dest: rememberedD)

lemma stack_ok_special:
  "stack_ok s \<Longrightarrow> e \<in> set (elements s) \<Longrightarrow>
     poppable s e \<longleftrightarrow> \<not> hasTagName e ''html'' \<and> \<not> hasTagName e ''head'' \<and> \<not> hasTagName e ''body''"
  by (auto simp: stack_ok_def poppable_def simp del: set_map dest: rememberedD)

lemma stack_ok_html:
  "stack_ok s \<Longrightarrow> m_top s \<noteq> [] \<Longrightarrow> m_htmlElement s = Some (last (elements s))"
  unfolding stack_ok_def by (metis rememberedD last_in_set map_is_Nil_conv)

lemma stack_ok_Nil_iff: "stack_ok s \<Longrightarrow> m_htmlElement s = None \<longleftrightarrow> m_top s = []"
  using stack_ok_html [of s] by (cases "m_htmlElement s") (auto simp: stack_ok_def dest: rememberedE)

section \<open>Preservation\<close>

lemma empty_ok: "stack_ok emptyElementStack"
  by (simp add: stack_ok_def emptyElementStack_def remembered_def)

lemma distinct_new_record:
  "\<forall>r \<in> set rs. recordAddress r < n \<Longrightarrow> n \<notin> recordAddress ` set rs"
  by auto

lemma pushCommon_ok:
  assumes "stack_ok s" "e \<notin> set (elements s)" "m_top s \<noteq> []" "\<not> hasTagName e ''html''"
    and "m_top t = m_top s" "m_htmlElement t = m_htmlElement s" "nextRecord t = nextRecord s"
    and "remembered ''head'' (m_headElement t) (e # elements s)"
    and "remembered ''body'' (m_bodyElement t) (e # elements s)"
  shows "stack_ok (pushCommon e t)"
  using assms distinct_new_record [of "m_top s" "nextRecord s"]
    remembered_other [of e "''html''" "e # elements s" "elements s"]
  by (simp add: stack_ok_def pushCommon_def newRecord_def Let_def less_SucI)

lemma push_ok:
  assumes "stack_ok s" "e \<notin> set (elements s)"
  shows "stackAsserts (push_element e s) \<Longrightarrow> stack_ok (push_element e s)"
    and "stackAsserts (pushHTMLHeadElement e s) \<Longrightarrow> stack_ok (pushHTMLHeadElement e s)"
    and "stackAsserts (pushHTMLBodyElement e s) \<Longrightarrow> stack_ok (pushHTMLBodyElement e s)"
    and "stackAsserts (pushHTMLHtmlElement e s) \<Longrightarrow> stack_ok (pushHTMLHtmlElement e s)"
proof -
  have ok: "remembered ''html'' (m_htmlElement s) (elements s)" "remembered ''head'' (m_headElement s) (elements s)"
    "remembered ''body'' (m_bodyElement s) (elements s)"
    using assms(1) by (simp_all add: stack_ok_def)
  note other = remembered_other [of e _ "e # elements s" "elements s"]
  show "stackAsserts (push_element e s) \<Longrightarrow> stack_ok (push_element e s)"
    using ok stack_ok_Nil_iff [OF assms(1)] unfolding push_element_def Let_def
    by (intro pushCommon_ok [OF assms]) (simp_all add: pushCommon_def Let_def other)
  show "stack_ok (pushHTMLHeadElement e s)" if "stackAsserts (pushHTMLHeadElement e s)"
  proof -
    have tag: "hasTagName e ''head''" and "m_htmlElement s \<noteq> None" "m_headElement s = None"
      using that by (simp_all add: pushHTMLHeadElement_def pushCommon_def Let_def)
    then show ?thesis
      using ok stack_ok_Nil_iff [OF assms(1)] special_tags(1) [OF tag] unfolding pushHTMLHeadElement_def Let_def
      by (intro pushCommon_ok [OF assms]) (simp_all add: other remembered_new)
  qed
  show "stack_ok (pushHTMLBodyElement e s)" if "stackAsserts (pushHTMLBodyElement e s)"
  proof -
    have tag: "hasTagName e ''body''" and "m_htmlElement s \<noteq> None" "m_bodyElement s = None"
      using that by (simp_all add: pushHTMLBodyElement_def pushCommon_def Let_def)
    then show ?thesis
      using ok stack_ok_Nil_iff [OF assms(1)] special_tags(2) [OF tag] unfolding pushHTMLBodyElement_def Let_def
      by (intro pushCommon_ok [OF assms]) (simp_all add: other remembered_new)
  qed
  show "stack_ok (pushHTMLHtmlElement e s)" if "stackAsserts (pushHTMLHtmlElement e s)"
  proof -
    have tag: "hasTagName e ''html''" and "m_htmlElement s = None" "m_top s = []"
      using that by (simp_all add: pushHTMLHtmlElement_def pushCommon_def Let_def)
    then show ?thesis
      using ok special_tags(3) [OF tag]
      by (simp add: pushHTMLHtmlElement_def stack_ok_def pushCommon_def newRecord_def Let_def
          remembered_other [of e _ "[e]" "[]"] remembered_new)
  qed
qed

lemma stack_ok_split:
  assumes "stack_ok s" "m_top s = xs @ r # ys"
  shows "m_element r \<notin> m_element ` set xs" "m_element r \<notin> m_element ` set ys"
    "recordAddress r \<notin> recordAddress ` set xs" "recordAddress r \<notin> recordAddress ` set ys"
  using assms by (auto simp: stack_ok_def)

text \<open>Taking a record out of the stack.\<close>

lemma remove_record_ok:
  assumes "stack_ok s" "m_top s = xs @ r # ys" "\<not> hasTagName (m_element r) ''html''"
    and "m_top t = xs @ ys" "m_htmlElement t = m_htmlElement s" "nextRecord t = nextRecord s"
    and "remembered ''head'' (m_headElement t) (elements t)"
    and "remembered ''body'' (m_bodyElement t) (elements t)"
  shows "stack_ok t"
proof -
  have "ys \<noteq> []" using assms(1-3) by (auto simp: stack_ok_def)
  then show ?thesis
    using assms remembered_other [OF assms(3), of "elements s" "elements t"]
    by (auto simp: stack_ok_def)
qed

lemma remembered_plain:
  "\<not> hasTagName (m_element r) n \<Longrightarrow> remembered n m (map m_element (xs @ r # ys)) \<Longrightarrow> remembered n m (map m_element (xs @ ys))"
  using remembered_other [of "m_element r" n "map m_element (xs @ r # ys)" "map m_element (xs @ ys)" m] by auto

lemma pop_ok:
  assumes "stack_ok s" "pop_element s = Some s'" "stackAsserts s'"
  shows "stack_ok s'"
proof -
  obtain r rs where top: "m_top s = [] @ r # rs" "s' = popped [r] s"
    using assms(2) by (auto simp: pop_element_eq split: list.splits)
  then have "poppable s (m_element r)" using assms(3) by simp
  then have "\<not> hasTagName (m_element r) ''html''" "\<not> hasTagName (m_element r) ''head''"
    "\<not> hasTagName (m_element r) ''body''"
    using stack_ok_special [OF assms(1), of "m_element r"] top by auto
  then show ?thesis
    using assms(1) top remembered_plain [of r _ _ "[]" rs]
    by (intro remove_record_ok [OF assms(1) top(1)]) (simp_all add: stack_ok_def)
qed

lemma popped_ok:
  assumes "stack_ok s" "m_top s = rs @ rest" "stackAsserts (popped rs s)"
  shows "stack_ok (popped rs s)"
  using assms
proof (induction rs arbitrary: s)
  case (Cons r rs)
  have "pop_element s = Some (popped [r] s)" using Cons.prems(2) by (simp add: pop_element_eq)
  then have "stack_ok (popped [r] s)" using pop_ok [OF Cons.prems(1)] Cons.prems(3) by simp
  then show ?case using Cons.IH [of "popped [r] s"] Cons.prems by (simp add: popped_popped)
qed simp

lemma popLoop_ok:
  "stack_ok s \<Longrightarrow> popLoop stop s = Some s' \<Longrightarrow> stackAsserts s' \<Longrightarrow> stack_ok s'"
  by (auto simp: popLoop_eq Let_def split: if_splits intro: popped_ok [OF _ sym [OF takeWhile_dropWhile_id]])

lemma pop_special_ok:
  assumes "stack_ok s"
  shows "popHTMLHeadElement s = Some s' \<Longrightarrow> stackAsserts s' \<Longrightarrow> stack_ok s'"
    and "popHTMLBodyElement s = Some s' \<Longrightarrow> stackAsserts s' \<Longrightarrow> stack_ok s'"
proof -
  note defs = popHTMLHeadElement_def popHTMLBodyElement_def popCommon_def topElement_def bind_eq_Some_conv Let_def
  have ok: "remembered ''head'' (m_headElement s) (elements s)" "remembered ''body'' (m_bodyElement s) (elements s)"
    "distinct (elements s)"
    using assms by (simp_all add: stack_ok_def)
  show "stack_ok s'" if pop: "popHTMLHeadElement s = Some s'" "stackAsserts s'"
  proof -
    obtain r rs where top: "m_top s = [] @ r # rs"
      using pop by (cases "m_top s") (auto simp: defs)
    have h: "m_headElement s = Some (m_element r)" using pop top by (auto simp: defs)
    then have tag: "hasTagName (m_element r) ''head''" using ok(1) by (auto dest: rememberedE)
    then show ?thesis
      using pop top h ok special_tags(1) [OF tag] remembered_gone [of "''head''" "m_element r" "[]" "map m_element rs"]
        remembered_plain [of r _ _ "[]" rs]
      by (intro remove_record_ok [OF assms top]) (auto simp: defs)
  qed
  show "stack_ok s'" if pop: "popHTMLBodyElement s = Some s'" "stackAsserts s'"
  proof -
    obtain r rs where top: "m_top s = [] @ r # rs"
      using pop by (cases "m_top s") (auto simp: defs)
    have h: "m_bodyElement s = Some (m_element r)" using pop top by (auto simp: defs)
    then have tag: "hasTagName (m_element r) ''body''" using ok(2) by (auto dest: rememberedE)
    then show ?thesis
      using pop top h ok special_tags(2) [OF tag] remembered_gone [of "''body''" "m_element r" "[]" "map m_element rs"]
        remembered_plain [of r _ _ "[]" rs]
      by (intro remove_record_ok [OF assms top]) (auto simp: defs)
  qed
qed

lemma split_at:
  assumes "x \<in> f ` set xs"
  shows "xs = takeWhile (\<lambda>y. f y \<noteq> x) xs @ hd (dropWhile (\<lambda>y. f y \<noteq> x) xs) # tl (dropWhile (\<lambda>y. f y \<noteq> x) xs)"
    and "f (hd (dropWhile (\<lambda>y. f y \<noteq> x) xs)) = x"
proof -
  have ne: "dropWhile (\<lambda>y. f y \<noteq> x) xs \<noteq> []" using assms by (auto simp: dropWhile_eq_Nil_conv)
  then show "xs = takeWhile (\<lambda>y. f y \<noteq> x) xs @ hd (dropWhile (\<lambda>y. f y \<noteq> x) xs) # tl (dropWhile (\<lambda>y. f y \<noteq> x) xs)"
    by simp
  show "f (hd (dropWhile (\<lambda>y. f y \<noteq> x) xs)) = x" using hd_dropWhile [OF ne] by simp
qed

text \<open>Removing an element below the top.\<close>

lemma removeNonTopCommon_eq:
  "m_top s = xs @ r # ys \<Longrightarrow> distinct (elements s) \<Longrightarrow> xs \<noteq> [] \<Longrightarrow> removeNonTopCommon (m_element r) s =
     Some (s\<lparr>m_top := xs @ ys, parsingCalls := parsingCalls s @ [FinishParsingChildren (m_element r)],
       stackAsserts := stackAsserts s \<and> \<not> hasTagName (m_element r) ''html'' \<and> \<not> hasTagName (m_element r) ''body''\<rparr>)"
proof -
  assume s: "m_top s = xs @ r # ys" "distinct (elements s)" "xs \<noteq> []"
  then obtain t ts where xs: "xs = t # ts" by (cases xs) auto
  have "m_element r \<notin> m_element ` set ts" using s xs by auto
  then have "takeWhile (\<lambda>n. m_element n \<noteq> m_element r) (ts @ r # ys) = ts"
    "dropWhile (\<lambda>n. m_element n \<noteq> m_element r) (ts @ r # ys) = r # ys"
    by (auto simp: takeWhile_append dropWhile_append image_iff takeWhile_eq_all_conv)
  moreover have "m_element t \<noteq> m_element r" using s xs by auto
  ultimately show ?thesis
    using s xs
    by (auto simp: removeNonTopCommon_def topElement_def removeNonTop_loop_eq ASSERT_stack_def callParsing_def
        Let_def simp del: removeNonTop_loop.simps)
qed

lemma removeNonTopCommon_Some:
  assumes "removeNonTopCommon e s = Some s'" "topElement s \<noteq> Some e"
  obtains xs r ys where "m_top s = xs @ r # ys" "xs \<noteq> []" "m_element r = e"
proof -
  obtain t ts where top: "m_top s = t # ts" "m_element t \<noteq> e"
    using assms by (cases "m_top s") (auto simp: removeNonTopCommon_def topElement_def)
  then have "e \<in> m_element ` set ts"
    using assms(1) by (auto simp: removeNonTopCommon_def removeNonTop_loop_eq bind_eq_Some_conv Let_def
        topElement_def split: if_splits simp del: removeNonTop_loop.simps)
  from that [of "t # takeWhile (\<lambda>y. m_element y \<noteq> e) ts"] split_at [OF this] top show thesis
    by (metis append_Cons list.distinct(1))
qed

lemma remove_ok:
  assumes "stack_ok s"
  shows "remove_element e s = Some s' \<Longrightarrow> stackAsserts s' \<Longrightarrow> stack_ok s'"
    and "removeHTMLHeadElement e s = Some s' \<Longrightarrow> stackAsserts s' \<Longrightarrow> stack_ok s'"
proof -
  have ok: "remembered ''head'' (m_headElement s) (elements s)" "remembered ''body'' (m_bodyElement s) (elements s)"
    "distinct (elements s)"
    using assms by (simp_all add: stack_ok_def)
  show "stack_ok s'" if rem: "remove_element e s = Some s'" "stackAsserts s'"
  proof (cases "topElement s = Some e")
    case True
    then have "pop_element (ASSERT_stack (\<not> hasTagName e ''head'') s) = Some s'"
      using rem by (simp add: remove_element_def Let_def)
    moreover have "stack_ok (ASSERT_stack b s)" for b using assms by (simp add: stack_ok_def)
    ultimately show ?thesis using pop_ok rem(2) by blast
  next
    case False
    let ?s = "ASSERT_stack (\<not> hasTagName e ''head'') s"
    have r: "removeNonTopCommon e ?s = Some s'"
      using rem False by (auto simp: remove_element_def Let_def bind_eq_Some_conv split: if_splits)
    then obtain xs r ys where top: "m_top s = xs @ r # ys" "xs \<noteq> []" "m_element r = e"
      using removeNonTopCommon_Some [of e ?s s'] False by auto
    then show ?thesis
      using r rem(2) ok removeNonTopCommon_eq [of ?s xs r ys] remembered_plain [of r _ _ xs ys]
      by (intro remove_record_ok [OF assms top(1)]) auto
  qed
  show "stack_ok s'" if rem: "removeHTMLHeadElement e s = Some s'" "stackAsserts s'"
  proof (cases "topElement s = Some e")
    case True
    then have "popHTMLHeadElement (ASSERT_stack (m_headElement s = Some e) s) = Some s'"
      using rem by (simp add: removeHTMLHeadElement_def Let_def)
    moreover have "stack_ok (ASSERT_stack b s)" for b using assms by (simp add: stack_ok_def)
    ultimately show ?thesis using pop_special_ok(1) rem(2) by blast
  next
    case False
    let ?s = "(ASSERT_stack (m_headElement s = Some e) s)\<lparr>m_headElement := None\<rparr>"
    have r: "removeNonTopCommon e ?s = Some s'"
      using rem False by (auto simp: removeHTMLHeadElement_def Let_def bind_eq_Some_conv split: if_splits)
    moreover have t: "topElement ?s = topElement s" by (simp add: topElement_def)
    ultimately obtain xs r ys where top: "m_top s = xs @ r # ys" "xs \<noteq> []" "m_element r = e"
      using removeNonTopCommon_Some [of e ?s s'] False by auto
    then have s': "s' = ?s\<lparr>m_top := xs @ ys, parsingCalls := parsingCalls s @ [FinishParsingChildren e],
        stackAsserts := stackAsserts ?s \<and> \<not> hasTagName e ''html'' \<and> \<not> hasTagName e ''body''\<rparr>"
      using r ok(3) removeNonTopCommon_eq [of ?s xs r ys] by simp
    then have h: "m_headElement s = Some e" using rem(2) by simp
    then have "hasTagName e ''head''" using ok(1) by (auto dest: rememberedE)
    from special_tags(1) [OF this] show ?thesis
      using s' h top ok remembered_gone [of "''head''" e "map m_element xs" "map m_element ys"]
        remembered_plain [of r "''body''" _ xs ys]
      by (intro remove_record_ok [OF assms top(1)]) simp_all
  qed
qed

text \<open>Inserting above a record, and replacing the element of one.\<close>

lemma insertAbove_eq:
  assumes "m_top s = xs @ r # ys" "recordAddress r \<notin> recordAddress ` set xs" "xs \<noteq> []"
  shows "insertAbove e (recordAddress r) s =
     s\<lparr>m_top := xs @ newRecord e s # r # ys, nextRecord := Suc (nextRecord s),
       parsingCalls := parsingCalls s @ [BeginParsingChildren e],
       stackAsserts := stackAsserts s \<and> \<not> hasTagName e ''html'' \<and> \<not> hasTagName e ''head''
         \<and> \<not> hasTagName e ''body'' \<and> m_htmlElement s \<noteq> None\<rparr>"
proof -
  obtain t ts where xs: "xs = t # ts" using assms(3) by (cases xs) auto
  have "takeWhile (\<lambda>n. recordAddress n \<noteq> recordAddress r) (ts @ r # ys) = ts"
    "dropWhile (\<lambda>n. recordAddress n \<noteq> recordAddress r) (ts @ r # ys) = r # ys"
    using assms(2) xs by (auto simp: takeWhile_append dropWhile_append image_iff takeWhile_eq_all_conv)
  then show ?thesis
    using assms xs
    by (auto simp: insertAbove_def topRecord_def insertAbove_loop_eq ASSERT_stack_def callParsing_def
        Let_def newRecord_def simp del: insertAbove_loop.simps)
qed

lemma insertAbove_ok:
  assumes "stack_ok s" "e \<notin> set (elements s)" "a \<in> recordAddress ` set (m_top s)" "stackAsserts (insertAbove e a s)"
  shows "stack_ok (insertAbove e a s)"
proof -
  obtain xs r ys where top: "m_top s = xs @ r # ys" "a = recordAddress r"
    using assms(3) by (auto simp: in_set_conv_decomp)
  show ?thesis
  proof (cases "xs = []")
    case True
    have "stack_ok (ASSERT_stack b t) = stack_ok t" for b t by (simp add: stack_ok_def)
    then show ?thesis
      using True top assms(2,4) push_ok(1) [of "ASSERT_stack _ _" e] assms(1)
      by (simp add: insertAbove_def topRecord_def Let_def)
  next
    case False
    have fresh: "nextRecord s \<notin> recordAddress ` set (m_top s)"
      using distinct_new_record [of "m_top s" "nextRecord s"] assms(1) by (simp add: stack_ok_def)
    note eq = insertAbove_eq [OF top(1) stack_ok_split(3) [OF assms(1) top(1)] False, of e]
    have "remembered n m (map m_element (xs @ newRecord e s # r # ys)) = remembered n m (elements s)"
      if "\<not> hasTagName e n" for n m
      using remembered_other [OF that] top(1) by (simp add: newRecord_def insert_commute)
    then show ?thesis
      using assms(1,2,4) fresh top
      by (auto simp: eq stack_ok_def newRecord_def less_SucI)
  qed
qed

lemma replaceElement_ok:
  assumes "stack_ok s" "m_top s = xs @ r # ys" "e \<notin> set (elements s)"
    and "\<And>n. n \<in> {''html'', ''head'', ''body''} \<Longrightarrow> \<not> hasTagName (m_element r) n \<and> \<not> hasTagName e n"
  shows "stack_ok (replaceElement (recordAddress r) e s)"
    and "m_top (replaceElement (recordAddress r) e s) = xs @ r\<lparr>m_element := e\<rparr> # ys"
proof -
  note new = stack_ok_split(3,4) [OF assms(1,2)]
  show top: "m_top (replaceElement (recordAddress r) e s) = xs @ r\<lparr>m_element := e\<rparr> # ys"
    using assms(2) new by (fastforce simp: replaceElement_def image_iff intro: map_idI)
  have "remembered n m (map m_element (xs @ r\<lparr>m_element := e\<rparr> # ys)) = remembered n m (elements s)"
    if "n \<in> {''html'', ''head'', ''body''}" for n m
    using assms(4) [OF that] remembered_other [of e n "map m_element (xs @ r\<lparr>m_element := e\<rparr> # ys)" "map m_element (xs @ ys)" m]
      remembered_other [of "m_element r" n "map m_element (xs @ r # ys)" "map m_element (xs @ ys)" m] assms(2)
    by simp
  moreover have "ys \<noteq> []" using assms(1,2,4) by (auto simp: stack_ok_def)
  moreover have "replaceElement (recordAddress r) e s = s\<lparr>m_top := m_top (replaceElement (recordAddress r) e s)\<rparr>"
    by (simp add: replaceElement_def)
  ultimately show "stack_ok (replaceElement (recordAddress r) e s)"
    using assms(1-3) unfolding top by (auto simp: stack_ok_def)
qed

section \<open>Sequences of operations\<close>

text \<open>
  What the tree builder may do with the stack: it pushes elements that are not on it, inserts above a
  record of it, and replaces the element of a record that is neither of the three
  remembered ones.
\<close>

inductive stack_session :: "elementStack \<Rightarrow> bool" where
  start: "stack_session emptyElementStack"
| pushHTMLHtmlElement: "stack_session s \<Longrightarrow> e \<notin> set (elements s) \<Longrightarrow> stack_session (pushHTMLHtmlElement e s)"
| pushHTMLHeadElement: "stack_session s \<Longrightarrow> e \<notin> set (elements s) \<Longrightarrow> stack_session (pushHTMLHeadElement e s)"
| pushHTMLBodyElement: "stack_session s \<Longrightarrow> e \<notin> set (elements s) \<Longrightarrow> stack_session (pushHTMLBodyElement e s)"
| push_element: "stack_session s \<Longrightarrow> e \<notin> set (elements s) \<Longrightarrow> stack_session (push_element e s)"
| insertAbove: "stack_session s \<Longrightarrow> e \<notin> set (elements s) \<Longrightarrow> r \<in> set (m_top s) \<Longrightarrow>
    stack_session (insertAbove e (recordAddress r) s)"
| pop_element: "stack_session s \<Longrightarrow> pop_element s = Some s' \<Longrightarrow> stack_session s'"
| popLoop: "stack_session s \<Longrightarrow> popLoop stop s = Some s' \<Longrightarrow> stack_session s'"
| popHTMLHeadElement: "stack_session s \<Longrightarrow> popHTMLHeadElement s = Some s' \<Longrightarrow> stack_session s'"
| popHTMLBodyElement: "stack_session s \<Longrightarrow> popHTMLBodyElement s = Some s' \<Longrightarrow> stack_session s'"
| popAll: "stack_session s \<Longrightarrow> stack_session (popAll s)"
| remove_element: "stack_session s \<Longrightarrow> remove_element e s = Some s' \<Longrightarrow> stack_session s'"
| removeHTMLHeadElement: "stack_session s \<Longrightarrow> removeHTMLHeadElement e s = Some s' \<Longrightarrow> stack_session s'"
| replaceElement: "stack_session s \<Longrightarrow> e \<notin> set (elements s) \<Longrightarrow> r \<in> set (m_top s) \<Longrightarrow>
    \<forall>n \<in> {''html'', ''head'', ''body''}. \<not> hasTagName (m_element r) n \<and> \<not> hasTagName e n \<Longrightarrow>
    stack_session (replaceElement (recordAddress r) e s)"

lemma asserts_keep:
  "stackAsserts (push_element e s) \<Longrightarrow> stackAsserts s" "stackAsserts (pushHTMLHtmlElement e s) \<Longrightarrow> stackAsserts s"
  "stackAsserts (pushHTMLHeadElement e s) \<Longrightarrow> stackAsserts s" "stackAsserts (pushHTMLBodyElement e s) \<Longrightarrow> stackAsserts s"
  "stackAsserts (insertAbove e a s) \<Longrightarrow> stackAsserts s" "stackAsserts (popAll s) \<Longrightarrow> stackAsserts s"
  "stackAsserts (replaceElement a e s) \<Longrightarrow> stackAsserts s"
  by (auto simp: push_element_def pushHTMLHtmlElement_def pushHTMLHeadElement_def pushHTMLBodyElement_def
      pushCommon_def insertAbove_def popAll_eq replaceElement_def Let_def split: if_splits option.splits)

lemma asserts_keep_pop:
  "popCommon s = Some s' \<Longrightarrow> stackAsserts s' \<Longrightarrow> stackAsserts s"
  "pop_element s = Some s' \<Longrightarrow> stackAsserts s' \<Longrightarrow> stackAsserts s"
  "popLoop stop s = Some s' \<Longrightarrow> stackAsserts s' \<Longrightarrow> stackAsserts s"
  "removeNonTopCommon e s = Some s' \<Longrightarrow> stackAsserts s' \<Longrightarrow> stackAsserts s"
  by (auto simp: popCommon_def pop_element_eq popLoop_eq removeNonTopCommon_def bind_eq_Some_conv Let_def
      split: list.splits if_splits)

lemma asserts_keep_special:
  "popHTMLHeadElement s = Some s' \<Longrightarrow> stackAsserts s' \<Longrightarrow> stackAsserts s"
  "popHTMLBodyElement s = Some s' \<Longrightarrow> stackAsserts s' \<Longrightarrow> stackAsserts s"
  "remove_element e s = Some s' \<Longrightarrow> stackAsserts s' \<Longrightarrow> stackAsserts s"
  "removeHTMLHeadElement e s = Some s' \<Longrightarrow> stackAsserts s' \<Longrightarrow> stackAsserts s"
proof -
  show head: "stackAsserts s" if "popHTMLHeadElement s = Some s'" "stackAsserts s'" for s s'
    using that by (auto simp: popHTMLHeadElement_def bind_eq_Some_conv dest: asserts_keep_pop)
  show "popHTMLBodyElement s = Some s' \<Longrightarrow> stackAsserts s' \<Longrightarrow> stackAsserts s"
    by (auto simp: popHTMLBodyElement_def bind_eq_Some_conv dest: asserts_keep_pop)
  show "remove_element e s = Some s' \<Longrightarrow> stackAsserts s' \<Longrightarrow> stackAsserts s"
    by (auto simp: remove_element_def bind_eq_Some_conv Let_def split: if_splits dest: asserts_keep_pop)
  show "removeHTMLHeadElement e s = Some s' \<Longrightarrow> stackAsserts s' \<Longrightarrow> stackAsserts s"
    by (auto simp: removeHTMLHeadElement_def bind_eq_Some_conv Let_def split: if_splits dest: head asserts_keep_pop)
qed

lemma stack_session_ok: "stack_session s \<Longrightarrow> stackAsserts s \<Longrightarrow> stack_ok s"
proof (induction rule: stack_session.induct)
  case (popAll s)
  have "remembered n None []" for n by (simp add: remembered_def)
  then show ?case by (simp add: popAll_eq stack_ok_def)
next
  case (insertAbove s e r)
  then show ?case using insertAbove_ok asserts_keep(5) by blast
next
  case (replaceElement s e r)
  have ok: "stack_ok s" using replaceElement.IH asserts_keep(7) replaceElement.prems by blast
  obtain xs ys where "m_top s = xs @ r # ys" using replaceElement.hyps(3) by (auto simp: in_set_conv_decomp)
  then show ?case using replaceElement_ok(1) [OF ok _ replaceElement.hyps(2)] replaceElement.hyps(4) by blast
qed (blast intro: empty_ok push_ok pop_ok popLoop_ok pop_special_ok remove_ok
    dest: asserts_keep asserts_keep_pop asserts_keep_special)+

section \<open>The account of the parsing calls\<close>

fun begun :: "parsingCall list \<Rightarrow> element multiset" where
  "begun [] = {#}"
| "begun (BeginParsingChildren e # cs) = add_mset e (begun cs)"
| "begun (FinishParsingChildren e # cs) = begun cs"

fun finished :: "parsingCall list \<Rightarrow> element multiset" where
  "finished [] = {#}"
| "finished (BeginParsingChildren e # cs) = finished cs"
| "finished (FinishParsingChildren e # cs) = add_mset e (finished cs)"

lemma begun_finished_append [simp]:
  "begun (cs @ ds) = begun cs + begun ds" "finished (cs @ ds) = finished cs + finished ds"
proof (induction cs)
  case (Cons c cs)
  case 1
  show ?case using Cons by (cases c) simp_all
  case 2
  show ?case using Cons by (cases c) simp_all
qed simp_all

lemma begun_finished_map [simp]:
  "begun (map (FinishParsingChildren \<circ> m_element) rs) = {#}"
  "finished (map (FinishParsingChildren \<circ> m_element) rs) = mset (map m_element rs)"
  by (induction rs) simp_all

text \<open>
  Every element on the stack has begun and not finished, but for the elements \<open>R\<close> that \<open>replaceElement\<close> has
  put out, each paired with the one put in for it: no call is made for either.
\<close>

definition balanced :: "(element \<times> element) multiset \<Rightarrow> elementStack \<Rightarrow> bool" where
  "balanced R s \<longleftrightarrow> begun (parsingCalls s) + image_mset snd R
     = finished (parsingCalls s) + mset (elements s) + image_mset fst R"

lemma balanced_cong:
  "parsingCalls t = parsingCalls s \<Longrightarrow> m_top t = m_top s \<Longrightarrow> balanced R t = balanced R s"
  by (simp add: balanced_def)

lemma balanced_push:
  "balanced R s \<Longrightarrow> balanced R (push_element e s)" "balanced R s \<Longrightarrow> balanced R (pushHTMLHtmlElement e s)"
  "balanced R s \<Longrightarrow> balanced R (pushHTMLHeadElement e s)" "balanced R s \<Longrightarrow> balanced R (pushHTMLBodyElement e s)"
  by (simp_all add: balanced_def push_element_def pushHTMLHtmlElement_def pushHTMLHeadElement_def
      pushHTMLBodyElement_def pushCommon_def newRecord_def Let_def)

lemma balanced_popped: "balanced R s \<Longrightarrow> m_top s = rs @ rest \<Longrightarrow> balanced R (popped rs s)"
  by (simp add: balanced_def ac_simps)

lemma balanced_popLoop: "balanced R s \<Longrightarrow> popLoop stop s = Some s' \<Longrightarrow> balanced R s'"
  by (auto simp: popLoop_eq Let_def split: if_splits
      intro: balanced_popped [OF _ sym [OF takeWhile_dropWhile_id]])

lemma balanced_popCommon: "balanced R s \<Longrightarrow> popCommon s = Some s' \<Longrightarrow> balanced R s'"
  by (auto simp: balanced_def popCommon_def Let_def split: list.splits)

lemma balanced_removeNonTop: "balanced R s \<Longrightarrow> removeNonTopCommon e s = Some s' \<Longrightarrow> balanced R s'"
proof -
  assume s: "balanced R s" "removeNonTopCommon e s = Some s'"
  then obtain t ts where top: "m_top s = t # ts"
    by (cases "m_top s") (auto simp: removeNonTopCommon_def topElement_def)
  have in_ts: "e \<in> m_element ` set ts"
    using s(2) top by (auto simp: removeNonTopCommon_def removeNonTop_loop_eq bind_eq_Some_conv Let_def
        topElement_def split: if_splits simp del: removeNonTop_loop.simps)
  let ?rest = "takeWhile (\<lambda>n. m_element n \<noteq> e) ts @ tl (dropWhile (\<lambda>n. m_element n \<noteq> e) ts)"
  have "mset (map m_element ts) = add_mset e (mset (map m_element ?rest))"
    by (subst split_at(1) [OF in_ts]) (simp add: split_at(2) [OF in_ts])
  moreover have "m_top s' = t # ?rest" "parsingCalls s' = parsingCalls s @ [FinishParsingChildren e]"
    using s(2) top in_ts by (auto simp: removeNonTopCommon_def removeNonTop_loop_eq bind_eq_Some_conv Let_def
        topElement_def simp del: removeNonTop_loop.simps)
  ultimately show "balanced R s'" using s(1) top by (simp add: balanced_def)
qed

lemma balanced_insertAbove: "balanced R s \<Longrightarrow> balanced R (insertAbove e a s)"
proof (cases "m_top s")
  case Nil
  then show "balanced R s \<Longrightarrow> balanced R (insertAbove e a s)"
    by (simp add: insertAbove_def topRecord_def Let_def balanced_def)
next
  case (Cons t ts)
  assume s: "balanced R s"
  have b: "balanced R (ASSERT_stack b s) = balanced R s" for b s by (rule balanced_cong) simp_all
  show "balanced R (insertAbove e a s)"
  proof (cases "recordAddress t = a")
    case True
    then show ?thesis using s Cons by (simp add: insertAbove_def topRecord_def Let_def b balanced_push(1))
  next
    case False
    show ?thesis
    proof (cases "a \<in> recordAddress ` set ts")
      case True
      have "mset (map m_element (takeWhile (\<lambda>n. recordAddress n \<noteq> a) ts))
          + mset (map m_element (dropWhile (\<lambda>n. recordAddress n \<noteq> a) ts)) = mset (map m_element ts)"
        by (metis map_append mset_append takeWhile_dropWhile_id)
      then show ?thesis
        using False True s Cons
        by (simp add: insertAbove_def topRecord_def Let_def insertAbove_loop_eq balanced_def newRecord_def
            del: insertAbove_loop.simps)
    next
      case False
      then show ?thesis using \<open>recordAddress t \<noteq> a\<close> s Cons
        by (simp add: insertAbove_def topRecord_def Let_def insertAbove_loop_eq b del: insertAbove_loop.simps)
    qed
  qed
qed

section \<open>Scopes\<close>

lemma scopeLoop_append:
  "\<forall>x \<in> set xs. \<not> target x \<and> \<not> marker x \<Longrightarrow> scopeLoop target marker (xs @ es) = scopeLoop target marker es"
  by (induction xs) auto

lemma scopeLoop_Some_True:
  "scopeLoop target marker es = Some True \<longleftrightarrow>
     (\<exists>xs e ys. es = xs @ e # ys \<and> target e \<and> (\<forall>x \<in> set xs. \<not> target x \<and> \<not> marker x))"
proof
  assume "scopeLoop target marker es = Some True"
  then show "\<exists>xs e ys. es = xs @ e # ys \<and> target e \<and> (\<forall>x \<in> set xs. \<not> target x \<and> \<not> marker x)"
  proof (induction es)
    case (Cons e es)
    show ?case
    proof (cases "target e")
      case True
      then show ?thesis by (intro exI [of _ "[]"]) simp
    next
      case False
      then obtain xs e' ys where "es = xs @ e' # ys" "target e'" "\<forall>x \<in> set xs. \<not> target x \<and> \<not> marker x" "\<not> marker e"
        using Cons by (auto split: if_splits)
      then show ?thesis using False by (intro exI [of _ "e # xs"]) simp
    qed
  qed simp
qed (auto simp: scopeLoop_append)

text \<open>What a marker promises: the walk down the stack cannot pass the html element.\<close>

locale scope =
  fixes marker :: "element \<Rightarrow> bool"
  assumes html_marker: "hasTagName e ''html'' \<Longrightarrow> marker e"
begin

lemma marker_at_bottom: "stack_ok s \<Longrightarrow> m_top s \<noteq> [] \<Longrightarrow> marker (last (elements s))"
  by (simp add: stack_ok_def html_marker)

lemma loop_ends: "stack_ok s \<Longrightarrow> m_top s \<noteq> [] \<Longrightarrow> scopeLoop target marker (elements s) \<noteq> None"
proof -
  have "es \<noteq> [] \<Longrightarrow> marker (last es) \<Longrightarrow> scopeLoop target marker es \<noteq> None" for es
    by (induction es) (auto split: if_splits)
  then show "stack_ok s \<Longrightarrow> m_top s \<noteq> [] \<Longrightarrow> scopeLoop target marker (elements s) \<noteq> None"
    using marker_at_bottom by simp
qed

lemma popLoop_total:
  assumes "stack_ok s" "m_top s \<noteq> []"
  obtains rs r rest where "m_top s = rs @ r # rest" "popLoop marker s = Some (popped rs s)"
    "marker (m_element r)" "\<forall>x \<in> set rs. \<not> marker (m_element x)"
proof -
  let ?rs = "takeWhile (\<lambda>r. \<not> marker (m_element r)) (m_top s)"
  have "marker (m_element (last (m_top s)))" using marker_at_bottom [OF assms] assms(2) by (simp add: last_map)
  then have ne: "dropWhile (\<lambda>r. \<not> marker (m_element r)) (m_top s) \<noteq> []"
    using assms(2) last_in_set by (fastforce simp: dropWhile_eq_Nil_conv)
  then obtain r rest where d: "dropWhile (\<lambda>r. \<not> marker (m_element r)) (m_top s) = r # rest"
    by (cases "dropWhile (\<lambda>r. \<not> marker (m_element r)) (m_top s)") auto
  have "?rs \<noteq> m_top s" using ne by (metis append_Nil2 same_append_eq takeWhile_dropWhile_id)
  then have "popLoop marker s = Some (popped ?rs s)" by (simp add: popLoop_eq Let_def)
  moreover have "m_top s = ?rs @ r # rest" using d by (metis takeWhile_dropWhile_id)
  moreover have "marker (m_element r)" using hd_dropWhile [OF ne] d by simp
  moreover have "\<forall>x \<in> set ?rs. \<not> marker (m_element x)" by (auto dest: set_takeWhileD)
  ultimately show thesis using that by blast
qed

end

text \<open>A scope with more markers is within one with fewer.\<close>

locale inner_scope = scope outer for outer :: "element \<Rightarrow> bool" +
  fixes inner :: "element \<Rightarrow> bool"
  assumes outer_inner: "outer e \<Longrightarrow> inner e"
begin

lemma inner_in_outer: "inScopeCommon inner t s \<Longrightarrow> inScopeCommon outer t s"
  unfolding inScopeCommon_def scopeLoop_Some_True using outer_inner by blast

end

sublocale inner_scope \<subseteq> inner: scope inner
  by unfold_locales (rule outer_inner [OF html_marker])

lemmas marker_defs = isScopeMarker_def isListItemScopeMarker_def isTableScopeMarker_def
  isTableBodyScopeMarker_def isTableRowScopeMarker_def isForeignContentScopeMarker_def
  isButtonScopeMarker_def isSelectScopeMarker_def

interpretation table_scope: inner_scope isTableScopeMarker isScopeMarker
  by unfold_locales (auto simp: marker_defs)

interpretation button_scope: inner_scope isScopeMarker isButtonScopeMarker
  by unfold_locales (auto simp: marker_defs)

interpretation list_item_scope: inner_scope isScopeMarker isListItemScopeMarker
  by unfold_locales (auto simp: marker_defs)

interpretation select_scope: scope isSelectScopeMarker
  by unfold_locales (auto simp: marker_defs hasQName_def)

interpretation table_body_scope: scope isTableBodyScopeMarker
  by unfold_locales (auto simp: marker_defs)

interpretation table_row_scope: scope isTableRowScopeMarker
  by unfold_locales (auto simp: marker_defs)

interpretation foreign_scope: scope isForeignContentScopeMarker
  by unfold_locales (auto simp: marker_defs hasQName_def)

end
