(* ===== verification/HTMLElementStackContract.thy ===== *)
theory HTMLElementStackContract
  imports HTMLElementScopes
begin

text \<open>
  The stack of open elements under its contract.  A client is a list of calls; the contract says, of the
  elements on the stack alone, when a call is allowed: which element may be pushed where, what has to be on
  top or on the stack.  Under it no call follows a null pointer and no \<open>ASSERT\<close> fails.
\<close>

section \<open>Calls\<close>

datatype stackOp =
    PushHTMLHtmlElement element
  | PushHTMLHeadElement element
  | PushHTMLBodyElement element
  | Push element
  | InsertAbove element nat
  | ReplaceElement nat element
  | Pop
  | PopUntil "element \<Rightarrow> bool"
  | PopHTMLHeadElement
  | PopHTMLBodyElement
  | PopAll
  | Remove element
  | RemoveHTMLHeadElement element

fun callStack :: "stackOp \<Rightarrow> elementStack \<Rightarrow> elementStack option" where
  "callStack (PushHTMLHtmlElement e) s = Some (pushHTMLHtmlElement e s)"
| "callStack (PushHTMLHeadElement e) s = Some (pushHTMLHeadElement e s)"
| "callStack (PushHTMLBodyElement e) s = Some (pushHTMLBodyElement e s)"
| "callStack (Push e) s = Some (push_element e s)"
| "callStack (InsertAbove e a) s = Some (insertAbove e a s)"
| "callStack (ReplaceElement a e) s = Some (replaceElement a e s)"
| "callStack Pop s = pop_element s"
| "callStack (PopUntil stop) s = popLoop stop s"
| "callStack PopHTMLHeadElement s = popHTMLHeadElement s"
| "callStack PopHTMLBodyElement s = popHTMLBodyElement s"
| "callStack PopAll s = Some (popAll s)"
| "callStack (Remove e) s = remove_element e s"
| "callStack (RemoveHTMLHeadElement e) s = removeHTMLHeadElement e s"

text \<open>The html, head and body elements have their own operations.\<close>

definition isSpecialElement :: "element \<Rightarrow> bool" where
  "isSpecialElement e \<longleftrightarrow> hasTagName e ''html'' \<or> hasTagName e ''head'' \<or> hasTagName e ''body''"

definition canEnter :: "element \<Rightarrow> elementStack \<Rightarrow> bool" where
  "canEnter e s \<longleftrightarrow> \<not> isSpecialElement e \<and> e \<notin> set (elements s)"

fun allowed :: "stackOp \<Rightarrow> elementStack \<Rightarrow> bool" where
  "allowed (PushHTMLHtmlElement e) s \<longleftrightarrow> elements s = [] \<and> hasTagName e ''html''"
| "allowed (PushHTMLHeadElement e) s \<longleftrightarrow> elements s \<noteq> [] \<and> hasTagName e ''head'' \<and> (\<forall>x \<in> set (elements s). \<not> hasTagName x ''head'')"
| "allowed (PushHTMLBodyElement e) s \<longleftrightarrow> elements s \<noteq> [] \<and> hasTagName e ''body'' \<and> (\<forall>x \<in> set (elements s). \<not> hasTagName x ''body'')"
| "allowed (Push e) s \<longleftrightarrow> elements s \<noteq> [] \<and> canEnter e s"
| "allowed (InsertAbove e a) s \<longleftrightarrow> a \<in> recordAddress ` set (m_top s) \<and> canEnter e s"
| "allowed (ReplaceElement a e) s \<longleftrightarrow> canEnter e s
     \<and> (\<exists>r \<in> set (m_top s). recordAddress r = a \<and> \<not> isSpecialElement (m_element r))"
| "allowed Pop s \<longleftrightarrow> elements s \<noteq> [] \<and> \<not> isSpecialElement (hd (elements s))"
| "allowed (PopUntil stop) s \<longleftrightarrow> list_ex stop (elements s)
     \<and> list_all (\<lambda>e. \<not> isSpecialElement e) (takeWhile (\<lambda>e. \<not> stop e) (elements s))"
| "allowed PopHTMLHeadElement s \<longleftrightarrow> elements s \<noteq> [] \<and> hasTagName (hd (elements s)) ''head''"
| "allowed PopHTMLBodyElement s \<longleftrightarrow> elements s \<noteq> [] \<and> hasTagName (hd (elements s)) ''body''"
| "allowed PopAll s \<longleftrightarrow> True"
| "allowed (Remove e) s \<longleftrightarrow> e \<in> set (elements s) \<and> \<not> isSpecialElement e"
| "allowed (RemoveHTMLHeadElement e) s \<longleftrightarrow> e \<in> set (elements s) \<and> hasTagName e ''head''"

fun callsOf :: "stackOp list \<Rightarrow> elementStack \<Rightarrow> elementStack option" where
  "callsOf [] s = Some s"
| "callsOf (c # cs) s = do { s \<leftarrow> callStack c s; callsOf cs s }"

fun contract :: "stackOp list \<Rightarrow> elementStack \<Rightarrow> bool" where
  "contract [] s \<longleftrightarrow> True"
| "contract (c # cs) s \<longleftrightarrow> allowed c s \<and> (case callStack c s of None \<Rightarrow> True | Some s \<Rightarrow> contract cs s)"

text \<open>The elements that \<open>replaceElement\<close> puts out, each with the one it puts in.\<close>

fun replacedBy :: "stackOp \<Rightarrow> elementStack \<Rightarrow> (element \<times> element) multiset" where
  "replacedBy (ReplaceElement a e) s =
     mset (map (\<lambda>r. (m_element r, e)) (filter (\<lambda>r. recordAddress r = a) (m_top s)))"
| "replacedBy _ s = {#}"

fun replacements :: "stackOp list \<Rightarrow> elementStack \<Rightarrow> (element \<times> element) multiset" where
  "replacements [] s = {#}"
| "replacements (c # cs) s = replacedBy c s + (case callStack c s of None \<Rightarrow> {#} | Some s \<Rightarrow> replacements cs s)"

section \<open>A call that is allowed\<close>

lemma poppable_special: "stack_ok s \<Longrightarrow> e \<in> set (elements s) \<Longrightarrow> poppable s e \<longleftrightarrow> \<not> isSpecialElement e"
  using stack_ok_special by (simp add: isSpecialElement_def)

lemma unremembered: "remembered n m es \<Longrightarrow> \<forall>x \<in> set es. \<not> hasTagName x n \<Longrightarrow> m = None"
  by (cases m) (auto dest: rememberedE)

lemma remembered_is: "remembered n m es \<Longrightarrow> e \<in> set es \<Longrightarrow> hasTagName e n \<Longrightarrow> m = Some e"
  by (auto dest: rememberedD)

text \<open>What it leaves: nothing has failed, the invariant holds, and no more is open than has begun.\<close>

definition kept_by :: "stackOp \<Rightarrow> elementStack \<Rightarrow> elementStack \<Rightarrow> bool" where
  "kept_by c s s' \<longleftrightarrow> callStack c s = Some s' \<and> stackAsserts s' \<and> stack_ok s'"

lemma push_kept:
  assumes "stack_ok s" "stackAsserts s"
  shows "allowed (PushHTMLHtmlElement e) s \<Longrightarrow> kept_by (PushHTMLHtmlElement e) s (pushHTMLHtmlElement e s)"
    "allowed (PushHTMLHeadElement e) s \<Longrightarrow> kept_by (PushHTMLHeadElement e) s (pushHTMLHeadElement e s)"
    "allowed (PushHTMLBodyElement e) s \<Longrightarrow> kept_by (PushHTMLBodyElement e) s (pushHTMLBodyElement e s)"
    "allowed (Push e) s \<Longrightarrow> kept_by (Push e) s (push_element e s)"
proof -
  have ok: "remembered ''html'' (m_htmlElement s) (elements s)" "remembered ''head'' (m_headElement s) (elements s)"
    "remembered ''body'' (m_bodyElement s) (elements s)"
    using assms(1) by (simp_all add: stack_ok_def)
  note html = stack_ok_Nil_iff [OF assms(1)] and none = unremembered [OF ok(1)] unremembered [OF ok(2)] unremembered [OF ok(3)]
  show "allowed (PushHTMLHtmlElement e) s \<Longrightarrow> kept_by (PushHTMLHtmlElement e) s (pushHTMLHtmlElement e s)"
    using assms(2) html push_ok(4) [OF assms(1), of e]
    by (simp add: kept_by_def pushHTMLHtmlElement_def pushCommon_def Let_def)
  show "allowed (PushHTMLHeadElement e) s \<Longrightarrow> kept_by (PushHTMLHeadElement e) s (pushHTMLHeadElement e s)"
    using assms(2) html none(2) push_ok(2) [OF assms(1), of e]
    by (auto simp: kept_by_def pushHTMLHeadElement_def pushCommon_def Let_def)
  show "allowed (PushHTMLBodyElement e) s \<Longrightarrow> kept_by (PushHTMLBodyElement e) s (pushHTMLBodyElement e s)"
    using assms(2) html none(3) push_ok(3) [OF assms(1), of e]
    by (auto simp: kept_by_def pushHTMLBodyElement_def pushCommon_def Let_def)
  show "allowed (Push e) s \<Longrightarrow> kept_by (Push e) s (push_element e s)"
    using assms(2) html push_ok(1) [OF assms(1), of e]
    by (auto simp: kept_by_def canEnter_def isSpecialElement_def push_element_def pushCommon_def Let_def)
qed

lemma insert_kept:
  assumes "stack_ok s" "stackAsserts s"
  shows "allowed (InsertAbove e a) s \<Longrightarrow> kept_by (InsertAbove e a) s (insertAbove e a s)"
    "allowed (ReplaceElement a e) s \<Longrightarrow> kept_by (ReplaceElement a e) s (replaceElement a e s)"
proof -
  assume a: "allowed (InsertAbove e a) s"
  then obtain xs r ys where top: "m_top s = xs @ r # ys" "a = recordAddress r" by (auto simp: in_set_conv_decomp)
  have "m_htmlElement s \<noteq> None" using stack_ok_Nil_iff [OF assms(1)] top(1) by simp
  moreover have "insertAbove e a s = push_element e (ASSERT_stack (\<not> isSpecialElement e \<and> m_htmlElement s \<noteq> None) s)" if "xs = []"
    using that top by (auto simp: insertAbove_def topRecord_def ASSERT_stack_def isSpecialElement_def Let_def)
  ultimately have "stackAsserts (insertAbove e a s)"
    using a assms(2) top(2) insertAbove_eq [OF top(1) stack_ok_split(3) [OF assms(1) top(1)]]
    by (cases "xs = []") (simp_all add: canEnter_def isSpecialElement_def push_element_def pushCommon_def Let_def)
  then show "kept_by (InsertAbove e a) s (insertAbove e a s)"
    using a insertAbove_ok [OF assms(1)] by (simp add: kept_by_def canEnter_def)
next
  assume a: "allowed (ReplaceElement a e) s"
  then obtain xs r ys where top: "m_top s = xs @ r # ys" "a = recordAddress r" "\<not> isSpecialElement (m_element r)"
    by (auto simp: in_set_conv_decomp)
  have "stack_ok (replaceElement (recordAddress r) e s)"
    using a top(3) by (intro replaceElement_ok(1) [OF assms(1) top(1)]) (auto simp: canEnter_def isSpecialElement_def)
  then show "kept_by (ReplaceElement a e) s (replaceElement a e s)"
    using assms(2) top(2) by (simp add: kept_by_def replaceElement_def)
qed

lemma pop_kept:
  assumes "stack_ok s" "stackAsserts s"
  shows "allowed Pop s \<Longrightarrow> \<exists>s'. kept_by Pop s s'" "allowed (PopUntil stop) s \<Longrightarrow> \<exists>s'. kept_by (PopUntil stop) s s'"
    "allowed PopHTMLHeadElement s \<Longrightarrow> \<exists>s'. kept_by PopHTMLHeadElement s s'"
    "allowed PopHTMLBodyElement s \<Longrightarrow> \<exists>s'. kept_by PopHTMLBodyElement s s'"
    "kept_by PopAll s (popAll s)"
proof -
  have ok: "remembered ''head'' (m_headElement s) (elements s)" "remembered ''body'' (m_bodyElement s) (elements s)"
    using assms(1) by (simp_all add: stack_ok_def)
  show "\<exists>s'. kept_by Pop s s'" if a: "allowed Pop s"
  proof -
    obtain r rs where top: "m_top s = r # rs" using a by (cases "m_top s") auto
    then have "poppable s (m_element r)" using a poppable_special [OF assms(1), of "m_element r"] by simp
    then show ?thesis
      using assms(2) top pop_ok [OF assms(1), of "popped [r] s"] by (auto simp: kept_by_def pop_element_eq)
  qed
  show "\<exists>s'. kept_by (PopUntil stop) s s'" if a: "allowed (PopUntil stop) s"
  proof -
    let ?rs = "takeWhile (\<lambda>r. \<not> stop (m_element r)) (m_top s)"
    have "?rs \<noteq> m_top s" using a by (fastforce simp: list_ex_iff takeWhile_eq_all_conv)
    then have eq: "popLoop stop s = Some (popped ?rs s)" by (simp add: popLoop_eq Let_def)
    have "poppable s (m_element r)" if "r \<in> set ?rs" for r
    proof -
      have "m_element r \<in> set (takeWhile (\<lambda>e. \<not> stop e) (elements s))"
        using that by (auto simp: takeWhile_map comp_def)
      then show ?thesis
        using a poppable_special [OF assms(1), of "m_element r"] set_takeWhileD [OF that] by (auto simp: list_all_iff)
    qed
    then have "stackAsserts (popped ?rs s)" using assms(2) by (simp add: list_all_iff)
    then show ?thesis using eq popLoop_ok [OF assms(1) eq] by (auto simp: kept_by_def)
  qed
  note defs = popHTMLHeadElement_def popHTMLBodyElement_def popCommon_def topElement_def Let_def
  show "\<exists>s'. kept_by PopHTMLHeadElement s s'" if a: "allowed PopHTMLHeadElement s"
  proof -
    obtain r rs where top: "m_top s = r # rs" using a by (cases "m_top s") auto
    then have "m_headElement s = Some (m_element r)" "hasTagName (m_element r) ''head''"
      using a remembered_is [OF ok(1), of "m_element r"] by simp_all
    then have "\<exists>s'. popHTMLHeadElement s = Some s' \<and> stackAsserts s'"
      using assms(2) top special_tags(1) by (simp add: defs)
    then show ?thesis using pop_special_ok(1) [OF assms(1)] by (auto simp: kept_by_def)
  qed
  show "\<exists>s'. kept_by PopHTMLBodyElement s s'" if a: "allowed PopHTMLBodyElement s"
  proof -
    obtain r rs where top: "m_top s = r # rs" using a by (cases "m_top s") auto
    then have "m_bodyElement s = Some (m_element r)" "hasTagName (m_element r) ''body''"
      using a remembered_is [OF ok(2), of "m_element r"] by simp_all
    then have "\<exists>s'. popHTMLBodyElement s = Some s' \<and> stackAsserts s'"
      using assms(2) top special_tags(2) by (simp add: defs)
    then show ?thesis using pop_special_ok(2) [OF assms(1)] by (auto simp: kept_by_def)
  qed
  have "remembered n None []" for n by (simp add: remembered_def)
  then show "kept_by PopAll s (popAll s)" using assms by (simp add: kept_by_def popAll_eq stack_ok_def)
qed

lemma remove_kept:
  assumes "stack_ok s" "stackAsserts s"
  shows "allowed (Remove e) s \<Longrightarrow> \<exists>s'. kept_by (Remove e) s s'"
    "allowed (RemoveHTMLHeadElement e) s \<Longrightarrow> \<exists>s'. kept_by (RemoveHTMLHeadElement e) s s'"
proof -
  have ok: "remembered ''head'' (m_headElement s) (elements s)" "distinct (elements s)"
    using assms(1) by (simp_all add: stack_ok_def)
  show "\<exists>s'. kept_by (Remove e) s s'" if a: "allowed (Remove e) s"
  proof -
    obtain xs r ys where top: "m_top s = xs @ r # ys" "m_element r = e" using a by (auto simp: in_set_conv_decomp)
    then have "poppable s e" using a poppable_special [OF assms(1), of e] by simp
    then have "\<exists>s'. remove_element e s = Some s' \<and> stackAsserts s'"
      using a assms(2) top ok(2) removeNonTopCommon_eq [of "ASSERT_stack True s" xs r ys]
      by (cases xs) (auto simp: remove_element_def topElement_def pop_element_eq isSpecialElement_def poppable_def Let_def)
    then show ?thesis using remove_ok(1) [OF assms(1)] by (auto simp: kept_by_def)
  qed
  show "\<exists>s'. kept_by (RemoveHTMLHeadElement e) s s'" if a: "allowed (RemoveHTMLHeadElement e) s"
  proof -
    obtain xs r ys where top: "m_top s = xs @ r # ys" "m_element r = e" using a by (auto simp: in_set_conv_decomp)
    have head: "m_headElement s = Some e" using a remembered_is [OF ok(1)] by simp
    have tags: "\<not> hasTagName e ''html''" "\<not> hasTagName e ''body''" using a special_tags(1) by auto
    have "\<exists>s'. removeHTMLHeadElement e s = Some s' \<and> stackAsserts s'"
    proof (cases xs)
      case Nil
      then show ?thesis using a assms(2) top head tags
        by (simp add: removeHTMLHeadElement_def popHTMLHeadElement_def popCommon_def topElement_def Let_def)
    next
      case (Cons x us)
      let ?s = "(ASSERT_stack True s)\<lparr>m_headElement := None\<rparr>"
      have "removeNonTopCommon (m_element r) ?s = Some (?s\<lparr>m_top := xs @ ys,
          parsingCalls := parsingCalls ?s @ [FinishParsingChildren (m_element r)],
          stackAsserts := stackAsserts ?s \<and> \<not> hasTagName (m_element r) ''html'' \<and> \<not> hasTagName (m_element r) ''body''\<rparr>)"
        using top(1) ok(2) Cons by (intro removeNonTopCommon_eq) simp_all
      then show ?thesis using assms(2) top head tags Cons ok(2)
        by (auto simp: removeHTMLHeadElement_def topElement_def Let_def)
    qed
    then show ?thesis using remove_ok(2) [OF assms(1)] by (auto simp: kept_by_def)
  qed
qed

lemma allowed_kept: "stack_ok s \<Longrightarrow> stackAsserts s \<Longrightarrow> allowed c s \<Longrightarrow> \<exists>s'. kept_by c s s'"
proof -
  assume a: "stack_ok s" "stackAsserts s" "allowed c s"
  note kept = push_kept [OF a(1,2)] insert_kept [OF a(1,2)] pop_kept [OF a(1,2)] remove_kept [OF a(1,2)]
  show ?thesis using a(3) by (cases c) (simp_all only:, (rule exI, erule kept | erule kept | rule exI, rule kept)+)
qed

section \<open>The account of the parsing calls\<close>

lemma balanced_call:
  assumes "balanced R s" "callStack c s = Some s'" "stack_ok s" "allowed c s"
  shows "balanced (R + replacedBy c s) s'"
proof (cases c)
  case (ReplaceElement a e)
  then obtain xs r ys where top: "m_top s = xs @ r # ys" "a = recordAddress r" using assms(4) by (auto simp: in_set_conv_decomp)
  note new = stack_ok_split(3,4) [OF assms(3) top(1)]
  have "filter (\<lambda>q. recordAddress q = recordAddress r) us = []" if "recordAddress r \<notin> recordAddress ` set us" for us
    using that by (induction us) auto
  from this [OF new(1)] this [OF new(2)] have "filter (\<lambda>r. recordAddress r = a) (m_top s) = [r]" using top by simp
  then have "replacedBy c s = {#(m_element r, e)#}" using ReplaceElement by simp
  moreover have "\<not> isSpecialElement (m_element r)" "canEnter e s"
    using assms(3,4) ReplaceElement top new by (auto simp: image_iff)
  then have "m_top (replaceElement (recordAddress r) e s) = xs @ r\<lparr>m_element := e\<rparr> # ys"
    by (intro replaceElement_ok(2) [OF assms(3) top(1)]) (auto simp: canEnter_def isSpecialElement_def)
  moreover have "s' = replaceElement (recordAddress r) e s" using assms(2) ReplaceElement top(2) by simp
  moreover from this have "parsingCalls s' = parsingCalls s" by (simp add: replaceElement_def)
  ultimately show ?thesis using assms(1) top(1) by (simp add: balanced_def)
next
  case Pop
  then show ?thesis using assms(1,2) balanced_popLoop
    by (auto simp: pop_element_def bind_eq_Some_conv balanced_def dest!: balanced_popCommon [rotated])
next
  case PopHTMLHeadElement
  then show ?thesis using assms(1,2)
    by (auto simp: popHTMLHeadElement_def bind_eq_Some_conv balanced_def dest!: balanced_popCommon [rotated])
next
  case PopHTMLBodyElement
  then show ?thesis using assms(1,2)
    by (auto simp: popHTMLBodyElement_def bind_eq_Some_conv balanced_def dest!: balanced_popCommon [rotated])
next
  case (Remove e)
  then show ?thesis using assms(1,2)
    by (auto simp: remove_element_def pop_element_def bind_eq_Some_conv Let_def balanced_def split: if_splits
        dest!: balanced_popCommon [rotated] balanced_removeNonTop [rotated])
next
  case (RemoveHTMLHeadElement e)
  then show ?thesis using assms(1,2)
    by (auto simp: removeHTMLHeadElement_def popHTMLHeadElement_def bind_eq_Some_conv Let_def balanced_def split: if_splits
        dest!: balanced_popCommon [rotated] balanced_removeNonTop [rotated])
next
  case PopAll
  then show ?thesis using assms(1,2) by (auto simp: balanced_def popAll_eq)
qed (use assms(1,2) in \<open>auto simp: balanced_push balanced_insertAbove dest: balanced_popLoop\<close>)

section \<open>All calls\<close>

lemma contract_run:
  assumes "contract cs s" "stack_ok s" "stackAsserts s" "balanced R s"
  shows "\<exists>s'. callsOf cs s = Some s' \<and> stack_ok s' \<and> stackAsserts s' \<and> balanced (R + replacements cs s) s'"
  using assms
proof (induction cs arbitrary: s R)
  case (Cons c cs)
  then obtain s1 where s1: "callStack c s = Some s1" "stackAsserts s1" "stack_ok s1"
    using allowed_kept [of s c] by (auto simp: kept_by_def)
  then have "balanced (R + replacedBy c s) s1" using balanced_call Cons.prems by simp
  then show ?case using Cons.IH [of s1 "R + replacedBy c s"] Cons.prems(1) s1 by (simp add: ac_simps)
qed simp

lemma contract_empty:
  assumes "contract cs emptyElementStack"
  obtains s where "callsOf cs emptyElementStack = Some s" "stack_ok s" "stackAsserts s"
    "balanced (replacements cs emptyElementStack) s"
proof -
  have "stackAsserts emptyElementStack" "balanced {#} emptyElementStack" by (simp_all add: emptyElementStack_def balanced_def)
  then show thesis using contract_run [OF assms empty_ok] that by fastforce
qed

end
