(* ===== verification/HTMLElementStackProperties.thy ===== *)
theory HTMLElementStackProperties
  imports HTMLElementStackContract
begin

text \<open>
  The properties of the stack of open elements, each with a concrete instance: the stack of
  \<^verbatim>\<open><html><body><table><p>\<close>.
\<close>

section \<open>An example\<close>

definition exampleElement :: "nat \<Rightarrow> string \<Rightarrow> element" where
  "exampleElement a n = \<lparr>nodeAddress = a, namespaceURI = XHTML, localName = ustr n\<rparr>"

definition exampleStack :: elementStack where
  "exampleStack =
     push_element (exampleElement 4 ''p'') (push_element (exampleElement 3 ''table'')
       (pushHTMLBodyElement (exampleElement 2 ''body'') (pushHTMLHtmlElement (exampleElement 1 ''html'') emptyElementStack)))"

lemma exampleElement_simps [simp]:
  "hasQName (exampleElement a n) ns m \<longleftrightarrow> ns = XHTML \<and> n = m"
  "hasLocalName (exampleElement a n) (ustr m) \<longleftrightarrow> n = m"
  "exampleElement a n = exampleElement b m \<longleftrightarrow> a = b \<and> n = m"
  by (auto simp: exampleElement_def hasQName_def hasLocalName_def)

lemmas push_eval = push_element_def pushHTMLBodyElement_def pushHTMLHtmlElement_def pushHTMLHeadElement_def
  pushCommon_def newRecord_def emptyElementStack_def

lemma exampleStack_session: "stack_session exampleStack"
  unfolding exampleStack_def
  by (intro stack_session.push_element stack_session.pushHTMLBodyElement stack_session.pushHTMLHtmlElement
      stack_session.start) (simp_all add: push_eval Let_def)

lemma exampleStack_facts:
  "elements exampleStack =
     [exampleElement 4 ''p'', exampleElement 3 ''table'', exampleElement 2 ''body'', exampleElement 1 ''html'']"
  "map recordAddress (m_top exampleStack) = [3, 2, 1, 0]" "stackAsserts exampleStack"
  by (simp_all add: exampleStack_def push_eval Let_def)

lemma exampleStack_ok: "stack_ok exampleStack"
  using stack_session_ok [OF exampleStack_session exampleStack_facts(3)] .

text \<open>A client that keeps the contract: \<^verbatim>\<open><html><head></head><body><p><b>\<close>, with the \<^verbatim>\<open>b\<close> replaced by a
  clone, up to \<^verbatim>\<open></p></body>\<close>.\<close>

definition exampleCalls :: "stackOp list" where
  "exampleCalls =
     [PushHTMLHtmlElement (exampleElement 1 ''html''), PushHTMLHeadElement (exampleElement 2 ''head''), PopHTMLHeadElement,
      PushHTMLBodyElement (exampleElement 3 ''body''), Push (exampleElement 4 ''p''), Push (exampleElement 5 ''b''),
      ReplaceElement 4 (exampleElement 6 ''b''), PopUntil (\<lambda>e. e = exampleElement 4 ''p''), Pop, PopHTMLBodyElement]"

lemmas contract_eval = push_eval Let_def pop_element_eq popLoop_eq popped_def popHTMLHeadElement_def popHTMLBodyElement_def
  popCommon_def topElement_def replaceElement_def canEnter_def isSpecialElement_def callParsing_def ASSERT_stack_def

lemma exampleCalls_contract: "contract exampleCalls emptyElementStack"
  by (simp add: exampleCalls_def contract_eval)

section \<open>The scopes of the specification\<close>

text \<open>The elements that end the scopes, as the specification lists them.\<close>

definition scopeNames :: "(namespace \<times> string) list" where
  "scopeNames = map (Pair XHTML) [''applet'', ''caption'', ''html'', ''table'', ''td'', ''th'', ''marquee'', ''object'']
     @ map (Pair MathML) [''mi'', ''mo'', ''mn'', ''ms'', ''mtext'', ''annotation-xml'']
     @ map (Pair SVG) [''foreignObject'', ''desc'', ''title'']"

definition integrationPoints :: "(namespace \<times> string) list" where
  "integrationPoints = map (Pair MathML) [''mi'', ''mo'', ''mn'', ''ms'', ''mtext''] @ map (Pair SVG) [''foreignObject'', ''desc'', ''title'']"

definition isOneOf :: "(namespace \<times> string) list \<Rightarrow> element \<Rightarrow> bool" where
  "isOneOf ns e \<longleftrightarrow> list_ex (\<lambda>(n, l). namespaceURI e = n \<and> localName e = ustr l) ns"

definition above :: "(element \<Rightarrow> bool) \<Rightarrow> (element \<Rightarrow> bool) \<Rightarrow> element list \<Rightarrow> bool" where
  "above ends target es \<longleftrightarrow> (\<exists>i < length es. target (es ! i) \<and> (\<forall>k < i. \<not> ends (es ! k)))"

definition clearsTo :: "(element \<Rightarrow> bool) \<Rightarrow> (elementStack \<Rightarrow> elementStack option) \<Rightarrow> elementStack \<Rightarrow> bool" where
  "clearsTo context pops s \<longleftrightarrow>
     (\<exists>s'. pops s = Some s' \<and> elements s' = dropWhile (\<lambda>e. \<not> context e) (elements s) \<and> elements s' \<noteq> [])"

lemma markers_named:
  "isScopeMarker = isOneOf scopeNames"
  "isListItemScopeMarker = isOneOf (scopeNames @ [(XHTML, ''ol''), (XHTML, ''ul'')])"
  "isButtonScopeMarker = isOneOf (scopeNames @ [(XHTML, ''button'')])"
  "isTableScopeMarker = isOneOf [(XHTML, ''table''), (XHTML, ''html'')]"
  "isSelectScopeMarker = (\<lambda>e. \<not> isOneOf [(XHTML, ''optgroup''), (XHTML, ''option'')] e)"
  "isNumberedHeaderElement = isOneOf (map (Pair XHTML) [''h1'', ''h2'', ''h3'', ''h4'', ''h5'', ''h6''])"
  "isTableBodyScopeMarker = isOneOf [(XHTML, ''tbody''), (XHTML, ''tfoot''), (XHTML, ''thead''), (XHTML, ''html'')]"
  "isTableRowScopeMarker = isOneOf [(XHTML, ''tr''), (XHTML, ''html'')]"
  "isForeignContentScopeMarker = (\<lambda>e. isOneOf integrationPoints e \<or> namespaceURI e = XHTML)"
proof -
  note defs = isOneOf_def scopeNames_def integrationPoints_def hasQName_def fun_eq_iff
  show "isScopeMarker = isOneOf scopeNames" by (auto simp: isScopeMarker_def defs)
  then show "isListItemScopeMarker = isOneOf (scopeNames @ [(XHTML, ''ol''), (XHTML, ''ul'')])"
    "isButtonScopeMarker = isOneOf (scopeNames @ [(XHTML, ''button'')])"
    by (auto simp: isListItemScopeMarker_def isButtonScopeMarker_def isOneOf_def hasQName_def fun_eq_iff)
qed (auto simp: isTableScopeMarker_def isSelectScopeMarker_def isNumberedHeaderElement_def isTableBodyScopeMarker_def
    isTableRowScopeMarker_def isForeignContentScopeMarker_def isOneOf_def integrationPoints_def hasQName_def fun_eq_iff)

lemma above_simps:
  "above ends target [] \<longleftrightarrow> False"
  "above ends target (e # es) \<longleftrightarrow> target e \<or> \<not> ends e \<and> above ends target es"
proof -
  show "above ends target (e # es) \<longleftrightarrow> target e \<or> \<not> ends e \<and> above ends target es"
    unfolding above_def by (cases "ends e") (simp_all add: Ex_less_Suc2 All_less_Suc2)
qed (simp add: above_def)

lemma scopeLoop_above: "scopeLoop target marker es = Some True \<longleftrightarrow> above marker target es"
  by (induction es) (simp_all add: above_simps)

lemma scope_clears:
  assumes "scope marker" "stack_ok s" "m_top s \<noteq> []"
  shows "clearsTo marker (popLoop marker) s"
proof -
  have last: "marker (last (elements s))" using scope.marker_at_bottom [OF assms] .
  let ?rs = "takeWhile (\<lambda>r. \<not> marker (m_element r)) (m_top s)"
  have "last (m_top s) \<in> set (m_top s)" "marker (m_element (last (m_top s)))"
    using assms(3) last by (simp_all add: last_map)
  then have ne: "dropWhile (\<lambda>r. \<not> marker (m_element r)) (m_top s) \<noteq> []" by (auto simp: dropWhile_eq_Nil_conv)
  then have "?rs \<noteq> m_top s" by (metis append_self_conv takeWhile_dropWhile_id)
  moreover have "drop (length ?rs) (m_top s) = dropWhile (\<lambda>r. \<not> marker (m_element r)) (m_top s)"
    by (simp add: dropWhile_eq_drop)
  ultimately show ?thesis
    using ne by (simp add: clearsTo_def popLoop_eq Let_def dropWhile_map comp_def)
qed

section \<open>The properties\<close>

text \<open>C9: In every sequence of calls that keeps the contract of the stack (the html, head and body elements
  are pushed, popped and removed by their own operations; an element that enters is not on the stack yet)
  every call returns and no \<open>ASSERT\<close> fails, the html element is at the bottom of the stack, the stack
  remembers exactly the html, head and body elements that are on it, and no element is on it twice.\<close>

theorem element_stack_invariant:
  assumes "contract calls emptyElementStack"
  shows "\<exists>s. callsOf calls emptyElementStack = Some s \<and> stackAsserts s
    \<and> (m_top s \<noteq> [] \<longrightarrow> m_htmlElement s = Some (last (elements s)))
    \<and> set_option (m_htmlElement s) = {e \<in> set (elements s). hasTagName e ''html''}
    \<and> set_option (m_headElement s) = {e \<in> set (elements s). hasTagName e ''head''}
    \<and> set_option (m_bodyElement s) = {e \<in> set (elements s). hasTagName e ''body''}
    \<and> distinct (elements s)"
proof -
  obtain s where s: "callsOf calls emptyElementStack = Some s" "stack_ok s" "stackAsserts s"
    using contract_empty [OF assms] .
  then show ?thesis using stack_ok_html [of s] by (intro exI [of _ s]) (auto simp: stack_ok_def remembered_def)
qed

lemma element_stack_invariant_witness:
  "\<exists>s. callsOf exampleCalls emptyElementStack = Some s \<and> stackAsserts s \<and> distinct (elements s)"
  using element_stack_invariant [OF exampleCalls_contract] by blast

text \<open>C10: The scope queries are those of the HTML specification: a target is in a scope when it occurs above
  every element that ends the scope, and these are exactly the elements named here.  Clearing the stack back to a
  context pops exactly to the closest element of the context.  None of the loops runs past the bottom of the
  stack.\<close>

theorem scopes_decided:
  assumes "stack_session s" "stackAsserts s" "m_top s \<noteq> []"
  shows "inScope t s = above (isOneOf scopeNames) (\<lambda>e. localName e = t) (elements s)
    \<and> inListItemScope t s = above (isOneOf (scopeNames @ [(XHTML, ''ol''), (XHTML, ''ul'')])) (\<lambda>e. localName e = t) (elements s)
    \<and> inButtonScope t s = above (isOneOf (scopeNames @ [(XHTML, ''button'')])) (\<lambda>e. localName e = t) (elements s)
    \<and> inTableScope t s = above (isOneOf [(XHTML, ''table''), (XHTML, ''html'')]) (\<lambda>e. localName e = t) (elements s)
    \<and> inSelectScope t s = above (\<lambda>e. \<not> isOneOf [(XHTML, ''optgroup''), (XHTML, ''option'')] e) (\<lambda>e. localName e = t) (elements s)
    \<and> inScope_element e s = above (isOneOf scopeNames) (\<lambda>x. x = e) (elements s)
    \<and> hasNumberedHeaderElementInScope s = above (isOneOf scopeNames)
        (isOneOf (map (Pair XHTML) [''h1'', ''h2'', ''h3'', ''h4'', ''h5'', ''h6''])) (elements s)
    \<and> clearsTo (isOneOf [(XHTML, ''table''), (XHTML, ''html'')]) popUntilTableScopeMarker s
    \<and> clearsTo (isOneOf [(XHTML, ''tbody''), (XHTML, ''tfoot''), (XHTML, ''thead''), (XHTML, ''html'')]) popUntilTableBodyScopeMarker s
    \<and> clearsTo (isOneOf [(XHTML, ''tr''), (XHTML, ''html'')]) popUntilTableRowScopeMarker s
    \<and> clearsTo (\<lambda>e. isOneOf integrationPoints e \<or> namespaceURI e = XHTML) popUntilForeignContentScopeMarker s
    \<and> (\<forall>target. \<forall>marker \<in> {isScopeMarker, isListItemScopeMarker, isTableScopeMarker, isButtonScopeMarker, isSelectScopeMarker}.
         scopeLoop target marker (elements s) \<noteq> None)"
proof -
  have ok: "stack_ok s" by (rule stack_session_ok [OF assms(1,2)])
  note ends = table_scope.inner.loop_ends list_item_scope.inner.loop_ends table_scope.loop_ends
    button_scope.inner.loop_ends select_scope.loop_ends
  note clears = scope_clears [OF table_scope.scope_axioms ok assms(3)] scope_clears [OF table_body_scope.scope_axioms ok assms(3)]
    scope_clears [OF table_row_scope.scope_axioms ok assms(3)] scope_clears [OF foreign_scope.scope_axioms ok assms(3)]
  show ?thesis
    unfolding markers_named [symmetric] inScope_def inListItemScope_def inButtonScope_def inTableScope_def inSelectScope_def
      inScope_element_def hasNumberedHeaderElementInScope_def inScopeCommon_def hasLocalName_def [abs_def] scopeLoop_above
      popUntilTableScopeMarker_def popUntilTableBodyScopeMarker_def popUntilTableRowScopeMarker_def
      popUntilForeignContentScopeMarker_def
    using ends [OF ok assms(3)] clears by auto
qed

lemma scopes_decided_witness:
  "inTableScope (ustr ''p'') exampleStack \<and> \<not> inTableScope (ustr ''body'') exampleStack
   \<and> (\<exists>s'. popUntilTableScopeMarker exampleStack = Some s'
        \<and> elements s' = [exampleElement 3 ''table'', exampleElement 2 ''body'', exampleElement 1 ''html''])"
proof -
  have ne: "m_top exampleStack \<noteq> []" using exampleStack_facts(1) by auto
  note d = scopes_decided [OF exampleStack_session exampleStack_facts(3) ne]
  have "inTableScope u exampleStack = above (isOneOf [(XHTML, ''table''), (XHTML, ''html'')]) (\<lambda>e. localName e = u) (elements exampleStack)" for u
    using d [of u] by blast
  then have "inTableScope (ustr ''p'') exampleStack" "\<not> inTableScope (ustr ''body'') exampleStack"
    by (simp_all add: above_simps isOneOf_def exampleElement_def exampleStack_facts)
  moreover have "clearsTo (isOneOf [(XHTML, ''table''), (XHTML, ''html'')]) popUntilTableScopeMarker exampleStack"
    using d by blast
  ultimately show ?thesis by (auto simp: clearsTo_def isOneOf_def exampleElement_def exampleStack_facts)
qed

text \<open>C11: Closing an element that is in scope pops the stack exactly to below it, and asserts nothing
  false unless the head or the body would be popped on the way.\<close>

theorem close_in_scope:
  assumes "stack_session s" "stackAsserts s" "inScope t s"
    and "t \<notin> {ustr ''html'', ustr ''head'', ustr ''body''}"
  shows "\<exists>xs e ys s'. elements s = xs @ e # ys \<and> hasLocalName e t
     \<and> (\<forall>x \<in> set xs. \<not> hasLocalName x t \<and> \<not> isScopeMarker x)
     \<and> popUntilPopped t s = Some s' \<and> elements s' = ys
     \<and> (stackAsserts s' \<longleftrightarrow> (\<forall>x \<in> set xs. \<not> hasTagName x ''head'' \<and> \<not> hasTagName x ''body''))"
proof -
  have ok: "stack_ok s" by (rule stack_session_ok [OF assms(1,2)])
  obtain xs e ys where es: "elements s = xs @ e # ys" "hasLocalName e t"
    "\<forall>x \<in> set xs. \<not> hasLocalName x t \<and> \<not> isScopeMarker x"
    using assms(3) by (auto simp: inScope_def inScopeCommon_def scopeLoop_Some_True)
  obtain rs r rest where top: "m_top s = rs @ r # rest" "xs = map m_element rs" "e = m_element r" "ys = map m_element rest"
    using es(1) by (auto simp: map_eq_append_conv map_eq_Cons_conv)
  have "takeWhile (\<lambda>r. \<not> hasLocalName (m_element r) t) (m_top s) = rs"
    using es(2,3) top by (simp add: takeWhile_append takeWhile_eq_all_conv)
  then have "popUntilPopped t s = Some (popped (rs @ [r]) s)"
    using top(1) by (simp add: popUntilPopped_def popUntil_def popLoop_eq Let_def pop_element_eq popped_popped)
  moreover have "poppable s e"
    using assms(4) es(2) stack_ok_special [OF ok, of e] es(1) by (auto simp: hasQName_def hasLocalName_def)
  moreover have "poppable s x \<longleftrightarrow> \<not> hasTagName x ''head'' \<and> \<not> hasTagName x ''body''" if "x \<in> set xs" for x
    using stack_ok_special [OF ok, of x] es(1,3) that by (auto simp: isScopeMarker_def)
  ultimately show ?thesis
    using es top assms(2) by (intro exI [of _ xs] exI [of _ e] exI [of _ ys]) (auto simp: list_all_iff)
qed

lemma close_in_scope_witness:
  "\<exists>s'. popUntilPopped (ustr ''p'') exampleStack = Some s'
     \<and> elements s' = [exampleElement 3 ''table'', exampleElement 2 ''body'', exampleElement 1 ''html'']"
proof -
  have "inScope (ustr ''p'') exampleStack"
    by (simp add: inScope_def inScopeCommon_def exampleStack_facts)
  from close_in_scope [OF exampleStack_session exampleStack_facts(3) this] show ?thesis
    by (auto simp: exampleStack_facts Cons_eq_append_conv)
qed

text \<open>C12: In every sequence of calls that keeps the contract, what has begun to parse its children and what
  was put in by \<open>replaceElement\<close> is, counted, what has finished, what is still open and what was put out by
  \<open>replaceElement\<close>; after \<open>popAll\<close>, at the end of the file, nothing is open.  So the calls to an element are balanced
  unless the adoption agency replaces it: the element put out never finishes, the one put in finishes without having
  begun.\<close>

theorem parsing_calls_balanced:
  assumes "contract calls emptyElementStack" "R = replacements calls emptyElementStack"
  shows "\<exists>s. callsOf calls emptyElementStack = Some s
    \<and> begun (parsingCalls s) + image_mset snd R = finished (parsingCalls s) + mset (elements s) + image_mset fst R
    \<and> elements (popAll s) = []
    \<and> begun (parsingCalls (popAll s)) + image_mset snd R = finished (parsingCalls (popAll s)) + image_mset fst R"
proof -
  obtain s where s: "callsOf calls emptyElementStack = Some s" "balanced R s"
    using contract_empty [OF assms(1)] assms(2) by metis
  then show ?thesis by (intro exI [of _ s]) (simp add: balanced_def popAll_eq ac_simps)
qed

lemma parsing_calls_balanced_witness:
  "\<exists>s. callsOf exampleCalls emptyElementStack = Some s
     \<and> begun (parsingCalls (popAll s)) + {#exampleElement 6 ''b''#} = finished (parsingCalls (popAll s)) + {#exampleElement 5 ''b''#}"
proof -
  have "replacements exampleCalls emptyElementStack = {#(exampleElement 5 ''b'', exampleElement 6 ''b'')#}"
    by (simp add: exampleCalls_def contract_eval)
  then show ?thesis using parsing_calls_balanced [OF exampleCalls_contract refl] by auto
qed

text \<open>C18: An element inserted above a record lies directly above it, and removing it again restores the
  stack.\<close>

theorem insertAbove_remove:
  assumes "stack_session s" "e \<notin> set (elements s)" "r \<in> set (m_top s)"
    and "stackAsserts (insertAbove e (recordAddress r) s)"
  shows "(\<exists>xs ys. m_top s = xs @ r # ys \<and> m_top (insertAbove e (recordAddress r) s) = xs @ newRecord e s # r # ys)
    \<and> (\<exists>s'. remove_element e (insertAbove e (recordAddress r) s) = Some s' \<and> m_top s' = m_top s \<and> stackAsserts s')"
proof -
  have "stackAsserts s" using assms(4) asserts_keep(5) by blast
  then have ok: "stack_ok s" using stack_session_ok assms(1) by blast
  obtain xs ys where top: "m_top s = xs @ r # ys" using assms(3) by (auto simp: in_set_conv_decomp)
  let ?s = "insertAbove e (recordAddress r) s"
  have t: "m_top ?s = xs @ newRecord e s # r # ys"
  proof (cases "xs = []")
    case True
    then show ?thesis
      using top by (simp add: insertAbove_def topRecord_def Let_def push_element_def pushCommon_def)
  next
    case False
    then show ?thesis using insertAbove_eq [OF top stack_ok_split(3) [OF ok top]] by simp
  qed
  have tags: "\<not> hasTagName e ''html'' \<and> \<not> hasTagName e ''head'' \<and> \<not> hasTagName e ''body''"
    using assms(4) by (auto simp: insertAbove_def Let_def push_element_def pushCommon_def split: if_splits option.splits)
  have new: "m_element (newRecord e s) = e" by (simp add: newRecord_def)
  have "\<exists>s'. remove_element e ?s = Some s' \<and> m_top s' = m_top s \<and> stackAsserts s'"
  proof (cases xs)
    case Nil
    then show ?thesis
      using t tags top new assms(4) by (simp add: remove_element_def topElement_def Let_def pop_element_eq poppable_def)
  next
    case (Cons x xs')
    have "distinct (elements ?s)"
      using insertAbove_ok [OF ok assms(2) _ assms(4)] assms(3) by (simp add: stack_ok_def)
    then show ?thesis
      using t tags top Cons new assms(2,4)
        removeNonTopCommon_eq [of "ASSERT_stack True ?s" xs "newRecord e s" "r # ys"]
      by (auto simp: remove_element_def topElement_def Let_def)
  qed
  then show ?thesis using t top by blast
qed

lemma insertAbove_remove_witness:
  "\<exists>s'. remove_element (exampleElement 5 ''b'') (insertAbove (exampleElement 5 ''b'') 2 exampleStack) = Some s'
     \<and> m_top s' = m_top exampleStack"
proof -
  let ?r = "\<lparr>recordAddress = 2, m_element = exampleElement 3 ''table''\<rparr>"
  have "?r \<in> set (m_top exampleStack)" by (simp add: exampleStack_def push_eval Let_def)
  moreover have "exampleElement 5 ''b'' \<notin> set (elements exampleStack)" by (simp add: exampleStack_facts)
  moreover have "stackAsserts (insertAbove (exampleElement 5 ''b'') 2 exampleStack)"
    by (simp add: exampleStack_def push_eval Let_def insertAbove_def topRecord_def ASSERT_stack_def callParsing_def)
  ultimately show ?thesis
    using insertAbove_remove [OF exampleStack_session, of "exampleElement 5 ''b''" ?r] by auto
qed

text \<open>C25: Removing an element that is not on the stack follows a null pointer: the loop reads the element
  of the next record before it tests whether there is one.\<close>

theorem remove_absent:
  assumes "e \<notin> set (elements s)"
  shows "remove_element e s = None \<and> removeHTMLHeadElement e s = None"
proof -
  have "removeNonTop_loop e rs = None" if "e \<notin> m_element ` set rs" for rs
    using that by (induction e rs rule: removeNonTop_loop.induct) auto
  then show ?thesis
    using assms by (cases "m_top s") (auto simp: remove_element_def removeHTMLHeadElement_def
        removeNonTopCommon_def topElement_def Let_def)
qed

lemma remove_absent_witness: "remove_element (exampleElement 9 ''b'') exampleStack = None"
  using remove_absent [of "exampleElement 9 ''b''" exampleStack] by (simp add: exampleStack_facts)

end
