(* ===== verification/HTMLFormattingElementList.thy ===== *)
theory HTMLFormattingElementList
  imports HTMLElements
begin

text \<open>
  \<^verbatim>\<open>WebCore/html/parser/HTMLFormattingElementList.cpp\<close> and \<^verbatim>\<open>.h\<close>: the list of active formatting
  elements.  An \<open>Entry\<close> is the element it points to, \<open>None\<close> for a marker; an \<open>Entry*\<close> into the vector
  is its index.  \<open>listAsserts\<close> is the ghost of the debug build.
\<close>

section \<open>Operations\<close>

type_synonym entry = "element option"

record formattingList =
  m_entries :: "entry list"
  listAsserts :: bool

definition emptyFormattingList :: formattingList where
  "emptyFormattingList = \<lparr>m_entries = [], listAsserts = True\<rparr>"

record bookmark =
  m_hasBeenMoved :: bool
  m_mark :: nat

definition ASSERT_list :: "bool \<Rightarrow> formattingList \<Rightarrow> formattingList" where
  "ASSERT_list b l = (if b then l else l\<lparr>listAsserts := False\<rparr>)"

definition isMarker :: "entry \<Rightarrow> bool" where
  "isMarker en \<longleftrightarrow> en = None"

definition list_size :: "formattingList \<Rightarrow> nat" where
  "list_size l = length (m_entries l)"

definition list_isEmpty :: "formattingList \<Rightarrow> bool" where
  "list_isEmpty l \<longleftrightarrow> list_size l = 0"

text \<open>The loop reads \<open>m_entries[size - i]\<close> for \<open>i = 1, 2, \<dots>\<close>: the entries from the last to the first.\<close>

fun closest_loop :: "ustr \<Rightarrow> entry list \<Rightarrow> element option" where
  "closest_loop targetName [] = None"
| "closest_loop targetName (en # ens) =
     (case en of
        None \<Rightarrow> None
      | Some e \<Rightarrow> if hasLocalName e targetName then Some e else closest_loop targetName ens)"

definition closestElementInScopeWithName :: "ustr \<Rightarrow> formattingList \<Rightarrow> element option" where
  "closestElementInScopeWithName targetName l = closest_loop targetName (rev (m_entries l))"

text \<open>\<open>Vector::reverseFind\<close>: the greatest index, \<open>None\<close> for \<open>notFound\<close>.\<close>

fun reverseFind_upto :: "element \<Rightarrow> entry list \<Rightarrow> nat \<Rightarrow> nat option" where
  "reverseFind_upto e ens 0 = None"
| "reverseFind_upto e ens (Suc i) = (if ens ! i = Some e then Some i else reverseFind_upto e ens i)"

definition reverseFind :: "element \<Rightarrow> formattingList \<Rightarrow> nat option" where
  "reverseFind e l = reverseFind_upto e (m_entries l) (length (m_entries l))"

definition find_entry :: "element \<Rightarrow> formattingList \<Rightarrow> nat option" where
  "find_entry e l = reverseFind e l"

definition list_contains :: "element \<Rightarrow> formattingList \<Rightarrow> bool" where
  "list_contains e l \<longleftrightarrow> find_entry e l \<noteq> None"

text \<open>\<open>at(notFound)\<close> has no value.\<close>

definition bookmarkFor :: "element \<Rightarrow> formattingList \<Rightarrow> bookmark option" where
  "bookmarkFor e l = map_option (\<lambda>i. \<lparr>m_hasBeenMoved = False, m_mark = i\<rparr>) (reverseFind e l)"

definition moveToAfter :: "nat \<Rightarrow> bookmark \<Rightarrow> bookmark" where
  "moveToAfter newMark b = b\<lparr>m_hasBeenMoved := True, m_mark := newMark\<rparr>"

definition replace_entry :: "nat \<Rightarrow> element \<Rightarrow> formattingList \<Rightarrow> formattingList" where
  "replace_entry i e l = l\<lparr>m_entries := (m_entries l)[i := Some e]\<rparr>"

definition append_entry :: "element \<Rightarrow> formattingList \<Rightarrow> formattingList" where
  "append_entry e l = l\<lparr>m_entries := m_entries l @ [Some e]\<rparr>"

definition remove_entry :: "element \<Rightarrow> formattingList \<Rightarrow> formattingList" where
  "remove_entry e l =
     (case reverseFind e l of
        None \<Rightarrow> l
      | Some i \<Rightarrow> l\<lparr>m_entries := take i (m_entries l) @ drop (Suc i) (m_entries l)\<rparr>)"

definition swapTo :: "element \<Rightarrow> element \<Rightarrow> bookmark \<Rightarrow> formattingList \<Rightarrow> formattingList" where
  "swapTo oldElement newElement b l =
     (let l = ASSERT_list (list_contains oldElement l) l;
          l = ASSERT_list (\<not> list_contains newElement l) l
      in if \<not> m_hasBeenMoved b then
           replace_entry (m_mark b) newElement (ASSERT_list (m_entries l ! m_mark b = Some oldElement) l)
         else
           let index = m_mark b;
               l = ASSERT_list (index < list_size l) l;
               l = l\<lparr>m_entries := take (index + 1) (m_entries l) @ [Some newElement] @ drop (index + 1) (m_entries l)\<rparr>
           in remove_entry oldElement l)"

definition appendMarker :: "formattingList \<Rightarrow> formattingList" where
  "appendMarker l = l\<lparr>m_entries := m_entries l @ [None]\<rparr>"

function clear_loop :: "entry list \<Rightarrow> entry list" where
  "clear_loop ens =
     (if ens = [] then ens
      else if isMarker (last ens) then butlast ens else clear_loop (butlast ens))"
  by pat_completeness auto
termination by (relation "measure length") auto

declare clear_loop.simps [simp del]

definition clearToLastMarker :: "formattingList \<Rightarrow> formattingList" where
  "clearToLastMarker l = l\<lparr>m_entries := clear_loop (m_entries l)\<rparr>"

section \<open>What they do\<close>

text \<open>No element is in the list twice.\<close>

definition formattingList_ok :: "formattingList \<Rightarrow> bool" where
  "formattingList_ok l \<longleftrightarrow> distinct (filter (\<lambda>en. \<not> isMarker en) (m_entries l))"

lemma reverseFind_upto_Some:
  "reverseFind_upto e ens n = Some i \<longleftrightarrow> i < n \<and> ens ! i = Some e \<and> (\<forall>j. i < j \<and> j < n \<longrightarrow> ens ! j \<noteq> Some e)"
  by (induction n) (auto simp: less_Suc_eq)

lemma reverseFind_upto_None: "reverseFind_upto e ens n = None \<longleftrightarrow> (\<forall>i < n. ens ! i \<noteq> Some e)"
  by (induction n) (auto simp: less_Suc_eq)

lemma list_contains_iff [simp]: "list_contains e l \<longleftrightarrow> Some e \<in> set (m_entries l)"
  using reverseFind_upto_None [of e "m_entries l" "length (m_entries l)"]
  by (auto simp: list_contains_def find_entry_def reverseFind_def in_set_conv_nth)

lemma distinct_unmarked_split:
  assumes "distinct (filter (\<lambda>en. \<not> isMarker en) (xs @ Some e # ys))"
  shows "Some e \<notin> set xs" "Some e \<notin> set ys"
  using assms by (auto simp: isMarker_def)

lemma reverseFind_split:
  assumes "m_entries l = xs @ Some e # ys" "Some e \<notin> set ys"
  shows "reverseFind e l = Some (length xs)"
proof -
  have "(xs @ Some e # ys) ! j \<noteq> Some e" if j: "length xs < j" "j < length xs + Suc (length ys)" for j
  proof -
    obtain k where "j = length xs + Suc k" "k < length ys"
      using j less_imp_Suc_add [OF j(1)] by auto
    then show ?thesis using assms(2) by (simp add: nth_append) (metis nth_mem)
  qed
  moreover have "(xs @ Some e # ys) ! length xs = Some e" by (rule nth_append_length)
  ultimately show ?thesis
    using assms(1) by (simp add: reverseFind_def reverseFind_upto_Some del: reverseFind_upto.simps)
qed

lemma reverseFind_SomeE:
  assumes "reverseFind e l = Some i"
  obtains xs ys where "m_entries l = xs @ Some e # ys" "i = length xs" "Some e \<notin> set ys"
proof -
  have i: "i < length (m_entries l)" "m_entries l ! i = Some e"
    "\<forall>j. i < j \<and> j < length (m_entries l) \<longrightarrow> m_entries l ! j \<noteq> Some e"
    using assms by (auto simp: reverseFind_def reverseFind_upto_Some)
  have "m_entries l = take i (m_entries l) @ Some e # drop (Suc i) (m_entries l)"
    using id_take_nth_drop [OF i(1)] i(2) by simp
  moreover have "Some e \<notin> set (drop (Suc i) (m_entries l))"
    using i(1,3) by (auto simp: in_set_conv_nth)
  ultimately show thesis using that [of "take i (m_entries l)"] i(1) by simp
qed

lemma remove_entry_split:
  "m_entries l = xs @ Some e # ys \<Longrightarrow> Some e \<notin> set ys \<Longrightarrow> m_entries (remove_entry e l) = xs @ ys"
  by (simp add: remove_entry_def reverseFind_split)

lemma remove_entry_absent: "Some e \<notin> set (m_entries l) \<Longrightarrow> remove_entry e l = l"
  using list_contains_iff [of e l]
  by (simp add: remove_entry_def list_contains_def find_entry_def del: list_contains_iff)

definition unnamed :: "ustr \<Rightarrow> entry \<Rightarrow> bool" where
  "unnamed n en \<longleftrightarrow> (\<exists>e \<in> set_option en. \<not> hasLocalName e n)"

lemma closest_loop_append:
  "list_all (unnamed n) ys \<Longrightarrow> closest_loop n (ys @ ens) = closest_loop n ens"
  by (induction ys) (auto simp: unnamed_def split: option.splits)

lemma closest_loop_Some:
  "closest_loop n ens = Some e \<Longrightarrow> \<exists>ys xs. ens = ys @ Some e # xs \<and> hasLocalName e n \<and> list_all (unnamed n) ys"
proof (induction ens)
  case (Cons en ens)
  show ?case
  proof (cases "\<exists>e'. en = Some e' \<and> \<not> hasLocalName e' n")
    case True
    then have "unnamed n en" by (auto simp: unnamed_def)
    moreover obtain ys xs where "ens = ys @ Some e # xs" "hasLocalName e n" "list_all (unnamed n) ys"
      using True Cons by auto
    ultimately show ?thesis by (intro exI [of _ "en # ys"] exI [of _ xs]) simp
  next
    case False
    then have "en = Some e" "hasLocalName e n"
      using Cons.prems by (auto split: option.splits if_splits)
    then show ?thesis by (intro exI [of _ "[]"] exI [of _ ens]) simp
  qed
qed simp

lemma closest_Some_iff:
  "closestElementInScopeWithName n l = Some e \<longleftrightarrow>
     (\<exists>xs ys. m_entries l = xs @ Some e # ys \<and> hasLocalName e n \<and> list_all (unnamed n) ys)"
proof
  assume "closestElementInScopeWithName n l = Some e"
  then obtain ys xs where s: "rev (m_entries l) = ys @ Some e # xs" "hasLocalName e n" "list_all (unnamed n) ys"
    using closest_loop_Some by (fastforce simp: closestElementInScopeWithName_def)
  then have "m_entries l = rev xs @ Some e # rev ys" by (simp add: rev_swap)
  then show "\<exists>xs ys. m_entries l = xs @ Some e # ys \<and> hasLocalName e n \<and> list_all (unnamed n) ys"
    using s(2,3) by (metis list_all_rev)
next
  assume "\<exists>xs ys. m_entries l = xs @ Some e # ys \<and> hasLocalName e n \<and> list_all (unnamed n) ys"
  then show "closestElementInScopeWithName n l = Some e"
    by (auto simp: closestElementInScopeWithName_def closest_loop_append)
qed

lemma clear_loop_append:
  "\<forall>en \<in> set ys. \<not> isMarker en \<Longrightarrow> clear_loop (xs @ None # ys) = xs"
proof (induction ys rule: rev_induct)
  case Nil
  then show ?case by (simp add: clear_loop.simps isMarker_def)
next
  case (snoc en ys)
  have "clear_loop (xs @ None # ys @ [en]) = clear_loop (xs @ None # ys)"
    using snoc.prems by (subst clear_loop.simps) (simp add: butlast_append)
  then show ?case using snoc by simp
qed

lemma clear_loop_none: "\<forall>en \<in> set ys. \<not> isMarker en \<Longrightarrow> clear_loop ys = []"
proof (induction ys rule: rev_induct)
  case (snoc en ys)
  then show ?case by (subst clear_loop.simps) simp
qed (simp add: clear_loop.simps)

section \<open>Properties\<close>

lemma filter_unmarked_distinct:
  "formattingList_ok l \<Longrightarrow> m_entries l = xs @ Some e # ys \<Longrightarrow> Some e \<notin> set xs \<and> Some e \<notin> set ys"
  using distinct_unmarked_split [of xs e ys] by (simp add: formattingList_ok_def)

text \<open>C20: \<open>swapTo\<close> puts the new element where the algorithm left its bookmark: in the place of the old
  element when the bookmark was not moved, directly after the marked entry, with the old element gone,
  when it was; the order of the other entries is kept, and no assertion fails.\<close>

theorem swapTo_bookmark:
  assumes "formattingList_ok l" "listAsserts l" "Some new \<notin> set (m_entries l)"
    and "m_entries l = xs @ Some old # ys" "bookmarkFor old l = Some b"
  shows "m_entries (swapTo old new b l) = xs @ Some new # ys \<and> listAsserts (swapTo old new b l)
    \<and> (\<forall>zs e ws. ys = zs @ e # ws \<longrightarrow>
         m_entries (swapTo old new (moveToAfter (Suc (length xs + length zs)) b) l) = xs @ zs @ e # Some new # ws
         \<and> listAsserts (swapTo old new (moveToAfter (Suc (length xs + length zs)) b) l))
    \<and> (\<forall>zs e ws. xs = zs @ e # ws \<longrightarrow>
         m_entries (swapTo old new (moveToAfter (length zs) b) l) = zs @ e # Some new # ws @ ys
         \<and> listAsserts (swapTo old new (moveToAfter (length zs) b) l))"
proof -
  note gone = filter_unmarked_distinct [OF assms(1,4)]
  have new: "new \<noteq> old" using assms(3,4) by auto
  have b: "b = \<lparr>m_hasBeenMoved = False, m_mark = length xs\<rparr>"
    using assms(5) reverseFind_split [OF assms(4)] gone by (simp add: bookmarkFor_def)
  have here: "m_entries (swapTo old new b l) = xs @ Some new # ys \<and> listAsserts (swapTo old new b l)"
    using assms(2-4) b by (simp add: swapTo_def replace_entry_def ASSERT_list_def Let_def list_update_append)
  have after: "m_entries (swapTo old new (moveToAfter (Suc (length xs + length zs)) b) l) = xs @ zs @ e # Some new # ws
      \<and> listAsserts (swapTo old new (moveToAfter (Suc (length xs + length zs)) b) l)"
    if "ys = zs @ e # ws" for zs e ws
  proof -
    let ?l = "l\<lparr>m_entries := xs @ Some old # zs @ e # Some new # ws\<rparr>"
    have "swapTo old new (moveToAfter (Suc (length xs + length zs)) b) l = remove_entry old ?l"
      using assms(2-4) that
      by (simp add: swapTo_def moveToAfter_def ASSERT_list_def Let_def list_size_def)
    moreover have "m_entries (remove_entry old ?l) = xs @ zs @ e # Some new # ws"
      using gone that new by (intro remove_entry_split [of ?l xs, simplified]) auto
    moreover have "listAsserts (remove_entry old ?l)"
      using assms(2) by (simp add: remove_entry_def split: option.split)
    ultimately show ?thesis by simp
  qed
  have before: "m_entries (swapTo old new (moveToAfter (length zs) b) l) = zs @ e # Some new # ws @ ys
      \<and> listAsserts (swapTo old new (moveToAfter (length zs) b) l)" if "xs = zs @ e # ws" for zs e ws
  proof -
    let ?l = "l\<lparr>m_entries := (zs @ e # Some new # ws) @ Some old # ys\<rparr>"
    have "swapTo old new (moveToAfter (length zs) b) l = remove_entry old ?l"
      using assms(2-4) that
      by (simp add: swapTo_def moveToAfter_def ASSERT_list_def Let_def list_size_def)
    moreover have "m_entries (remove_entry old ?l) = (zs @ e # Some new # ws) @ ys"
      using gone by (intro remove_entry_split) auto
    moreover have "listAsserts (remove_entry old ?l)"
      using assms(2) by (simp add: remove_entry_def split: option.split)
    ultimately show ?thesis by simp
  qed
  show ?thesis using here after before by blast
qed

lemma swapTo_bookmark_witness:
  "\<exists>a b c :: element. m_entries (swapTo a c \<lparr>m_hasBeenMoved = True, m_mark = 1\<rparr>
     \<lparr>m_entries = [Some a, Some b], listAsserts = True\<rparr>) = [Some b, Some c]"
proof -
  define e where "e n = \<lparr>nodeAddress = n, namespaceURI = XHTML, localName = ustr ''b''\<rparr>" for n
  have ne: "e 0 \<noteq> e 1" "e 0 \<noteq> e 2" "e 1 \<noteq> e 2" by (simp_all add: e_def)
  let ?l = "\<lparr>m_entries = [Some (e 0), Some (e 1)], listAsserts = True\<rparr>"
  have "bookmarkFor (e 0) ?l = Some \<lparr>m_hasBeenMoved = False, m_mark = 0\<rparr>"
    using ne by (simp add: bookmarkFor_def reverseFind_def numeral_2_eq_2)
  then have "m_entries (swapTo (e 0) (e 2) (moveToAfter 1 \<lparr>m_hasBeenMoved = False, m_mark = 0\<rparr>) ?l)
      = [Some (e 1), Some (e 2)]"
    using swapTo_bookmark [of ?l "e 2" "[]" "e 0" "[Some (e 1)]"] ne
    by (force simp: formattingList_ok_def isMarker_def)
  then show ?thesis by (auto simp: moveToAfter_def)
qed

text \<open>C21: Clearing the list back to the last marker undoes everything appended since the marker, and a
  look-up by name sees only the entries after the last marker.\<close>

theorem marker_roundtrip:
  "clearToLastMarker (fold append_entry es (appendMarker l)) = l
   \<and> closestElementInScopeWithName n (fold append_entry es (appendMarker l))
       = find (\<lambda>e. hasLocalName e n) (rev es)"
proof -
  have es: "fold append_entry es l' = l'\<lparr>m_entries := m_entries l' @ map Some es\<rparr>" for l'
    by (induction es arbitrary: l') (simp_all add: append_entry_def)
  have "closest_loop n (map Some fs @ None # gs) = find (\<lambda>e. hasLocalName e n) fs" for fs gs
    by (induction fs) simp_all
  from this [of "rev es"] show ?thesis
    using clear_loop_append [of "map Some es" "m_entries l"]
    by (simp add: es clearToLastMarker_def appendMarker_def closestElementInScopeWithName_def isMarker_def rev_map)
qed

end
