(* ===== verification/ContainerNode.thy ===== *)
theory ContainerNode
  imports Main "HOL-Library.Monad_Syntax"
begin

text \<open>
  The tree mutations the HTML parser uses: \<^verbatim>\<open>WebCore/dom/ContainerNode.cpp\<close> (\<open>parserAddChild\<close>,
  \<open>parserInsertBefore\<close>, \<open>parserRemoveChild\<close>, \<open>takeAllChildrenFrom\<close>) and
  \<^verbatim>\<open>WebCore/dom/ContainerNodeAlgorithms.h\<close>.  A node is its address; its five links are the pointers of
  the objects, \<open>None\<close> for null.  Left out are the notifications (\<open>childrenChanged\<close>,
  \<open>insertedIntoDocument\<close>, \<open>removedFromDocument\<close>, the inspector) and the render tree, and document
  fragments, which the parser never adds.  \<open>domAsserts\<close> is the ghost of the debug build.
\<close>

section \<open>The links\<close>

record node =
  parentNode :: "nat option"
  previousSibling :: "nat option"
  nextSibling :: "nat option"
  firstChild :: "nat option"
  lastChild :: "nat option"

record dom =
  links :: "nat \<Rightarrow> node"
  domAsserts :: bool

definition newNode :: node where
  "newNode = \<lparr>parentNode = None, previousSibling = None, nextSibling = None, firstChild = None, lastChild = None\<rparr>"

definition ASSERT_dom :: "bool \<Rightarrow> dom \<Rightarrow> dom" where
  "ASSERT_dom b d = (if b then d else d\<lparr>domAsserts := False\<rparr>)"

definition updNode :: "nat \<Rightarrow> (node \<Rightarrow> node) \<Rightarrow> dom \<Rightarrow> dom" where
  "updNode n f d = d\<lparr>links := (links d)(n := f (links d n))\<rparr>"

definition setParent :: "nat \<Rightarrow> nat option \<Rightarrow> dom \<Rightarrow> dom" where
  "setParent n p = updNode n (\<lambda>l. l\<lparr>parentNode := p\<rparr>)"

definition setPreviousSibling :: "nat \<Rightarrow> nat option \<Rightarrow> dom \<Rightarrow> dom" where
  "setPreviousSibling n p = updNode n (\<lambda>l. l\<lparr>previousSibling := p\<rparr>)"

definition setNextSibling :: "nat \<Rightarrow> nat option \<Rightarrow> dom \<Rightarrow> dom" where
  "setNextSibling n p = updNode n (\<lambda>l. l\<lparr>nextSibling := p\<rparr>)"

definition setFirstChild :: "nat \<Rightarrow> nat option \<Rightarrow> dom \<Rightarrow> dom" where
  "setFirstChild n c = updNode n (\<lambda>l. l\<lparr>firstChild := c\<rparr>)"

definition setLastChild :: "nat \<Rightarrow> nat option \<Rightarrow> dom \<Rightarrow> dom" where
  "setLastChild n c = updNode n (\<lambda>l. l\<lparr>lastChild := c\<rparr>)"

section \<open>Operations\<close>

definition appendChildToContainer :: "nat \<Rightarrow> nat \<Rightarrow> dom \<Rightarrow> dom" where
  "appendChildToContainer child container d =
     (let d = setParent child (Some container) d;
          d = (case lastChild (links d container) of
                 Some l \<Rightarrow> setNextSibling l (Some child) (setPreviousSibling child (Some l) d)
               | None \<Rightarrow> setFirstChild container (Some child) d)
      in setLastChild container (Some child) d)"

definition parserAddChild :: "nat \<Rightarrow> nat \<Rightarrow> dom \<Rightarrow> dom" where
  "parserAddChild container child d =
     appendChildToContainer child container (ASSERT_dom (parentNode (links d child) = None) d)"

definition insertBeforeCommon :: "nat \<Rightarrow> nat \<Rightarrow> nat \<Rightarrow> dom \<Rightarrow> dom" where
  "insertBeforeCommon container nextChild newChild d =
     (let d = ASSERT_dom (parentNode (links d newChild) = None) d;
          d = ASSERT_dom (nextSibling (links d newChild) = None) d;
          d = ASSERT_dom (previousSibling (links d newChild) = None) d;
          prev = previousSibling (links d nextChild);
          d = ASSERT_dom (lastChild (links d container) \<noteq> prev) d;
          d = setPreviousSibling nextChild (Some newChild) d;
          d = (case prev of
                 Some p \<Rightarrow>
                   let d = ASSERT_dom (firstChild (links d container) \<noteq> Some nextChild) d;
                       d = ASSERT_dom (nextSibling (links d p) = Some nextChild) d
                   in setNextSibling p (Some newChild) d
               | None \<Rightarrow>
                   setFirstChild container (Some newChild)
                     (ASSERT_dom (firstChild (links d container) = Some nextChild) d));
          d = setParent newChild (Some container) d;
          d = setPreviousSibling newChild prev d
      in setNextSibling newChild (Some nextChild) d)"

definition parserInsertBefore :: "nat \<Rightarrow> nat \<Rightarrow> nat \<Rightarrow> dom \<Rightarrow> dom" where
  "parserInsertBefore container newChild nextChild d =
     (let d = ASSERT_dom (parentNode (links d nextChild) = Some container) d
      in if previousSibling (links d nextChild) = Some newChild \<or> nextChild = newChild then d
         else insertBeforeCommon container nextChild newChild d)"

definition removeBetween :: "nat \<Rightarrow> nat option \<Rightarrow> nat option \<Rightarrow> nat \<Rightarrow> dom \<Rightarrow> dom" where
  "removeBetween container previousChild nextChild oldChild d =
     (let d = ASSERT_dom (parentNode (links d oldChild) = Some container) d;
          d = (case nextChild of Some n \<Rightarrow> setPreviousSibling n previousChild d | None \<Rightarrow> d);
          d = (case previousChild of Some p \<Rightarrow> setNextSibling p nextChild d | None \<Rightarrow> d);
          d = (if firstChild (links d container) = Some oldChild then setFirstChild container nextChild d else d);
          d = (if lastChild (links d container) = Some oldChild then setLastChild container previousChild d else d);
          d = setPreviousSibling oldChild None d;
          d = setNextSibling oldChild None d
      in setParent oldChild None d)"

definition parserRemoveChild :: "nat \<Rightarrow> nat \<Rightarrow> dom \<Rightarrow> dom" where
  "parserRemoveChild container oldChild d =
     (let d = ASSERT_dom (parentNode (links d oldChild) = Some container) d;
          prev = previousSibling (links d oldChild);
          next = nextSibling (links d oldChild)
      in removeBetween container prev next oldChild d)"

text \<open>The loops along the siblings, which would not end on a cyclic list.\<close>

partial_function (option) collectChildren :: "dom \<Rightarrow> nat option \<Rightarrow> nat list option" where
  "collectChildren d c =
     (case c of
        None \<Rightarrow> Some []
      | Some n \<Rightarrow> do { ns \<leftarrow> collectChildren d (nextSibling (links d n)); Some (n # ns) })"

text \<open>
  \<open>removeAllChildren\<close> where every child is referenced from elsewhere, as in \<open>takeAllChildrenFrom\<close>,
  which holds them in a vector: nothing is deleted.
\<close>

partial_function (option) clearChildren :: "dom \<Rightarrow> nat option \<Rightarrow> dom option" where
  "clearChildren d c =
     (case c of
        None \<Rightarrow> Some d
      | Some n \<Rightarrow>
          let next = nextSibling (links d n)
          in clearChildren (setParent n None (setNextSibling n None (setPreviousSibling n None d))) next)"

definition removeAllChildren :: "nat \<Rightarrow> dom \<Rightarrow> dom option" where
  "removeAllChildren container d =
     map_option (\<lambda>d. setLastChild container None (setFirstChild container None d))
       (clearChildren d (firstChild (links d container)))"

text \<open>
  \<open>adoptNode\<close> of a child is the identity on the links: the child has no parent any more and stays in its
  document.  It reports an error (\<open>ASSERT(!ec)\<close>) for documents, document types, entities, notations and read-only nodes only,
  which are never children of an element.
\<close>

definition takeAllChildrenFrom :: "nat \<Rightarrow> nat \<Rightarrow> dom \<Rightarrow> dom option" where
  "takeAllChildrenFrom container oldParent d =
     do { children \<leftarrow> collectChildren d (firstChild (links d oldParent));
          d \<leftarrow> removeAllChildren oldParent d;
          Some (fold (parserAddChild container) children d) }"

declare collectChildren.simps [code] clearChildren.simps [code]

section \<open>The lists of children\<close>

abbreviation hdo :: "'a list \<Rightarrow> 'a option" where
  "hdo xs \<equiv> (if xs = [] then None else Some (hd xs))"

abbreviation lasto :: "'a list \<Rightarrow> 'a option" where
  "lasto xs \<equiv> (if xs = [] then None else Some (last xs))"

text \<open>A part of a list of siblings, between \<open>prev\<close> and \<open>next\<close>.\<close>

fun segment :: "(nat \<Rightarrow> node) \<Rightarrow> nat \<Rightarrow> nat option \<Rightarrow> nat list \<Rightarrow> nat option \<Rightarrow> bool" where
  "segment l p prev [] next \<longleftrightarrow> True"
| "segment l p prev (x # xs) next \<longleftrightarrow>
     parentNode (l x) = Some p \<and> previousSibling (l x) = prev
     \<and> nextSibling (l x) = (if xs = [] then next else Some (hd xs)) \<and> segment l p (Some x) xs next"

text \<open>
  \<open>tree_of d ch\<close>: the links of \<open>d\<close> are those of the forest in which \<open>ch p\<close> are the children of \<open>p\<close>.
\<close>

definition tree_of :: "dom \<Rightarrow> (nat \<Rightarrow> nat list) \<Rightarrow> bool" where
  "tree_of d ch \<longleftrightarrow>
     (\<forall>p. distinct (ch p) \<and> segment (links d) p None (ch p) None
        \<and> firstChild (links d p) = hdo (ch p) \<and> lastChild (links d p) = lasto (ch p))
     \<and> (\<forall>x p. parentNode (links d x) = Some p \<longrightarrow> x \<in> set (ch p))
     \<and> (\<forall>x. parentNode (links d x) = None \<longrightarrow> previousSibling (links d x) = None \<and> nextSibling (links d x) = None)"

lemma segment_append:
  "segment l p prev (xs @ ys) next \<longleftrightarrow>
     segment l p prev xs (if ys = [] then next else Some (hd ys))
     \<and> segment l p (if xs = [] then prev else Some (last xs)) ys next"
  by (induction xs arbitrary: prev) auto

definition same_links :: "node \<Rightarrow> node \<Rightarrow> bool" where
  "same_links m n \<longleftrightarrow> parentNode m = parentNode n \<and> previousSibling m = previousSibling n
     \<and> nextSibling m = nextSibling n"

lemma segment_cong:
  "\<forall>x \<in> set xs. same_links (l' x) (l x) \<Longrightarrow> segment l' p prev xs next = segment l p prev xs next"
  by (induction xs arbitrary: prev) (auto simp: same_links_def)

lemma segment_parent: "segment l p prev xs next \<Longrightarrow> x \<in> set xs \<Longrightarrow> parentNode (l x) = Some p"
  by (induction xs arbitrary: prev) auto

lemma tree_ofD:
  assumes "tree_of d ch"
  shows "distinct (ch p)" "segment (links d) p None (ch p) None" "firstChild (links d p) = hdo (ch p)"
    "lastChild (links d p) = lasto (ch p)" "x \<in> set (ch p) \<longleftrightarrow> parentNode (links d x) = Some p"
    "parentNode (links d x) = None \<Longrightarrow> previousSibling (links d x) = None \<and> nextSibling (links d x) = None"
  using assms segment_parent [of "links d" p None "ch p" None x] by (auto simp: tree_of_def)

text \<open>Only the children of \<open>p\<close> have changed.\<close>

lemma tree_of_update:
  assumes "tree_of d ch"
    and "\<And>x. x \<notin> set (ch p) \<union> C \<Longrightarrow> same_links (links d' x) (links d x)"
    and "\<And>x. x \<in> C \<Longrightarrow> parentNode (links d x) \<in> {None, Some p}"
    and "\<And>q. q \<noteq> p \<Longrightarrow> firstChild (links d' q) = firstChild (links d q) \<and> lastChild (links d' q) = lastChild (links d q)"
    and "distinct xs" "segment (links d') p None xs None" "firstChild (links d' p) = hdo xs" "lastChild (links d' p) = lasto xs"
    and "\<And>x. x \<in> set (ch p) \<union> C \<Longrightarrow> x \<notin> set xs \<Longrightarrow>
        parentNode (links d' x) = None \<and> previousSibling (links d' x) = None \<and> nextSibling (links d' x) = None"
    and "set xs \<subseteq> set (ch p) \<union> C"
  shows "tree_of d' (ch(p := xs))"
proof -
  note t = tree_ofD [OF assms(1)]
  have other: "same_links (links d' x) (links d x)" if "x \<in> set (ch q)" "q \<noteq> p" for x q
  proof (rule assms(2))
    have "parentNode (links d x) = Some q" using t(5) that by blast
    then show "x \<notin> set (ch p) \<union> C" using t(5) assms(3) [of x] that(2) by auto
  qed
  have seg: "segment (links d') q None (ch q) None" if "q \<noteq> p" for q
    using segment_cong [of "ch q" "links d'" "links d"] other [OF _ that] t(2) by blast
  have "x \<in> set ((ch(p := xs)) q)" if par: "parentNode (links d' x) = Some q" for x q
  proof (cases "x \<in> set (ch p) \<union> C")
    case True
    then have "x \<in> set xs" using assms(9) par by force
    then have "parentNode (links d' x) = Some p" by (rule segment_parent [OF assms(6)])
    then show ?thesis using \<open>x \<in> set xs\<close> par by simp
  next
    case False
    then have "parentNode (links d x) = Some q" using assms(2) par by (simp add: same_links_def)
    then show ?thesis using t(5) False by auto
  qed
  moreover have "previousSibling (links d' x) = None \<and> nextSibling (links d' x) = None"
    if par: "parentNode (links d' x) = None" for x
  proof (cases "x \<in> set (ch p) \<union> C")
    case True
    then show ?thesis using assms(9) segment_parent [OF assms(6)] par by force
  next
    case False
    then show ?thesis using assms(2) [OF False] t(6) par by (simp add: same_links_def)
  qed
  ultimately show ?thesis
    using assms(4-8) t(1,3,4) seg by (simp add: tree_of_def)
qed

lemma links_upd:
  "links (updNode n f d) m = (if m = n then f (links d n) else links d m)"
  "links (ASSERT_dom b d) = links d" "domAsserts (updNode n f d) = domAsserts d"
  "domAsserts (ASSERT_dom b d) \<longleftrightarrow> b \<and> domAsserts d"
  by (auto simp: updNode_def ASSERT_dom_def)

lemmas link_defs = setParent_def setPreviousSibling_def setNextSibling_def setFirstChild_def setLastChild_def
  links_upd same_links_def

lemma tree_of_ASSERT [simp]: "tree_of (ASSERT_dom b d) ch = tree_of d ch"
  by (simp add: tree_of_def links_upd)

lemma parserAddChild_tree:
  assumes "tree_of d ch" "parentNode (links d c) = None" "c \<noteq> p"
  shows "tree_of (parserAddChild p c d) (ch(p := ch p @ [c]))"
    and "domAsserts (parserAddChild p c d) = domAsserts d"
proof -
  note t = tree_ofD [OF assms(1)]
  have c: "c \<notin> set (ch q)" for q using t(5) [of c] assms(2) by simp
  show "domAsserts (parserAddChild p c d) = domAsserts d"
    using assms(2)
    by (simp add: parserAddChild_def appendChildToContainer_def Let_def link_defs split: option.split)
  show "tree_of (parserAddChild p c d) (ch(p := ch p @ [c]))"
  proof (cases "ch p = []")
    case True
    then show ?thesis
      using t(4) [of p] t(6) [OF assms(2)] assms
      by (intro tree_of_update [OF assms(1), where C = "{c}"])
        (auto simp: parserAddChild_def appendChildToContainer_def Let_def link_defs)
  next
    case False
    then obtain ys l where ys: "ch p = ys @ [l]" by (metis append_butlast_last_id)
    then have "l \<notin> set ys" "c \<noteq> l" "c \<notin> set ys" using t(1) [of p] c [of p] by auto
    moreover have last: "lastChild (links d p) = Some l" using t(4) [of p] ys by simp
    let ?d = "parserAddChild p c d"
    have links: "links ?d x = (if x = p then (links d p)\<lparr>lastChild := Some c, nextSibling := if p = l then Some c else nextSibling (links d p)\<rparr>
        else if x = l then (links d l)\<lparr>nextSibling := Some c\<rparr>
        else if x = c then (links d c)\<lparr>parentNode := Some p, previousSibling := Some l\<rparr> else links d x)" for x
      using last assms(3) \<open>c \<noteq> l\<close>
      by (auto simp: parserAddChild_def appendChildToContainer_def Let_def link_defs)
    have "segment (links ?d) p None ys (Some l) = segment (links d) p None ys (Some l)"
      using \<open>l \<notin> set ys\<close> \<open>c \<notin> set ys\<close> by (intro segment_cong) (auto simp: links same_links_def)
    then have "segment (links ?d) p None (ys @ [l, c]) None"
      using t(2) [of p] ys t(6) [OF assms(2)] assms(3) \<open>c \<noteq> l\<close> by (auto simp: segment_append links)
    then show ?thesis
      using t(1,3) [of p] ys c [of p] t(4) assms
      by (intro tree_of_update [OF assms(1), where C = "{c}"]) (auto simp: links same_links_def hd_append)
  qed
qed

lemma tree_of_siblings:
  assumes "tree_of d ch" "ch p = xs @ x # ys"
  shows "parentNode (links d x) = Some p" "previousSibling (links d x) = lasto xs" "nextSibling (links d x) = hdo ys"
    "x \<notin> set xs" "x \<notin> set ys"
  using tree_ofD(1,2) [OF assms(1), of p] by (auto simp: assms(2) segment_append)

lemma parserInsertBefore_tree:
  assumes "tree_of d ch" "parentNode (links d c) = None" "ch p = xs @ n # ys" "c \<noteq> p"
  shows "tree_of (parserInsertBefore p c n d) (ch(p := xs @ c # n # ys))"
    and "domAsserts (parserInsertBefore p c n d) = domAsserts d"
proof -
  note t = tree_ofD [OF assms(1)] and n = tree_of_siblings [OF assms(1,3)]
  have c: "c \<notin> set (ch q)" for q using t(5) [of c] assms(2) by simp
  then have new: "c \<noteq> n" "c \<notin> set xs" "c \<notin> set ys" using c [of p] assms(3) by auto
  have "previousSibling (links d n) \<noteq> Some c" using n(2) new by auto
  then have op: "parserInsertBefore p c n d = insertBeforeCommon p n c (ASSERT_dom True d)"
    using n(1) new by (simp add: parserInsertBefore_def Let_def links_upd)
  have "distinct (xs @ n # ys)" using t(1) [of p] assms(3) by simp
  then have ends: "last (n # ys) \<notin> set xs" "xs \<noteq> [] \<Longrightarrow> hd xs \<noteq> n" by (auto simp: last_in_set)
  then have asserts: "lastChild (links d p) = Some (last (n # ys))" "xs \<noteq> [] \<Longrightarrow> last xs \<noteq> last (n # ys)"
      "xs \<noteq> [] \<Longrightarrow> firstChild (links d p) \<noteq> Some n" "xs = [] \<Longrightarrow> firstChild (links d p) = Some n"
    using t(3,4) [of p] assms(3) by (auto dest: last_in_set split: if_splits)
  have before: "nextSibling (links d (last xs)) = Some n" if "xs \<noteq> []"
    using tree_of_siblings(3) [OF assms(1), of p "butlast xs" "last xs" "n # ys"] assms(3) that by simp
  show "domAsserts (parserInsertBefore p c n d) = domAsserts d"
    using before assms(2,4) t(6) [OF assms(2)] n asserts new
    by (auto simp: op insertBeforeCommon_def Let_def link_defs)
  show "tree_of (parserInsertBefore p c n d) (ch(p := xs @ c # n # ys))"
  proof (cases "xs = []")
    case True
    then have links: "links (parserInsertBefore p c n d) x =
        (let l = (if x = p then (links d p)\<lparr>firstChild := Some c\<rparr> else links d x)
         in if x = c then l\<lparr>parentNode := Some p, previousSibling := None, nextSibling := Some n\<rparr>
            else if x = n then l\<lparr>previousSibling := Some c\<rparr> else l)" for x
      using n(2) assms(4) new
      by (auto simp: op insertBeforeCommon_def Let_def link_defs)
    let ?l = "links (parserInsertBefore p c n d)"
    have "segment ?l p (Some n) ys None = segment (links d) p (Some n) ys None"
      using n(5) new by (intro segment_cong) (auto simp: links same_links_def Let_def)
    then have "segment ?l p None (c # n # ys) None"
      using t(2) [of p] True assms(3,4) new n(1) by (auto simp: links Let_def)
    then show ?thesis
      using t(1) [of p] t(3,4) True assms c [of p] new
      by (intro tree_of_update [OF assms(1), where C = "{c}"]) (auto simp: links same_links_def Let_def)
  next
    case False
    then obtain zs k where zs: "xs = zs @ [k]" by (metis append_butlast_last_id)
    have k: "k \<noteq> n" "k \<notin> set zs" "k \<notin> set ys" "k \<noteq> c" "previousSibling (links d n) = Some k"
      "n \<notin> set zs" "n \<notin> set ys" "c \<notin> set zs" "k \<in> set xs"
      using t(1) [of p] assms(3) zs new n(2) by auto
    then have links: "links (parserInsertBefore p c n d) x =
        (if x = c then (links d c)\<lparr>parentNode := Some p, previousSibling := Some k, nextSibling := Some n\<rparr>
         else if x = n then (links d n)\<lparr>previousSibling := Some c\<rparr>
         else if x = k then (links d k)\<lparr>nextSibling := Some c\<rparr> else links d x)" for x
      using new by (auto simp: op insertBeforeCommon_def Let_def link_defs)
    let ?l = "links (parserInsertBefore p c n d)"
    have "segment ?l p (Some n) ys None = segment (links d) p (Some n) ys None"
      using k new by (intro segment_cong) (auto simp: links same_links_def)
    moreover have "segment ?l p None zs (Some k) = segment (links d) p None zs (Some k)"
      using k new by (intro segment_cong) (auto simp: links same_links_def)
    ultimately have "segment ?l p None ((zs @ [k]) @ c # n # ys) None"
      using t(2) [of p] assms(3,4) zs new k unfolding segment_append by (auto simp: links segment_append)
    then have "segment ?l p None (xs @ c # n # ys) None" by (simp add: zs)
    then show ?thesis
      using t(1) [of p] t(3,4) False assms c [of p] new k
      by (intro tree_of_update [OF assms(1), where C = "{c}"]) (auto simp: links same_links_def)
  qed
qed

lemma parserRemoveChild_tree:
  assumes "tree_of d ch" "ch p = xs @ x # ys"
  shows "tree_of (parserRemoveChild p x d) (ch(p := xs @ ys))"
    and "domAsserts (parserRemoveChild p x d) = domAsserts d"
    and "parentNode (links (parserRemoveChild p x d) x) = None"
proof -
  note t = tree_ofD [OF assms(1)] and x = tree_of_siblings [OF assms]
  have d: "distinct xs" "distinct ys" "set xs \<inter> set ys = {}" using t(1) [of p] assms(2) by auto
  then have ends: "xs \<noteq> [] \<Longrightarrow> last xs \<notin> set ys" "ys \<noteq> [] \<Longrightarrow> hd ys \<notin> set xs"
    using last_in_set [of xs] hd_in_set [of ys] by blast+
  show "domAsserts (parserRemoveChild p x d) = domAsserts d"
    using x(1) by (simp add: parserRemoveChild_def removeBetween_def Let_def link_defs split: option.split)
  show "parentNode (links (parserRemoveChild p x d) x) = None"
    by (simp add: parserRemoveChild_def removeBetween_def Let_def link_defs)
  let ?l = "links (parserRemoveChild p x d)"
  note defs = parserRemoveChild_def removeBetween_def Let_def link_defs
  have parent: "parentNode (?l y) = (if y = x then None else parentNode (links d y))" for y
    using x by (cases "xs = []"; cases "ys = []") (auto simp: defs)
  have prev: "previousSibling (?l y) = (if y = x then None
      else if ys \<noteq> [] \<and> y = hd ys then lasto xs else previousSibling (links d y))" for y
    using x by (cases "xs = []"; cases "ys = []") (auto simp: defs)
  have "next": "nextSibling (?l y) = (if y = x then None
      else if xs \<noteq> [] \<and> y = last xs then hdo ys else nextSibling (links d y))" for y
    using x by (cases "xs = []"; cases "ys = []") (auto simp: defs)
  note links = parent prev "next"
  have children: "firstChild (?l q) = (if q = p \<and> firstChild (links d p) = Some x then hdo ys else firstChild (links d q))"
      "lastChild (?l q) = (if q = p \<and> lastChild (links d p) = Some x then lasto xs else lastChild (links d q))" for q
    using x by (cases "xs = []"; cases "ys = []"; auto simp: defs)+
  have "segment ?l p None xs (hdo ys)"
  proof (cases "xs = []")
    case False
    then obtain zs k where zs: "xs = zs @ [k]" by (metis append_butlast_last_id)
    have "segment ?l p None zs (Some k) = segment (links d) p None zs (Some k)"
      using zs x(4) d ends by (intro segment_cong ballI) (auto simp: same_links_def links)
    moreover have "k \<noteq> x" "ys \<noteq> [] \<Longrightarrow> k \<noteq> hd ys" using zs x(4) d hd_in_set by fastforce+
    ultimately show ?thesis
      using t(2) [of p] assms(2) zs by (auto simp: segment_append links)
  qed simp
  moreover have "segment ?l p (lasto xs) ys None"
  proof (cases ys)
    case (Cons k zs)
    have "segment ?l p (Some k) zs None = segment (links d) p (Some k) zs None"
      using Cons x(5) d ends by (intro segment_cong ballI) (auto simp: same_links_def links)
    moreover have "k \<noteq> x" "xs \<noteq> [] \<Longrightarrow> k \<noteq> last xs" using Cons x(5) d last_in_set by fastforce+
    ultimately show ?thesis
      using t(2) [of p] assms(2) Cons by (auto simp: segment_append links)
  qed simp
  ultimately have "segment ?l p None (xs @ ys) None" by (auto simp: segment_append)
  moreover have first: "firstChild (?l p) = hdo (xs @ ys)"
    using t(3) [of p] assms(2) x(4) by (cases xs) (auto simp: children)
  moreover have last: "lastChild (?l p) = lasto (xs @ ys)"
    using t(4) [of p] assms(2) x(5) by (cases ys rule: rev_cases) (auto simp: children)
  moreover have "same_links (?l y) (links d y)" if "y \<notin> set (ch p)" for y
  proof -
    have "y \<noteq> x" "xs \<noteq> [] \<Longrightarrow> y \<noteq> last xs" "ys \<noteq> [] \<Longrightarrow> y \<noteq> hd ys" using that assms(2) by auto
    then show ?thesis by (auto simp: same_links_def links)
  qed
  ultimately show "tree_of (parserRemoveChild p x d) (ch(p := xs @ ys))"
    using t(1) [of p] x assms d first last
    by (intro tree_of_update [OF assms(1), where C = "{}"]) (auto simp: children links)
qed

text \<open>The loops along a list of siblings return.\<close>

lemma collectChildren_segment:
  "segment (links d) p prev xs None \<Longrightarrow> collectChildren d (hdo xs) = Some xs"
proof (induction xs arbitrary: prev)
  case (Cons x xs)
  then have "collectChildren d (nextSibling (links d x)) = Some xs" by auto
  then show ?case by (subst collectChildren.simps) simp
qed (simp add: collectChildren.simps)

lemma clearChildren_segment:
  assumes "segment (links d) p prev xs None" "distinct xs"
  shows "\<exists>d'. clearChildren d (hdo xs) = Some d' \<and> domAsserts d' = domAsserts d
    \<and> (\<forall>y. parentNode (links d' y) = (if y \<in> set xs then None else parentNode (links d y))
         \<and> previousSibling (links d' y) = (if y \<in> set xs then None else previousSibling (links d y))
         \<and> nextSibling (links d' y) = (if y \<in> set xs then None else nextSibling (links d y))
         \<and> firstChild (links d' y) = firstChild (links d y) \<and> lastChild (links d' y) = lastChild (links d y))"
  using assms
proof (induction xs arbitrary: d prev)
  case Nil
  then show ?case by (simp add: clearChildren.simps)
next
  case (Cons x xs)
  let ?d = "setParent x None (setNextSibling x None (setPreviousSibling x None d))"
  have d: "links ?d = (links d)(x := (links d x)\<lparr>parentNode := None, previousSibling := None, nextSibling := None\<rparr>)"
    "domAsserts ?d = domAsserts d"
    by (simp_all add: link_defs fun_eq_iff)
  have "segment (links ?d) p (Some x) xs None = segment (links d) p (Some x) xs None"
    using Cons.prems(2) by (intro segment_cong) (auto simp: d same_links_def)
  then have "segment (links ?d) p (Some x) xs None" using Cons.prems(1) by simp
  from Cons.IH [OF this] Cons.prems(2) obtain d' where d': "clearChildren ?d (hdo xs) = Some d'"
    "domAsserts d' = domAsserts ?d"
    "\<forall>y. parentNode (links d' y) = (if y \<in> set xs then None else parentNode (links ?d y))
         \<and> previousSibling (links d' y) = (if y \<in> set xs then None else previousSibling (links ?d y))
         \<and> nextSibling (links d' y) = (if y \<in> set xs then None else nextSibling (links ?d y))
         \<and> firstChild (links d' y) = firstChild (links ?d y) \<and> lastChild (links d' y) = lastChild (links ?d y)"
    by auto
  have "nextSibling (links d x) = hdo xs" using Cons.prems(1) by simp
  then have "clearChildren d (Some x) = clearChildren ?d (hdo xs)"
    by (subst clearChildren.simps) (simp only: Let_def option.case)
  then show ?case using d'(1,2) d'(3) by (intro exI [of _ d']) (simp add: d)
qed

lemma removeAllChildren_tree:
  assumes "tree_of d ch"
  shows "\<exists>d'. removeAllChildren p d = Some d' \<and> domAsserts d' = domAsserts d \<and> tree_of d' (ch(p := []))
    \<and> (\<forall>x. parentNode (links d' x) = (if x \<in> set (ch p) then None else parentNode (links d x)))"
proof -
  note t = tree_ofD [OF assms]
  obtain d' where d': "clearChildren d (hdo (ch p)) = Some d'" "domAsserts d' = domAsserts d"
    "\<forall>y. parentNode (links d' y) = (if y \<in> set (ch p) then None else parentNode (links d y))
         \<and> previousSibling (links d' y) = (if y \<in> set (ch p) then None else previousSibling (links d y))
         \<and> nextSibling (links d' y) = (if y \<in> set (ch p) then None else nextSibling (links d y))
         \<and> firstChild (links d' y) = firstChild (links d y) \<and> lastChild (links d' y) = lastChild (links d y)"
    using clearChildren_segment [OF t(2,1)] by blast
  let ?d = "setLastChild p None (setFirstChild p None d')"
  have "removeAllChildren p d = Some ?d" using d'(1) by (simp add: removeAllChildren_def t(3))
  moreover have "tree_of ?d (ch(p := []))"
    using d'(3) by (intro tree_of_update [OF assms, where C = "{}"]) (auto simp: link_defs)
  ultimately show ?thesis using d' by (simp add: link_defs)
qed

lemma fold_parserAddChild_tree:
  "tree_of d ch \<Longrightarrow> distinct cs \<Longrightarrow> p \<notin> set cs \<Longrightarrow> \<forall>c \<in> set cs. parentNode (links d c) = None \<Longrightarrow>
   tree_of (fold (parserAddChild p) cs d) (ch(p := ch p @ cs)) \<and> domAsserts (fold (parserAddChild p) cs d) = domAsserts d"
proof (induction cs arbitrary: d ch)
  case (Cons c cs)
  let ?d = "parserAddChild p c d"
  have step: "tree_of ?d (ch(p := ch p @ [c]))" "domAsserts ?d = domAsserts d"
    using parserAddChild_tree [OF Cons.prems(1)] Cons.prems by auto
  have "parentNode (links ?d c') = None" if "c' \<in> set cs" for c'
  proof -
    have "parentNode (links d c') = None" "c' \<noteq> c" using Cons.prems(2,4) that by auto
    then have "c' \<notin> set ((ch(p := ch p @ [c])) q)" for q using tree_ofD(5) [OF Cons.prems(1)] by simp
    then show ?thesis using tree_ofD(5) [OF step(1)] by (cases "parentNode (links ?d c')") auto
  qed
  then have none: "\<forall>c' \<in> set cs. parentNode (links ?d c') = None" by blast
  have "tree_of (fold (parserAddChild p) cs ?d) ((ch(p := ch p @ [c]))(p := (ch(p := ch p @ [c])) p @ cs))
      \<and> domAsserts (fold (parserAddChild p) cs ?d) = domAsserts ?d"
    by (rule Cons.IH [OF step(1) _ _ none]) (use Cons.prems in auto)
  moreover have "(ch(p := ch p @ [c]))(p := (ch(p := ch p @ [c])) p @ cs) = ch(p := ch p @ c # cs)"
    by (simp add: fun_eq_iff)
  ultimately show ?case using step(2) by (metis fold_simps(2))
qed simp

lemma takeAllChildrenFrom_tree:
  assumes "tree_of d ch" "p \<noteq> q" "p \<notin> set (ch q)"
  shows "\<exists>d'. takeAllChildrenFrom p q d = Some d' \<and> domAsserts d' = domAsserts d
    \<and> tree_of d' (ch(q := [], p := ch p @ ch q))"
proof -
  note t = tree_ofD [OF assms(1)]
  obtain d1 where d1: "removeAllChildren q d = Some d1" "domAsserts d1 = domAsserts d" "tree_of d1 (ch(q := []))"
    "\<forall>x. parentNode (links d1 x) = (if x \<in> set (ch q) then None else parentNode (links d x))"
    using removeAllChildren_tree [OF assms(1)] by blast
  have "collectChildren d (firstChild (links d q)) = Some (ch q)"
    using collectChildren_segment [OF t(2)] by (simp add: t(3))
  then show ?thesis
    using fold_parserAddChild_tree [OF d1(3) t(1) assms(3)] d1 assms(2)
    by (simp add: takeAllChildrenFrom_def)
qed

section \<open>The operations on linked nodes are those on lists of children\<close>

definition emptyDom :: dom where
  "emptyDom = \<lparr>links = (\<lambda>_. newNode), domAsserts = True\<rparr>"

lemma emptyDom_tree: "tree_of emptyDom (\<lambda>_. [])"
  by (simp add: tree_of_def emptyDom_def newNode_def)

text \<open>C19: The pointer updates of the four mutations are the corresponding changes of the lists of children:
  appending a child, inserting it before another, removing it, and moving all children of one node to
  the end of those of another.  The loop along the siblings ends, and no assertion fails.\<close>

theorem dom_refinement:
  assumes "tree_of d ch"
  shows "(parentNode (links d c) = None \<and> c \<noteq> p \<longrightarrow>
      tree_of (parserAddChild p c d) (ch(p := ch p @ [c])) \<and> domAsserts (parserAddChild p c d) = domAsserts d)
    \<and> (parentNode (links d c) = None \<and> c \<noteq> p \<and> ch p = xs @ n # ys \<longrightarrow>
      tree_of (parserInsertBefore p c n d) (ch(p := xs @ c # n # ys))
      \<and> domAsserts (parserInsertBefore p c n d) = domAsserts d)
    \<and> (ch p = xs @ n # ys \<longrightarrow>
      tree_of (parserRemoveChild p n d) (ch(p := xs @ ys)) \<and> domAsserts (parserRemoveChild p n d) = domAsserts d)
    \<and> (p \<noteq> q \<and> p \<notin> set (ch q) \<longrightarrow>
      (\<exists>d'. takeAllChildrenFrom p q d = Some d' \<and> tree_of d' (ch(q := [], p := ch p @ ch q))
         \<and> domAsserts d' = domAsserts d))"
  using parserAddChild_tree [OF assms, of c p] parserInsertBefore_tree [OF assms, of c p xs n ys]
    parserRemoveChild_tree [OF assms, of p xs n ys] takeAllChildrenFrom_tree [OF assms, of p q]
  by blast

lemma dom_refinement_witness:
  "tree_of (parserInsertBefore 0 2 1 (parserAddChild 0 1 emptyDom)) ((\<lambda>_. [])(0 := [2, 1]))"
proof -
  have one: "tree_of (parserAddChild 0 1 emptyDom) ((\<lambda>_. [])(0 := [1]))"
    using dom_refinement [OF emptyDom_tree, of 1 0] by (simp add: emptyDom_def newNode_def)
  have "parentNode (links (parserAddChild 0 1 emptyDom) 2) = None"
    by (simp add: parserAddChild_def appendChildToContainer_def Let_def link_defs emptyDom_def newNode_def)
  then show ?thesis using dom_refinement [OF one, of 2 0 "[]" 1 "[]"] by simp
qed

end
