(* ===== verification/AtomicHTMLToken.thy ===== *)
theory AtomicHTMLToken
  imports HTMLToken HTMLElements
begin

text \<open>
  \<open>AtomicHTMLToken\<close> of \<^verbatim>\<open>WebCore/html/parser/HTMLToken.h\<close>, what the tree builder gets of a token, and
  the part of \<^verbatim>\<open>WebCore/dom/NamedNodeMap\<close> it uses.  A null map is \<open>None\<close>.  The constructor for fake
  tokens leaves \<open>m_selfClosing\<close> uninitialised: \<open>a_selfClosing\<close> is then \<open>None\<close>.
\<close>

section \<open>Attribute maps\<close>

type_synonym attributeMap = "(qualifiedName \<times> ustr) list"

definition getAttributeItem :: "qualifiedName \<Rightarrow> attributeMap \<Rightarrow> (qualifiedName \<times> ustr) option" where
  "getAttributeItem n m = find (\<lambda>a. qn_matches (fst a) n) m"

definition insertAttribute :: "bool \<Rightarrow> qualifiedName \<times> ustr \<Rightarrow> attributeMap \<Rightarrow> attributeMap" where
  "insertAttribute allowDuplicates a m =
     (if allowDuplicates \<or> getAttributeItem (fst a) m = None then m @ [a] else m)"

fun removeAttribute :: "qualifiedName \<Rightarrow> attributeMap \<Rightarrow> attributeMap" where
  "removeAttribute n [] = []"
| "removeAttribute n (a # m) = (if qn_matches (fst a) n then m else a # removeAttribute n m)"

section \<open>The token\<close>

record atomicToken =
  a_type :: TokenType
  a_name :: ustr
  a_data :: ustr
  a_externalCharacters :: ustr
  a_doctypeData :: "DoctypeData option"
  a_selfClosing :: "bool option"
  a_attributes :: "attributeMap option"
  a_asserts :: bool

definition addTokenAttribute :: "Attribute \<Rightarrow> attributeMap option \<times> bool \<Rightarrow> attributeMap option \<times> bool" where
  "addTokenAttribute a = (\<lambda>(m, ok).
     if m_name a = [] then (m, ok)
     else (Some (insertAttribute False (plainName (m_name a), m_value a) (case m of None \<Rightarrow> [] | Some m \<Rightarrow> m)),
           ok \<and> m_start (m_nameRange a) \<noteq> 0 \<and> m_end (m_nameRange a) \<noteq> 0
              \<and> m_start (m_valueRange a) \<noteq> 0 \<and> m_end (m_valueRange a) \<noteq> 0))"

definition atomicToken_of :: "token \<Rightarrow> atomicToken" where
  "atomicToken_of t =
     (let a = \<lparr>a_type = m_type t, a_name = [], a_data = [], a_externalCharacters = [], a_doctypeData = None,
                a_selfClosing = None, a_attributes = None, a_asserts = True\<rparr>
      in case m_type t of
           Uninitialized \<Rightarrow> a\<lparr>a_asserts := False\<rparr>
         | DOCTYPE \<Rightarrow> a\<lparr>a_name := m_data t, a_doctypeData := m_doctypeData t\<rparr>
         | EndOfFile \<Rightarrow> a
         | StartTag \<Rightarrow>
             (let (m, ok) = fold addTokenAttribute (m_attributes t) (None, True)
              in a\<lparr>a_name := m_data t, a_selfClosing := Some (m_selfClosing t), a_attributes := m, a_asserts := ok\<rparr>)
         | EndTag \<Rightarrow>
             (let (m, ok) = fold addTokenAttribute (m_attributes t) (None, True)
              in a\<lparr>a_name := m_data t, a_selfClosing := Some (m_selfClosing t), a_attributes := m, a_asserts := ok\<rparr>)
         | Comment \<Rightarrow> a\<lparr>a_data := m_data t\<rparr>
         | Character \<Rightarrow> a\<lparr>a_externalCharacters := m_data t\<rparr>)"

text \<open>The fake tokens.\<close>

definition fakeToken :: "TokenType \<Rightarrow> ustr \<Rightarrow> attributeMap option \<Rightarrow> atomicToken" where
  "fakeToken ty n m =
     \<lparr>a_type = ty, a_name = n, a_data = [], a_externalCharacters = [], a_doctypeData = None,
      a_selfClosing = None, a_attributes = m, a_asserts = ty \<in> {StartTag, EndTag, DOCTYPE}\<rparr>"

definition token_getAttributeItem :: "qualifiedName \<Rightarrow> atomicToken \<Rightarrow> (qualifiedName \<times> ustr) option" where
  "token_getAttributeItem n t = (case a_attributes t of None \<Rightarrow> None | Some m \<Rightarrow> getAttributeItem n m)"

section \<open>What it holds\<close>

lemma getAttributeItem_plain:
  "\<forall>a \<in> set m. \<exists>n. fst a = plainName n \<Longrightarrow>
   map_option snd (getAttributeItem (plainName n) m) = map_of m (plainName n)"
  by (induction m) (auto simp: getAttributeItem_def)

lemma getAttributeItem_None: "getAttributeItem n m = None \<longleftrightarrow> (\<forall>a \<in> set m. \<not> qn_matches (fst a) n)"
  by (auto simp: getAttributeItem_def find_None_iff)

lemma map_of_append_old: "k \<in> fst ` set m \<Longrightarrow> map_of (m @ [(k, v)]) = map_of m"
proof
  fix x
  assume "k \<in> fst ` set m"
  then have "map_of m x = None \<Longrightarrow> x \<noteq> k" by (auto simp: map_of_eq_None_iff)
  then show "map_of (m @ [(k, v)]) x = map_of m x"
    by (cases "map_of m x") (simp_all add: map_add_def)
qed

lemma getAttributeItem_absent:
  assumes "\<forall>a \<in> set m. \<exists>n. fst a = plainName n"
  shows "getAttributeItem (plainName n) m = None \<longleftrightarrow> plainName n \<notin> fst ` set m"
proof -
  have "qn_matches (fst a) (plainName n) \<longleftrightarrow> fst a = plainName n" if "a \<in> set m" for a
    using assms that by (metis plainName_simps(3,4))
  then show ?thesis unfolding getAttributeItem_None by force
qed

definition named :: "Attribute \<Rightarrow> bool" where
  "named a \<longleftrightarrow> m_name a \<noteq> []"

lemma fold_addTokenAttribute:
  assumes "\<forall>a \<in> set (case m of None \<Rightarrow> [] | Some m \<Rightarrow> m). \<exists>n. fst a = plainName n"
    and "distinct (map fst (case m of None \<Rightarrow> [] | Some m \<Rightarrow> m))"
    and "fold addTokenAttribute as (m, ok) = (m', ok')"
  shows "(\<forall>a \<in> set (case m' of None \<Rightarrow> [] | Some m \<Rightarrow> m). \<exists>n. fst a = plainName n)
    \<and> distinct (map fst (case m' of None \<Rightarrow> [] | Some m \<Rightarrow> m))
    \<and> map_of (case m' of None \<Rightarrow> [] | Some m \<Rightarrow> m) =
       map_of ((case m of None \<Rightarrow> [] | Some m \<Rightarrow> m) @ map (\<lambda>a. (plainName (m_name a), m_value a)) (filter named as))
    \<and> (m' = None \<longleftrightarrow> m = None \<and> filter named as = [])
    \<and> (ok' \<longleftrightarrow> ok \<and> (\<forall>a \<in> set (filter named as). m_start (m_nameRange a) \<noteq> 0 \<and> m_end (m_nameRange a) \<noteq> 0
              \<and> m_start (m_valueRange a) \<noteq> 0 \<and> m_end (m_valueRange a) \<noteq> 0))"
  using assms
proof (induction as arbitrary: m ok)
  case (Cons a as)
  let ?l = "case m of None \<Rightarrow> [] | Some m \<Rightarrow> m"
  obtain m1 ok1 where one: "addTokenAttribute a (m, ok) = (m1, ok1)" by fastforce
  let ?l1 = "case m1 of None \<Rightarrow> [] | Some m \<Rightarrow> m"
  have absent: "getAttributeItem (plainName n) ?l = None \<longleftrightarrow> plainName n \<notin> fst ` set ?l" for n
    by (rule getAttributeItem_absent [OF Cons.prems(1)])
  have l1: "(\<forall>a \<in> set ?l1. \<exists>n. fst a = plainName n) \<and> distinct (map fst ?l1)
      \<and> map_of ?l1 = map_of (?l @ map (\<lambda>a. (plainName (m_name a), m_value a)) (filter named [a]))"
  proof (cases "named a \<and> getAttributeItem (plainName (m_name a)) ?l = None")
    case True
    then have "?l1 = ?l @ [(plainName (m_name a), m_value a)]"
      using one by (auto simp: addTokenAttribute_def named_def insertAttribute_def)
    moreover have "plainName (m_name a) \<notin> fst ` set ?l" using True absent by blast
    ultimately show ?thesis using True Cons.prems(1,2) by simp
  next
    case False
    then have "?l1 = ?l" using one by (auto simp: addTokenAttribute_def named_def insertAttribute_def split: if_splits)
    moreover have "map_of ?l = map_of (?l @ map (\<lambda>a. (plainName (m_name a), m_value a)) (filter named [a]))"
    proof (cases "named a")
      case True
      then have "plainName (m_name a) \<in> fst ` set ?l" using False absent by blast
      from map_of_append_old [OF this] show ?thesis using True by simp
    qed simp
    ultimately show ?thesis using Cons.prems(1,2) by simp
  qed
  have rest: "fold addTokenAttribute as (m1, ok1) = (m', ok')" using Cons.prems(3) one by simp
  have m1: "m1 = None \<longleftrightarrow> m = None \<and> \<not> named a"
    "ok1 \<longleftrightarrow> ok \<and> (named a \<longrightarrow> m_start (m_nameRange a) \<noteq> 0 \<and> m_end (m_nameRange a) \<noteq> 0
              \<and> m_start (m_valueRange a) \<noteq> 0 \<and> m_end (m_valueRange a) \<noteq> 0)"
    using one by (auto simp: addTokenAttribute_def named_def split: if_splits)
  show ?case
    using Cons.IH [OF _ _ rest] l1 m1 by auto
qed simp

text \<open>C22: The attributes of a tag token are, for every name but the empty one, the first value the
  tokenizer found under it; the map is null exactly when there is none, it has no name twice, and the
  assertions on the ranges are the only ones that could fail.\<close>

theorem atomicToken_attributes:
  assumes "m_type t = StartTag \<or> m_type t = EndTag"
  shows "(\<forall>n. n \<noteq> [] \<longrightarrow> map_option snd (token_getAttributeItem (plainName n) (atomicToken_of t))
        = map_option m_value (find (\<lambda>a. m_name a = n) (m_attributes t)))
    \<and> (a_attributes (atomicToken_of t) = None \<longleftrightarrow> (\<forall>a \<in> set (m_attributes t). m_name a = []))
    \<and> (\<forall>m. a_attributes (atomicToken_of t) = Some m \<longrightarrow> distinct (map fst m))
    \<and> (a_asserts (atomicToken_of t) \<longleftrightarrow> (\<forall>a \<in> set (m_attributes t). m_name a \<noteq> [] \<longrightarrow>
          m_start (m_nameRange a) \<noteq> 0 \<and> m_end (m_nameRange a) \<noteq> 0
          \<and> m_start (m_valueRange a) \<noteq> 0 \<and> m_end (m_valueRange a) \<noteq> 0))"
proof -
  obtain m ok where f: "fold addTokenAttribute (m_attributes t) (None, True) = (m, ok)" by fastforce
  have tok: "a_attributes (atomicToken_of t) = m" "a_asserts (atomicToken_of t) = ok"
    using assms f by (auto simp: atomicToken_of_def Let_def)
  let ?l = "case m of None \<Rightarrow> [] | Some m \<Rightarrow> m"
  have r: "\<forall>a \<in> set ?l. \<exists>n. fst a = plainName n" "distinct (map fst ?l)"
    "map_of ?l = map_of (map (\<lambda>a. (plainName (m_name a), m_value a)) (filter named (m_attributes t)))"
    "m = None \<longleftrightarrow> filter named (m_attributes t) = []"
    "ok \<longleftrightarrow> (\<forall>a \<in> set (filter named (m_attributes t)). m_start (m_nameRange a) \<noteq> 0 \<and> m_end (m_nameRange a) \<noteq> 0
              \<and> m_start (m_valueRange a) \<noteq> 0 \<and> m_end (m_valueRange a) \<noteq> 0)"
    using fold_addTokenAttribute [OF _ _ f] by simp_all
  have find: "map_of (map (\<lambda>a. (plainName (m_name a), m_value a)) (filter named as)) (plainName n)
      = map_option m_value (find (\<lambda>a. m_name a = n) as)" if "n \<noteq> []" for n as
    using that by (induction as) (auto simp: named_def)
  have "map_option snd (token_getAttributeItem (plainName n) (atomicToken_of t))
        = map_option m_value (find (\<lambda>a. m_name a = n) (m_attributes t))" if "n \<noteq> []" for n
  proof -
    have "map_option snd (getAttributeItem (plainName n) ?l) = map_of ?l (plainName n)"
      by (rule getAttributeItem_plain [OF r(1)])
    moreover have "token_getAttributeItem (plainName n) (atomicToken_of t) = getAttributeItem (plainName n) ?l"
      by (simp add: token_getAttributeItem_def tok getAttributeItem_def split: option.split)
    ultimately show ?thesis using r(3) find [OF that] by simp
  qed
  then show ?thesis using r(2,4,5) by (auto simp: tok named_def filter_empty_conv)
qed

lemma atomicToken_attributes_witness:
  "map_option snd (token_getAttributeItem (plainName (ustr ''x''))
     (atomicToken_of (newToken\<lparr>m_type := StartTag, m_attributes :=
        [newAttribute\<lparr>m_name := ustr ''x'', m_value := ustr ''1''\<rparr>, newAttribute\<lparr>m_name := ustr ''x'', m_value := ustr ''2''\<rparr>]\<rparr>)))
   = Some (ustr ''1'')"
proof -
  have "ustr ''x'' \<noteq> []" by (simp add: ustr_def)
  then show ?thesis
    using atomicToken_attributes [of "newToken\<lparr>m_type := StartTag, m_attributes :=
        [newAttribute\<lparr>m_name := ustr ''x'', m_value := ustr ''1''\<rparr>, newAttribute\<lparr>m_name := ustr ''x'', m_value := ustr ''2''\<rparr>]\<rparr>"]
    by simp
qed

end
