(* ===== verification/HTMLDocument.thy ===== *)
theory HTMLDocument
  imports HTMLElements
begin

text \<open>
  \<open>HTMLDocument::setCompatibilityModeFromDoctype\<close> (\<^verbatim>\<open>WebCore/html/HTMLDocument.cpp\<close>) and
  \<open>Document::setCompatibilityMode\<close> (\<^verbatim>\<open>WebCore/dom/Document.cpp\<close>): the choice between quirks mode,
  limited quirks mode and standards mode.  The case folding of the Unicode library is the parameter
  \<open>cfold\<close>; the reparsing of the user style sheets, and the \<open>ASSERT\<close> that there are none yet, are left out.
\<close>

section \<open>The decision\<close>

datatype compatibilityMode = QuirksMode | LimitedQuirksMode | NoQuirksMode

record compatibility =
  m_compatibilityMode :: compatibilityMode
  m_compatibilityModeLocked :: bool

definition setCompatibilityMode :: "compatibilityMode \<Rightarrow> compatibility \<Rightarrow> compatibility" where
  "setCompatibilityMode mode c =
     (if m_compatibilityModeLocked c \<or> mode = m_compatibilityMode c then c
      else c\<lparr>m_compatibilityMode := mode\<rparr>)"

definition inQuirksMode :: "compatibility \<Rightarrow> bool" where
  "inQuirksMode c \<longleftrightarrow> m_compatibilityMode c = QuirksMode"

definition startsWithIgnoringCase :: "(uchar \<Rightarrow> uchar) \<Rightarrow> ustr \<Rightarrow> string \<Rightarrow> bool" where
  "startsWithIgnoringCase cfold s p \<longleftrightarrow> map cfold (take (length p) s) = map cfold (ustr p)"

definition equalIgnoringCase :: "(uchar \<Rightarrow> uchar) \<Rightarrow> ustr \<Rightarrow> string \<Rightarrow> bool" where
  "equalIgnoringCase cfold s p \<longleftrightarrow> map cfold s = map cfold (ustr p)"

definition quirksPublicIdPrefixes :: "string list" where
  "quirksPublicIdPrefixes =
    [''+//Silmaril//dtd html Pro v0r11 19970101//'',
     ''-//AdvaSoft Ltd//DTD HTML 3.0 asWedit + extensions//'',
     ''-//AS//DTD HTML 3.0 asWedit + extensions//'',
     ''-//IETF//DTD HTML 2.0 Level 1//'',
     ''-//IETF//DTD HTML 2.0 Level 2//'',
     ''-//IETF//DTD HTML 2.0 Strict Level 1//'',
     ''-//IETF//DTD HTML 2.0 Strict Level 2//'',
     ''-//IETF//DTD HTML 2.0 Strict//'',
     ''-//IETF//DTD HTML 2.0//'',
     ''-//IETF//DTD HTML 2.1E//'',
     ''-//IETF//DTD HTML 3.0//'',
     ''-//IETF//DTD HTML 3.2 Final//'',
     ''-//IETF//DTD HTML 3.2//'',
     ''-//IETF//DTD HTML 3//'',
     ''-//IETF//DTD HTML Level 0//'',
     ''-//IETF//DTD HTML Level 1//'',
     ''-//IETF//DTD HTML Level 2//'',
     ''-//IETF//DTD HTML Level 3//'',
     ''-//IETF//DTD HTML Strict Level 0//'',
     ''-//IETF//DTD HTML Strict Level 1//'',
     ''-//IETF//DTD HTML Strict Level 2//'',
     ''-//IETF//DTD HTML Strict Level 3//'',
     ''-//IETF//DTD HTML Strict//'',
     ''-//IETF//DTD HTML//'',
     ''-//Metrius//DTD Metrius Presentational//'',
     ''-//Microsoft//DTD Internet Explorer 2.0 HTML Strict//'',
     ''-//Microsoft//DTD Internet Explorer 2.0 HTML//'',
     ''-//Microsoft//DTD Internet Explorer 2.0 Tables//'',
     ''-//Microsoft//DTD Internet Explorer 3.0 HTML Strict//'',
     ''-//Microsoft//DTD Internet Explorer 3.0 HTML//'',
     ''-//Microsoft//DTD Internet Explorer 3.0 Tables//'',
     ''-//Netscape Comm. Corp.//DTD HTML//'',
     ''-//Netscape Comm. Corp.//DTD Strict HTML//'',
     (''-//O'' @ [CHR 0x27] @ ''Reilly and Associates//DTD HTML 2.0//''),
     (''-//O'' @ [CHR 0x27] @ ''Reilly and Associates//DTD HTML Extended 1.0//''),
     (''-//O'' @ [CHR 0x27] @ ''Reilly and Associates//DTD HTML Extended Relaxed 1.0//''),
     ''-//SoftQuad Software//DTD HoTMetaL PRO 6.0::19990601::extensions to HTML 4.0//'',
     ''-//SoftQuad//DTD HoTMetaL PRO 4.0::19971010::extensions to HTML 4.0//'',
     ''-//Spyglass//DTD HTML 2.0 Extended//'',
     ''-//SQ//DTD HTML 2.0 HoTMetaL + extensions//'',
     ''-//Sun Microsystems Corp.//DTD HotJava HTML//'',
     ''-//Sun Microsystems Corp.//DTD HotJava Strict HTML//'',
     ''-//W3C//DTD HTML 3 1995-03-24//'',
     ''-//W3C//DTD HTML 3.2 Draft//'',
     ''-//W3C//DTD HTML 3.2 Final//'',
     ''-//W3C//DTD HTML 3.2//'',
     ''-//W3C//DTD HTML 3.2S Draft//'',
     ''-//W3C//DTD HTML 4.0 Frameset//'',
     ''-//W3C//DTD HTML 4.0 Transitional//'',
     ''-//W3C//DTD HTML Experimental 19960712//'',
     ''-//W3C//DTD HTML Experimental 970421//'',
     ''-//W3C//DTD W3 HTML//'',
     ''-//W3O//DTD W3 HTML 3.0//'',
     ''-//WebTechs//DTD Mozilla HTML 2.0//'',
     ''-//WebTechs//DTD Mozilla HTML//'']"

definition isQuirksDoctype :: "(uchar \<Rightarrow> uchar) \<Rightarrow> ustr \<Rightarrow> ustr \<Rightarrow> ustr \<Rightarrow> bool" where
  "isQuirksDoctype cfold name publicId systemId \<longleftrightarrow>
     name \<noteq> ustr ''html''
     \<or> list_ex (startsWithIgnoringCase cfold publicId) quirksPublicIdPrefixes
     \<or> equalIgnoringCase cfold publicId ''-//W3O//DTD W3 HTML Strict 3.0//EN//''
     \<or> equalIgnoringCase cfold publicId ''-/W3C/DTD HTML 4.0 Transitional/EN''
     \<or> equalIgnoringCase cfold publicId ''HTML''
     \<or> equalIgnoringCase cfold systemId ''http://www.ibm.com/data/dtd/v11/ibmxhtml1-transitional.dtd''
     \<or> systemId = [] \<and> startsWithIgnoringCase cfold publicId ''-//W3C//DTD HTML 4.01 Frameset//''
     \<or> systemId = [] \<and> startsWithIgnoringCase cfold publicId ''-//W3C//DTD HTML 4.01 Transitional//''"

definition isLimitedQuirksDoctype :: "(uchar \<Rightarrow> uchar) \<Rightarrow> ustr \<Rightarrow> ustr \<Rightarrow> bool" where
  "isLimitedQuirksDoctype cfold publicId systemId \<longleftrightarrow>
     startsWithIgnoringCase cfold publicId ''-//W3C//DTD XHTML 1.0 Frameset//''
     \<or> startsWithIgnoringCase cfold publicId ''-//W3C//DTD XHTML 1.0 Transitional//''
     \<or> systemId \<noteq> [] \<and> startsWithIgnoringCase cfold publicId ''-//W3C//DTD HTML 4.01 Frameset//''
     \<or> systemId \<noteq> [] \<and> startsWithIgnoringCase cfold publicId ''-//W3C//DTD HTML 4.01 Transitional//''"

text \<open>\<open>doctype()\<close> is the name, the public and the system identifier, \<open>None\<close> for null.\<close>

definition setCompatibilityModeFromDoctype ::
  "(uchar \<Rightarrow> uchar) \<Rightarrow> (ustr \<times> ustr \<times> ustr) option \<Rightarrow> compatibility \<Rightarrow> compatibility" where
  "setCompatibilityModeFromDoctype cfold docType c =
     (case docType of
        None \<Rightarrow> c
      | Some (name, publicId, systemId) \<Rightarrow>
          if isQuirksDoctype cfold name publicId systemId then setCompatibilityMode QuirksMode c
          else if isLimitedQuirksDoctype cfold publicId systemId then setCompatibilityMode LimitedQuirksMode c
          else setCompatibilityMode NoQuirksMode c)"

section \<open>The table of the HTML standard\<close>

text \<open>
  The standard lists the identifiers in lower case.  Here the public identifiers are arranged by their owners:
  every prefix is \<open>-//owner//dtd title//\<close>, but the first.
\<close>

definition quirkyTitles :: "(string \<times> string list) list" where
  "quirkyTitles =
    [(''advasoft ltd'', [''html 3.0 aswedit + extensions'']),
     (''as'', [''html 3.0 aswedit + extensions'']),
     (''ietf'', [''html 2.0 level 1'', ''html 2.0 level 2'', ''html 2.0 strict level 1'', ''html 2.0 strict level 2'',
        ''html 2.0 strict'', ''html 2.0'', ''html 2.1e'', ''html 3.0'', ''html 3.2 final'', ''html 3.2'', ''html 3'',
        ''html level 0'', ''html level 1'', ''html level 2'', ''html level 3'', ''html strict level 0'',
        ''html strict level 1'', ''html strict level 2'', ''html strict level 3'', ''html strict'', ''html'']),
     (''metrius'', [''metrius presentational'']),
     (''microsoft'', [''internet explorer 2.0 html strict'', ''internet explorer 2.0 html'', ''internet explorer 2.0 tables'',
        ''internet explorer 3.0 html strict'', ''internet explorer 3.0 html'', ''internet explorer 3.0 tables'']),
     (''netscape comm. corp.'', [''html'', ''strict html'']),
     (''o'' @ [CHR 0x27] @ ''reilly and associates'', [''html 2.0'', ''html extended 1.0'', ''html extended relaxed 1.0'']),
     (''softquad software'', [''hotmetal pro 6.0::19990601::extensions to html 4.0'']),
     (''softquad'', [''hotmetal pro 4.0::19971010::extensions to html 4.0'']),
     (''spyglass'', [''html 2.0 extended'']),
     (''sq'', [''html 2.0 hotmetal + extensions'']),
     (''sun microsystems corp.'', [''hotjava html'', ''hotjava strict html'']),
     (''w3c'', [''html 3 1995-03-24'', ''html 3.2 draft'', ''html 3.2 final'', ''html 3.2'', ''html 3.2s draft'',
        ''html 4.0 frameset'', ''html 4.0 transitional'', ''html experimental 19960712'', ''html experimental 970421'',
        ''w3 html'']),
     (''w3o'', [''w3 html 3.0'']),
     (''webtechs'', [''mozilla html 2.0'', ''mozilla html''])]"

definition quirkyPrefixes :: "string list" where
  "quirkyPrefixes = ''+//silmaril//dtd html pro v0r11 19970101//''
     # concat (map (\<lambda>(owner, titles). map (\<lambda>title. ''-//'' @ owner @ ''//dtd '' @ title @ ''//'') titles) quirkyTitles)"

text \<open>A text begins with, or is, an identifier when its folded characters are those of the lower-case identifier.\<close>

definition begins :: "(uchar \<Rightarrow> uchar) \<Rightarrow> ustr \<Rightarrow> string \<Rightarrow> bool" where
  "begins cfold s q \<longleftrightarrow> (\<exists>a r. s = a @ r \<and> map cfold a = ustr q)"

definition standardMode :: "(uchar \<Rightarrow> uchar) \<Rightarrow> ustr \<Rightarrow> ustr \<Rightarrow> ustr \<Rightarrow> compatibilityMode" where
  "standardMode cfold name publicId systemId =
     (let html401 = begins cfold publicId ''-//w3c//dtd html 4.01 frameset//''
            \<or> begins cfold publicId ''-//w3c//dtd html 4.01 transitional//'';
          xhtml10 = begins cfold publicId ''-//w3c//dtd xhtml 1.0 frameset//''
            \<or> begins cfold publicId ''-//w3c//dtd xhtml 1.0 transitional//''
      in if name \<noteq> ustr ''html'' \<or> (\<exists>q \<in> set quirkyPrefixes. begins cfold publicId q)
            \<or> map cfold publicId \<in> ustr ` {''-//w3o//dtd w3 html strict 3.0//en//'', ''-/w3c/dtd html 4.0 transitional/en'', ''html''}
            \<or> map cfold systemId = ustr ''http://www.ibm.com/data/dtd/v11/ibmxhtml1-transitional.dtd''
            \<or> html401 \<and> systemId = []
         then QuirksMode
         else if xhtml10 \<or> html401 then LimitedQuirksMode
         else NoQuirksMode)"

section \<open>Properties\<close>

text \<open>Folding a literal of the source gives the literal of the standard.\<close>

definition lowered :: "string \<Rightarrow> string \<Rightarrow> bool" where
  "lowered p q \<longleftrightarrow> map lowerLetter (ustr p) = ustr q \<and> list_all (\<lambda>c. c \<le> 0x7F) (ustr p)"

lemma lowered_fold:
  assumes "lowered p q" "\<forall>c \<le> 0x7F. cfold c = lowerLetter c"
  shows "map cfold (ustr p) = ustr q" "length p = length (ustr q)"
proof -
  have "map cfold (ustr p) = map lowerLetter (ustr p)"
    by (rule map_cong [OF refl]) (use assms in \<open>simp add: lowered_def list_all_iff\<close>)
  also have "\<dots> = ustr q" using assms(1) by (simp only: lowered_def)
  finally show "map cfold (ustr p) = ustr q" .
  then have "length (map cfold (ustr p)) = length (ustr q)" by simp
  then show "length p = length (ustr q)" by (simp add: ustr_def)
qed

lemma startsWithIgnoringCase_begins:
  assumes "lowered p q" "\<forall>c \<le> 0x7F. cfold c = lowerLetter c"
  shows "startsWithIgnoringCase cfold s p = begins cfold s q"
proof -
  note fold = lowered_fold [OF assms]
  have "begins cfold s q \<longleftrightarrow> map cfold (take (length (ustr q)) s) = ustr q"
    unfolding begins_def by (metis append_eq_conv_conj append_take_drop_id length_map)
  then show ?thesis by (simp only: startsWithIgnoringCase_def fold)
qed

lemma equalIgnoringCase_lowered:
  assumes "lowered p q" "\<forall>c \<le> 0x7F. cfold c = lowerLetter c"
  shows "equalIgnoringCase cfold s p \<longleftrightarrow> map cfold s = ustr q"
  by (simp only: equalIgnoringCase_def lowered_fold [OF assms])

lemma lowered_prefixes: "list_all2 lowered quirksPublicIdPrefixes quirkyPrefixes"
  unfolding quirksPublicIdPrefixes_def quirkyPrefixes_def quirkyTitles_def
  apply (simp only: list.map concat.simps prod.case append_Cons append_Nil append_Nil2 list_all2_Cons list_all2_Nil simp_thms)
  apply (intro conjI)
  apply code_simp+
  done

lemma lowered_identifiers:
  "lowered ''-//W3O//DTD W3 HTML Strict 3.0//EN//'' ''-//w3o//dtd w3 html strict 3.0//en//''"
  "lowered ''-/W3C/DTD HTML 4.0 Transitional/EN'' ''-/w3c/dtd html 4.0 transitional/en''"
  "lowered ''HTML'' ''html''"
  "lowered ''http://www.ibm.com/data/dtd/v11/ibmxhtml1-transitional.dtd'' ''http://www.ibm.com/data/dtd/v11/ibmxhtml1-transitional.dtd''"
  "lowered ''-//W3C//DTD HTML 4.01 Frameset//'' ''-//w3c//dtd html 4.01 frameset//''"
  "lowered ''-//W3C//DTD HTML 4.01 Transitional//'' ''-//w3c//dtd html 4.01 transitional//''"
  "lowered ''-//W3C//DTD XHTML 1.0 Frameset//'' ''-//w3c//dtd xhtml 1.0 frameset//''"
  "lowered ''-//W3C//DTD XHTML 1.0 Transitional//'' ''-//w3c//dtd xhtml 1.0 transitional//''"
  by code_simp+

lemma prefixes_begin:
  assumes "\<forall>c \<le> 0x7F. cfold c = lowerLetter c"
  shows "list_ex (startsWithIgnoringCase cfold s) quirksPublicIdPrefixes \<longleftrightarrow> (\<exists>q \<in> set quirkyPrefixes. begins cfold s q)"
proof -
  have "list_ex (startsWithIgnoringCase cfold s) ps \<longleftrightarrow> (\<exists>q \<in> set qs. begins cfold s q)" if "list_all2 lowered ps qs" for ps qs
    using that by induction (auto simp: startsWithIgnoringCase_begins [OF _ assms])
  then show ?thesis using lowered_prefixes by blast
qed



end
