(* ===== verification/HTMLParserIdioms.thy ===== *)
theory HTMLParserIdioms
  imports WebKit_Prelude
begin

text \<open>
  \<^verbatim>\<open>WebCore/html/parser/HTMLParserIdioms\<close> (HTML spaces, \<open>stripLeadingAndTrailingHTMLSpaces\<close>,
  \<open>parseHTMLInteger\<close>) and the integer parser it rests on, \<open>toIntegralType\<close> of
  \<^verbatim>\<open>JavaScriptCore/wtf/text/WTFString.cpp\<close> at the types \<open>int\<close> and \<open>unsigned\<close>.  The parsing of doubles
  goes through \<open>strtod\<close> and is left out.
\<close>

section \<open>Spaces\<close>

definition isHTMLSpace :: "uchar \<Rightarrow> bool" where
  "isHTMLSpace c \<longleftrightarrow> c \<le> ch_SP \<and> (c = ch_SP \<or> c = ch_LF \<or> c = ch_TAB \<or> c = ch_CR \<or> c = ch_FF)"

definition isNotHTMLSpace :: "uchar \<Rightarrow> bool" where
  "isNotHTMLSpace c \<longleftrightarrow> \<not> isHTMLSpace c"

text \<open>The two counting loops, from the front and from the back.\<close>

fun countSpaces :: "ustr \<Rightarrow> nat" where
  "countSpaces [] = 0"
| "countSpaces (c # cs) = (if isNotHTMLSpace c then 0 else Suc (countSpaces cs))"

definition stripLeadingAndTrailingHTMLSpaces :: "ustr \<Rightarrow> ustr" where
  "stripLeadingAndTrailingHTMLSpaces s =
     (let leading = countSpaces s
      in if leading = length s then []
         else let trailing = countSpaces (rev s)
              in take (length s - (leading + trailing)) (drop leading s))"

section \<open>Integers\<close>

text \<open>The limits of the integral type: its greatest value, and whether it is signed.\<close>

record integralType =
  integralMax :: int
  isSigned :: bool

definition int32 :: integralType where
  "int32 = \<lparr>integralMax = 2 ^ 31 - 1, isSigned = True\<rparr>"

definition uint32 :: integralType where
  "uint32 = \<lparr>integralMax = 2 ^ 32 - 1, isSigned = False\<rparr>"

text \<open>A value as the type holds it.\<close>

definition wrapTo :: "integralType \<Rightarrow> int \<Rightarrow> int" where
  "wrapTo ty v =
     (if isSigned ty then (v + (integralMax ty + 1)) mod (2 * (integralMax ty + 1)) - (integralMax ty + 1)
      else v mod (integralMax ty + 1))"

definition isASCIISpace :: "uchar \<Rightarrow> bool" where
  "isASCIISpace c \<longleftrightarrow> c \<le> ch_SP \<and> (c = ch_SP \<or> c \<le> 0xD \<and> 0x9 \<le> c)"

text \<open>\<open>whiteSpaceNeutral\<close> is the direction the Unicode library gives a character.\<close>

definition isSpaceOrNewline :: "(uchar \<Rightarrow> bool) \<Rightarrow> uchar \<Rightarrow> bool" where
  "isSpaceOrNewline whiteSpaceNeutral c = (if c \<le> 0x7F then isASCIISpace c else whiteSpaceNeutral c)"

definition isASCIIAlpha :: "uchar \<Rightarrow> bool" where
  "isASCIIAlpha c \<longleftrightarrow> ch_a \<le> Bit_Operations.or c 0x20 \<and> Bit_Operations.or c 0x20 \<le> ch_z"

definition isCharacterAllowedInBase :: "int \<Rightarrow> uchar \<Rightarrow> bool" where
  "isCharacterAllowedInBase base c \<longleftrightarrow>
     (if c > 0x7F then False
      else if isASCIIDigit c then uint c - uint ch_0 < base
      else if isASCIIAlpha c then
        (let base = min base 36
         in ch_a \<le> c \<and> uint c < uint ch_a + base - 10 \<or> ch_A \<le> c \<and> uint c < uint ch_A + base - 10)
      else False)"

definition digitValue :: "uchar \<Rightarrow> int" where
  "digitValue c =
     (if isASCIIDigit c then uint c - uint ch_0
      else if ch_a \<le> c then uint c - uint ch_a + 10
      else uint c - uint ch_A + 10)"

text \<open>The loop over the digits; \<open>None\<close> is the \<open>goto bye\<close> on overflow.\<close>

fun digits_loop :: "integralType \<Rightarrow> int \<Rightarrow> bool \<Rightarrow> int \<Rightarrow> ustr \<Rightarrow> (int \<times> ustr) option" where
  "digits_loop ty base isNegative v [] = Some (v, [])"
| "digits_loop ty base isNegative v (c # cs) =
     (if \<not> isCharacterAllowedInBase base c then Some (v, c # cs)
      else let maxMultiplier = integralMax ty div base
           in if v > maxMultiplier
                 \<or> v = maxMultiplier \<and> digitValue c > integralMax ty mod base + of_bool isNegative
              then None
              else digits_loop ty base isNegative (wrapTo ty (base * v + digitValue c)) cs)"

text \<open>
  The value and \<open>*ok\<close>.
\<close>

definition toIntegralType :: "integralType \<Rightarrow> (uchar \<Rightarrow> bool) \<Rightarrow> int \<Rightarrow> ustr \<Rightarrow> int \<times> bool" where
  "toIntegralType ty whiteSpaceNeutral base data =
     (let space = isSpaceOrNewline whiteSpaceNeutral;
          data = dropWhile space data;
          isNegative = (isSigned ty \<and> data \<noteq> [] \<and> hd data = ch_DASH);
          data = (if isNegative then tl data
                  else if data \<noteq> [] \<and> hd data = ch_PLUS then tl data else data)
      in if data = [] \<or> \<not> isCharacterAllowedInBase base (hd data) then (0, False)
         else case digits_loop ty base isNegative 0 data of
                None \<Rightarrow> (0, False)
              | Some (v, rest) \<Rightarrow>
                  let v = (if isNegative then wrapTo ty (- v) else v)
                  in if dropWhile space rest = [] then (v, True) else (0, False))"

definition charactersToIntStrict :: "(uchar \<Rightarrow> bool) \<Rightarrow> int \<Rightarrow> ustr \<Rightarrow> int \<times> bool" where
  "charactersToIntStrict = toIntegralType int32"

definition charactersToUIntStrict :: "(uchar \<Rightarrow> bool) \<Rightarrow> int \<Rightarrow> ustr \<Rightarrow> int \<times> bool" where
  "charactersToUIntStrict = toIntegralType uint32"

text \<open>\<open>None\<close> is false: \<open>value\<close> is then untouched.\<close>

definition parseHTMLInteger :: "(uchar \<Rightarrow> bool) \<Rightarrow> ustr \<Rightarrow> int option" where
  "parseHTMLInteger whiteSpaceNeutral input =
     (let position = dropWhile isHTMLSpace input
      in if position = [] then None
         else let sign = (if hd position = ch_DASH then - 1 else 1);
                  position = (if hd position = ch_DASH \<or> hd position = ch_PLUS then tl position else position)
              in if position = [] then None
                 else if \<not> isASCIIDigit (hd position) then None
                 else let digits = takeWhile isASCIIDigit position
                      in Some (sign * fst (charactersToIntStrict whiteSpaceNeutral 10 digits)))"

section \<open>What the parsers compute\<close>

lemma isASCIIDigit_uint: "isASCIIDigit c \<longleftrightarrow> 48 \<le> uint c \<and> uint c \<le> 57"
  by (simp add: isASCIIDigit_def word_le_def)

lemma digit_value:
  assumes "isCharacterAllowedInBase base c"
  shows "0 \<le> digitValue c \<and> digitValue c < base"
  using assms
  by (auto simp: isCharacterAllowedInBase_def digitValue_def isASCIIDigit_uint
      word_le_def Let_def split: if_splits)

text \<open>The number a sequence of digits stands for.\<close>

definition digits_value :: "int \<Rightarrow> int \<Rightarrow> ustr \<Rightarrow> int" where
  "digits_value base v ds = foldl (\<lambda>v c. base * v + digitValue c) v ds"

lemma digits_value_Cons: "digits_value base v (c # cs) = digits_value base (base * v + digitValue c) cs"
  by (simp add: digits_value_def)

lemma digits_value_mono:
  "1 \<le> base \<Longrightarrow> 0 \<le> v \<Longrightarrow> list_all (isCharacterAllowedInBase base) cs \<Longrightarrow> v \<le> digits_value base v cs"
proof (induction cs arbitrary: v)
  case (Cons c cs)
  have "0 \<le> digitValue c" using digit_value [of base c] Cons.prems(3) by simp
  moreover have "v \<le> base * v" using Cons.prems(1,2) mult_right_mono [of 1 base v] by simp
  ultimately have "v \<le> base * v + digitValue c" by simp
  moreover have "base * v + digitValue c \<le> digits_value base v (c # cs)"
    using Cons.IH [of "base * v + digitValue c"] Cons.prems calculation by (simp add: digits_value_Cons)
  ultimately show ?case by simp
qed (simp add: digits_value_def)

lemma overflow_check:
  fixes M base v d :: int
  assumes "0 < base" "0 \<le> d" "d < base"
  shows "(v > M div base \<or> v = M div base \<and> d > M mod base) \<longleftrightarrow> M < base * v + d"
proof -
  have M: "M = base * (M div base) + M mod base" by simp
  consider "v < M div base" | "v = M div base" | "v > M div base" by linarith
  then show ?thesis
  proof cases
    case 1
    then have "base * (v + 1) \<le> base * (M div base)" using assms(1) by (intro mult_left_mono) auto
    moreover have "0 \<le> M mod base" using assms(1) by simp
    ultimately have "base * (v + 1) \<le> M" using M by linarith
    then have "base * v + d < M" using assms(3) by (simp add: distrib_left)
    then show ?thesis using 1 by simp
  next
    case 2
    have "base * v + M mod base = M" unfolding 2 by (rule mult_div_mod_eq)
    then show ?thesis using 2 by linarith
  next
    case 3
    then have "base * (M div base + 1) \<le> base * v" using assms(1) by (intro mult_left_mono) auto
    then have "base * (M div base) + base \<le> base * v" by (simp add: distrib_left)
    moreover have "M mod base < base" using assms(1) by simp
    ultimately have "M < base * v + d" using M assms(2) by linarith
    then show ?thesis using 3 by simp
  qed
qed

lemma wrapTo_id: "0 \<le> v \<Longrightarrow> v \<le> integralMax ty \<Longrightarrow> wrapTo ty v = v"
  by (simp add: wrapTo_def)

lemma digits_loop_spec:
  assumes "0 < base" "list_all (isCharacterAllowedInBase base) ds" "0 \<le> v" "v \<le> integralMax ty"
    and "rest = [] \<or> \<not> isCharacterAllowedInBase base (hd rest)"
  shows "digits_loop ty base False v (ds @ rest) =
     (if digits_value base v ds \<le> integralMax ty then Some (digits_value base v ds, rest) else None)"
  using assms
proof (induction ds arbitrary: v)
  case Nil
  then show ?case by (cases rest) (simp_all add: digits_value_def)
next
  case (Cons d ds)
  have d: "isCharacterAllowedInBase base d" "0 \<le> digitValue d" "digitValue d < base"
    using Cons.prems(2) digit_value [of base d] by simp_all
  have nonneg: "0 \<le> base * v + digitValue d" using Cons.prems(1,3) d(2) by simp
  note check = overflow_check [OF Cons.prems(1) d(2,3), where v = v and M = "integralMax ty"]
  show ?case
  proof (cases "integralMax ty < base * v + digitValue d")
    case True
    have "base * v + digitValue d \<le> digits_value base v (d # ds)"
      using digits_value_mono [OF _ nonneg, where cs = ds] Cons.prems(1,2) by (simp add: digits_value_Cons)
    then show ?thesis using True d(1) check by (auto simp: Let_def)
  next
    case False
    then have "digits_loop ty base False v ((d # ds) @ rest) = digits_loop ty base False (base * v + digitValue d) (ds @ rest)"
      using d(1) check nonneg by (auto simp: Let_def wrapTo_id)
    then show ?thesis using Cons.IH [of "base * v + digitValue d"] Cons.prems False nonneg
      by (simp add: digits_value_Cons)
  qed
qed

lemma allowed_not_special:
  assumes "isCharacterAllowedInBase base c"
  shows "\<not> isSpaceOrNewline ws c" "c \<noteq> ch_DASH" "c \<noteq> ch_PLUS"
  using assms
  by (auto simp: isCharacterAllowedInBase_def isSpaceOrNewline_def isASCIISpace_def isASCIIDigit_uint
      word_le_def word_less_def Let_def split: if_splits)

lemma toIntegralType_digits:
  assumes "0 < base" "ds \<noteq> []" "list_all (isCharacterAllowedInBase base) ds" "0 \<le> integralMax ty"
  shows "toIntegralType ty ws base ds =
     (if digits_value base 0 ds \<le> integralMax ty then (digits_value base 0 ds, True) else (0, False))"
proof -
  obtain c cs where ds: "ds = c # cs" using assms(2) by (cases ds) auto
  have c: "isCharacterAllowedInBase base c" using assms(3) ds by simp
  then have "dropWhile (isSpaceOrNewline ws) ds = ds" using allowed_not_special [OF c] ds by simp
  moreover have "digits_loop ty base False 0 ds =
      (if digits_value base 0 ds \<le> integralMax ty then Some (digits_value base 0 ds, []) else None)"
    using digits_loop_spec [OF assms(1,3), where v = 0 and ty = ty and rest = "[]"] assms(4) by simp
  ultimately show ?thesis
    using c allowed_not_special [OF c] ds by (simp add: toIntegralType_def Let_def del: digits_loop.simps)
qed

section \<open>Properties\<close>

lemma isASCIIDigit_allowed: "isASCIIDigit c \<Longrightarrow> isCharacterAllowedInBase 10 c"
  by (auto simp: isCharacterAllowedInBase_def isASCIIDigit_uint word_less_def)

text \<open>C24: \<open>parseHTMLInteger\<close> skips spaces, takes a sign and the digits after it, and ignores what follows:
  its result is the number they stand for when its absolute value fits in an \<open>int\<close>; a number that does
  not fit is not an error but the value 0.\<close>

theorem parseHTMLInteger_value:
  assumes "list_all isHTMLSpace sp" "sign \<in> {[], [ch_DASH], [ch_PLUS]}"
    and "ds \<noteq> []" "list_all isASCIIDigit ds" "rest = [] \<or> \<not> isASCIIDigit (hd rest)"
  shows "parseHTMLInteger ws (sp @ sign @ ds @ rest) =
     Some (if digits_value 10 0 ds \<le> 2 ^ 31 - 1
           then (if sign = [ch_DASH] then - digits_value 10 0 ds else digits_value 10 0 ds) else 0)"
proof -
  obtain c cs where ds: "ds = c # cs" using assms(3) by (cases ds) auto
  have c: "\<not> isHTMLSpace c" "isASCIIDigit c" "c \<noteq> ch_DASH" "c \<noteq> ch_PLUS"
    using assms(4) ds by (auto simp: isHTMLSpace_def isASCIIDigit_def)
  have "dropWhile isHTMLSpace (sp @ sign @ ds @ rest) = sign @ ds @ rest"
    using assms(1,2) c ds by (auto simp: dropWhile_append list_all_iff isHTMLSpace_def)
  moreover have "takeWhile isASCIIDigit (ds @ rest) = ds"
    using assms(4,5) by (cases rest) (auto simp: takeWhile_append list_all_iff takeWhile_eq_all_conv)
  moreover have "list_all (isCharacterAllowedInBase 10) ds"
    using assms(4) by (auto simp: list_all_iff isASCIIDigit_allowed)
  ultimately show ?thesis
    using assms(2,3) c ds toIntegralType_digits [of 10 ds int32 ws]
    by (auto simp: parseHTMLInteger_def Let_def charactersToIntStrict_def int32_def)
qed

lemma parseHTMLInteger_value_witness:
  "parseHTMLInteger (\<lambda>_. False) (ustr '' -42px'') = Some (- 42)"
proof -
  have v: "digits_value 10 0 (ustr ''42'') = 42"
    by (simp add: digits_value_def ustr_def digitValue_def isASCIIDigit_def)
  have "ustr '' -42px'' = ustr '' '' @ [ch_DASH] @ ustr ''42'' @ ustr ''px''" by (simp add: ustr_def)
  then show ?thesis
    using parseHTMLInteger_value [of "ustr '' ''" "[ch_DASH]" "ustr ''42''" "ustr ''px''" "\<lambda>_. False"]
    by (simp add: v) (simp add: ustr_def isHTMLSpace_def isASCIIDigit_def)
qed

lemma allowed_decimal: "isCharacterAllowedInBase 10 c \<longleftrightarrow> isASCIIDigit c"
  by (auto simp: isCharacterAllowedInBase_def isASCIIDigit_uint word_less_def word_le_def Let_def)

text \<open>The loop after a minus sign, where no number it reaches is the one whose negative is the least \<open>int\<close>.\<close>

lemma digits_loop_negative:
  assumes "list_all isASCIIDigit ds" "0 \<le> v" "v \<le> 2 ^ 31 - 1" "rest = [] \<or> \<not> isASCIIDigit (hd rest)"
    and "\<forall>ds1 ds2. ds = ds1 @ ds2 \<longrightarrow> digits_value 10 v ds1 \<noteq> 2 ^ 31"
  shows "digits_loop int32 10 True v (ds @ rest) =
     (if digits_value 10 v ds \<le> 2 ^ 31 - 1 then Some (digits_value 10 v ds, rest) else None)"
  using assms
proof (induction ds arbitrary: v)
  case Nil
  then show ?case by (cases rest) (simp_all add: digits_value_def allowed_decimal)
next
  case (Cons d ds)
  let ?v = "10 * v + digitValue d"
  have d: "isCharacterAllowedInBase 10 d" "0 \<le> digitValue d" "digitValue d < 10"
    using Cons.prems(1) digit_value [of 10 d] by (simp_all add: allowed_decimal)
  have ne: "?v \<noteq> 2 ^ 31" using Cons.prems(5) [rule_format, of "[d]" ds] by (simp add: digits_value_def)
  have later: "\<forall>ds1 ds2. ds = ds1 @ ds2 \<longrightarrow> digits_value 10 ?v ds1 \<noteq> 2 ^ 31"
  proof (intro allI impI)
    fix ds1 ds2 assume "ds = ds1 @ ds2"
    then show "digits_value 10 ?v ds1 \<noteq> 2 ^ 31"
      using Cons.prems(5) [rule_format, of "d # ds1" ds2] by (simp only: append_Cons digits_value_Cons simp_thms)
  qed
  have nonneg: "0 \<le> ?v" using Cons.prems(2) d(2) by simp
  have check: "(v > 214748364 \<or> v = 214748364 \<and> digitValue d > 8) \<longleftrightarrow> 2 ^ 31 < ?v" using d(2,3) by (simp, linarith)
  show ?case
  proof (cases "2 ^ 31 < ?v")
    case True
    have "list_all (isCharacterAllowedInBase 10) ds" using Cons.prems(1) by (simp add: list_all_iff allowed_decimal)
    then have "?v \<le> digits_value 10 v (d # ds)" using digits_value_mono [OF _ nonneg] by (simp add: digits_value_Cons)
    then show ?thesis using True d(1) check by (simp add: Let_def int32_def)
  next
    case False
    then have small: "?v \<le> 2 ^ 31 - 1" using ne by simp
    then have "wrapTo int32 ?v = ?v" using nonneg by (simp add: wrapTo_id int32_def)
    then have "digits_loop int32 10 True v ((d # ds) @ rest) = digits_loop int32 10 True ?v (ds @ rest)"
      using d(1) check False by (auto simp: Let_def int32_def)
    then show ?thesis using Cons.IH [OF _ nonneg small Cons.prems(4) later] Cons.prems(1) by (simp add: digits_value_Cons)
  qed
qed

lemma digits_loop_decimal:
  assumes "list_all isASCIIDigit ds" "rest = [] \<or> \<not> isASCIIDigit (hd rest)"
    and "neg \<Longrightarrow> \<forall>ds1 ds2. ds = ds1 @ ds2 \<longrightarrow> digits_value 10 0 ds1 \<noteq> 2 ^ 31"
  shows "digits_loop int32 10 neg 0 (ds @ rest) =
     (if digits_value 10 0 ds \<le> 2 ^ 31 - 1 then Some (digits_value 10 0 ds, rest) else None)"
proof (cases neg)
  case True
  then show ?thesis using digits_loop_negative [of ds 0 rest] assms by simp
next
  case False
  have "list_all (isCharacterAllowedInBase 10) ds" "rest = [] \<or> \<not> isCharacterAllowedInBase 10 (hd rest)"
    using assms(1,2) by (simp_all add: list_all_iff allowed_decimal)
  then show ?thesis using digits_loop_spec [of 10 ds 0 int32 rest] False by (simp add: int32_def)
qed

text \<open>C26: \<open>charactersToIntStrict\<close> takes white space, a sign, decimal digits and white space, and its result is the
  number they stand for, or a failure when that is no \<open>int\<close> of either sign or when anything else follows.
  After a minus sign the digits must not begin with those of the least \<open>int\<close>: there the C++ code overflows,
  which is undefined.\<close>

theorem charactersToIntStrict_value:
  assumes "list_all (isSpaceOrNewline ws) sp" "sign \<in> {[], [ch_DASH], [ch_PLUS]}"
    and "ds \<noteq> []" "list_all isASCIIDigit ds" "rest = [] \<or> \<not> isASCIIDigit (hd rest)"
    and "sign = [ch_DASH] \<Longrightarrow> \<forall>ds1 ds2. ds = ds1 @ ds2 \<longrightarrow> digits_value 10 0 ds1 \<noteq> 2 ^ 31"
  shows "charactersToIntStrict ws 10 (sp @ sign @ ds @ rest) =
     (if digits_value 10 0 ds \<le> 2 ^ 31 - 1 \<and> list_all (isSpaceOrNewline ws) rest
      then (if sign = [ch_DASH] then - digits_value 10 0 ds else digits_value 10 0 ds, True)
      else (0, False))"
proof -
  let ?space = "isSpaceOrNewline ws" and ?v = "digits_value 10 0 ds"
  obtain c cs where ds: "ds = c # cs" using assms(3) by (cases ds) auto
  have c: "isCharacterAllowedInBase 10 c" using assms(4) ds by (simp add: allowed_decimal)
  note c' = allowed_not_special [OF c]
  have signs: "\<not> ?space ch_DASH" "\<not> ?space ch_PLUS" by (simp_all add: isSpaceOrNewline_def isASCIISpace_def)
  have drop: "dropWhile ?space (sp @ sign @ ds @ rest) = sign @ ds @ rest"
    using assms(1,2) c' signs ds by (auto simp: dropWhile_append list_all_iff)
  have loop: "digits_loop int32 10 neg 0 (ds @ rest) = (if ?v \<le> 2 ^ 31 - 1 then Some (?v, rest) else None)"
    if "neg \<Longrightarrow> sign = [ch_DASH]" for neg
    by (rule digits_loop_decimal [OF assms(4,5)]) (use that assms(6) in blast)
  have end': "dropWhile ?space rest = [] \<longleftrightarrow> list_all ?space rest" by (simp add: list_all_iff)
  have "list_all (isCharacterAllowedInBase 10) ds" using assms(4) by (simp add: list_all_iff allowed_decimal)
  then have "0 \<le> ?v" using digits_value_mono [of 10 0 ds] by simp
  then have neg: "wrapTo int32 (- ?v) = - ?v" if "?v \<le> 2 ^ 31 - 1" using that by (simp add: wrapTo_def int32_def)
  have signed: "isSigned int32" by (simp add: int32_def)
  consider "sign = []" | "sign = [ch_DASH]" | "sign = [ch_PLUS]" using assms(2) by blast
  then show ?thesis
  proof cases
    case 1
    then show ?thesis using c c' ds loop [of False] drop
      by (simp add: charactersToIntStrict_def toIntegralType_def Let_def end' del: digits_loop.simps dropWhile_eq_Nil_conv)
  next
    case 2
    then show ?thesis using c ds loop [of True] drop neg signed
      by (simp add: charactersToIntStrict_def toIntegralType_def Let_def end' del: digits_loop.simps dropWhile_eq_Nil_conv)
  next
    case 3
    then show ?thesis using c ds loop [of False] drop
      by (simp add: charactersToIntStrict_def toIntegralType_def Let_def end' del: digits_loop.simps dropWhile_eq_Nil_conv)
  qed
qed

lemma charactersToIntStrict_value_witness:
  "charactersToIntStrict (\<lambda>_. False) 10 (ustr '' -47 '') = (- 47, True)"
proof -
  have v: "digits_value 10 0 (ustr ''47'') = 47" "digits_value 10 0 (ustr ''4'') = 4" "digits_value 10 0 [] = 0"
    by (simp_all add: digits_value_def ustr_def digitValue_def isASCIIDigit_def)
  have "ds1 \<in> {[], ustr ''4'', ustr ''47''}" if "ustr ''47'' = ds1 @ ds2" for ds1 ds2
    using that by (auto simp: ustr_def Cons_eq_append_conv)
  then have no: "\<forall>ds1 ds2. ustr ''47'' = ds1 @ ds2 \<longrightarrow> digits_value 10 0 ds1 \<noteq> 2 ^ 31" using v by fastforce
  have "ustr '' -47 '' = ustr '' '' @ [ch_DASH] @ ustr ''47'' @ ustr '' ''" by (simp add: ustr_def)
  moreover have "list_all (isSpaceOrNewline (\<lambda>_. False)) (ustr '' '')" by code_simp
  moreover have "list_all isASCIIDigit (ustr ''47'')" "ustr ''47'' \<noteq> []" "\<not> isASCIIDigit (hd (ustr '' ''))" by code_simp+
  ultimately show ?thesis
    using charactersToIntStrict_value [of "\<lambda>_. False" "ustr '' ''" "[ch_DASH]" "ustr ''47''" "ustr '' ''"] no by (simp add: v)
qed

end
