(* ===== verification/HTMLConstructionSite.thy ===== *)
theory HTMLConstructionSite
  imports AtomicHTMLToken HTMLElementStack HTMLFormattingElementList ContainerNode HTMLDocument HTMLParserIdioms
begin

text \<open>
  \<^verbatim>\<open>WebCore/html/parser/HTMLConstructionSite.cpp\<close>: where the tree builder inserts nodes.  The site
  holds the document being built: the links of its nodes (\<open>m_dom\<close>), what each node is (\<open>nodeData\<close>,
  \<open>None\<close> for an address not in use) and the attribute maps of the elements; address 0 is the document.
  Operations are \<open>None\<close> where the code follows a null pointer or reads an uninitialised member.

  Left out: the render tree (\<open>attached\<close>, \<open>attach\<close>, \<open>lazyAttach\<close>), scripts run by mutation events, the
  association of form controls with \<open>form()\<close>, the inspector and loader notifications.
  \<open>takeAtributes\<close> empties the token, which is inserted at most once; it is a read here.
\<close>

section \<open>Attributes of elements\<close>

definition toASCIILower :: "uchar \<Rightarrow> uchar" where
  "toASCIILower c = Bit_Operations.or c (if ch_A \<le> c \<and> c \<le> ch_Z then 0x20 else 0)"

text \<open>\<open>url[i]\<close> is 0 past the end of the string.\<close>

fun protocolIs :: "ustr \<Rightarrow> ustr \<Rightarrow> bool" where
  "protocolIs url [] \<longleftrightarrow> (case url of [] \<Rightarrow> False | c # _ \<Rightarrow> c = ch_COLON)"
| "protocolIs url (p # ps) \<longleftrightarrow>
     (if toASCIILower (case url of [] \<Rightarrow> 0 | c # _ \<Rightarrow> c) \<noteq> p then False else protocolIs (tl url) ps)"

definition protocolIsJavaScript :: "ustr \<Rightarrow> bool" where
  "protocolIsJavaScript url \<longleftrightarrow> protocolIs url (ustr ''javascript'')"

definition startsWith :: "ustr \<Rightarrow> ustr \<Rightarrow> bool" where
  "startsWith s p \<longleftrightarrow> take (length p) s = p"

definition endsWith :: "ustr \<Rightarrow> ustr \<Rightarrow> bool" where
  "endsWith s p \<longleftrightarrow> length p \<le> length s \<and> drop (length s - length p) s = p"

definition isEventHandlerAttribute :: "qualifiedName \<Rightarrow> bool" where
  "isEventHandlerAttribute name \<longleftrightarrow> qn_namespace name = NoNamespace \<and> startsWith (qn_localName name) (ustr ''on'')"

definition isAttributeToRemove :: "qualifiedName \<Rightarrow> ustr \<Rightarrow> bool" where
  "isAttributeToRemove name val \<longleftrightarrow>
     (endsWith (qn_localName name) (ustr ''href'') \<or> name = plainName (ustr ''src'') \<or> name = plainName (ustr ''action''))
     \<and> protocolIsJavaScript (stripLeadingAndTrailingHTMLSpaces val)"

datatype fragmentScriptingPermission = FragmentScriptingAllowed | FragmentScriptingNotAllowed

text \<open>The loop of \<open>setAttributeMap\<close> where scripting is not allowed; a null value is the empty string.\<close>

fun removeScripting :: "attributeMap \<Rightarrow> attributeMap" where
  "removeScripting [] = []"
| "removeScripting ((name, val) # m) =
     (if isEventHandlerAttribute name then removeScripting m
      else if isAttributeToRemove name val then (name, []) # removeScripting m
      else (name, val) # removeScripting m)"

definition setAttributeMap_list :: "fragmentScriptingPermission \<Rightarrow> attributeMap option \<Rightarrow> attributeMap option" where
  "setAttributeMap_list permission m =
     (if permission = FragmentScriptingNotAllowed then map_option removeScripting m else m)"

text \<open>\<open>Element::setAttribute\<close> with a value that is not null.\<close>

fun setAttribute_list :: "qualifiedName \<Rightarrow> ustr \<Rightarrow> attributeMap \<Rightarrow> attributeMap" where
  "setAttribute_list n v [] = [(n, v)]"
| "setAttribute_list n v ((n', v') # m) =
     (if qn_matches n' n then (n', v) # m else (n', v') # setAttribute_list n v m)"

section \<open>The state\<close>

datatype nodeData =
    DocumentNode
  | DocumentTypeNode ustr ustr ustr
  | ElementNode element
  | TextNode ustr
  | CommentNode ustr

record constructionSite =
  m_dom :: dom
  nodeData :: "nat \<Rightarrow> nodeData option"
  attributeMaps :: "nat \<Rightarrow> attributeMap option"
  isDemoted :: "nat \<Rightarrow> bool"
  freshNode :: nat
  documentCompatibility :: compatibility
  m_head :: "element option"
  m_form :: "element option"
  m_openElements :: elementStack
  m_activeFormattingElements :: formattingList
  m_fragmentScriptingPermission :: fragmentScriptingPermission
  m_isParsingFragment :: bool
  m_redirectAttachToFosterParent :: bool
  finishedElements :: "element list"
  siteAsserts :: bool

abbreviation (input) theDocument :: nat where "theDocument \<equiv> 0"

definition newConstructionSite :: "fragmentScriptingPermission \<Rightarrow> bool \<Rightarrow> constructionSite" where
  "newConstructionSite permission isParsingFragment =
     \<lparr>m_dom = emptyDom, nodeData = [theDocument \<mapsto> DocumentNode], attributeMaps = Map.empty, isDemoted = (\<lambda>_. False),
      freshNode = 1,
      documentCompatibility = \<lparr>m_compatibilityMode = NoQuirksMode, m_compatibilityModeLocked = False\<rparr>,
      m_head = None, m_form = None, m_openElements = emptyElementStack,
      m_activeFormattingElements = emptyFormattingList,
      m_fragmentScriptingPermission = permission, m_isParsingFragment = isParsingFragment,
      m_redirectAttachToFosterParent = False, finishedElements = [], siteAsserts = True\<rparr>"

definition ASSERT_site :: "bool \<Rightarrow> constructionSite \<Rightarrow> constructionSite" where
  "ASSERT_site b s = (if b then s else s\<lparr>siteAsserts := False\<rparr>)"

text \<open>The stack, the list and the tree as parts of the site.\<close>

definition onStack :: "(elementStack \<Rightarrow> elementStack) \<Rightarrow> constructionSite \<Rightarrow> constructionSite" where
  "onStack f s = s\<lparr>m_openElements := f (m_openElements s)\<rparr>"

definition onStack_option :: "(elementStack \<Rightarrow> elementStack option) \<Rightarrow> constructionSite \<Rightarrow> constructionSite option" where
  "onStack_option f s = map_option (\<lambda>es. s\<lparr>m_openElements := es\<rparr>) (f (m_openElements s))"

definition onList :: "(formattingList \<Rightarrow> formattingList) \<Rightarrow> constructionSite \<Rightarrow> constructionSite" where
  "onList f s = s\<lparr>m_activeFormattingElements := f (m_activeFormattingElements s)\<rparr>"

definition onDom :: "(dom \<Rightarrow> dom) \<Rightarrow> constructionSite \<Rightarrow> constructionSite" where
  "onDom f s = s\<lparr>m_dom := f (m_dom s)\<rparr>"

definition currentElement :: "constructionSite \<Rightarrow> element option" where
  "currentElement s = topElement (m_openElements s)"

definition parentElement :: "constructionSite \<Rightarrow> nat \<Rightarrow> element option" where
  "parentElement s n =
     (case parentNode (links (m_dom s) n) of
        None \<Rightarrow> None
      | Some p \<Rightarrow> (case nodeData s p of Some (ElementNode e) \<Rightarrow> Some e | _ \<Rightarrow> None))"

definition createNode :: "nodeData \<Rightarrow> constructionSite \<Rightarrow> nat \<times> constructionSite" where
  "createNode d s =
     (freshNode s, s\<lparr>nodeData := (nodeData s)(freshNode s \<mapsto> d), freshNode := Suc (freshNode s)\<rparr>)"

text \<open>\<open>create\<close> with a qualified name, followed by \<open>setAttributeMap\<close>.\<close>

definition createElementWith ::
  "namespace \<Rightarrow> ustr \<Rightarrow> attributeMap option \<Rightarrow> constructionSite \<Rightarrow> element \<times> constructionSite" where
  "createElementWith ns name attributes s =
     (let e = \<lparr>nodeAddress = freshNode s, namespaceURI = ns, localName = name\<rparr>;
          (n, s) = createNode (ElementNode e) s
      in (e, s\<lparr>attributeMaps := (attributeMaps s)
                 (n := setAttributeMap_list (m_fragmentScriptingPermission s) attributes)\<rparr>))"

section \<open>Attaching nodes\<close>

definition hasImpliedEndTag :: "element \<Rightarrow> bool" where
  "hasImpliedEndTag e \<longleftrightarrow>
     hasTagName e ''dd'' \<or> hasTagName e ''dt'' \<or> hasTagName e ''li'' \<or> hasTagName e ''option''
     \<or> hasTagName e ''optgroup'' \<or> hasTagName e ''p'' \<or> hasTagName e ''rp'' \<or> hasTagName e ''rt''"

definition causesFosterParenting :: "element \<Rightarrow> bool" where
  "causesFosterParenting e \<longleftrightarrow>
     hasTagName e ''table'' \<or> hasTagName e ''tbody'' \<or> hasTagName e ''tfoot''
     \<or> hasTagName e ''thead'' \<or> hasTagName e ''tr''"

definition shouldFosterParent :: "constructionSite \<Rightarrow> bool option" where
  "shouldFosterParent s =
     (if m_redirectAttachToFosterParent s
      then do { e \<leftarrow> currentElement s; Some (causesFosterParenting e) }
      else Some False)"

record attachmentSite =
  siteParent :: nat
  siteNextChild :: "nat option"

definition attachAtSite :: "attachmentSite \<Rightarrow> nat \<Rightarrow> constructionSite \<Rightarrow> constructionSite" where
  "attachAtSite st child =
     (case siteNextChild st of
        Some next \<Rightarrow> onDom (parserInsertBefore (siteParent st) child next)
      | None \<Rightarrow> onDom (parserAddChild (siteParent st) child))"

definition findFosterSite :: "constructionSite \<Rightarrow> attachmentSite option" where
  "findFosterSite s =
     (case topmost (ustr ''table'') (m_openElements s) of
        Some r \<Rightarrow>
          (case parentNode (links (m_dom s) (nodeAddress (m_element r))) of
             Some p \<Rightarrow> Some \<lparr>siteParent = p, siteNextChild = Some (nodeAddress (m_element r))\<rparr>
           | None \<Rightarrow>
               (case recordsBelow (recordAddress r) (m_openElements s) of
                  [] \<Rightarrow> None
                | n # _ \<Rightarrow> Some \<lparr>siteParent = nodeAddress (m_element n), siteNextChild = None\<rparr>))
      | None \<Rightarrow> do { b \<leftarrow> bottomElement (m_openElements s);
                    Some \<lparr>siteParent = nodeAddress b, siteNextChild = None\<rparr> })"

definition fosterParent :: "nat \<Rightarrow> constructionSite \<Rightarrow> constructionSite option" where
  "fosterParent n s = do { st \<leftarrow> findFosterSite s; Some (attachAtSite st n s) }"

definition attach :: "nat \<Rightarrow> nat \<Rightarrow> constructionSite \<Rightarrow> constructionSite option" where
  "attach parent child s =
     do { foster \<leftarrow> shouldFosterParent s;
          if foster then fosterParent child s else Some (onDom (parserAddChild parent child) s) }"

definition attachToCurrent :: "element \<Rightarrow> constructionSite \<Rightarrow> constructionSite option" where
  "attachToCurrent child s =
     do { e \<leftarrow> currentElement s; attach (nodeAddress e) (nodeAddress child) s }"

section \<open>Creating elements\<close>

definition createElement :: "atomicToken \<Rightarrow> namespace \<Rightarrow> constructionSite \<Rightarrow> (element \<times> constructionSite) option" where
  "createElement token ns s =
     do { _ \<leftarrow> currentElement s; Some (createElementWith ns (a_name token) (a_attributes token) s) }"

definition createHTMLElement :: "atomicToken \<Rightarrow> constructionSite \<Rightarrow> (element \<times> constructionSite) option" where
  "createHTMLElement token s =
     do { _ \<leftarrow> currentElement s;
          let (e, s) = createElementWith XHTML (a_name token) (a_attributes token) s;
          Some (e, ASSERT_site (namespaceURI e = XHTML) s) }"

definition cloneAttributes :: "element \<Rightarrow> constructionSite \<Rightarrow> attributeMap option" where
  "cloneAttributes e s = attributeMaps s (nodeAddress e)"

definition createHTMLElementFromSavedElement :: "element \<Rightarrow> constructionSite \<Rightarrow> (element \<times> constructionSite) option" where
  "createHTMLElementFromSavedElement e s =
     (let s = ASSERT_site (namespaceURI e = XHTML) s
      in createHTMLElement (fakeToken StartTag (localName e) (cloneAttributes e s)) s)"

definition createHTMLElementFromElementRecord :: "elementRecord \<Rightarrow> constructionSite \<Rightarrow> (element \<times> constructionSite) option" where
  "createHTMLElementFromElementRecord r = createHTMLElementFromSavedElement (m_element r)"

section \<open>Inserting nodes\<close>

definition insertHTMLHtmlStartTagBeforeHTML :: "atomicToken \<Rightarrow> constructionSite \<Rightarrow> constructionSite option" where
  "insertHTMLHtmlStartTagBeforeHTML token s =
     (let (e, s) = createElementWith XHTML (ustr ''html'') (a_attributes token) s
      in do { s \<leftarrow> attach theDocument (nodeAddress e) s; Some (onStack (pushHTMLHtmlElement e) s) })"

text \<open>\<open>attributes(false)\<close> makes the map of the element when it has none.\<close>

definition mergeAttributesFromTokenIntoElement ::
  "atomicToken \<Rightarrow> element option \<Rightarrow> constructionSite \<Rightarrow> constructionSite option" where
  "mergeAttributesFromTokenIntoElement token element s =
     (case a_attributes token of
        None \<Rightarrow> Some s
      | Some new \<Rightarrow>
          do { e \<leftarrow> element;
               let old = (case attributeMaps s (nodeAddress e) of None \<Rightarrow> [] | Some m \<Rightarrow> m);
               let merged = fold (\<lambda>(n, v) m. if getAttributeItem n m = None then setAttribute_list n v m else m) new old;
               Some (s\<lparr>attributeMaps := (attributeMaps s)(nodeAddress e \<mapsto> merged)\<rparr>) })"

definition insertHTMLHtmlStartTagInBody :: "atomicToken \<Rightarrow> constructionSite \<Rightarrow> constructionSite option" where
  "insertHTMLHtmlStartTagInBody token s =
     mergeAttributesFromTokenIntoElement token (m_htmlElement (m_openElements s)) s"

definition insertHTMLBodyStartTagInBody :: "atomicToken \<Rightarrow> constructionSite \<Rightarrow> constructionSite option" where
  "insertHTMLBodyStartTagInBody token s =
     mergeAttributesFromTokenIntoElement token (m_bodyElement (m_openElements s)) s"

text \<open>The document type becomes that of the document when it is inserted.\<close>

definition insertDoctype :: "(uchar \<Rightarrow> uchar) \<Rightarrow> atomicToken \<Rightarrow> constructionSite \<Rightarrow> constructionSite option" where
  "insertDoctype cfold token s =
     do { dt \<leftarrow> a_doctypeData token;
          let s = ASSERT_site (a_type token = DOCTYPE) s;
          let (n, s) = createNode (DocumentTypeNode (a_name token) (m_publicIdentifier dt) (m_systemIdentifier dt)) s;
          s \<leftarrow> attach theDocument n s;
          Some (s\<lparr>documentCompatibility :=
            (if m_forceQuirks dt then setCompatibilityMode QuirksMode (documentCompatibility s)
             else setCompatibilityModeFromDoctype cfold
               (Some (a_name token, m_publicIdentifier dt, m_systemIdentifier dt)) (documentCompatibility s))\<rparr>) }"

definition insertComment :: "atomicToken \<Rightarrow> constructionSite \<Rightarrow> constructionSite option" where
  "insertComment token s =
     do { e \<leftarrow> currentElement s;
          let (n, s) = createNode (CommentNode (a_data token)) (ASSERT_site (a_type token = Comment) s);
          attach (nodeAddress e) n s }"

definition insertCommentOnDocument :: "atomicToken \<Rightarrow> constructionSite \<Rightarrow> constructionSite option" where
  "insertCommentOnDocument token s =
     (let (n, s) = createNode (CommentNode (a_data token)) (ASSERT_site (a_type token = Comment) s)
      in attach theDocument n s)"

definition insertCommentOnHTMLHtmlElement :: "atomicToken \<Rightarrow> constructionSite \<Rightarrow> constructionSite option" where
  "insertCommentOnHTMLHtmlElement token s =
     do { parent \<leftarrow> m_htmlElement (m_openElements s);
          let (n, s) = createNode (CommentNode (a_data token)) (ASSERT_site (a_type token = Comment) s);
          attach (nodeAddress parent) n s }"

definition insertHTMLHeadElement :: "atomicToken \<Rightarrow> constructionSite \<Rightarrow> constructionSite option" where
  "insertHTMLHeadElement token s =
     do { foster \<leftarrow> shouldFosterParent s;
          (e, s) \<leftarrow> createHTMLElement token (ASSERT_site (\<not> foster) s);
          s \<leftarrow> attachToCurrent e s;
          Some (onStack (pushHTMLHeadElement e) (s\<lparr>m_head := Some e\<rparr>)) }"

definition insertHTMLBodyElement :: "atomicToken \<Rightarrow> constructionSite \<Rightarrow> constructionSite option" where
  "insertHTMLBodyElement token s =
     do { foster \<leftarrow> shouldFosterParent s;
          (e, s) \<leftarrow> createHTMLElement token (ASSERT_site (\<not> foster) s);
          s \<leftarrow> attachToCurrent e s;
          Some (onStack (pushHTMLBodyElement e) s) }"

definition insertHTMLFormElement :: "atomicToken \<Rightarrow> bool \<Rightarrow> constructionSite \<Rightarrow> constructionSite option" where
  "insertHTMLFormElement token demoted s =
     do { (e, s) \<leftarrow> createHTMLElement token s;
          let s = ASSERT_site (hasTagName e ''form'') s;
          let s = s\<lparr>isDemoted := (isDemoted s)(nodeAddress e := demoted)\<rparr>;
          s \<leftarrow> attachToCurrent e s;
          let s = onStack (push_element e) s;
          c \<leftarrow> currentElement s;
          Some ((ASSERT_site (namespaceURI c = XHTML \<and> hasTagName c ''form'') s)\<lparr>m_form := Some c\<rparr>) }"

definition insertHTMLElement :: "atomicToken \<Rightarrow> constructionSite \<Rightarrow> constructionSite option" where
  "insertHTMLElement token s =
     do { (e, s) \<leftarrow> createHTMLElement token s;
          s \<leftarrow> attachToCurrent e s;
          Some (onStack (push_element e) s) }"

definition insertSelfClosingHTMLElement :: "atomicToken \<Rightarrow> constructionSite \<Rightarrow> constructionSite option" where
  "insertSelfClosingHTMLElement token s =
     do { (e, s) \<leftarrow> createHTMLElement token (ASSERT_site (a_type token = StartTag) s);
          s \<leftarrow> attachToCurrent e s;
          Some (s\<lparr>finishedElements := finishedElements s @ [e]\<rparr>) }"

definition insertFormattingElement :: "atomicToken \<Rightarrow> constructionSite \<Rightarrow> constructionSite option" where
  "insertFormattingElement token s =
     do { s \<leftarrow> insertHTMLElement token s;
          e \<leftarrow> currentElement s;
          Some (onList (append_entry e) s) }"

text \<open>Where scripting is not allowed the script element keeps its null attribute map.\<close>

definition insertScriptElement :: "atomicToken \<Rightarrow> constructionSite \<Rightarrow> constructionSite option" where
  "insertScriptElement token s =
     do { _ \<leftarrow> currentElement s;
          let (e, s) = createElementWith XHTML (ustr ''script'')
            (if m_fragmentScriptingPermission s = FragmentScriptingAllowed then a_attributes token else None) s;
          s \<leftarrow> attachToCurrent e s;
          Some (onStack (push_element e) s) }"

definition insertForeignElement :: "atomicToken \<Rightarrow> namespace \<Rightarrow> constructionSite \<Rightarrow> constructionSite option" where
  "insertForeignElement token ns s =
     do { (e, s) \<leftarrow> createElement token ns (ASSERT_site (a_type token = StartTag) s);
          s \<leftarrow> attachToCurrent e s;
          selfClosing \<leftarrow> a_selfClosing token;
          Some (if selfClosing then s else onStack (push_element e) s) }"

text \<open>A text node before the site grows; else a new one is made.\<close>

definition insertTextNode :: "ustr \<Rightarrow> constructionSite \<Rightarrow> constructionSite option" where
  "insertTextNode characters s =
     do { e \<leftarrow> currentElement s;
          foster \<leftarrow> shouldFosterParent s;
          st \<leftarrow> (if foster then findFosterSite s
                else Some \<lparr>siteParent = nodeAddress e, siteNextChild = None\<rparr>);
          let previousChild =
            (case siteNextChild st of
               Some next \<Rightarrow> previousSibling (links (m_dom s) next)
             | None \<Rightarrow> lastChild (links (m_dom s) (siteParent st)));
          Some (case previousChild of
              Some p \<Rightarrow>
                (case nodeData s p of
                   Some (TextNode t) \<Rightarrow> s\<lparr>nodeData := (nodeData s)(p \<mapsto> TextNode (t @ characters))\<rparr>
                 | _ \<Rightarrow> (let (n, s) = createNode (TextNode characters) s in attachAtSite st n s))
            | None \<Rightarrow> (let (n, s) = createNode (TextNode characters) s in attachAtSite st n s)) }"

section \<open>Formatting elements and implied end tags\<close>

text \<open>The loop over the index, downwards; its result is \<open>firstUnopenElementIndex\<close>.\<close>

fun firstUnopen_loop :: "elementStack \<Rightarrow> entry list \<Rightarrow> nat \<Rightarrow> nat" where
  "firstUnopen_loop es entries 0 = 0"
| "firstUnopen_loop es entries (Suc index) =
     (case entries ! index of
        None \<Rightarrow> Suc index
      | Some e \<Rightarrow> if contains_element e es then Suc index else firstUnopen_loop es entries index)"

definition indexOfFirstUnopenFormattingElement :: "constructionSite \<Rightarrow> nat option" where
  "indexOfFirstUnopenFormattingElement s =
     (let entries = m_entries (m_activeFormattingElements s);
          first = firstUnopen_loop (m_openElements s) entries (length entries)
      in if first < length entries then Some first else None)"

definition reconstructEntry :: "nat \<Rightarrow> constructionSite \<Rightarrow> constructionSite option" where
  "reconstructEntry i s =
     do { e \<leftarrow> m_entries (m_activeFormattingElements s) ! i;
          (new, s) \<leftarrow> createHTMLElementFromSavedElement e s;
          s \<leftarrow> attachToCurrent new s;
          let s = onStack (push_element new) s;
          c \<leftarrow> currentElement s;
          Some (onList (replace_entry i c) s) }"

fun reconstruct_loop :: "nat list \<Rightarrow> constructionSite \<Rightarrow> constructionSite option" where
  "reconstruct_loop [] s = Some s"
| "reconstruct_loop (i # is) s = do { s \<leftarrow> reconstructEntry i s; reconstruct_loop is s }"

definition reconstructTheActiveFormattingElements :: "constructionSite \<Rightarrow> constructionSite option" where
  "reconstructTheActiveFormattingElements s =
     (case indexOfFirstUnopenFormattingElement s of
        None \<Rightarrow> Some s
      | Some first \<Rightarrow> reconstruct_loop [first ..< list_size (m_activeFormattingElements s)] s)"

definition generateImpliedEndTagsWithExclusion :: "ustr \<Rightarrow> constructionSite \<Rightarrow> constructionSite option" where
  "generateImpliedEndTagsWithExclusion tagName =
     onStack_option (popLoop (\<lambda>e. \<not> (hasImpliedEndTag e \<and> \<not> hasLocalName e tagName)))"

definition generateImpliedEndTags :: "constructionSite \<Rightarrow> constructionSite option" where
  "generateImpliedEndTags = onStack_option (popLoop (\<lambda>e. \<not> hasImpliedEndTag e))"

definition setForm :: "element option \<Rightarrow> constructionSite \<Rightarrow> constructionSite" where
  "setForm f s = (ASSERT_site (m_form s = None) s)\<lparr>m_form := f\<rparr>"

definition takeForm :: "constructionSite \<Rightarrow> element option \<times> constructionSite" where
  "takeForm s = (m_form s, s\<lparr>m_form := None\<rparr>)"

text \<open>\<open>Node::remove\<close> with the exception code it sets (mutation events left out), and
  \<open>Element::setAttribute\<close>.\<close>

definition removeNode :: "nat \<Rightarrow> constructionSite \<Rightarrow> bool \<times> constructionSite" where
  "removeNode n s =
     (case parentNode (links (m_dom s) n) of
        Some p \<Rightarrow> (False, onDom (\<lambda>d. removeBetween p (previousSibling (links d n)) (nextSibling (links d n)) n d) s)
      | None \<Rightarrow> (True, s))"

definition setAttribute :: "element \<Rightarrow> qualifiedName \<Rightarrow> ustr \<Rightarrow> constructionSite \<Rightarrow> constructionSite" where
  "setAttribute e n v s =
     s\<lparr>attributeMaps := (attributeMaps s)(nodeAddress e \<mapsto>
         setAttribute_list n v (case attributeMaps s (nodeAddress e) of None \<Rightarrow> [] | Some m \<Rightarrow> m))\<rparr>"

end
