(* ===== verification/HTMLTreeBuilderState.thy ===== *)
theory HTMLTreeBuilderState
  imports HTMLConstructionSite HTMLTokenizer
begin

text \<open>
  The data of \<^verbatim>\<open>WebCore/html/parser/HTMLTreeBuilder.cpp\<close>: the sets of tags its branches test, the
  insertion modes, the members of the tree builder, the adjustment of foreign names.  The generated
  lists of SVG, MathML, XLink and XML names, the settings of the frame and the context of a fragment are
  the parameter \<open>builderConfig\<close>.
\<close>

section \<open>Tags\<close>

definition isOneOf :: "ustr \<Rightarrow> string list \<Rightarrow> bool" where
  "isOneOf n names \<longleftrightarrow> list_ex (\<lambda>x. n = ustr x) names"

definition isHTMLSpaceOrReplacementCharacter :: "uchar \<Rightarrow> bool" where
  "isHTMLSpaceOrReplacementCharacter c \<longleftrightarrow> isHTMLSpace c \<or> c = 0xFFFD"

definition isAllWhitespace :: "ustr \<Rightarrow> bool" where
  "isAllWhitespace = list_all isHTMLSpace"

definition isAllWhitespaceOrReplacementCharacters :: "ustr \<Rightarrow> bool" where
  "isAllWhitespaceOrReplacementCharacters = list_all isHTMLSpaceOrReplacementCharacter"

definition isNumberedHeaderTag :: "ustr \<Rightarrow> bool" where
  "isNumberedHeaderTag n \<longleftrightarrow> isOneOf n [''h1'', ''h2'', ''h3'', ''h4'', ''h5'', ''h6'']"

definition isCaptionColOrColgroupTag :: "ustr \<Rightarrow> bool" where
  "isCaptionColOrColgroupTag n \<longleftrightarrow> isOneOf n [''caption'', ''col'', ''colgroup'']"

definition isTableCellContextTag :: "ustr \<Rightarrow> bool" where
  "isTableCellContextTag n \<longleftrightarrow> isOneOf n [''th'', ''td'']"

definition isTableBodyContextTag :: "ustr \<Rightarrow> bool" where
  "isTableBodyContextTag n \<longleftrightarrow> isOneOf n [''tbody'', ''tfoot'', ''thead'']"

definition isSpecialNode :: "element \<Rightarrow> bool" where
  "isSpecialNode e \<longleftrightarrow>
     (if hasQName e MathML ''mi'' \<or> hasQName e MathML ''mo'' \<or> hasQName e MathML ''mn''
         \<or> hasQName e MathML ''ms'' \<or> hasQName e MathML ''mtext'' \<or> hasQName e MathML ''annotation-xml''
         \<or> hasQName e SVG ''foreignObject'' \<or> hasQName e SVG ''desc'' \<or> hasQName e SVG ''title''
      then True
      else if namespaceURI e \<noteq> XHTML then False
      else isOneOf (localName e)
        [''address'', ''applet'', ''area'', ''article'', ''aside'', ''base'', ''basefont'', ''bgsound'',
         ''blockquote'', ''body'', ''br'', ''button'', ''caption'', ''center'', ''col'', ''colgroup'',
         ''command'', ''dd'', ''details'', ''dir'', ''div'', ''dl'', ''dt'', ''embed'', ''fieldset'',
         ''figcaption'', ''figure'', ''footer'', ''form'', ''frame'', ''frameset'']
      \<or> isNumberedHeaderTag (localName e)
      \<or> isOneOf (localName e)
        [''head'', ''header'', ''hgroup'', ''hr'', ''html'', ''iframe'', ''img'', ''input'', ''isindex'',
         ''li'', ''link'', ''listing'', ''marquee'', ''menu'', ''meta'', ''nav'', ''noembed'', ''noframes'',
         ''noscript'', ''object'', ''ol'', ''p'', ''param'', ''plaintext'', ''pre'', ''script'', ''section'',
         ''select'', ''style'', ''summary'', ''table'']
      \<or> isTableBodyContextTag (localName e)
      \<or> isOneOf (localName e)
        [''td'', ''textarea'', ''th'', ''title'', ''tr'', ''ul'', ''wbr'', ''xmp''])"

definition isNonAnchorNonNobrFormattingTag :: "ustr \<Rightarrow> bool" where
  "isNonAnchorNonNobrFormattingTag n \<longleftrightarrow>
     isOneOf n [''b'', ''big'', ''code'', ''em'', ''font'', ''i'', ''s'', ''small'', ''strike'', ''strong'', ''tt'', ''u'']"

definition isNonAnchorFormattingTag :: "ustr \<Rightarrow> bool" where
  "isNonAnchorFormattingTag n \<longleftrightarrow> n = ustr ''nobr'' \<or> isNonAnchorNonNobrFormattingTag n"

definition isFormattingTag :: "ustr \<Rightarrow> bool" where
  "isFormattingTag n \<longleftrightarrow> n = ustr ''a'' \<or> isNonAnchorFormattingTag n"

section \<open>Members\<close>

datatype insertionMode =
    InitialMode | BeforeHTMLMode | BeforeHeadMode | InHeadMode | InHeadNoscriptMode | AfterHeadMode
  | InBodyMode | TextMode | InTableMode | InTableTextMode | InCaptionMode | InColumnGroupMode
  | InTableBodyMode | InRowMode | InCellMode | InSelectMode | InSelectInTableMode | InForeignContentMode
  | AfterBodyMode | InFramesetMode | AfterFramesetMode | AfterAfterBodyMode | AfterAfterFramesetMode

text \<open>
  A fragment has its context element (which may be null) with the mode of its document, and the closest
  form around it.
\<close>

record fragmentContext =
  m_contextElement :: "element option"
  contextCompatibilityMode :: compatibilityMode
  closestFormAncestor :: "element option"
  m_scriptingPermission :: fragmentScriptingPermission

record builderConfig =
  m_fragmentContext :: "fragmentContext option"
  m_usePreHTML5ParserQuirks :: bool
  scriptEnabled :: bool
  pluginsEnabled :: bool
  searchableIndexIntroduction :: ustr
  caseFold :: "uchar \<Rightarrow> uchar"
  svgTags :: "qualifiedName list"
  svgAttrs :: "qualifiedName list"
  mathMLAttrs :: "qualifiedName list"
  xlinkAttrs :: "qualifiedName list"
  xmlAttrs :: "qualifiedName list"

text \<open>A text position is its line and its column.\<close>

type_synonym textPosition = "int \<times> int"

record treeBuilder =
  m_tree :: constructionSite
  m_framesetOk :: bool
  m_isPaused :: bool
  m_isFakeInsertionMode :: bool
  m_insertionMode :: insertionMode
  m_originalInsertionMode :: insertionMode
  m_pendingTableCharacters :: ustr
  m_tokenizer :: tokenizer
  m_scriptToProcess :: "element option"
  m_scriptToProcessStartPosition :: textPosition
  m_lastScriptElementStartPosition :: textPosition
  m_hasPendingForeignInsertionModeSteps :: bool
  builderAsserts :: bool

definition uninitializedPositionValue1 :: textPosition where
  "uninitializedPositionValue1 = (- 1, 1)"

definition toOneBasedTextPosition :: "textPosition \<Rightarrow> textPosition" where
  "toOneBasedTextPosition p = (fst p + 1, snd p + 1)"

definition isParsingFragment :: "builderConfig \<Rightarrow> bool" where
  "isParsingFragment cfg \<longleftrightarrow> m_fragmentContext cfg \<noteq> None"

text \<open>\<open>m_isFakeInsertionMode\<close> is not initialised, and not read before it is set.\<close>

definition newTreeBuilder :: "tokenizer \<Rightarrow> treeBuilder" where
  "newTreeBuilder tk =
     \<lparr>m_tree = newConstructionSite FragmentScriptingAllowed False, m_framesetOk = True, m_isPaused = False,
      m_isFakeInsertionMode = False, m_insertionMode = InitialMode, m_originalInsertionMode = InitialMode,
      m_pendingTableCharacters = [], m_tokenizer = tk, m_scriptToProcess = None,
      m_scriptToProcessStartPosition = uninitializedPositionValue1,
      m_lastScriptElementStartPosition = (- 1, - 1),
      m_hasPendingForeignInsertionModeSteps = False, builderAsserts = True\<rparr>"

definition ASSERT_builder :: "bool \<Rightarrow> treeBuilder \<Rightarrow> treeBuilder" where
  "ASSERT_builder b s = (if b then s else s\<lparr>builderAsserts := False\<rparr>)"

definition setInsertionMode :: "insertionMode \<Rightarrow> treeBuilder \<Rightarrow> treeBuilder" where
  "setInsertionMode mode s = s\<lparr>m_insertionMode := mode, m_isFakeInsertionMode := False\<rparr>"

definition setFakeInsertionMode :: "insertionMode \<Rightarrow> treeBuilder \<Rightarrow> treeBuilder" where
  "setFakeInsertionMode mode s = s\<lparr>m_insertionMode := mode, m_isFakeInsertionMode := True\<rparr>"

definition setFramesetOk :: "bool \<Rightarrow> treeBuilder \<Rightarrow> treeBuilder" where
  "setFramesetOk b s = s\<lparr>m_framesetOk := b\<rparr>"

text \<open>The parts of the state the operations work on.\<close>

abbreviation openElements :: "treeBuilder \<Rightarrow> elementStack" where
  "openElements s \<equiv> m_openElements (m_tree s)"

abbreviation activeFormattingElements :: "treeBuilder \<Rightarrow> formattingList" where
  "activeFormattingElements s \<equiv> m_activeFormattingElements (m_tree s)"

definition onTree :: "(constructionSite \<Rightarrow> constructionSite option) \<Rightarrow> treeBuilder \<Rightarrow> treeBuilder option" where
  "onTree f s = map_option (\<lambda>t. s\<lparr>m_tree := t\<rparr>) (f (m_tree s))"

definition onOpenElements :: "(elementStack \<Rightarrow> elementStack option) \<Rightarrow> treeBuilder \<Rightarrow> treeBuilder option" where
  "onOpenElements f = onTree (onStack_option f)"

definition onFormattingElements :: "(formattingList \<Rightarrow> formattingList) \<Rightarrow> treeBuilder \<Rightarrow> treeBuilder" where
  "onFormattingElements f s = s\<lparr>m_tree := onList f (m_tree s)\<rparr>"

definition onTokenizer :: "(tokenizer \<Rightarrow> tokenizer) \<Rightarrow> treeBuilder \<Rightarrow> treeBuilder" where
  "onTokenizer f s = s\<lparr>m_tokenizer := f (m_tokenizer s)\<rparr>"

abbreviation currentElementOf :: "treeBuilder \<Rightarrow> element option" where
  "currentElementOf s \<equiv> currentElement (m_tree s)"

definition createOnTree ::
  "(constructionSite \<Rightarrow> (element \<times> constructionSite) option) \<Rightarrow> treeBuilder \<Rightarrow> (element \<times> treeBuilder) option" where
  "createOnTree f s = map_option (\<lambda>(e, t). (e, s\<lparr>m_tree := t\<rparr>)) (f (m_tree s))"

section \<open>Foreign names\<close>

text \<open>
  The case maps, from the name in lower case to the name; the first of two equal keys stays.
\<close>

type_synonym prefixedNameMap = "(ustr \<times> qualifiedName) list"

definition mapLoweredLocalNameToName :: "qualifiedName list \<Rightarrow> prefixedNameMap" where
  "mapLoweredLocalNameToName names =
     map (\<lambda>n. (map toASCIILower (qn_localName n), n))
       (filter (\<lambda>n. map toASCIILower (qn_localName n) \<noteq> qn_localName n) names)"

definition addNamesWithPrefix :: "ustr \<Rightarrow> qualifiedName list \<Rightarrow> prefixedNameMap" where
  "addNamesWithPrefix pre names =
     map (\<lambda>n. (pre @ ustr '':'' @ qn_localName n,
               \<lparr>qn_prefix = pre, qn_localName = qn_localName n, qn_namespace = qn_namespace n\<rparr>)) names"

definition adjustNames :: "prefixedNameMap \<Rightarrow> atomicToken \<Rightarrow> atomicToken" where
  "adjustNames m token = token\<lparr>a_attributes :=
     map_option (map (\<lambda>(n, v). (case map_of m (qn_localName n) of None \<Rightarrow> n | Some n' \<Rightarrow> n', v))) (a_attributes token)\<rparr>"

definition adjustSVGTagNameCase :: "builderConfig \<Rightarrow> atomicToken \<Rightarrow> atomicToken" where
  "adjustSVGTagNameCase cfg token =
     (case map_of (mapLoweredLocalNameToName (svgTags cfg)) (a_name token) of
        None \<Rightarrow> token
      | Some n \<Rightarrow> token\<lparr>a_name := qn_localName n\<rparr>)"

definition adjustSVGAttributes :: "builderConfig \<Rightarrow> atomicToken \<Rightarrow> atomicToken" where
  "adjustSVGAttributes cfg = adjustNames (mapLoweredLocalNameToName (svgAttrs cfg))"

definition adjustMathMLAttributes :: "builderConfig \<Rightarrow> atomicToken \<Rightarrow> atomicToken" where
  "adjustMathMLAttributes cfg = adjustNames (mapLoweredLocalNameToName (mathMLAttrs cfg))"

definition adjustForeignAttributes :: "builderConfig \<Rightarrow> atomicToken \<Rightarrow> atomicToken" where
  "adjustForeignAttributes cfg =
     adjustNames (addNamesWithPrefix (ustr ''xlink'') (xlinkAttrs cfg) @ addNamesWithPrefix (ustr ''xml'') (xmlAttrs cfg)
       @ [(ustr ''xmlns'', \<lparr>qn_prefix = [], qn_localName = ustr ''xmlns'', qn_namespace = XMLNS\<rparr>),
          (ustr ''xmlns:xlink'', \<lparr>qn_prefix = ustr ''xmlns'', qn_localName = ustr ''xlink'', qn_namespace = XMLNS\<rparr>)])"

end
