(* ===== verification/HTMLTreeBuilder.thy ===== *)
theory HTMLTreeBuilder
  imports HTMLTreeBuilderState
begin

text \<open>
  The operations of \<^verbatim>\<open>WebCore/html/parser/HTMLTreeBuilder.cpp\<close>.  Its functions call each other through
  \<open>processToken\<close>, \<open>processStartTag\<close>, \<open>processEndTag\<close>, \<open>processComment\<close>, \<open>processCharacterBuffer\<close> and
  \<open>processEndOfFile\<close>; each operation takes these calls as the parameter \<open>rec\<close>, and \<open>process\<close> of
  \<^verbatim>\<open>HTMLTreeBuilderProcess\<close> ties the knot.  An operation is \<open>None\<close> where the code follows a null pointer or a
  record that is gone, or reads an uninitialised member.  \<open>parseError\<close> and \<open>notImplemented\<close> do nothing.
\<close>

section \<open>Calls\<close>

datatype call =
    ProcessToken atomicToken
  | ProcessDoctypeToken atomicToken
  | ProcessStartTag atomicToken
  | ProcessEndTag atomicToken
  | ProcessComment atomicToken
  | ProcessCharacterBuffer ustr
  | ProcessEndOfFile atomicToken

type_synonym calls = "call \<Rightarrow> treeBuilder \<Rightarrow> treeBuilder option"

definition fakeStart :: "string \<Rightarrow> atomicToken" where
  "fakeStart n = fakeToken StartTag (ustr n) None"

definition fakeEnd :: "string \<Rightarrow> atomicToken" where
  "fakeEnd n = fakeToken EndTag (ustr n) None"

definition processFakeStartTag :: "calls \<Rightarrow> string \<Rightarrow> attributeMap option \<Rightarrow> treeBuilder \<Rightarrow> treeBuilder option" where
  "processFakeStartTag rec tagName attributes = rec (ProcessStartTag (fakeToken StartTag (ustr tagName) attributes))"

definition processFakeEndTag :: "calls \<Rightarrow> ustr \<Rightarrow> treeBuilder \<Rightarrow> treeBuilder option" where
  "processFakeEndTag rec tagName = rec (ProcessEndTag (fakeToken EndTag tagName None))"

definition processFakeCharacters :: "calls \<Rightarrow> ustr \<Rightarrow> treeBuilder \<Rightarrow> treeBuilder option" where
  "processFakeCharacters rec characters s =
     rec (ProcessCharacterBuffer characters) (ASSERT_builder (characters \<noteq> []) s)"

definition processFakePEndTagIfPInButtonScope :: "calls \<Rightarrow> treeBuilder \<Rightarrow> treeBuilder option" where
  "processFakePEndTagIfPInButtonScope rec s =
     (if \<not> inButtonScope (ustr ''p'') (openElements s) then Some s
      else rec (ProcessEndTag (fakeEnd ''p'')) s)"

section \<open>Insertion modes\<close>

fun resetInsertionMode_loop ::
  "builderConfig \<Rightarrow> element option \<Rightarrow> element list \<Rightarrow> treeBuilder \<Rightarrow> treeBuilder option" where
  "resetInsertionMode_loop cfg bottom [] s = None"
| "resetInsertionMode_loop cfg bottom (e # es) s =
     (let fragment = isParsingFragment cfg;
          last = (Some e = bottom);
          s = ASSERT_builder (last \<longrightarrow> fragment) s
      in do {
        node \<leftarrow> (if last then do { c \<leftarrow> m_fragmentContext cfg; m_contextElement c } else Some e);
        if hasTagName node ''select'' then Some (setInsertionMode InSelectMode (ASSERT_builder fragment s))
        else if hasTagName node ''td'' \<or> hasTagName node ''th'' then Some (setInsertionMode InCellMode s)
        else if hasTagName node ''tr'' then Some (setInsertionMode InRowMode s)
        else if hasTagName node ''tbody'' \<or> hasTagName node ''thead'' \<or> hasTagName node ''tfoot''
          then Some (setInsertionMode InTableBodyMode s)
        else if hasTagName node ''caption'' then Some (setInsertionMode InCaptionMode s)
        else if hasTagName node ''colgroup'' then Some (setInsertionMode InColumnGroupMode (ASSERT_builder fragment s))
        else if hasTagName node ''table'' then Some (setInsertionMode InTableMode s)
        else if hasTagName node ''head'' then Some (setInsertionMode InBodyMode (ASSERT_builder fragment s))
        else if hasTagName node ''body'' then Some (setInsertionMode InBodyMode s)
        else if hasTagName node ''frameset'' then Some (setInsertionMode InFramesetMode (ASSERT_builder fragment s))
        else if hasTagName node ''html'' then Some (setInsertionMode BeforeHeadMode (ASSERT_builder fragment s))
        else if namespaceURI node = SVG \<or> namespaceURI node = MathML then Some (setInsertionMode InForeignContentMode s)
        else if last then Some (setInsertionMode InBodyMode (ASSERT_builder fragment s))
        else resetInsertionMode_loop cfg bottom es s })"

definition resetInsertionModeAppropriately :: "builderConfig \<Rightarrow> treeBuilder \<Rightarrow> treeBuilder option" where
  "resetInsertionModeAppropriately cfg s =
     resetInsertionMode_loop cfg (bottomElement (openElements s)) (elements (openElements s)) s"

definition resetForeignInsertionMode :: "builderConfig \<Rightarrow> treeBuilder \<Rightarrow> treeBuilder option" where
  "resetForeignInsertionMode cfg s =
     (if m_insertionMode s = InForeignContentMode then resetInsertionModeAppropriately cfg s else Some s)"

definition prepareToReprocessToken :: "builderConfig \<Rightarrow> treeBuilder \<Rightarrow> treeBuilder option" where
  "prepareToReprocessToken cfg s =
     (if m_hasPendingForeignInsertionModeSteps s
      then do { s \<leftarrow> resetForeignInsertionMode cfg s; Some (s\<lparr>m_hasPendingForeignInsertionModeSteps := False\<rparr>) }
      else Some s)"

definition reprocessStartTag :: "builderConfig \<Rightarrow> calls \<Rightarrow> atomicToken \<Rightarrow> treeBuilder \<Rightarrow> treeBuilder option" where
  "reprocessStartTag cfg rec token s =
     do { s \<leftarrow> prepareToReprocessToken cfg s; rec (ProcessStartTag token) s }"

definition reprocessEndTag :: "builderConfig \<Rightarrow> calls \<Rightarrow> atomicToken \<Rightarrow> treeBuilder \<Rightarrow> treeBuilder option" where
  "reprocessEndTag cfg rec token s =
     do { s \<leftarrow> prepareToReprocessToken cfg s; rec (ProcessEndTag token) s }"

text \<open>The scope of a \<open>FakeInsertionMode\<close>.\<close>

definition withFakeInsertionMode ::
  "insertionMode \<Rightarrow> (treeBuilder \<Rightarrow> treeBuilder option) \<Rightarrow> treeBuilder \<Rightarrow> treeBuilder option" where
  "withFakeInsertionMode mode body s =
     do { s' \<leftarrow> body (setFakeInsertionMode mode s);
          Some (if m_isFakeInsertionMode s' then setInsertionMode (m_insertionMode s) s' else s') }"

definition processForeignContentUsingInBodyModeAndResetMode ::
  "builderConfig \<Rightarrow> calls \<Rightarrow> atomicToken \<Rightarrow> treeBuilder \<Rightarrow> treeBuilder option" where
  "processForeignContentUsingInBodyModeAndResetMode cfg rec token s =
     do { s \<leftarrow> withFakeInsertionMode InBodyMode (rec (ProcessToken token))
            (s\<lparr>m_hasPendingForeignInsertionModeSteps := True\<rparr>);
          if m_hasPendingForeignInsertionModeSteps s then resetForeignInsertionMode cfg s else Some s }"

text \<open>The scope of a \<open>RedirectToFosterParentGuard\<close>.\<close>

definition setRedirect :: "bool \<Rightarrow> treeBuilder \<Rightarrow> treeBuilder" where
  "setRedirect b s = s\<lparr>m_tree := (m_tree s)\<lparr>m_redirectAttachToFosterParent := b\<rparr>\<rparr>"

definition withRedirect :: "(treeBuilder \<Rightarrow> treeBuilder option) \<Rightarrow> treeBuilder \<Rightarrow> treeBuilder option" where
  "withRedirect body s =
     (let wasRedirecting = m_redirectAttachToFosterParent (m_tree s)
      in do { s \<leftarrow> body (setRedirect True s); Some (setRedirect wasRedirecting s) })"

section \<open>Text elements\<close>

definition setTokenizerState :: "State \<Rightarrow> treeBuilder \<Rightarrow> treeBuilder" where
  "setTokenizerState st = onTokenizer (\<lambda>tk. tk\<lparr>m_state := st\<rparr>)"

definition setSkipLeadingNewLineForListing :: "bool \<Rightarrow> treeBuilder \<Rightarrow> treeBuilder" where
  "setSkipLeadingNewLineForListing b = onTokenizer (\<lambda>tk. tk\<lparr>m_skipLeadingNewLineForListing := b\<rparr>)"

text \<open>\<open>m_originalInsertionMode = m_insertionMode; setInsertionMode(TextMode)\<close>.\<close>

definition enterTextMode :: "treeBuilder \<Rightarrow> treeBuilder" where
  "enterTextMode s = setInsertionMode TextMode (s\<lparr>m_originalInsertionMode := m_insertionMode s\<rparr>)"

definition processGenericRCDATAStartTag :: "atomicToken \<Rightarrow> treeBuilder \<Rightarrow> treeBuilder option" where
  "processGenericRCDATAStartTag token s =
     do { s \<leftarrow> onTree (insertHTMLElement token) (ASSERT_builder (a_type token = StartTag) s);
          Some (enterTextMode (setTokenizerState RCDATAState s)) }"

definition processGenericRawTextStartTag :: "atomicToken \<Rightarrow> treeBuilder \<Rightarrow> treeBuilder option" where
  "processGenericRawTextStartTag token s =
     do { s \<leftarrow> onTree (insertHTMLElement token) (ASSERT_builder (a_type token = StartTag) s);
          Some (enterTextMode (setTokenizerState RAWTEXTState s)) }"

definition processScriptStartTag :: "atomicToken \<Rightarrow> treeBuilder \<Rightarrow> treeBuilder option" where
  "processScriptStartTag token s =
     do { s \<leftarrow> onTree (insertScriptElement token) (ASSERT_builder (a_type token = StartTag) s);
          let s = setTokenizerState ScriptDataState s;
          Some (enterTextMode (s\<lparr>m_lastScriptElementStartPosition := (m_lineNumber (m_tokenizer s), 0)\<rparr>)) }"

section \<open>In head\<close>

text \<open>The result is whether the token was processed.\<close>

definition processStartTagForInHead ::
  "builderConfig \<Rightarrow> calls \<Rightarrow> atomicToken \<Rightarrow> treeBuilder \<Rightarrow> (bool \<times> treeBuilder) option" where
  "processStartTagForInHead cfg rec token s =
     (let s = ASSERT_builder (a_type token = StartTag) s;
          did = map_option (Pair True)
      in if a_name token = ustr ''html'' then did (onTree (insertHTMLHtmlStartTagInBody token) s)
         else if isOneOf (a_name token) [''base'', ''basefont'', ''bgsound'', ''command'', ''link'', ''meta'']
           then did (onTree (insertSelfClosingHTMLElement token) s)
         else if a_name token = ustr ''title'' then did (processGenericRCDATAStartTag token s)
         else if a_name token = ustr ''noscript'' then
           (if scriptEnabled cfg then did (processGenericRawTextStartTag token s)
            else did (map_option (setInsertionMode InHeadNoscriptMode) (onTree (insertHTMLElement token) s)))
         else if isOneOf (a_name token) [''noframes'', ''style''] then did (processGenericRawTextStartTag token s)
         else if a_name token = ustr ''script'' then
           did (do { s \<leftarrow> processScriptStartTag token s;
                     if m_usePreHTML5ParserQuirks cfg
                     then do { selfClosing \<leftarrow> a_selfClosing token;
                               if selfClosing then processFakeEndTag rec (ustr ''script'') s else Some s }
                     else Some s })
         else if a_name token = ustr ''head'' then Some (True, s)
         else Some (False, s))"

text \<open>The calls that ignore the result, and those that assert it.\<close>

definition startTagForInHead :: "builderConfig \<Rightarrow> calls \<Rightarrow> atomicToken \<Rightarrow> treeBuilder \<Rightarrow> treeBuilder option" where
  "startTagForInHead cfg rec token s = map_option snd (processStartTagForInHead cfg rec token s)"

definition startTagForInHead_asserted :: "builderConfig \<Rightarrow> calls \<Rightarrow> atomicToken \<Rightarrow> treeBuilder \<Rightarrow> treeBuilder option" where
  "startTagForInHead_asserted cfg rec token s =
     map_option (\<lambda>(didProcess, s). ASSERT_builder didProcess s) (processStartTagForInHead cfg rec token s)"

end
