(* ===== verification/HTMLTreeBuilderInBody.thy ===== *)
theory HTMLTreeBuilderInBody
  imports HTMLTreeBuilder
begin

text \<open>
  The tags in the body: \<open>processStartTagForInBody\<close>, \<open>processEndTagForInBody\<close> and the adoption agency of
  \<^verbatim>\<open>WebCore/html/parser/HTMLTreeBuilder.cpp\<close>.
\<close>

section \<open>Helpers of the start tags\<close>

definition isLi :: "element \<Rightarrow> bool" where
  "isLi e \<longleftrightarrow> hasTagName e ''li''"

definition isDdOrDt :: "element \<Rightarrow> bool" where
  "isDdOrDt e \<longleftrightarrow> hasTagName e ''dd'' \<or> hasTagName e ''dt''"

text \<open>The loop down the stack: the element to close, \<open>Some None\<close> for none, \<open>None\<close> past the bottom.\<close>

fun closeWhenNested_loop :: "(element \<Rightarrow> bool) \<Rightarrow> element list \<Rightarrow> element option option" where
  "closeWhenNested_loop shouldClose [] = None"
| "closeWhenNested_loop shouldClose (e # es) =
     (if shouldClose e then Some (Some e)
      else if isSpecialNode e \<and> \<not> hasTagName e ''address'' \<and> \<not> hasTagName e ''div'' \<and> \<not> hasTagName e ''p''
        then Some None
      else closeWhenNested_loop shouldClose es)"

definition processCloseWhenNestedTag ::
  "calls \<Rightarrow> (element \<Rightarrow> bool) \<Rightarrow> atomicToken \<Rightarrow> treeBuilder \<Rightarrow> treeBuilder option" where
  "processCloseWhenNestedTag rec shouldClose token s =
     do { let s = setFramesetOk False s;
          found \<leftarrow> closeWhenNested_loop shouldClose (elements (openElements s));
          s \<leftarrow> (case found of Some e \<Rightarrow> processFakeEndTag rec (localName e) s | None \<Rightarrow> Some s);
          s \<leftarrow> processFakePEndTagIfPInButtonScope rec s;
          onTree (insertHTMLElement token) s }"

definition attributesForIsindexInput :: "atomicToken \<Rightarrow> attributeMap" where
  "attributesForIsindexInput token =
     insertAttribute False (plainName (ustr ''name''), ustr ''isindex'')
       (case a_attributes token of
          None \<Rightarrow> []
        | Some m \<Rightarrow> removeAttribute (plainName (ustr ''prompt''))
                      (removeAttribute (plainName (ustr ''action'')) (removeAttribute (plainName (ustr ''name'')) m)))"

definition processIsindexStartTagForInBody ::
  "builderConfig \<Rightarrow> calls \<Rightarrow> atomicToken \<Rightarrow> treeBuilder \<Rightarrow> treeBuilder option" where
  "processIsindexStartTagForInBody cfg rec token s =
     (let s = ASSERT_builder (a_type token = StartTag \<and> a_name token = ustr ''isindex'') s
      in if m_form (m_tree s) \<noteq> None then Some s
         else do {
           s \<leftarrow> processFakeStartTag rec ''form'' None s;
           s \<leftarrow> (case token_getAttributeItem (plainName (ustr ''action'')) token of
                  Some (_, action) \<Rightarrow>
                    do { c \<leftarrow> currentElementOf s;
                         onTree (Some \<circ> setAttribute c (plainName (ustr ''action'')) action)
                           (ASSERT_builder (hasTagName c ''form'') s) }
                | None \<Rightarrow> Some s);
           s \<leftarrow> processFakeStartTag rec ''hr'' None s;
           s \<leftarrow> processFakeStartTag rec ''label'' None s;
           s \<leftarrow> processFakeCharacters rec
                (case token_getAttributeItem (plainName (ustr ''prompt'')) token of
                   Some (_, prompt) \<Rightarrow> prompt
                 | None \<Rightarrow> searchableIndexIntroduction cfg) s;
           s \<leftarrow> processFakeStartTag rec ''input'' (Some (attributesForIsindexInput token)) s;
           s \<leftarrow> processFakeEndTag rec (ustr ''label'') s;
           s \<leftarrow> processFakeStartTag rec ''hr'' None s;
           processFakeEndTag rec (ustr ''form'') s })"

text \<open>A frameset start tag replaces the body.\<close>

definition framesetInBody :: "builderConfig \<Rightarrow> atomicToken \<Rightarrow> treeBuilder \<Rightarrow> treeBuilder option" where
  "framesetInBody cfg token s =
     do { onlyOne \<leftarrow> (if secondElementIsHTMLBodyElement (openElements s) then hasOnlyOneElement (openElements s) else Some True);
          if onlyOne then Some (ASSERT_builder (isParsingFragment cfg) s)
          else if \<not> m_framesetOk s then Some s
          else do {
            body \<leftarrow> m_bodyElement (openElements s);
            let (failed, tree) = removeNode (nodeAddress body) (m_tree s);
            let s = ASSERT_builder (\<not> failed) (s\<lparr>m_tree := tree\<rparr>);
            s \<leftarrow> onOpenElements (popUntil_element body) s;
            s \<leftarrow> onOpenElements popHTMLBodyElement s;
            let s = ASSERT_builder (currentElementOf s = m_htmlElement (openElements s)) s;
            s \<leftarrow> onTree (insertHTMLElement token) s;
            Some (setInsertionMode InFramesetMode s) } }"

definition bodyInBody :: "builderConfig \<Rightarrow> atomicToken \<Rightarrow> treeBuilder \<Rightarrow> treeBuilder option" where
  "bodyInBody cfg token s =
     do { onlyOne \<leftarrow> (if secondElementIsHTMLBodyElement (openElements s) then hasOnlyOneElement (openElements s) else Some True);
          if onlyOne then Some (ASSERT_builder (isParsingFragment cfg) s)
          else onTree (insertHTMLBodyStartTagInBody token) s }"

definition anchorInBody :: "calls \<Rightarrow> atomicToken \<Rightarrow> treeBuilder \<Rightarrow> treeBuilder option" where
  "anchorInBody rec token s =
     do { s \<leftarrow> (case closestElementInScopeWithName (ustr ''a'') (activeFormattingElements s) of
                 None \<Rightarrow> Some s
               | Some activeATag \<Rightarrow>
                   do { s \<leftarrow> processFakeEndTag rec (ustr ''a'') s;
                        let s = onFormattingElements (remove_entry activeATag) s;
                        if contains_element activeATag (openElements s)
                        then onOpenElements (remove_element activeATag) s else Some s });
          s \<leftarrow> onTree reconstructTheActiveFormattingElements s;
          onTree (insertFormattingElement token) s }"

definition nobrInBody :: "calls \<Rightarrow> atomicToken \<Rightarrow> treeBuilder \<Rightarrow> treeBuilder option" where
  "nobrInBody rec token s =
     do { s \<leftarrow> onTree reconstructTheActiveFormattingElements s;
          s \<leftarrow> (if inScope (ustr ''nobr'') (openElements s)
               then do { s \<leftarrow> processFakeEndTag rec (ustr ''nobr'') s;
                         onTree reconstructTheActiveFormattingElements s }
               else Some s);
          onTree (insertFormattingElement token) s }"

definition rubyTextInBody :: "atomicToken \<Rightarrow> treeBuilder \<Rightarrow> treeBuilder option" where
  "rubyTextInBody token s =
     do { s \<leftarrow> (if inScope (ustr ''ruby'') (openElements s)
               then do { s \<leftarrow> onTree generateImpliedEndTags s;
                         c \<leftarrow> currentElementOf s;
                         if \<not> hasTagName c ''ruby'' then onOpenElements (popUntil (ustr ''ruby'')) s else Some s }
               else Some s);
          onTree (insertHTMLElement token) s }"

definition foreignRootInBody :: "atomicToken \<Rightarrow> namespace \<Rightarrow> treeBuilder \<Rightarrow> treeBuilder option" where
  "foreignRootInBody token ns s =
     do { s \<leftarrow> onTree reconstructTheActiveFormattingElements s;
          s \<leftarrow> onTree (insertForeignElement token ns) s;
          Some (if m_insertionMode s \<noteq> InForeignContentMode then setInsertionMode InForeignContentMode s else s) }"

text \<open>\<open>img\<close> and the other void elements of the flow.\<close>

definition voidInBody :: "atomicToken \<Rightarrow> treeBuilder \<Rightarrow> treeBuilder option" where
  "voidInBody token s =
     do { s \<leftarrow> onTree reconstructTheActiveFormattingElements s;
          s \<leftarrow> onTree (insertSelfClosingHTMLElement token) s;
          Some (setFramesetOk False s) }"

section \<open>Start tags\<close>

definition processStartTagForInBody ::
  "builderConfig \<Rightarrow> calls \<Rightarrow> atomicToken \<Rightarrow> treeBuilder \<Rightarrow> treeBuilder option" where
  "processStartTagForInBody cfg rec token s =
     (let s = ASSERT_builder (a_type token = StartTag) s;
          n = a_name token
      in if n = ustr ''html'' then onTree (insertHTMLHtmlStartTagInBody token) s
         else if isOneOf n [''base'', ''basefont'', ''bgsound'', ''command'', ''link'', ''meta'', ''noframes'',
                            ''script'', ''style'', ''title'']
           then startTagForInHead_asserted cfg rec token s
         else if n = ustr ''body'' then bodyInBody cfg token s
         else if n = ustr ''frameset'' then framesetInBody cfg token s
         else if isOneOf n [''address'', ''article'', ''aside'', ''blockquote'', ''center'', ''details'', ''dir'',
                            ''div'', ''dl'', ''fieldset'', ''figcaption'', ''figure'', ''footer'', ''header'',
                            ''hgroup'', ''menu'', ''nav'', ''ol'', ''p'', ''section'', ''summary'', ''ul'']
           then do { s \<leftarrow> processFakePEndTagIfPInButtonScope rec s; onTree (insertHTMLElement token) s }
         else if isNumberedHeaderTag n
           then do { s \<leftarrow> processFakePEndTagIfPInButtonScope rec s;
                     c \<leftarrow> currentElementOf s;
                     s \<leftarrow> (if isNumberedHeaderTag (localName c) then onOpenElements pop_element s else Some s);
                     onTree (insertHTMLElement token) s }
         else if isOneOf n [''pre'', ''listing'']
           then do { s \<leftarrow> processFakePEndTagIfPInButtonScope rec s;
                     s \<leftarrow> onTree (insertHTMLElement token) s;
                     Some (setFramesetOk False (setSkipLeadingNewLineForListing True s)) }
         else if n = ustr ''form''
           then (if m_form (m_tree s) \<noteq> None then Some s
                 else do { s \<leftarrow> processFakePEndTagIfPInButtonScope rec s;
                           onTree (insertHTMLFormElement token False) s })
         else if n = ustr ''li'' then processCloseWhenNestedTag rec isLi token s
         else if isOneOf n [''dd'', ''dt''] then processCloseWhenNestedTag rec isDdOrDt token s
         else if n = ustr ''plaintext''
           then do { s \<leftarrow> processFakePEndTagIfPInButtonScope rec s;
                     s \<leftarrow> onTree (insertHTMLElement token) s;
                     Some (setTokenizerState PLAINTEXTState s) }
         else if n = ustr ''button''
           then (if inScope (ustr ''button'') (openElements s)
                 then do { s \<leftarrow> processFakeEndTag rec (ustr ''button'') s;
                           reprocessStartTag cfg rec token s }
                 else do { s \<leftarrow> onTree reconstructTheActiveFormattingElements s;
                           s \<leftarrow> onTree (insertHTMLElement token) s;
                           Some (setFramesetOk False s) })
         else if n = ustr ''a'' then anchorInBody rec token s
         else if isNonAnchorNonNobrFormattingTag n
           then do { s \<leftarrow> onTree reconstructTheActiveFormattingElements s;
                     onTree (insertFormattingElement token) s }
         else if n = ustr ''nobr'' then nobrInBody rec token s
         else if isOneOf n [''applet'', ''marquee'', ''object'']
           then do { s \<leftarrow> onTree reconstructTheActiveFormattingElements s;
                     s \<leftarrow> onTree (insertHTMLElement token) s;
                     Some (setFramesetOk False (onFormattingElements appendMarker s)) }
         else if n = ustr ''table''
           then do { s \<leftarrow> (if \<not> inQuirksMode (documentCompatibility (m_tree s)) \<and> inButtonScope (ustr ''p'') (openElements s)
                          then processFakeEndTag rec (ustr ''p'') s else Some s);
                     s \<leftarrow> onTree (insertHTMLElement token) s;
                     Some (setInsertionMode InTableMode (setFramesetOk False s)) }
         else if n = ustr ''image''
           then do { s \<leftarrow> prepareToReprocessToken cfg s; voidInBody (token\<lparr>a_name := ustr ''img''\<rparr>) s }
         else if isOneOf n [''area'', ''br'', ''embed'', ''img'', ''input'', ''keygen'', ''wbr'']
           then voidInBody token s
         else if isOneOf n [''param'', ''source'', ''track''] then onTree (insertSelfClosingHTMLElement token) s
         else if n = ustr ''hr''
           then do { s \<leftarrow> processFakePEndTagIfPInButtonScope rec s;
                     s \<leftarrow> onTree (insertSelfClosingHTMLElement token) s;
                     Some (setFramesetOk False s) }
         else if n = ustr ''isindex'' then processIsindexStartTagForInBody cfg rec token s
         else if n = ustr ''textarea''
           then do { s \<leftarrow> onTree (insertHTMLElement token) s;
                     let s = setTokenizerState RCDATAState (setSkipLeadingNewLineForListing True s);
                     Some (enterTextMode (setFramesetOk False s)) }
         else if n = ustr ''xmp''
           then do { s \<leftarrow> processFakePEndTagIfPInButtonScope rec s;
                     s \<leftarrow> onTree reconstructTheActiveFormattingElements s;
                     processGenericRawTextStartTag token (setFramesetOk False s) }
         else if n = ustr ''iframe'' then processGenericRawTextStartTag token (setFramesetOk False s)
         else if n = ustr ''noembed'' \<and> pluginsEnabled cfg then processGenericRawTextStartTag token s
         else if n = ustr ''noscript'' \<and> scriptEnabled cfg then processGenericRawTextStartTag token s
         else if n = ustr ''select''
           then do { s \<leftarrow> onTree reconstructTheActiveFormattingElements s;
                     s \<leftarrow> onTree (insertHTMLElement token) s;
                     let s = setFramesetOk False s;
                     Some (if m_insertionMode s \<in> {InTableMode, InCaptionMode, InColumnGroupMode, InTableBodyMode, InRowMode, InCellMode}
                           then setInsertionMode InSelectInTableMode s
                           else setInsertionMode InSelectMode s) }
         else if isOneOf n [''optgroup'', ''option'']
           then do { s \<leftarrow> (if inScope (ustr ''option'') (openElements s)
                          then rec (ProcessEndTag (fakeEnd ''option'')) s else Some s);
                     s \<leftarrow> onTree reconstructTheActiveFormattingElements s;
                     onTree (insertHTMLElement token) s }
         else if isOneOf n [''rp'', ''rt''] then rubyTextInBody token s
         else if n = ustr ''math''
           then foreignRootInBody (adjustForeignAttributes cfg (adjustMathMLAttributes cfg token)) MathML s
         else if n = ustr ''svg''
           then foreignRootInBody (adjustForeignAttributes cfg (adjustSVGAttributes cfg token)) SVG s
         else if isCaptionColOrColgroupTag n \<or> isOneOf n [''frame'', ''head''] \<or> isTableBodyContextTag n
                 \<or> isTableCellContextTag n \<or> n = ustr ''tr''
           then Some s
         else do { s \<leftarrow> onTree reconstructTheActiveFormattingElements s;
                   onTree (insertHTMLElement token) s })"

section \<open>The adoption agency\<close>

text \<open>A record of the stack by its address, and the record below it; \<open>None\<close> for a record that is gone.\<close>

definition recordAt :: "nat \<Rightarrow> treeBuilder \<Rightarrow> elementRecord option" where
  "recordAt a s = find (\<lambda>r. recordAddress r = a) (m_top (openElements s))"

definition nextOf :: "nat \<Rightarrow> treeBuilder \<Rightarrow> nat option" where
  "nextOf a s = (case recordsBelow a (openElements s) of [] \<Rightarrow> None | r # _ \<Rightarrow> Some (recordAddress r))"

text \<open>\<open>None\<close> is the \<open>ASSERT_NOT_REACHED\<close> after the loop.\<close>

fun furthestBlock_loop :: "element \<Rightarrow> elementRecord option \<Rightarrow> elementRecord list \<Rightarrow> elementRecord option option" where
  "furthestBlock_loop formattingElement furthestBlock [] = None"
| "furthestBlock_loop formattingElement furthestBlock (r # rs) =
     (if m_element r = formattingElement then Some furthestBlock
      else furthestBlock_loop formattingElement (if isSpecialNode (m_element r) then Some r else furthestBlock) rs)"

definition furthestBlockForFormattingElement :: "element \<Rightarrow> treeBuilder \<Rightarrow> elementRecord option \<times> treeBuilder" where
  "furthestBlockForFormattingElement formattingElement s =
     (case furthestBlock_loop formattingElement None (m_top (openElements s)) of
        Some r \<Rightarrow> (r, s)
      | None \<Rightarrow> (None, ASSERT_builder False s))"

text \<open>Removing a node from its parent element, if it has one.\<close>

definition detachFromParent :: "nat \<Rightarrow> treeBuilder \<Rightarrow> treeBuilder" where
  "detachFromParent n s =
     (case parentElement (m_tree s) n of
        Some p \<Rightarrow> s\<lparr>m_tree := onDom (parserRemoveChild (nodeAddress p) n) (m_tree s)\<rparr>
      | None \<Rightarrow> s)"

definition addChild :: "nat \<Rightarrow> nat \<Rightarrow> treeBuilder \<Rightarrow> treeBuilder" where
  "addChild parent n s = s\<lparr>m_tree := onDom (parserAddChild parent n) (m_tree s)\<rparr>"

text \<open>
  Step 6, at most \<open>adoptionAgencyIterationLimit\<close> times: the records between the furthest block and the
  formatting element; the result is \<open>lastNode\<close> and the bookmark.
\<close>

definition adoptionAgencyIterationLimit :: nat where
  "adoptionAgencyIterationLimit = 10"

fun adoption_inner ::
  "nat \<Rightarrow> nat \<Rightarrow> nat \<Rightarrow> nat option \<Rightarrow> nat \<Rightarrow> bookmark \<Rightarrow> treeBuilder \<Rightarrow> ((nat \<times> bookmark) \<times> treeBuilder) option" where
  "adoption_inner 0 formattingRecord furthestBlock nextNode lastNode bm s = Some ((lastNode, bm), s)"
| "adoption_inner (Suc i) formattingRecord furthestBlock nextNode lastNode bm s =
     do { node \<leftarrow> nextNode;
          r \<leftarrow> recordAt node s;
          let nextNode = nextOf node s;
          if \<not> list_contains (m_element r) (activeFormattingElements s)
          then do { s \<leftarrow> onOpenElements (remove_element (m_element r)) s;
                    adoption_inner i formattingRecord furthestBlock nextNode lastNode bm s }
          else if node = formattingRecord then Some ((lastNode, bm), s)
          else do {
            (new, s) \<leftarrow> createOnTree (createHTMLElementFromElementRecord r) s;
            nodeEntry \<leftarrow> find_entry (m_element r) (activeFormattingElements s);
            let s = onFormattingElements (replace_entry nodeEntry new) s;
            s \<leftarrow> onOpenElements (Some \<circ> replaceElement node new) s;
            let bm = (if lastNode = furthestBlock then moveToAfter nodeEntry bm else bm);
            l \<leftarrow> recordAt lastNode s;
            let s = detachFromParent (nodeAddress (m_element l)) s;
            let s = addChild (nodeAddress new) (nodeAddress (m_element l)) s;
            adoption_inner i formattingRecord furthestBlock nextNode node bm s } }"

text \<open>One round; the result is whether the algorithm goes on.\<close>

definition adoption_round :: "atomicToken \<Rightarrow> treeBuilder \<Rightarrow> (bool \<times> treeBuilder) option" where
  "adoption_round token s =
     (case closestElementInScopeWithName (a_name token) (activeFormattingElements s) of
        None \<Rightarrow> Some (False, s)
      | Some formattingElement \<Rightarrow>
          if contains_element formattingElement (openElements s) \<and> \<not> inScope_element formattingElement (openElements s)
          then Some (False, s)
          else case find_record formattingElement (openElements s) of
            None \<Rightarrow> Some (False, onFormattingElements (remove_entry formattingElement) s)
          | Some formattingElementRecord \<Rightarrow>
              case furthestBlockForFormattingElement formattingElement s of
                (None, s) \<Rightarrow>
                  do { s \<leftarrow> onOpenElements (popUntilPopped_element formattingElement) s;
                       Some (False, onFormattingElements (remove_entry formattingElement) s) }
              | (Some furthestBlock, s) \<Rightarrow>
                  do {
                    let fr = recordAddress formattingElementRecord;
                    let fb = recordAddress furthestBlock;
                    let s = ASSERT_builder (isAbove fb fr (openElements s)) s;
                    below \<leftarrow> nextOf fr s;
                    commonAncestorRecord \<leftarrow> recordAt below s;
                    let commonAncestor = m_element commonAncestorRecord;
                    bm \<leftarrow> bookmarkFor formattingElement (activeFormattingElements s);
                    ((lastNode, bm), s) \<leftarrow> adoption_inner adoptionAgencyIterationLimit fr fb (nextOf fb s) fb bm s;
                    l \<leftarrow> recordAt lastNode s;
                    let s = detachFromParent (nodeAddress (m_element l)) s;
                    let tag = localName commonAncestor;
                    s \<leftarrow> (if tag = ustr ''table'' \<or> tag = ustr ''tr'' \<or> isTableBodyContextTag tag
                         then onTree (fosterParent (nodeAddress (m_element l))) s
                         else Some (addChild (nodeAddress commonAncestor) (nodeAddress (m_element l)) s));
                    r \<leftarrow> recordAt fr s;
                    (new, s) \<leftarrow> createOnTree (createHTMLElementFromElementRecord r) s;
                    block \<leftarrow> recordAt fb s;
                    let blockElement = nodeAddress (m_element block);
                    s \<leftarrow> onTree (\<lambda>t. map_option (\<lambda>d. t\<lparr>m_dom := d\<rparr>)
                          (takeAllChildrenFrom (nodeAddress new) blockElement (m_dom t))) s;
                    let s = addChild blockElement (nodeAddress new) s;
                    let s = onFormattingElements (swapTo formattingElement new bm) s;
                    s \<leftarrow> onOpenElements (remove_element formattingElement) s;
                    s \<leftarrow> onOpenElements (Some \<circ> insertAbove new fb) s;
                    Some (True, s) })"

fun adoption_loop :: "nat \<Rightarrow> atomicToken \<Rightarrow> treeBuilder \<Rightarrow> treeBuilder option" where
  "adoption_loop 0 token s = Some s"
| "adoption_loop (Suc i) token s =
     do { (more, s) \<leftarrow> adoption_round token s; if more then adoption_loop i token s else Some s }"

definition callTheAdoptionAgency :: "atomicToken \<Rightarrow> treeBuilder \<Rightarrow> treeBuilder option" where
  "callTheAdoptionAgency = adoption_loop adoptionAgencyIterationLimit"

section \<open>End tags\<close>

definition processBodyEndTagForInBody :: "atomicToken \<Rightarrow> treeBuilder \<Rightarrow> bool \<times> treeBuilder" where
  "processBodyEndTagForInBody token s =
     (let s = ASSERT_builder (a_type token = EndTag \<and> a_name token = ustr ''body'') s
      in if \<not> inScope (ustr ''body'') (openElements s) then (False, s)
         else (True, setInsertionMode AfterBodyMode s))"

text \<open>The node an end tag closes, \<open>Some None\<close> at a special node, \<open>None\<close> past the bottom.\<close>

fun anyOther_loop :: "ustr \<Rightarrow> element list \<Rightarrow> element option option" where
  "anyOther_loop name [] = None"
| "anyOther_loop name (e # es) =
     (if hasLocalName e name then Some (Some e)
      else if isSpecialNode e then Some None
      else anyOther_loop name es)"

definition processAnyOtherEndTagForInBody :: "atomicToken \<Rightarrow> treeBuilder \<Rightarrow> treeBuilder option" where
  "processAnyOtherEndTagForInBody token s =
     do { let s = ASSERT_builder (a_type token = EndTag) s;
          found \<leftarrow> anyOther_loop (a_name token) (elements (openElements s));
          case found of
            None \<Rightarrow> Some s
          | Some node \<Rightarrow>
              do { s \<leftarrow> onTree generateImpliedEndTags s;
                   c \<leftarrow> currentElementOf s;
                   if \<not> hasLocalName c (a_name token) \<and> \<not> contains_element node (openElements s) then Some s
                   else onOpenElements (popUntilPopped_element node) s } }"

text \<open>The end tags that close the element of that name: implied end tags first, then up to the element.\<close>

definition closeBlock :: "ustr \<Rightarrow> treeBuilder \<Rightarrow> treeBuilder option" where
  "closeBlock n s =
     do { s \<leftarrow> onTree generateImpliedEndTags s;
          _ \<leftarrow> currentElementOf s;
          onOpenElements (popUntilPopped n) s }"

definition closeWithExclusion :: "ustr \<Rightarrow> treeBuilder \<Rightarrow> treeBuilder option" where
  "closeWithExclusion n s =
     do { s \<leftarrow> onTree (generateImpliedEndTagsWithExclusion n) s;
          _ \<leftarrow> currentElementOf s;
          onOpenElements (popUntilPopped n) s }"

text \<open>
  The branch for \<open></form>\<close> does not return: its first result is whether it did.
\<close>

definition formEndTagForInBody :: "treeBuilder \<Rightarrow> (bool \<times> treeBuilder) option" where
  "formEndTagForInBody s =
     (let (node, tree) = takeForm (m_tree s);
          s = s\<lparr>m_tree := tree\<rparr>
      in case node of
           None \<Rightarrow> Some (True, s)
         | Some node \<Rightarrow>
             if \<not> inScope_element node (openElements s) then Some (True, s)
             else do { s \<leftarrow> onTree generateImpliedEndTags s;
                       _ \<leftarrow> currentElementOf s;
                       s \<leftarrow> onOpenElements (remove_element node) s;
                       Some (False, s) })"

definition processEndTagForInBody ::
  "builderConfig \<Rightarrow> calls \<Rightarrow> atomicToken \<Rightarrow> treeBuilder \<Rightarrow> treeBuilder option" where
  "processEndTagForInBody cfg rec token s =
     (let s = ASSERT_builder (a_type token = EndTag) s;
          n = a_name token
      in if n = ustr ''body'' then Some (snd (processBodyEndTagForInBody token s))
         else if n = ustr ''html''
           then (case processBodyEndTagForInBody (fakeEnd ''body'') s of
                   (True, s) \<Rightarrow> reprocessEndTag cfg rec token s
                 | (False, s) \<Rightarrow> Some s)
         else if isOneOf n [''address'', ''article'', ''aside'', ''blockquote'', ''button'', ''center'', ''details'',
                            ''dir'', ''div'', ''dl'', ''fieldset'', ''figcaption'', ''figure'', ''footer'', ''header'',
                            ''hgroup'', ''listing'', ''menu'', ''nav'', ''ol'', ''pre'', ''section'', ''summary'', ''ul'']
           then (if \<not> inScope n (openElements s) then Some s else closeBlock n s)
         else if n = ustr ''form''
           then do { (returned, s) \<leftarrow> formEndTagForInBody s;
                     if returned then Some s else processAnyOtherEndTagForInBody token s }
         else if n = ustr ''p''
           then (if \<not> inButtonScope n (openElements s)
                 then do { s \<leftarrow> processFakeStartTag rec ''p'' None s;
                           reprocessEndTag cfg rec token (ASSERT_builder (inScope n (openElements s)) s) }
                 else closeWithExclusion n s)
         else if n = ustr ''li''
           then (if \<not> inListItemScope n (openElements s) then Some s else closeWithExclusion n s)
         else if isOneOf n [''dd'', ''dt'']
           then (if \<not> inScope n (openElements s) then Some s else closeWithExclusion n s)
         else if isNumberedHeaderTag n
           then (if \<not> hasNumberedHeaderElementInScope (openElements s) then Some s
                 else do { s \<leftarrow> onTree generateImpliedEndTags s;
                           _ \<leftarrow> currentElementOf s;
                           onOpenElements popUntilNumberedHeaderElementPopped s })
         else if isFormattingTag n then callTheAdoptionAgency token s
         else if isOneOf n [''applet'', ''marquee'', ''object'']
           then (if \<not> inScope n (openElements s) then Some s
                 else map_option (onFormattingElements clearToLastMarker) (closeBlock n s))
         else if n = ustr ''br'' then processFakeStartTag rec ''br'' None s
         else processAnyOtherEndTagForInBody token s)"

end
