(* ===== verification/ContainerNodeForest.thy ===== *)
theory ContainerNodeForest
  imports ContainerNode
begin

text \<open>
  The parser mutations keep the document a forest: the links are those of lists of children, no node is
  its own ancestor, and no assertion has failed.  \<open>childOf\<close> is the relation of the parent links; each
  mutation is a change of it.
\<close>

definition childOf :: "dom \<Rightarrow> (nat \<times> nat) set" where
  "childOf d = {(c, p). parentNode (links d c) = Some p}"

definition forest :: "dom \<Rightarrow> bool" where
  "forest d \<longleftrightarrow> (\<exists>ch. tree_of d ch) \<and> acyclic (childOf d) \<and> domAsserts d"

lemma childOf_iff: "(c, p) \<in> childOf d \<longleftrightarrow> parentNode (links d c) = Some p"
  by (simp add: childOf_def)

lemma childOf_tree: "tree_of d ch \<Longrightarrow> childOf d = {(c, p). c \<in> set (ch p)}"
  using tree_ofD(5) by (fastforce simp: childOf_def)

lemma forest_parent: "forest d \<Longrightarrow> (c, p) \<in> childOf d \<Longrightarrow> (c, q) \<in> childOf d \<Longrightarrow> p = q"
  by (simp add: childOf_iff)

lemma forest_empty: "forest emptyDom" "childOf emptyDom = {}"
proof -
  show no: "childOf emptyDom = {}" by (simp add: childOf_def emptyDom_def newNode_def)
  show "forest emptyDom"
    using emptyDom_tree unfolding forest_def no by (auto simp: emptyDom_def acyclic_def)
qed

lemma forest_addChild:
  assumes "forest d" "parentNode (links d c) = None" "(p, c) \<notin> (childOf d)\<^sup>*"
  shows "forest (parserAddChild p c d)" "childOf (parserAddChild p c d) = insert (c, p) (childOf d)"
proof -
  obtain ch where ch: "tree_of d ch" using assms(1) by (auto simp: forest_def)
  have "c \<noteq> p" using assms(3) by auto
  note add = parserAddChild_tree [OF ch assms(2) this]
  show rel: "childOf (parserAddChild p c d) = insert (c, p) (childOf d)"
    by (auto simp: childOf_tree [OF ch] childOf_tree [OF add(1)] split: if_splits)
  show "forest (parserAddChild p c d)"
    using add assms(1,3) unfolding forest_def rel by (auto simp: acyclic_insert)
qed

lemma forest_insertBefore:
  assumes "forest d" "parentNode (links d c) = None" "parentNode (links d n) = Some p" "(p, c) \<notin> (childOf d)\<^sup>*"
  shows "forest (parserInsertBefore p c n d)" "childOf (parserInsertBefore p c n d) = insert (c, p) (childOf d)"
proof -
  obtain ch where ch: "tree_of d ch" using assms(1) by (auto simp: forest_def)
  then have "n \<in> set (ch p)" using tree_ofD(5) assms(3) by blast
  then obtain xs ys where split: "ch p = xs @ n # ys" by (auto simp: in_set_conv_decomp)
  have "c \<noteq> p" using assms(4) by auto
  note ins = parserInsertBefore_tree [OF ch assms(2) split this]
  show rel: "childOf (parserInsertBefore p c n d) = insert (c, p) (childOf d)"
    by (auto simp: childOf_tree [OF ch] childOf_tree [OF ins(1)] split split: if_splits)
  show "forest (parserInsertBefore p c n d)"
    using ins assms(1,4) unfolding forest_def rel by (auto simp: acyclic_insert)
qed

lemma acyclic_less: "acyclic r \<Longrightarrow> s \<subseteq> r \<Longrightarrow> acyclic s"
  by (rule acyclic_subset)

lemma forest_removeChild:
  assumes "forest d" "parentNode (links d x) = Some p"
  shows "forest (parserRemoveChild p x d)" "childOf (parserRemoveChild p x d) = childOf d - {(x, p)}"
proof -
  obtain ch where ch: "tree_of d ch" using assms(1) by (auto simp: forest_def)
  then have "x \<in> set (ch p)" using tree_ofD(5) assms(2) by blast
  then obtain xs ys where split: "ch p = xs @ x # ys" by (auto simp: in_set_conv_decomp)
  note rem = parserRemoveChild_tree [OF ch split]
  have "distinct (ch p)" by (rule tree_ofD(1) [OF ch])
  then show rel: "childOf (parserRemoveChild p x d) = childOf d - {(x, p)}"
    by (auto simp: childOf_tree [OF ch] childOf_tree [OF rem(1)] split split: if_splits)
  show "forest (parserRemoveChild p x d)"
    using rem assms(1) acyclic_less [of "childOf d"] unfolding forest_def rel by auto
qed

lemma forest_removeAllChildren:
  assumes "forest d"
  obtains d' where "removeAllChildren p d = Some d'" "forest d'" "childOf d' = {(c, q) \<in> childOf d. q \<noteq> p}"
proof -
  obtain ch where ch: "tree_of d ch" using assms(1) by (auto simp: forest_def)
  obtain d' where d': "removeAllChildren p d = Some d'" "domAsserts d' = domAsserts d" "tree_of d' (ch(p := []))"
    using removeAllChildren_tree [OF ch] by blast
  have rel: "childOf d' = {(c, q) \<in> childOf d. q \<noteq> p}"
    by (auto simp: childOf_tree [OF ch] childOf_tree [OF d'(3)] split: if_splits)
  have "forest d'"
    using d' assms acyclic_less [of "childOf d" "childOf d'"] unfolding forest_def rel by auto
  then show thesis using that d'(1) rel by blast
qed

text \<open>The children move to a node that has none and no parent.\<close>

lemma forest_takeAllChildrenFrom:
  assumes "forest d" "p \<noteq> q" "\<And>x. (x, p) \<notin> childOf d" "\<And>x. (p, x) \<notin> childOf d"
  obtains d' where "takeAllChildrenFrom p q d = Some d'" "forest d'"
    "childOf d' = {(c, x). (c, x) \<in> childOf d \<and> x \<noteq> q \<or> (c, q) \<in> childOf d \<and> x = p}"
proof -
  obtain ch where ch: "tree_of d ch" using assms(1) by (auto simp: forest_def)
  have p: "p \<notin> set (ch q)" "ch p = []"
    using assms(3) [of "hd (ch p)"] assms(4) by (cases "ch p"; simp add: childOf_tree [OF ch])+
  obtain d' where d': "takeAllChildrenFrom p q d = Some d'" "domAsserts d' = domAsserts d"
    "tree_of d' (ch(q := [], p := ch p @ ch q))"
    using takeAllChildrenFrom_tree [OF ch assms(2) p(1)] by blast
  have rel: "childOf d' = {(c, x). (c, x) \<in> childOf d \<and> x \<noteq> q \<or> (c, q) \<in> childOf d \<and> x = p}"
    using assms(2) p by (auto simp: childOf_tree [OF ch] childOf_tree [OF d'(3)] split: if_splits)
  let ?f = "\<lambda>x. if x = p then q else x"
  have "(?f a, ?f b) \<in> (childOf d)\<^sup>+" if "(a, b) \<in> (childOf d')\<^sup>+" for a b
    using that
  proof induction
    case (base b)
    then show ?case using assms(3,4) by (auto simp: rel)
  next
    case (step b c)
    have "(?f b, ?f c) \<in> childOf d" using step.hyps(2) assms(3,4) by (auto simp: rel)
    then show ?case using step.IH by (meson trancl.trancl_into_trancl)
  qed
  then have "acyclic (childOf d')" using assms(1) unfolding forest_def acyclic_def by fastforce
  then have "forest d'" using d' assms(1) by (auto simp: forest_def)
  then show thesis using that d'(1) rel by blast
qed

text \<open>A node without children is an ancestor of itself only.\<close>

lemma childless: "(\<And>x. (x, c) \<notin> r) \<Longrightarrow> (y, c) \<in> r\<^sup>* \<Longrightarrow> y = c"
  by (auto elim: rtranclE)

lemma parentless: "(\<And>x. (c, x) \<notin> r) \<Longrightarrow> (c, y) \<in> r\<^sup>* \<Longrightarrow> y = c"
  by (auto elim: converse_rtranclE)

end
