(* ===== verification/HTMLConstructionSiteInvariant.thy ===== *)
theory HTMLConstructionSiteInvariant
  imports HTMLConstructionSite HTMLElementScopes ContainerNodeForest
begin

text \<open>
  The invariant of the construction site, and that its operations return, keep it and fail no assertion:
  the document is a forest whose inner nodes are elements; the open elements, the active formatting
  elements, the head and the form are nodes of it; an element is not inside one that was opened after it.
\<close>

section \<open>The invariant\<close>

definition isNode :: "constructionSite \<Rightarrow> element \<Rightarrow> bool" where
  "isNode s e \<longleftrightarrow> nodeData s (nodeAddress e) = Some (ElementNode e)"

definition isParent :: "constructionSite \<Rightarrow> nat \<Rightarrow> bool" where
  "isParent s p \<longleftrightarrow> (\<exists>e. nodeData s p = Some (ElementNode e))"

text \<open>The only element that is a child of the document is the html element.\<close>

definition nodes_ok :: "constructionSite \<Rightarrow> bool" where
  "nodes_ok s \<longleftrightarrow>
     forest (m_dom s) \<and> (\<forall>n. freshNode s \<le> n \<longrightarrow> nodeData s n = None)
     \<and> (\<forall>n. nodeData s n = Some DocumentNode \<longleftrightarrow> n = theDocument)
     \<and> (\<forall>n e. nodeData s n = Some (ElementNode e) \<longrightarrow> nodeAddress e = n)
     \<and> (\<forall>c p. (c, p) \<in> childOf (m_dom s) \<longrightarrow> c \<noteq> theDocument \<and> nodeData s c \<noteq> None
          \<and> (isParent s p \<or> p = theDocument \<and> (\<forall>e. nodeData s c = Some (ElementNode e) \<longrightarrow> hasTagName e ''html'')))"

text \<open>\<open>y\<close>, which is below \<open>x\<close> on the stack, is not \<open>x\<close> and not inside \<open>x\<close>.\<close>

definition notInside :: "constructionSite \<Rightarrow> element \<Rightarrow> element \<Rightarrow> bool" where
  "notInside s x y \<longleftrightarrow> (nodeAddress y, nodeAddress x) \<notin> (childOf (m_dom s))\<^sup>*"

definition formattingNames :: "string list" where
  "formattingNames =
     [''a'', ''nobr'', ''b'', ''big'', ''code'', ''em'', ''font'', ''i'', ''s'', ''small'', ''strike'', ''strong'', ''tt'', ''u'']"

definition isFormattingElement :: "element \<Rightarrow> bool" where
  "isFormattingElement e \<longleftrightarrow> list_ex (hasTagName e) formattingNames"

text \<open>A local name \<open>table\<close> belongs to HTML, since the tag ends foreign content.\<close>

definition tableIsHTML :: "element \<Rightarrow> bool" where
  "tableIsHTML e \<longleftrightarrow> localName e = ustr ''table'' \<longrightarrow> namespaceURI e = XHTML"

abbreviation siteElements :: "constructionSite \<Rightarrow> element list" where
  "siteElements s \<equiv> elements (m_openElements s)"

abbreviation siteEntries :: "constructionSite \<Rightarrow> entry list" where
  "siteEntries s \<equiv> m_entries (m_activeFormattingElements s)"

text \<open>The body that is open has a parent, the html element is a child of the document.\<close>

definition bodyLinked :: "constructionSite \<Rightarrow> element \<Rightarrow> bool" where
  "bodyLinked s e \<longleftrightarrow>
     (hasTagName e ''body'' \<longrightarrow> parentNode (links (m_dom s) (nodeAddress e)) \<noteq> None)
     \<and> (hasTagName e ''html'' \<longrightarrow> parentNode (links (m_dom s) (nodeAddress e)) = Some theDocument)"

definition site_ok :: "constructionSite \<Rightarrow> bool" where
  "site_ok s \<longleftrightarrow>
     nodes_ok s \<and> siteAsserts s
     \<and> stack_ok (m_openElements s) \<and> stackAsserts (m_openElements s)
     \<and> (\<forall>e \<in> set (siteElements s). isNode s e \<and> tableIsHTML e \<and> bodyLinked s e)
     \<and> sorted_wrt (notInside s) (siteElements s)
     \<and> formattingList_ok (m_activeFormattingElements s) \<and> listAsserts (m_activeFormattingElements s)
     \<and> (\<forall>e. Some e \<in> set (siteEntries s) \<longrightarrow> isNode s e \<and> isFormattingElement e)
     \<and> (\<forall>e. m_head s = Some e \<longrightarrow> isNode s e \<and> hasTagName e ''head'')
     \<and> (\<forall>e. m_form s = Some e \<longrightarrow> nodeAddress e < freshNode s \<and> hasTagName e ''form'')"

text \<open>What most operations leave alone.\<close>

definition siteFrame ::
  "constructionSite \<Rightarrow> element option \<times> compatibility \<times> fragmentScriptingPermission \<times> bool \<times> bool" where
  "siteFrame s = (m_head s, documentCompatibility s, m_fragmentScriptingPermission s,
     m_isParsingFragment s, m_redirectAttachToFosterParent s)"

lemma site_okD:
  assumes "site_ok s"
  shows "nodes_ok s" "siteAsserts s" "stack_ok (m_openElements s)" "stackAsserts (m_openElements s)"
    "e \<in> set (siteElements s) \<Longrightarrow> isNode s e \<and> tableIsHTML e \<and> bodyLinked s e" "sorted_wrt (notInside s) (siteElements s)"
    "formattingList_ok (m_activeFormattingElements s)" "listAsserts (m_activeFormattingElements s)"
    "Some e \<in> set (siteEntries s) \<Longrightarrow> isNode s e \<and> isFormattingElement e"
    "m_head s = Some e \<Longrightarrow> isNode s e \<and> hasTagName e ''head''"
    "m_form s = Some e \<Longrightarrow> nodeAddress e < freshNode s \<and> hasTagName e ''form''"
  using assms unfolding site_ok_def by blast+

lemma nodes_okD:
  assumes "nodes_ok s"
  shows "forest (m_dom s)" "freshNode s \<le> n \<Longrightarrow> nodeData s n = None"
    "nodeData s n = Some DocumentNode \<longleftrightarrow> n = theDocument"
    "nodeData s n = Some (ElementNode e) \<Longrightarrow> nodeAddress e = n"
    "(c, p) \<in> childOf (m_dom s) \<Longrightarrow> c \<noteq> theDocument \<and> nodeData s c \<noteq> None
        \<and> (isParent s p \<or> p = theDocument \<and> (\<forall>e. nodeData s c = Some (ElementNode e) \<longrightarrow> hasTagName e ''html''))"
  using assms unfolding nodes_ok_def by blast+

lemma isNode_fresh:
  assumes "nodes_ok s" "isNode s e"
  shows "nodeAddress e < freshNode s" "nodeAddress e \<noteq> theDocument"
proof -
  have e: "nodeData s (nodeAddress e) = Some (ElementNode e)" using assms(2) by (simp add: isNode_def)
  then show "nodeAddress e < freshNode s"
    using nodes_okD(2) [OF assms(1), of "nodeAddress e"] by (cases "freshNode s \<le> nodeAddress e") simp_all
  show "nodeAddress e \<noteq> theDocument" using nodes_okD(3) [OF assms(1), of "nodeAddress e"] e by fastforce
qed

lemma isNode_inject: "isNode s e \<Longrightarrow> isNode s e' \<Longrightarrow> nodeAddress e = nodeAddress e' \<longleftrightarrow> e = e'"
  unfolding isNode_def by (metis nodeData.inject(2) option.inject)

text \<open>A node that is not linked.\<close>

definition unlinked :: "constructionSite \<Rightarrow> nat \<Rightarrow> bool" where
  "unlinked s n \<longleftrightarrow> (\<forall>x. (n, x) \<notin> childOf (m_dom s) \<and> (x, n) \<notin> childOf (m_dom s))"

lemma unlinked_fresh: "nodes_ok s \<Longrightarrow> nodeData s n = None \<Longrightarrow> unlinked s n"
  using nodes_okD(3) [of s n] by (auto simp: unlinked_def isParent_def dest: nodes_okD(5))

lemma newConstructionSite_ok: "site_ok (newConstructionSite permission fragment)"
proof -
  let ?s = "newConstructionSite permission fragment"
  have parts: "m_dom ?s = emptyDom" "nodeData ?s = [theDocument \<mapsto> DocumentNode]" "freshNode ?s = 1"
    "m_openElements ?s = emptyElementStack" "m_activeFormattingElements ?s = emptyFormattingList"
    "siteAsserts ?s = True" "m_head ?s = None" "m_form ?s = None"
    by (simp_all add: newConstructionSite_def)
  have "nodes_ok ?s" unfolding nodes_ok_def parts by (auto simp: forest_empty)
  moreover have "m_top emptyElementStack = []" "stackAsserts emptyElementStack" by (simp_all add: emptyElementStack_def)
  moreover have "m_entries emptyFormattingList = []" "listAsserts emptyFormattingList" "formattingList_ok emptyFormattingList"
    by (simp_all add: emptyFormattingList_def formattingList_ok_def)
  ultimately show ?thesis using empty_ok unfolding site_ok_def parts by simp
qed

section \<open>Nodes and links\<close>

lemma site_simps [simp]:
  "m_dom (onDom f s) = f (m_dom s)" "nodeData (onDom f s) = nodeData s" "freshNode (onDom f s) = freshNode s"
  "m_openElements (onStack g s) = g (m_openElements s)" "m_dom (onStack g s) = m_dom s"
  "m_activeFormattingElements (onList h s) = h (m_activeFormattingElements s)"
  "siteFrame (onDom f s) = siteFrame s" "siteFrame (onStack g s) = siteFrame s" "siteFrame (onList h s) = siteFrame s"
  "ASSERT_site True s = s"
  by (simp_all add: onDom_def onStack_def onList_def siteFrame_def ASSERT_site_def)

lemma isNode_cong: "nodeData s' = nodeData s \<Longrightarrow> isNode s' = isNode s" "nodeData s' = nodeData s \<Longrightarrow> isParent s' = isParent s"
  by (simp_all add: isNode_def isParent_def fun_eq_iff)

lemma isNode_parent: "isNode s e \<Longrightarrow> isParent s (nodeAddress e)"
  by (auto simp: isNode_def isParent_def)

text \<open>The invariant carries over when nodes and links are added.\<close>

lemma site_ok_extend:
  assumes "site_ok s" "nodes_ok s'" "m_openElements s' = m_openElements s"
    and "m_activeFormattingElements s' = m_activeFormattingElements s"
    and "m_head s' = m_head s" "m_form s' = m_form s" "siteAsserts s' = siteAsserts s" "freshNode s \<le> freshNode s'"
    and "\<And>e. isNode s e \<Longrightarrow> isNode s' e"
    and "sorted_wrt (notInside s') (siteElements s)" "childOf (m_dom s) \<subseteq> childOf (m_dom s')"
  shows "site_ok s'"
proof -
  have "bodyLinked s' e" if "bodyLinked s e" for e
    using that assms(11) by (force simp: bodyLinked_def childOf_def)
  then show ?thesis
    unfolding site_ok_def assms(3-7)
    using site_okD [OF assms(1)] assms(2,8-10) by (fastforce simp del: set_map)
qed

lemma nodes_ok_same:
  "nodes_ok s \<Longrightarrow> m_dom s' = m_dom s \<Longrightarrow> nodeData s' = nodeData s \<Longrightarrow> freshNode s' = freshNode s \<Longrightarrow> nodes_ok s'"
  by (simp add: nodes_ok_def isParent_def)

lemma site_ok_same:
  assumes "site_ok s" "m_dom s' = m_dom s" "nodeData s' = nodeData s" "freshNode s' = freshNode s"
    and "m_openElements s' = m_openElements s" "m_activeFormattingElements s' = m_activeFormattingElements s"
    and "m_head s' = m_head s" "m_form s' = m_form s" "siteAsserts s' = siteAsserts s"
  shows "site_ok s'"
proof (rule site_ok_extend [OF assms(1) nodes_ok_same [OF site_okD(1) [OF assms(1)] assms(2-4)] assms(5-9)])
  have "notInside s' = notInside s" by (simp add: notInside_def assms(2) fun_eq_iff)
  then show "sorted_wrt (notInside s') (siteElements s)" using site_okD(6) [OF assms(1)] by simp
qed (simp_all add: assms(2-4) isNode_def)

lemma site_ok_form:
  assumes "site_ok s" "\<And>e. f = Some e \<Longrightarrow> nodeAddress e < freshNode s \<and> hasTagName e ''form''"
  shows "site_ok (s\<lparr>m_form := f\<rparr>)"
proof -
  let ?s = "s\<lparr>m_form := f\<rparr>"
  have parts: "nodes_ok ?s = nodes_ok s" "isNode ?s = isNode s" "notInside ?s = notInside s" "bodyLinked ?s = bodyLinked s"
    by (simp_all add: nodes_ok_def isNode_def isParent_def notInside_def bodyLinked_def fun_eq_iff)
  show ?thesis using assms unfolding site_ok_def parts by simp
qed

lemma site_ok_head:
  assumes "site_ok s" "isNode s e" "hasTagName e ''head''"
  shows "site_ok (s\<lparr>m_head := Some e\<rparr>)"
proof -
  let ?s = "s\<lparr>m_head := Some e\<rparr>"
  have parts: "nodes_ok ?s = nodes_ok s" "isNode ?s = isNode s" "notInside ?s = notInside s" "bodyLinked ?s = bodyLinked s"
    by (simp_all add: nodes_ok_def isNode_def isParent_def notInside_def bodyLinked_def fun_eq_iff)
  show ?thesis using assms unfolding site_ok_def parts by simp
qed

lemma createNode_ok:
  assumes "nodes_ok s" "d \<noteq> DocumentNode" "\<And>e. d = ElementNode e \<Longrightarrow> nodeAddress e = freshNode s"
  shows "nodes_ok (snd (createNode d s))" "unlinked (snd (createNode d s)) (freshNode s)" "freshNode s \<noteq> theDocument"
proof -
  let ?s = "snd (createNode d s)" and ?n = "freshNode s"
  have parts: "m_dom ?s = m_dom s" "nodeData ?s = (nodeData s)(?n \<mapsto> d)" "freshNode ?s = Suc ?n"
    by (simp_all add: createNode_def)
  note ok = nodes_okD [OF assms(1)]
  have none: "nodeData s ?n = None" using ok(2) by blast
  then show n: "?n \<noteq> theDocument" using ok(3) [of theDocument] by (metis option.distinct(1))
  have no: "unlinked s ?n" by (rule unlinked_fresh [OF assms(1) none])
  then show "unlinked ?s ?n" by (simp add: unlinked_def parts)
  have "nodeData ?s m = Some DocumentNode \<longleftrightarrow> m = theDocument" for m using ok(3) [of m] n assms(2) parts(2) by auto
  moreover have "nodeAddress e = m" if "nodeData ?s m = Some (ElementNode e)" for m e
    using that ok(4) assms(3) by (auto simp: parts split: if_splits)
  moreover have "c \<noteq> theDocument \<and> nodeData ?s c \<noteq> None
      \<and> (isParent ?s p \<or> p = theDocument \<and> (\<forall>e. nodeData ?s c = Some (ElementNode e) \<longrightarrow> hasTagName e ''html''))"
    if "(c, p) \<in> childOf (m_dom ?s)" for c p
    using ok(5) [of c p] that no unfolding unlinked_def isParent_def parts by auto
  ultimately show "nodes_ok ?s" using ok(1,2) unfolding nodes_ok_def parts by auto
qed

lemma link_ok:
  assumes "nodes_ok s" "nodeData s c \<noteq> None" "c \<noteq> theDocument"
    and "isParent s p \<or> p = theDocument \<and> (\<forall>e. nodeData s c = Some (ElementNode e) \<longrightarrow> hasTagName e ''html'')"
    and "forest d" "childOf d = insert (c, p) (childOf (m_dom s))"
  shows "nodes_ok (s\<lparr>m_dom := d\<rparr>)"
proof -
  let ?s = "s\<lparr>m_dom := d\<rparr>"
  have parts: "m_dom ?s = d" "nodeData ?s = nodeData s" "freshNode ?s = freshNode s" "isParent ?s = isParent s"
    by (simp_all add: isParent_def fun_eq_iff)
  show ?thesis
    using nodes_okD [OF assms(1)] assms(2-5) unfolding nodes_ok_def parts assms(6) by blast
qed

text \<open>An unlinked node gets a parent: what is above what elsewhere stays.\<close>

lemma link_leaf:
  assumes "r' = insert (c, p) r" "\<And>x. (x, c) \<notin> r" "y \<noteq> c"
  shows "(y, x) \<in> r'\<^sup>* \<longleftrightarrow> (y, x) \<in> r\<^sup>*"
  using childless [OF assms(2), of y] assms(3) by (auto simp: assms(1) rtrancl_insert)

lemma sorted_leaf:
  assumes "childOf d = insert (c, p) (childOf (m_dom s))" "\<And>x. (x, c) \<notin> childOf (m_dom s)"
    and "\<And>e. e \<in> set es \<Longrightarrow> nodeAddress e \<noteq> c" "sorted_wrt (notInside s) es"
  shows "sorted_wrt (notInside (s\<lparr>m_dom := d\<rparr>)) es"
  using assms(4)
proof (rule sorted_wrt_mono_rel [rotated])
  fix x y assume "x \<in> set es" "y \<in> set es" "notInside s x y"
  then show "notInside (s\<lparr>m_dom := d\<rparr>) x y"
    using link_leaf [OF assms(1,2), of "nodeAddress y" "nodeAddress x"] assms(3) by (simp add: notInside_def)
qed

section \<open>Foster parents\<close>

lemma stack_top:
  "currentElement s = (case siteElements s of [] \<Rightarrow> None | e # es \<Rightarrow> Some e)"
  by (simp add: currentElement_def topElement_def split: list.split)

lemma bottom_stack:
  "site_ok s \<Longrightarrow> siteElements s \<noteq> [] \<Longrightarrow> bottomElement (m_openElements s) = Some (last (siteElements s))"
  using stack_ok_html [OF site_okD(3)] by (simp add: bottomElement_def)

lemma html_last: "site_ok s \<Longrightarrow> siteElements s \<noteq> [] \<Longrightarrow> hasTagName (last (siteElements s)) ''html''"
  using site_okD(3) by (simp add: stack_ok_def)

definition validSite :: "constructionSite \<Rightarrow> attachmentSite \<Rightarrow> bool" where
  "validSite s st \<longleftrightarrow> isParent s (siteParent st)
     \<and> (\<forall>n. siteNextChild st = Some n \<longrightarrow> parentNode (links (m_dom s) n) = Some (siteParent st))"

lemma find_None_append: "\<forall>x \<in> set xs. \<not> P x \<Longrightarrow> find P (xs @ ys) = find P ys"
  by (induction xs) auto

lemma recordsBelow_split:
  "m_top s = xs @ r # ys \<Longrightarrow> recordAddress r \<notin> recordAddress ` set xs \<Longrightarrow> recordsBelow (recordAddress r) s = ys"
proof -
  assume s: "m_top s = xs @ r # ys" "recordAddress r \<notin> recordAddress ` set xs"
  have "dropWhile (\<lambda>r'. recordAddress r' \<noteq> recordAddress r) (xs @ r # ys) = r # ys"
    using s(2) by (subst dropWhile_append2) (auto simp: image_iff)
  then show ?thesis using s(1) by (simp add: recordsBelow_def)
qed

text \<open>
  The foster site is at an element of the stack or at its parent, below every part of the stack
  without tables.
\<close>

lemma findFosterSite_ok:
  assumes "site_ok s" "m_top (m_openElements s) = upper @ lower" "lower \<noteq> []"
    and "\<forall>r \<in> set upper. \<not> hasLocalName (m_element r) (ustr ''table'')"
  obtains st x where "findFosterSite s = Some st" "validSite s st" "x \<in> m_element ` set lower"
    "(nodeAddress x, siteParent st) \<in> (childOf (m_dom s))\<^sup>*"
proof (cases "topmost (ustr ''table'') (m_openElements s)")
  case None
  have "siteElements s \<noteq> []" using assms(2,3) by simp
  then have b: "bottomElement (m_openElements s) = Some (m_element (last lower))"
    using bottom_stack [OF assms(1)] assms(2,3) by (simp add: last_map)
  have "isNode s (m_element (last lower))" using site_okD(5) [OF assms(1)] assms(2,3) by simp
  then have "validSite s \<lparr>siteParent = nodeAddress (m_element (last lower)), siteNextChild = None\<rparr>"
    by (simp add: validSite_def isNode_parent)
  then show thesis using that [of _ "m_element (last lower)"] None b assms(3) by (simp add: findFosterSite_def)
next
  case (Some r)
  then have "find (\<lambda>r. hasLocalName (m_element r) (ustr ''table'')) lower = Some r"
    using find_None_append [OF assms(4), of lower] by (simp add: topmost_def assms(2))
  then obtain i where i: "i < length lower" "lower ! i = r" "hasLocalName (m_element r) (ustr ''table'')"
    by (auto simp: find_Some_iff)
  obtain ys where lower: "lower = take i lower @ r # ys" using id_take_nth_drop [OF i(1)] i(2) by blast
  then have "r \<in> set lower" by (metis in_set_conv_decomp)
  then have node: "isNode s (m_element r)" using site_okD(5) [OF assms(1)] assms(2) by simp
  have table: "\<not> hasTagName (m_element r) ''html''" using i(3) by (simp add: hasQName_def hasLocalName_def)
  show thesis
  proof (cases "parentNode (links (m_dom s) (nodeAddress (m_element r)))")
    case (Some p)
    then have rel: "(nodeAddress (m_element r), p) \<in> childOf (m_dom s)" by (simp add: childOf_iff)
    then have "isParent s p" using nodes_okD(5) [OF site_okD(1) [OF assms(1)] rel] node table by (auto simp: isNode_def)
    then show thesis
      using that [of "\<lparr>siteParent = p, siteNextChild = Some (nodeAddress (m_element r))\<rparr>" "m_element r"]
        \<open>topmost _ _ = Some r\<close> Some r_into_rtrancl [OF rel] \<open>r \<in> set lower\<close>
      by (simp add: findFosterSite_def validSite_def)
  next
    case None
    have split: "m_top (m_openElements s) = (upper @ take i lower) @ r # ys" using assms(2) lower by simp
    note ok = stack_ok_split [OF site_okD(3) [OF assms(1)] this]
    have "siteElements s \<noteq> []" using assms(2,3) by simp
    from html_last [OF assms(1) this] have "ys \<noteq> []"
      using table split by auto
    then obtain n zs where ys: "ys = n # zs" by (cases ys) auto
    have n: "n \<in> set lower" using lower ys by (metis in_set_conv_decomp append.assoc append_Cons append_Nil)
    then have "isNode s (m_element n)" using site_okD(5) [OF assms(1)] assms(2) by simp
    then show thesis
      using that [of "\<lparr>siteParent = nodeAddress (m_element n), siteNextChild = None\<rparr>" "m_element n"] Some None n
        recordsBelow_split [OF split ok(3)] ys
      by (simp add: findFosterSite_def validSite_def isNode_parent)
  qed
qed

section \<open>Attaching\<close>

lemma attachAtSite_ok:
  assumes "nodes_ok s" "validSite s st" "nodeData s c \<noteq> None" "c \<noteq> theDocument"
    and "parentNode (links (m_dom s) c) = None" "(siteParent st, c) \<notin> (childOf (m_dom s))\<^sup>*"
  obtains d where "attachAtSite st c s = s\<lparr>m_dom := d\<rparr>" "nodes_ok (s\<lparr>m_dom := d\<rparr>)"
    "childOf d = insert (c, siteParent st) (childOf (m_dom s))"
proof -
  define d where "d = (case siteNextChild st of
      Some n \<Rightarrow> parserInsertBefore (siteParent st) c n (m_dom s) | None \<Rightarrow> parserAddChild (siteParent st) c (m_dom s))"
  have "attachAtSite st c s = s\<lparr>m_dom := d\<rparr>"
    by (simp add: attachAtSite_def d_def onDom_def split: option.split)
  moreover have "forest d \<and> childOf d = insert (c, siteParent st) (childOf (m_dom s))"
    using forest_addChild [OF nodes_okD(1) [OF assms(1)] assms(5,6)] assms(2)
      forest_insertBefore [OF nodes_okD(1) [OF assms(1)] assms(5) _ assms(6)]
    by (auto simp: d_def validSite_def split: option.split)
  ultimately show thesis
    using that link_ok [OF assms(1,3,4), of "siteParent st" d] assms(2) by (auto simp: validSite_def)
qed

lemma shouldFosterParent_ok:
  "siteElements s \<noteq> [] \<or> \<not> m_redirectAttachToFosterParent s \<Longrightarrow>
   \<exists>b. shouldFosterParent s = Some b \<and> (b \<longrightarrow> siteElements s \<noteq> [])"
  by (auto simp: shouldFosterParent_def stack_top split: list.split)

lemma onDom_const: "onDom f s = s\<lparr>m_dom := f (m_dom s)\<rparr>"
  by (simp add: onDom_def)

text \<open>A leaf that is not linked and not on the stack.\<close>

definition leaf :: "constructionSite \<Rightarrow> nat \<Rightarrow> bool" where
  "leaf s c \<longleftrightarrow> unlinked s c \<and> nodeData s c \<noteq> None \<and> c \<noteq> theDocument
     \<and> (\<forall>e \<in> set (siteElements s). nodeAddress e \<noteq> c)"

lemma leafD:
  assumes "leaf s c"
  shows "parentNode (links (m_dom s) c) = None" "(x, c) \<notin> childOf (m_dom s)" "(c, x) \<notin> childOf (m_dom s)"
    "nodeData s c \<noteq> None" "c \<noteq> theDocument" "e \<in> set (siteElements s) \<Longrightarrow> nodeAddress e \<noteq> c"
  using assms by (cases "parentNode (links (m_dom s) c)"; auto simp: leaf_def unlinked_def childOf_iff)+

lemma linked_leaf:
  assumes "site_ok s" "leaf s c" "nodes_ok (s\<lparr>m_dom := d\<rparr>)" "childOf d = insert (c, q) (childOf (m_dom s))"
  shows "site_ok (s\<lparr>m_dom := d\<rparr>)"
proof (rule site_ok_extend [OF assms(1,3)])
  show "sorted_wrt (notInside (s\<lparr>m_dom := d\<rparr>)) (siteElements s)"
    by (rule sorted_leaf [OF assms(4) leafD(2) [OF assms(2)] leafD(6) [OF assms(2)] site_okD(6) [OF assms(1)]])
qed (use assms(4) in \<open>auto simp: isNode_def\<close>)

lemma attach_ok:
  assumes "site_ok s" "leaf s c" "siteElements s \<noteq> [] \<or> \<not> m_redirectAttachToFosterParent s"
    and "isParent s p \<or> p = theDocument \<and> (\<forall>e. nodeData s c = Some (ElementNode e) \<longrightarrow> hasTagName e ''html'')"
    and "p \<noteq> c"
  obtains d q where "attach p c s = Some (s\<lparr>m_dom := d\<rparr>)" "site_ok (s\<lparr>m_dom := d\<rparr>)"
    "childOf d = insert (c, q) (childOf (m_dom s))" "q \<noteq> c" "m_redirectAttachToFosterParent s \<or> q = p"
proof -
  note leaf = leafD [OF assms(2)]
  obtain b where b: "shouldFosterParent s = Some b" "b \<Longrightarrow> siteElements s \<noteq> []"
    using shouldFosterParent_ok [OF assms(3)] by blast
  show thesis
  proof (cases b)
    case True
    then have ne: "siteElements s \<noteq> []" using b(2) by blast
    obtain st x where st: "findFosterSite s = Some st" "validSite s st" "x \<in> m_element ` set (m_top (m_openElements s))"
        "(nodeAddress x, siteParent st) \<in> (childOf (m_dom s))\<^sup>*"
      using findFosterSite_ok [OF assms(1), of "[]" "m_top (m_openElements s)"] ne by auto
    have "(siteParent st, c) \<notin> (childOf (m_dom s))\<^sup>*" (is ?acyclic)
      using st(3,4) leaf(6) childless [OF leaf(2), of "nodeAddress x"] by (auto dest: rtrancl_trans)
    then obtain d where d: "attachAtSite st c s = s\<lparr>m_dom := d\<rparr>" "nodes_ok (s\<lparr>m_dom := d\<rparr>)"
      "childOf d = insert (c, siteParent st) (childOf (m_dom s))"
      using attachAtSite_ok [OF site_okD(1) [OF assms(1)] st(2) leaf(4,5,1)] by blast
    have "siteParent st \<noteq> c" using \<open>?acyclic\<close> by auto
    moreover have "m_redirectAttachToFosterParent s" using b(1) True by (simp add: shouldFosterParent_def split: if_splits)
    ultimately show thesis
      using that [of d "siteParent st"] d linked_leaf [OF assms(1,2) d(2,3)] b True st(1)
      by (simp add: attach_def fosterParent_def)
  next
    case False
    let ?d = "parserAddChild p c (m_dom s)"
    have "(p, c) \<notin> (childOf (m_dom s))\<^sup>*" using childless [OF leaf(2), of p] assms(5) by blast
    then have d: "forest ?d" "childOf ?d = insert (c, p) (childOf (m_dom s))"
      using forest_addChild [OF nodes_okD(1) [OF site_okD(1) [OF assms(1)]] leaf(1)] by blast+
    have "nodes_ok (s\<lparr>m_dom := ?d\<rparr>)" by (rule link_ok [OF site_okD(1) [OF assms(1)] leaf(4,5) assms(4) d])
    then show thesis
      using that [of ?d p] linked_leaf [OF assms(1,2) _ d(2)] d(2) b False assms(5)
      by (simp add: attach_def onDom_const)
  qed
qed

section \<open>Creating\<close>

text \<open>A new node leaves everything else alone.\<close>

definition createdFrom :: "constructionSite \<Rightarrow> nat \<Rightarrow> constructionSite \<Rightarrow> bool" where
  "createdFrom s n s' \<longleftrightarrow>
     site_ok s' \<and> nodeData s n = None \<and> n < freshNode s' \<and> (\<forall>x. (x, n) \<notin> childOf (m_dom s'))
     \<and> m_openElements s' = m_openElements s \<and> m_activeFormattingElements s' = m_activeFormattingElements s
     \<and> siteFrame s' = siteFrame s \<and> m_form s' = m_form s \<and> freshNode s \<le> n \<and> (\<forall>e. isNode s e \<longrightarrow> isNode s' e)
     \<and> (\<forall>x y. x \<noteq> n \<longrightarrow> (x, y) \<in> childOf (m_dom s') \<longleftrightarrow> (x, y) \<in> childOf (m_dom s))"

lemma siteFrame_head: "siteFrame s' = siteFrame s \<Longrightarrow> m_head s' = m_head s"
  by (simp add: siteFrame_def)

lemma createNode_leaf:
  assumes "site_ok s" "d \<noteq> DocumentNode" "\<And>e. d = ElementNode e \<Longrightarrow> nodeAddress e = freshNode s"
    and "s' = (snd (createNode d s))\<lparr>attributeMaps := am\<rparr>"
  shows "createdFrom s (freshNode s) s'" "leaf s' (freshNode s)" "isParent s' p \<longleftrightarrow> isParent s p \<or> p = freshNode s \<and> (\<exists>e. d = ElementNode e)"
proof -
  let ?n = "freshNode s"
  have parts: "m_dom s' = m_dom s" "nodeData s' = (nodeData s)(?n \<mapsto> d)" "freshNode s' = Suc ?n"
    "m_openElements s' = m_openElements s" "m_activeFormattingElements s' = m_activeFormattingElements s"
    "siteFrame s' = siteFrame s" "m_form s' = m_form s" "siteAsserts s' = siteAsserts s"
    by (simp_all add: assms(4) createNode_def siteFrame_def)
  note ok = site_okD [OF assms(1)] and create = createNode_ok [OF site_okD(1) [OF assms(1)] assms(2,3)]
  have none: "nodeData s ?n = None" using nodes_okD(2) [OF ok(1)] by blast
  have nodes: "nodes_ok s'"
    using create(1) unfolding assms(4) nodes_ok_def by (simp add: isParent_def)
  have old: "nodeAddress e \<noteq> ?n" if "isNode s e" for e
    using isNode_fresh(1) [OF ok(1) that] by simp
  then have keep: "isNode s' e" if "isNode s e" for e using that by (simp add: isNode_def parts)
  have unlinked: "unlinked s' ?n" using create(2) by (simp add: unlinked_def parts assms(4))
  have "notInside s' = notInside s" by (simp add: notInside_def parts fun_eq_iff)
  then have "site_ok s'"
    using ok(6) keep by (intro site_ok_extend [OF assms(1) nodes]) (simp_all add: parts siteFrame_head [OF parts(6)])
  then show "createdFrom s ?n s'"
    using none keep unlinked by (simp add: createdFrom_def parts unlinked_def)
  show "leaf s' ?n" using unlinked create(3) ok(5) old by (auto simp: leaf_def parts)
  show "isParent s' p \<longleftrightarrow> isParent s p \<or> p = ?n \<and> (\<exists>e. d = ElementNode e)"
    using none by (auto simp: isParent_def parts)
qed

text \<open>Creating a node and attaching it.\<close>

lemma createAttach:
  assumes "site_ok s" "d \<noteq> DocumentNode" "\<And>e. d = ElementNode e \<Longrightarrow> nodeAddress e = freshNode s"
    and "s1 = (snd (createNode d s))\<lparr>attributeMaps := am\<rparr>"
    and "siteElements s \<noteq> [] \<or> \<not> m_redirectAttachToFosterParent s"
    and "isParent s p \<or> p = theDocument \<and> (\<forall>e. d = ElementNode e \<longrightarrow> hasTagName e ''html'')"
  obtains s' q where "attach p (freshNode s) s1 = Some s'" "createdFrom s (freshNode s) s'" "nodeData s' = (nodeData s)(freshNode s \<mapsto> d)"
    "parentNode (links (m_dom s') (freshNode s)) = Some q" "m_redirectAttachToFosterParent s \<or> q = p"
proof -
  let ?n = "freshNode s"
  note new = createNode_leaf [OF assms(1-4)] and ok = site_okD [OF assms(1)]
  have none: "nodeData s ?n = None" using nodes_okD(2) [OF ok(1)] by blast
  have frame: "siteFrame s1 = siteFrame s" "m_openElements s1 = m_openElements s" "nodeData s1 = (nodeData s)(?n \<mapsto> d)"
    "m_dom s1 = m_dom s"
    by (simp_all add: assms(4) createNode_def siteFrame_def)
  then have redirect: "m_redirectAttachToFosterParent s1 = m_redirectAttachToFosterParent s" by (simp add: siteFrame_def)
  have p: "p \<noteq> ?n" using assms(6) none nodes_okD(3) [OF ok(1), of theDocument] by (auto simp: isParent_def)
  have site: "site_ok s1" using new(1) by (simp add: createdFrom_def)
  from attach_ok [OF site new(2), of p] obtain d' q where d': "attach p ?n s1 = Some (s1\<lparr>m_dom := d'\<rparr>)" "site_ok (s1\<lparr>m_dom := d'\<rparr>)"
      "childOf d' = insert (?n, q) (childOf (m_dom s1))" "q \<noteq> ?n" "m_redirectAttachToFosterParent s1 \<or> q = p"
    using assms(5,6) redirect frame new(3) p by auto
  moreover have "createdFrom s ?n (s1\<lparr>m_dom := d'\<rparr>)"
    using new(1) d'(2-4) by (auto simp: createdFrom_def isNode_def siteFrame_def frame)
  moreover have "parentNode (links d' ?n) = Some q" using d'(3) by (auto simp: childOf_iff [symmetric])
  ultimately show thesis using that frame(3) redirect by simp
qed

section \<open>Opening elements\<close>

text \<open>What an operation does that opens an element, and one that does not touch the stack.\<close>

definition opened :: "constructionSite \<Rightarrow> namespace \<Rightarrow> ustr \<Rightarrow> element \<Rightarrow> constructionSite \<Rightarrow> bool" where
  "opened s ns name e s' \<longleftrightarrow>
     site_ok s' \<and> siteElements s' = e # siteElements s \<and> namespaceURI e = ns \<and> localName e = name
     \<and> isNode s' e \<and> \<not> isNode s e
     \<and> m_activeFormattingElements s' = m_activeFormattingElements s \<and> siteFrame s' = siteFrame s \<and> m_form s' = m_form s"

definition kept :: "constructionSite \<Rightarrow> constructionSite \<Rightarrow> bool" where
  "kept s s' \<longleftrightarrow> site_ok s' \<and> m_openElements s' = m_openElements s
     \<and> m_activeFormattingElements s' = m_activeFormattingElements s \<and> siteFrame s' = siteFrame s \<and> m_form s' = m_form s"

lemma keptD:
  "kept s s' \<Longrightarrow> site_ok s'" "kept s s' \<Longrightarrow> m_openElements s' = m_openElements s"
  "kept s s' \<Longrightarrow> m_activeFormattingElements s' = m_activeFormattingElements s"
  "kept s s' \<Longrightarrow> siteFrame s' = siteFrame s" "kept s s' \<Longrightarrow> m_form s' = m_form s"
  by (simp_all add: kept_def)

lemma createdFrom_kept: "createdFrom s n s' \<Longrightarrow> kept s s'"
  by (simp add: createdFrom_def kept_def)

text \<open>A change of the stack of open elements.\<close>

lemma onStack_site_ok:
  assumes "site_ok s" "stack_ok es" "stackAsserts es" "s' = s\<lparr>m_openElements := es\<rparr>"
    and "\<And>e. e \<in> set (elements es) \<Longrightarrow> isNode s e \<and> tableIsHTML e \<and> bodyLinked s e" "sorted_wrt (notInside s) (elements es)"
  shows "site_ok s'"
proof -
  have parts: "nodes_ok s' = nodes_ok s" "isNode s' = isNode s" "notInside s' = notInside s" "bodyLinked s' = bodyLinked s"
    by (simp_all add: assms(4) nodes_ok_def isNode_def isParent_def notInside_def bodyLinked_def fun_eq_iff)
  show ?thesis
    using assms(1-3,5,6) unfolding site_ok_def parts by (simp add: assms(4))
qed

lemma push_notInside:
  "createdFrom s (nodeAddress e) s' \<Longrightarrow> isNode s y \<Longrightarrow> notInside s' e y"
  using childless [of "nodeAddress e" "childOf (m_dom s')" "nodeAddress y"]
  by (auto simp: createdFrom_def notInside_def isNode_def)

text \<open>A created element is pushed.\<close>

lemma push_linked:
  assumes "site_ok s" "createdFrom s (nodeAddress e) s1" "nodeData s1 (nodeAddress e) = Some (ElementNode e)" "tableIsHTML e"
    and "stackAsserts (f e (m_openElements s))" "\<And>e s. elements (f e s) = e # elements s"
    and "f = push_element \<or> f = pushHTMLHeadElement \<or> f = pushHTMLBodyElement \<or> f = pushHTMLHtmlElement"
    and "bodyLinked s1 e"
  shows "opened s (namespaceURI e) (localName e) e (onStack (f e) s1)"
proof -
  note created = assms(2) [unfolded createdFrom_def]
  have new: "\<not> isNode s e" using created by (simp add: isNode_def)
  have e: "isNode s1 e" using assms(3) by (simp add: isNode_def)
  have off: "e \<notin> set (siteElements s)" using site_okD(5) [OF assms(1)] new by blast
  have ok: "stack_ok (f e (m_openElements s))"
    using push_ok [OF site_okD(3) [OF assms(1)] off] assms(5,7) by auto
  have "site_ok (onStack (f e) s1)"
  proof (rule onStack_site_ok [OF _ ok assms(5)])
    show "site_ok s1" "onStack (f e) s1 = s1\<lparr>m_openElements := f e (m_openElements s)\<rparr>"
      using created by (simp_all add: onStack_def)
    show "sorted_wrt (notInside s1) (elements (f e (m_openElements s)))"
      using push_notInside [OF assms(2)] site_okD(5) [OF assms(1)] site_okD(6) [of s1] created
      by (simp add: assms(6))
    fix e' assume "e' \<in> set (elements (f e (m_openElements s)))"
    then show "isNode s1 e' \<and> tableIsHTML e' \<and> bodyLinked s1 e'"
      using e assms(4,8) site_okD(5) [of s1] created by (auto simp: assms(6) simp del: set_map)
  qed
  then show ?thesis
    using created e new by (simp add: opened_def assms(6)) (simp add: onStack_def isNode_def)
qed

lemma push_created:
  assumes "site_ok s" "createdFrom s (nodeAddress e) s1" "nodeData s1 (nodeAddress e) = Some (ElementNode e)" "tableIsHTML e"
    and "stackAsserts (f e (m_openElements s))" "\<And>e s. elements (f e s) = e # elements s"
    and "f = push_element \<or> f = pushHTMLHeadElement \<or> f = pushHTMLBodyElement"
    and "parentNode (links (m_dom s1) (nodeAddress e)) \<noteq> None"
  shows "opened s (namespaceURI e) (localName e) e (onStack (f e) s1)"
proof -
  have "\<not> hasTagName e ''html''"
    using assms(5,7)
    by (auto simp: push_element_def pushHTMLHeadElement_def pushHTMLBodyElement_def pushCommon_def Let_def hasQName_def)
  then have "bodyLinked s1 e" using assms(8) by (simp add: bodyLinked_def)
  then show ?thesis using push_linked [OF assms(1-6)] assms(7) by blast
qed

lemma elements_push:
  "elements (push_element e s) = e # elements s" "elements (pushHTMLHeadElement e s) = e # elements s"
  "elements (pushHTMLBodyElement e s) = e # elements s" "elements (pushHTMLHtmlElement e s) = e # elements s"
  by (simp_all add: push_element_def pushHTMLHeadElement_def pushHTMLBodyElement_def pushHTMLHtmlElement_def
      pushCommon_def newRecord_def Let_def)

definition isPlainTag :: "namespace \<Rightarrow> ustr \<Rightarrow> bool" where
  "isPlainTag ns n \<longleftrightarrow> ns = XHTML \<longrightarrow> n \<notin> {ustr ''html'', ustr ''head'', ustr ''body''}"

lemma push_asserts:
  assumes "site_ok s" "siteElements s \<noteq> []" "isPlainTag (namespaceURI e) (localName e)"
  shows "stackAsserts (push_element e (m_openElements s))"
proof -
  have "m_htmlElement (m_openElements s) \<noteq> None"
    using stack_ok_Nil_iff [OF site_okD(3) [OF assms(1)]] assms(2) by simp
  then show ?thesis
    using assms(3) site_okD(4) [OF assms(1)]
    by (auto simp: push_element_def pushCommon_def isPlainTag_def hasQName_def Let_def)
qed

text \<open>Creating an element and attaching it to the current one.\<close>

lemma createElementWith_eq:
  "createElementWith ns name at s =
     (let e = \<lparr>nodeAddress = freshNode s, namespaceURI = ns, localName = name\<rparr>
      in (e, (snd (createNode (ElementNode e) s))\<lparr>attributeMaps := (attributeMaps s)
                 (freshNode s := setAttributeMap_list (m_fragmentScriptingPermission s) at)\<rparr>))"
  by (simp add: createElementWith_def createNode_def Let_def)

lemma createElement_attach:
  assumes "site_ok s" "siteElements s \<noteq> []" "createElementWith ns name at s = (e, s1)"
  obtains s2 where "attachToCurrent e s1 = Some s2" "createdFrom s (nodeAddress e) s2"
    "nodeData s2 (nodeAddress e) = Some (ElementNode e)" "namespaceURI e = ns" "localName e = name"
    "parentNode (links (m_dom s2) (nodeAddress e)) \<noteq> None"
proof -
  obtain c cs where c: "siteElements s = c # cs" using assms(2) by (cases "siteElements s") auto
  have e: "nodeAddress e = freshNode s" "namespaceURI e = ns" "localName e = name"
    and s1: "s1 = (snd (createNode (ElementNode e) s))\<lparr>attributeMaps := (attributeMaps s)
      (freshNode s := setAttributeMap_list (m_fragmentScriptingPermission s) at)\<rparr>"
    using assms(3) by (auto simp: createElementWith_eq Let_def)
  have "isParent s (nodeAddress c)" using site_okD(5) [OF assms(1), of c] c isNode_parent by auto
  then obtain s2 q where s2: "attach (nodeAddress c) (freshNode s) s1 = Some s2" "createdFrom s (freshNode s) s2"
      "nodeData s2 = (nodeData s)(freshNode s \<mapsto> ElementNode e)" "parentNode (links (m_dom s2) (freshNode s)) = Some q"
    using createAttach [OF assms(1) _ _ s1, of "nodeAddress c" thesis] assms(2) e(1) by simp
  have "currentElement s1 = Some c" by (simp add: stack_top s1 createNode_def c)
  then show thesis
    using that [of s2] s2 e by (simp add: attachToCurrent_def)
qed

lemma createHTMLElement_eq: "siteElements s \<noteq> [] \<Longrightarrow>
  createHTMLElement token s = Some (createElementWith XHTML (a_name token) (a_attributes token) s)"
  "siteElements s \<noteq> [] \<Longrightarrow> createElement token ns s = Some (createElementWith ns (a_name token) (a_attributes token) s)"
proof -
  have "namespaceURI (fst (createElementWith ns n as s)) = ns" for ns n as
    by (simp add: createElementWith_def Let_def split: prod.split)
  then have "createElementWith XHTML n as s = (e, s') \<Longrightarrow> namespaceURI e = XHTML" for n as e s'
    by (metis fst_conv)
  then show "siteElements s \<noteq> [] \<Longrightarrow>
      createHTMLElement token s = Some (createElementWith XHTML (a_name token) (a_attributes token) s)"
    by (cases "siteElements s") (auto simp: createHTMLElement_def stack_top ASSERT_site_def split: prod.split)
  show "siteElements s \<noteq> [] \<Longrightarrow>
      createElement token ns s = Some (createElementWith ns (a_name token) (a_attributes token) s)"
    by (cases "siteElements s") (simp_all add: createElement_def stack_top)
qed

lemma insertHTMLElement_ok:
  assumes "site_ok s" "siteElements s \<noteq> []" "isPlainTag XHTML (a_name token)"
  obtains e s' where "insertHTMLElement token s = Some s'" "opened s XHTML (a_name token) e s'"
proof -
  obtain e s1 where c: "createElementWith XHTML (a_name token) (a_attributes token) s = (e, s1)" by fastforce
  from createElement_attach [OF assms(1,2) c] obtain s2 where
    s2: "attachToCurrent e s1 = Some s2" "createdFrom s (nodeAddress e) s2"
    "nodeData s2 (nodeAddress e) = Some (ElementNode e)" "namespaceURI e = XHTML" "localName e = a_name token"
    "parentNode (links (m_dom s2) (nodeAddress e)) \<noteq> None" .
  then have "opened s XHTML (a_name token) e (onStack (push_element e) s2)"
    using push_created [OF assms(1) s2(2,3), of push_element] push_asserts [OF assms(1,2)] assms(3) elements_push(1) s2(4-6)
    by (simp add: tableIsHTML_def)
  then show thesis
    using that s2(1) c createHTMLElement_eq(1) [OF assms(2)] by (simp add: insertHTMLElement_def)
qed

end
