(* ===== verification/HTMLConstructionSiteOperations.thy ===== *)
theory HTMLConstructionSiteOperations
  imports HTMLConstructionSiteInvariant
begin

text \<open>
  The operations of the construction site under its invariant: each returns and either opens an element
  (\<open>opened\<close>), leaves the stack alone (\<open>kept\<close>), or only closes elements (\<open>closed\<close>).
\<close>

section \<open>Elements that are opened\<close>

lemma openedD:
  assumes "opened s ns name e s'"
  shows "site_ok s'" "siteElements s' = e # siteElements s" "namespaceURI e = ns" "localName e = name"
    "isNode s' e" "\<not> isNode s e" "m_activeFormattingElements s' = m_activeFormattingElements s"
    "siteFrame s' = siteFrame s" "m_form s' = m_form s" "siteElements s' \<noteq> []" "currentElement s' = Some e"
  using assms by (simp_all add: opened_def stack_top)

lemma insertSelfClosingHTMLElement_ok:
  assumes "site_ok s" "siteElements s \<noteq> []" "a_type token = StartTag"
  obtains s' where "insertSelfClosingHTMLElement token s = Some s'" "kept s s'"
proof -
  obtain e s1 where c: "createElementWith XHTML (a_name token) (a_attributes token) s = (e, s1)" by fastforce
  from createElement_attach [OF assms(1,2) c] obtain s2 where
    s2: "attachToCurrent e s1 = Some s2" "createdFrom s (nodeAddress e) s2" .
  let ?s = "s2\<lparr>finishedElements := finishedElements s2 @ [e]\<rparr>"
  have k: "kept s s2" by (rule createdFrom_kept [OF s2(2)])
  have "kept s ?s"
    using k site_ok_same [of s2 ?s] by (simp add: kept_def siteFrame_def)
  then show thesis
    using that s2(1) c createHTMLElement_eq(1) [OF assms(2)] assms(3) by (simp add: insertSelfClosingHTMLElement_def)
qed

lemma insertForeignElement_ok:
  assumes "site_ok s" "siteElements s \<noteq> []" "a_type token = StartTag" "a_selfClosing token = Some b"
    and "ns \<noteq> XHTML" "a_name token \<noteq> ustr ''table''"
  obtains e s' where "insertForeignElement token ns s = Some s'" "if b then kept s s' else opened s ns (a_name token) e s'"
proof -
  obtain e s1 where c: "createElementWith ns (a_name token) (a_attributes token) s = (e, s1)" by fastforce
  from createElement_attach [OF assms(1,2) c] obtain s2 where
    s2: "attachToCurrent e s1 = Some s2" "createdFrom s (nodeAddress e) s2"
    "nodeData s2 (nodeAddress e) = Some (ElementNode e)" "namespaceURI e = ns" "localName e = a_name token"
    "parentNode (links (m_dom s2) (nodeAddress e)) \<noteq> None" .
  have "opened s ns (a_name token) e (onStack (push_element e) s2)"
    using push_created [OF assms(1) s2(2,3), of push_element] push_asserts [OF assms(1,2)] elements_push(1) s2(4-6) assms(5,6)
    by (simp add: tableIsHTML_def isPlainTag_def)
  then show thesis
    using that s2(1) c createHTMLElement_eq(2) [OF assms(2), of token ns] assms(3,4) createdFrom_kept [OF s2(2)]
    by (cases b) (simp_all add: insertForeignElement_def)
qed

lemma insertScriptElement_ok:
  assumes "site_ok s" "siteElements s \<noteq> []"
  obtains e s' where "insertScriptElement token s = Some s'" "opened s XHTML (ustr ''script'') e s'"
proof -
  let ?at = "if m_fragmentScriptingPermission s = FragmentScriptingAllowed then a_attributes token else None"
  obtain c cs where "siteElements s = c # cs" using assms(2) by (cases "siteElements s") auto
  then have current: "currentElement s = Some c" by (simp add: stack_top)
  obtain e s1 where c: "createElementWith XHTML (ustr ''script'') ?at s = (e, s1)" by fastforce
  from createElement_attach [OF assms(1,2) c] obtain s2 where
    s2: "attachToCurrent e s1 = Some s2" "createdFrom s (nodeAddress e) s2"
    "nodeData s2 (nodeAddress e) = Some (ElementNode e)" "namespaceURI e = XHTML" "localName e = ustr ''script''"
    "parentNode (links (m_dom s2) (nodeAddress e)) \<noteq> None" .
  have "opened s XHTML (ustr ''script'') e (onStack (push_element e) s2)"
    using push_created [OF assms(1) s2(2,3), of push_element] push_asserts [OF assms(1,2)] elements_push(1) s2(4-6)
    by (simp add: tableIsHTML_def isPlainTag_def)
  then show thesis using that s2(1) c current by (simp add: insertScriptElement_def)
qed

text \<open>The list of active formatting elements of the site.\<close>

lemma onList_site_ok:
  assumes "site_ok s" "formattingList_ok (f (m_activeFormattingElements s))" "listAsserts (f (m_activeFormattingElements s))"
    and "\<And>e. Some e \<in> set (m_entries (f (m_activeFormattingElements s))) \<Longrightarrow> isNode s e \<and> isFormattingElement e"
  shows "site_ok (onList f s)"
proof -
  have parts: "nodes_ok (onList f s) = nodes_ok s" "isNode (onList f s) = isNode s" "notInside (onList f s) = notInside s"
    "bodyLinked (onList f s) = bodyLinked s"
    "m_openElements (onList f s) = m_openElements s" "siteAsserts (onList f s) = siteAsserts s"
    "m_head (onList f s) = m_head s" "m_form (onList f s) = m_form s" "freshNode (onList f s) = freshNode s"
    "m_activeFormattingElements (onList f s) = f (m_activeFormattingElements s)"
    by (simp_all add: onList_def nodes_ok_def isNode_def isParent_def notInside_def bodyLinked_def fun_eq_iff)
  show ?thesis using assms unfolding site_ok_def parts by simp
qed

lemma insertFormattingElement_ok:
  assumes "site_ok s" "siteElements s \<noteq> []" "list_ex (\<lambda>n. a_name token = ustr n) formattingNames"
  obtains e s' where "insertFormattingElement token s = Some s'" "site_ok s'" "siteElements s' = e # siteElements s"
    "namespaceURI e = XHTML" "localName e = a_name token" "siteEntries s' = siteEntries s @ [Some e]"
    "siteFrame s' = siteFrame s" "m_form s' = m_form s"
proof -
  have plain: "isPlainTag XHTML (a_name token)"
    using assms(3) by (auto simp: isPlainTag_def formattingNames_def)
  from insertHTMLElement_ok [OF assms(1,2) plain] obtain e s1 where
    s1: "insertHTMLElement token s = Some s1" "opened s XHTML (a_name token) e s1" .
  note e = openedD [OF s1(2)]
  have fmt: "isFormattingElement e"
    using assms(3) e(3,4) by (auto simp: isFormattingElement_def hasQName_def list_ex_iff)
  have "Some e \<notin> set (siteEntries s)" using site_okD(9) [OF assms(1)] e(6) by blast
  then have "site_ok (onList (append_entry e) s1)"
    using site_okD(7-9) [OF e(1)] e(5,7) fmt
    by (intro onList_site_ok [OF e(1)]) (auto simp: append_entry_def formattingList_ok_def isMarker_def)
  then show thesis
    using that [of "onList (append_entry e) s1" e] s1(1) e by (simp add: insertFormattingElement_def append_entry_def) (simp add: onList_def)
qed

lemma attachToCurrent_demoted:
  "attachToCurrent e (s\<lparr>isDemoted := f\<rparr>) = map_option (\<lambda>s. s\<lparr>isDemoted := f\<rparr>) (attachToCurrent e s)"
proof -
  let ?s = "s\<lparr>isDemoted := f\<rparr>"
  have same: "shouldFosterParent ?s = shouldFosterParent s" "findFosterSite ?s = findFosterSite s"
    "currentElement ?s = currentElement s"
    by (simp_all add: shouldFosterParent_def currentElement_def findFosterSite_def cong: option.case_cong list.case_cong)
  have "attachAtSite st c ?s = (attachAtSite st c s)\<lparr>isDemoted := f\<rparr>" for st c
    by (simp add: attachAtSite_def onDom_def split: option.split)
  then show ?thesis
    unfolding attachToCurrent_def attach_def fosterParent_def same
    by (cases "currentElement s"; cases "shouldFosterParent s"; cases "findFosterSite s") (simp_all add: onDom_def)
qed

lemma insertHTMLFormElement_ok:
  assumes "site_ok s" "siteElements s \<noteq> []" "a_name token = ustr ''form''"
  obtains e s' where "insertHTMLFormElement token demoted s = Some s'" "site_ok s'" "siteElements s' = e # siteElements s"
    "hasTagName e ''form''" "m_activeFormattingElements s' = m_activeFormattingElements s"
    "siteFrame s' = siteFrame s" "m_form s' = Some e"
proof -
  obtain e s1 where c: "createElementWith XHTML (a_name token) (a_attributes token) s = (e, s1)" by fastforce
  let ?s1 = "s1\<lparr>isDemoted := (isDemoted s1)(nodeAddress e := demoted)\<rparr>"
  from createElement_attach [OF assms(1,2) c] obtain s2 where
    s2: "attachToCurrent e s1 = Some s2" "createdFrom s (nodeAddress e) s2"
    "nodeData s2 (nodeAddress e) = Some (ElementNode e)" "namespaceURI e = XHTML" "localName e = a_name token"
    "parentNode (links (m_dom s2) (nodeAddress e)) \<noteq> None" .
  let ?s2 = "s2\<lparr>isDemoted := (isDemoted s1)(nodeAddress e := demoted)\<rparr>"
  have attach: "attachToCurrent e ?s1 = Some ?s2" using s2(1) by (simp add: attachToCurrent_demoted)
  have e: "hasTagName e ''form''" using s2(4,5) assms(3) by (simp add: hasQName_def)
  have created: "createdFrom s (nodeAddress e) ?s2"
    using s2(2) site_ok_same [of s2 ?s2] by (simp add: createdFrom_def siteFrame_def isNode_def)
  have o: "opened s XHTML (a_name token) e (onStack (push_element e) ?s2)"
    using push_created [OF assms(1) created, of push_element] push_asserts [OF assms(1,2)] assms(3) elements_push(1) s2(3-6)
    by (simp add: tableIsHTML_def isPlainTag_def)
  define s3 where "s3 = onStack (push_element e) ?s2"
  note o' = openedD [OF o, folded s3_def]
  have "nodeAddress e < freshNode s3" by (rule isNode_fresh(1) [OF site_okD(1) [OF o'(1)] o'(5)])
  then have ok: "site_ok (s3\<lparr>m_form := Some e\<rparr>)" using site_ok_form [OF o'(1), of "Some e"] e by simp
  have "insertHTMLFormElement token demoted s =
      Some ((ASSERT_site (namespaceURI e = XHTML \<and> hasTagName e ''form'') s3)\<lparr>m_form := Some e\<rparr>)"
    using attach c createHTMLElement_eq(1) [OF assms(2)] e o'(11)
    by (simp add: insertHTMLFormElement_def Let_def s3_def)
  moreover have "siteFrame (s3\<lparr>m_form := Some e\<rparr>) = siteFrame s" using o'(8) by (simp add: siteFrame_def)
  ultimately show thesis using that [OF _ ok] e o' by (simp add: hasQName_def)
qed

section \<open>The html, head and body elements\<close>

definition notFostering :: "constructionSite \<Rightarrow> bool" where
  "notFostering s \<longleftrightarrow> \<not> m_redirectAttachToFosterParent s"

lemma shouldFosterParent_no: "notFostering s \<Longrightarrow> shouldFosterParent s = Some False"
  by (simp add: notFostering_def shouldFosterParent_def)

lemma special_absent:
  assumes "site_ok s" "\<forall>e \<in> set (siteElements s). \<not> hasTagName e n"
  shows "n = ''head'' \<Longrightarrow> m_headElement (m_openElements s) = None"
    and "n = ''body'' \<Longrightarrow> m_bodyElement (m_openElements s) = None"
    and "n = ''html'' \<Longrightarrow> m_htmlElement (m_openElements s) = None"
proof -
  have "remembered ''head'' (m_headElement (m_openElements s)) (siteElements s)"
    "remembered ''body'' (m_bodyElement (m_openElements s)) (siteElements s)"
    "remembered ''html'' (m_htmlElement (m_openElements s)) (siteElements s)"
    using site_okD(3) [OF assms(1)] by (simp_all add: stack_ok_def)
  then show "n = ''head'' \<Longrightarrow> m_headElement (m_openElements s) = None" "n = ''body'' \<Longrightarrow> m_bodyElement (m_openElements s) = None"
    "n = ''html'' \<Longrightarrow> m_htmlElement (m_openElements s) = None"
    using assms(2) by (metis option.exhaust rememberedE)+
qed

lemma push_special_asserts:
  assumes "site_ok s"
  shows "siteElements s \<noteq> [] \<Longrightarrow> \<forall>e \<in> set (siteElements s). \<not> hasTagName e ''head'' \<Longrightarrow> hasTagName e ''head'' \<Longrightarrow>
      stackAsserts (pushHTMLHeadElement e (m_openElements s))"
    and "siteElements s \<noteq> [] \<Longrightarrow> \<forall>e \<in> set (siteElements s). \<not> hasTagName e ''body'' \<Longrightarrow> hasTagName e ''body'' \<Longrightarrow>
      stackAsserts (pushHTMLBodyElement e (m_openElements s))"
    and "siteElements s = [] \<Longrightarrow> hasTagName e ''html'' \<Longrightarrow> stackAsserts (pushHTMLHtmlElement e (m_openElements s))"
proof -
  note nil = stack_ok_Nil_iff [OF site_okD(3) [OF assms]] and asserts = site_okD(4) [OF assms]
  show "stackAsserts (pushHTMLHeadElement e (m_openElements s))"
    if "siteElements s \<noteq> []" "\<forall>e \<in> set (siteElements s). \<not> hasTagName e ''head''" "hasTagName e ''head''"
    using that nil asserts special_absent(1) [OF assms that(2)]
    by (simp add: pushHTMLHeadElement_def pushCommon_def Let_def)
  show "stackAsserts (pushHTMLBodyElement e (m_openElements s))"
    if "siteElements s \<noteq> []" "\<forall>e \<in> set (siteElements s). \<not> hasTagName e ''body''" "hasTagName e ''body''"
    using that nil asserts special_absent(2) [OF assms that(2)]
    by (simp add: pushHTMLBodyElement_def pushCommon_def Let_def)
  show "stackAsserts (pushHTMLHtmlElement e (m_openElements s))" if "siteElements s = []" "hasTagName e ''html''"
    using that nil asserts by (simp add: pushHTMLHtmlElement_def pushCommon_def Let_def)
qed

lemma insertHTMLBodyElement_ok:
  assumes "site_ok s" "siteElements s \<noteq> []" "\<forall>e \<in> set (siteElements s). \<not> hasTagName e ''body''"
    and "notFostering s" "a_name token = ustr ''body''"
  obtains e s' where "insertHTMLBodyElement token s = Some s'" "opened s XHTML (ustr ''body'') e s'"
proof -
  obtain e s1 where c: "createElementWith XHTML (a_name token) (a_attributes token) s = (e, s1)" by fastforce
  from createElement_attach [OF assms(1,2) c] obtain s2 where
    s2: "attachToCurrent e s1 = Some s2" "createdFrom s (nodeAddress e) s2"
    "nodeData s2 (nodeAddress e) = Some (ElementNode e)" "namespaceURI e = XHTML" "localName e = a_name token"
    "parentNode (links (m_dom s2) (nodeAddress e)) \<noteq> None" .
  have e: "hasTagName e ''body''" using s2(4,5) assms(5) by (simp add: hasQName_def)
  have "opened s XHTML (ustr ''body'') e (onStack (pushHTMLBodyElement e) s2)"
    using push_created [OF assms(1) s2(2,3), of pushHTMLBodyElement] push_special_asserts(2) [OF assms(1-3) e] elements_push(3)
      s2(4-6) assms(5) by (simp add: tableIsHTML_def)
  then show thesis
    using that s2(1) c createHTMLElement_eq(1) [OF assms(2)] shouldFosterParent_no [OF assms(4)]
    by (simp add: insertHTMLBodyElement_def)
qed

lemma insertHTMLHeadElement_ok:
  assumes "site_ok s" "siteElements s \<noteq> []" "\<forall>e \<in> set (siteElements s). \<not> hasTagName e ''head''"
    and "notFostering s" "a_name token = ustr ''head''"
  obtains e s' where "insertHTMLHeadElement token s = Some s'" "site_ok s'" "siteElements s' = e # siteElements s"
    "hasTagName e ''head''" "m_head s' = Some e" "m_activeFormattingElements s' = m_activeFormattingElements s"
    "notFostering s'" "m_form s' = m_form s" "documentCompatibility s' = documentCompatibility s"
proof -
  obtain e s1 where c: "createElementWith XHTML (a_name token) (a_attributes token) s = (e, s1)" by fastforce
  from createElement_attach [OF assms(1,2) c] obtain s2 where
    s2: "attachToCurrent e s1 = Some s2" "createdFrom s (nodeAddress e) s2"
    "nodeData s2 (nodeAddress e) = Some (ElementNode e)" "namespaceURI e = XHTML" "localName e = a_name token"
    "parentNode (links (m_dom s2) (nodeAddress e)) \<noteq> None" .
  have e: "hasTagName e ''head''" using s2(4,5) assms(5) by (simp add: hasQName_def)
  have o: "opened s XHTML (ustr ''head'') e (onStack (pushHTMLHeadElement e) s2)"
    using push_created [OF assms(1) s2(2,3), of pushHTMLHeadElement] push_special_asserts(1) [OF assms(1-3) e] elements_push(2)
      s2(4-6) assms(5) by (simp add: tableIsHTML_def)
  define s3 where "s3 = onStack (pushHTMLHeadElement e) s2"
  note o' = openedD [OF o, folded s3_def]
  have "onStack (pushHTMLHeadElement e) (s2\<lparr>m_head := Some e\<rparr>) = s3\<lparr>m_head := Some e\<rparr>"
    by (simp add: s3_def onStack_def)
  then have "insertHTMLHeadElement token s = Some (s3\<lparr>m_head := Some e\<rparr>)"
    using s2(1) c createHTMLElement_eq(1) [OF assms(2)] shouldFosterParent_no [OF assms(4)]
    by (simp add: insertHTMLHeadElement_def)
  moreover have "documentCompatibility s3 = documentCompatibility s" "m_redirectAttachToFosterParent s3 = m_redirectAttachToFosterParent s"
    using o'(8) by (simp_all add: siteFrame_def)
  ultimately show thesis using that [of "s3\<lparr>m_head := Some e\<rparr>" e] site_ok_head [OF o'(1,5) e] o' e assms(4)
    by (simp add: notFostering_def)
qed

lemma insertHTMLHtmlStartTagBeforeHTML_ok:
  assumes "site_ok s" "siteElements s = []" "notFostering s"
  obtains e s' where "insertHTMLHtmlStartTagBeforeHTML token s = Some s'" "opened s XHTML (ustr ''html'') e s'"
proof -
  define e where "e = \<lparr>nodeAddress = freshNode s, namespaceURI = XHTML, localName = ustr ''html''\<rparr>"
  obtain s1 where c: "createElementWith XHTML (ustr ''html'') (a_attributes token) s = (e, s1)"
    and s1: "s1 = (snd (createNode (ElementNode e) s))\<lparr>attributeMaps := (attributeMaps s)
      (freshNode s := setAttributeMap_list (m_fragmentScriptingPermission s) (a_attributes token))\<rparr>"
    by (simp add: createElementWith_eq e_def Let_def)
  have e: "hasTagName e ''html''" "nodeAddress e = freshNode s" "namespaceURI e = XHTML" "localName e = ustr ''html''"
    by (simp_all add: e_def hasQName_def)
  obtain s2 q where s2: "attach theDocument (freshNode s) s1 = Some s2" "createdFrom s (freshNode s) s2"
      "nodeData s2 = (nodeData s)(freshNode s \<mapsto> ElementNode e)" "parentNode (links (m_dom s2) (freshNode s)) = Some q" "q = theDocument"
    using createAttach [OF assms(1) _ _ s1, of theDocument] assms(3) e by (auto simp: notFostering_def)
  then have created: "createdFrom s (nodeAddress e) s2" "nodeData s2 (nodeAddress e) = Some (ElementNode e)"
    by (simp_all add: e)
  have "bodyLinked s2 e" using s2(4,5) e by (simp add: bodyLinked_def hasQName_def)
  then have "opened s XHTML (ustr ''html'') e (onStack (pushHTMLHtmlElement e) s2)"
    using push_linked [OF assms(1) created, of pushHTMLHtmlElement] push_special_asserts(3) [OF assms(1,2) e(1)] elements_push(4) e s2(4)
    by (simp add: tableIsHTML_def)
  then show thesis
    using that [of "onStack (pushHTMLHtmlElement e) s2" e] s2(1) c e by (simp add: insertHTMLHtmlStartTagBeforeHTML_def)
qed

section \<open>Attributes, comments and text\<close>

lemma attributes_kept:
  "site_ok s \<Longrightarrow> kept s (s\<lparr>attributeMaps := am\<rparr>)"
  using site_ok_same [of s "s\<lparr>attributeMaps := am\<rparr>"] by (simp add: kept_def siteFrame_def)

lemma mergeAttributes_ok:
  assumes "site_ok s" "e \<noteq> None"
  obtains s' where "mergeAttributesFromTokenIntoElement token e s = Some s'" "kept s s'"
proof (cases "a_attributes token")
  case None
  then show thesis using that [of s] assms(1) by (simp add: mergeAttributesFromTokenIntoElement_def kept_def)
next
  case (Some m)
  then show thesis
    using that assms attributes_kept [OF assms(1)] by (auto simp: mergeAttributesFromTokenIntoElement_def Let_def)
qed

lemma insertHTMLHtmlStartTagInBody_ok:
  assumes "site_ok s" "siteElements s \<noteq> []"
  obtains s' where "insertHTMLHtmlStartTagInBody token s = Some s'" "kept s s'"
proof -
  have "m_htmlElement (m_openElements s) \<noteq> None"
    using stack_ok_Nil_iff [OF site_okD(3) [OF assms(1)]] assms(2) by simp
  from mergeAttributes_ok [OF assms(1) this] that show thesis unfolding insertHTMLHtmlStartTagInBody_def by blast
qed

lemma body_present:
  assumes "site_ok s" "e \<in> set (siteElements s)" "hasTagName e ''body''"
  shows "m_bodyElement (m_openElements s) = Some e"
  using site_okD(3) [OF assms(1)] assms(2,3) rememberedD unfolding stack_ok_def by blast

lemma insertHTMLBodyStartTagInBody_ok:
  assumes "site_ok s" "e \<in> set (siteElements s)" "hasTagName e ''body''"
  obtains s' where "insertHTMLBodyStartTagInBody token s = Some s'" "kept s s'"
proof -
  have "m_bodyElement (m_openElements s) \<noteq> None" using body_present [OF assms] by simp
  from mergeAttributes_ok [OF assms(1) this] that show thesis unfolding insertHTMLBodyStartTagInBody_def by blast
qed

text \<open>A node that is not an element.\<close>

lemma createNode_attributeMaps: "snd (createNode d s) = (snd (createNode d s))\<lparr>attributeMaps := attributeMaps s\<rparr>"
  by (simp add: createNode_def)

lemma insertNode_ok:
  assumes "site_ok s" "siteElements s \<noteq> [] \<or> notFostering s" "isParent s p \<or> p = theDocument"
    and "d \<noteq> DocumentNode" "\<And>e. d \<noteq> ElementNode e"
  obtains s' where "attach p (freshNode s) (snd (createNode d s)) = Some s'" "kept s s'"
  using createAttach [OF assms(1,4) _ createNode_attributeMaps, of p] assms(2,3,5) createdFrom_kept
  unfolding notFostering_def by metis

lemma siteElements_Cons:
  assumes "siteElements s \<noteq> []"
  obtains c cs where "siteElements s = c # cs" "c \<in> set (siteElements s)"
  using assms by (cases "siteElements s") auto

lemma insertComment_ok:
  assumes "site_ok s" "siteElements s \<noteq> []" "a_type token = Comment"
  obtains s' where "insertComment token s = Some s'" "kept s s'"
proof -
  obtain c cs where c: "siteElements s = c # cs" "c \<in> set (siteElements s)" using siteElements_Cons [OF assms(2)] .
  have "isParent s (nodeAddress c)" using site_okD(5) [OF assms(1) c(2)] isNode_parent by blast
  from insertNode_ok [OF assms(1) _ disjI1 [OF this], of "CommentNode (a_data token)"] assms(2) obtain s' where
    "attach (nodeAddress c) (freshNode s) (snd (createNode (CommentNode (a_data token)) s)) = Some s'" "kept s s'" by auto
  then show thesis
    using that assms(3) c by (simp add: insertComment_def stack_top createNode_def)
qed

lemma insertCommentOnDocument_ok:
  assumes "site_ok s" "siteElements s \<noteq> [] \<or> notFostering s" "a_type token = Comment"
  obtains s' where "insertCommentOnDocument token s = Some s'" "kept s s'"
proof -
  from insertNode_ok [OF assms(1,2), of theDocument "CommentNode (a_data token)"] obtain s' where
    "attach theDocument (freshNode s) (snd (createNode (CommentNode (a_data token)) s)) = Some s'" "kept s s'" by auto
  then show thesis using that assms(3) by (simp add: insertCommentOnDocument_def createNode_def)
qed

lemma insertCommentOnHTMLHtmlElement_ok:
  assumes "site_ok s" "siteElements s \<noteq> []" "a_type token = Comment"
  obtains s' where "insertCommentOnHTMLHtmlElement token s = Some s'" "kept s s'"
proof -
  let ?h = "last (siteElements s)"
  have html: "m_htmlElement (m_openElements s) = Some ?h"
    using bottom_stack [OF assms(1,2)] by (simp add: bottomElement_def)
  have "?h \<in> set (siteElements s)" using assms(2) last_in_set by blast
  then have "isParent s (nodeAddress ?h)" using site_okD(5) [OF assms(1)] isNode_parent by blast
  from insertNode_ok [OF assms(1) _ disjI1 [OF this], of "CommentNode (a_data token)"] assms(2) obtain s' where
    "attach (nodeAddress ?h) (freshNode s) (snd (createNode (CommentNode (a_data token)) s)) = Some s'" "kept s s'" by auto
  then show thesis
    using that assms(3) html by (simp add: insertCommentOnHTMLHtmlElement_def createNode_def)
qed

lemma insertDoctype_ok:
  assumes "site_ok s" "notFostering s" "a_type token = DOCTYPE" "a_doctypeData token = Some dt"
  obtains s' where "insertDoctype cfold token s = Some s'" "site_ok s'" "m_openElements s' = m_openElements s"
    "m_activeFormattingElements s' = m_activeFormattingElements s" "notFostering s'" "m_head s' = m_head s" "m_form s' = m_form s"
proof -
  let ?d = "DocumentTypeNode (a_name token) (m_publicIdentifier dt) (m_systemIdentifier dt)"
  from insertNode_ok [OF assms(1) disjI2 [OF assms(2)], of theDocument ?d] obtain s' where
    s': "attach theDocument (freshNode s) (snd (createNode ?d s)) = Some s'" "kept s s'" by auto
  define c where "c = (if m_forceQuirks dt then setCompatibilityMode QuirksMode (documentCompatibility s')
             else setCompatibilityModeFromDoctype cfold
               (Some (a_name token, m_publicIdentifier dt, m_systemIdentifier dt)) (documentCompatibility s'))"
  have "insertDoctype cfold token s = Some (s'\<lparr>documentCompatibility := c\<rparr>)"
    using s'(1) assms(3,4) by (simp add: insertDoctype_def createNode_def c_def)
  moreover have "site_ok (s'\<lparr>documentCompatibility := c\<rparr>)" using keptD(1) [OF s'(2)] by (rule site_ok_same) simp_all
  ultimately show thesis
    using that keptD(2-5) [OF s'(2)] assms(2) by (simp add: siteFrame_def notFostering_def)
qed

text \<open>Text goes to the node before the site if that is a text, else to a new node.\<close>

lemma attachAtSite_leaf:
  assumes "site_ok s" "leaf s c" "validSite s st" "siteParent st \<noteq> c"
  obtains d q where "attachAtSite st c s = s\<lparr>m_dom := d\<rparr>" "site_ok (s\<lparr>m_dom := d\<rparr>)"
    "childOf d = insert (c, q) (childOf (m_dom s))"
proof -
  note leaf = leafD [OF assms(2)]
  have "(siteParent st, c) \<notin> (childOf (m_dom s))\<^sup>*" using childless [OF leaf(2), of "siteParent st"] assms(4) by blast
  from attachAtSite_ok [OF site_okD(1) [OF assms(1)] assms(3) leaf(4,5,1) this] obtain d where
    "attachAtSite st c s = s\<lparr>m_dom := d\<rparr>" "nodes_ok (s\<lparr>m_dom := d\<rparr>)" "childOf d = insert (c, siteParent st) (childOf (m_dom s))" .
  then show thesis using that linked_leaf [OF assms(1,2)] by blast
qed

definition previousChild :: "attachmentSite \<Rightarrow> constructionSite \<Rightarrow> nat option" where
  "previousChild st s =
     (case siteNextChild st of
        Some next \<Rightarrow> previousSibling (links (m_dom s) next)
      | None \<Rightarrow> lastChild (links (m_dom s) (siteParent st)))"

definition textSite :: "constructionSite \<Rightarrow> attachmentSite option" where
  "textSite s =
     do { e \<leftarrow> currentElement s;
          foster \<leftarrow> shouldFosterParent s;
          if foster then findFosterSite s else Some \<lparr>siteParent = nodeAddress e, siteNextChild = None\<rparr> }"

definition addTextAt :: "attachmentSite \<Rightarrow> ustr \<Rightarrow> constructionSite \<Rightarrow> constructionSite" where
  "addTextAt st characters s =
     (let new = (let (n, s) = createNode (TextNode characters) s in attachAtSite st n s)
      in case previousChild st s of
           Some p \<Rightarrow>
             (case nodeData s p of
                Some (TextNode t) \<Rightarrow> s\<lparr>nodeData := (nodeData s)(p \<mapsto> TextNode (t @ characters))\<rparr>
              | _ \<Rightarrow> new)
         | None \<Rightarrow> new)"

lemma insertTextNode_eq:
  "insertTextNode characters s = map_option (\<lambda>st. addTextAt st characters s) (textSite s)"
  unfolding insertTextNode_def textSite_def addTextAt_def previousChild_def Let_def
  by (cases "currentElement s"; cases "shouldFosterParent s"; cases "findFosterSite s") simp_all

lemma textSite_ok:
  assumes "site_ok s" "siteElements s \<noteq> []"
  obtains st where "textSite s = Some st" "validSite s st"
proof -
  obtain c cs where c: "siteElements s = c # cs" "c \<in> set (siteElements s)" using siteElements_Cons [OF assms(2)] .
  then have current: "currentElement s = Some c" by (simp add: stack_top)
  obtain b where b: "shouldFosterParent s = Some b" using shouldFosterParent_ok [of s] assms(2) by auto
  show thesis
  proof (cases b)
    case True
    obtain st where "findFosterSite s = Some st" "validSite s st"
      using findFosterSite_ok [OF assms(1), of "[]" "m_top (m_openElements s)"] assms(2) by auto
    then show thesis using that b current True by (simp add: textSite_def)
  next
    case False
    have "isNode s c" using site_okD(5) [OF assms(1) c(2)] by blast
    then show thesis
      using that [of "\<lparr>siteParent = nodeAddress c, siteNextChild = None\<rparr>"] b current False
      by (simp add: textSite_def validSite_def isNode_parent)
  qed
qed

lemma textData_ok:
  assumes "site_ok s" "nodeData s p = Some (TextNode t)"
  shows "kept s (s\<lparr>nodeData := (nodeData s)(p \<mapsto> TextNode t')\<rparr>)"
proof -
  let ?s = "s\<lparr>nodeData := (nodeData s)(p \<mapsto> TextNode t')\<rparr>"
  have el: "nodeData ?s n = Some (ElementNode e) \<longleftrightarrow> nodeData s n = Some (ElementNode e)" for n e using assms(2) by simp
  then have parts: "isNode ?s = isNode s" "isParent ?s = isParent s" "notInside ?s = notInside s"
    unfolding isNode_def isParent_def notInside_def fun_eq_iff el by simp_all
  have doc: "nodeData ?s n = Some DocumentNode \<longleftrightarrow> nodeData s n = Some DocumentNode"
    and none: "nodeData ?s n = None \<longleftrightarrow> nodeData s n = None" for n using assms(2) by simp_all
  have "nodes_ok ?s = nodes_ok s"
    unfolding nodes_ok_def el doc none parts by simp
  then have "site_ok ?s"
    using site_okD [OF assms(1)] by (intro site_ok_extend [OF assms(1)]) (simp_all add: parts)
  then show ?thesis by (simp add: kept_def siteFrame_def)
qed

lemma insertTextNode_ok:
  assumes "site_ok s" "siteElements s \<noteq> []"
  obtains s' where "insertTextNode characters s = Some s'" "kept s s'"
proof -
  obtain st where st: "textSite s = Some st" "validSite s st" using textSite_ok [OF assms] .
  define new where "new = (let (n, s) = createNode (TextNode characters) s in attachAtSite st n s)"
  have "kept s new"
  proof -
    let ?n = "freshNode s" and ?s = "snd (createNode (TextNode characters) s)"
    note new = createNode_leaf [OF assms(1) _ _ createNode_attributeMaps, of "TextNode characters", simplified]
    have "validSite ?s st" using st(2) new(3) by (simp add: validSite_def) (simp add: createNode_def)
    moreover have "siteParent st \<noteq> ?n"
      using st(2) nodes_okD(2) [OF site_okD(1) [OF assms(1)], of ?n] by (auto simp: validSite_def isParent_def)
    moreover have "site_ok ?s" using new(1) by (simp add: createdFrom_def)
    ultimately obtain d q where "attachAtSite st ?n ?s = ?s\<lparr>m_dom := d\<rparr>" "site_ok (?s\<lparr>m_dom := d\<rparr>)"
      using attachAtSite_leaf [OF _ new(2)] by metis
    then show ?thesis by (simp add: new_def createNode_def kept_def siteFrame_def)
  qed
  then have "kept s (addTextAt st characters s)"
    using textData_ok [OF assms(1)] unfolding addTextAt_def new_def [unfolded Let_def, symmetric] Let_def
    by (simp split: option.split nodeData.split)
  then show thesis using that st(1) by (simp add: insertTextNode_eq)
qed

end
