(* ===== verification/HTMLConstructionSiteClosing.thy ===== *)
theory HTMLConstructionSiteClosing
  imports HTMLConstructionSiteOperations
begin

text \<open>
  Closing elements: popping and removing them, implied end tags, and opening the active formatting elements
  again.  All return under the invariant of the site and fail no assertion when only plain elements go.
\<close>

section \<open>Popping\<close>

definition plainElement :: "element \<Rightarrow> bool" where
  "plainElement e \<longleftrightarrow> \<not> hasTagName e ''html'' \<and> \<not> hasTagName e ''head'' \<and> \<not> hasTagName e ''body''"

lemma plain_poppable: "plainElement e \<Longrightarrow> poppable s e"
  by (simp add: plainElement_def poppable_def)

text \<open>The stack has changed to the given records; nothing else has.\<close>

definition restacked :: "constructionSite \<Rightarrow> elementRecord list \<Rightarrow> constructionSite \<Rightarrow> bool" where
  "restacked s rs s' \<longleftrightarrow> site_ok s' \<and> (\<exists>es. s' = s\<lparr>m_openElements := es\<rparr> \<and> m_top es = rs)"

lemma restackedD:
  assumes "restacked s rs s'"
  shows "site_ok s'" "m_top (m_openElements s') = rs" "siteElements s' = map m_element rs"
    "m_activeFormattingElements s' = m_activeFormattingElements s" "siteFrame s' = siteFrame s" "m_form s' = m_form s"
    "m_dom s' = m_dom s" "isNode s' = isNode s" "nodeData s' = nodeData s" "freshNode s' = freshNode s"
  using assms by (auto simp: restacked_def siteFrame_def isNode_def fun_eq_iff)

lemma restacked_trans: "restacked s rs s1 \<Longrightarrow> restacked s1 rs' s2 \<Longrightarrow> restacked s rs' s2"
  by (auto simp: restacked_def)

lemma restack:
  assumes "site_ok s" "f (m_openElements s) = Some es" "stack_ok es" "stackAsserts es"
    and "set (elements es) \<subseteq> set (siteElements s)" "sorted_wrt (notInside s) (elements es)"
  obtains s' where "onStack_option f s = Some s'" "restacked s (m_top es) s'"
proof -
  have "site_ok (s\<lparr>m_openElements := es\<rparr>)"
    using site_okD(5) [OF assms(1)] assms(5,6) by (intro onStack_site_ok [OF assms(1,3,4) refl]) blast+
  then show thesis using that assms(2) by (auto simp: restacked_def onStack_option_def)
qed

lemma popped_site:
  assumes "site_ok s" "m_top (m_openElements s) = rs @ rest" "\<forall>r \<in> set rs. plainElement (m_element r)"
    and "f (m_openElements s) = Some (popped rs (m_openElements s))"
  obtains s' where "onStack_option f s = Some s'" "restacked s rest s'"
proof -
  have asserts: "stackAsserts (popped rs (m_openElements s))"
    using site_okD(4) [OF assms(1)] assms(3) by (simp add: list_all_iff plain_poppable)
  have ok: "stack_ok (popped rs (m_openElements s))" by (rule popped_ok [OF site_okD(3) [OF assms(1)] assms(2) asserts])
  have top: "m_top (popped rs (m_openElements s)) = rest" by (simp add: assms(2))
  have "sorted_wrt (notInside s) (map m_element rest)"
    using site_okD(6) [OF assms(1)] by (simp add: assms(2) sorted_wrt_append)
  then show thesis
    using restack [where f = f, OF assms(1,4) ok asserts] that unfolding top by (auto simp: assms(2))
qed

lemma pop_element_ok:
  assumes "site_ok s" "m_top (m_openElements s) = r # rest" "plainElement (m_element r)"
  obtains s' where "onStack_option pop_element s = Some s'" "restacked s rest s'"
  using popped_site [OF assms(1), of "[r]" rest pop_element] assms(2,3) that by (auto simp: pop_element_eq)

lemma popLoop_ok_site:
  assumes "site_ok s" "m_top (m_openElements s) = rs @ r # rest" "stop (m_element r)"
    and "\<forall>r \<in> set rs. \<not> stop (m_element r) \<and> plainElement (m_element r)"
  obtains s' where "onStack_option (popLoop stop) s = Some s'" "restacked s (r # rest) s'"
proof -
  have "takeWhile (\<lambda>r. \<not> stop (m_element r)) (m_top (m_openElements s)) = rs"
    using assms(2-4) by (simp add: takeWhile_append takeWhile_eq_all_conv)
  then have "popLoop stop (m_openElements s) = Some (popped rs (m_openElements s))"
    using assms(2) by (simp add: popLoop_eq Let_def)
  then show thesis using that popped_site [OF assms(1,2)] assms(4) by blast
qed

text \<open>The loop and the pop after it.\<close>

lemma popPast_ok:
  assumes "site_ok s" "m_top (m_openElements s) = rs @ r # rest" "stop (m_element r)"
    and "\<forall>r \<in> set rs. \<not> stop (m_element r) \<and> plainElement (m_element r)" "plainElement (m_element r)"
  obtains s' where "onStack_option (\<lambda>es. do { es \<leftarrow> popLoop stop es; pop_element es }) s = Some s'" "restacked s rest s'"
proof -
  obtain s1 where s1: "onStack_option (popLoop stop) s = Some s1" "restacked s (r # rest) s1"
    using popLoop_ok_site [OF assms(1-4)] .
  obtain s2 where s2: "onStack_option pop_element s1 = Some s2" "restacked s1 rest s2"
    using pop_element_ok [OF restackedD(1,2) [OF s1(2)] assms(5)] .
  have "onStack_option (\<lambda>es. do { es \<leftarrow> popLoop stop es; pop_element es }) s = Some s2"
    using s1(1) s2(1) by (auto simp: onStack_option_def)
  then show thesis using that restacked_trans [OF s1(2) s2(2)] by blast
qed

lemma popAll_site:
  assumes "site_ok s"
  obtains s' where "onStack_option (Some \<circ> popAll) s = Some s'" "restacked s [] s'"
proof -
  have "stack_ok (popAll (m_openElements s))" by (simp add: popAll_eq stack_ok_def remembered_def)
  moreover have "stackAsserts (popAll (m_openElements s))" using site_okD(4) [OF assms] by (simp add: popAll_eq)
  moreover have "m_top (popAll (m_openElements s)) = []" by (simp add: popAll_eq)
  ultimately show thesis using restack [OF assms, of "Some \<circ> popAll"] that by fastforce
qed

text \<open>The head and the body.\<close>

lemma popHead_ok:
  assumes "site_ok s" "m_top (m_openElements s) = r # rest" "hasTagName (m_element r) ''head''"
  obtains s' where "onStack_option popHTMLHeadElement s = Some s'" "restacked s rest s'"
proof -
  let ?s = "m_openElements s"
  have h: "m_headElement ?s = Some (m_element r)"
    using site_okD(3) [OF assms(1)] assms(2,3) unfolding stack_ok_def by (auto dest: rememberedD)
  obtain es where es: "popHTMLHeadElement ?s = Some es" "m_top es = rest" "stackAsserts es = stackAsserts ?s"
    using h assms(2) special_tags(1) [OF assms(3)]
    by (auto simp: popHTMLHeadElement_def popCommon_def topElement_def Let_def)
  have asserts: "stackAsserts es" using es(3) site_okD(4) [OF assms(1)] by simp
  have "sorted_wrt (notInside s) (elements es)" using site_okD(6) [OF assms(1)] by (simp add: assms(2) es(2))
  then show thesis
    using restack [where f = popHTMLHeadElement, OF assms(1) es(1) pop_special_ok(1) [OF site_okD(3) [OF assms(1)] es(1) asserts] asserts] that
    by (auto simp: es(2) assms(2))
qed

lemma popBody_ok:
  assumes "site_ok s" "m_top (m_openElements s) = r # rest" "hasTagName (m_element r) ''body''"
  obtains s' where "onStack_option popHTMLBodyElement s = Some s'" "restacked s rest s'"
proof -
  let ?s = "m_openElements s"
  have h: "m_bodyElement ?s = Some (m_element r)"
    using site_okD(3) [OF assms(1)] assms(2,3) unfolding stack_ok_def by (auto dest: rememberedD)
  obtain es where es: "popHTMLBodyElement ?s = Some es" "m_top es = rest" "stackAsserts es = stackAsserts ?s"
    using h assms(2) special_tags(2) [OF assms(3)]
    by (auto simp: popHTMLBodyElement_def popCommon_def topElement_def Let_def)
  have asserts: "stackAsserts es" using es(3) site_okD(4) [OF assms(1)] by simp
  have "sorted_wrt (notInside s) (elements es)" using site_okD(6) [OF assms(1)] by (simp add: assms(2) es(2))
  then show thesis
    using restack [where f = popHTMLBodyElement, OF assms(1) es(1) pop_special_ok(2) [OF site_okD(3) [OF assms(1)] es(1) asserts] asserts] that
    by (auto simp: es(2) assms(2))
qed

section \<open>Removing\<close>

lemma distinct_elements: "site_ok s \<Longrightarrow> distinct (siteElements s)"
  using site_okD(3) by (simp add: stack_ok_def)

lemma sorted_without:
  "sorted_wrt P (map f (xs @ r # ys)) \<Longrightarrow> sorted_wrt P (map f (xs @ ys))"
  by (simp add: sorted_wrt_append)

lemma remove_element_ok:
  assumes "site_ok s" "m_top (m_openElements s) = xs @ r # ys" "plainElement (m_element r)"
  obtains s' where "onStack_option (remove_element (m_element r)) s = Some s'" "restacked s (xs @ ys) s'"
proof (cases "xs = []")
  case True
  then have "remove_element (m_element r) (m_openElements s) = pop_element (m_openElements s)"
    using assms(2,3) by (simp add: remove_element_def topElement_def plainElement_def ASSERT_stack_def)
  then have "onStack_option (remove_element (m_element r)) s = onStack_option pop_element s" by (simp add: onStack_option_def)
  then show thesis using that pop_element_ok [OF assms(1), of r ys] assms(2,3) True by auto
next
  case False
  let ?s = "m_openElements s"
  have "m_element (hd xs) \<noteq> m_element r"
    using distinct_elements [OF assms(1)] False by (cases xs) (auto simp: assms(2))
  then obtain es where es: "remove_element (m_element r) ?s = Some es" "m_top es = xs @ ys" "stackAsserts es"
    using removeNonTopCommon_eq [OF assms(2) distinct_elements [OF assms(1)] False] assms(2,3) False site_okD(4) [OF assms(1)]
    by (cases xs) (auto simp: remove_element_def topElement_def plainElement_def ASSERT_stack_def)
  note ok = remove_ok(1) [OF site_okD(3) [OF assms(1)] es(1,3)]
  have "sorted_wrt (notInside s) (elements es)"
    using site_okD(6) [OF assms(1)] unfolding es(2) assms(2) by (rule sorted_without)
  then show thesis using restack [where f = "remove_element (m_element r)", OF assms(1) es(1) ok es(3)] that by (auto simp: es(2) assms(2))
qed

lemma removeHead_ok:
  assumes "site_ok s" "m_top (m_openElements s) = xs @ r # ys" "hasTagName (m_element r) ''head''"
  obtains s' where "onStack_option (removeHTMLHeadElement (m_element r)) s = Some s'" "restacked s (xs @ ys) s'"
proof -
  let ?s = "m_openElements s" and ?e = "m_element r"
  have h: "m_headElement ?s = Some ?e"
    using site_okD(3) [OF assms(1)] assms(2,3) unfolding stack_ok_def by (auto dest: rememberedD)
  show thesis
  proof (cases "xs = []")
    case True
    then have "removeHTMLHeadElement ?e ?s = popHTMLHeadElement ?s"
      using assms(2) h by (simp add: removeHTMLHeadElement_def topElement_def ASSERT_stack_def)
    then have "onStack_option (removeHTMLHeadElement ?e) s = onStack_option popHTMLHeadElement s"
      by (simp add: onStack_option_def)
    then show thesis using that popHead_ok [OF assms(1), of r ys] assms(2,3) True by auto
  next
    case False
    have "m_element (hd xs) \<noteq> ?e" using distinct_elements [OF assms(1)] False by (cases xs) (auto simp: assms(2))
    then obtain es where es: "removeHTMLHeadElement ?e ?s = Some es" "m_top es = xs @ ys" "stackAsserts es"
      using removeNonTopCommon_eq [of "?s\<lparr>m_headElement := None\<rparr>", OF _ _ False] distinct_elements [OF assms(1)]
        assms(2,3) False site_okD(4) [OF assms(1)] h special_tags(1) [OF assms(3)]
      by (cases xs) (auto simp: removeHTMLHeadElement_def topElement_def ASSERT_stack_def)
    note ok = remove_ok(2) [OF site_okD(3) [OF assms(1)] es(1,3)]
    have "sorted_wrt (notInside s) (elements es)"
      using site_okD(6) [OF assms(1)] unfolding es(2) assms(2) by (rule sorted_without)
    then show thesis using restack [where f = "removeHTMLHeadElement ?e", OF assms(1) es(1) ok es(3)] that by (auto simp: es(2) assms(2))
  qed
qed

section \<open>Implied end tags\<close>

lemma implied_plain: "hasImpliedEndTag e \<Longrightarrow> plainElement e"
  by (auto simp: hasImpliedEndTag_def plainElement_def hasQName_def)

lemma popLoop_dropWhile:
  assumes "site_ok s" "siteElements s \<noteq> []" "\<And>e. \<not> stop e \<Longrightarrow> plainElement e"
  obtains s' where "onStack_option (popLoop stop) s = Some s'"
    "restacked s (dropWhile (\<lambda>r. \<not> stop (m_element r)) (m_top (m_openElements s))) s'"
    "siteElements s' = dropWhile (\<lambda>e. \<not> stop e) (siteElements s)" "siteElements s' \<noteq> []"
proof -
  let ?top = "m_top (m_openElements s)" and ?P = "\<lambda>r. \<not> stop (m_element r)"
  have "stop (last (siteElements s))" using html_last [OF assms(1,2)] assms(3) plainElement_def by blast
  then have ne: "dropWhile ?P ?top \<noteq> []" using assms(2) by (auto simp: dropWhile_eq_Nil_conv last_map)
  then obtain r rest where r: "dropWhile ?P ?top = r # rest" by (cases "dropWhile ?P ?top") auto
  have "?top = takeWhile ?P ?top @ r # rest" using takeWhile_dropWhile_id [of ?P ?top] r by simp
  moreover have "stop (m_element r)" using hd_dropWhile [OF ne] r by simp
  moreover have "\<forall>r \<in> set (takeWhile ?P ?top). \<not> stop (m_element r) \<and> plainElement (m_element r)"
    using assms(3) by (auto dest: set_takeWhileD)
  ultimately obtain s' where s': "onStack_option (popLoop stop) s = Some s'" "restacked s (r # rest) s'"
    using popLoop_ok_site [OF assms(1)] by blast
  then show thesis using that restackedD(3) [OF s'(2)] r by (simp add: dropWhile_map comp_def)
qed

lemma generateImpliedEndTags_ok:
  assumes "site_ok s" "siteElements s \<noteq> []"
  obtains s' where "generateImpliedEndTags s = Some s'"
    "restacked s (dropWhile (\<lambda>r. hasImpliedEndTag (m_element r)) (m_top (m_openElements s))) s'"
    "siteElements s' = dropWhile hasImpliedEndTag (siteElements s)" "siteElements s' \<noteq> []"
  using popLoop_dropWhile [OF assms, of "\<lambda>e. \<not> hasImpliedEndTag e"] implied_plain that
  unfolding generateImpliedEndTags_def by auto

lemma generateImpliedEndTagsWithExclusion_ok:
  assumes "site_ok s" "siteElements s \<noteq> []"
  obtains s' where "generateImpliedEndTagsWithExclusion n s = Some s'"
    "restacked s (dropWhile (\<lambda>r. hasImpliedEndTag (m_element r) \<and> \<not> hasLocalName (m_element r) n) (m_top (m_openElements s))) s'"
    "siteElements s' = dropWhile (\<lambda>e. hasImpliedEndTag e \<and> \<not> hasLocalName e n) (siteElements s)" "siteElements s' \<noteq> []"
  using popLoop_dropWhile [OF assms, of "\<lambda>e. \<not> (hasImpliedEndTag e \<and> \<not> hasLocalName e n)"] implied_plain that
  unfolding generateImpliedEndTagsWithExclusion_def by auto

section \<open>Opening the active formatting elements again\<close>

lemma formattingElement_XHTML: "isFormattingElement e \<Longrightarrow> namespaceURI e = XHTML"
  by (auto simp: isFormattingElement_def list_ex_iff hasQName_def)

lemma formattingElement_plain: "isFormattingElement e \<Longrightarrow> isPlainTag XHTML (localName e)" "isFormattingElement e \<Longrightarrow> plainElement e"
  by (auto simp: isFormattingElement_def formattingNames_def hasQName_def isPlainTag_def plainElement_def)

lemma formatting_clone:
  "isFormattingElement e \<Longrightarrow> namespaceURI e' = XHTML \<Longrightarrow> localName e' = localName e \<Longrightarrow> isFormattingElement e'"
  by (auto simp: isFormattingElement_def hasQName_def list_ex_iff)

text \<open>Replacing an entry by a new element.\<close>

lemma distinct_update:
  assumes "distinct (filter P xs)" "x \<notin> set xs"
  shows "distinct (filter P (xs[i := x]))"
proof (cases "i < length xs")
  case True
  then obtain as y bs where xs: "xs = as @ y # bs" "length as = i"
    by (metis id_take_nth_drop length_take min.absorb4)
  then have "xs[i := x] = as @ x # bs" by (simp add: list_update_append)
  then show ?thesis using assms by (auto simp: xs(1) split: if_splits)
qed (use assms in \<open>simp add: list_update_beyond\<close>)

lemma replace_entry_ok:
  assumes "site_ok s" "isNode s e" "isFormattingElement e" "Some e \<notin> set (siteEntries s)"
  shows "site_ok (onList (replace_entry i e) s)"
proof (rule onList_site_ok [OF assms(1)])
  let ?l = "m_activeFormattingElements s"
  show "formattingList_ok (replace_entry i e ?l)"
    using site_okD(7) [OF assms(1)] distinct_update [OF _ assms(4)] by (simp add: formattingList_ok_def replace_entry_def)
  show "listAsserts (replace_entry i e ?l)" using site_okD(8) [OF assms(1)] by (simp add: replace_entry_def)
  show "isNode s e' \<and> isFormattingElement e'" if "Some e' \<in> set (m_entries (replace_entry i e ?l))" for e'
    using that site_okD(9) [OF assms(1)] assms(2,3) set_update_subset_insert [of "m_entries ?l" i "Some e"]
    by (auto simp: replace_entry_def)
qed

lemma reconstructEntry_ok:
  assumes "site_ok s" "siteElements s \<noteq> []" "i < length (siteEntries s)" "siteEntries s ! i = Some e"
  obtains s' new where "reconstructEntry i s = Some s'" "site_ok s'" "siteElements s' = new # siteElements s"
    "siteEntries s' = (siteEntries s)[i := Some new]" "namespaceURI new = XHTML" "localName new = localName e"
    "siteFrame s' = siteFrame s" "m_form s' = m_form s"
proof -
  have e: "isFormattingElement e" using site_okD(9) [OF assms(1)] assms(3,4) nth_mem by metis
  let ?token = "fakeToken StartTag (localName e) (cloneAttributes e s)"
  obtain new s1 where c: "createElementWith XHTML (localName e) (cloneAttributes e s) s = (new, s1)" by fastforce
  from createElement_attach [OF assms(1,2) c] obtain s2 where
    s2: "attachToCurrent new s1 = Some s2" "createdFrom s (nodeAddress new) s2"
    "nodeData s2 (nodeAddress new) = Some (ElementNode new)" "namespaceURI new = XHTML" "localName new = localName e"
    "parentNode (links (m_dom s2) (nodeAddress new)) \<noteq> None" .
  define s3 where "s3 = onStack (push_element new) s2"
  have o: "opened s XHTML (localName e) new s3"
    using push_created [OF assms(1) s2(2,3), of push_element] push_asserts [OF assms(1,2)] elements_push(1) s2(4-6)
      formattingElement_plain(1) [OF e] by (simp add: tableIsHTML_def s3_def)
  note o' = openedD [OF o]
  have "reconstructEntry i s = Some (onList (replace_entry i new) s3)"
    using s2(1) c createHTMLElement_eq(1) [OF assms(2), of ?token] o'(11) formattingElement_XHTML [OF e] assms(4)
    by (simp add: reconstructEntry_def createHTMLElementFromSavedElement_def Let_def s3_def fakeToken_def)
  moreover have "Some new \<notin> set (siteEntries s3)" using site_okD(9) [OF assms(1)] o'(6,7) by auto
  then have "site_ok (onList (replace_entry i new) s3)"
    using replace_entry_ok [OF o'(1,5) formatting_clone [OF e o'(3,4)]] by blast
  ultimately show thesis
    using that [of "onList (replace_entry i new) s3" new] o' by (simp add: replace_entry_def) (simp add: onList_def)
qed

lemma reconstruct_loop_ok:
  assumes "site_ok s" "siteElements s \<noteq> []" "siteEntries s = xs @ map Some es"
  obtains s' news where "reconstruct_loop [length xs ..< length xs + length es] s = Some s'" "site_ok s'"
    "siteElements s' = rev news @ siteElements s" "siteEntries s' = xs @ map Some news"
    "map localName news = map localName es" "\<forall>e \<in> set news. namespaceURI e = XHTML"
    "siteFrame s' = siteFrame s" "m_form s' = m_form s"
  using assms
proof (induction es arbitrary: s xs thesis)
  case Nil
  then show ?case by (simp add: Nil.prems(1) [of s "[]"])
next
  case (Cons e es)
  have i: "length xs < length (siteEntries s)" "siteEntries s ! length xs = Some e"
    by (simp_all add: Cons.prems(4) nth_append)
  obtain s1 new where s1: "reconstructEntry (length xs) s = Some s1" "site_ok s1" "siteElements s1 = new # siteElements s"
    "siteEntries s1 = (siteEntries s)[length xs := Some new]" "namespaceURI new = XHTML" "localName new = localName e"
    "siteFrame s1 = siteFrame s" "m_form s1 = m_form s"
    using reconstructEntry_ok [OF Cons.prems(2,3) i] .
  have "siteElements s1 \<noteq> []" "siteEntries s1 = (xs @ [Some new]) @ map Some es"
    using s1(3,4) by (simp_all add: Cons.prems(4) list_update_append)
  from Cons.IH [OF _ s1(2) this] obtain s' news where
    s': "reconstruct_loop [length (xs @ [Some new]) ..< length (xs @ [Some new]) + length es] s1 = Some s'" "site_ok s'"
    "siteElements s' = rev news @ siteElements s1" "siteEntries s' = (xs @ [Some new]) @ map Some news"
    "map localName news = map localName es" "\<forall>e \<in> set news. namespaceURI e = XHTML"
    "siteFrame s' = siteFrame s1" "m_form s' = m_form s1" by blast
  have "[length xs ..< length xs + length (e # es)] = length xs # [Suc (length xs) ..< Suc (length xs) + length es]"
    by (subst upt_conv_Cons) simp_all
  then have "reconstruct_loop [length xs ..< length xs + length (e # es)] s = Some s'" using s1(1) s'(1) by simp
  then show ?case
    using Cons.prems(1) [of s' "new # news"] s' s1 by simp
qed

lemma firstUnopen_loop_split:
  assumes "n \<le> length ens"
  obtains es where "take n ens = take (firstUnopen_loop es0 ens n) ens @ map Some es" "firstUnopen_loop es0 ens n + length es = n"
    "\<forall>e \<in> set es. \<not> contains_element e es0"
    "firstUnopen_loop es0 ens n = 0 \<or> (\<forall>e. ens ! (firstUnopen_loop es0 ens n - 1) = Some e \<longrightarrow> contains_element e es0)"
  using assms
proof (induction n arbitrary: thesis)
  case 0
  then show ?case by simp
next
  case (Suc n)
  show ?case
  proof (cases "\<exists>e. ens ! n = Some e \<and> \<not> contains_element e es0")
    case True
    then obtain e where e: "ens ! n = Some e" "\<not> contains_element e es0" by blast
    obtain es where es: "take n ens = take (firstUnopen_loop es0 ens n) ens @ map Some es" "firstUnopen_loop es0 ens n + length es = n"
      "\<forall>e \<in> set es. \<not> contains_element e es0"
      "firstUnopen_loop es0 ens n = 0 \<or> (\<forall>e. ens ! (firstUnopen_loop es0 ens n - 1) = Some e \<longrightarrow> contains_element e es0)"
      using Suc.IH Suc.prems(2) by auto
    have "take (Suc n) ens = take n ens @ [Some e]" using Suc.prems(2) e(1) by (simp add: take_Suc_conv_app_nth)
    then show ?thesis using Suc.prems(1) [of "es @ [e]"] es e by simp
  next
    case False
    then have "firstUnopen_loop es0 ens (Suc n) = Suc n" by (auto split: option.split)
    then show ?thesis using Suc.prems(1) [of "[]"] False by auto
  qed
qed

lemma contains_element_iff [simp]: "contains_element e es \<longleftrightarrow> e \<in> set (elements es)"
  by (auto simp: contains_element_def find_record_def find_None_iff)

lemma reconstruct_ok:
  assumes "site_ok s" "siteElements s \<noteq> []"
  obtains s' xs es news where "reconstructTheActiveFormattingElements s = Some s'" "site_ok s'"
    "siteEntries s = xs @ map Some es" "\<forall>e \<in> set es. e \<notin> set (siteElements s)"
    "xs = [] \<or> (\<forall>e. last xs = Some e \<longrightarrow> e \<in> set (siteElements s))"
    "siteElements s' = rev news @ siteElements s" "siteEntries s' = xs @ map Some news"
    "map localName news = map localName es" "\<forall>e \<in> set news. namespaceURI e = XHTML"
    "siteFrame s' = siteFrame s" "m_form s' = m_form s"
proof -
  let ?ens = "siteEntries s" and ?first = "firstUnopen_loop (m_openElements s) (siteEntries s) (length (siteEntries s))"
  obtain es where es: "?ens = take ?first ?ens @ map Some es" "?first + length es = length ?ens"
    "\<forall>e \<in> set es. e \<notin> set (siteElements s)"
    "?first = 0 \<or> (\<forall>e. ?ens ! (?first - 1) = Some e \<longrightarrow> e \<in> set (siteElements s))"
    using firstUnopen_loop_split [of "length ?ens" ?ens "m_openElements s"] by auto
  have len: "length (take ?first ?ens) = ?first" using es(2) by simp
  have last: "take ?first ?ens = [] \<or> (\<forall>e. last (take ?first ?ens) = Some e \<longrightarrow> e \<in> set (siteElements s))"
    using es(2,4) by (cases ?first) (auto simp: last_conv_nth)
  obtain s' news where s': "reconstruct_loop [length (take ?first ?ens) ..< length (take ?first ?ens) + length es] s = Some s'" "site_ok s'"
    "siteElements s' = rev news @ siteElements s" "siteEntries s' = take ?first ?ens @ map Some news"
    "map localName news = map localName es" "\<forall>e \<in> set news. namespaceURI e = XHTML"
    "siteFrame s' = siteFrame s" "m_form s' = m_form s"
    using reconstruct_loop_ok [OF assms es(1)] by blast
  have "reconstructTheActiveFormattingElements s = Some s'"
    using s'(1) es(2) unfolding len
    by (auto simp: reconstructTheActiveFormattingElements_def indexOfFirstUnopenFormattingElement_def Let_def list_size_def)
  then show thesis using that [OF _ s'(2) es(1,3) last s'(3-8)] by blast
qed

section \<open>The list of active formatting elements\<close>

lemma list_shrunk_ok:
  assumes "site_ok s" "m_entries (f (m_activeFormattingElements s)) = xs @ ys"
    and "siteEntries s = xs @ zs @ ys" "listAsserts (f (m_activeFormattingElements s)) = listAsserts (m_activeFormattingElements s)"
  shows "site_ok (onList f s)"
  using site_okD(7-9) [OF assms(1)] assms(2-4)
  by (intro onList_site_ok [OF assms(1)]) (auto simp: formattingList_ok_def)

lemma remove_entry_ok: "site_ok s \<Longrightarrow> site_ok (onList (remove_entry e) s)"
proof -
  assume ok: "site_ok s"
  show ?thesis
  proof (cases "reverseFind e (m_activeFormattingElements s)")
    case None
    then show ?thesis using ok by (simp add: onList_def remove_entry_def)
  next
    case (Some i)
    then obtain xs ys where "siteEntries s = xs @ Some e # ys" "i = length xs" by (rule reverseFind_SomeE)
    then show ?thesis
      using list_shrunk_ok [OF ok, of "remove_entry e" xs ys "[Some e]"] Some by (simp add: remove_entry_def)
  qed
qed

lemma clear_loop_prefix: "\<exists>zs. ens = clear_loop ens @ zs"
proof (induction ens rule: clear_loop.induct)
  case (1 ens)
  show ?case
  proof (cases "ens = [] \<or> isMarker (last ens)")
    case True
    then show ?thesis by (subst clear_loop.simps, cases "ens = []") (auto intro: append_butlast_last_id [symmetric])
  next
    case False
    then obtain zs where "butlast ens = clear_loop (butlast ens) @ zs" using 1 by blast
    then have "ens = clear_loop (butlast ens) @ zs @ [last ens]"
      using False by (metis append_assoc append_butlast_last_id)
    moreover have "clear_loop ens = clear_loop (butlast ens)" using False by (subst clear_loop.simps) auto
    ultimately show ?thesis by metis
  qed
qed

lemma clearToLastMarker_ok: "site_ok s \<Longrightarrow> site_ok (onList clearToLastMarker s)"
proof -
  assume ok: "site_ok s"
  obtain zs where "siteEntries s = clear_loop (siteEntries s) @ zs" using clear_loop_prefix by blast
  then show ?thesis
    using list_shrunk_ok [OF ok, of clearToLastMarker "clear_loop (siteEntries s)" "[]" zs] by (simp add: clearToLastMarker_def)
qed

lemma appendMarker_ok: "site_ok s \<Longrightarrow> site_ok (onList appendMarker s)"
  using site_okD(7-9) [of s] by (intro onList_site_ok) (auto simp: appendMarker_def formattingList_ok_def isMarker_def)

lemma onList_simps [simp]:
  "m_openElements (onList f s) = m_openElements s" "m_head (onList f s) = m_head s" "m_form (onList f s) = m_form s"
  "m_dom (onList f s) = m_dom s" "nodeData (onList f s) = nodeData s" "freshNode (onList f s) = freshNode s"
  "isNode (onList f s) = isNode s"
  by (simp_all add: onList_def isNode_def fun_eq_iff)

section \<open>Forms, attributes and removed nodes\<close>

lemma takeForm_ok: "site_ok s \<Longrightarrow> site_ok (snd (takeForm s))"
  using site_ok_form [of s None] by (simp add: takeForm_def)

lemma setAttribute_kept: "site_ok s \<Longrightarrow> kept s (setAttribute e n v s)"
  by (simp add: setAttribute_def attributes_kept)

text \<open>Links that go leave the rest in order.\<close>

lemma unlink_ok:
  assumes "site_ok s" "forest d" "childOf d \<subseteq> childOf (m_dom s)"
    and "\<And>e. e \<in> set (siteElements s) \<Longrightarrow> bodyLinked (s\<lparr>m_dom := d\<rparr>) e"
  shows "site_ok (s\<lparr>m_dom := d\<rparr>)"
proof -
  let ?s = "s\<lparr>m_dom := d\<rparr>"
  have parts: "nodeData ?s = nodeData s" "freshNode ?s = freshNode s" "isParent ?s = isParent s" "isNode ?s = isNode s" "m_dom ?s = d"
    by (simp_all add: isParent_def isNode_def fun_eq_iff)
  note ok = nodes_okD [OF site_okD(1) [OF assms(1)]]
  have "c \<noteq> theDocument \<and> nodeData s c \<noteq> None
      \<and> (isParent s p \<or> p = theDocument \<and> (\<forall>e. nodeData s c = Some (ElementNode e) \<longrightarrow> hasTagName e ''html''))"
    if "(c, p) \<in> childOf d" for c p
    by (rule ok(5) [OF subsetD [OF assms(3) that]])
  then have nodes: "nodes_ok ?s" using ok(2-4) assms(2) unfolding nodes_ok_def parts by auto
  have sorted: "sorted_wrt (notInside ?s) (siteElements s)"
    using site_okD(6) [OF assms(1)] rtrancl_mono [OF assms(3)]
    by (elim sorted_wrt_mono_rel [rotated]) (auto simp: notInside_def)
  have "\<forall>e \<in> set (siteElements s). isNode s e \<and> tableIsHTML e \<and> bodyLinked ?s e"
    using site_okD(5) [OF assms(1)] assms(4) by blast
  then show ?thesis
    using nodes sorted site_okD [OF assms(1)] unfolding site_ok_def parts by (simp del: set_map)
qed

lemma removeBetween_parserRemoveChild:
  "parentNode (links d n) = Some p \<Longrightarrow>
   removeBetween p (previousSibling (links d n)) (nextSibling (links d n)) n d = parserRemoveChild p n d"
  by (simp add: parserRemoveChild_def ASSERT_dom_def)

lemma removeNode_ok:
  assumes "site_ok s" "\<And>e. e \<in> set (siteElements s) \<Longrightarrow> hasTagName e ''body'' \<or> hasTagName e ''html'' \<Longrightarrow> nodeAddress e \<noteq> n"
  shows "kept s (snd (removeNode n s))"
proof (cases "parentNode (links (m_dom s) n)")
  case None
  then show ?thesis using assms(1) by (simp add: removeNode_def kept_def)
next
  case (Some p)
  note rem = forest_removeChild [OF nodes_okD(1) [OF site_okD(1) [OF assms(1)]] Some]
  let ?d = "parserRemoveChild p n (m_dom s)"
  have eq: "snd (removeNode n s) = s\<lparr>m_dom := ?d\<rparr>"
    by (simp add: removeNode_def Some removeBetween_parserRemoveChild onDom_def)
  have parent: "parentNode (links ?d x) = Some q \<longleftrightarrow> parentNode (links (m_dom s) x) = Some q" if "x \<noteq> n" for x q
    using rem(2) that by (auto simp: childOf_iff [symmetric])
  have "bodyLinked (s\<lparr>m_dom := ?d\<rparr>) e" if "e \<in> set (siteElements s)" for e
    using site_okD(5) [OF assms(1) that] assms(2) [OF that] parent [of "nodeAddress e"]
    by (cases "parentNode (links (m_dom s) (nodeAddress e))") (auto simp: bodyLinked_def)
  then have "site_ok (s\<lparr>m_dom := ?d\<rparr>)" using unlink_ok [OF assms(1) rem(1)] rem(2) by blast
  then show ?thesis unfolding eq by (auto simp: kept_def siteFrame_def)
qed

lemma removeNode_linked: "fst (removeNode n s) \<longleftrightarrow> parentNode (links (m_dom s) n) = None"
  by (simp add: removeNode_def split: option.split)

end
