(* ===== verification/HTMLAdoptionAgency.thy ===== *)
theory HTMLAdoptionAgency
  imports HTMLTreeBuilderInBody HTMLConstructionSiteClosing
begin

text \<open>
  The adoption agency of \<open>HTMLTreeBuilder::callTheAdoptionAgency\<close>: it ends, follows no null pointer and no
  record that is gone, fails no assertion, and keeps the invariant of the site.  In particular no node is
  moved into itself, although the foster parent may lie outside the stack.
\<close>

section \<open>Moving nodes\<close>

lemma sorted_wrt_splitI:
  "(\<And>xs a ys b. es = xs @ a # ys \<Longrightarrow> b \<in> set ys \<Longrightarrow> P a b) \<Longrightarrow> sorted_wrt P es"
proof (induction es)
  case (Cons e es)
  have "sorted_wrt P es"
    by (rule Cons.IH) (metis Cons.prems append_Cons)
  then show ?case using Cons.prems [of "[]" e es] by simp
qed simp

text \<open>
  \<open>l\<close> without parent gets one that contains an element lower on the stack.  Paths through the new link
  lead from inside \<open>l\<close> to the lower part of the stack.
\<close>

lemma relink_ok:
  assumes "site_ok s" "siteElements s = U @ l # V" "parentNode (links (m_dom s) (nodeAddress l)) = None"
    and "x \<in> set V" "(nodeAddress x, p) \<in> (childOf (m_dom s))\<^sup>*" "isParent s p"
    and "forest d" "childOf d = insert (nodeAddress l, p) (childOf (m_dom s))"
  shows "site_ok (s\<lparr>m_dom := d\<rparr>)"
proof -
  let ?R = "childOf (m_dom s)" and ?s = "s\<lparr>m_dom := d\<rparr>"
  note sorted = site_okD(6) [OF assms(1), unfolded assms(2)]
  have l: "isNode s l" using site_okD(5) [OF assms(1)] assms(2) by simp
  have nodes: "nodes_ok ?s"
    using link_ok [OF site_okD(1) [OF assms(1)] _ isNode_fresh(2) [OF site_okD(1) [OF assms(1)] l] disjI1 [OF assms(6)] assms(7,8)] l
    by (simp add: isNode_def)
  have "notInside ?s a b" if ab: "siteElements s = xs @ a # ys" "b \<in> set ys" for xs a ys b
  proof -
    have "(nodeAddress b, nodeAddress a) \<notin> ?R\<^sup>*"
      using site_okD(6) [OF assms(1)] ab by (auto simp: sorted_wrt_append notInside_def)
    moreover have False if new: "(nodeAddress b, nodeAddress l) \<in> ?R\<^sup>*" "(p, nodeAddress a) \<in> ?R\<^sup>*"
    proof -
      have xa: "(nodeAddress x, nodeAddress a) \<in> ?R\<^sup>*" using assms(5) new(2) by (rule rtrancl_trans)
      obtain us vs where V: "V = us @ x # vs" using assms(4) by (auto simp: in_set_conv_decomp)
      have "x = a \<or> x \<notin> set ys" using xa ab(1) site_okD(6) [OF assms(1)] by (auto simp: sorted_wrt_append notInside_def)
      then have "b \<in> set V"
        using ab assms(2,4) distinct_elements [OF assms(1)]
        by (auto simp: append_eq_append_conv2 append_eq_Cons_conv Cons_eq_append_conv)
      then show False using new(1) sorted by (auto simp: sorted_wrt_append notInside_def)
    qed
    ultimately show ?thesis by (auto simp: notInside_def assms(8) rtrancl_insert)
  qed
  then have "sorted_wrt (notInside ?s) (siteElements s)"
    by (rule sorted_wrt_splitI)
  then show ?thesis using assms(8) by (intro site_ok_extend [OF assms(1) nodes]) (auto simp: isNode_def)
qed

text \<open>Removing a node from its parent.\<close>

definition detached :: "nat \<Rightarrow> constructionSite \<Rightarrow> constructionSite" where
  "detached n t = (case parentElement t n of
      Some p \<Rightarrow> onDom (parserRemoveChild (nodeAddress p) n) t | None \<Rightarrow> t)"

lemma detachFromParent_eq: "detachFromParent n s = s\<lparr>m_tree := detached n (m_tree s)\<rparr>"
  by (simp add: detachFromParent_def detached_def split: option.split)

lemma detach_ok:
  assumes "site_ok t" "isNode t l" "plainElement l"
  obtains d where "detached (nodeAddress l) t = t\<lparr>m_dom := d\<rparr>" "site_ok (t\<lparr>m_dom := d\<rparr>)"
    "parentNode (links d (nodeAddress l)) = None" "childOf d \<subseteq> childOf (m_dom t)"
proof (cases "parentNode (links (m_dom t) (nodeAddress l))")
  case None
  then have "detached (nodeAddress l) t = t\<lparr>m_dom := m_dom t\<rparr>" by (simp add: detached_def parentElement_def)
  then show thesis using that [of "m_dom t"] None assms(1) by simp
next
  case (Some p)
  let ?d = "parserRemoveChild p (nodeAddress l) (m_dom t)"
  have "isParent t p"
    using nodes_okD(5) [OF site_okD(1) [OF assms(1)], of "nodeAddress l" p] Some assms(2,3)
    by (auto simp: childOf_iff isNode_def plainElement_def)
  then obtain e where e: "nodeData t p = Some (ElementNode e)" by (auto simp: isParent_def)
  have "nodeAddress e = p" by (rule nodes_okD(4) [OF site_okD(1) [OF assms(1)] e])
  then have eq: "detached (nodeAddress l) t = t\<lparr>m_dom := ?d\<rparr>"
    using Some e by (simp add: detached_def parentElement_def onDom_def)
  note rem = forest_removeChild [OF nodes_okD(1) [OF site_okD(1) [OF assms(1)]] Some]
  have parent: "parentNode (links ?d x) = Some q \<longleftrightarrow> parentNode (links (m_dom t) x) = Some q \<and> (x, q) \<noteq> (nodeAddress l, p)" for x q
    using rem(2) by (auto simp: childOf_iff [symmetric])
  have "bodyLinked (t\<lparr>m_dom := ?d\<rparr>) e'" if "e' \<in> set (siteElements t)" for e'
  proof -
    have e': "isNode t e'" "bodyLinked t e'" using site_okD(5) [OF assms(1) that] by blast+
    show ?thesis
    proof (cases "nodeAddress e' = nodeAddress l")
      case True
      then have "e' = l" using isNode_inject [OF e'(1) assms(2)] by blast
      then show ?thesis using assms(3) by (simp add: bodyLinked_def plainElement_def)
    next
      case False
      then have "parentNode (links ?d (nodeAddress e')) = Some q \<longleftrightarrow> parentNode (links (m_dom t) (nodeAddress e')) = Some q" for q
        using parent by blast
      then show ?thesis using e'(2) by (auto simp: bodyLinked_def)
    qed
  qed
  then have "site_ok (t\<lparr>m_dom := ?d\<rparr>)" using unlink_ok [OF assms(1) rem(1)] rem(2) by blast
  moreover have "parentNode (links ?d (nodeAddress l)) = None"
    using parent Some by (metis option.exhaust option.inject)
  moreover have "childOf ?d \<subseteq> childOf (m_dom t)" using rem(2) by blast
  ultimately show thesis using that eq by blast
qed

text \<open>A clone of a formatting element.\<close>

lemma clone_ok:
  assumes "site_ok t" "siteElements t \<noteq> []" "isFormattingElement (m_element r)"
  obtains e t' where "createHTMLElementFromElementRecord r t = Some (e, t')" "createdFrom t (nodeAddress e) t'"
    "leaf t' (nodeAddress e)" "isNode t' e" "namespaceURI e = XHTML" "localName e = localName (m_element r)"
    "isFormattingElement e" "m_dom t' = m_dom t"
proof -
  let ?e = "m_element r"
  let ?token = "fakeToken StartTag (localName ?e) (cloneAttributes ?e t)"
  obtain e t' where c: "createElementWith XHTML (localName ?e) (cloneAttributes ?e t) t = (e, t')" by fastforce
  then have e: "nodeAddress e = freshNode t" "namespaceURI e = XHTML" "localName e = localName ?e"
    and t': "t' = (snd (createNode (ElementNode e) t))\<lparr>attributeMaps := (attributeMaps t)
      (freshNode t := setAttributeMap_list (m_fragmentScriptingPermission t) (cloneAttributes ?e t))\<rparr>"
    by (auto simp: createElementWith_eq Let_def)
  have "createHTMLElementFromElementRecord r t = Some (e, t')"
    using c createHTMLElement_eq(1) [OF assms(2), of ?token] formattingElement_XHTML [OF assms(3)]
    by (simp add: createHTMLElementFromElementRecord_def createHTMLElementFromSavedElement_def Let_def fakeToken_def)
  moreover note createNode_leaf(1,2) [OF assms(1) _ _ t', unfolded e(1) [symmetric]]
  moreover have "isNode t' e" by (simp add: isNode_def t' e createNode_def)
  moreover have "m_dom t' = m_dom t" by (simp add: t' createNode_def)
  ultimately show thesis using that e formatting_clone [OF assms(3) e(2,3)] by simp
qed

text \<open>The element of a record is replaced by one that is not linked.\<close>

lemma replaceElement_site:
  assumes "site_ok t" "m_top (m_openElements t) = xs @ r # ys" "plainElement (m_element r)"
    and "isNode t e" "plainElement e" "tableIsHTML e" "leaf t (nodeAddress e)"
  obtains es where "replaceElement (recordAddress r) e (m_openElements t) = es"
    "m_top es = xs @ r\<lparr>m_element := e\<rparr> # ys" "site_ok (t\<lparr>m_openElements := es\<rparr>)"
proof -
  let ?es = "replaceElement (recordAddress r) e (m_openElements t)"
  note leaf = leafD [OF assms(7)]
  have off: "e \<notin> set (siteElements t)" using leaf(6) by blast
  have tags: "\<not> hasTagName (m_element r) n \<and> \<not> hasTagName e n" if "n \<in> {''html'', ''head'', ''body''}" for n
    using that assms(3,5) by (auto simp: plainElement_def)
  note ok = replaceElement_ok [OF site_okD(3) [OF assms(1)] assms(2) off tags]
  have es: "elements ?es = map m_element xs @ e # map m_element ys" using ok(2) by simp
  have below: "notInside t x e" "notInside t e y" if "x \<in> m_element ` set xs" "y \<in> m_element ` set ys" for x y
    using that leaf(6) parentless [OF leaf(3), of "nodeAddress x"] childless [OF leaf(2), of "nodeAddress y"] assms(2)
    by (fastforce simp: notInside_def)+
  have "notInside t x e" if "x \<in> m_element ` set xs" for x
    using that leaf(6) parentless [OF leaf(3), of "nodeAddress x"] assms(2) by (fastforce simp: notInside_def)
  moreover have "notInside t e y" if "y \<in> m_element ` set ys" for y
    using that leaf(6) childless [OF leaf(2), of "nodeAddress y"] assms(2) by (fastforce simp: notInside_def)
  ultimately have sorted: "sorted_wrt (notInside t) (elements ?es)"
    using site_okD(6) [OF assms(1)] unfolding es assms(2) by (auto simp: sorted_wrt_append)
  have "isNode t e' \<and> tableIsHTML e' \<and> bodyLinked t e'" if "e' \<in> set (elements ?es)" for e'
    using that site_okD(5) [OF assms(1), of e'] assms(2,4-6) unfolding es
    by (auto simp: bodyLinked_def plainElement_def)
  moreover have "stackAsserts ?es" using site_okD(4) [OF assms(1)] by (simp add: replaceElement_def)
  ultimately have "site_ok (t\<lparr>m_openElements := ?es\<rparr>)"
    using onStack_site_ok [OF assms(1) ok(1)] sorted by blast
  then show thesis using that ok(2) by blast
qed

text \<open>
  The new element takes the children of the furthest block and becomes its only child; for the other
  elements nothing changes.
\<close>

lemma adopt_children:
  assumes "site_ok t" "siteElements t = X @ b # Y" "isNode t n" "leaf t (nodeAddress n)" "n \<notin> set (siteElements t)"
  obtains d where "map_option (parserAddChild (nodeAddress b) (nodeAddress n))
      (takeAllChildrenFrom (nodeAddress n) (nodeAddress b) (m_dom t)) = Some d"
    "site_ok (t\<lparr>m_dom := d\<rparr>)" "\<forall>x \<in> set X. notInside (t\<lparr>m_dom := d\<rparr>) x n" "\<forall>y \<in> set (b # Y). notInside (t\<lparr>m_dom := d\<rparr>) n y"
proof -
  let ?R = "childOf (m_dom t)" and ?b = "nodeAddress b" and ?n = "nodeAddress n"
  note leaf = leafD [OF assms(4)] and ok = nodes_okD [OF site_okD(1) [OF assms(1)]]
  have b: "isNode t b" using site_okD(5) [OF assms(1)] assms(2) by simp
  have "n \<noteq> b" using assms(2,5) by auto
  then have nb: "?n \<noteq> ?b" using isNode_inject [OF assms(3) b] by simp
  obtain d1 where d1: "takeAllChildrenFrom ?n ?b (m_dom t) = Some d1" "forest d1"
    "childOf d1 = {(c, x). (c, x) \<in> ?R \<and> x \<noteq> ?b \<or> (c, ?b) \<in> ?R \<and> x = ?n}"
    using forest_takeAllChildrenFrom [OF ok(1) nb leaf(2,3)] by blast
  let ?f = "\<lambda>z. if z = ?n then ?b else z"
  have contract1: "(?f z, ?f w) \<in> ?R\<^sup>*" if "(z, w) \<in> (childOf d1)\<^sup>*" for z w
    using that
  proof induction
    case (step w v)
    have "(?f w, ?f v) \<in> ?R" using step.hyps(2) leaf(2,3) by (auto simp: d1(3))
    then show ?case using step.IH by (meson rtrancl.rtrancl_into_rtrancl)
  qed simp
  have "(?b, ?n) \<notin> (childOf d1)\<^sup>*"
  proof
    assume "(?b, ?n) \<in> (childOf d1)\<^sup>*"
    then obtain z where z: "(?b, z) \<in> (childOf d1)\<^sup>*" "(z, ?n) \<in> childOf d1" using nb by (auto elim: rtranclE)
    then have "(z, ?b) \<in> ?R" using leaf(2) by (auto simp: d1(3))
    moreover have "(?b, z) \<in> ?R\<^sup>*" using contract1 [OF z(1)] z(2) leaf(3) by (auto simp: d1(3) split: if_splits)
    ultimately have "(?b, ?b) \<in> ?R\<^sup>+" by (metis rtrancl_into_trancl1)
    then show False using ok(1) by (auto simp: forest_def acyclic_def)
  qed
  moreover have "parentNode (links d1 ?n) = None"
    using d1(3) leaf(3) by (cases "parentNode (links d1 ?n)") (auto simp flip: childOf_iff)
  ultimately obtain d where d: "d = parserAddChild ?b ?n d1" "forest d" "childOf d = insert (?n, ?b) (childOf d1)"
    using forest_addChild [OF d1(2)] by blast
  let ?t = "t\<lparr>m_dom := d\<rparr>"
  have contract: "(?f z, ?f w) \<in> ?R\<^sup>*" if "(z, w) \<in> (childOf d)\<^sup>*" for z w
    using that
  proof induction
    case (step w v)
    have "(?f w, ?f v) \<in> ?R\<^sup>*" using step.hyps(2) contract1 [OF r_into_rtrancl, of w v] nb by (fastforce simp: d(3))
    then show ?case using step.IH by (meson rtrancl_trans)
  qed simp
  have addr: "nodeAddress e \<noteq> ?n" if "e \<in> set (siteElements t)" for e using leaf(6) that by blast
  have mono: "notInside ?t x y" if "notInside t x y" "x \<in> set (siteElements t)" "y \<in> set (siteElements t)" for x y
    using that contract [of "nodeAddress y" "nodeAddress x"] addr by (auto simp: notInside_def)
  have parts: "nodeData ?t = nodeData t" "freshNode ?t = freshNode t" "isParent ?t = isParent t" "isNode ?t = isNode t" "m_dom ?t = d"
    by (simp_all add: isParent_def isNode_def fun_eq_iff)
  have "c \<noteq> theDocument \<and> nodeData t c \<noteq> None
      \<and> (isParent t p \<or> p = theDocument \<and> (\<forall>e. nodeData t c = Some (ElementNode e) \<longrightarrow> hasTagName e ''html''))"
    if "(c, p) \<in> childOf d" for c p
  proof (cases "(c, p) \<in> ?R")
    case True
    then show ?thesis by (rule ok(5))
  next
    case False
    then have "(c, ?b) \<in> ?R \<and> p = ?n \<or> c = ?n \<and> p = ?b" using that by (auto simp: d(3) d1(3))
    then show ?thesis using ok(5) [of c ?b] leaf(4,5) isNode_parent [OF b] isNode_parent [OF assms(3)] by blast
  qed
  then have "nodes_ok ?t" using ok(2-4) d(2) unfolding nodes_ok_def parts by auto
  moreover have "sorted_wrt (notInside ?t) (siteElements t)"
    using site_okD(6) [OF assms(1)] mono by (auto elim: sorted_wrt_mono_rel [rotated])
  moreover have "bodyLinked ?t e" if "e \<in> set (siteElements t)" for e
  proof -
    have linked: "bodyLinked t e" using site_okD(5) [OF assms(1) that] by blast
    have moved: "(nodeAddress e, q) \<in> childOf d \<or> (nodeAddress e, ?n) \<in> childOf d \<and> q = ?b" if "(nodeAddress e, q) \<in> ?R" for q
      using that by (auto simp: d(3) d1(3))
    have "theDocument \<noteq> ?b" using isNode_fresh(2) [OF site_okD(1) [OF assms(1)] b] by simp
    then have "hasTagName e ''html'' \<longrightarrow> (nodeAddress e, theDocument) \<in> childOf d"
      using linked moved [of theDocument] by (auto simp: bodyLinked_def childOf_iff)
    moreover have "hasTagName e ''body'' \<longrightarrow> (\<exists>q. (nodeAddress e, q) \<in> childOf d)"
      using linked moved by (fastforce simp: bodyLinked_def childOf_iff)
    ultimately show ?thesis by (auto simp: bodyLinked_def childOf_iff)
  qed
  then have "\<forall>e \<in> set (siteElements t). isNode t e \<and> tableIsHTML e \<and> bodyLinked ?t e"
    using site_okD(5) [OF assms(1)] by blast
  ultimately have "site_ok ?t"
    using site_okD [OF assms(1)] unfolding site_ok_def parts by (simp del: set_map)
  moreover have "notInside ?t x n" if "x \<in> set X" for x
  proof -
    have "notInside t x b" using site_okD(6) [OF assms(1)] that by (simp add: assms(2) sorted_wrt_append)
    moreover have "nodeAddress x \<noteq> ?n" using addr that by (simp add: assms(2))
    ultimately show ?thesis using contract [of ?n "nodeAddress x"] by (auto simp: notInside_def)
  qed
  moreover have "notInside ?t n y" if "y \<in> set Y" for y
  proof -
    have "notInside t b y" using site_okD(6) [OF assms(1)] that by (simp add: assms(2) sorted_wrt_append)
    moreover have "nodeAddress y \<noteq> ?n" using addr that by (simp add: assms(2))
    ultimately show ?thesis using contract [of "nodeAddress y" ?n] by (auto simp: notInside_def)
  qed
  moreover have "notInside ?t n b"
  proof -
    have "(?n, ?b) \<in> childOf d" by (simp add: d(3))
    then have "(?b, ?n) \<notin> (childOf d)\<^sup>*"
      using d(2) by (metis acyclic_def forest_def rtrancl_into_trancl1)
    then show ?thesis by (simp add: notInside_def)
  qed
  ultimately show thesis using that [of d] d(1) d1(1) by auto
qed

section \<open>The inner loop\<close>

lemma isOneOf_ustr: "isOneOf (ustr n) names \<longleftrightarrow> n \<in> set names"
  by (induction names) (auto simp: isOneOf_def)

definition specialNames :: "string list" where
  "specialNames =
     [''address'', ''applet'', ''area'', ''article'', ''aside'', ''base'', ''basefont'', ''bgsound'',
      ''blockquote'', ''body'', ''br'', ''button'', ''caption'', ''center'', ''col'', ''colgroup'',
      ''command'', ''dd'', ''details'', ''dir'', ''div'', ''dl'', ''dt'', ''embed'', ''fieldset'',
      ''figcaption'', ''figure'', ''footer'', ''form'', ''frame'', ''frameset'',
      ''h1'', ''h2'', ''h3'', ''h4'', ''h5'', ''h6'',
      ''head'', ''header'', ''hgroup'', ''hr'', ''html'', ''iframe'', ''img'', ''input'', ''isindex'',
      ''li'', ''link'', ''listing'', ''marquee'', ''menu'', ''meta'', ''nav'', ''noembed'', ''noframes'',
      ''noscript'', ''object'', ''ol'', ''p'', ''param'', ''plaintext'', ''pre'', ''script'', ''section'',
      ''select'', ''style'', ''summary'', ''table'', ''tbody'', ''tfoot'', ''thead'',
      ''td'', ''textarea'', ''th'', ''title'', ''tr'', ''ul'', ''wbr'', ''xmp'']"

lemma special_tag:
  assumes "hasTagName e n"
  shows "isSpecialNode e \<longleftrightarrow> n \<in> set specialNames"
proof -
  have e: "namespaceURI e = XHTML" "localName e = ustr n" using assms by (simp_all add: hasQName_def)
  show ?thesis
    unfolding isSpecialNode_def hasQName_def isNumberedHeaderTag_def isTableBodyContextTag_def e isOneOf_ustr specialNames_def
    by (simp only: set_simps insert_iff empty_iff simp_thms namespace.simps if_False HOL.disj_assoc)
qed

lemma nonspecial_plain: "\<not> isSpecialNode e \<Longrightarrow> plainElement e"
proof -
  have "list_all (\<lambda>n. n \<in> set specialNames) [''html'', ''head'', ''body'']" by code_simp
  then show "\<not> isSpecialNode e \<Longrightarrow> plainElement e" by (auto simp: plainElement_def special_tag)
qed

lemma formattingElement_nonspecial: "isFormattingElement e \<Longrightarrow> \<not> isSpecialNode e"
proof -
  assume "isFormattingElement e"
  then obtain n where n: "n \<in> set formattingNames" "hasTagName e n" by (auto simp: isFormattingElement_def list_ex_iff)
  have "list_all (\<lambda>n. n \<notin> set specialNames) formattingNames" by code_simp
  then show ?thesis using n(1) special_tag [OF n(2)] by (simp add: list_all_iff)
qed

lemma recordAt_split:
  assumes "m_top (openElements s) = xs @ r # ys" "distinct (map recordAddress (m_top (openElements s)))"
  shows "recordAt (recordAddress r) s = Some r"
    and "nextOf (recordAddress r) s = (case ys of [] \<Rightarrow> None | n # _ \<Rightarrow> Some (recordAddress n))"
proof -
  have off: "recordAddress r \<notin> recordAddress ` set xs" using assms by auto
  then show "recordAt (recordAddress r) s = Some r"
    using find_None_append [of xs "\<lambda>r'. recordAddress r' = recordAddress r" "r # ys"] assms(1)
    by (fastforce simp: recordAt_def image_iff)
  show "nextOf (recordAddress r) s = (case ys of [] \<Rightarrow> None | n # _ \<Rightarrow> Some (recordAddress n))"
    using recordsBelow_split [OF assms(1) off] by (simp add: nextOf_def)
qed

lemma distinct_records: "site_ok t \<Longrightarrow> distinct (map recordAddress (m_top (m_openElements t)))"
  using site_okD(3) by (simp add: stack_ok_def)

text \<open>
  The stack is \<open>A\<close>, the furthest block with the clones that were made (\<open>P\<close>), the records that are left
  (\<open>Q\<close>), the formatting element, and the rest.
\<close>

definition inner_inv ::
  "elementRecord list \<Rightarrow> elementRecord \<Rightarrow> elementRecord list \<Rightarrow> elementRecord list \<Rightarrow> elementRecord \<Rightarrow> elementRecord list
   \<Rightarrow> constructionSite \<Rightarrow> bool" where
  "inner_inv A fb P Q fr L t \<longleftrightarrow>
     site_ok t \<and> m_top (m_openElements t) = A @ (fb # P) @ Q @ fr # L
     \<and> (\<forall>r \<in> set P. isFormattingElement (m_element r)) \<and> (\<forall>r \<in> set Q. \<not> isSpecialNode (m_element r))
     \<and> plainElement (m_element fb) \<and> isFormattingElement (m_element fr) \<and> Some (m_element fr) \<in> set (siteEntries t)"

definition bookmark_ok :: "bookmark \<Rightarrow> element \<Rightarrow> constructionSite \<Rightarrow> bool" where
  "bookmark_ok bm fe t \<longleftrightarrow> m_mark bm < length (siteEntries t) \<and> (\<not> m_hasBeenMoved bm \<longrightarrow> siteEntries t ! m_mark bm = Some fe)"

lemma inner_invD:
  assumes "inner_inv A fb P Q fr L t"
  shows "site_ok t" "m_top (m_openElements t) = A @ (fb # P) @ Q @ fr # L"
    "r \<in> set P \<Longrightarrow> isFormattingElement (m_element r)" "r \<in> set Q \<Longrightarrow> \<not> isSpecialNode (m_element r)"
    "plainElement (m_element fb)" "isFormattingElement (m_element fr)" "Some (m_element fr) \<in> set (siteEntries t)"
  using assms by (simp_all add: inner_inv_def)

lemma last_plain: "inner_inv A fb P Q fr L t \<Longrightarrow> plainElement (m_element (last (fb # P)))"
  by (auto simp: inner_inv_def formattingElement_plain(2))

text \<open>One turn that replaces a record by a clone.\<close>

lemma createdFromD:
  assumes "createdFrom s n s'"
  shows "site_ok s'" "m_openElements s' = m_openElements s" "m_activeFormattingElements s' = m_activeFormattingElements s"
    "siteFrame s' = siteFrame s" "m_form s' = m_form s" "isNode s e \<Longrightarrow> isNode s' e" "nodeData s n = None"
  using assms by (auto simp: createdFrom_def)

lemma find_entry_Some:
  assumes "Some e \<in> set (m_entries l)"
  obtains i where "find_entry e l = Some i" "i < length (m_entries l)" "m_entries l ! i = Some e"
proof -
  obtain i where i: "find_entry e l = Some i" using assms list_contains_iff [of e l, unfolded list_contains_def] by auto
  then show thesis using that by (auto simp: find_entry_def reverseFind_def reverseFind_upto_Some)
qed

text \<open>The last node goes from its parent to the clone.\<close>

definition moveLast :: "element \<Rightarrow> element \<Rightarrow> constructionSite \<Rightarrow> constructionSite" where
  "moveLast l new t = onDom (parserAddChild (nodeAddress new) (nodeAddress l)) (detached (nodeAddress l) t)"

lemma moveLast_ok:
  assumes "site_ok t" "siteElements t = U @ l # V" "plainElement l" "x \<in> set V"
  obtains d where "moveLast l x t = t\<lparr>m_dom := d\<rparr>" "site_ok (t\<lparr>m_dom := d\<rparr>)"
proof -
  have l: "isNode t l" and x: "isNode t x" using site_okD(5) [OF assms(1)] assms(2,4) by simp_all
  obtain d1 where d1: "detached (nodeAddress l) t = t\<lparr>m_dom := d1\<rparr>" "site_ok (t\<lparr>m_dom := d1\<rparr>)"
    "parentNode (links d1 (nodeAddress l)) = None" "childOf d1 \<subseteq> childOf (m_dom t)"
    using detach_ok [OF assms(1) l assms(3)] .
  let ?t = "t\<lparr>m_dom := d1\<rparr>" and ?d = "parserAddChild (nodeAddress x) (nodeAddress l) d1"
  have es: "siteElements ?t = U @ l # V" using assms(2) by simp
  have "notInside ?t l x" using site_okD(6) [OF d1(2)] assms(4) unfolding es by (simp add: sorted_wrt_append)
  then have "forest ?d" "childOf ?d = insert (nodeAddress l, nodeAddress x) (childOf (m_dom ?t))"
    using forest_addChild [OF _ d1(3)] nodes_okD(1) [OF site_okD(1) [OF d1(2)]] by (simp_all add: notInside_def)
  then have "site_ok (?t\<lparr>m_dom := ?d\<rparr>)"
    using relink_ok [OF d1(2) es _ assms(4) rtrancl_refl, of ?d] d1(3) isNode_parent [of ?t x] x by (simp add: isNode_def)
  then show thesis using that [of ?d] by (simp add: moveLast_def d1(1) onDom_def)
qed

lemma inner_clone:
  assumes inv: "inner_inv A fb P (r # Q) fr L t" and entry: "Some (m_element r) \<in> set (siteEntries t)"
  obtains t1 new i t2 t' where "createHTMLElementFromElementRecord r t = Some (new, t1)"
    "find_entry (m_element r) (m_activeFormattingElements t1) = Some i"
    "t2 = onStack (replaceElement (recordAddress r) new) (onList (replace_entry i new) t1)"
    "m_top (m_openElements t2) = A @ (fb # P) @ r\<lparr>m_element := new\<rparr> # Q @ fr # L"
    "t' = moveLast (m_element (last (fb # P))) new t2"
    "inner_inv A fb (P @ [r\<lparr>m_element := new\<rparr>]) Q fr L t'"
    "siteEntries t' = (siteEntries t)[i := Some new]" "i < length (siteEntries t)" "siteEntries t ! i = Some (m_element r)"
    "siteFrame t' = siteFrame t" "m_form t' = m_form t" "m_element r \<noteq> m_element fr"
proof -
  note ok = inner_invD [OF inv]
  let ?e = "m_element r"
  have ne: "siteElements t \<noteq> []" using ok(2) by simp
  have fmt: "isFormattingElement ?e" using site_okD(9) [OF ok(1) entry] by blast
  obtain new t1 where c: "createHTMLElementFromElementRecord r t = Some (new, t1)" "createdFrom t (nodeAddress new) t1"
    "leaf t1 (nodeAddress new)" "isNode t1 new" "namespaceURI new = XHTML" "localName new = localName ?e"
    "isFormattingElement new" "m_dom t1 = m_dom t"
    using clone_ok [OF ok(1) ne fmt] .
  note t1 = createdFromD [OF c(2)]
  obtain i where i: "find_entry ?e (m_activeFormattingElements t1) = Some i" "i < length (siteEntries t)" "siteEntries t ! i = Some ?e"
    using find_entry_Some [OF entry] t1(3) by metis
  have new: "\<not> isNode t new" using t1(7) by (simp add: isNode_def)
  then have "Some new \<notin> set (siteEntries t1)" using site_okD(9) [OF ok(1)] t1(3) by auto
  define t1' where "t1' = onList (replace_entry i new) t1"
  have ok1: "site_ok t1'"
    using replace_entry_ok [OF t1(1) c(4,7) \<open>Some new \<notin> _\<close>] by (simp add: t1'_def)
  have leaf1: "leaf t1' (nodeAddress new)" using c(3) by (simp add: t1'_def leaf_def unlinked_def)
  have top1: "m_top (m_openElements t1') = (A @ fb # P) @ r # (Q @ fr # L)" using ok(2) t1(2) by (simp add: t1'_def)
  have plain: "plainElement ?e" "plainElement new" "tableIsHTML new" "isNode t1' new"
    using formattingElement_plain(2) fmt c(4,5,7) by (simp_all add: t1'_def tableIsHTML_def)
  from replaceElement_site [OF ok1 top1 plain(1,4,2,3) leaf1] obtain es where
    es: "replaceElement (recordAddress r) new (m_openElements t1') = es"
    "m_top es = (A @ fb # P) @ r\<lparr>m_element := new\<rparr> # Q @ fr # L" "site_ok (t1'\<lparr>m_openElements := es\<rparr>)" .
  define t2 where "t2 = onStack (replaceElement (recordAddress r) new) (onList (replace_entry i new) t1)"
  have t2: "t2 = t1'\<lparr>m_openElements := es\<rparr>" using es(1) by (simp add: t2_def t1'_def onStack_def)
  let ?l = "last (fb # P)"
  have top2: "siteElements t2 = map m_element (A @ butlast (fb # P)) @ m_element ?l # map m_element (r\<lparr>m_element := new\<rparr> # Q @ fr # L)"
    using es(2) by (simp add: t2) (metis append_butlast_last_id list.simps(8,9) map_append append_Cons append_Nil
        append.assoc list.distinct(1))
  have "site_ok t2" using es(3) t2 by simp
  from moveLast_ok [OF this top2 last_plain [OF inv], of new] obtain d where
    d: "moveLast (m_element ?l) new t2 = t2\<lparr>m_dom := d\<rparr>" "site_ok (t2\<lparr>m_dom := d\<rparr>)" by auto
  let ?t = "moveLast (m_element ?l) new t2"
  have entries: "siteEntries ?t = (siteEntries t)[i := Some new]" unfolding d(1) by (simp add: t2 t1'_def replace_entry_def t1(3))
  have nfe: "?e \<noteq> m_element fr" using distinct_elements [OF ok(1)] ok(2) by auto
  have "Some (m_element fr) \<in> set (siteEntries ?t)"
    using ok(7) i(2,3) nfe unfolding entries by (metis in_set_conv_nth length_list_update nth_list_update_neq option.inject)
  then have "inner_inv A fb (P @ [r\<lparr>m_element := new\<rparr>]) Q fr L ?t"
    using d(2) ok(3-6) c(7) es(2) unfolding inner_inv_def d(1) by (auto simp: t2)
  moreover have "siteFrame ?t = siteFrame t" "m_form ?t = m_form t"
    using t1(4,5) unfolding d(1) by (simp_all add: t2 t1'_def siteFrame_def onList_def)
  ultimately show thesis using that [OF c(1) i(1) t2_def _ refl _ entries i(2,3)] es(2) nfe by (simp add: t2)
qed

lemma addChild_detach: "addChild (nodeAddress new) (nodeAddress l) (detachFromParent (nodeAddress l) s) = s\<lparr>m_tree := moveLast l new (m_tree s)\<rparr>"
  by (simp add: addChild_def detachFromParent_eq moveLast_def)

lemma bookmark_step:
  assumes "bookmark_ok bm fe t" "siteEntries t' = (siteEntries t)[i := Some new]" "i < length (siteEntries t)"
    and "siteEntries t ! i \<noteq> Some fe" "bm' = (if b then moveToAfter i bm else bm)"
  shows "bookmark_ok bm' fe t'"
  using assms by (auto simp: bookmark_ok_def moveToAfter_def nth_list_update)

lemma inner_loop:
  assumes "inner_inv A fb P Q fr L (m_tree s)" "bookmark_ok bm (m_element fr) (m_tree s)"
  obtains t' P' k bm' where
    "adoption_inner i (recordAddress fr) (recordAddress fb) (Some (recordAddress (hd (Q @ [fr])))) (recordAddress (last (fb # P))) bm s
      = Some ((recordAddress (last (fb # P')), bm'), s\<lparr>m_tree := t'\<rparr>)"
    "inner_inv A fb P' (drop k Q) fr L t'" "bookmark_ok bm' (m_element fr) t'"
    "siteFrame t' = siteFrame (m_tree s)" "m_form t' = m_form (m_tree s)"
  using assms
proof (induction i arbitrary: P Q s bm thesis)
  case 0
  then show ?case using 0(1) [of P bm "m_tree s" 0] by simp
next
  case (Suc i)
  let ?t = "m_tree s"
  note inv = inner_invD [OF Suc.prems(2)]
  note addr = distinct_records [OF inv(1)]
  show ?case
  proof (cases Q)
    case Nil
    have "recordAt (recordAddress fr) s = Some fr"
      using recordAt_split(1) [OF _ addr, of "A @ fb # P" fr L] inv(2) Nil by simp
    then show ?thesis
      using Suc.prems(1) [of P bm ?t 0] Suc.prems(2,3) Nil inv(7) by simp
  next
    case (Cons r Q1)
    have top: "m_top (openElements s) = (A @ fb # P) @ r # (Q1 @ fr # L)" using inv(2) Cons by simp
    have rec_at: "recordAt (recordAddress r) s = Some r"
      and next_of: "nextOf (recordAddress r) s = Some (recordAddress (hd (Q1 @ [fr])))"
      using recordAt_split [OF top addr] by (cases Q1; simp)+
    have r: "\<not> isSpecialNode (m_element r)" using inv(4) Cons by simp
    show ?thesis
    proof (cases "Some (m_element r) \<in> set (siteEntries ?t)")
      case False
      obtain t1 where t1: "onStack_option (remove_element (m_element r)) ?t = Some t1" "restacked ?t ((A @ fb # P) @ Q1 @ fr # L) t1"
        using remove_element_ok [OF inv(1) top nonspecial_plain [OF r]] .
      let ?s = "s\<lparr>m_tree := t1\<rparr>"
      have "inner_inv A fb P Q1 fr L (m_tree ?s)" "bookmark_ok bm (m_element fr) (m_tree ?s)"
        using restackedD [OF t1(2)] inv(3-7) Suc.prems(3) Cons by (auto simp: inner_inv_def bookmark_ok_def)
      from Suc.IH [OF _ this] obtain t' P' k bm' where
        "adoption_inner i (recordAddress fr) (recordAddress fb) (Some (recordAddress (hd (Q1 @ [fr])))) (recordAddress (last (fb # P))) bm ?s
          = Some ((recordAddress (last (fb # P')), bm'), ?s\<lparr>m_tree := t'\<rparr>)"
        "inner_inv A fb P' (drop k Q1) fr L t'" "bookmark_ok bm' (m_element fr) t'"
        "siteFrame t' = siteFrame (m_tree ?s)" "m_form t' = m_form (m_tree ?s)" by blast
      then show ?thesis
        using Suc.prems(1) [of P' bm' t' "Suc k"] rec_at next_of False Cons restackedD(5,6) [OF t1(2)]
        by (simp add: onOpenElements_def onTree_def t1(1))
    next
      case True
      from inner_clone [OF Suc.prems(2) [unfolded Cons] True] obtain t1 new j t2 t' where
        c: "createHTMLElementFromElementRecord r ?t = Some (new, t1)"
        "find_entry (m_element r) (m_activeFormattingElements t1) = Some j"
        "t2 = onStack (replaceElement (recordAddress r) new) (onList (replace_entry j new) t1)"
        "m_top (m_openElements t2) = A @ (fb # P) @ r\<lparr>m_element := new\<rparr> # Q1 @ fr # L"
        "t' = moveLast (m_element (last (fb # P))) new t2"
        "inner_inv A fb (P @ [r\<lparr>m_element := new\<rparr>]) Q1 fr L t'"
        "siteEntries t' = (siteEntries ?t)[j := Some new]" "j < length (siteEntries ?t)" "siteEntries ?t ! j = Some (m_element r)"
        "siteFrame t' = siteFrame ?t" "m_form t' = m_form ?t" "m_element r \<noteq> m_element fr" .
      define bm1 where "bm1 = (if recordAddress (last (fb # P)) = recordAddress fb then moveToAfter j bm else bm)"
      let ?s = "s\<lparr>m_tree := t'\<rparr>"
      have inv': "inner_inv A fb (P @ [r\<lparr>m_element := new\<rparr>]) Q1 fr L (m_tree ?s)" using c(6) by simp
      have "bookmark_ok bm1 (m_element fr) (m_tree ?s)"
        using bookmark_step [OF Suc.prems(3), of t' j new] c(7-9,12) by (simp add: bm1_def)
      from Suc.IH [OF _ inv' this] obtain t'' P' k bm' where
        step: "adoption_inner i (recordAddress fr) (recordAddress fb) (Some (recordAddress (hd (Q1 @ [fr]))))
            (recordAddress (last (fb # P @ [r\<lparr>m_element := new\<rparr>]))) bm1 ?s
          = Some ((recordAddress (last (fb # P')), bm'), ?s\<lparr>m_tree := t''\<rparr>)"
        "inner_inv A fb P' (drop k Q1) fr L t''" "bookmark_ok bm' (m_element fr) t''"
        "siteFrame t'' = siteFrame (m_tree ?s)" "m_form t'' = m_form (m_tree ?s)" by blast
      let ?s2 = "s\<lparr>m_tree := t2\<rparr>"
      have addr2: "distinct (map recordAddress (m_top (openElements ?s2)))"
        using addr top by (simp add: c(4))
      have "m_top (openElements ?s2) = (A @ butlast (fb # P)) @ last (fb # P) # (r\<lparr>m_element := new\<rparr> # Q1 @ fr # L)"
      proof -
        have "fb # P = butlast (fb # P) @ [last (fb # P)]" by simp
        then have "A @ (fb # P) @ zs = (A @ butlast (fb # P)) @ last (fb # P) # zs" for zs
          by (metis append.assoc append_Cons append_Nil)
        then show ?thesis using c(4) by simp
      qed
      note last_at = recordAt_split(1) [OF this addr2]
      have neq: "recordAddress r \<noteq> recordAddress fr" using addr by (auto simp: top)
      have "adoption_inner (Suc i) (recordAddress fr) (recordAddress fb) (Some (recordAddress (hd (Q @ [fr]))))
            (recordAddress (last (fb # P))) bm s
        = adoption_inner i (recordAddress fr) (recordAddress fb) (Some (recordAddress (hd (Q1 @ [fr])))) (recordAddress r) bm1
            (s\<lparr>m_tree := t'\<rparr>)"
        using rec_at next_of True Cons neq c(1,2) last_at addChild_detach [of new "m_element (last (fb # P))" ?s2]
        unfolding bm1_def c(5) c(3)
        by (simp add: createOnTree_def onOpenElements_def onTree_def onStack_option_def onFormattingElements_def onStack_def)
      then show ?thesis
        using Suc.prems(1) [of P' bm' t'' "Suc k"] step Cons c(10,11) by simp
    qed
  qed
qed

section \<open>The end of a round\<close>

lemma swapTo_ok:
  assumes "site_ok t" "isNode t new" "isFormattingElement new" "Some new \<notin> set (siteEntries t)"
    and "Some fe \<in> set (siteEntries t)" "bookmark_ok bm fe t"
  shows "site_ok (onList (swapTo fe new bm) t)"
proof (cases "m_hasBeenMoved bm")
  case False
  then have "swapTo fe new bm (m_activeFormattingElements t) = replace_entry (m_mark bm) new (m_activeFormattingElements t)"
    using assms(4-6) by (simp add: swapTo_def ASSERT_list_def bookmark_ok_def)
  then have "onList (swapTo fe new bm) t = onList (replace_entry (m_mark bm) new) t" by (simp add: onList_def)
  then show ?thesis using replace_entry_ok [OF assms(1-4)] by simp
next
  case True
  let ?l = "m_activeFormattingElements t" and ?i = "Suc (m_mark bm)"
  define l where "l = ?l\<lparr>m_entries := take ?i (m_entries ?l) @ Some new # drop ?i (m_entries ?l)\<rparr>"
  have swap: "swapTo fe new bm ?l = remove_entry fe l"
    using True assms(4-6) by (simp add: swapTo_def ASSERT_list_def bookmark_ok_def list_size_def l_def Let_def)
  obtain xs ys where xs: "m_entries ?l = xs @ ys" "m_entries l = xs @ Some new # ys"
  proof
    show "m_entries ?l = take ?i (m_entries ?l) @ drop ?i (m_entries ?l)" by simp
    show "m_entries l = take ?i (m_entries ?l) @ Some new # drop ?i (m_entries ?l)" by (simp add: l_def)
  qed
  then have mem: "set (m_entries l) = insert (Some new) (set (m_entries ?l))" by auto
  have "formattingList_ok l"
    using site_okD(7) [OF assms(1)] assms(4) by (auto simp: formattingList_ok_def xs)
  then have "site_ok (onList (\<lambda>_. l) t)"
    using site_okD(8,9) [OF assms(1)] assms(2,3) mem by (intro onList_site_ok [OF assms(1)]) (auto simp: l_def)
  from remove_entry_ok [OF this, of fe] show ?thesis by (simp add: onList_def swap)
qed

lemma insertAbove_site:
  assumes "site_ok t" "m_top (m_openElements t) = xs @ r # ys" "isNode t e" "plainElement e" "tableIsHTML e"
    and "e \<notin> set (siteElements t)" "\<forall>x \<in> m_element ` set xs. notInside t x e" "\<forall>y \<in> m_element ` set (r # ys). notInside t e y"
  obtains es where "insertAbove e (recordAddress r) (m_openElements t) = es" "elements es = map m_element xs @ e # map m_element (r # ys)"
    "site_ok (t\<lparr>m_openElements := es\<rparr>)"
proof -
  let ?s = "m_openElements t"
  let ?es = "insertAbove e (recordAddress r) ?s"
  have html: "m_htmlElement ?s \<noteq> None" using stack_ok_Nil_iff [OF site_okD(3) [OF assms(1)]] assms(2) by simp
  have es: "elements ?es = map m_element xs @ e # map m_element (r # ys)" "stackAsserts ?es"
  proof (atomize (full), cases "xs = []")
    case True
    then have "insertAbove e (recordAddress r) ?s = push_element e ?s"
      using assms(2,4) html by (simp add: insertAbove_def topRecord_def ASSERT_stack_def plainElement_def Let_def)
    then show "elements ?es = map m_element xs @ e # map m_element (r # ys) \<and> stackAsserts ?es"
      using True assms(2,4) html site_okD(4) [OF assms(1)]
      by (simp add: elements_push push_element_def pushCommon_def plainElement_def Let_def newRecord_def)
  next
    case False
    then show "elements ?es = map m_element xs @ e # map m_element (r # ys) \<and> stackAsserts ?es"
      using insertAbove_eq [OF assms(2) _ False, of e] stack_ok_split(3) [OF site_okD(3) [OF assms(1)] assms(2)]
        assms(4) html site_okD(4) [OF assms(1)]
      by (simp add: newRecord_def plainElement_def)
  qed
  have ok: "stack_ok ?es"
    by (rule insertAbove_ok [OF site_okD(3) [OF assms(1)] assms(6) _ es(2)]) (simp add: assms(2))
  have "sorted_wrt (notInside t) (elements ?es)"
    using site_okD(6) [OF assms(1)] assms(7,8) unfolding es(1) by (auto simp: assms(2) sorted_wrt_append)
  moreover have "isNode t e' \<and> tableIsHTML e' \<and> bodyLinked t e'" if "e' \<in> set (elements ?es)" for e'
    using that site_okD(5) [OF assms(1), of e'] assms(2-5) unfolding es(1) by (auto simp: bodyLinked_def plainElement_def)
  ultimately have "site_ok (t\<lparr>m_openElements := ?es\<rparr>)"
    using onStack_site_ok [OF assms(1) ok es(2)] by blast
  then show thesis using that es(1) by blast
qed

text \<open>
  The last node goes to the common ancestor, or to the foster site when that is in a table.
\<close>

lemma place_ok:
  assumes "site_ok t" "siteElements t = U @ l # V @ map m_element (ca # L)" "plainElement l"
    and "m_top (m_openElements t) = above' @ ca # L" "\<forall>r \<in> set above'. \<not> hasLocalName (m_element r) (ustr ''table'')"
  obtains d where
    "(if foster then fosterParent (nodeAddress l) (detached (nodeAddress l) t)
      else Some (onDom (parserAddChild (nodeAddress (m_element ca)) (nodeAddress l)) (detached (nodeAddress l) t)))
      = Some (t\<lparr>m_dom := d\<rparr>)" "site_ok (t\<lparr>m_dom := d\<rparr>)"
proof (cases foster)
  case False
  have "siteElements t = U @ l # (V @ map m_element (ca # L))" using assms(2) by simp
  from moveLast_ok [OF assms(1) this assms(3), of "m_element ca"] obtain d where
    "moveLast l (m_element ca) t = t\<lparr>m_dom := d\<rparr>" "site_ok (t\<lparr>m_dom := d\<rparr>)" by auto
  then show thesis using that [of d] False by (simp add: moveLast_def)
next
  case True
  have l: "isNode t l" using site_okD(5) [OF assms(1)] assms(2) by simp
  obtain d1 where d1: "detached (nodeAddress l) t = t\<lparr>m_dom := d1\<rparr>" "site_ok (t\<lparr>m_dom := d1\<rparr>)"
    "parentNode (links d1 (nodeAddress l)) = None" "childOf d1 \<subseteq> childOf (m_dom t)"
    using detach_ok [OF assms(1) l assms(3)] .
  let ?t = "t\<lparr>m_dom := d1\<rparr>"
  have "m_top (m_openElements ?t) = above' @ ca # L" using assms(4) by simp
  from findFosterSite_ok [OF d1(2) this _ assms(5)] obtain st x where
    st: "findFosterSite ?t = Some st" "validSite ?t st" "x \<in> m_element ` set (ca # L)"
    "(nodeAddress x, siteParent st) \<in> (childOf (m_dom ?t))\<^sup>*" by blast
  have es: "siteElements ?t = U @ l # (V @ map m_element (ca # L))" using assms(2) by simp
  have x: "x \<in> set (V @ map m_element (ca # L))" using st(3) by auto
  then have "notInside ?t l x" using site_okD(6) [OF d1(2)] unfolding es by (auto simp: sorted_wrt_append)
  then have acyclic: "(siteParent st, nodeAddress l) \<notin> (childOf (m_dom ?t))\<^sup>*"
    using st(4) by (auto simp: notInside_def dest: rtrancl_trans)
  have l': "isNode ?t l" using l by (simp add: isNode_def)
  then have data: "nodeData ?t (nodeAddress l) \<noteq> None" by (simp add: isNode_def)
  obtain d where d: "attachAtSite st (nodeAddress l) ?t = ?t\<lparr>m_dom := d\<rparr>" "nodes_ok (?t\<lparr>m_dom := d\<rparr>)"
    "childOf d = insert (nodeAddress l, siteParent st) (childOf (m_dom ?t))"
    using attachAtSite_ok [OF site_okD(1) [OF d1(2)] st(2) data isNode_fresh(2) [OF site_okD(1) [OF d1(2)] l'] _ acyclic] d1(3)
    by auto
  have "forest d" using nodes_okD(1) [OF d(2)] by simp
  then have "site_ok (?t\<lparr>m_dom := d\<rparr>)"
    using relink_ok [OF d1(2) es _ x st(4) _ _ d(3)] d1(3) st(2) by (simp add: validSite_def)
  then show thesis using that [of d] True d1(1) st(1) d(1) by (simp add: fosterParent_def)
qed

section \<open>A round\<close>

text \<open>The special and the foreign elements of a stack, in their order.\<close>

definition skeleton :: "element list \<Rightarrow> element list" where
  "skeleton = filter (\<lambda>e. isSpecialNode e \<or> namespaceURI e \<noteq> XHTML)"

lemma skeleton_simps [simp]:
  "skeleton [] = []" "skeleton (xs @ ys) = skeleton xs @ skeleton ys"
  "skeleton (e # es) = (if isSpecialNode e \<or> namespaceURI e \<noteq> XHTML then e # skeleton es else skeleton es)"
  by (simp_all add: skeleton_def)

lemma skeleton_formatting: "\<forall>e \<in> set es. isFormattingElement e \<Longrightarrow> skeleton es = []"
  by (auto simp: skeleton_def filter_empty_conv formattingElement_nonspecial formattingElement_XHTML)

lemma skeleton_drop: "skeleton (drop k es) = drop (length (skeleton (take k es))) (skeleton es)"
proof -
  have "skeleton es = skeleton (take k es) @ skeleton (drop k es)"
    unfolding skeleton_simps(2) [symmetric] append_take_drop_id ..
  then show ?thesis by simp
qed

text \<open>
  What the algorithm does to the stack: only plain elements come and go, above the first scope marker; of
  the skeleton, some foreign elements go.
\<close>

definition adopted :: "element list \<Rightarrow> element list \<Rightarrow> bool" where
  "adopted es es' \<longleftrightarrow> (\<exists>U U' V a m k. es = U @ V \<and> es' = U' @ V \<and> (U = U' \<or> U \<noteq> [] \<and> isFormattingElement (last U))
     \<and> (\<forall>e \<in> set U. \<not> isScopeMarker e) \<and> (\<forall>e \<in> set U \<union> set U'. plainElement e)
     \<and> skeleton U = a @ m \<and> skeleton U' = a @ drop k m \<and> (\<forall>e \<in> set m. \<not> isSpecialNode e))"

lemma adopted_refl: "adopted es es"
  unfolding adopted_def by (rule exI [of _ "[]"], rule exI [of _ "[]"]) auto

text \<open>Above an active formatting element there are only plain elements.\<close>

definition guarded :: "element list \<Rightarrow> bool" where
  "guarded es \<longleftrightarrow> sorted_wrt (\<lambda>x y. isFormattingElement y \<longrightarrow> plainElement x) es"

lemma guarded_adopted:
  assumes "guarded es" "adopted es es'"
  shows "guarded es'"
proof -
  have "sorted_wrt (\<lambda>x y. isFormattingElement y \<longrightarrow> plainElement x) U" if "\<forall>e \<in> set U. plainElement e" for U
    using that by (induction U) auto
  then show ?thesis using assms by (auto simp: guarded_def adopted_def sorted_wrt_append)
qed

lemma furthestBlock_none:
  "\<forall>r \<in> set U. m_element r \<noteq> fe \<and> \<not> isSpecialNode (m_element r) \<Longrightarrow> m_element fr = fe \<Longrightarrow>
   furthestBlock_loop fe acc (U @ fr # L) = Some acc"
  by (induction U arbitrary: acc) auto

lemma furthestBlock_some:
  "\<forall>r \<in> set U. m_element r \<noteq> fe \<Longrightarrow> m_element fr = fe \<Longrightarrow> U = A @ fb # M \<Longrightarrow> isSpecialNode (m_element fb) \<Longrightarrow>
   \<forall>r \<in> set M. \<not> isSpecialNode (m_element r) \<Longrightarrow> furthestBlock_loop fe acc (U @ fr # L) = Some (Some fb)"
  by (induction A arbitrary: U acc) (simp_all add: furthestBlock_none)

lemma last_special_split:
  "(\<forall>r \<in> set U. \<not> P r) \<or> (\<exists>A fb M. U = A @ fb # M \<and> P fb \<and> (\<forall>r \<in> set M. \<not> P r))"
  using split_list_last_prop [of U P] by blast

lemma inScope_split:
  assumes "siteElements t = U @ fe # L" "fe \<notin> set U" "scopeLoop (\<lambda>x. x = fe) isScopeMarker (siteElements t) = Some True"
  shows "\<forall>e \<in> set U. \<not> isScopeMarker e"
  using assms(2,3) unfolding assms(1) by (induction U) (auto split: if_splits)

lemma table_scope: "tableIsHTML e \<Longrightarrow> \<not> isScopeMarker e \<Longrightarrow> \<not> hasLocalName e (ustr ''table'')"
  by (auto simp: tableIsHTML_def isScopeMarker_def hasLocalName_def hasQName_def)

lemma foreign_special:
  "hasQName e MathML ''mi'' \<Longrightarrow> isSpecialNode e" "hasQName e MathML ''mo'' \<Longrightarrow> isSpecialNode e"
  "hasQName e MathML ''mn'' \<Longrightarrow> isSpecialNode e" "hasQName e MathML ''ms'' \<Longrightarrow> isSpecialNode e"
  "hasQName e MathML ''mtext'' \<Longrightarrow> isSpecialNode e" "hasQName e MathML ''annotation-xml'' \<Longrightarrow> isSpecialNode e"
  "hasQName e SVG ''foreignObject'' \<Longrightarrow> isSpecialNode e" "hasQName e SVG ''desc'' \<Longrightarrow> isSpecialNode e"
  "hasQName e SVG ''title'' \<Longrightarrow> isSpecialNode e"
  by (simp_all add: isSpecialNode_def)

lemma scope_special: "isScopeMarker e \<Longrightarrow> isSpecialNode e"
proof -
  have names: "list_all (\<lambda>n. hasTagName e n \<longrightarrow> isSpecialNode e)
      [''applet'', ''caption'', ''html'', ''marquee'', ''object'', ''table'', ''td'', ''th'']"
  proof -
    have "list_all (\<lambda>n. n \<in> set specialNames)
      [''applet'', ''caption'', ''html'', ''marquee'', ''object'', ''table'', ''td'', ''th'']" by code_simp
    then show ?thesis using special_tag [of e] by (auto simp: list_all_iff)
  qed
  assume "isScopeMarker e"
  then show "isSpecialNode e"
    using names unfolding isScopeMarker_def list.pred_inject by (elim disjE) (simp_all add: foreign_special)
qed

lemma formatting_table: "isFormattingElement e \<Longrightarrow> \<not> hasLocalName e (ustr ''table'')"
  by (auto simp: isFormattingElement_def formattingNames_def hasLocalName_def hasQName_def)

lemma html_not_formatting: "hasTagName e ''html'' \<Longrightarrow> \<not> isFormattingElement e"
  by (auto simp: isFormattingElement_def formattingNames_def hasQName_def)

lemma bookmarkFor_ok:
  assumes "Some fe \<in> set (siteEntries t)"
  obtains bm where "bookmarkFor fe (m_activeFormattingElements t) = Some bm" "bookmark_ok bm fe t"
proof -
  obtain i where "find_entry fe (m_activeFormattingElements t) = Some i" "i < length (siteEntries t)" "siteEntries t ! i = Some fe"
    using find_entry_Some [OF assms] .
  then show thesis using that by (simp add: bookmarkFor_def find_entry_def bookmark_ok_def)
qed

text \<open>The end of the round: the formatting element is replaced by a clone inside the furthest block.\<close>

lemma round_end:
  assumes inv: "inner_inv A fb P Q fr L t" and "bookmark_ok bm (m_element fr) t"
  obtains new t1 d t2 where
    "createHTMLElementFromElementRecord fr t = Some (new, t1)"
    "map_option (parserAddChild (nodeAddress (m_element fb)) (nodeAddress new))
       (takeAllChildrenFrom (nodeAddress new) (nodeAddress (m_element fb)) (m_dom t1)) = Some d"
    "m_openElements t1 = m_openElements t"
    "do { t2 \<leftarrow> onStack_option (remove_element (m_element fr)) (onList (swapTo (m_element fr) new bm) (t1\<lparr>m_dom := d\<rparr>));
          Some (onStack (insertAbove new (recordAddress fb)) t2) } = Some t2"
    "site_ok t2" "siteElements t2 = map m_element A @ new # map m_element ((fb # P) @ Q @ L)"
    "isFormattingElement new" "siteFrame t2 = siteFrame t" "m_form t2 = m_form t"
proof -
  note ok = inner_invD [OF inv]
  have ne: "siteElements t \<noteq> []" using ok(2) by simp
  obtain new t1 where c: "createHTMLElementFromElementRecord fr t = Some (new, t1)" "createdFrom t (nodeAddress new) t1"
    "leaf t1 (nodeAddress new)" "isNode t1 new" "namespaceURI new = XHTML" "localName new = localName (m_element fr)"
    "isFormattingElement new" "m_dom t1 = m_dom t"
    using clone_ok [OF ok(1) ne ok(6)] .
  note t1 = createdFromD [OF c(2)]
  have fresh: "\<not> isNode t new" using t1(7) by (simp add: isNode_def)
  have off: "new \<notin> set (siteElements t)" using site_okD(5) [OF ok(1)] fresh by blast
  have es: "siteElements t1 = map m_element A @ m_element fb # map m_element (P @ Q @ fr # L)" using ok(2) t1(2) by simp
  obtain d where d: "map_option (parserAddChild (nodeAddress (m_element fb)) (nodeAddress new))
      (takeAllChildrenFrom (nodeAddress new) (nodeAddress (m_element fb)) (m_dom t1)) = Some d"
    "site_ok (t1\<lparr>m_dom := d\<rparr>)" "\<forall>x \<in> set (map m_element A). notInside (t1\<lparr>m_dom := d\<rparr>) x new"
    "\<forall>y \<in> set (m_element fb # map m_element (P @ Q @ fr # L)). notInside (t1\<lparr>m_dom := d\<rparr>) new y"
    using adopt_children [OF t1(1) es c(4,3)] off t1(2) by auto
  have "Some new \<notin> set (siteEntries (t1\<lparr>m_dom := d\<rparr>))" using site_okD(9) [OF ok(1)] fresh t1(3) by auto
  moreover have "isNode (t1\<lparr>m_dom := d\<rparr>) new" using c(4) by (simp add: isNode_def)
  moreover have "bookmark_ok bm (m_element fr) (t1\<lparr>m_dom := d\<rparr>)" using assms(2) t1(3) by (simp add: bookmark_ok_def)
  ultimately have swap: "site_ok (onList (swapTo (m_element fr) new bm) (t1\<lparr>m_dom := d\<rparr>))"
    using swapTo_ok [OF d(2) _ c(7)] ok(7) t1(3) by simp
  let ?t = "onList (swapTo (m_element fr) new bm) (t1\<lparr>m_dom := d\<rparr>)"
  have top: "m_top (m_openElements ?t) = (A @ (fb # P) @ Q) @ fr # L" using ok(2) t1(2) by simp
  obtain t3 where t3: "onStack_option (remove_element (m_element fr)) ?t = Some t3" "restacked ?t ((A @ (fb # P) @ Q) @ L) t3"
    using remove_element_ok [OF swap top formattingElement_plain(2) [OF ok(6)]] .
  note t3' = restackedD [OF t3(2)]
  have top3: "m_top (m_openElements t3) = A @ fb # (P @ Q @ L)" using t3'(2) by simp
  have inside: "notInside t3 = notInside (t1\<lparr>m_dom := d\<rparr>)" using t3'(7) by (simp add: notInside_def fun_eq_iff)
  have node: "isNode t3 new" using t3'(8) \<open>isNode (t1\<lparr>m_dom := d\<rparr>) new\<close> by simp
  have off3: "new \<notin> set (siteElements t3)" using off ok(2) unfolding t3'(3) by auto
  have order: "\<forall>x \<in> m_element ` set A. notInside t3 x new" "\<forall>y \<in> m_element ` set (fb # (P @ Q @ L)). notInside t3 new y"
    using d(3,4) unfolding inside by auto
  have plain: "plainElement new" "tableIsHTML new"
    using formattingElement_plain(2) [OF c(7)] c(5) by (simp_all add: tableIsHTML_def)
  obtain es where ins: "insertAbove new (recordAddress fb) (m_openElements t3) = es"
    "elements es = map m_element A @ new # map m_element (fb # (P @ Q @ L))" "site_ok (t3\<lparr>m_openElements := es\<rparr>)"
    using insertAbove_site [OF t3'(1) top3 node plain off3 order] .
  have "siteFrame (t3\<lparr>m_openElements := es\<rparr>) = siteFrame t" "m_form (t3\<lparr>m_openElements := es\<rparr>) = m_form t"
    using t3'(5,6) t1(4,5) by (simp_all add: siteFrame_def onList_def)
  then show thesis
    using that [OF c(1) d(1) t1(2), of "t3\<lparr>m_openElements := es\<rparr>"] t3(1) ins c(7) by (simp add: onStack_def)
qed

text \<open>The round with a furthest block.\<close>

definition isTablePart :: "ustr \<Rightarrow> bool" where
  "isTablePart tag \<longleftrightarrow> tag = ustr ''table'' \<or> tag = ustr ''tr'' \<or> isTableBodyContextTag tag"

lemma round_block:
  assumes ok: "site_ok (m_tree s)" and top: "m_top (openElements s) = A @ fb # M @ fr # ca # L"
    and closest: "closestElementInScopeWithName (a_name token) (activeFormattingElements s) = Some (m_element fr)"
    and scope: "inScope_element (m_element fr) (openElements s)"
    and fmt: "isFormattingElement (m_element fr)" "Some (m_element fr) \<in> set (siteEntries (m_tree s))"
    and special: "isSpecialNode (m_element fb)" "\<forall>r \<in> set M. \<not> isSpecialNode (m_element r)"
    and plain: "\<forall>r \<in> set (A @ fb # M). plainElement (m_element r)"
  obtains t' where "adoption_round token s = Some (True, s\<lparr>m_tree := t'\<rparr>)" "site_ok t'"
    "adopted (siteElements (m_tree s)) (siteElements t')" "siteFrame t' = siteFrame (m_tree s)" "m_form t' = m_form (m_tree s)"
proof -
  let ?t = "m_tree s" and ?fe = "m_element fr"
  note addr = distinct_records [OF ok]
  have top': "m_top (openElements s) = (A @ fb # M) @ fr # (ca # L)" using top by simp
  have off: "?fe \<notin> set (map m_element (A @ fb # M))" using distinct_elements [OF ok] top by auto
  then have off_rec: "\<forall>r \<in> set (A @ fb # M). m_element r \<noteq> ?fe" by (metis image_eqI list.set_map)
  have contains: "contains_element ?fe (openElements s)" by (simp add: top)
  have found: "find_record ?fe (openElements s) = Some fr"
    using find_None_append [of "A @ fb # M" "\<lambda>r. m_element r = ?fe" "fr # ca # L"] off_rec by (simp add: find_record_def top)
  have block: "furthestBlockForFormattingElement ?fe s = (Some fb, s)"
    using furthestBlock_some [OF off_rec refl refl special, of None "ca # L"] by (simp add: furthestBlockForFormattingElement_def top)
  have "recordAddress fb \<notin> recordAddress ` set A" using addr top by auto
  then have "recordsBelow (recordAddress fb) (openElements s) = M @ fr # ca # L" by (rule recordsBelow_split [OF top])
  then have is_above: "isAbove (recordAddress fb) (recordAddress fr) (openElements s)" by (simp add: isAbove_def)
  have next_fr: "nextOf (recordAddress fr) s = Some (recordAddress ca)" using recordAt_split(2) [OF top' addr] by simp
  have at_ca: "recordAt (recordAddress ca) s = Some ca"
    using recordAt_split(1) [OF _ addr, of "A @ fb # M @ [fr]" ca L] top by simp
  have next_fb: "nextOf (recordAddress fb) s = Some (recordAddress (hd (M @ [fr])))"
    using recordAt_split(2) [OF top addr] by (cases M) simp_all
  obtain bm where bm: "bookmarkFor ?fe (activeFormattingElements s) = Some bm" "bookmark_ok bm ?fe ?t"
    using bookmarkFor_ok [OF fmt(2)] .
  have start: "inner_inv A fb [] M fr (ca # L) ?t" using ok top special(2) plain fmt by (simp add: inner_inv_def)
  obtain t1 P k bm1 where
    loop: "adoption_inner adoptionAgencyIterationLimit (recordAddress fr) (recordAddress fb) (nextOf (recordAddress fb) s)
        (recordAddress (last [fb])) bm s
      = Some ((recordAddress (last (fb # P)), bm1), s\<lparr>m_tree := t1\<rparr>)"
    and inv: "inner_inv A fb P (drop k M) fr (ca # L) t1" "bookmark_ok bm1 ?fe t1" "siteFrame t1 = siteFrame ?t" "m_form t1 = m_form ?t"
    unfolding next_fb by (rule inner_loop [OF start bm(2)])
  have one: "last [fb] = fb" by simp
  note loop = loop [unfolded one]
  note inv' = inner_invD [OF inv(1)]
  define l where "l = last (fb # P)"
  note loop = loop [folded l_def]
  define Z where "Z = drop k M @ fr # ca # L"
  have fbP: "fb # P = butlast (fb # P) @ [l]" by (simp add: l_def)
  then have top1: "m_top (m_openElements t1) = (A @ butlast (fb # P)) @ l # Z"
    using inv'(2) unfolding Z_def by (metis append.assoc append_Cons append_Nil)
  have at_l: "recordAt (recordAddress l) (s\<lparr>m_tree := t1\<rparr>) = Some l"
    using recordAt_split(1) [of "s\<lparr>m_tree := t1\<rparr>" "A @ butlast (fb # P)" l Z] top1 distinct_records [OF inv'(1)] by simp
  have es1: "siteElements t1 = map m_element (A @ butlast (fb # P)) @ m_element l # map m_element (drop k M @ [fr]) @ map m_element (ca # L)"
    using top1 by (simp add: Z_def)
  have split1: "m_top (m_openElements t1) = (A @ (fb # P) @ drop k M @ [fr]) @ ca # L" using inv'(2) by simp
  have noScope: "\<forall>e \<in> set (map m_element (A @ fb # M)). \<not> isScopeMarker e"
    using inScope_split [of ?t "map m_element (A @ fb # M)" ?fe "map m_element (ca # L)"] off scope top
    by (simp add: inScope_element_def)
  have noTable: "\<forall>r \<in> set (A @ (fb # P) @ drop k M @ [fr]). \<not> hasLocalName (m_element r) (ustr ''table'')"
  proof
    fix r assume r: "r \<in> set (A @ (fb # P) @ drop k M @ [fr])"
    show "\<not> hasLocalName (m_element r) (ustr ''table'')"
    proof (cases "r \<in> set P \<or> r = fr")
      case True
      then show ?thesis using inv'(3,6) formatting_table by blast
    next
      case False
      then have r': "r \<in> set (A @ fb # M)" using r by (auto dest: in_set_dropD)
      then have "m_element r \<in> set (siteElements ?t)" by (auto simp: top)
      then have "tableIsHTML (m_element r)" using site_okD(5) [OF ok] by blast
      then show ?thesis using noScope r' table_scope by force
    qed
  qed
  let ?foster = "isTablePart (localName (m_element ca))"
  obtain d where place: "(if ?foster then fosterParent (nodeAddress (m_element l)) (detached (nodeAddress (m_element l)) t1)
      else Some (onDom (parserAddChild (nodeAddress (m_element ca)) (nodeAddress (m_element l))) (detached (nodeAddress (m_element l)) t1)))
      = Some (t1\<lparr>m_dom := d\<rparr>)" "site_ok (t1\<lparr>m_dom := d\<rparr>)"
    using place_ok [OF inv'(1) es1 last_plain [OF inv(1), folded l_def] split1 noTable] .
  let ?t2 = "t1\<lparr>m_dom := d\<rparr>"
  have inv2: "inner_inv A fb P (drop k M) fr (ca # L) ?t2" "bookmark_ok bm1 ?fe ?t2"
    using inv(1,2) place(2) by (simp_all add: inner_inv_def bookmark_ok_def)
  have addr2: "distinct (map recordAddress (m_top (openElements (s\<lparr>m_tree := ?t2\<rparr>))))" using distinct_records [OF inv'(1)] by simp
  have at_fr: "recordAt (recordAddress fr) (s\<lparr>m_tree := ?t2\<rparr>) = Some fr"
    using recordAt_split(1) [OF _ addr2, of "A @ (fb # P) @ drop k M" fr "ca # L"] inv'(2) by simp
  obtain new t3 d3 t4 where fin: "createHTMLElementFromElementRecord fr ?t2 = Some (new, t3)"
    "map_option (parserAddChild (nodeAddress (m_element fb)) (nodeAddress new))
       (takeAllChildrenFrom (nodeAddress new) (nodeAddress (m_element fb)) (m_dom t3)) = Some d3"
    "m_openElements t3 = m_openElements ?t2"
    "do { t2 \<leftarrow> onStack_option (remove_element ?fe) (onList (swapTo ?fe new bm1) (t3\<lparr>m_dom := d3\<rparr>));
          Some (onStack (insertAbove new (recordAddress fb)) t2) } = Some t4"
    "site_ok t4" "siteElements t4 = map m_element A @ new # map m_element ((fb # P) @ drop k M @ ca # L)"
    "isFormattingElement new" "siteFrame t4 = siteFrame ?t2" "m_form t4 = m_form ?t2"
    using round_end [OF inv2] .
  have addr3: "distinct (map recordAddress (m_top (openElements (s\<lparr>m_tree := t3\<rparr>))))" using fin(3) addr2 by simp
  have at_fb: "recordAt (recordAddress fb) (s\<lparr>m_tree := t3\<rparr>) = Some fb"
    using recordAt_split(1) [OF _ addr3, of A fb "P @ drop k M @ fr # ca # L"] inv'(2) fin(3) by simp
  obtain d' where d': "takeAllChildrenFrom (nodeAddress new) (nodeAddress (m_element fb)) (m_dom t3) = Some d'"
    "d3 = parserAddChild (nodeAddress (m_element fb)) (nodeAddress new) d'"
    using fin(2) by auto
  obtain t5 where t5: "onStack_option (remove_element ?fe) (onList (swapTo ?fe new bm1) (t3\<lparr>m_dom := d3\<rparr>)) = Some t5"
    "t4 = onStack (insertAbove new (recordAddress fb)) t5"
    using fin(4) by (auto simp: bind_eq_Some_conv)
  then obtain z where z: "remove_element ?fe (m_openElements t3) = Some z"
    "t5 = (onList (swapTo ?fe new bm1) (t3\<lparr>m_dom := d3\<rparr>))\<lparr>m_openElements := z\<rparr>"
    by (auto simp: onStack_option_def)
  define put where "put n c t = (if ?foster then fosterParent n t else Some (onDom (parserAddChild c n) t))" for n c t
  have step: "(if ?foster then onTree (fosterParent n) s' else Some (addChild c n s')) = map_option (\<lambda>t. s'\<lparr>m_tree := t\<rparr>) (put n c (m_tree s'))" for c n s'
    by (simp add: onTree_def addChild_def put_def)
  have "adoption_round token s = Some (True, s\<lparr>m_tree := t4\<rparr>)"
    unfolding adoption_round_def isTablePart_def [symmetric] Let_def
    using closest scope found block is_above next_fr at_ca bm(1) loop at_l place(1) [folded put_def] at_fr fin(1) at_fb d' t5(2) z
    by (simp add: step detachFromParent_eq l_def [symmetric] ASSERT_builder_def createOnTree_def onTree_def onOpenElements_def
        onStack_option_def addChild_def onDom_def onFormattingElements_def onList_def onStack_def
        del: contains_element_iff add: contains)
  moreover have "adopted (siteElements ?t) (siteElements t4)"
  proof -
    have "skeleton (map m_element (A @ fb # M @ [fr])) = skeleton (map m_element (A @ [fb])) @ skeleton (map m_element M)"
      using formattingElement_nonspecial [OF fmt(1)] formattingElement_XHTML [OF fmt(1)] by simp
    moreover have "skeleton (map m_element A @ new # map m_element ((fb # P) @ drop k M))
        = skeleton (map m_element (A @ [fb])) @ skeleton (drop k (map m_element M))"
      using formattingElement_nonspecial [OF fin(7)] formattingElement_XHTML [OF fin(7)] skeleton_formatting [of "map m_element P"] fin(7) inv'(3)
      by (simp add: drop_map)
    ultimately show ?thesis
      unfolding adopted_def
    proof (intro exI conjI)
      show "siteElements ?t = map m_element (A @ fb # M @ [fr]) @ map m_element (ca # L)" by (simp add: top)
      show "siteElements t4 = (map m_element A @ new # map m_element ((fb # P) @ drop k M)) @ map m_element (ca # L)"
        by (simp add: fin(6))
      have "isFormattingElement (last (map m_element (A @ fb # M @ [fr])))" using fmt(1) by (simp add: last_map)
      then show "map m_element (A @ fb # M @ [fr]) = map m_element A @ new # map m_element ((fb # P) @ drop k M)
          \<or> map m_element (A @ fb # M @ [fr]) \<noteq> [] \<and> isFormattingElement (last (map m_element (A @ fb # M @ [fr])))" by simp
      show "skeleton (map m_element (A @ fb # M @ [fr])) = skeleton (map m_element (A @ [fb])) @ skeleton (map m_element M)" by fact
      show "skeleton (map m_element A @ new # map m_element ((fb # P) @ drop k M))
        = skeleton (map m_element (A @ [fb])) @ drop (length (skeleton (take k (map m_element M)))) (skeleton (map m_element M))"
        using \<open>skeleton (map m_element A @ new # _) = _\<close> skeleton_drop [of k "map m_element M"] by simp
      show "\<forall>e \<in> set (map m_element (A @ fb # M @ [fr])). \<not> isScopeMarker e"
        using noScope scope_special formattingElement_nonspecial [OF fmt(1)] by auto
      show "\<forall>e \<in> set (map m_element (A @ fb # M @ [fr])) \<union> set (map m_element A @ new # map m_element ((fb # P) @ drop k M)). plainElement e"
        using plain fmt(1) fin(7) inv'(3) formattingElement_plain(2) by (auto dest: in_set_dropD)
      show "\<forall>e \<in> set (skeleton (map m_element M)). \<not> isSpecialNode e" using special(2) by (auto simp: skeleton_def)
    qed
  qed
  ultimately show thesis using that fin(5,8,9) inv(3,4) by (simp add: siteFrame_def)
qed

section \<open>The algorithm\<close>

definition adopts :: "treeBuilder \<Rightarrow> treeBuilder \<Rightarrow> bool" where
  "adopts s s' \<longleftrightarrow> (\<exists>t. s' = s\<lparr>m_tree := t\<rparr> \<and> site_ok t \<and> adopted\<^sup>*\<^sup>* (siteElements (m_tree s)) (siteElements t)
     \<and> siteFrame t = siteFrame (m_tree s) \<and> m_form t = m_form (m_tree s))"

lemma adoptsI:
  "site_ok t \<Longrightarrow> adopted (siteElements (m_tree s)) (siteElements t) \<Longrightarrow> siteFrame t = siteFrame (m_tree s) \<Longrightarrow>
   m_form t = m_form (m_tree s) \<Longrightarrow> adopts s (s\<lparr>m_tree := t\<rparr>)"
  unfolding adopts_def by blast

lemma adopts_refl: "site_ok (m_tree s) \<Longrightarrow> adopts s s"
  using adoptsI [of "m_tree s" s] adopted_refl by simp

lemma adopts_trans: "adopts s s1 \<Longrightarrow> adopts s1 s2 \<Longrightarrow> adopts s s2"
  unfolding adopts_def by (auto intro: rtranclp_trans)

lemma guarded_star: "adopted\<^sup>*\<^sup>* es es' \<Longrightarrow> guarded es \<Longrightarrow> guarded es'"
  by (induction rule: rtranclp_induct) (auto intro: guarded_adopted)

lemma popped_formatting:
  assumes "site_ok (m_tree s)" "m_top (openElements s) = U @ fr # L" "\<forall>r \<in> set U. \<not> isSpecialNode (m_element r)"
    and "isFormattingElement (m_element fr)" "\<forall>e \<in> set (map m_element U). \<not> isScopeMarker e"
  obtains t where "onOpenElements (popUntilPopped_element (m_element fr)) s = Some (s\<lparr>m_tree := t\<rparr>)"
    "adopts s (onFormattingElements (remove_entry e) (s\<lparr>m_tree := t\<rparr>))"
proof -
  let ?t = "m_tree s" and ?fe = "m_element fr"
  have off: "\<forall>r \<in> set U. m_element r \<noteq> ?fe"
    using distinct_elements [OF assms(1)] by (auto simp: assms(2)) (metis image_eqI)
  have plain: "\<forall>r \<in> set U. m_element r \<noteq> ?fe \<and> plainElement (m_element r)" using off assms(3) nonspecial_plain by blast
  obtain t where t: "onStack_option (\<lambda>es. do { es \<leftarrow> popLoop (\<lambda>x. x = ?fe) es; pop_element es }) ?t = Some t" "restacked ?t L t"
    using popPast_ok [OF assms(1,2) refl plain formattingElement_plain(2) [OF assms(4)]] .
  have "popUntilPopped_element ?fe = (\<lambda>es. do { es \<leftarrow> popLoop (\<lambda>x. x = ?fe) es; pop_element es })"
    by (simp add: popUntilPopped_element_def popUntil_element_def fun_eq_iff)
  then have run: "onOpenElements (popUntilPopped_element ?fe) s = Some (s\<lparr>m_tree := t\<rparr>)"
    using t(1) by (simp add: onOpenElements_def onTree_def)
  note t' = restackedD [OF t(2)]
  let ?t2 = "onList (remove_entry e) t"
  have skel: "skeleton (map m_element (U @ [fr])) = skeleton (map m_element U)"
    using formattingElement_nonspecial [OF assms(4)] formattingElement_XHTML [OF assms(4)] by simp
  have "adopted (siteElements ?t) (siteElements ?t2)"
    unfolding adopted_def
  proof (intro exI conjI)
    show "siteElements ?t = map m_element (U @ [fr]) @ map m_element L" "siteElements ?t2 = [] @ map m_element L"
      by (simp_all add: assms(2) t'(3))
    show "map m_element (U @ [fr]) = [] \<or> map m_element (U @ [fr]) \<noteq> [] \<and> isFormattingElement (last (map m_element (U @ [fr])))"
      using assms(4) by simp
    show "\<forall>e \<in> set (map m_element (U @ [fr])). \<not> isScopeMarker e"
      using assms(5) scope_special formattingElement_nonspecial [OF assms(4)] by auto
    show "\<forall>e \<in> set (map m_element (U @ [fr])) \<union> set []. plainElement e"
      using plain formattingElement_plain(2) [OF assms(4)] by auto
    show "skeleton (map m_element (U @ [fr])) = [] @ skeleton (map m_element U)" using skel by simp
    show "skeleton [] = [] @ drop (length (skeleton (map m_element U))) (skeleton (map m_element U))" by simp
    show "\<forall>e \<in> set (skeleton (map m_element U)). \<not> isSpecialNode e" using assms(3) by (auto simp: skeleton_def)
  qed
  then have "adopts s (s\<lparr>m_tree := ?t2\<rparr>)"
    using remove_entry_ok [OF t'(1)] t'(5,6) by (intro adoptsI) (simp_all add: siteFrame_def onList_def)
  then show thesis using that run by (simp add: onFormattingElements_def)
qed

lemma round_ok:
  assumes ok: "site_ok (m_tree s)" and "guarded (siteElements (m_tree s))"
  obtains more s' where "adoption_round token s = Some (more, s')" "adopts s s'"
proof -
  let ?t = "m_tree s"
  show thesis
  proof (cases "closestElementInScopeWithName (a_name token) (activeFormattingElements s)")
    case None
    then show thesis using that [of False s] adopts_refl [OF ok] by (simp add: adoption_round_def)
  next
    case closest: (Some fe)
    then have entry: "Some fe \<in> set (siteEntries ?t)" by (auto simp: closest_Some_iff)
    then have fmt: "isFormattingElement fe" using site_okD(9) [OF ok] by blast
    show thesis
    proof (cases "fe \<in> set (siteElements ?t)")
      case False
      then have "find_record fe (openElements s) = None" by (auto simp: find_record_def find_None_iff)
      moreover have "adopts s (s\<lparr>m_tree := onList (remove_entry fe) ?t\<rparr>)"
        using remove_entry_ok [OF ok, of fe] adopted_refl by (intro adoptsI) simp_all
      ultimately show thesis
        using that False closest by (simp add: adoption_round_def onFormattingElements_def)
    next
      case open_fe: True
      then obtain U fr Z where top: "m_top (openElements s) = U @ fr # Z" "m_element fr = fe"
        by (auto simp: in_set_conv_decomp)
      have ne: "siteElements ?t \<noteq> []" by (simp add: top)
      then have "Z \<noteq> []" using html_last [OF ok] fmt top(2) html_not_formatting by (auto simp: top(1))
      then obtain ca L where Z: "Z = ca # L" by (cases Z) auto
      show thesis
      proof (cases "inScope_element fe (openElements s)")
        case False
        then show thesis using that [of False s] adopts_refl [OF ok] closest open_fe by (simp add: adoption_round_def)
      next
        case scope: True
        have "fe \<notin> set (map m_element U)" using distinct_elements [OF ok] top by auto
        then have noScope: "\<forall>e \<in> set (map m_element U). \<not> isScopeMarker e"
          using inScope_split [of ?t "map m_element U" fe "map m_element Z"] scope top by (simp add: inScope_element_def)
        have off: "\<forall>r \<in> set U. m_element r \<noteq> fe" using \<open>fe \<notin> _\<close> by auto
        consider "\<forall>r \<in> set U. \<not> isSpecialNode (m_element r)"
          | A fb M where "U = A @ fb # M" "isSpecialNode (m_element fb)" "\<forall>r \<in> set M. \<not> isSpecialNode (m_element r)"
          using last_special_split [of U "\<lambda>r. isSpecialNode (m_element r)"] by blast
        then show thesis
        proof cases
          case 1
          have fr: "isFormattingElement (m_element fr)" using fmt top(2) by simp
          obtain t where t: "onOpenElements (popUntilPopped_element fe) s = Some (s\<lparr>m_tree := t\<rparr>)"
            "adopts s (onFormattingElements (remove_entry fe) (s\<lparr>m_tree := t\<rparr>))"
            using popped_formatting [OF ok top(1) 1 fr noScope, of fe] top(2) by auto
          have "find_record fe (openElements s) = Some fr"
            using find_None_append [of U "\<lambda>r. m_element r = fe" "fr # Z"] off top by (simp add: find_record_def)
          moreover have "furthestBlockForFormattingElement fe s = (None, s)"
            using furthestBlock_none [of U fe fr None Z] off 1 top by (simp add: furthestBlockForFormattingElement_def)
          ultimately show thesis
            using that [of False] t closest scope by (simp add: adoption_round_def)
        next
          case 2
          have top2: "m_top (openElements s) = A @ fb # M @ fr # ca # L" using top(1) 2(1) Z by simp
          have "\<forall>r \<in> set (A @ fb # M). plainElement (m_element r)"
            using assms(2) fmt top by (auto simp: guarded_def sorted_wrt_append 2(1))
          then obtain t' where "adoption_round token s = Some (True, s\<lparr>m_tree := t'\<rparr>)" "site_ok t'"
            "adopted (siteElements ?t) (siteElements t')" "siteFrame t' = siteFrame ?t" "m_form t' = m_form ?t"
            using round_block [OF ok top2, of token] closest scope fmt entry 2(2,3) top(2) by auto
          then show thesis using that adoptsI by blast
        qed
      qed
    qed
  qed
qed

lemma adoption_loop_ok:
  assumes "site_ok (m_tree s)" "guarded (siteElements (m_tree s))"
  obtains s' where "adoption_loop i token s = Some s'" "adopts s s'"
  using assms
proof (induction i arbitrary: s thesis)
  case 0
  then show ?case using adopts_refl by simp
next
  case (Suc i)
  obtain more s1 where s1: "adoption_round token s = Some (more, s1)" "adopts s s1"
    using round_ok [OF Suc.prems(2,3)] .
  then have s1': "site_ok (m_tree s1)" "guarded (siteElements (m_tree s1))"
    using guarded_star Suc.prems(3) by (auto simp: adopts_def)
  obtain s2 where "adoption_loop i token s1 = Some s2" "adopts s1 s2" using Suc.IH [OF _ s1'] .
  then show ?case
    using Suc.prems(1) [of "if more then s2 else s1"] s1 adopts_trans by (cases more) simp_all
qed

lemma callTheAdoptionAgency_ok:
  assumes "site_ok (m_tree s)" "guarded (siteElements (m_tree s))"
  obtains s' where "callTheAdoptionAgency token s = Some s'" "adopts s s'"
  using adoption_loop_ok [OF assms] unfolding callTheAdoptionAgency_def by blast

end
