(* ===== verification/HTMLConstructionSiteProperties.thy ===== *)
theory HTMLConstructionSiteProperties
  imports HTMLAdoptionAgency
begin

text \<open>
  What the construction site promises: text arrives in one node however it is cut into tokens, the formatting
  elements that are closed are opened again, merging keeps the attributes that are there, scripting is removed
  where it is not allowed, and the adoption agency always returns.
\<close>

section \<open>Text\<close>

lemma previousChild_attachAtSite:
  assumes "\<And>nx. siteNextChild st = Some nx \<Longrightarrow> parentNode (links (m_dom s) nx) = Some (siteParent st)" "siteNextChild st \<noteq> Some n"
  shows "previousChild st (attachAtSite st n s) = Some n"
proof (cases "siteNextChild st")
  case None
  then show ?thesis
    by (simp add: previousChild_def attachAtSite_def onDom_def parserAddChild_def appendChildToContainer_def setLastChild_def
        updNode_def Let_def)
next
  case (Some nx)
  then have "parentNode (links (m_dom s) nx) = Some (siteParent st)" using assms(1) by simp
  moreover have "nx \<noteq> n" using Some assms(2) by simp
  ultimately show ?thesis
    using Some
    by (simp add: previousChild_def attachAtSite_def onDom_def parserInsertBefore_def insertBeforeCommon_def
        setNextSibling_def setPreviousSibling_def setParent_def setFirstChild_def updNode_def ASSERT_dom_def Let_def
        split: option.split)
qed

lemma parent_setters [simp]:
  "parentNode (links (setNextSibling m v d) x) = parentNode (links d x)"
  "parentNode (links (setPreviousSibling m v d) x) = parentNode (links d x)"
  "parentNode (links (setFirstChild m v d) x) = parentNode (links d x)"
  "parentNode (links (setLastChild m v d) x) = parentNode (links d x)"
  "parentNode (links (setParent m p d) x) = (if x = m then p else parentNode (links d x))"
  "links (ASSERT_dom b d) = links d"
  by (simp_all add: setNextSibling_def setPreviousSibling_def setParent_def setFirstChild_def setLastChild_def updNode_def
      ASSERT_dom_def)

lemma parent_attachAtSite:
  assumes "x \<noteq> n"
  shows "parentNode (links (m_dom (attachAtSite st n s)) x) = parentNode (links (m_dom s) x)"
proof -
  have "parentNode (links (parserAddChild p n d) x) = parentNode (links d x)" for p d
    using assms by (simp add: parserAddChild_def appendChildToContainer_def Let_def split: option.split)
  moreover have "parentNode (links (parserInsertBefore p n nx d) x) = parentNode (links d x)" for p nx d
    using assms by (simp add: parserInsertBefore_def insertBeforeCommon_def Let_def split: option.split)
  ultimately show ?thesis by (simp add: attachAtSite_def onDom_def split: option.split)
qed

lemma attachAtSite_simps [simp]:
  "m_openElements (attachAtSite st n s) = m_openElements s" "nodeData (attachAtSite st n s) = nodeData s"
  "m_redirectAttachToFosterParent (attachAtSite st n s) = m_redirectAttachToFosterParent s"
  by (simp_all add: attachAtSite_def onDom_def split: option.split)

lemma textSite_cong:
  assumes "m_openElements s' = m_openElements s" "m_redirectAttachToFosterParent s' = m_redirectAttachToFosterParent s"
    and "\<And>e. e \<in> set (siteElements s) \<Longrightarrow> parentNode (links (m_dom s') (nodeAddress e)) = parentNode (links (m_dom s) (nodeAddress e))"
  shows "textSite s' = textSite s"
proof -
  have "findFosterSite s' = findFosterSite s"
  proof (cases "topmost (ustr ''table'') (m_openElements s)")
    case (Some r)
    then have "m_element r \<in> set (siteElements s)"
      by (auto simp: topmost_def find_Some_iff)
    then show ?thesis using assms(3) Some by (simp add: findFosterSite_def assms(1) split: option.split)
  qed (simp add: findFosterSite_def assms(1))
  then show ?thesis
    by (simp add: textSite_def shouldFosterParent_def currentElement_def assms(1,2) cong: if_cong)
qed

lemma nodeData_onDom: "attachAtSite st n (s\<lparr>nodeData := nd\<rparr>) = (attachAtSite st n s)\<lparr>nodeData := nd\<rparr>"
  by (simp add: attachAtSite_def onDom_def split: option.split)

lemma addTextAt_addTextAt:
  assumes "site_ok s" "siteElements s \<noteq> []" "textSite s = Some st" "validSite s st"
  shows "textSite (addTextAt st a s) = Some st \<and> addTextAt st b (addTextAt st a s) = addTextAt st (a @ b) s"
proof -
  let ?n = "freshNode s"
  let ?s1 = "snd (createNode (TextNode a) s)"
  have nodes: "nodes_ok s" using site_okD(1) [OF assms(1)] .
  have next_n: "siteNextChild st \<noteq> Some ?n"
  proof
    assume "siteNextChild st = Some ?n"
    then have "(?n, siteParent st) \<in> childOf (m_dom s)" using assms(4) by (simp add: validSite_def childOf_def)
    then show False using nodes_okD(5) [OF nodes] nodes_okD(2) [OF nodes, of ?n] by blast
  qed
  have old: "nodeAddress e \<noteq> ?n" if "e \<in> set (siteElements s)" for e
    using site_okD(5) [OF assms(1) that] isNode_fresh(1) [OF nodes] by fastforce
  define new where "new t = attachAtSite st ?n (snd (createNode (TextNode t) s))" for t
  have site1: "textSite (new t) = Some st" for t
    using textSite_cong [of "new t" s] old assms(3) by (simp add: createNode_def parent_attachAtSite new_def)
  have prev1: "previousChild st (new t) = Some ?n" for t
    using previousChild_attachAtSite [of st "snd (createNode (TextNode t) s)" ?n] next_n assms(4)
    by (simp add: validSite_def createNode_def new_def)
  have data1: "nodeData (new t) = (nodeData s)(?n \<mapsto> TextNode t)"
    "(new t)\<lparr>nodeData := (nodeData s)(?n \<mapsto> TextNode t')\<rparr> = new t'" for t t'
    by (cases s; simp add: new_def createNode_def flip: nodeData_onDom)+
  have again: "addTextAt st b (new a) = new (a @ b)"
    using prev1 [of a] by (simp add: addTextAt_def data1)
  show "textSite (addTextAt st a s) = Some st \<and> addTextAt st b (addTextAt st a s) = addTextAt st (a @ b) s"
  proof (cases "previousChild st s")
    case None
    then have "addTextAt st t s = new t" for t by (simp add: addTextAt_def new_def createNode_def)
    then show ?thesis using site1 again by simp
  next
    case (Some p)
    show ?thesis
    proof (cases "\<exists>t. nodeData s p = Some (TextNode t)")
      case True
      then obtain t where t: "nodeData s p = Some (TextNode t)" ..
      then have eq: "addTextAt st u s = s\<lparr>nodeData := (nodeData s)(p \<mapsto> TextNode (t @ u))\<rparr>" for u
        using Some by (simp add: addTextAt_def)
      have "textSite (s\<lparr>nodeData := d\<rparr>) = textSite s" for d by (rule textSite_cong) simp_all
      moreover have "previousChild st (s\<lparr>nodeData := d\<rparr>) = Some p" for d using Some by (simp add: previousChild_def split: option.split_asm)
      ultimately show ?thesis using assms(3) unfolding eq by (simp add: addTextAt_def)
    next
      case False
      then have "addTextAt st u s = new u" for u
        using Some by (auto simp: addTextAt_def new_def createNode_def Let_def split: option.split nodeData.split)
      then show ?thesis using site1 again by simp
    qed
  qed
qed

text \<open>C15: Text arrives the same however it is cut into character tokens: inserting one string and then another
  is inserting their concatenation, also where the text goes to the foster parent.\<close>

theorem insertTextNode_append:
  assumes "site_ok s" "siteElements s \<noteq> []"
  shows "Option.bind (insertTextNode a s) (insertTextNode b) = insertTextNode (a @ b) s"
proof -
  obtain st where "textSite s = Some st" "validSite s st" using textSite_ok [OF assms] .
  then show ?thesis using addTextAt_addTextAt [OF assms] by (simp add: insertTextNode_eq)
qed

text \<open>The site after \<open><b><p>\<close>.\<close>

definition misnested :: "constructionSite option" where
  "misnested =
     do { s \<leftarrow> insertHTMLHtmlStartTagBeforeHTML (fakeToken StartTag (ustr ''html'') None)
            (newConstructionSite FragmentScriptingAllowed False);
          s \<leftarrow> insertHTMLBodyElement (fakeToken StartTag (ustr ''body'') None) s;
          s \<leftarrow> insertFormattingElement (fakeToken StartTag (ustr ''b'') None) s;
          insertHTMLElement (fakeToken StartTag (ustr ''p'') None) s }"

lemma misnested_ok:
  obtains s p b body html where "misnested = Some s" "site_ok s" "siteElements s = [p, b, body, html]"
    "hasTagName p ''p''" "hasTagName b ''b''" "hasTagName body ''body''" "hasTagName html ''html''"
    "siteEntries s = [Some b]"
proof -
  let ?t = "\<lambda>n. fakeToken StartTag (ustr n) None"
  let ?s = "newConstructionSite FragmentScriptingAllowed False"
  have new: "siteElements ?s = []" "notFostering ?s" "m_activeFormattingElements ?s = emptyFormattingList"
    by (simp_all add: newConstructionSite_def emptyElementStack_def notFostering_def)
  have names: "a_name (?t n) = ustr n" for n by (simp add: fakeToken_def)
  obtain html s1 where s1: "insertHTMLHtmlStartTagBeforeHTML (?t ''html'') ?s = Some s1" "opened ?s XHTML (ustr ''html'') html s1"
    using insertHTMLHtmlStartTagBeforeHTML_ok [OF newConstructionSite_ok new(1,2)] .
  note o1 = openedD [OF s1(2)]
  have n1: "notFostering s1" using o1(8) new(2) by (simp add: notFostering_def siteFrame_def)
  have "\<forall>e \<in> set (siteElements s1). \<not> hasTagName e ''body''" using o1(2-4) new(1) by (simp add: hasQName_def)
  then obtain body s2 where s2: "insertHTMLBodyElement (?t ''body'') s1 = Some s2" "opened s1 XHTML (ustr ''body'') body s2"
    using insertHTMLBodyElement_ok [OF o1(1,10)] n1 names by metis
  note o2 = openedD [OF s2(2)]
  have "list_ex (\<lambda>n. a_name (?t ''b'') = ustr n) formattingNames" by (simp add: names formattingNames_def)
  then obtain b s3 where s3: "insertFormattingElement (?t ''b'') s2 = Some s3" "site_ok s3" "siteElements s3 = b # siteElements s2"
    "namespaceURI b = XHTML" "localName b = a_name (?t ''b'')" "siteEntries s3 = siteEntries s2 @ [Some b]"
    using insertFormattingElement_ok [OF o2(1,10)] by metis
  have "isPlainTag XHTML (a_name (?t ''p''))" by (simp add: isPlainTag_def names)
  then obtain p s4 where s4: "insertHTMLElement (?t ''p'') s3 = Some s4" "opened s3 XHTML (a_name (?t ''p'')) p s4"
    using insertHTMLElement_ok [OF s3(2)] s3(3) by (metis list.distinct(1))
  note o4 = openedD [OF s4(2)]
  have "misnested = Some s4" using s1(1) s2(1) s3(1) s4(1) by (simp add: misnested_def)
  moreover have "siteElements s4 = [p, b, body, html]" using o1(2) o2(2) s3(3) o4(2) new(1) by simp
  moreover have "siteEntries s4 = [Some b]" using o1(7) o2(7) s3(6) o4(7) new(3) by (simp add: emptyFormattingList_def)
  ultimately show thesis using that [of s4 p b body html] o1(3,4) o2(3,4) s3(4,5) o4(1,3,4) by (simp add: hasQName_def names)
qed

theorem insertTextNode_append_witness:
  "\<exists>s. misnested = Some s \<and>
     Option.bind (insertTextNode (ustr ''x'') s) (insertTextNode (ustr ''y'')) = insertTextNode (ustr ''x'' @ ustr ''y'') s"
proof -
  obtain s p b body html where s: "misnested = Some s" "site_ok s" "siteElements s = [p, b, body, html]"
    using misnested_ok .
  then show ?thesis using insertTextNode_append [OF s(2), of "ustr ''x''" "ustr ''y''"] by auto
qed

section \<open>Formatting elements\<close>

text \<open>C14: Reconstruction opens again, in their order, exactly the formatting elements after the last one that is
  open or a marker: every one gets a new element of its name on the stack and in its place in the list, and
  afterwards the last entry is a marker or open.\<close>

theorem reconstruct_reopens:
  assumes "site_ok s" "siteElements s \<noteq> []"
  shows "\<exists>s' xs es news. reconstructTheActiveFormattingElements s = Some s' \<and> site_ok s'
    \<and> siteEntries s = xs @ map Some es \<and> (\<forall>e. e \<in> set es \<longrightarrow> e \<notin> set (siteElements s))
    \<and> (xs = [] \<or> last xs \<in> insert None (Some ` set (siteElements s)))
    \<and> siteElements s' = rev news @ siteElements s \<and> siteEntries s' = xs @ map Some news
    \<and> map localName news = map localName es \<and> namespaceURI ` set news \<subseteq> {XHTML}"
proof -
  obtain s' xs es news where r: "reconstructTheActiveFormattingElements s = Some s'" "site_ok s'"
    "siteEntries s = xs @ map Some es" "\<forall>e \<in> set es. e \<notin> set (siteElements s)"
    "xs = [] \<or> (\<forall>e. last xs = Some e \<longrightarrow> e \<in> set (siteElements s))"
    "siteElements s' = rev news @ siteElements s" "siteEntries s' = xs @ map Some news"
    "map localName news = map localName es" "\<forall>e \<in> set news. namespaceURI e = XHTML"
    using reconstruct_ok [OF assms] by metis
  have "xs = [] \<or> last xs \<in> insert None (Some ` set (siteElements s))" using r(5) by (cases "last xs") auto
  moreover have "namespaceURI ` set news \<subseteq> {XHTML}" using r(9) by auto
  ultimately show ?thesis using r(1-4,6-8) by blast
qed

theorem reconstruct_reopens_witness:
  "\<exists>s s' xs es news. misnested = Some s \<and> reconstructTheActiveFormattingElements s = Some s' \<and> site_ok s'
    \<and> siteEntries s = xs @ map Some es \<and> siteElements s' = rev news @ siteElements s
    \<and> siteEntries s' = xs @ map Some news"
proof -
  obtain s p b body html where s: "misnested = Some s" "site_ok s" "siteElements s = [p, b, body, html]"
    using misnested_ok .
  then show ?thesis using reconstruct_reopens [OF s(2)] by fastforce
qed

text \<open>C13: On every state that keeps the invariant the adoption agency returns: it follows no null pointer, finds
  every record and bookmark it looks up, fails no assertion, keeps the invariant of the site (the document stays a
  forest) and changes the stack only above the formatting element, losing no special element.\<close>

theorem adoption_agency_safe:
  assumes "site_ok (m_tree s)" "guarded (siteElements (m_tree s))"
  shows "\<exists>t. callTheAdoptionAgency token s = Some (s\<lparr>m_tree := t\<rparr>) \<and> site_ok t
    \<and> adopted\<^sup>*\<^sup>* (siteElements (m_tree s)) (siteElements t) \<and> siteFrame t = siteFrame (m_tree s) \<and> m_form t = m_form (m_tree s)"
proof -
  obtain s' where "callTheAdoptionAgency token s = Some s'" "adopts s s'"
    using callTheAdoptionAgency_ok [OF assms] .
  then show ?thesis unfolding adopts_def by blast
qed

theorem adoption_agency_safe_witness:
  "\<exists>t t'. misnested = Some t
    \<and> callTheAdoptionAgency (fakeEnd ''b'') ((newTreeBuilder (newTokenizer False))\<lparr>m_tree := t\<rparr>)
        = Some ((newTreeBuilder (newTokenizer False))\<lparr>m_tree := t'\<rparr>)
    \<and> site_ok t' \<and> adopted\<^sup>*\<^sup>* (siteElements t) (siteElements t')"
proof -
  let ?b = "newTreeBuilder (newTokenizer False)"
  obtain t p b body html where t: "misnested = Some t" "site_ok t" "siteElements t = [p, b, body, html]"
    "hasTagName p ''p''" "hasTagName b ''b''" "hasTagName body ''body''" "hasTagName html ''html''"
    using misnested_ok .
  have "isFormattingElement body = False" "isFormattingElement html = False"
    using t(6,7) by (auto simp: isFormattingElement_def formattingNames_def hasQName_def)
  moreover have "plainElement p" using t(4) by (simp add: plainElement_def hasQName_def)
  ultimately have "guarded (siteElements t)" by (simp add: t(3) guarded_def)
  then show ?thesis using adoption_agency_safe [of "?b\<lparr>m_tree := t\<rparr>" "fakeEnd ''b''"] t(1,2) by auto
qed

section \<open>Attributes\<close>

definition attributesOf :: "element \<Rightarrow> constructionSite \<Rightarrow> attributeMap" where
  "attributesOf e s = (case attributeMaps s (nodeAddress e) of None \<Rightarrow> [] | Some m \<Rightarrow> m)"

lemma getAttributeItem_append:
  "getAttributeItem n (m @ m') = (case getAttributeItem n m of None \<Rightarrow> getAttributeItem n m' | Some a \<Rightarrow> Some a)"
  unfolding getAttributeItem_def by (induction m) auto

lemma setAttribute_absent:
  "getAttributeItem n m = None \<Longrightarrow> setAttribute_list n v m = m @ [(n, v)]"
  by (induction m) (auto simp: getAttributeItem_def split: if_splits)

lemma qn_matches_cong: "qn_matches k n \<Longrightarrow> qn_matches k' n \<longleftrightarrow> qn_matches k' k"
  by (auto simp: qn_matches_def)

lemma merged_item:
  "getAttributeItem n (fold (\<lambda>(n, v) m. if getAttributeItem n m = None then setAttribute_list n v m else m) new old)
    = (case getAttributeItem n old of None \<Rightarrow> getAttributeItem n new | Some a \<Rightarrow> Some a)"
proof (induction new arbitrary: old)
  case (Cons a new)
  obtain k v where a: "a = (k, v)" by (cases a)
  have single: "getAttributeItem n [(k, v)] = (if qn_matches k n then Some (k, v) else None)"
    and head: "getAttributeItem n (a # new) = (if qn_matches k n then Some (k, v) else getAttributeItem n new)"
    by (simp_all add: getAttributeItem_def a)
  have same: "getAttributeItem k m = getAttributeItem n m" if "qn_matches k n" for m
    using qn_matches_cong [OF that] by (simp add: getAttributeItem_def)
  show ?case
    using Cons.IH same
    by (auto simp: a setAttribute_absent getAttributeItem_append single head [unfolded a] split: option.splits)
qed (simp add: getAttributeItem_def split: option.split)

text \<open>C16: A second \<open>html\<close> or \<open>body\<close> tag never changes an attribute the element has: after merging, every name has
  the attribute it had, or the first one of the token where it had none; no other element changes.\<close>

theorem merge_keeps_attributes:
  "\<exists>s'. mergeAttributesFromTokenIntoElement token (Some e) s = Some s'
    \<and> getAttributeItem n (attributesOf e s') =
        (case getAttributeItem n (attributesOf e s) of None \<Rightarrow> token_getAttributeItem n token | Some a \<Rightarrow> Some a)
    \<and> s' = s\<lparr>attributeMaps := (attributeMaps s)(nodeAddress e := attributeMaps s' (nodeAddress e))\<rparr>"
proof (cases "a_attributes token")
  case None
  then show ?thesis
    by (simp add: mergeAttributesFromTokenIntoElement_def token_getAttributeItem_def split: option.split)
next
  case (Some new)
  let ?m = "fold (\<lambda>(n, v) m. if getAttributeItem n m = None then setAttribute_list n v m else m) new (attributesOf e s)"
  let ?s' = "s\<lparr>attributeMaps := (attributeMaps s)(nodeAddress e \<mapsto> ?m)\<rparr>"
  have "mergeAttributesFromTokenIntoElement token (Some e) s = Some ?s'"
    using Some by (simp add: mergeAttributesFromTokenIntoElement_def attributesOf_def Let_def)
  moreover have "attributesOf e ?s' = ?m" by (simp add: attributesOf_def)
  moreover have "token_getAttributeItem n token = getAttributeItem n new" using Some by (simp add: token_getAttributeItem_def)
  ultimately show ?thesis using merged_item [of n new "attributesOf e s"] by (simp split: option.split)
qed

text \<open>
  The specification of the filter, over the whole value of an attribute: an event handler is an attribute in no
  namespace whose name begins with \<open>on\<close>; an address is an attribute whose name ends in \<open>href\<close>, or \<open>src\<close>, or
  \<open>action\<close>; it runs a script when, after white space, it begins with the letters of \<open>javascript\<close> in any case
  and a colon.
\<close>

definition handlesEvents :: "qualifiedName \<Rightarrow> bool" where
  "handlesEvents n \<longleftrightarrow> qn_namespace n = NoNamespace \<and> (\<exists>r. qn_localName n = ustr ''on'' @ r)"

definition holdsAddress :: "qualifiedName \<Rightarrow> bool" where
  "holdsAddress n \<longleftrightarrow> (\<exists>r. qn_localName n = r @ ustr ''href'') \<or> n \<in> plainName ` {ustr ''src'', ustr ''action''}"

definition runsScript :: "ustr \<Rightarrow> bool" where
  "runsScript v \<longleftrightarrow> (\<exists>ws name r. v = ws @ name @ ch_COLON # r \<and> set ws \<subseteq> {9, 10, 12, 13, 32}
     \<and> map lowerLetter name = ustr ''javascript'')"

lemma startsWith_iff: "startsWith s p \<longleftrightarrow> (\<exists>r. s = p @ r)"
  unfolding startsWith_def by (metis append_eq_conv_conj append_take_drop_id)

lemma isEventHandlerAttribute_iff: "isEventHandlerAttribute n = handlesEvents n"
  by (simp add: isEventHandlerAttribute_def handlesEvents_def startsWith_iff)

lemma endsWith_iff: "endsWith s p \<longleftrightarrow> (\<exists>r. s = r @ p)"
  by (auto simp: endsWith_def intro: exI [of _ "take (length s - length p) s"]) (metis append_take_drop_id)

lemma isHTMLSpace_iff: "isHTMLSpace c \<longleftrightarrow> c \<in> {9, 10, 12, 13, 32}"
  by (auto simp: isHTMLSpace_def)

lemma toASCIILower_lowerLetter: "toASCIILower c = lowerLetter c"
proof (cases "65 \<le> uint c \<and> uint c \<le> 90")
  case True
  then have "uint c \<in> set [65..90]" by (simp only: set_upto atLeastAtMost_iff)
  then have "c \<in> word_of_int ` set [65..90]" by (metis image_eqI word_of_int_uint)
  then show ?thesis by (auto simp: upto.simps toASCIILower_def lowerLetter_def)
next
  case False
  then show ?thesis by (auto simp: toASCIILower_def lowerLetter_def word_le_def)
qed

lemma protocolIs_iff:
  assumes "0 \<notin> set ps"
  shows "protocolIs u ps \<longleftrightarrow> (\<exists>name r. u = name @ ch_COLON # r \<and> map lowerLetter name = ps)"
  using assms
proof (induction ps arbitrary: u)
  case Nil
  then show ?case by (cases u) auto
next
  case (Cons p ps)
  show ?case
  proof (cases u)
    case Nil
    then show ?thesis using Cons.prems by (simp add: toASCIILower_lowerLetter lowerLetter_def)
  next
    case (Cons c cs)
    have "(\<exists>name r. u = name @ ch_COLON # r \<and> map lowerLetter name = p # ps)
      \<longleftrightarrow> lowerLetter c = p \<and> (\<exists>name r. cs = name @ ch_COLON # r \<and> map lowerLetter name = ps)"
    proof -
      have "u = name @ ch_COLON # r \<and> map lowerLetter name = p # ps
        \<longleftrightarrow> lowerLetter c = p \<and> (\<exists>n. name = c # n \<and> cs = n @ ch_COLON # r \<and> map lowerLetter n = ps)" for name r
        using Cons by (cases name) auto
      then show ?thesis by auto
    qed
    then show ?thesis using Cons.IH [of cs] Cons.prems Cons by (simp add: toASCIILower_lowerLetter)
  qed
qed

lemma countSpaces_eq: "countSpaces s = length (takeWhile isHTMLSpace s)"
  by (induction s) (auto simp: isNotHTMLSpace_def)

text \<open>Stripping leaves the value without the white space at both ends.\<close>

lemma stripLeadingAndTrailingHTMLSpaces_split:
  "\<exists>ws t. v = ws @ stripLeadingAndTrailingHTMLSpaces v @ t \<and> list_all isHTMLSpace ws \<and> list_all isHTMLSpace t
    \<and> (stripLeadingAndTrailingHTMLSpaces v \<noteq> [] \<longrightarrow>
        \<not> isHTMLSpace (hd (stripLeadingAndTrailingHTMLSpaces v)) \<and> \<not> isHTMLSpace (last (stripLeadingAndTrailingHTMLSpaces v)))"
proof (cases "dropWhile isHTMLSpace v")
  case Nil
  then have all: "list_all isHTMLSpace v" by (simp add: list_all_iff)
  then have "takeWhile isHTMLSpace v = v" by (simp add: list_all_iff takeWhile_eq_all_conv)
  then have "countSpaces v = length v" by (simp only: countSpaces_eq)
  then have "stripLeadingAndTrailingHTMLSpaces v = []" by (simp add: stripLeadingAndTrailingHTMLSpaces_def)
  then show ?thesis using all by (intro exI [of _ v] exI [of _ "[]"]) simp
next
  case (Cons c cs)
  define ws u where "ws = takeWhile isHTMLSpace v" and "u = dropWhile isHTMLSpace v"
  define t b where "t = rev (takeWhile isHTMLSpace (rev u))" and "b = rev (dropWhile isHTMLSpace (rev u))"
  have v: "v = ws @ u" by (simp add: ws_def u_def)
  have u: "u = b @ t" unfolding t_def b_def by (metis rev_append rev_rev_ident takeWhile_dropWhile_id)
  have c: "u = c # cs" "\<not> isHTMLSpace c" using Cons hd_dropWhile [of isHTMLSpace v] by (simp_all add: u_def)
  have t_space: "list_all isHTMLSpace t" by (auto simp: t_def list_all_iff dest: set_takeWhileD)
  have "b \<noteq> []" using c u t_space by (cases b) auto
  then have hd: "hd b = c" using u c(1) by (cases b) auto
  have last: "\<not> isHTMLSpace (last b)" using \<open>b \<noteq> []\<close> hd_dropWhile [of isHTMLSpace "rev u"] unfolding b_def by (simp add: last_rev)
  have "takeWhile isHTMLSpace (rev v) = rev t"
  proof -
    have "rev v = rev t @ rev b @ rev ws" by (simp add: v u)
    moreover have "rev b = last b # rev (butlast b)" using \<open>b \<noteq> []\<close> by (metis append_butlast_last_id rev_eq_Cons_iff rev_rev_ident)
    ultimately show ?thesis using t_space last by (simp add: takeWhile_append list_all_iff)
  qed
  then have trailing: "countSpaces (rev v) = length t" by (simp add: countSpaces_eq)
  have leading: "countSpaces v = length ws" by (simp add: countSpaces_eq ws_def)
  have "stripLeadingAndTrailingHTMLSpaces v = b"
    using \<open>b \<noteq> []\<close> unfolding stripLeadingAndTrailingHTMLSpaces_def leading trailing Let_def by (simp add: v u)
  moreover have "list_all isHTMLSpace ws" by (auto simp: ws_def list_all_iff dest: set_takeWhileD)
  ultimately show ?thesis using v u t_space hd c(2) last by auto
qed

lemma runsScript_iff: "protocolIsJavaScript (stripLeadingAndTrailingHTMLSpaces v) = runsScript v"
proof -
  obtain ws t where s: "v = ws @ stripLeadingAndTrailingHTMLSpaces v @ t" "list_all isHTMLSpace ws" "list_all isHTMLSpace t"
    using stripLeadingAndTrailingHTMLSpaces_split [of v] by blast
  let ?b = "stripLeadingAndTrailingHTMLSpaces v"
  have iff: "protocolIsJavaScript ?b \<longleftrightarrow> (\<exists>name r. ?b = name @ ch_COLON # r \<and> map lowerLetter name = ustr ''javascript'')"
    unfolding protocolIsJavaScript_def by (rule protocolIs_iff) (simp add: ustr_def)
  have letter: "lowerLetter c = 106 \<Longrightarrow> \<not> isHTMLSpace c" for c by (auto simp: isHTMLSpace_iff lowerLetter_def)
  show ?thesis
  proof
    assume "protocolIsJavaScript ?b"
    then obtain name r where b: "?b = name @ ch_COLON # r" and js: "map lowerLetter name = ustr ''javascript''" using iff by blast
    have "v = ws @ name @ ch_COLON # (r @ t)" using s(1) unfolding b by simp
    then show "runsScript v" using js s(2) by (auto simp: runsScript_def list_all_iff isHTMLSpace_iff subset_iff)
  next
    assume "runsScript v"
    then obtain ws' name r where v: "v = ws' @ name @ ch_COLON # r" and space: "list_all isHTMLSpace ws'"
      and js: "map lowerLetter name = ustr ''javascript''"
      by (auto simp: runsScript_def list_all_iff isHTMLSpace_iff subset_iff)
    obtain j ns where name: "name = j # ns" "lowerLetter j = 106" using js by (cases name) (simp_all add: ustr_def)
    have first: "\<not> isHTMLSpace j" by (rule letter) (rule name(2))
    have colon: "\<not> isHTMLSpace ch_COLON" by (simp add: isHTMLSpace_iff)
    have drop: "dropWhile isHTMLSpace v = name @ ch_COLON # r" using v space name(1) first by (simp add: dropWhile_append list_all_iff)
    have b: "?b @ t = name @ ch_COLON # r"
    proof (cases "?b = []")
      case True
      then have "list_all isHTMLSpace v" using s by (metis append.left_neutral list_all_append)
      then have "dropWhile isHTMLSpace v = []" by (simp add: list_all_iff)
      then show ?thesis using drop by simp
    next
      case False
      then have "\<not> isHTMLSpace (hd ?b)" using stripLeadingAndTrailingHTMLSpaces_split [of v] by blast
      then have "dropWhile isHTMLSpace (?b @ t) = ?b @ t" using False by (cases ?b) simp_all
      then have "dropWhile isHTMLSpace (ws @ ?b @ t) = ?b @ t" using s(2) by (simp add: dropWhile_append list_all_iff)
      then show ?thesis using drop s(1) by simp
    qed
    then have "?b @ t = (name @ [ch_COLON]) @ r" by simp
    then obtain us where "?b = (name @ [ch_COLON]) @ us \<or> ?b @ us = name @ [ch_COLON] \<and> t = us @ r"
      unfolding append_eq_append_conv2 by blast
    moreover have "us = []" if "?b @ us = name @ [ch_COLON]" "t = us @ r"
    proof (rule ccontr)
      assume "us \<noteq> []"
      then have "last us = ch_COLON" using that by (metis last_appendR last_snoc)
      then have "ch_COLON \<in> set t" using that \<open>us \<noteq> []\<close> by (metis Un_iff last_in_set set_append)
      then show False using s(3) colon by (auto simp: list_all_iff)
    qed
    ultimately have "\<exists>k. ?b = name @ ch_COLON # k" by auto
    then show "protocolIsJavaScript ?b" using iff js by blast
  qed
qed

lemma isAttributeToRemove_iff: "isAttributeToRemove n v \<longleftrightarrow> holdsAddress n \<and> runsScript v"
  by (auto simp: isAttributeToRemove_def holdsAddress_def runsScript_iff endsWith_iff)

lemma removeScripting_eq:
  "removeScripting m = map (\<lambda>(n, v). (n, if holdsAddress n \<and> runsScript v then [] else v)) (filter (\<lambda>(n, v). \<not> handlesEvents n) m)"
  by (induction m rule: removeScripting.induct) (simp_all add: isEventHandlerAttribute_iff isAttributeToRemove_iff)

text \<open>C17: Where scripting is not allowed an element is created with the attributes of the token in their order,
  less every event handler, and every address that runs a script, however its spelling is cased and
  whatever white space is around it, is empty; every other attribute has its value.\<close>

theorem created_without_scripting:
  assumes "m_fragmentScriptingPermission s = FragmentScriptingNotAllowed" "(e, s') = createElementWith ns name attributes s"
  shows "attributesOf e s' = map (\<lambda>(n, v). (n, if holdsAddress n \<and> runsScript v then [] else v))
           (filter (\<lambda>(n, v). \<not> handlesEvents n) (case attributes of None \<Rightarrow> [] | Some m \<Rightarrow> m))
    \<and> (\<forall>(n, v) \<in> set (attributesOf e s'). \<not> handlesEvents n \<and> \<not> (holdsAddress n \<and> runsScript v))"
proof -
  have "attributesOf e s' = (case attributes of None \<Rightarrow> [] | Some m \<Rightarrow> removeScripting m)"
    using assms
    by (auto simp: createElementWith_def createNode_def attributesOf_def setAttributeMap_list_def Let_def split: option.split)
  moreover have "\<not> runsScript []" by (simp add: runsScript_def)
  ultimately show ?thesis by (auto simp: removeScripting_eq split: option.split if_splits)
qed

theorem created_without_scripting_witness:
  "let (e, s') = createElementWith XHTML (ustr ''iframe'')
       (Some [(plainName (ustr ''title''), ustr ''x''), (plainName (ustr ''onload''), ustr ''f()''),
              (plainName (ustr ''src''), ustr '' JavaScript:f()'')])
       (newConstructionSite FragmentScriptingNotAllowed True)
   in attributesOf e s' = [(plainName (ustr ''title''), ustr ''x''), (plainName (ustr ''src''), [])]"
proof -
  let ?s = "newConstructionSite FragmentScriptingNotAllowed True"
  let ?m = "[(plainName (ustr ''title''), ustr ''x''), (plainName (ustr ''onload''), ustr ''f()''),
              (plainName (ustr ''src''), ustr '' JavaScript:f()'')]"
  obtain e s' where c: "createElementWith XHTML (ustr ''iframe'') (Some ?m) ?s = (e, s')" by fastforce
  have "handlesEvents (plainName (ustr ''onload''))" by (simp add: handlesEvents_def ustr_def)
  moreover have "\<not> handlesEvents (plainName (ustr ''title''))" "\<not> handlesEvents (plainName (ustr ''src''))"
    by (simp_all add: handlesEvents_def ustr_def)
  moreover have "holdsAddress (plainName (ustr ''src''))" by (simp add: holdsAddress_def)
  moreover have "\<not> runsScript (ustr ''x'')" unfolding runsScript_iff [symmetric] by code_simp
  moreover have "runsScript (ustr '' JavaScript:f()'')" unfolding runsScript_iff [symmetric] by code_simp
  moreover have "m_fragmentScriptingPermission ?s = FragmentScriptingNotAllowed" by (simp add: newConstructionSite_def)
  ultimately show ?thesis using created_without_scripting [OF _ c [symmetric]] by (simp add: c)
qed

end
