(* ===== verification/HTMLTreeBuilderInTable.thy ===== *)
theory HTMLTreeBuilderInTable
  imports HTMLTreeBuilderInBody
begin

text \<open>
  The tags in tables and in their parts, of \<^verbatim>\<open>WebCore/html/parser/HTMLTreeBuilder.cpp\<close>.  The functions that
  return whether they closed something have it as their first result.
\<close>

section \<open>Closing the parts of a table\<close>

definition processColgroupEndTagForInColumnGroup ::
  "builderConfig \<Rightarrow> treeBuilder \<Rightarrow> (bool \<times> treeBuilder) option" where
  "processColgroupEndTagForInColumnGroup cfg s =
     do { c \<leftarrow> currentElementOf s;
          if Some c = m_htmlElement (openElements s) then Some (False, ASSERT_builder (isParsingFragment cfg) s)
          else do { s \<leftarrow> onOpenElements pop_element s; Some (True, setInsertionMode InTableMode s) } }"

definition processCaptionEndTagForInCaption ::
  "builderConfig \<Rightarrow> treeBuilder \<Rightarrow> (bool \<times> treeBuilder) option" where
  "processCaptionEndTagForInCaption cfg s =
     (if \<not> inTableScope (ustr ''caption'') (openElements s)
      then Some (False, ASSERT_builder (isParsingFragment cfg) s)
      else do { s \<leftarrow> onTree generateImpliedEndTags s;
                s \<leftarrow> onOpenElements (popUntilPopped (ustr ''caption'')) s;
                Some (True, setInsertionMode InTableMode (onFormattingElements clearToLastMarker s)) })"

definition processTrEndTagForInRow :: "builderConfig \<Rightarrow> treeBuilder \<Rightarrow> (bool \<times> treeBuilder) option" where
  "processTrEndTagForInRow cfg s =
     (if \<not> inTableScope (ustr ''tr'') (openElements s)
      then Some (False, ASSERT_builder (isParsingFragment cfg) s)
      else do { s \<leftarrow> onOpenElements popUntilTableRowScopeMarker s;
                c \<leftarrow> currentElementOf s;
                s \<leftarrow> onOpenElements pop_element (ASSERT_builder (hasTagName c ''tr'') s);
                Some (True, setInsertionMode InTableBodyMode s) })"

definition processTableEndTagForInTable :: "builderConfig \<Rightarrow> treeBuilder \<Rightarrow> (bool \<times> treeBuilder) option" where
  "processTableEndTagForInTable cfg s =
     (if \<not> inTableScope (ustr ''table'') (openElements s)
      then Some (False, ASSERT_builder (isParsingFragment cfg) s)
      else do { s \<leftarrow> onOpenElements (popUntilPopped (ustr ''table'')) s;
                s \<leftarrow> resetInsertionModeAppropriately cfg s;
                Some (True, s) })"

definition closeTheCell :: "calls \<Rightarrow> treeBuilder \<Rightarrow> treeBuilder option" where
  "closeTheCell rec s =
     (let s = ASSERT_builder (m_insertionMode s = InCellMode) s
      in if inTableScope (ustr ''td'') (openElements s)
         then processFakeEndTag rec (ustr ''td'')
                (ASSERT_builder (\<not> inTableScope (ustr ''th'') (openElements s)) s)
         else map_option (\<lambda>s. ASSERT_builder (m_insertionMode s = InRowMode) s)
                (processFakeEndTag rec (ustr ''th'')
                  (ASSERT_builder (inTableScope (ustr ''th'') (openElements s)) s)))"

text \<open>Whether a row group is in table scope.\<close>

definition inTableBodyScope :: "elementStack \<Rightarrow> bool" where
  "inTableBodyScope es \<longleftrightarrow>
     inTableScope (ustr ''tbody'') es \<or> inTableScope (ustr ''thead'') es \<or> inTableScope (ustr ''tfoot'') es"

text \<open>The end of the row group, with the fake end tag of its name.\<close>

definition closeTableBody :: "calls \<Rightarrow> treeBuilder \<Rightarrow> treeBuilder option" where
  "closeTableBody rec s =
     do { s \<leftarrow> onOpenElements popUntilTableBodyScopeMarker s;
          c \<leftarrow> currentElementOf s;
          processFakeEndTag rec (localName c) (ASSERT_builder (isTableBodyContextTag (localName c)) s) }"

section \<open>Start tags\<close>

definition processStartTagForInTable ::
  "builderConfig \<Rightarrow> calls \<Rightarrow> atomicToken \<Rightarrow> treeBuilder \<Rightarrow> treeBuilder option" where
  "processStartTagForInTable cfg rec token s =
     (let s = ASSERT_builder (a_type token = StartTag) s;
          n = a_name token
      in if n = ustr ''caption''
           then do { s \<leftarrow> onOpenElements popUntilTableScopeMarker s;
                     s \<leftarrow> onTree (insertHTMLElement token) (onFormattingElements appendMarker s);
                     Some (setInsertionMode InCaptionMode s) }
         else if n = ustr ''colgroup''
           then do { s \<leftarrow> onOpenElements popUntilTableScopeMarker s;
                     s \<leftarrow> onTree (insertHTMLElement token) s;
                     Some (setInsertionMode InColumnGroupMode s) }
         else if n = ustr ''col''
           then do { s \<leftarrow> processFakeStartTag rec ''colgroup'' None s; reprocessStartTag cfg rec token s }
         else if isTableBodyContextTag n
           then do { s \<leftarrow> onOpenElements popUntilTableScopeMarker s;
                     s \<leftarrow> onTree (insertHTMLElement token) s;
                     Some (setInsertionMode InTableBodyMode s) }
         else if isTableCellContextTag n \<or> n = ustr ''tr''
           then do { s \<leftarrow> processFakeStartTag rec ''tbody'' None s;
                     reprocessStartTag cfg rec token (ASSERT_builder (m_insertionMode s = InTableBodyMode) s) }
         else if n = ustr ''table''
           then do { (closed, s) \<leftarrow> processTableEndTagForInTable cfg s;
                     if \<not> closed then Some (ASSERT_builder (isParsingFragment cfg) s)
                     else reprocessStartTag cfg rec token s }
         else if n = ustr ''style'' \<or> n = ustr ''script'' then startTagForInHead cfg rec token s
         else if n = ustr ''input''
              \<and> (case token_getAttributeItem (plainName (ustr ''type'')) token of
                   Some (_, ty) \<Rightarrow> equalIgnoringCase (caseFold cfg) ty ''hidden'' | None \<Rightarrow> False)
           then onTree (insertSelfClosingHTMLElement token) s
         else if n = ustr ''form''
           then (if m_form (m_tree s) \<noteq> None then Some s
                 else do { s \<leftarrow> onTree (insertHTMLFormElement token True) s; onOpenElements pop_element s })
         else withRedirect (processStartTagForInBody cfg rec token) s)"

definition startTagInCaption :: "builderConfig \<Rightarrow> calls \<Rightarrow> atomicToken \<Rightarrow> treeBuilder \<Rightarrow> treeBuilder option" where
  "startTagInCaption cfg rec token s =
     (let n = a_name token
      in if isCaptionColOrColgroupTag n \<or> isTableBodyContextTag n \<or> isTableCellContextTag n \<or> n = ustr ''tr''
         then do { (closed, s) \<leftarrow> processCaptionEndTagForInCaption cfg s;
                   if \<not> closed then Some (ASSERT_builder (isParsingFragment cfg) s)
                   else reprocessStartTag cfg rec token s }
         else processStartTagForInBody cfg rec token s)"

definition startTagInColumnGroup :: "builderConfig \<Rightarrow> calls \<Rightarrow> atomicToken \<Rightarrow> treeBuilder \<Rightarrow> treeBuilder option" where
  "startTagInColumnGroup cfg rec token s =
     (if a_name token = ustr ''html'' then onTree (insertHTMLHtmlStartTagInBody token) s
      else if a_name token = ustr ''col'' then onTree (insertSelfClosingHTMLElement token) s
      else do { (closed, s) \<leftarrow> processColgroupEndTagForInColumnGroup cfg s;
                if \<not> closed then Some (ASSERT_builder (isParsingFragment cfg) s)
                else reprocessStartTag cfg rec token s })"

definition startTagInTableBody :: "builderConfig \<Rightarrow> calls \<Rightarrow> atomicToken \<Rightarrow> treeBuilder \<Rightarrow> treeBuilder option" where
  "startTagInTableBody cfg rec token s =
     (let n = a_name token
      in if n = ustr ''tr''
           then do { s \<leftarrow> onOpenElements popUntilTableBodyScopeMarker s;
                     s \<leftarrow> onTree (insertHTMLElement token) s;
                     Some (setInsertionMode InRowMode s) }
         else if isTableCellContextTag n
           then do { s \<leftarrow> processFakeStartTag rec ''tr'' None s;
                     reprocessStartTag cfg rec token (ASSERT_builder (m_insertionMode s = InRowMode) s) }
         else if isCaptionColOrColgroupTag n \<or> isTableBodyContextTag n
           then (if \<not> inTableBodyScope (openElements s) then Some (ASSERT_builder (isParsingFragment cfg) s)
                 else do { s \<leftarrow> closeTableBody rec s; reprocessStartTag cfg rec token s })
         else processStartTagForInTable cfg rec token s)"

definition startTagInRow :: "builderConfig \<Rightarrow> calls \<Rightarrow> atomicToken \<Rightarrow> treeBuilder \<Rightarrow> treeBuilder option" where
  "startTagInRow cfg rec token s =
     (let n = a_name token
      in if isTableCellContextTag n
           then do { s \<leftarrow> onOpenElements popUntilTableRowScopeMarker s;
                     s \<leftarrow> onTree (insertHTMLElement token) s;
                     Some (onFormattingElements appendMarker (setInsertionMode InCellMode s)) }
         else if n = ustr ''tr'' \<or> isCaptionColOrColgroupTag n \<or> isTableBodyContextTag n
           then do { (closed, s) \<leftarrow> processTrEndTagForInRow cfg s;
                     if \<not> closed then Some (ASSERT_builder (isParsingFragment cfg) s)
                     else reprocessStartTag cfg rec token (ASSERT_builder (m_insertionMode s = InTableBodyMode) s) }
         else processStartTagForInTable cfg rec token s)"

definition startTagInCell :: "builderConfig \<Rightarrow> calls \<Rightarrow> atomicToken \<Rightarrow> treeBuilder \<Rightarrow> treeBuilder option" where
  "startTagInCell cfg rec token s =
     (let n = a_name token
      in if isCaptionColOrColgroupTag n \<or> isTableCellContextTag n \<or> n = ustr ''tr'' \<or> isTableBodyContextTag n
         then (if \<not> inTableScope (ustr ''td'') (openElements s) \<and> \<not> inTableScope (ustr ''th'') (openElements s)
               then Some (ASSERT_builder (isParsingFragment cfg) s)
               else do { s \<leftarrow> closeTheCell rec s; reprocessStartTag cfg rec token s })
         else processStartTagForInBody cfg rec token s)"

section \<open>End tags\<close>

definition processEndTagForInTable ::
  "builderConfig \<Rightarrow> calls \<Rightarrow> atomicToken \<Rightarrow> treeBuilder \<Rightarrow> treeBuilder option" where
  "processEndTagForInTable cfg rec token s =
     (let s = ASSERT_builder (a_type token = EndTag) s;
          n = a_name token
      in if n = ustr ''table'' then map_option snd (processTableEndTagForInTable cfg s)
         else if n = ustr ''body'' \<or> isCaptionColOrColgroupTag n \<or> n = ustr ''html'' \<or> isTableBodyContextTag n
                 \<or> isTableCellContextTag n \<or> n = ustr ''tr''
           then Some s
         else withRedirect (processEndTagForInBody cfg rec token) s)"

definition processEndTagForInTableBody ::
  "builderConfig \<Rightarrow> calls \<Rightarrow> atomicToken \<Rightarrow> treeBuilder \<Rightarrow> treeBuilder option" where
  "processEndTagForInTableBody cfg rec token s =
     (let s = ASSERT_builder (a_type token = EndTag) s;
          n = a_name token
      in if isTableBodyContextTag n
           then (if \<not> inTableScope n (openElements s) then Some s
                 else do { s \<leftarrow> onOpenElements popUntilTableBodyScopeMarker s;
                           s \<leftarrow> onOpenElements pop_element s;
                           Some (setInsertionMode InTableMode s) })
         else if n = ustr ''table''
           then (if \<not> inTableBodyScope (openElements s) then Some (ASSERT_builder (isParsingFragment cfg) s)
                 else do { s \<leftarrow> closeTableBody rec s; reprocessEndTag cfg rec token s })
         else if n = ustr ''body'' \<or> isCaptionColOrColgroupTag n \<or> n = ustr ''html'' \<or> isTableCellContextTag n
                 \<or> n = ustr ''tr''
           then Some s
         else processEndTagForInTable cfg rec token s)"

definition processEndTagForInRow ::
  "builderConfig \<Rightarrow> calls \<Rightarrow> atomicToken \<Rightarrow> treeBuilder \<Rightarrow> treeBuilder option" where
  "processEndTagForInRow cfg rec token s =
     (let s = ASSERT_builder (a_type token = EndTag) s;
          n = a_name token
      in if n = ustr ''tr'' then map_option snd (processTrEndTagForInRow cfg s)
         else if n = ustr ''table''
           then do { (closed, s) \<leftarrow> processTrEndTagForInRow cfg s;
                     if \<not> closed then Some (ASSERT_builder (isParsingFragment cfg) s)
                     else reprocessEndTag cfg rec token (ASSERT_builder (m_insertionMode s = InTableBodyMode) s) }
         else if isTableBodyContextTag n
           then (if \<not> inTableScope n (openElements s) then Some s
                 else do { s \<leftarrow> processFakeEndTag rec (ustr ''tr'') s;
                           reprocessEndTag cfg rec token (ASSERT_builder (m_insertionMode s = InTableBodyMode) s) })
         else if n = ustr ''body'' \<or> isCaptionColOrColgroupTag n \<or> n = ustr ''html'' \<or> isTableCellContextTag n
           then Some s
         else processEndTagForInTable cfg rec token s)"

definition processEndTagForInCell ::
  "builderConfig \<Rightarrow> calls \<Rightarrow> atomicToken \<Rightarrow> treeBuilder \<Rightarrow> treeBuilder option" where
  "processEndTagForInCell cfg rec token s =
     (let s = ASSERT_builder (a_type token = EndTag) s;
          n = a_name token
      in if isTableCellContextTag n
           then (if \<not> inTableScope n (openElements s) then Some s
                 else do { s \<leftarrow> closeBlock n s;
                           Some (setInsertionMode InRowMode (onFormattingElements clearToLastMarker s)) })
         else if n = ustr ''body'' \<or> isCaptionColOrColgroupTag n \<or> n = ustr ''html'' then Some s
         else if n = ustr ''table'' \<or> n = ustr ''tr'' \<or> isTableBodyContextTag n
           then (if \<not> inTableScope n (openElements s)
                 then Some (ASSERT_builder (isTableBodyContextTag n \<or> isParsingFragment cfg) s)
                 else do { s \<leftarrow> closeTheCell rec s; reprocessEndTag cfg rec token s })
         else processEndTagForInBody cfg rec token s)"

definition endTagInCaption :: "builderConfig \<Rightarrow> calls \<Rightarrow> atomicToken \<Rightarrow> treeBuilder \<Rightarrow> treeBuilder option" where
  "endTagInCaption cfg rec token s =
     (let n = a_name token
      in if n = ustr ''caption'' then map_option snd (processCaptionEndTagForInCaption cfg s)
         else if n = ustr ''table''
           then do { (closed, s) \<leftarrow> processCaptionEndTagForInCaption cfg s;
                     if \<not> closed then Some (ASSERT_builder (isParsingFragment cfg) s)
                     else reprocessEndTag cfg rec token s }
         else if n = ustr ''body'' \<or> n = ustr ''col'' \<or> n = ustr ''colgroup'' \<or> n = ustr ''html''
                 \<or> isTableBodyContextTag n \<or> isTableCellContextTag n \<or> n = ustr ''tr''
           then Some s
         else processEndTagForInBody cfg rec token s)"

definition endTagInColumnGroup :: "builderConfig \<Rightarrow> calls \<Rightarrow> atomicToken \<Rightarrow> treeBuilder \<Rightarrow> treeBuilder option" where
  "endTagInColumnGroup cfg rec token s =
     (if a_name token = ustr ''colgroup'' then map_option snd (processColgroupEndTagForInColumnGroup cfg s)
      else if a_name token = ustr ''col'' then Some s
      else do { (closed, s) \<leftarrow> processColgroupEndTagForInColumnGroup cfg s;
                if \<not> closed then Some (ASSERT_builder (isParsingFragment cfg) s)
                else reprocessEndTag cfg rec token s })"

end
