(* ===== verification/HTMLTreeBuilderProcess.thy ===== *)
theory HTMLTreeBuilderProcess
  imports HTMLTreeBuilderInTable
begin

text \<open>
  The insertion modes of \<^verbatim>\<open>WebCore/html/parser/HTMLTreeBuilder.cpp\<close>: the switches of \<open>processStartTag\<close>,
  \<open>processEndTag\<close>, \<open>processComment\<close>, \<open>processCharacterBuffer\<close>, \<open>processEndOfFile\<close> and \<open>processToken\<close>, a case
  that falls through being the call of the next one, and \<open>process\<close>, which ties their recursion with fuel:
  it is \<open>None\<close> when the calls nest deeper than the fuel.
\<close>

definition ASSERT_mode :: "insertionMode list \<Rightarrow> treeBuilder \<Rightarrow> treeBuilder" where
  "ASSERT_mode modes s = ASSERT_builder (m_insertionMode s \<in> set modes) s"

section \<open>The default of an insertion mode\<close>

definition defaultForInitial :: "builderConfig \<Rightarrow> treeBuilder \<Rightarrow> treeBuilder option" where
  "defaultForInitial cfg s =
     (let s = (if m_fragmentContext cfg = None
               then s\<lparr>m_tree := (m_tree s)\<lparr>documentCompatibility :=
                      setCompatibilityMode QuirksMode (documentCompatibility (m_tree s))\<rparr>\<rparr>
               else s)
      in prepareToReprocessToken cfg (setInsertionMode BeforeHTMLMode s))"

definition defaultForBeforeHTML :: "builderConfig \<Rightarrow> treeBuilder \<Rightarrow> treeBuilder option" where
  "defaultForBeforeHTML cfg s =
     do { s \<leftarrow> onTree (insertHTMLHtmlStartTagBeforeHTML (fakeStart ''html'')) s;
          prepareToReprocessToken cfg (setInsertionMode BeforeHeadMode s) }"

definition defaultForBeforeHead :: "builderConfig \<Rightarrow> calls \<Rightarrow> treeBuilder \<Rightarrow> treeBuilder option" where
  "defaultForBeforeHead cfg rec s =
     do { s \<leftarrow> rec (ProcessStartTag (fakeStart ''head'')) s; prepareToReprocessToken cfg s }"

definition defaultForInHead :: "builderConfig \<Rightarrow> calls \<Rightarrow> treeBuilder \<Rightarrow> treeBuilder option" where
  "defaultForInHead cfg rec s =
     do { s \<leftarrow> rec (ProcessEndTag (fakeEnd ''head'')) s; prepareToReprocessToken cfg s }"

definition defaultForInHeadNoscript :: "builderConfig \<Rightarrow> calls \<Rightarrow> treeBuilder \<Rightarrow> treeBuilder option" where
  "defaultForInHeadNoscript cfg rec s =
     do { s \<leftarrow> rec (ProcessEndTag (fakeEnd ''noscript'')) s; prepareToReprocessToken cfg s }"

definition defaultForAfterHead :: "builderConfig \<Rightarrow> calls \<Rightarrow> treeBuilder \<Rightarrow> treeBuilder option" where
  "defaultForAfterHead cfg rec s =
     do { s \<leftarrow> rec (ProcessStartTag (fakeStart ''body'')) s; prepareToReprocessToken cfg (setFramesetOk True s) }"

definition defaultForInTableText :: "builderConfig \<Rightarrow> treeBuilder \<Rightarrow> treeBuilder option" where
  "defaultForInTableText cfg s =
     (let characters = m_pendingTableCharacters s;
          s = s\<lparr>m_pendingTableCharacters := []\<rparr>
      in if \<not> isAllWhitespace characters
         then withRedirect (\<lambda>s. do {
                s \<leftarrow> onTree reconstructTheActiveFormattingElements s;
                s \<leftarrow> onTree (insertTextNode characters) s;
                prepareToReprocessToken cfg (setInsertionMode (m_originalInsertionMode s) (setFramesetOk False s)) }) s
         else do { s \<leftarrow> onTree (insertTextNode characters) s;
                   prepareToReprocessToken cfg (setInsertionMode (m_originalInsertionMode s) s) })"

section \<open>Start tags\<close>

definition startTagAfterHead :: "builderConfig \<Rightarrow> calls \<Rightarrow> atomicToken \<Rightarrow> treeBuilder \<Rightarrow> treeBuilder option" where
  "startTagAfterHead cfg rec token s =
     (let s = ASSERT_mode [AfterHeadMode] s;
          n = a_name token
      in if n = ustr ''html'' then onTree (insertHTMLHtmlStartTagInBody token) s
         else if n = ustr ''body''
           then do { s \<leftarrow> onTree (insertHTMLBodyElement token) (setFramesetOk False s);
                     Some (setInsertionMode InBodyMode s) }
         else if n = ustr ''frameset''
           then do { s \<leftarrow> onTree (insertHTMLElement token) s; Some (setInsertionMode InFramesetMode s) }
         else if isOneOf n [''base'', ''basefont'', ''bgsound'', ''link'', ''meta'', ''noframes'', ''script'', ''style'', ''title'']
           then do { head \<leftarrow> m_head (m_tree s);
                     s \<leftarrow> onOpenElements (Some \<circ> pushHTMLHeadElement head) s;
                     s \<leftarrow> startTagForInHead cfg rec token s;
                     head \<leftarrow> m_head (m_tree s);
                     onOpenElements (removeHTMLHeadElement head) s }
         else if n = ustr ''head'' then Some s
         else do { s \<leftarrow> defaultForAfterHead cfg rec s;
                   processStartTagForInBody cfg rec token (ASSERT_mode [InBodyMode] s) })"

definition startTagInHead :: "builderConfig \<Rightarrow> calls \<Rightarrow> atomicToken \<Rightarrow> treeBuilder \<Rightarrow> treeBuilder option" where
  "startTagInHead cfg rec token s =
     do { (didProcess, s) \<leftarrow> processStartTagForInHead cfg rec token (ASSERT_mode [InHeadMode] s);
          if didProcess then Some s
          else do { s \<leftarrow> defaultForInHead cfg rec s; startTagAfterHead cfg rec token s } }"

definition startTagBeforeHead :: "builderConfig \<Rightarrow> calls \<Rightarrow> atomicToken \<Rightarrow> treeBuilder \<Rightarrow> treeBuilder option" where
  "startTagBeforeHead cfg rec token s =
     (let s = ASSERT_mode [BeforeHeadMode] s
      in if a_name token = ustr ''html'' then onTree (insertHTMLHtmlStartTagInBody token) s
         else if a_name token = ustr ''head''
           then do { s \<leftarrow> onTree (insertHTMLHeadElement token) s; Some (setInsertionMode InHeadMode s) }
         else do { s \<leftarrow> defaultForBeforeHead cfg rec s; startTagInHead cfg rec token s })"

definition startTagBeforeHTML :: "builderConfig \<Rightarrow> calls \<Rightarrow> atomicToken \<Rightarrow> treeBuilder \<Rightarrow> treeBuilder option" where
  "startTagBeforeHTML cfg rec token s =
     (let s = ASSERT_mode [BeforeHTMLMode] s
      in if a_name token = ustr ''html''
         then do { s \<leftarrow> onTree (insertHTMLHtmlStartTagBeforeHTML token) s; Some (setInsertionMode BeforeHeadMode s) }
         else do { s \<leftarrow> defaultForBeforeHTML cfg s; startTagBeforeHead cfg rec token s })"

definition startTagInitial :: "builderConfig \<Rightarrow> calls \<Rightarrow> atomicToken \<Rightarrow> treeBuilder \<Rightarrow> treeBuilder option" where
  "startTagInitial cfg rec token s =
     do { s \<leftarrow> defaultForInitial cfg s; startTagBeforeHTML cfg rec token s }"

definition startTagInHeadNoscript :: "builderConfig \<Rightarrow> calls \<Rightarrow> atomicToken \<Rightarrow> treeBuilder \<Rightarrow> treeBuilder option" where
  "startTagInHeadNoscript cfg rec token s =
     (let n = a_name token
      in if n = ustr ''html'' then onTree (insertHTMLHtmlStartTagInBody token) s
         else if isOneOf n [''basefont'', ''bgsound'', ''link'', ''meta'', ''noframes'', ''style'']
           then startTagForInHead_asserted cfg rec token s
         else if n = ustr ''html'' \<or> n = ustr ''noscript'' then Some s
         else do { s \<leftarrow> defaultForInHeadNoscript cfg rec s; rec (ProcessToken token) s })"

definition startTagInFrameset :: "builderConfig \<Rightarrow> calls \<Rightarrow> atomicToken \<Rightarrow> treeBuilder \<Rightarrow> treeBuilder option" where
  "startTagInFrameset cfg rec token s =
     (let n = a_name token
      in if n = ustr ''html'' then onTree (insertHTMLHtmlStartTagInBody token) s
         else if n = ustr ''frameset'' then onTree (insertHTMLElement token) s
         else if n = ustr ''frame'' then onTree (insertSelfClosingHTMLElement token) s
         else if n = ustr ''noframes'' then startTagForInHead cfg rec token s
         else Some s)"

definition startTagAfterFrameset :: "builderConfig \<Rightarrow> calls \<Rightarrow> atomicToken \<Rightarrow> treeBuilder \<Rightarrow> treeBuilder option" where
  "startTagAfterFrameset cfg rec token s =
     (if a_name token = ustr ''html'' then onTree (insertHTMLHtmlStartTagInBody token) s
      else if a_name token = ustr ''noframes'' then startTagForInHead cfg rec token s
      else Some s)"

definition closeCurrentIf :: "calls \<Rightarrow> string \<Rightarrow> treeBuilder \<Rightarrow> treeBuilder option" where
  "closeCurrentIf rec n s =
     do { c \<leftarrow> currentElementOf s;
          if hasTagName c n then rec (ProcessEndTag (fakeEnd n)) s else Some s }"

definition startTagInSelect :: "builderConfig \<Rightarrow> calls \<Rightarrow> atomicToken \<Rightarrow> treeBuilder \<Rightarrow> treeBuilder option" where
  "startTagInSelect cfg rec token s =
     (let s = ASSERT_mode [InSelectMode, InSelectInTableMode] s;
          n = a_name token
      in if n = ustr ''html'' then onTree (insertHTMLHtmlStartTagInBody token) s
         else if n = ustr ''option''
           then do { s \<leftarrow> closeCurrentIf rec ''option'' s; onTree (insertHTMLElement token) s }
         else if n = ustr ''optgroup''
           then do { s \<leftarrow> closeCurrentIf rec ''option'' s;
                     s \<leftarrow> closeCurrentIf rec ''optgroup'' s;
                     onTree (insertHTMLElement token) s }
         else if n = ustr ''select'' then rec (ProcessEndTag (fakeEnd ''select'')) s
         else if isOneOf n [''input'', ''keygen'', ''textarea'']
           then (if \<not> inSelectScope (ustr ''select'') (openElements s) then Some (ASSERT_builder (isParsingFragment cfg) s)
                 else do { s \<leftarrow> rec (ProcessEndTag (fakeEnd ''select'')) s; reprocessStartTag cfg rec token s })
         else if n = ustr ''script'' then startTagForInHead_asserted cfg rec token s
         else Some s)"

definition startTagInSelectInTable :: "builderConfig \<Rightarrow> calls \<Rightarrow> atomicToken \<Rightarrow> treeBuilder \<Rightarrow> treeBuilder option" where
  "startTagInSelectInTable cfg rec token s =
     (let n = a_name token
      in if n = ustr ''caption'' \<or> n = ustr ''table'' \<or> isTableBodyContextTag n \<or> n = ustr ''tr'' \<or> isTableCellContextTag n
         then do { s \<leftarrow> rec (ProcessEndTag (fakeEnd ''select'')) s; reprocessStartTag cfg rec token s }
         else startTagInSelect cfg rec token s)"

definition shouldProcessForeignContentUsingInBodyInsertionMode :: "atomicToken \<Rightarrow> element \<Rightarrow> bool" where
  "shouldProcessForeignContentUsingInBodyInsertionMode token e \<longleftrightarrow>
     (if hasQName e MathML ''mi'' \<or> hasQName e MathML ''mo'' \<or> hasQName e MathML ''mn''
         \<or> hasQName e MathML ''ms'' \<or> hasQName e MathML ''mtext''
      then a_name token \<noteq> ustr ''mglyph'' \<and> a_name token \<noteq> ustr ''malignmark''
      else if hasQName e MathML ''annotation-xml'' then a_name token = ustr ''svg''
      else if hasQName e SVG ''foreignObject'' \<or> hasQName e SVG ''desc'' \<or> hasQName e SVG ''title'' then True
      else namespaceURI e = XHTML)"

text \<open>The HTML tags that end foreign content.\<close>

definition endsForeignContent :: "atomicToken \<Rightarrow> bool" where
  "endsForeignContent token \<longleftrightarrow>
     isOneOf (a_name token)
       [''b'', ''big'', ''blockquote'', ''body'', ''br'', ''center'', ''code'', ''dd'', ''div'', ''dl'', ''dt'', ''em'', ''embed'']
     \<or> isNumberedHeaderTag (a_name token)
     \<or> isOneOf (a_name token)
       [''head'', ''hr'', ''i'', ''img'', ''li'', ''listing'', ''menu'', ''meta'', ''nobr'', ''ol'', ''p'', ''pre'', ''ruby'',
        ''s'', ''small'', ''span'', ''strong'', ''strike'', ''sub'', ''sup'', ''table'', ''tt'', ''u'', ''ul'', ''var'']
     \<or> a_name token = ustr ''font''
       \<and> (token_getAttributeItem (plainName (ustr ''color'')) token \<noteq> None
          \<or> token_getAttributeItem (plainName (ustr ''face'')) token \<noteq> None
          \<or> token_getAttributeItem (plainName (ustr ''size'')) token \<noteq> None)"

definition adjustForeignToken :: "builderConfig \<Rightarrow> namespace \<Rightarrow> atomicToken \<Rightarrow> atomicToken" where
  "adjustForeignToken cfg ns token =
     (let token = (if ns = MathML then adjustMathMLAttributes cfg token else token);
          token = (if ns = SVG then adjustSVGAttributes cfg (adjustSVGTagNameCase cfg token) else token)
      in adjustForeignAttributes cfg token)"

definition startTagInForeignContent :: "builderConfig \<Rightarrow> calls \<Rightarrow> atomicToken \<Rightarrow> treeBuilder \<Rightarrow> treeBuilder option" where
  "startTagInForeignContent cfg rec token s =
     do { c \<leftarrow> currentElementOf s;
          if shouldProcessForeignContentUsingInBodyInsertionMode token c
          then processForeignContentUsingInBodyModeAndResetMode cfg rec token s
          else if endsForeignContent token
          then do { s \<leftarrow> onOpenElements popUntilForeignContentScopeMarker s;
                    s \<leftarrow> resetInsertionModeAppropriately cfg s;
                    reprocessStartTag cfg rec token s }
          else onTree (insertForeignElement (adjustForeignToken cfg (namespaceURI c) token) (namespaceURI c)) s }"

definition processStartTag :: "builderConfig \<Rightarrow> calls \<Rightarrow> atomicToken \<Rightarrow> treeBuilder \<Rightarrow> treeBuilder option" where
  "processStartTag cfg rec token s =
     (let s = ASSERT_builder (a_type token = StartTag) s
      in case m_insertionMode s of
           InitialMode \<Rightarrow> startTagInitial cfg rec token s
         | BeforeHTMLMode \<Rightarrow> startTagBeforeHTML cfg rec token s
         | BeforeHeadMode \<Rightarrow> startTagBeforeHead cfg rec token s
         | InHeadMode \<Rightarrow> startTagInHead cfg rec token s
         | AfterHeadMode \<Rightarrow> startTagAfterHead cfg rec token s
         | InBodyMode \<Rightarrow> processStartTagForInBody cfg rec token s
         | InTableMode \<Rightarrow> processStartTagForInTable cfg rec token s
         | InCaptionMode \<Rightarrow> startTagInCaption cfg rec token s
         | InColumnGroupMode \<Rightarrow> startTagInColumnGroup cfg rec token s
         | InTableBodyMode \<Rightarrow> startTagInTableBody cfg rec token s
         | InRowMode \<Rightarrow> startTagInRow cfg rec token s
         | InCellMode \<Rightarrow> startTagInCell cfg rec token s
         | AfterBodyMode \<Rightarrow>
             (if a_name token = ustr ''html'' then onTree (insertHTMLHtmlStartTagInBody token) s
              else reprocessStartTag cfg rec token (setInsertionMode InBodyMode s))
         | AfterAfterBodyMode \<Rightarrow>
             (if a_name token = ustr ''html'' then onTree (insertHTMLHtmlStartTagInBody token) s
              else reprocessStartTag cfg rec token (setInsertionMode InBodyMode s))
         | InHeadNoscriptMode \<Rightarrow> startTagInHeadNoscript cfg rec token s
         | InFramesetMode \<Rightarrow> startTagInFrameset cfg rec token s
         | AfterFramesetMode \<Rightarrow> startTagAfterFrameset cfg rec token s
         | AfterAfterFramesetMode \<Rightarrow> startTagAfterFrameset cfg rec token s
         | InSelectInTableMode \<Rightarrow> startTagInSelectInTable cfg rec token s
         | InSelectMode \<Rightarrow> startTagInSelect cfg rec token s
         | InTableTextMode \<Rightarrow>
             do { s \<leftarrow> defaultForInTableText cfg s; rec (ProcessStartTag token) s }
         | InForeignContentMode \<Rightarrow> startTagInForeignContent cfg rec token s
         | TextMode \<Rightarrow> Some (ASSERT_builder False s))"

section \<open>End tags\<close>

definition endTagAfterHead :: "builderConfig \<Rightarrow> calls \<Rightarrow> atomicToken \<Rightarrow> treeBuilder \<Rightarrow> treeBuilder option" where
  "endTagAfterHead cfg rec token s =
     (let s = ASSERT_mode [AfterHeadMode] s
      in if \<not> isOneOf (a_name token) [''body'', ''html'', ''br''] then Some s
         else do { s \<leftarrow> defaultForAfterHead cfg rec s;
                   processEndTagForInBody cfg rec token (ASSERT_mode [InBodyMode] s) })"

definition endTagInHead :: "builderConfig \<Rightarrow> calls \<Rightarrow> atomicToken \<Rightarrow> treeBuilder \<Rightarrow> treeBuilder option" where
  "endTagInHead cfg rec token s =
     (let s = ASSERT_mode [InHeadMode] s
      in if a_name token = ustr ''head''
           then do { s \<leftarrow> onOpenElements popHTMLHeadElement s; Some (setInsertionMode AfterHeadMode s) }
         else if \<not> isOneOf (a_name token) [''body'', ''html'', ''br''] then Some s
         else do { s \<leftarrow> defaultForInHead cfg rec s; endTagAfterHead cfg rec token s })"

definition endTagBeforeHead :: "builderConfig \<Rightarrow> calls \<Rightarrow> atomicToken \<Rightarrow> treeBuilder \<Rightarrow> treeBuilder option" where
  "endTagBeforeHead cfg rec token s =
     (let s = ASSERT_mode [BeforeHeadMode] s
      in if \<not> isOneOf (a_name token) [''head'', ''body'', ''html'', ''br''] then Some s
         else do { s \<leftarrow> defaultForBeforeHead cfg rec s; endTagInHead cfg rec token s })"

definition endTagBeforeHTML :: "builderConfig \<Rightarrow> calls \<Rightarrow> atomicToken \<Rightarrow> treeBuilder \<Rightarrow> treeBuilder option" where
  "endTagBeforeHTML cfg rec token s =
     (let s = ASSERT_mode [BeforeHTMLMode] s
      in if \<not> isOneOf (a_name token) [''head'', ''body'', ''html'', ''br''] then Some s
         else do { s \<leftarrow> defaultForBeforeHTML cfg s; endTagBeforeHead cfg rec token s })"

definition endTagInitial :: "builderConfig \<Rightarrow> calls \<Rightarrow> atomicToken \<Rightarrow> treeBuilder \<Rightarrow> treeBuilder option" where
  "endTagInitial cfg rec token s =
     do { s \<leftarrow> defaultForInitial cfg s; endTagBeforeHTML cfg rec token s }"

definition endTagAfterAfterBody :: "builderConfig \<Rightarrow> calls \<Rightarrow> atomicToken \<Rightarrow> treeBuilder \<Rightarrow> treeBuilder option" where
  "endTagAfterAfterBody cfg rec token s =
     reprocessEndTag cfg rec token (setInsertionMode InBodyMode (ASSERT_mode [AfterBodyMode, AfterAfterBodyMode] s))"

definition endTagAfterBody :: "builderConfig \<Rightarrow> calls \<Rightarrow> atomicToken \<Rightarrow> treeBuilder \<Rightarrow> treeBuilder option" where
  "endTagAfterBody cfg rec token s =
     (if a_name token = ustr ''html''
      then (if isParsingFragment cfg then Some s else Some (setInsertionMode AfterAfterBodyMode s))
      else do { s \<leftarrow> prepareToReprocessToken cfg s; endTagAfterAfterBody cfg rec token s })"

definition endTagInHeadNoscript :: "builderConfig \<Rightarrow> calls \<Rightarrow> atomicToken \<Rightarrow> treeBuilder \<Rightarrow> treeBuilder option" where
  "endTagInHeadNoscript cfg rec token s =
     (if a_name token = ustr ''noscript''
      then do { c \<leftarrow> currentElementOf s;
                s \<leftarrow> onOpenElements pop_element (ASSERT_builder (hasTagName c ''noscript'') s);
                c \<leftarrow> currentElementOf s;
                Some (setInsertionMode InHeadMode (ASSERT_builder (hasTagName c ''head'') s)) }
      else if a_name token \<noteq> ustr ''br'' then Some s
      else do { s \<leftarrow> defaultForInHeadNoscript cfg rec s; rec (ProcessToken token) s })"

text \<open>A script pauses the parser; what remains of its content is dropped where scripting is not allowed.\<close>

definition endTagInText :: "builderConfig \<Rightarrow> atomicToken \<Rightarrow> treeBuilder \<Rightarrow> treeBuilder option" where
  "endTagInText cfg token s =
     (if a_name token = ustr ''script''
      then do { c \<leftarrow> currentElementOf s;
                let s = ASSERT_builder (hasTagName c ''script'')
                  (s\<lparr>m_isPaused := True, m_scriptToProcess := Some c,
                     m_scriptToProcessStartPosition := toOneBasedTextPosition (m_lastScriptElementStartPosition s)\<rparr>);
                s \<leftarrow> onOpenElements pop_element s;
                s \<leftarrow> (if (case m_fragmentContext cfg of
                           Some fc \<Rightarrow> m_scriptingPermission fc = FragmentScriptingNotAllowed | None \<Rightarrow> False)
                     then onTree (\<lambda>t. map_option (\<lambda>d. t\<lparr>m_dom := d\<rparr>) (removeAllChildren (nodeAddress c) (m_dom t))) s
                     else Some s);
                let s = setInsertionMode (m_originalInsertionMode s) s;
                let s = ASSERT_builder (m_state (m_tokenizer s) = DataState \<or> m_usePreHTML5ParserQuirks cfg) s;
                Some (setTokenizerState DataState s) }
      else do { s \<leftarrow> onOpenElements pop_element s; Some (setInsertionMode (m_originalInsertionMode s) s) })"

definition endTagInFrameset :: "builderConfig \<Rightarrow> atomicToken \<Rightarrow> treeBuilder \<Rightarrow> treeBuilder option" where
  "endTagInFrameset cfg token s =
     (if a_name token = ustr ''frameset''
      then do { c \<leftarrow> currentElementOf s;
                if Some c = m_htmlElement (openElements s) then Some s
                else do { s \<leftarrow> onOpenElements pop_element s;
                          c \<leftarrow> (if isParsingFragment cfg then Some c else currentElementOf s);
                          Some (if \<not> isParsingFragment cfg \<and> \<not> hasTagName c ''frameset''
                                then setInsertionMode AfterFramesetMode s else s) } }
      else Some s)"

definition endTagAfterFrameset :: "atomicToken \<Rightarrow> treeBuilder \<Rightarrow> treeBuilder option" where
  "endTagAfterFrameset token s =
     (if a_name token = ustr ''html'' then Some (setInsertionMode AfterAfterFramesetMode s) else Some s)"

definition endTagInSelect :: "builderConfig \<Rightarrow> calls \<Rightarrow> atomicToken \<Rightarrow> treeBuilder \<Rightarrow> treeBuilder option" where
  "endTagInSelect cfg rec token s =
     (let s = ASSERT_mode [InSelectMode, InSelectInTableMode] s;
          n = a_name token
      in if n = ustr ''optgroup''
           then do { c \<leftarrow> currentElementOf s;
                     below \<leftarrow> (if hasTagName c ''option'' then oneBelowTop (openElements s) else Some c);
                     s \<leftarrow> (if hasTagName c ''option'' \<and> hasTagName below ''optgroup''
                          then processFakeEndTag rec (ustr ''option'') s else Some s);
                     c \<leftarrow> currentElementOf s;
                     if hasTagName c ''optgroup'' then onOpenElements pop_element s else Some s }
         else if n = ustr ''option''
           then do { c \<leftarrow> currentElementOf s;
                     if hasTagName c ''option'' then onOpenElements pop_element s else Some s }
         else if n = ustr ''select''
           then (if \<not> inSelectScope n (openElements s) then Some (ASSERT_builder (isParsingFragment cfg) s)
                 else do { s \<leftarrow> onOpenElements (popUntilPopped (ustr ''select'')) s;
                           resetInsertionModeAppropriately cfg s })
         else Some s)"

definition endTagInSelectInTable :: "builderConfig \<Rightarrow> calls \<Rightarrow> atomicToken \<Rightarrow> treeBuilder \<Rightarrow> treeBuilder option" where
  "endTagInSelectInTable cfg rec token s =
     (let n = a_name token
      in if n = ustr ''caption'' \<or> n = ustr ''table'' \<or> isTableBodyContextTag n \<or> n = ustr ''tr'' \<or> isTableCellContextTag n
         then (if inTableScope n (openElements s)
               then do { s \<leftarrow> rec (ProcessEndTag (fakeEnd ''select'')) s; reprocessEndTag cfg rec token s }
               else Some s)
         else endTagInSelect cfg rec token s)"

text \<open>
  The loop in foreign content: the node to close, \<open>Some None\<close> when an HTML element is next, \<open>None\<close> past the
  bottom.
\<close>

fun foreignEnd_loop :: "ustr \<Rightarrow> element list \<Rightarrow> element option option" where
  "foreignEnd_loop name [] = None"
| "foreignEnd_loop name (e # es) =
     (if hasLocalName e name then Some (Some e)
      else case es of
        [] \<Rightarrow> None
      | e' # _ \<Rightarrow> if namespaceURI e' = XHTML then Some None else foreignEnd_loop name es)"

definition endTagInForeignContent :: "builderConfig \<Rightarrow> calls \<Rightarrow> atomicToken \<Rightarrow> treeBuilder \<Rightarrow> treeBuilder option" where
  "endTagInForeignContent cfg rec token s =
     do { c \<leftarrow> currentElementOf s;
          if a_name token = ustr ''script'' \<and> hasQName c SVG ''script'' then Some s
          else do {
            found \<leftarrow> (if namespaceURI c \<noteq> XHTML then foreignEnd_loop (a_name token) (elements (openElements s))
                     else Some None);
            case found of
              Some e \<Rightarrow> do { s \<leftarrow> onOpenElements (popUntilPopped_element e) s; resetForeignInsertionMode cfg s }
            | None \<Rightarrow> processForeignContentUsingInBodyModeAndResetMode cfg rec token s } }"

definition processEndTag :: "builderConfig \<Rightarrow> calls \<Rightarrow> atomicToken \<Rightarrow> treeBuilder \<Rightarrow> treeBuilder option" where
  "processEndTag cfg rec token s =
     (let s = ASSERT_builder (a_type token = EndTag) s
      in case m_insertionMode s of
           InitialMode \<Rightarrow> endTagInitial cfg rec token s
         | BeforeHTMLMode \<Rightarrow> endTagBeforeHTML cfg rec token s
         | BeforeHeadMode \<Rightarrow> endTagBeforeHead cfg rec token s
         | InHeadMode \<Rightarrow> endTagInHead cfg rec token s
         | AfterHeadMode \<Rightarrow> endTagAfterHead cfg rec token s
         | InBodyMode \<Rightarrow> processEndTagForInBody cfg rec token s
         | InTableMode \<Rightarrow> processEndTagForInTable cfg rec token s
         | InCaptionMode \<Rightarrow> endTagInCaption cfg rec token s
         | InColumnGroupMode \<Rightarrow> endTagInColumnGroup cfg rec token s
         | InRowMode \<Rightarrow> processEndTagForInRow cfg rec token s
         | InCellMode \<Rightarrow> processEndTagForInCell cfg rec token s
         | InTableBodyMode \<Rightarrow> processEndTagForInTableBody cfg rec token s
         | AfterBodyMode \<Rightarrow> endTagAfterBody cfg rec token s
         | AfterAfterBodyMode \<Rightarrow> endTagAfterAfterBody cfg rec token s
         | InHeadNoscriptMode \<Rightarrow> endTagInHeadNoscript cfg rec token s
         | TextMode \<Rightarrow> endTagInText cfg token s
         | InFramesetMode \<Rightarrow> endTagInFrameset cfg token s
         | AfterFramesetMode \<Rightarrow> endTagAfterFrameset token s
         | AfterAfterFramesetMode \<Rightarrow> Some s
         | InSelectInTableMode \<Rightarrow> endTagInSelectInTable cfg rec token s
         | InSelectMode \<Rightarrow> endTagInSelect cfg rec token s
         | InTableTextMode \<Rightarrow> do { s \<leftarrow> defaultForInTableText cfg s; rec (ProcessEndTag token) s }
         | InForeignContentMode \<Rightarrow> endTagInForeignContent cfg rec token s)"

section \<open>Comments and document types\<close>

definition processComment :: "builderConfig \<Rightarrow> calls \<Rightarrow> atomicToken \<Rightarrow> treeBuilder \<Rightarrow> treeBuilder option" where
  "processComment cfg rec token s =
     (let s = ASSERT_builder (a_type token = Comment) s
      in if m_insertionMode s \<in> {InitialMode, BeforeHTMLMode, AfterAfterBodyMode, AfterAfterFramesetMode}
           then onTree (insertCommentOnDocument token) s
         else if m_insertionMode s = AfterBodyMode then onTree (insertCommentOnHTMLHtmlElement token) s
         else if m_insertionMode s = InTableTextMode
           then do { s \<leftarrow> defaultForInTableText cfg s; rec (ProcessComment token) s }
         else onTree (insertComment token) s)"

definition processDoctypeToken :: "builderConfig \<Rightarrow> calls \<Rightarrow> atomicToken \<Rightarrow> treeBuilder \<Rightarrow> treeBuilder option" where
  "processDoctypeToken cfg rec token s =
     (let s = ASSERT_builder (a_type token = DOCTYPE) s
      in if m_insertionMode s = InitialMode
           then do { s \<leftarrow> onTree (insertDoctype (caseFold cfg) token) s; Some (setInsertionMode BeforeHTMLMode s) }
         else if m_insertionMode s = InTableTextMode
           then do { s \<leftarrow> defaultForInTableText cfg s; rec (ProcessDoctypeToken token) s }
         else Some s)"

section \<open>Characters\<close>

text \<open>
  \<open>ExternalCharacterTokenBuffer\<close> is the characters that are left; taking from an empty one, and leaving
  some of them behind, are its assertions.
\<close>

definition takeLeadingWhitespace :: "ustr \<Rightarrow> ustr \<times> ustr" where
  "takeLeadingWhitespace buffer = (takeWhile isHTMLSpace buffer, dropWhile isHTMLSpace buffer)"

definition takeRemainingWhitespace :: "ustr \<Rightarrow> ustr" where
  "takeRemainingWhitespace = filter isHTMLSpace"

definition ASSERT_buffer :: "ustr \<Rightarrow> treeBuilder \<Rightarrow> treeBuilder" where
  "ASSERT_buffer buffer = ASSERT_builder (buffer \<noteq> [])"

definition insertWhitespace :: "ustr \<Rightarrow> treeBuilder \<Rightarrow> treeBuilder option" where
  "insertWhitespace ws s = (if ws \<noteq> [] then onTree (insertTextNode ws) s else Some s)"

definition insertLeadingWhitespace :: "ustr \<Rightarrow> treeBuilder \<Rightarrow> (ustr \<times> treeBuilder) option" where
  "insertLeadingWhitespace buffer s =
     (let (ws, rest) = takeLeadingWhitespace buffer
      in map_option (Pair rest) (insertWhitespace ws (ASSERT_buffer buffer s)))"

definition charactersInBody :: "ustr \<Rightarrow> treeBuilder \<Rightarrow> treeBuilder option" where
  "charactersInBody buffer s =
     do { s \<leftarrow> onTree reconstructTheActiveFormattingElements s;
          s \<leftarrow> onTree (insertTextNode buffer) (ASSERT_buffer buffer s);
          Some (if m_framesetOk s \<and> \<not> isAllWhitespaceOrReplacementCharacters buffer then setFramesetOk False s else s) }"

definition charactersAfterHead :: "builderConfig \<Rightarrow> calls \<Rightarrow> ustr \<Rightarrow> treeBuilder \<Rightarrow> treeBuilder option" where
  "charactersAfterHead cfg rec buffer s =
     do { (buffer, s) \<leftarrow> insertLeadingWhitespace buffer (ASSERT_mode [AfterHeadMode] s);
          if buffer = [] then Some s
          else do { s \<leftarrow> defaultForAfterHead cfg rec s;
                    charactersInBody buffer (ASSERT_mode [InBodyMode, InCaptionMode, InCellMode] s) } }"

definition charactersInHead :: "builderConfig \<Rightarrow> calls \<Rightarrow> ustr \<Rightarrow> treeBuilder \<Rightarrow> treeBuilder option" where
  "charactersInHead cfg rec buffer s =
     do { (buffer, s) \<leftarrow> insertLeadingWhitespace buffer (ASSERT_mode [InHeadMode] s);
          if buffer = [] then Some s
          else do { s \<leftarrow> defaultForInHead cfg rec s; charactersAfterHead cfg rec buffer s } }"

definition charactersBeforeHead :: "builderConfig \<Rightarrow> calls \<Rightarrow> ustr \<Rightarrow> treeBuilder \<Rightarrow> treeBuilder option" where
  "charactersBeforeHead cfg rec buffer s =
     (let s = ASSERT_buffer buffer (ASSERT_mode [BeforeHeadMode] s);
          buffer = snd (takeLeadingWhitespace buffer)
      in if buffer = [] then Some s
         else do { s \<leftarrow> defaultForBeforeHead cfg rec s; charactersInHead cfg rec buffer s })"

definition charactersBeforeHTML :: "builderConfig \<Rightarrow> calls \<Rightarrow> ustr \<Rightarrow> treeBuilder \<Rightarrow> treeBuilder option" where
  "charactersBeforeHTML cfg rec buffer s =
     (let s = ASSERT_buffer buffer (ASSERT_mode [BeforeHTMLMode] s);
          buffer = snd (takeLeadingWhitespace buffer)
      in if buffer = [] then Some s
         else do { s \<leftarrow> defaultForBeforeHTML cfg s; charactersBeforeHead cfg rec buffer s })"

definition charactersInitial :: "builderConfig \<Rightarrow> calls \<Rightarrow> ustr \<Rightarrow> treeBuilder \<Rightarrow> treeBuilder option" where
  "charactersInitial cfg rec buffer s =
     (let s = ASSERT_buffer buffer s;
          buffer = snd (takeLeadingWhitespace buffer)
      in if buffer = [] then Some s
         else do { s \<leftarrow> defaultForInitial cfg s; charactersBeforeHTML cfg rec buffer s })"

definition charactersInColumnGroup :: "builderConfig \<Rightarrow> calls \<Rightarrow> ustr \<Rightarrow> treeBuilder \<Rightarrow> treeBuilder option" where
  "charactersInColumnGroup cfg rec buffer s =
     do { (buffer, s) \<leftarrow> insertLeadingWhitespace buffer s;
          if buffer = [] then Some s
          else do {
            (closed, s) \<leftarrow> processColgroupEndTagForInColumnGroup cfg s;
            let s = (if closed then s else ASSERT_builder (isParsingFragment cfg) s);
            let buffer = (if closed then buffer else dropWhile isNotHTMLSpace buffer);
            if buffer = [] then Some s
            else do { s \<leftarrow> prepareToReprocessToken cfg s; rec (ProcessCharacterBuffer buffer) s } } }"

definition processCharacterBuffer :: "builderConfig \<Rightarrow> calls \<Rightarrow> ustr \<Rightarrow> treeBuilder \<Rightarrow> treeBuilder option" where
  "processCharacterBuffer cfg rec buffer s =
     (case m_insertionMode s of
        InitialMode \<Rightarrow> charactersInitial cfg rec buffer s
      | BeforeHTMLMode \<Rightarrow> charactersBeforeHTML cfg rec buffer s
      | BeforeHeadMode \<Rightarrow> charactersBeforeHead cfg rec buffer s
      | InHeadMode \<Rightarrow> charactersInHead cfg rec buffer s
      | AfterHeadMode \<Rightarrow> charactersAfterHead cfg rec buffer s
      | InBodyMode \<Rightarrow> charactersInBody buffer s
      | InCaptionMode \<Rightarrow> charactersInBody buffer s
      | InCellMode \<Rightarrow> charactersInBody buffer s
      | InTableTextMode \<Rightarrow> Some (s\<lparr>m_pendingTableCharacters := m_pendingTableCharacters s @ buffer\<rparr>)
      | InColumnGroupMode \<Rightarrow> charactersInColumnGroup cfg rec buffer s
      | AfterBodyMode \<Rightarrow>
          do { s \<leftarrow> prepareToReprocessToken cfg (setInsertionMode InBodyMode s); rec (ProcessCharacterBuffer buffer) s }
      | AfterAfterBodyMode \<Rightarrow>
          do { s \<leftarrow> prepareToReprocessToken cfg (setInsertionMode InBodyMode s); rec (ProcessCharacterBuffer buffer) s }
      | TextMode \<Rightarrow> onTree (insertTextNode buffer) (ASSERT_buffer buffer s)
      | InHeadNoscriptMode \<Rightarrow>
          do { (buffer, s) \<leftarrow> insertLeadingWhitespace buffer s;
               if buffer = [] then Some s
               else do { s \<leftarrow> defaultForInHeadNoscript cfg rec s; rec (ProcessCharacterBuffer buffer) s } }
      | InFramesetMode \<Rightarrow> insertWhitespace (takeRemainingWhitespace buffer) (ASSERT_buffer buffer s)
      | AfterFramesetMode \<Rightarrow> insertWhitespace (takeRemainingWhitespace buffer) (ASSERT_buffer buffer s)
      | InSelectInTableMode \<Rightarrow> onTree (insertTextNode buffer) (ASSERT_buffer buffer s)
      | InSelectMode \<Rightarrow> onTree (insertTextNode buffer) (ASSERT_buffer buffer s)
      | InForeignContentMode \<Rightarrow>
          do { s \<leftarrow> onTree (insertTextNode buffer) (ASSERT_buffer buffer s);
               Some (if m_framesetOk s \<and> \<not> isAllWhitespace buffer then setFramesetOk False s else s) }
      | AfterAfterFramesetMode \<Rightarrow>
          (let ws = takeRemainingWhitespace buffer; s = ASSERT_buffer buffer s
           in if ws \<noteq> [] then do { s \<leftarrow> onTree reconstructTheActiveFormattingElements s; onTree (insertTextNode ws) s }
              else Some s)
      | _ \<Rightarrow> \<comment> \<open>in a table, its body or a row\<close>
          do { s \<leftarrow> prepareToReprocessToken cfg
                 (setInsertionMode InTableTextMode
                   ((ASSERT_builder (m_pendingTableCharacters s = []) s)\<lparr>m_originalInsertionMode := m_insertionMode s\<rparr>));
               Some (s\<lparr>m_pendingTableCharacters := m_pendingTableCharacters s @ buffer\<rparr>) })"

section \<open>The end of the file\<close>

definition endOfFile :: "treeBuilder \<Rightarrow> treeBuilder option" where
  "endOfFile s =
     do { _ \<leftarrow> currentElementOf s; onOpenElements (Some \<circ> popAll) s }"

definition endOfFileAfterHead :: "builderConfig \<Rightarrow> calls \<Rightarrow> treeBuilder \<Rightarrow> treeBuilder option" where
  "endOfFileAfterHead cfg rec s =
     do { s \<leftarrow> defaultForAfterHead cfg rec (ASSERT_mode [AfterHeadMode] s);
          endOfFile (ASSERT_mode [InBodyMode, InCellMode, InCaptionMode, InRowMode] s) }"

definition endOfFileInHead :: "builderConfig \<Rightarrow> calls \<Rightarrow> treeBuilder \<Rightarrow> treeBuilder option" where
  "endOfFileInHead cfg rec s =
     do { s \<leftarrow> defaultForInHead cfg rec (ASSERT_mode [InHeadMode] s); endOfFileAfterHead cfg rec s }"

definition endOfFileBeforeHead :: "builderConfig \<Rightarrow> calls \<Rightarrow> treeBuilder \<Rightarrow> treeBuilder option" where
  "endOfFileBeforeHead cfg rec s =
     do { s \<leftarrow> defaultForBeforeHead cfg rec (ASSERT_mode [BeforeHeadMode] s); endOfFileInHead cfg rec s }"

definition endOfFileBeforeHTML :: "builderConfig \<Rightarrow> calls \<Rightarrow> treeBuilder \<Rightarrow> treeBuilder option" where
  "endOfFileBeforeHTML cfg rec s =
     do { s \<leftarrow> defaultForBeforeHTML cfg (ASSERT_mode [BeforeHTMLMode] s); endOfFileBeforeHead cfg rec s }"

definition processEndOfFile :: "builderConfig \<Rightarrow> calls \<Rightarrow> atomicToken \<Rightarrow> treeBuilder \<Rightarrow> treeBuilder option" where
  "processEndOfFile cfg rec token s =
     (let s = ASSERT_builder (a_type token = EndOfFile) s
      in case m_insertionMode s of
           InitialMode \<Rightarrow> do { s \<leftarrow> defaultForInitial cfg s; endOfFileBeforeHTML cfg rec s }
         | BeforeHTMLMode \<Rightarrow> endOfFileBeforeHTML cfg rec s
         | BeforeHeadMode \<Rightarrow> endOfFileBeforeHead cfg rec s
         | InHeadMode \<Rightarrow> endOfFileInHead cfg rec s
         | AfterHeadMode \<Rightarrow> endOfFileAfterHead cfg rec s
         | InHeadNoscriptMode \<Rightarrow>
             do { s \<leftarrow> defaultForInHeadNoscript cfg rec s; rec (ProcessEndOfFile token) s }
         | InColumnGroupMode \<Rightarrow>
             do { c \<leftarrow> currentElementOf s;
                  if Some c = m_htmlElement (openElements s) then Some (ASSERT_builder (isParsingFragment cfg) s)
                  else do { (closed, s) \<leftarrow> processColgroupEndTagForInColumnGroup cfg s;
                            if \<not> closed then Some (ASSERT_builder (isParsingFragment cfg) s)
                            else do { s \<leftarrow> prepareToReprocessToken cfg s; rec (ProcessEndOfFile token) s } } }
         | InForeignContentMode \<Rightarrow> rec (ProcessEndOfFile token) (setInsertionMode InBodyMode s)
         | InTableTextMode \<Rightarrow> do { s \<leftarrow> defaultForInTableText cfg s; rec (ProcessEndOfFile token) s }
         | TextMode \<Rightarrow>
             do { s \<leftarrow> onOpenElements pop_element s;
                  s \<leftarrow> prepareToReprocessToken cfg (setInsertionMode (m_originalInsertionMode s) s);
                  rec (ProcessEndOfFile token) s }
         | _ \<Rightarrow> endOfFile s)"

section \<open>The recursion\<close>

definition processToken_builder :: "calls \<Rightarrow> atomicToken \<Rightarrow> treeBuilder \<Rightarrow> treeBuilder option" where
  "processToken_builder rec token s =
     (case a_type token of
        Uninitialized \<Rightarrow> Some (ASSERT_builder False s)
      | DOCTYPE \<Rightarrow> rec (ProcessDoctypeToken token) s
      | StartTag \<Rightarrow> rec (ProcessStartTag token) s
      | EndTag \<Rightarrow> rec (ProcessEndTag token) s
      | Comment \<Rightarrow> rec (ProcessComment token) s
      | Character \<Rightarrow>
          rec (ProcessCharacterBuffer (a_externalCharacters token)) (ASSERT_buffer (a_externalCharacters token) s)
      | EndOfFile \<Rightarrow> rec (ProcessEndOfFile token) s)"

definition perform :: "builderConfig \<Rightarrow> calls \<Rightarrow> calls" where
  "perform cfg rec c =
     (case c of
        ProcessToken token \<Rightarrow> processToken_builder rec token
      | ProcessDoctypeToken token \<Rightarrow> processDoctypeToken cfg rec token
      | ProcessStartTag token \<Rightarrow> processStartTag cfg rec token
      | ProcessEndTag token \<Rightarrow> processEndTag cfg rec token
      | ProcessComment token \<Rightarrow> processComment cfg rec token
      | ProcessCharacterBuffer buffer \<Rightarrow> processCharacterBuffer cfg rec buffer
      | ProcessEndOfFile token \<Rightarrow> processEndOfFile cfg rec token)"

primrec process :: "builderConfig \<Rightarrow> nat \<Rightarrow> calls" where
  "process cfg 0 = (\<lambda>c s. None)"
| "process cfg (Suc fuel) = perform cfg (process cfg fuel)"

definition constructTreeFromAtomicToken :: "builderConfig \<Rightarrow> nat \<Rightarrow> atomicToken \<Rightarrow> treeBuilder \<Rightarrow> treeBuilder option" where
  "constructTreeFromAtomicToken cfg fuel token s =
     do { s \<leftarrow> process cfg fuel (ProcessToken token) s;
          let mode = m_insertionMode s;
          let s = onTokenizer (\<lambda>tk. tk\<lparr>m_forceNullCharacterReplacement := (mode = TextMode \<or> mode = InForeignContentMode)\<rparr>) s;
          allowCDATA \<leftarrow> (if mode = InForeignContentMode
                        then do { c \<leftarrow> currentElementOf s; Some (namespaceURI c \<noteq> XHTML) }
                        else Some False);
          Some (onTokenizer (\<lambda>tk. tk\<lparr>m_shouldAllowCDATA := allowCDATA\<rparr>) s) }"

definition constructTreeFromToken :: "builderConfig \<Rightarrow> nat \<Rightarrow> token \<Rightarrow> treeBuilder \<Rightarrow> treeBuilder option" where
  "constructTreeFromToken cfg fuel rawToken =
     constructTreeFromAtomicToken cfg fuel (atomicToken_of rawToken)"

text \<open>The tree builder of a fragment, and the script it is paused for.\<close>

definition newFragmentTreeBuilder :: "builderConfig \<Rightarrow> nat \<Rightarrow> fragmentContext \<Rightarrow> compatibilityMode \<Rightarrow> tokenizer \<Rightarrow> treeBuilder option" where
  "newFragmentTreeBuilder cfg fuel fc fragmentMode tk =
     (let t = newConstructionSite (m_scriptingPermission fc) True;
          t = t\<lparr>documentCompatibility := setCompatibilityMode fragmentMode (documentCompatibility t)\<rparr>;
          s = (newTreeBuilder tk)\<lparr>m_tree := t\<rparr>
      in if m_contextElement fc = None then Some s
         else do {
           let s = s\<lparr>m_tree := t\<lparr>documentCompatibility :=
                     setCompatibilityMode (contextCompatibilityMode fc) (documentCompatibility t)\<rparr>\<rparr>;
           s \<leftarrow> processFakeStartTag (process cfg fuel) ''html'' None s;
           s \<leftarrow> resetInsertionModeAppropriately cfg s;
           onTree (Some \<circ> setForm (closestFormAncestor fc)) s })"

definition takeScriptToProcess :: "treeBuilder \<Rightarrow> (element option \<times> textPosition) \<times> treeBuilder" where
  "takeScriptToProcess s =
     ((m_scriptToProcess s, m_scriptToProcessStartPosition s),
      s\<lparr>m_isPaused := False, m_scriptToProcessStartPosition := uninitializedPositionValue1, m_scriptToProcess := None\<rparr>)"

end
