(* ===== verification/HTMLTreeBuilderModes.thy ===== *)
theory HTMLTreeBuilderModes
  imports HTMLAdoptionAgency HTMLTreeBuilderProcess
begin

text \<open>
  The invariant of the tree builder of a document: what the stack of open elements looks like in every
  insertion mode, and the relation \<open>quiet\<close> between stacks that the tags of the body keep it by.
\<close>

section \<open>Running an operation\<close>

text \<open>\<open>does r P\<close>: the operation returns, with a result that satisfies \<open>P\<close>.\<close>

definition does :: "'a option \<Rightarrow> ('a \<Rightarrow> bool) \<Rightarrow> bool" where
  "does r P \<longleftrightarrow> (case r of None \<Rightarrow> False | Some x \<Rightarrow> P x)"

lemma does_Some [simp]: "does (Some x) P \<longleftrightarrow> P x" and does_None [simp]: "\<not> does None P"
  by (simp_all add: does_def)

lemma does_iff: "does r P \<longleftrightarrow> (\<exists>x. r = Some x \<and> P x)"
  by (cases r) simp_all

lemma doesE: "does r P \<Longrightarrow> (\<And>x. r = Some x \<Longrightarrow> P x \<Longrightarrow> thesis) \<Longrightarrow> thesis"
  by (auto simp: does_iff)

lemma does_bind: "does r P \<Longrightarrow> (\<And>x. P x \<Longrightarrow> does (f x) Q) \<Longrightarrow> does (Option.bind r f) Q"
  by (auto simp: does_iff)

lemma does_bind_iff: "does (Option.bind r f) Q \<longleftrightarrow> does r (\<lambda>x. does (f x) Q)"
  by (cases r) simp_all

lemma does_map: "does (map_option f r) P \<longleftrightarrow> does r (\<lambda>x. P (f x))"
  by (cases r) simp_all

lemma does_mono: "does r P \<Longrightarrow> (\<And>x. P x \<Longrightarrow> Q x) \<Longrightarrow> does r Q"
  by (auto simp: does_iff)

lemma does_if: "(c \<Longrightarrow> does r P) \<Longrightarrow> (\<not> c \<Longrightarrow> does r' P) \<Longrightarrow> does (if c then r else r') P"
  by simp

lemma does_onTree: "does (onTree f s) P \<longleftrightarrow> does (f (m_tree s)) (\<lambda>t. P (s\<lparr>m_tree := t\<rparr>))"
  by (simp add: onTree_def does_map)

lemma ASSERT_builder_True [simp]: "ASSERT_builder True s = s"
  by (simp add: ASSERT_builder_def)

section \<open>Sets of tags\<close>

definition tagged :: "string list \<Rightarrow> element \<Rightarrow> bool" where
  "tagged ns e \<longleftrightarrow> list_ex (hasTagName e) ns"

lemma tagged_tag: "hasTagName e n \<Longrightarrow> tagged ns e \<longleftrightarrow> n \<in> set ns"
  by (auto simp: tagged_def list_ex_iff hasQName_def)

lemma taggedE:
  assumes "tagged ns e"
  obtains n where "n \<in> set ns" "hasTagName e n" "namespaceURI e = XHTML" "localName e = ustr n"
  using assms by (auto simp: tagged_def list_ex_iff hasQName_def)

lemma tagged_XHTML: "tagged ns e \<Longrightarrow> namespaceURI e = XHTML"
  by (auto elim: taggedE)

lemma tagged_disjoint: "tagged ns e \<Longrightarrow> list_all (\<lambda>n. n \<notin> set ms) ns \<Longrightarrow> \<not> tagged ms e"
  by (auto elim!: taggedE simp: tagged_tag list_all_iff)

lemma tagged_subset: "tagged ns e \<Longrightarrow> list_all (\<lambda>n. n \<in> set ms) ns \<Longrightarrow> tagged ms e"
  by (auto elim!: taggedE simp: tagged_tag list_all_iff)

lemma tagged_local: "namespaceURI e = XHTML \<Longrightarrow> tagged ns e \<longleftrightarrow> localName e \<in> ustr ` set ns"
  by (auto simp: tagged_def list_ex_iff hasQName_def)

lemma tagged_hasTagName: "tagged [n] e \<longleftrightarrow> hasTagName e n"
  by (simp add: tagged_def)

text \<open>The parts of a table, and what the insertion mode is reset by.\<close>

definition partNames :: "string list" where
  "partNames = [''table'', ''caption'', ''tbody'', ''thead'', ''tfoot'', ''tr'', ''td'', ''th'']"

definition tablePart :: "element \<Rightarrow> bool" where
  "tablePart = tagged partNames"

definition outerNames :: "string list" where
  "outerNames = [''html'', ''head'', ''body'', ''select'', ''colgroup'', ''frameset'']"

definition isForeign :: "element \<Rightarrow> bool" where
  "isForeign e \<longleftrightarrow> namespaceURI e = SVG \<or> namespaceURI e = MathML"

definition resetStop :: "element \<Rightarrow> bool" where
  "resetStop e \<longleftrightarrow> tablePart e \<or> tagged outerNames e \<or> isForeign e"

text \<open>
  What can be above the body, and what of it can be pushed anywhere there.  No foreign element has the name
  of an element with an implied end tag: an end tag of that name would miss its element.
\<close>

definition impliedNames :: "string list" where
  "impliedNames = [''dd'', ''dt'', ''li'', ''option'', ''optgroup'', ''p'', ''rp'', ''rt'']"

definition inner :: "element \<Rightarrow> bool" where
  "inner e \<longleftrightarrow> (namespaceURI e = XHTML \<or> isForeign e \<and> localName e \<notin> ustr ` set impliedNames) \<and> \<not> tagged outerNames e"

definition ordinary :: "element \<Rightarrow> bool" where
  "ordinary e \<longleftrightarrow> namespaceURI e = XHTML \<and> \<not> resetStop e"

definition ordinaryName :: "ustr \<Rightarrow> bool" where
  "ordinaryName n \<longleftrightarrow> n \<notin> ustr ` set (partNames @ outerNames)"

lemma ordinary_iff: "ordinary e \<longleftrightarrow> namespaceURI e = XHTML \<and> ordinaryName (localName e)"
proof -
  have "resetStop e \<longleftrightarrow> localName e \<in> ustr ` set (partNames @ outerNames)"
    if "namespaceURI e = XHTML"
    unfolding resetStop_def tablePart_def tagged_local [OF that] set_append image_Un by (simp add: isForeign_def that)
  then show ?thesis unfolding ordinary_def ordinaryName_def by blast
qed

lemma inj_ustr: "inj ustr"
  by (simp add: inj_def)

lemma ordinaryName_ustr [simp]: "ordinaryName (ustr n) \<longleftrightarrow> n \<notin> set (partNames @ outerNames)"
  unfolding ordinaryName_def by (subst inj_image_mem_iff [OF inj_ustr]) (rule refl)

lemma ordinaryD:
  assumes "ordinary e"
  shows "inner e" "\<not> resetStop e" "\<not> tablePart e" "namespaceURI e = XHTML" "plainElement e" "\<not> isForeign e"
proof -
  show xhtml: "namespaceURI e = XHTML" and stop: "\<not> resetStop e" using assms by (simp_all add: ordinary_def)
  then show "\<not> tablePart e" "\<not> isForeign e" by (simp_all add: resetStop_def)
  show "inner e" using stop xhtml by (simp add: inner_def resetStop_def)
  have "\<not> tagged [''html'', ''head'', ''body''] e"
    using stop tagged_subset [of "[''html'', ''head'', ''body'']" e outerNames] by (auto simp: resetStop_def outerNames_def)
  then show "plainElement e" by (simp add: plainElement_def tagged_def)
qed

lemma inner_plain: "inner e \<Longrightarrow> plainElement e"
  by (auto simp: inner_def plainElement_def tagged_tag outerNames_def)

lemma ordinary_oneOf:
  assumes "isOneOf n names" "list_all (\<lambda>x. ordinaryName (ustr x)) names"
  shows "ordinaryName n"
  using assms by (auto simp: isOneOf_def list_ex_iff list_all_iff)

lemma formatting_ordinary: "isFormattingElement e \<Longrightarrow> ordinary e"
proof -
  assume "isFormattingElement e"
  then obtain n where n: "n \<in> set formattingNames" "hasTagName e n" by (auto simp: isFormattingElement_def list_ex_iff)
  have "list_all (\<lambda>n. ordinaryName (ustr n)) formattingNames" by (simp add: formattingNames_def outerNames_def partNames_def)
  then show ?thesis using n unfolding ordinary_iff by (simp add: list_all_iff hasQName_def)
qed

section \<open>Stacks with a body\<close>

text \<open>A cell is directly above its row, a row above its group, a group and a caption above the table.\<close>

definition parentFits :: "element \<Rightarrow> element list \<Rightarrow> bool" where
  "parentFits e es \<longleftrightarrow>
     (tagged [''td'', ''th''] e \<longrightarrow> es \<noteq> [] \<and> tagged [''tr''] (hd es))
     \<and> (tagged [''tr''] e \<longrightarrow> es \<noteq> [] \<and> tagged [''tbody'', ''thead'', ''tfoot''] (hd es))
     \<and> (tagged [''tbody'', ''thead'', ''tfoot'', ''caption'', ''colgroup''] e \<longrightarrow> es \<noteq> [] \<and> tagged [''table''] (hd es))"

fun nested :: "element list \<Rightarrow> bool" where
  "nested [] \<longleftrightarrow> True"
| "nested (e # es) \<longleftrightarrow> parentFits e es \<and> nested es"

definition bodyStack :: "element list \<Rightarrow> bool" where
  "bodyStack es \<longleftrightarrow> (\<exists>xs b h. es = xs @ [b, h] \<and> hasTagName b ''body'' \<and> hasTagName h ''html''
     \<and> (\<forall>x \<in> set xs. inner x) \<and> nested es)"

definition topStop :: "element list \<Rightarrow> element option" where
  "topStop es = find resetStop es"

definition quiet :: "element list \<Rightarrow> element list \<Rightarrow> bool" where
  "quiet es es' \<longleftrightarrow> bodyStack es' \<and> (\<forall>e. topStop es = Some e \<longrightarrow> tablePart e \<longrightarrow> topStop es' = Some e)"

lemma quiet_refl: "bodyStack es \<Longrightarrow> quiet es es"
  by (simp add: quiet_def)

lemma quiet_trans: "quiet es es1 \<Longrightarrow> quiet es1 es2 \<Longrightarrow> quiet es es2"
  by (simp add: quiet_def)

lemma bodyStackE:
  assumes "bodyStack es"
  obtains xs b h where "es = xs @ [b, h]" "hasTagName b ''body''" "hasTagName h ''html''" "\<forall>x \<in> set xs. inner x" "nested es"
  using assms by (auto simp: bodyStack_def)

lemma bodyStack_ne: "bodyStack es \<Longrightarrow> es \<noteq> []"
  by (auto simp: bodyStack_def)

lemma nested_drop: "nested (xs @ ys) \<Longrightarrow> nested ys"
  by (induction xs) auto

lemma bodyStack_Cons: "bodyStack es \<Longrightarrow> inner e \<Longrightarrow> parentFits e es \<Longrightarrow> bodyStack (e # es)"
  unfolding bodyStack_def by (metis append_Cons nested.simps(2) set_ConsD)

lemma not_part_fits: "\<not> tablePart e \<Longrightarrow> inner e \<Longrightarrow> parentFits e es"
proof -
  assume e: "\<not> tablePart e" "inner e"
  have "\<not> tagged [''td'', ''th''] e" "\<not> tagged [''tr''] e" "\<not> tagged [''tbody'', ''thead'', ''tfoot'', ''caption''] e"
    using e(1) by (auto simp: tablePart_def partNames_def elim!: taggedE) (auto simp: tagged_tag)
  moreover have "\<not> tagged [''colgroup''] e" using e(2) by (auto simp: inner_def outerNames_def tagged_def)
  ultimately show ?thesis by (auto simp: parentFits_def tagged_def)
qed

lemma quiet_push: "bodyStack es \<Longrightarrow> ordinary e \<Longrightarrow> quiet es (e # es)"
  using ordinaryD [of e] by (simp add: quiet_def bodyStack_Cons not_part_fits topStop_def)

lemma quiet_pushes: "bodyStack es \<Longrightarrow> \<forall>x \<in> set xs. ordinary x \<Longrightarrow> quiet es (xs @ es)"
proof (induction xs)
  case (Cons x xs)
  then have "quiet es (xs @ es)" "ordinary x" by simp_all
  then show ?case using quiet_push [of "xs @ es" x] quiet_trans by (auto simp: quiet_def)
qed (simp add: quiet_refl)

text \<open>Popping above the body.\<close>

lemma bodyStack_drop:
  assumes "bodyStack (xs @ ys)" "\<forall>x \<in> set xs. \<not> hasTagName x ''body''" "ys \<noteq> []"
  shows "bodyStack ys"
proof -
  obtain zs b h where es: "xs @ ys = zs @ [b, h]" "hasTagName b ''body''" "hasTagName h ''html''" "\<forall>x \<in> set zs. inner x" "nested (xs @ ys)"
    using assms(1) by (rule bodyStackE)
  have "\<not> hasTagName h ''body''" using es(3) by (simp add: hasQName_def)
  consider us where "xs = zs @ us" "us @ ys = [b, h]" | us where "xs @ us = zs" "ys = us @ [b, h]"
    using es(1) by (auto simp: append_eq_append_conv2)
  then show ?thesis
  proof cases
    case 1
    then have "us = []" using assms(2,3) es(2) by (cases us) auto
    then show ?thesis using es nested_drop 1 unfolding bodyStack_def by (metis append_Nil empty_iff empty_set)
  next
    case 2
    then show ?thesis using es nested_drop unfolding bodyStack_def by (metis Un_iff set_append)
  qed
qed

lemma topStop_drop: "\<forall>x \<in> set xs. \<not> resetStop x \<Longrightarrow> topStop (xs @ ys) = topStop ys"
  by (induction xs) (simp_all add: topStop_def)

lemma quiet_pop:
  assumes "bodyStack (xs @ ys)" "ys \<noteq> []" "\<forall>x \<in> set xs. \<not> resetStop x"
  shows "quiet (xs @ ys) ys"
proof -
  have "\<forall>x \<in> set xs. \<not> hasTagName x ''body''" using assms(3) by (auto simp: resetStop_def tagged_tag outerNames_def)
  then show ?thesis using bodyStack_drop [OF assms(1) _ assms(2)] topStop_drop [OF assms(3)] by (simp add: quiet_def)
qed

text \<open>Taking out an element that is not part of a table.\<close>

lemma parentFits_remove: "\<not> tablePart r \<Longrightarrow> parentFits e (xs @ r # ys) \<Longrightarrow> parentFits e (xs @ ys)"
proof (cases xs)
  case Nil
  assume r: "\<not> tablePart r" and fits: "parentFits e (xs @ r # ys)"
  have "\<not> tagged [''tr''] r" "\<not> tagged [''tbody'', ''thead'', ''tfoot''] r" "\<not> tagged [''table''] r"
    using r by (auto simp: tablePart_def partNames_def elim!: taggedE) (auto simp: tagged_tag)
  then show ?thesis using fits Nil by (simp add: parentFits_def)
qed (simp add: parentFits_def)

lemma nested_remove: "\<not> tablePart r \<Longrightarrow> nested (xs @ r # ys) \<Longrightarrow> nested (xs @ ys)"
  by (induction xs) (auto intro: parentFits_remove)

lemma quiet_remove:
  assumes "bodyStack (xs @ r # ys)" "\<not> tablePart r" "inner r"
  shows "quiet (xs @ r # ys) (xs @ ys)"
proof -
  obtain zs b h where es: "xs @ r # ys = zs @ [b, h]" "hasTagName b ''body''" "hasTagName h ''html''" "\<forall>x \<in> set zs. inner x" "nested (xs @ r # ys)"
    using assms(1) by (rule bodyStackE)
  have "r \<noteq> b" "r \<noteq> h" using assms(3) es(2,3) by (auto simp: inner_def tagged_tag outerNames_def)
  then obtain us where us: "ys = us @ [b, h]" "zs = xs @ r # us"
    using es(1) by (auto simp: append_eq_append_conv2 Cons_eq_append_conv append_eq_Cons_conv)
  then have "bodyStack (xs @ ys)"
    unfolding bodyStack_def using es nested_remove [OF assms(2) es(5)] by (intro exI [of _ "xs @ us"]) auto
  moreover have "topStop (xs @ ys) = Some e" if "topStop (xs @ r # ys) = Some e" "tablePart e" for e
    using that assms(2) by (induction xs) (auto simp: topStop_def split: if_splits)
  ultimately show ?thesis by (simp add: quiet_def)
qed

end
