(* ===== verification/HTMLTreeBuilderQuiet.thy ===== *)
theory HTMLTreeBuilderQuiet
  imports HTMLTreeBuilderModes
begin

text \<open>
  The operations of the construction site as steps of the tree builder: what each does to the stack of open
  elements (\<open>repiled\<close>), and that the ones the tags of the body use are \<open>quietly\<close>: they keep the
  insertion mode, the body at the bottom of the stack and the part of a table that is open.
\<close>

section \<open>Changes of the stack\<close>

abbreviation stackOf :: "treeBuilder \<Rightarrow> element list" where
  "stackOf s \<equiv> siteElements (m_tree s)"

definition repiled :: "treeBuilder \<Rightarrow> element list \<Rightarrow> treeBuilder \<Rightarrow> bool" where
  "repiled s es s' \<longleftrightarrow> (\<exists>t. s' = s\<lparr>m_tree := t\<rparr> \<and> site_ok t \<and> siteElements t = es \<and> siteFrame t = siteFrame (m_tree s)
     \<and> m_form t = m_form (m_tree s) \<and> m_activeFormattingElements t = m_activeFormattingElements (m_tree s))"

lemma repiledD:
  assumes "repiled s es s'"
  shows "site_ok (m_tree s')" "stackOf s' = es" "siteFrame (m_tree s') = siteFrame (m_tree s)" "s' = s\<lparr>m_tree := m_tree s'\<rparr>"
    "m_form (m_tree s') = m_form (m_tree s)" "activeFormattingElements s' = activeFormattingElements s"
  using assms by (auto simp: repiled_def)

lemma repiled_trans: "repiled s es s1 \<Longrightarrow> repiled s1 es' s2 \<Longrightarrow> repiled s es' s2"
  by (auto simp: repiled_def)

lemma repiledI: "restacked (m_tree s) rs t \<Longrightarrow> siteElements t = es \<Longrightarrow> repiled s es (s\<lparr>m_tree := t\<rparr>)"
  using restackedD [of "m_tree s" rs t] unfolding repiled_def by blast

lemma restacked_repiled:
  "onStack_option f (m_tree s) = Some t \<Longrightarrow> restacked (m_tree s) rs t \<Longrightarrow> does (onOpenElements f s) (repiled s (map m_element rs))"
  using restackedD [of "m_tree s" rs t] by (auto simp: onOpenElements_def does_onTree repiled_def)

lemma stack_splitE:
  assumes "stackOf s = A @ t # B"
  obtains rs r rest where "m_top (openElements s) = rs @ r # rest" "A = map m_element rs" "t = m_element r" "B = map m_element rest"
  using assms by (auto simp: map_eq_append_conv map_eq_Cons_conv)

lemma does_popPast:
  assumes "site_ok (m_tree s)" "stackOf s = A @ t # B" "stop t" "\<forall>x \<in> set A. \<not> stop x \<and> plainElement x" "plainElement t"
  shows "does (onOpenElements (\<lambda>es. do { es \<leftarrow> popLoop stop es; pop_element es }) s) (repiled s B)"
proof -
  obtain rs r rest where top: "m_top (openElements s) = rs @ r # rest" "A = map m_element rs" "t = m_element r" "B = map m_element rest"
    using stack_splitE [OF assms(2)] .
  then obtain t' where "onStack_option (\<lambda>es. do { es \<leftarrow> popLoop stop es; pop_element es }) (m_tree s) = Some t'" "restacked (m_tree s) rest t'"
    using popPast_ok [OF assms(1) top(1), of stop] assms(3-5) by auto
  then show ?thesis unfolding top(4) by (rule restacked_repiled)
qed

lemma does_popUntilPopped:
  assumes "site_ok (m_tree s)" "stackOf s = A @ t # B" "hasLocalName t n" "\<forall>x \<in> set A. \<not> hasLocalName x n \<and> plainElement x" "plainElement t"
  shows "does (onOpenElements (popUntilPopped n) s) (repiled s B)"
  using does_popPast [OF assms(1,2), of "\<lambda>e. hasLocalName e n"] assms(3-5)
  by (simp add: popUntilPopped_def [abs_def] popUntil_def)

lemma does_popUntilPopped_element:
  assumes "site_ok (m_tree s)" "stackOf s = A @ t # B" "\<forall>x \<in> set A. plainElement x" "plainElement t"
  shows "does (onOpenElements (popUntilPopped_element t) s) (repiled s B)"
proof -
  have "t \<notin> set A" using distinct_elements [OF assms(1)] assms(2) by auto
  then show ?thesis
    using does_popPast [OF assms(1,2), of "\<lambda>x. x = t"] assms(3,4)
    by (auto simp: popUntilPopped_element_def [abs_def] popUntil_element_def)
qed

lemma does_popLoop:
  assumes "site_ok (m_tree s)" "stackOf s = A @ t # B" "stop t" "\<forall>x \<in> set A. \<not> stop x \<and> plainElement x"
  shows "does (onOpenElements (popLoop stop) s) (repiled s (t # B))"
proof -
  obtain rs r rest where top: "m_top (openElements s) = rs @ r # rest" "A = map m_element rs" "t = m_element r" "B = map m_element rest"
    using stack_splitE [OF assms(2)] .
  then obtain t' where "onStack_option (popLoop stop) (m_tree s) = Some t'" "restacked (m_tree s) (r # rest) t'"
    using popLoop_ok_site [OF assms(1) top(1), of stop] assms(3,4) by auto
  then show ?thesis using restacked_repiled [of "popLoop stop" s t' "r # rest"] by (simp add: top(3,4))
qed

lemma does_pop:
  assumes "site_ok (m_tree s)" "stackOf s = t # B" "plainElement t"
  shows "does (onOpenElements pop_element s) (repiled s B)"
proof -
  obtain r rest where top: "m_top (openElements s) = r # rest" "t = m_element r" "B = map m_element rest"
    using stack_splitE [of s "[]" t B] assms(2) by auto
  then obtain t' where "onStack_option pop_element (m_tree s) = Some t'" "restacked (m_tree s) rest t'"
    using pop_element_ok [OF assms(1) top(1)] assms(3) by auto
  then show ?thesis unfolding top(3) by (rule restacked_repiled)
qed

lemma does_remove:
  assumes "site_ok (m_tree s)" "stackOf s = A @ t # B" "plainElement t"
  shows "does (onOpenElements (remove_element t) s) (repiled s (A @ B))"
proof -
  obtain rs r rest where top: "m_top (openElements s) = rs @ r # rest" "A = map m_element rs" "t = m_element r" "B = map m_element rest"
    using stack_splitE [OF assms(2)] .
  then obtain t' where "onStack_option (remove_element t) (m_tree s) = Some t'" "restacked (m_tree s) (rs @ rest) t'"
    using remove_element_ok [OF assms(1) top(1)] assms(3) by auto
  then show ?thesis using restacked_repiled [of "remove_element t" s t' "rs @ rest"] by (simp add: top(2,4))
qed

lemma does_generateImpliedEndTags:
  assumes "site_ok (m_tree s)" "stackOf s \<noteq> []"
  shows "does (onTree generateImpliedEndTags s) (repiled s (dropWhile hasImpliedEndTag (stackOf s)))"
    and "does (onTree (generateImpliedEndTagsWithExclusion n) s) (repiled s (dropWhile (\<lambda>e. hasImpliedEndTag e \<and> \<not> hasLocalName e n) (stackOf s)))"
proof -
  obtain t rs where t: "generateImpliedEndTags (m_tree s) = Some t" "restacked (m_tree s) rs t"
    "siteElements t = dropWhile hasImpliedEndTag (stackOf s)"
    by (rule generateImpliedEndTags_ok [OF assms])
  then show "does (onTree generateImpliedEndTags s) (repiled s (dropWhile hasImpliedEndTag (stackOf s)))"
    using repiledI [OF t(2,3)] by (simp add: does_onTree)
  obtain t rs where t: "generateImpliedEndTagsWithExclusion n (m_tree s) = Some t" "restacked (m_tree s) rs t"
    "siteElements t = dropWhile (\<lambda>e. hasImpliedEndTag e \<and> \<not> hasLocalName e n) (stackOf s)"
    by (rule generateImpliedEndTagsWithExclusion_ok [OF assms])
  then show "does (onTree (generateImpliedEndTagsWithExclusion n) s) (repiled s (dropWhile (\<lambda>e. hasImpliedEndTag e \<and> \<not> hasLocalName e n) (stackOf s)))"
    using repiledI [OF t(2,3)] by (simp add: does_onTree)
qed

section \<open>Quiet steps\<close>

definition modes :: "treeBuilder \<Rightarrow> insertionMode \<times> bool \<times> ustr" where
  "modes s = (m_insertionMode s, m_isFakeInsertionMode s, m_pendingTableCharacters s)"

definition keepsTop :: "element list \<Rightarrow> element list \<Rightarrow> bool" where
  "keepsTop es es' \<longleftrightarrow> (\<forall>e. topStop es = Some e \<longrightarrow> tablePart e \<longrightarrow> topStop es' = Some e)"

lemma quiet_iff: "quiet es es' \<longleftrightarrow> bodyStack es' \<and> keepsTop es es'"
  by (simp add: quiet_def keepsTop_def)

definition calm :: "treeBuilder \<Rightarrow> bool" where
  "calm s \<longleftrightarrow> site_ok (m_tree s) \<and> bodyStack (stackOf s)"

text \<open>Only in \<open>InBodyMode\<close> can the part of a table that is open be closed.\<close>

definition quietly :: "treeBuilder \<Rightarrow> treeBuilder \<Rightarrow> bool" where
  "quietly s s' \<longleftrightarrow> calm s' \<and> (m_insertionMode s \<noteq> InBodyMode \<longrightarrow> keepsTop (stackOf s) (stackOf s'))
     \<and> modes s' = modes s \<and> builderAsserts s' = builderAsserts s
     \<and> m_head (m_tree s') = m_head (m_tree s)
     \<and> m_redirectAttachToFosterParent (m_tree s') = m_redirectAttachToFosterParent (m_tree s)"

lemma calmD: "calm s \<Longrightarrow> site_ok (m_tree s)" "calm s \<Longrightarrow> bodyStack (stackOf s)" "calm s \<Longrightarrow> stackOf s \<noteq> []"
  using bodyStack_ne by (auto simp: calm_def simp del: map_is_Nil_conv)

lemma quietlyD:
  assumes "quietly s s'"
  shows "calm s'" "m_insertionMode s' = m_insertionMode s" "modes s' = modes s"
    "m_isFakeInsertionMode s' = m_isFakeInsertionMode s" "m_pendingTableCharacters s' = m_pendingTableCharacters s"
    "builderAsserts s' = builderAsserts s" "m_head (m_tree s') = m_head (m_tree s)"
    "m_redirectAttachToFosterParent (m_tree s') = m_redirectAttachToFosterParent (m_tree s)"
    "m_insertionMode s \<noteq> InBodyMode \<Longrightarrow> keepsTop (stackOf s) (stackOf s')"
  using assms by (auto simp: quietly_def modes_def)

lemma quietly_refl: "calm s \<Longrightarrow> quietly s s"
  by (simp add: quietly_def keepsTop_def)

lemma quietly_trans: "quietly s s1 \<Longrightarrow> quietly s1 s2 \<Longrightarrow> quietly s s2"
  by (auto simp: quietly_def modes_def keepsTop_def)

lemma q_then: "does r (quietly s) \<Longrightarrow> quietly s0 s \<Longrightarrow> does r (quietly s0)"
  by (erule does_mono) (rule quietly_trans)

lemma q_bind:
  assumes "does r (quietly s)" "\<And>s'. quietly s s' \<Longrightarrow> calm s' \<Longrightarrow> does (f s') (quietly s')"
  shows "does (Option.bind r f) (quietly s)"
proof -
  obtain s' where s': "r = Some s'" "quietly s s'" using assms(1) by (rule doesE)
  then show ?thesis using q_then [OF assms(2) [OF s'(2) quietlyD(1) [OF s'(2)]] s'(2)] by simp
qed

lemma q_Some: "calm s \<Longrightarrow> does (Some s) (quietly s)"
  by (simp add: quietly_refl)

text \<open>What is not part of the frame.\<close>

lemma quiet_setters [simp]:
  "m_tree (setFramesetOk b s) = m_tree s" "modes (setFramesetOk b s) = modes s" "builderAsserts (setFramesetOk b s) = builderAsserts s"
  "m_insertionMode (setFramesetOk b s) = m_insertionMode s"
  "m_tree (onTokenizer f s) = m_tree s" "modes (onTokenizer f s) = modes s" "builderAsserts (onTokenizer f s) = builderAsserts s"
  "m_insertionMode (onTokenizer f s) = m_insertionMode s"
  by (simp_all add: setFramesetOk_def onTokenizer_def modes_def)

lemma quietly_setters [simp]:
  "calm (setFramesetOk b s) = calm s" "quietly s0 (setFramesetOk b s) = quietly s0 s" "quietly (setFramesetOk b s) = quietly s"
  "calm (onTokenizer f s) = calm s" "quietly s0 (onTokenizer f s) = quietly s0 s" "quietly (onTokenizer f s) = quietly s"
  by (simp_all add: calm_def quietly_def fun_eq_iff)

lemma repiled_quietly:
  assumes "repiled s es s'" "bodyStack es" "m_insertionMode s \<noteq> InBodyMode \<Longrightarrow> keepsTop (stackOf s) es"
  shows "quietly s s'"
proof -
  obtain t where "s' = s\<lparr>m_tree := t\<rparr>" "site_ok t" "siteElements t = es" "siteFrame t = siteFrame (m_tree s)"
    using assms(1) by (auto simp: repiled_def)
  then show ?thesis using assms(2,3) by (auto simp: quietly_def calm_def modes_def siteFrame_def)
qed

lemma tree_quietly:
  assumes "site_ok t" "quiet (stackOf s) (siteElements t)" "siteFrame t = siteFrame (m_tree s)"
  shows "quietly s (s\<lparr>m_tree := t\<rparr>)"
  using assms by (auto simp: quietly_def calm_def modes_def siteFrame_def quiet_iff)

lemma kept_quietly: "calm s \<Longrightarrow> kept (m_tree s) t \<Longrightarrow> quietly s (s\<lparr>m_tree := t\<rparr>)"
  using quiet_refl by (intro tree_quietly) (auto simp: kept_def calm_def)

lemma opened_quietly: "calm s \<Longrightarrow> opened (m_tree s) ns n e t \<Longrightarrow> ordinary e \<Longrightarrow> quietly s (s\<lparr>m_tree := t\<rparr>)"
  using quiet_push by (intro tree_quietly) (auto simp: opened_def calm_def)

named_theorems quiet_ops

lemma q_insertHTMLElement [quiet_ops]:
  assumes "calm s" "ordinaryName (a_name token)"
  shows "does (onTree (insertHTMLElement token) s) (quietly s)"
proof -
  have "isPlainTag XHTML (a_name token)"
    using assms(2) by (auto simp: isPlainTag_def outerNames_def)
  then obtain e t where t: "insertHTMLElement token (m_tree s) = Some t" "opened (m_tree s) XHTML (a_name token) e t"
    using insertHTMLElement_ok [OF calmD(1,3) [OF assms(1)]] by blast
  have "ordinary e" using openedD(3,4) [OF t(2)] assms(2) by (simp add: ordinary_iff)
  then show ?thesis using opened_quietly [OF assms(1) t(2)] t(1) by (simp add: does_onTree)
qed

lemma q_insertSelfClosing [quiet_ops]:
  assumes "calm s" "a_type token = StartTag"
  shows "does (onTree (insertSelfClosingHTMLElement token) s) (quietly s)"
proof -
  obtain t where "insertSelfClosingHTMLElement token (m_tree s) = Some t" "kept (m_tree s) t"
    using insertSelfClosingHTMLElement_ok [OF calmD(1,3) [OF assms(1)] assms(2)] .
  then show ?thesis using kept_quietly [OF assms(1)] by (simp add: does_onTree)
qed

lemma q_insertTextNode [quiet_ops]:
  assumes "calm s"
  shows "does (onTree (insertTextNode text) s) (quietly s)"
proof -
  obtain t where "insertTextNode text (m_tree s) = Some t" "kept (m_tree s) t"
    using insertTextNode_ok [OF calmD(1,3) [OF assms(1)]] .
  then show ?thesis using kept_quietly [OF assms(1)] by (simp add: does_onTree)
qed

lemma q_insertHTMLHtmlStartTagInBody [quiet_ops]:
  assumes "calm s"
  shows "does (onTree (insertHTMLHtmlStartTagInBody token) s) (quietly s)"
proof -
  obtain t where "insertHTMLHtmlStartTagInBody token (m_tree s) = Some t" "kept (m_tree s) t"
    using insertHTMLHtmlStartTagInBody_ok [OF calmD(1,3) [OF assms(1)]] .
  then show ?thesis using kept_quietly [OF assms(1)] by (simp add: does_onTree)
qed

lemma bodyStack_body:
  assumes "bodyStack es"
  obtains b where "b \<in> set es" "hasTagName b ''body''"
proof -
  obtain xs b h where "es = xs @ [b, h]" "hasTagName b ''body''" using assms by (rule bodyStackE)
  then show thesis using that [of b] by simp
qed

lemma q_insertHTMLBodyStartTagInBody [quiet_ops]:
  assumes "calm s"
  shows "does (onTree (insertHTMLBodyStartTagInBody token) s) (quietly s)"
proof -
  obtain b where "b \<in> set (stackOf s)" "hasTagName b ''body''" using bodyStack_body [OF calmD(2) [OF assms]] .
  then obtain t where "insertHTMLBodyStartTagInBody token (m_tree s) = Some t" "kept (m_tree s) t"
    using insertHTMLBodyStartTagInBody_ok [OF calmD(1) [OF assms]] by blast
  then show ?thesis using kept_quietly [OF assms] by (simp add: does_onTree)
qed

lemma q_insertComment [quiet_ops]:
  assumes "calm s" "a_type token = Comment"
  shows "does (onTree (insertComment token) s) (quietly s)"
proof -
  obtain t where "insertComment token (m_tree s) = Some t" "kept (m_tree s) t"
    using insertComment_ok [OF calmD(1,3) [OF assms(1)] assms(2)] .
  then show ?thesis using kept_quietly [OF assms(1)] by (simp add: does_onTree)
qed

lemma ordinary_like: "isFormattingElement e \<Longrightarrow> namespaceURI e' = XHTML \<Longrightarrow> localName e' = localName e \<Longrightarrow> ordinary e'"
  using formatting_ordinary [of e] by (simp add: ordinary_iff)

lemma q_reconstruct [quiet_ops]:
  assumes "calm s"
  shows "does (onTree reconstructTheActiveFormattingElements s) (quietly s)"
proof -
  note ok = calmD [OF assms]
  obtain t xs es news where t: "reconstructTheActiveFormattingElements (m_tree s) = Some t" "site_ok t"
    "siteEntries (m_tree s) = xs @ map Some es" "siteElements t = rev news @ stackOf s"
    "map localName news = map localName es" "\<forall>e \<in> set news. namespaceURI e = XHTML" "siteFrame t = siteFrame (m_tree s)"
    using reconstruct_ok [OF ok(1,3)] by metis
  have "ordinary e" if "e \<in> set news" for e
  proof -
    have "localName e \<in> localName ` set es" using that t(5) by (metis image_eqI list.set_map)
    then obtain e' where "e' \<in> set es" "localName e = localName e'" by blast
    moreover from this have "isFormattingElement e'" using site_okD(9) [OF ok(1), of e'] t(3) by simp
    ultimately show ?thesis using ordinary_like t(6) that by blast
  qed
  then have "quiet (stackOf s) (siteElements t)" unfolding t(4) by (intro quiet_pushes [OF ok(2)]) simp
  then show ?thesis using tree_quietly [OF t(2) _ t(7)] t(1) by (simp add: does_onTree)
qed

lemma formattingNames_ordinary: "list_ex (\<lambda>n. name = ustr n) formattingNames \<Longrightarrow> ordinaryName name"
  using ordinary_oneOf [of name formattingNames]
  by (simp add: isOneOf_def formattingNames_def partNames_def outerNames_def)

lemma q_insertFormattingElement [quiet_ops]:
  assumes "calm s" "list_ex (\<lambda>n. a_name token = ustr n) formattingNames"
  shows "does (onTree (insertFormattingElement token) s) (quietly s)"
proof -
  note ok = calmD [OF assms(1)]
  obtain e t where t: "insertFormattingElement token (m_tree s) = Some t" "site_ok t" "siteElements t = e # stackOf s"
    "namespaceURI e = XHTML" "localName e = a_name token" "siteFrame t = siteFrame (m_tree s)"
    using insertFormattingElement_ok [OF ok(1,3) assms(2)] by metis
  have "ordinary e" using t(4,5) formattingNames_ordinary [OF assms(2)] by (simp add: ordinary_iff)
  then show ?thesis using tree_quietly [OF t(2) _ t(6)] quiet_push [OF ok(2)] t(1,3) by (simp add: does_onTree)
qed

lemma form_ordinary: "hasTagName e ''form'' \<Longrightarrow> ordinary e"
  by (simp add: ordinary_iff hasQName_def partNames_def outerNames_def)

text \<open>The form comes back, for it may be popped at once.\<close>

lemma does_insertHTMLFormElement:
  assumes "calm s" "a_name token = ustr ''form''"
  shows "does (onTree (insertHTMLFormElement token demoted) s) (\<lambda>s'. quietly s s' \<and> (\<exists>e. stackOf s' = e # stackOf s \<and> hasTagName e ''form''))"
proof -
  note ok = calmD [OF assms(1)]
  obtain e t where t: "insertHTMLFormElement token demoted (m_tree s) = Some t" "site_ok t" "siteElements t = e # stackOf s"
    "hasTagName e ''form''" "siteFrame t = siteFrame (m_tree s)"
    using insertHTMLFormElement_ok [OF ok(1,3) assms(2)] by metis
  then show ?thesis
    using tree_quietly [OF t(2) _ t(5)] quiet_push [OF ok(2) form_ordinary [OF t(4)]] by (auto simp: does_onTree)
qed

lemma q_insertHTMLFormElement [quiet_ops]:
  "calm s \<Longrightarrow> a_name token = ustr ''form'' \<Longrightarrow> does (onTree (insertHTMLFormElement token demoted) s) (quietly s)"
  by (rule does_mono [OF does_insertHTMLFormElement]) auto

lemma q_setAttribute [quiet_ops]:
  "calm s \<Longrightarrow> does (onTree (Some \<circ> setAttribute e n v) s) (quietly s)"
  using kept_quietly [OF _ setAttribute_kept] calmD(1) by (simp add: does_onTree)

end
