(* ===== verification/HTMLTreeBuilderClosing.thy ===== *)
theory HTMLTreeBuilderClosing
  imports HTMLTreeBuilderQuiet
begin

text \<open>
  The end tags of the body as quiet steps: what is closed is above the part of a table that is open, for a
  scope ends at its table, and the groups and rows between a scope and the table are directly above it.
\<close>

section \<open>Splits of the stack\<close>

lemma body_split:
  assumes "bodyStack (A @ t # B)" "\<not> hasTagName t ''body''" "\<not> hasTagName t ''html''"
  shows "\<forall>x \<in> set A. inner x" "inner t" "bodyStack B" "bodyStack (t # B)"
proof -
  obtain xs b h where es: "A @ t # B = xs @ [b, h]" "hasTagName b ''body''" "hasTagName h ''html''" "\<forall>x \<in> set xs. inner x" "nested (A @ t # B)"
    using assms(1) by (rule bodyStackE)
  have "t \<noteq> b" "t \<noteq> h" using assms(2,3) es(2,3) by auto
  then obtain us where us: "B = us @ [b, h]" "xs = A @ t # us"
    using es(1) by (auto simp: append_eq_append_conv2 Cons_eq_append_conv append_eq_Cons_conv)
  then show "\<forall>x \<in> set A. inner x" "inner t" using es(4) by simp_all
  show "bodyStack B"
    unfolding bodyStack_def using us es nested_drop [of "A @ [t]" B] by (intro exI [of _ us]) auto
  show "bodyStack (t # B)"
    unfolding bodyStack_def using us es nested_drop [of A "t # B"] by (intro exI [of _ "t # us"]) auto
qed

lemma ordinaryName_outer: "ordinaryName (localName t) \<Longrightarrow> \<not> hasTagName t ''body''" "ordinaryName (localName t) \<Longrightarrow> \<not> hasTagName t ''html''"
  by (auto simp: hasQName_def outerNames_def)

lemmas name_split = body_split [OF _ ordinaryName_outer]

lemma part_cases:
  assumes "tablePart e" "\<not> isScopeMarker e"
  shows "tagged [''tr''] e \<or> tagged [''tbody'', ''thead'', ''tfoot''] e"
  using assms by (auto simp: tablePart_def partNames_def tagged_def isScopeMarker_def)

lemma ordinaryName_tag: "ordinaryName (localName t) \<Longrightarrow> list_all (\<lambda>n. n \<in> set (partNames @ outerNames)) ns \<Longrightarrow> \<not> tagged ns t"
  by (auto elim!: taggedE simp: list_all_iff)

lemma group_then_table:
  assumes "nested (e # A @ t # B)" "tagged [''tbody'', ''thead'', ''tfoot''] e" "ordinaryName (localName t)"
  shows "\<exists>x \<in> set A. isScopeMarker x"
proof -
  have fits: "tagged [''table''] (hd (A @ t # B))"
    using assms(1,2) by (auto simp: parentFits_def elim!: taggedE) (simp_all add: tagged_tag)
  have "\<not> tagged [''table''] t" by (rule ordinaryName_tag [OF assms(3)]) (simp add: partNames_def)
  then obtain p A' where A: "A = p # A'" using fits by (cases A) auto
  then have "isScopeMarker p" using fits by (simp add: tagged_def isScopeMarker_def)
  then show ?thesis using A by simp
qed

lemma part_then_table:
  assumes "nested (e # A @ t # B)" "tablePart e" "ordinaryName (localName t)"
  shows "isScopeMarker e \<or> (\<exists>x \<in> set A. isScopeMarker x)"
proof (cases "tagged [''tr''] e")
  case True
  then have fits: "tagged [''tbody'', ''thead'', ''tfoot''] (hd (A @ t # B))"
    using assms(1) by (simp add: parentFits_def)
  have "\<not> tagged [''tbody'', ''thead'', ''tfoot''] t" by (rule ordinaryName_tag [OF assms(3)]) (simp add: partNames_def)
  then obtain p A' where A: "A = p # A'" using fits by (cases A) auto
  then have "\<exists>x \<in> set A'. isScopeMarker x"
    using group_then_table [of p A' t B] assms(1,3) fits by simp
  then show ?thesis using A by auto
next
  case False
  then show ?thesis using part_cases [OF assms(2)] group_then_table [OF assms(1) _ assms(3)] by blast
qed

lemma scope_keepsTop:
  assumes "bodyStack (A @ t # B)" "\<forall>x \<in> set A. \<not> isScopeMarker x" "ordinaryName (localName t)"
  shows "keepsTop (A @ t # B) B" "keepsTop (A @ t # B) (t # B)"
proof -
  have no_part: "\<not> tablePart t" unfolding tablePart_def by (rule ordinaryName_tag [OF assms(3)]) (simp add: list_all_iff)
  have no_parts: "\<not> tablePart e" if e: "A = A1 @ e # A2" for A1 e A2
  proof
    assume "tablePart e"
    moreover have "nested (e # A2 @ t # B)"
      using assms(1) nested_drop [of A1 "e # A2 @ t # B"] by (auto simp: bodyStack_def e)
    ultimately show False using part_then_table [OF _ _ assms(3)] assms(2) e by auto
  qed
  then have "\<forall>x \<in> set A. \<not> tablePart x" by (meson split_list)
  then have "topStop (A @ t # B) = Some e \<Longrightarrow> tablePart e \<Longrightarrow> topStop B = Some e \<and> topStop (t # B) = Some e" for e
    using no_part by (induction A) (auto simp: topStop_def split: if_splits)
  then show "keepsTop (A @ t # B) B" "keepsTop (A @ t # B) (t # B)" by (auto simp: keepsTop_def)
qed

lemma inScopeE:
  assumes "inScopeCommon marker n es" "\<And>e. isScopeMarker e \<Longrightarrow> marker e"
  obtains A t B where "elements es = A @ t # B" "hasLocalName t n" "\<forall>x \<in> set A. \<not> hasLocalName x n \<and> \<not> isScopeMarker x"
  using assms unfolding inScopeCommon_def scopeLoop_Some_True by blast

lemma scope_markers:
  "isScopeMarker e \<Longrightarrow> isScopeMarker e" "isScopeMarker e \<Longrightarrow> isButtonScopeMarker e" "isScopeMarker e \<Longrightarrow> isListItemScopeMarker e"
  by (simp_all add: isButtonScopeMarker_def isListItemScopeMarker_def)

section \<open>Implied end tags\<close>

lemma implied_ordinary: "hasImpliedEndTag e \<Longrightarrow> ordinary e"
  by (auto simp: hasImpliedEndTag_def ordinary_iff hasQName_def partNames_def outerNames_def)

lemma quiet_dropWhile:
  assumes "bodyStack es" "\<And>e. P e \<Longrightarrow> ordinary e"
  shows "quiet es (dropWhile P es)"
proof -
  obtain xs b h where es: "es = xs @ [b, h]" "hasTagName b ''body''" using assms(1) by (rule bodyStackE)
  have "\<not> ordinary b" using es(2) by (simp add: ordinary_iff hasQName_def outerNames_def)
  then have ne: "dropWhile P es \<noteq> []" using assms(2) by (auto simp: es(1))
  have "\<forall>x \<in> set (takeWhile P es). \<not> resetStop x" using assms(2) ordinaryD(2) by (auto dest: set_takeWhileD)
  then have "quiet (takeWhile P es @ dropWhile P es) (dropWhile P es)" using assms(1) ne by (intro quiet_pop) simp_all
  then show ?thesis by simp
qed

lemma repiled_quiet: "repiled s es s' \<Longrightarrow> quiet (stackOf s) es \<Longrightarrow> quietly s s'"
  by (rule repiled_quietly) (auto simp: quiet_iff)

lemma q_generateImpliedEndTags [quiet_ops]:
  assumes "calm s"
  shows "does (onTree generateImpliedEndTags s) (quietly s)" "does (onTree (generateImpliedEndTagsWithExclusion n) s) (quietly s)"
proof -
  show "does (onTree generateImpliedEndTags s) (quietly s)"
    by (rule does_mono [OF does_generateImpliedEndTags(1) [OF calmD(1,3) [OF assms]]])
      (erule repiled_quiet, rule quiet_dropWhile [OF calmD(2) [OF assms] implied_ordinary])
  show "does (onTree (generateImpliedEndTagsWithExclusion n) s) (quietly s)"
    by (rule does_mono [OF does_generateImpliedEndTags(2) [OF calmD(1,3) [OF assms]]])
      (erule repiled_quiet, rule quiet_dropWhile [OF calmD(2) [OF assms] implied_ordinary], blast)
qed

lemma stack_hd: "stackOf s \<noteq> [] \<Longrightarrow> currentElementOf s = Some (hd (stackOf s))"
  by (cases "stackOf s") (simp_all add: stack_top)

lemma dropWhile_split:
  assumes "\<not> P t"
  shows "dropWhile P (A @ t # B) = dropWhile P A @ t # B"
  using assms by (induction A) auto

text \<open>Implied end tags and then up to the element: the common shape of the end tags.\<close>

lemma does_closing:
  assumes "calm s" "stackOf s = A @ t # B" "hasLocalName t n" "\<forall>x \<in> set A. \<not> hasLocalName x n" "ordinaryName n"
    and "\<not> P t" "does r (repiled s (dropWhile P (stackOf s)))"
  shows "does (do { s \<leftarrow> r; _ \<leftarrow> currentElementOf s; onOpenElements (popUntilPopped n) s }) (repiled s B)"
proof -
  note split = name_split [OF calmD(2) [OF assms(1), unfolded assms(2)]]
  have t: "ordinaryName (localName t)" using assms(3,5) by (simp add: hasLocalName_def)
  obtain s1 where s1: "r = Some s1" "repiled s (dropWhile P (stackOf s)) s1" using assms(7) by (rule doesE)
  have es1: "stackOf s1 = dropWhile P A @ t # B" using repiledD(2) [OF s1(2)] assms(2,6) dropWhile_split by metis
  have "\<forall>x \<in> set (dropWhile P A). \<not> hasLocalName x n \<and> plainElement x"
    using assms(4) split(1) [OF t t] inner_plain by (auto dest: set_dropWhileD)
  then have "does (onOpenElements (popUntilPopped n) s1) (repiled s1 B)"
    using does_popUntilPopped [OF repiledD(1) [OF s1(2)] es1 assms(3)] inner_plain [OF split(2) [OF t t]] by blast
  then have "does (onOpenElements (popUntilPopped n) s1) (repiled s B)"
    by (rule does_mono) (rule repiled_trans [OF s1(2)])
  then show ?thesis using s1(1) stack_hd [of s1] es1 by simp
qed

lemma not_implied_name:
  "hasLocalName t n \<Longrightarrow> n \<notin> ustr ` set impliedNames \<Longrightarrow> \<not> hasImpliedEndTag t"
  by (auto simp: hasImpliedEndTag_def hasQName_def hasLocalName_def impliedNames_def)

lemma repiled_closed:
  assumes "calm s" "stackOf s = A @ t # B" "\<forall>x \<in> set A. \<not> isScopeMarker x" "ordinaryName (localName t)" "repiled s B s'"
  shows "quietly s s'"
  using repiled_quietly [OF assms(5)] scope_keepsTop(1) [OF _ assms(3,4)] name_split(3) [OF _ assms(4) assms(4)] calmD(2) [OF assms(1)]
  by (simp add: assms(2))

text \<open>The number of open elements goes down with them.\<close>

definition shrunk :: "treeBuilder \<Rightarrow> treeBuilder \<Rightarrow> bool" where
  "shrunk s s' \<longleftrightarrow> quietly s s' \<and> length (stackOf s') < length (stackOf s)"

lemma does_shrunk:
  assumes "does r (repiled s B)" "calm s" "stackOf s = A @ t # B" "\<forall>x \<in> set A. \<not> isScopeMarker x" "ordinaryName (localName t)"
  shows "does r (shrunk s)"
proof (rule does_mono [OF assms(1)])
  fix s' assume s': "repiled s B s'"
  then show "shrunk s s'" using repiled_closed [OF assms(2-5) s'] repiledD(2) [OF s'] assms(3) by (simp add: shrunk_def del: length_map)
qed

lemma does_closeBlock:
  assumes "calm s" "inScopeCommon marker n (openElements s)" "\<And>e. isScopeMarker e \<Longrightarrow> marker e" "ordinaryName n"
    and "n \<notin> ustr ` set impliedNames"
  shows "does (closeBlock n s) (shrunk s)"
proof -
  obtain A t B where es: "stackOf s = A @ t # B" "hasLocalName t n" "\<forall>x \<in> set A. \<not> hasLocalName x n \<and> \<not> isScopeMarker x"
    using inScopeE [OF assms(2,3)] by blast
  have "does (closeBlock n s) (repiled s B)"
    unfolding closeBlock_def
    by (rule does_closing [where P = hasImpliedEndTag, OF assms(1) es(1,2) _ assms(4) not_implied_name [OF es(2) assms(5)]
        does_generateImpliedEndTags(1) [OF calmD(1,3) [OF assms(1)]]]) (use es(3) in blast)
  moreover have "ordinaryName (localName t)" using es(2) assms(4) by (simp add: hasLocalName_def)
  ultimately show ?thesis using does_shrunk [OF _ assms(1) es(1)] es(3) by blast
qed

lemma does_closeWithExclusion:
  assumes "calm s" "inScopeCommon marker n (openElements s)" "\<And>e. isScopeMarker e \<Longrightarrow> marker e" "ordinaryName n"
  shows "does (closeWithExclusion n s) (shrunk s)"
proof -
  obtain A t B where es: "stackOf s = A @ t # B" "hasLocalName t n" "\<forall>x \<in> set A. \<not> hasLocalName x n \<and> \<not> isScopeMarker x"
    using inScopeE [OF assms(2,3)] by blast
  have "does (closeWithExclusion n s) (repiled s B)"
    unfolding closeWithExclusion_def
    by (rule does_closing [where P = "\<lambda>e. hasImpliedEndTag e \<and> \<not> hasLocalName e n", OF assms(1) es(1,2) _ assms(4) _
        does_generateImpliedEndTags(2) [OF calmD(1,3) [OF assms(1)]]]) (use es(2,3) in blast)+
  moreover have "ordinaryName (localName t)" using es(2) assms(4) by (simp add: hasLocalName_def)
  ultimately show ?thesis using does_shrunk [OF _ assms(1) es(1)] es(3) by blast
qed

end
