(* ===== verification/HTMLTreeBuilderEndTags.thy ===== *)
theory HTMLTreeBuilderEndTags
  imports HTMLTreeBuilderClosing
begin

text \<open>
  The end tags of the body, \<open>HTMLTreeBuilder::processEndTagForInBody\<close>: each returns, fails no assertion and is
  a quiet step in the modes whose tags are those of the body.
\<close>

section \<open>Any other end tag\<close>

lemma part_special: "tablePart e \<Longrightarrow> isSpecialNode e"
  by (auto simp: tablePart_def partNames_def isSpecialNode_def isOneOf_def isNumberedHeaderTag_def isTableBodyContextTag_def hasQName_def
      elim!: taggedE)

lemma keepsTop_drop: "\<forall>x \<in> set A. \<not> tablePart x \<Longrightarrow> keepsTop (A @ B) B"
  by (induction A) (auto simp: keepsTop_def topStop_def split: if_splits)

lemma body_special: "hasTagName e ''body'' \<Longrightarrow> isSpecialNode e"
  by (simp add: isSpecialNode_def isOneOf_def hasQName_def)

lemma anyOther_loop_Some:
  assumes "\<exists>e \<in> set es. isSpecialNode e"
  obtains "anyOther_loop n es = Some None"
  | A e B where "anyOther_loop n es = Some (Some e)" "es = A @ e # B" "hasLocalName e n" "\<forall>x \<in> set A. \<not> hasLocalName x n \<and> \<not> isSpecialNode x"
proof -
  have "anyOther_loop n es = Some None \<or> (\<exists>A e B. anyOther_loop n es = Some (Some e) \<and> es = A @ e # B \<and> hasLocalName e n
      \<and> (\<forall>x \<in> set A. \<not> hasLocalName x n \<and> \<not> isSpecialNode x))"
    using assms
  proof (induction es)
    case (Cons x es)
    show ?case
    proof (cases "hasLocalName x n \<or> isSpecialNode x")
      case True
      then show ?thesis by (cases "hasLocalName x n") (auto intro: exI [of _ "[]"])
    next
      case False
      then have "anyOther_loop n es = Some None \<or> (\<exists>A e B. anyOther_loop n es = Some (Some e) \<and> es = A @ e # B \<and> hasLocalName e n
          \<and> (\<forall>x \<in> set A. \<not> hasLocalName x n \<and> \<not> isSpecialNode x))"
        using Cons by simp
      moreover have "anyOther_loop n (x # es) = anyOther_loop n es" using False by simp
      moreover have "x # A @ e # B = (x # A) @ e # B" for A e B by simp
      ultimately show ?thesis using False by (metis set_ConsD)
    qed
  qed simp
  then show thesis using that by blast
qed

lemma implied_name_missing:
  assumes "hasImpliedEndTag e" "hasLocalName e n" "\<not> hasImpliedEndTag c" "inner c \<or> hasTagName c ''body'' \<or> hasTagName c ''html''"
  shows "\<not> hasLocalName c n"
proof
  assume c: "hasLocalName c n"
  have n: "n \<in> ustr ` set impliedNames" using assms(1,2) not_implied_name by blast
  have "namespaceURI c \<noteq> XHTML"
    using assms(1-3) c by (auto simp: hasImpliedEndTag_def hasQName_def hasLocalName_def)
  then show False using assms(4) c n by (auto simp: inner_def hasLocalName_def hasQName_def)
qed

lemma body_stack_member: "bodyStack es \<Longrightarrow> c \<in> set es \<Longrightarrow> inner c \<or> hasTagName c ''body'' \<or> hasTagName c ''html''"
  by (erule bodyStackE) auto

text \<open>The name does not close a part of the table that is open.\<close>

definition leavesParts :: "ustr \<Rightarrow> treeBuilder \<Rightarrow> bool" where
  "leavesParts n s \<longleftrightarrow> m_insertionMode s = InBodyMode \<or> n \<notin> ustr ` set partNames"

lemma leavesParts_name: "leavesParts n s \<Longrightarrow> m_insertionMode s \<noteq> InBodyMode \<Longrightarrow> hasLocalName e n \<Longrightarrow> \<not> tablePart e"
  by (auto simp: leavesParts_def tablePart_def hasLocalName_def elim!: taggedE)

lemma named_not_outer: "hasLocalName e n \<Longrightarrow> n \<noteq> ustr m \<Longrightarrow> \<not> hasTagName e m"
  by (auto simp: hasLocalName_def hasQName_def)

lemma q_anyOther:
  assumes "calm s" "a_type token = EndTag" "a_name token \<noteq> ustr ''body''" "a_name token \<noteq> ustr ''html''" "leavesParts (a_name token) s"
  shows "does (processAnyOtherEndTagForInBody token s) (quietly s)"
proof -
  let ?n = "a_name token" and ?es = "stackOf s"
  note ok = calmD [OF assms(1)]
  have special: "\<exists>e \<in> set ?es. isSpecialNode e" using bodyStack_body [OF ok(2)] body_special by metis
  show ?thesis
  proof (rule anyOther_loop_Some [OF special, of ?n])
    assume "anyOther_loop ?n ?es = Some None"
    then show ?thesis using quietly_refl [OF assms(1)] assms(2) by (simp add: processAnyOtherEndTagForInBody_def)
  next
    fix A e B
    assume loop: "anyOther_loop ?n ?es = Some (Some e)" and es: "?es = A @ e # B" and e: "hasLocalName e ?n"
      and A: "\<forall>x \<in> set A. \<not> hasLocalName x ?n \<and> \<not> isSpecialNode x"
    note split = body_split [OF ok(2) [unfolded es] named_not_outer [OF e assms(3)] named_not_outer [OF e assms(4)]]
    obtain s1 where s1: "onTree generateImpliedEndTags s = Some s1" "repiled s (dropWhile hasImpliedEndTag ?es) s1"
      using does_generateImpliedEndTags(1) [OF ok(1,3)] by (rule doesE)
    have q1: "quiet ?es (dropWhile hasImpliedEndTag ?es)" by (rule quiet_dropWhile [OF ok(2) implied_ordinary])
    have ne1: "stackOf s1 \<noteq> []" using q1 repiledD(2) [OF s1(2)] bodyStack_ne by (metis quiet_iff)
    let ?c = "hd (stackOf s1)"
    have c: "currentElementOf s1 = Some ?c" by (rule stack_hd [OF ne1])
    show ?thesis
    proof (cases "e \<in> set (stackOf s1)")
      case True
      obtain A1 where es1: "stackOf s1 = A1 @ e # B" "set A1 \<subseteq> set A"
      proof (cases "\<forall>x \<in> set A. hasImpliedEndTag x")
        case implied: True
        then have "stackOf s1 = dropWhile hasImpliedEndTag (e # B)" using repiledD(2) [OF s1(2)] es by simp
        moreover have "e \<notin> set B" using distinct_elements [OF ok(1)] es by simp
        ultimately have "\<not> hasImpliedEndTag e" using True by (auto dest: set_dropWhileD split: if_splits)
        then show thesis using that [of "[]"] repiledD(2) [OF s1(2)] es implied by simp
      next
        case False
        then have "stackOf s1 = dropWhile hasImpliedEndTag A @ e # B"
          using repiledD(2) [OF s1(2)] es by (auto simp: dropWhile_append1)
        then show thesis using that set_dropWhileD by fastforce
      qed
      have "\<forall>x \<in> set A1. plainElement x" using es1(2) split(1) inner_plain by blast
      then have "does (onOpenElements (popUntilPopped_element e) s1) (repiled s1 B)"
        by (rule does_popUntilPopped_element [OF repiledD(1) [OF s1(2)] es1(1) _ inner_plain [OF split(2)]])
      moreover have "quietly s s'" if r: "repiled s1 B s'" for s'
      proof (rule repiled_quietly [OF repiled_trans [OF s1(2) r] split(3)])
        assume "m_insertionMode s \<noteq> InBodyMode"
        then have "\<forall>x \<in> set (A @ [e]). \<not> tablePart x" using A part_special leavesParts_name [OF assms(5) _ e] by auto
        then show "keepsTop ?es B" using keepsTop_drop [of "A @ [e]" B] es by simp
      qed
      ultimately have "does (onOpenElements (popUntilPopped_element e) s1) (quietly s)" by (rule does_mono)
      then show ?thesis using loop s1(1) c True assms(2) by (simp add: processAnyOtherEndTagForInBody_def)
    next
      case False
      have "hasImpliedEndTag e"
      proof (rule ccontr)
        assume "\<not> hasImpliedEndTag e"
        then have "stackOf s1 = dropWhile hasImpliedEndTag A @ e # B"
          using dropWhile_split [of hasImpliedEndTag e A B] repiledD(2) [OF s1(2)] es by simp
        then show False using False by simp
      qed
      moreover have "\<not> hasImpliedEndTag ?c"
        using hd_dropWhile [of hasImpliedEndTag ?es] ne1 repiledD(2) [OF s1(2)] by metis
      moreover have "inner ?c \<or> hasTagName ?c ''body'' \<or> hasTagName ?c ''html''"
        by (rule body_stack_member [OF _ hd_in_set [OF ne1]]) (use q1 repiledD(2) [OF s1(2)] in \<open>simp add: quiet_iff\<close>)
      ultimately have "\<not> hasLocalName ?c ?n" using implied_name_missing e by blast
      then show ?thesis
        using loop s1(1) c False assms(2) repiled_quiet [OF s1(2) q1] by (simp add: processAnyOtherEndTagForInBody_def)
    qed
  qed
qed

section \<open>Headers, forms and markers\<close>

lemma header_ordinary: "isNumberedHeaderElement e \<Longrightarrow> ordinary e"
  by (auto simp: isNumberedHeaderElement_def ordinary_iff hasQName_def partNames_def outerNames_def)

lemma header_not_implied: "isNumberedHeaderElement e \<Longrightarrow> \<not> hasImpliedEndTag e"
  by (auto simp: isNumberedHeaderElement_def hasImpliedEndTag_def hasQName_def)

lemma does_closeHeader:
  assumes "calm s" "hasNumberedHeaderElementInScope (openElements s)"
  shows "does (do { s \<leftarrow> onTree generateImpliedEndTags s; _ \<leftarrow> currentElementOf s; onOpenElements popUntilNumberedHeaderElementPopped s }) (quietly s)"
proof -
  obtain A t B where es: "stackOf s = A @ t # B" "isNumberedHeaderElement t" "\<forall>x \<in> set A. \<not> isNumberedHeaderElement x \<and> \<not> isScopeMarker x"
    using assms(2) unfolding hasNumberedHeaderElementInScope_def scopeLoop_Some_True by blast
  have t: "ordinaryName (localName t)" using header_ordinary [OF es(2)] by (simp add: ordinary_iff)
  note split = name_split [OF calmD(2) [OF assms(1), unfolded es(1)] t t]
  obtain s1 where s1: "onTree generateImpliedEndTags s = Some s1" "repiled s (dropWhile hasImpliedEndTag (stackOf s)) s1"
    using does_generateImpliedEndTags(1) [OF calmD(1,3) [OF assms(1)]] by (rule doesE)
  have es1: "stackOf s1 = dropWhile hasImpliedEndTag A @ t # B"
    using repiledD(2) [OF s1(2)] es(1) dropWhile_split [where P = hasImpliedEndTag, OF header_not_implied [OF es(2)]] by metis
  have "\<forall>x \<in> set (dropWhile hasImpliedEndTag A). \<not> isNumberedHeaderElement x \<and> plainElement x"
    using es(3) split(1) inner_plain by (auto dest: set_dropWhileD)
  then have "does (onOpenElements popUntilNumberedHeaderElementPopped s1) (repiled s1 B)"
    using does_popPast [where stop = isNumberedHeaderElement, OF repiledD(1) [OF s1(2)] es1 es(2) _ inner_plain [OF split(2)]]
    by (simp add: popUntilNumberedHeaderElementPopped_def [abs_def])
  then have "does (onOpenElements popUntilNumberedHeaderElementPopped s1) (quietly s)"
    using repiled_closed [OF assms(1) es(1) _ t repiled_trans [OF s1(2)]] es(3) by (blast intro: does_mono)
  then show ?thesis using s1(1) stack_hd [of s1] es1 by simp
qed

lemma list_quietly: "calm s \<Longrightarrow> site_ok (onList f (m_tree s)) \<Longrightarrow> quietly s (onFormattingElements f s)"
  using quiet_refl calmD(2) unfolding onFormattingElements_def by (intro tree_quietly) (auto simp: onList_def siteFrame_def)

lemma markers_quietly:
  "calm s \<Longrightarrow> quietly s (onFormattingElements clearToLastMarker s)" "calm s \<Longrightarrow> quietly s (onFormattingElements appendMarker s)"
  "calm s \<Longrightarrow> quietly s (onFormattingElements (remove_entry e) s)"
  using list_quietly clearToLastMarker_ok appendMarker_ok remove_entry_ok calmD(1) by blast+

lemma q_formEndTag:
  assumes "calm s"
  shows "does (formEndTagForInBody s) (\<lambda>(returned, s'). quietly s s')"
proof -
  note ok = calmD [OF assms]
  define s0 where "s0 = s\<lparr>m_tree := (m_tree s)\<lparr>m_form := None\<rparr>\<rparr>"
  have take: "takeForm (m_tree s) = (m_form (m_tree s), m_tree s0)" "s\<lparr>m_tree := m_tree s0\<rparr> = s0"
    by (simp_all add: s0_def takeForm_def)
  have q: "quietly s s0"
    using takeForm_ok [OF ok(1)] quiet_refl [OF ok(2)] unfolding s0_def by (intro tree_quietly) (auto simp: takeForm_def siteFrame_def)
  have same: "stackOf s0 = stackOf s" "openElements s0 = openElements s" by (simp_all add: s0_def)
  show ?thesis
  proof (cases "m_form (m_tree s)")
    case None
    then show ?thesis using q by (simp add: formEndTagForInBody_def take)
  next
    case (Some node)
    note node = form_ordinary [OF conjunct2 [OF site_okD(11) [OF ok(1) Some]]]
    show ?thesis
    proof (cases "inScope_element node (openElements s)")
      case False
      then show ?thesis using q Some same(2) by (simp add: formEndTagForInBody_def take)
    next
      case True
      then obtain A B where es: "stackOf s = A @ node # B" "node \<notin> set A"
        unfolding inScope_element_def scopeLoop_Some_True by blast
      note ok1 = calmD [OF quietlyD(1) [OF q]]
      let ?A = "dropWhile hasImpliedEndTag A"
      have not_implied: "\<not> hasImpliedEndTag node"
        using site_okD(11) [OF ok(1) Some] by (simp add: hasImpliedEndTag_def hasQName_def)
      obtain s1 where s1: "onTree generateImpliedEndTags s0 = Some s1" "repiled s0 (dropWhile hasImpliedEndTag (stackOf s0)) s1"
        using does_generateImpliedEndTags(1) [OF ok1(1,3)] by (rule doesE)
      have es1: "stackOf s1 = ?A @ node # B" using repiledD(2) [OF s1(2)] es(1) dropWhile_split [where P = hasImpliedEndTag, OF not_implied] same by metis
      have r: "does (onOpenElements (remove_element node) s1) (repiled s1 (?A @ B))"
        by (rule does_remove [OF repiledD(1) [OF s1(2)] es1 ordinaryD(5) [OF node]])
      have q1: "quiet (stackOf s) (?A @ node # B)" using quiet_dropWhile [OF ok(2) implied_ordinary] dropWhile_split [where P = hasImpliedEndTag, OF not_implied] es(1) by metis
      then have q2: "quiet (stackOf s) (?A @ B)"
        by (rule quiet_trans [OF _ quiet_remove [OF _ ordinaryD(3,1) [OF node]]]) (use q1 in \<open>simp add: quiet_iff\<close>)
      have "quietly s s'" if "repiled s1 (?A @ B) s'" for s'
        using quietly_trans [OF q repiled_quiet [OF repiled_trans [OF s1(2) that]]] q2 same by simp
      with r have "does (onOpenElements (remove_element node) s1) (quietly s)" by (rule does_mono)
      then obtain s2 where s2: "onOpenElements (remove_element node) s1 = Some s2" "quietly s s2" by (rule doesE)
      have "stackOf s1 \<noteq> []" unfolding es1 by simp
      then have c: "currentElementOf s1 = Some (hd (stackOf s1))" by (rule stack_hd)
      have "formEndTagForInBody s = Some (False, s2)"
        unfolding formEndTagForInBody_def take prod.case Let_def Some option.case same(2) using True s1(1) c s2(1) by simp
      then show ?thesis using s2(2) by simp
    qed
  qed
qed

section \<open>The adoption agency\<close>

lemma adopted_quiet:
  assumes "bodyStack es" "adopted es es'"
  shows "quiet es es'"
proof -
  obtain U U' V a m k where u: "es = U @ V" "es' = U' @ V" "U = U' \<or> U \<noteq> [] \<and> isFormattingElement (last U)"
      "\<forall>e \<in> set U. \<not> isScopeMarker e" "\<forall>e \<in> set U \<union> set U'. plainElement e"
      "skeleton U = a @ m" "skeleton U' = a @ drop k m"
    using assms(2) unfolding adopted_def by blast
  show ?thesis
  proof (cases "U = U'")
    case True
    then show ?thesis using u(1,2) quiet_refl assms(1) by simp
  next
    case False
    then obtain A f where U: "U = A @ [f]" "isFormattingElement f" using u(3) by (metis append_butlast_last_id)
    have f: "ordinary f" by (rule formatting_ordinary [OF U(2)])
    then have name: "ordinaryName (localName f)" by (simp add: ordinary_iff)
    note split = name_split [OF assms(1) [unfolded u(1) U(1) append.assoc append.simps] name name]
    have innerU: "inner e" if "e \<in> set U" for e using that U(1) split(1,2) by auto
    have no_partA: "\<not> tablePart e" if e: "A = A1 @ e # A2" for A1 e A2
    proof
      assume "tablePart e"
      moreover have "nested (e # A2 @ f # V)"
        using assms(1) nested_drop [of A1 "e # A2 @ f # V"] by (auto simp: bodyStack_def u(1) U(1) e)
      ultimately show False using part_then_table [OF _ _ name] u(4) U(1) e by auto
    qed
    then have no_part: "\<not> tablePart e" if "e \<in> set U" for e
      using that U(1) ordinaryD(3) [OF f] by (auto dest: split_list)
    have kept: "e \<in> set U" if "e \<in> set U'" "isSpecialNode e \<or> namespaceURI e \<noteq> XHTML" for e
    proof -
      have "e \<in> set (skeleton U')" using that by (simp add: skeleton_def)
      then have "e \<in> set (skeleton U)" using u(6,7) set_drop_subset [of k m] by auto
      then show ?thesis by (simp add: skeleton_def)
    qed
    have new: "inner e \<and> \<not> tablePart e \<and> (resetStop e \<longrightarrow> e \<in> set U)" if e: "e \<in> set U'" for e
    proof (cases "isSpecialNode e \<or> namespaceURI e \<noteq> XHTML")
      case True
      then show ?thesis using kept [OF e] innerU no_part by blast
    next
      case ns: False
      have "\<not> tagged outerNames e"
        using ns u(5) e by (auto simp: outerNames_def isSpecialNode_def isOneOf_def hasQName_def plainElement_def elim!: taggedE)
      then show ?thesis using ns part_special by (auto simp: inner_def resetStop_def isForeign_def)
    qed
    have "bodyStack (U' @ V)" using new
    proof (induction U')
      case Nil
      then show ?case using split(3) by simp
    next
      case (Cons e U')
      then show ?case using bodyStack_Cons not_part_fits by auto
    qed
    moreover have "topStop (U' @ V) = Some x" if "topStop (U @ V) = Some x" "tablePart x" for x
    proof -
      have "\<forall>e \<in> set U. \<not> resetStop e"
      proof (rule ccontr)
        assume "\<not> (\<forall>e \<in> set U. \<not> resetStop e)"
        then obtain e where e: "find resetStop U = Some e" "e \<in> set U" by (metis find_None_iff find_Some_iff not_Some_eq nth_mem)
        have "find resetStop (W @ V) = Some e" if "find resetStop W = Some e" for W
          using that by (induction W) (auto split: if_splits)
        then have "topStop (U @ V) = Some e" using e(1) by (simp add: topStop_def)
        then show False using that no_part e(2) by simp
      qed
      then show ?thesis using that(1) topStop_drop [of U V] topStop_drop [of U' V] new by auto
    qed
    ultimately show ?thesis using u(1,2) by (simp add: quiet_def)
  qed
qed

lemma bodyStack_guarded: "bodyStack es \<Longrightarrow> guarded es"
proof -
  have "sorted_wrt (\<lambda>x y. isFormattingElement y \<longrightarrow> plainElement x) (xs @ [b, h])"
    if "\<forall>x \<in> set xs. inner x" "hasTagName b ''body''" "hasTagName h ''html''" for xs b h
  proof -
    have "sorted_wrt (\<lambda>x y. isFormattingElement y \<longrightarrow> plainElement x) xs"
      using that(1) inner_plain by (induction xs) auto
    moreover have "\<not> isFormattingElement h" using that(3) formatting_ordinary [of h] by (auto simp: ordinary_iff hasQName_def outerNames_def)
    ultimately show ?thesis using that(1) inner_plain by (auto simp: sorted_wrt_append)
  qed
  then show "bodyStack es \<Longrightarrow> guarded es" unfolding guarded_def by (auto elim!: bodyStackE)
qed

lemma q_adoptionAgency:
  assumes "calm s"
  shows "does (callTheAdoptionAgency token s) (quietly s)"
proof -
  obtain s' where s': "callTheAdoptionAgency token s = Some s'" "adopts s s'"
    using callTheAdoptionAgency_ok [OF calmD(1) [OF assms] bodyStack_guarded [OF calmD(2) [OF assms]]] .
  have quiet: "bodyStack es \<Longrightarrow> quiet es es'" if "adopted\<^sup>*\<^sup>* es es'" for es es'
    using that
  proof (induction rule: rtranclp_induct)
    case base
    then show ?case by (rule quiet_refl)
  next
    case (step y z)
    then show ?case using quiet_trans adopted_quiet by (metis quiet_def)
  qed
  obtain t where "s' = s\<lparr>m_tree := t\<rparr>" "site_ok t" "adopted\<^sup>*\<^sup>* (stackOf s) (siteElements t)" "siteFrame t = siteFrame (m_tree s)"
    using s'(2) by (auto simp: adopts_def)
  then show ?thesis using s'(1) tree_quietly [of t s] quiet calmD(2) [OF assms] by simp
qed

section \<open>The end tags of the body\<close>

lemma shrunk_quietly: "does r (shrunk s) \<Longrightarrow> does r (quietly s)"
  by (erule does_mono) (simp add: shrunk_def)

text \<open>What the branches close has the name of an ordinary element.\<close>

lemma q_processEndTagForInBody:
  assumes "calm s" "a_type token = EndTag" "leavesParts (a_name token) s"
    and "a_name token \<notin> {ustr ''body'', ustr ''html'', ustr ''br''}"
    and "a_name token = ustr ''p'' \<Longrightarrow> inButtonScope (ustr ''p'') (openElements s)"
  shows "does (processEndTagForInBody cfg rec token s) (quietly s)"
proof -
  let ?n = "a_name token"
  have type: "ASSERT_builder (a_type token = EndTag) s = s" using assms(2) by simp
  have other: "does (processAnyOtherEndTagForInBody token s) (quietly s)" using q_anyOther assms by blast
  have block: "does (closeBlock ?n s) (quietly s)" if "inScope ?n (openElements s)" "isOneOf ?n names"
      "list_all (\<lambda>x. x \<notin> set (partNames @ outerNames @ impliedNames)) names" for names
  proof -
    have "\<exists>x. ?n = ustr x \<and> x \<notin> set (partNames @ outerNames) \<and> x \<notin> set impliedNames"
      using that(2,3) by (auto simp: isOneOf_def list_ex_iff list_all_iff)
    then have "ordinaryName ?n" "?n \<notin> ustr ` set impliedNames" by auto
    then show ?thesis
      using does_closeBlock [OF assms(1) that(1) [unfolded inScope_def] scope_markers(1)] shrunk_quietly by blast
  qed
  have exclusion: "does (closeWithExclusion ?n s) (quietly s)" if "inScopeCommon marker ?n (openElements s)"
      "\<And>e. isScopeMarker e \<Longrightarrow> marker e" "ordinaryName ?n" for marker
    using does_closeWithExclusion [OF assms(1) that] by (rule shrunk_quietly)
  have form: "does (do { (returned, s) \<leftarrow> formEndTagForInBody s; if returned then Some s else processAnyOtherEndTagForInBody token s }) (quietly s)"
    if n: "?n = ustr ''form''"
  proof (rule does_bind [OF q_formEndTag [OF assms(1)]], clarify)
    fix returned s'
    assume q: "quietly s s'"
    have "does (processAnyOtherEndTagForInBody token s') (quietly s')"
      by (rule q_anyOther [OF quietlyD(1) [OF q] assms(2)]) (auto simp: n leavesParts_def partNames_def)
    then show "does (if returned then Some s' else processAnyOtherEndTagForInBody token s') (quietly s)"
      using q_then [OF _ q] q by simp
  qed
  show ?thesis
    unfolding processEndTagForInBody_def type Let_def
  proof (intro does_if, goal_cases)
    case 4
    show ?case by (rule block [OF _ 4(3)]) (use 4(4) in simp, code_simp)
  next
    case 7
    show ?case by (rule exclusion [of isButtonScopeMarker])
      (use 7 scope_markers in \<open>auto simp: inButtonScope_def partNames_def outerNames_def\<close>)
  next
    case 9
    show ?case by (rule exclusion [of isListItemScopeMarker])
      (use 9 scope_markers in \<open>auto simp: inListItemScope_def partNames_def outerNames_def\<close>)
  next
    case 11
    show ?case by (rule exclusion [of isScopeMarker])
      (use 11 in \<open>auto simp: inScope_def isOneOf_def partNames_def outerNames_def\<close>)
  next
    case 13
    show ?case using 13 does_closeHeader [OF assms(1)] by simp
  next
    case 16
    have "does (closeBlock ?n s) (quietly s)"
      by (rule block [of "[''applet'', ''marquee'', ''object'']"]) (use 16 in simp, use 16 in simp, code_simp)
    then show ?case unfolding does_map
      by (rule does_mono) (rule quietly_trans, assumption, rule markers_quietly(1), erule quietlyD)
  qed (use assms(4,5) other form q_adoptionAgency [OF assms(1)] quietly_refl [OF assms(1)] in auto)
qed

end
