(* ===== verification/HTMLTreeBuilderReady.thy ===== *)
theory HTMLTreeBuilderReady
  imports HTMLTreeBuilderEndTags
begin

text \<open>
  The invariant of the tree builder of a document between two tokens: in every insertion mode the stack of open
  elements has the shape of that mode, the construction site is in order, and no assertion has failed.
\<close>

section \<open>The invariant\<close>

text \<open>The part of a table a mode is for.\<close>

fun partsOf :: "insertionMode \<Rightarrow> string list" where
  "partsOf InTableMode = [''table'']"
| "partsOf InCaptionMode = [''caption'']"
| "partsOf InTableBodyMode = [''tbody'', ''thead'', ''tfoot'']"
| "partsOf InRowMode = [''tr'']"
| "partsOf InCellMode = [''td'', ''th'']"
| "partsOf _ = []"

definition partModes :: "insertionMode set" where
  "partModes = {InTableMode, InCaptionMode, InTableBodyMode, InRowMode, InCellMode}"

definition fosterModes :: "insertionMode set" where
  "fosterModes = {InTableMode, InTableBodyMode, InRowMode}"

definition bodyModes :: "insertionMode set" where
  "bodyModes = insert InBodyMode partModes"

definition topTagged :: "string list \<Rightarrow> element list \<Rightarrow> bool" where
  "topTagged ns es \<longleftrightarrow> (\<exists>e. topStop es = Some e \<and> tagged ns e)"

fun modeFits :: "insertionMode \<Rightarrow> element list \<Rightarrow> bool" where
  "modeFits InitialMode es \<longleftrightarrow> es = []"
| "modeFits BeforeHTMLMode es \<longleftrightarrow> es = []"
| "modeFits BeforeHeadMode es \<longleftrightarrow> (\<exists>h. es = [h] \<and> hasTagName h ''html'')"
| "modeFits InHeadMode es \<longleftrightarrow> (\<exists>d h. es = [d, h] \<and> hasTagName d ''head'' \<and> hasTagName h ''html'')"
| "modeFits InHeadNoscriptMode es \<longleftrightarrow>
     (\<exists>n d h. es = [n, d, h] \<and> hasTagName n ''noscript'' \<and> hasTagName d ''head'' \<and> hasTagName h ''html'')"
| "modeFits AfterHeadMode es \<longleftrightarrow> (\<exists>h. es = [h] \<and> hasTagName h ''html'')"
| "modeFits InBodyMode es \<longleftrightarrow> bodyStack es"
| "modeFits AfterBodyMode es \<longleftrightarrow> bodyStack es"
| "modeFits AfterAfterBodyMode es \<longleftrightarrow> bodyStack es"
| "modeFits InForeignContentMode es \<longleftrightarrow> bodyStack es"
| "modeFits InTableMode es \<longleftrightarrow> bodyStack es \<and> topTagged (partsOf InTableMode) es"
| "modeFits InCaptionMode es \<longleftrightarrow> bodyStack es \<and> topTagged (partsOf InCaptionMode) es"
| "modeFits InTableBodyMode es \<longleftrightarrow> bodyStack es \<and> topTagged (partsOf InTableBodyMode) es"
| "modeFits InRowMode es \<longleftrightarrow> bodyStack es \<and> topTagged (partsOf InRowMode) es"
| "modeFits InCellMode es \<longleftrightarrow> bodyStack es \<and> topTagged (partsOf InCellMode) es"
| "modeFits InColumnGroupMode es \<longleftrightarrow>
     (\<exists>c rest. es = c # rest \<and> hasTagName c ''colgroup'' \<and> bodyStack rest \<and> tagged [''table''] (hd rest))"
| "modeFits InSelectMode es \<longleftrightarrow>
     (\<exists>os sel rest. es = os @ sel # rest \<and> (\<forall>x \<in> set os. tagged [''option'', ''optgroup''] x)
        \<and> hasTagName sel ''select'' \<and> bodyStack rest)"
| "modeFits InSelectInTableMode es \<longleftrightarrow>
     (\<exists>os sel rest. es = os @ sel # rest \<and> (\<forall>x \<in> set os. tagged [''option'', ''optgroup''] x)
        \<and> hasTagName sel ''select'' \<and> bodyStack rest)"
| "modeFits InFramesetMode es \<longleftrightarrow>
     (\<exists>fs h. es = fs @ [h] \<and> fs \<noteq> [] \<and> (\<forall>x \<in> set fs. hasTagName x ''frameset'') \<and> hasTagName h ''html'')"
| "modeFits AfterFramesetMode es \<longleftrightarrow> (\<exists>h. es = [h] \<and> hasTagName h ''html'')"
| "modeFits AfterAfterFramesetMode es \<longleftrightarrow>
     (\<exists>fs h. es = fs @ [h] \<and> (\<forall>x \<in> set fs. isFormattingElement x) \<and> hasTagName h ''html'')"
| "modeFits TextMode es \<longleftrightarrow> False"
| "modeFits InTableTextMode es \<longleftrightarrow> False"

definition settled :: "insertionMode \<Rightarrow> element list \<Rightarrow> element option \<Rightarrow> bool" where
  "settled m es head \<longleftrightarrow> modeFits m es \<and> (m \<notin> {InitialMode, BeforeHTMLMode, BeforeHeadMode} \<longrightarrow> head \<noteq> None)"

text \<open>In \<open>TextMode\<close> the element with the text is on top of a stack of the original mode.\<close>

definition ready :: "treeBuilder \<Rightarrow> bool" where
  "ready s \<longleftrightarrow> site_ok (m_tree s) \<and> builderAsserts s
     \<and> (m_isFakeInsertionMode s \<longrightarrow> m_insertionMode s = InBodyMode)
     \<and> (m_insertionMode s \<noteq> InTableTextMode \<longrightarrow> m_pendingTableCharacters s = [])
     \<and> (case m_insertionMode s of
          TextMode \<Rightarrow> stackOf s \<noteq> [] \<and> plainElement (hd (stackOf s))
            \<and> settled (m_originalInsertionMode s) (tl (stackOf s)) (m_head (m_tree s))
        | InTableTextMode \<Rightarrow> m_originalInsertionMode s \<in> fosterModes
            \<and> settled (m_originalInsertionMode s) (stackOf s) (m_head (m_tree s))
        | m \<Rightarrow> settled m (stackOf s) (m_head (m_tree s)))"

text \<open>The result of a step: ready for the next token, with the same fostering.\<close>

definition steps :: "treeBuilder \<Rightarrow> treeBuilder \<Rightarrow> bool" where
  "steps s s' \<longleftrightarrow> ready s' \<and> m_redirectAttachToFosterParent (m_tree s') = m_redirectAttachToFosterParent (m_tree s)"

section \<open>The modes of the body\<close>

lemma bodyModes_cases: "m \<in> bodyModes \<longleftrightarrow> m = InBodyMode \<or> m \<in> partModes"
  by (simp add: bodyModes_def)

lemma partModes_fits: "m \<in> partModes \<Longrightarrow> modeFits m es \<longleftrightarrow> bodyStack es \<and> topTagged (partsOf m) es"
  by (auto simp: partModes_def)

lemma partsOf_part: "tagged (partsOf m) e \<Longrightarrow> tablePart e"
  unfolding tablePart_def by (rule tagged_subset, assumption, cases m) (simp_all add: partNames_def)

lemma fosterModes_part: "m \<in> fosterModes \<Longrightarrow> m \<in> partModes"
  by (auto simp: fosterModes_def partModes_def)

text \<open>The modes that are settled themselves.\<close>

definition stableMode :: "insertionMode \<Rightarrow> bool" where
  "stableMode m \<longleftrightarrow> m \<noteq> TextMode \<and> m \<noteq> InTableTextMode"

lemma bodyModes_stable: "m \<in> bodyModes \<Longrightarrow> stableMode m"
  by (auto simp: bodyModes_def partModes_def stableMode_def)

lemma ready_stable:
  assumes "stableMode (m_insertionMode s)"
  shows "ready s \<longleftrightarrow> site_ok (m_tree s) \<and> builderAsserts s \<and> (m_isFakeInsertionMode s \<longrightarrow> m_insertionMode s = InBodyMode)
    \<and> m_pendingTableCharacters s = [] \<and> settled (m_insertionMode s) (stackOf s) (m_head (m_tree s))"
  using assms unfolding ready_def stableMode_def by (cases "m_insertionMode s") (simp_all del: map_is_Nil_conv)

lemma bodyModes_settled:
  "m \<in> bodyModes \<Longrightarrow> settled m es head \<longleftrightarrow> head \<noteq> None \<and> bodyStack es \<and> (m \<noteq> InBodyMode \<longrightarrow> topTagged (partsOf m) es)"
  by (auto simp: settled_def bodyModes_def partModes_def)

lemma keepsTop_tagged: "keepsTop es es' \<Longrightarrow> topTagged (partsOf m) es \<Longrightarrow> topTagged (partsOf m) es'"
  using partsOf_part by (fastforce simp: keepsTop_def topTagged_def)

lemma ready_calm: "ready s \<Longrightarrow> m_insertionMode s \<in> bodyModes \<Longrightarrow> calm s"
  by (simp add: ready_stable bodyModes_stable bodyModes_settled calm_def)

lemma quietly_steps:
  assumes "ready s" "m_insertionMode s \<in> bodyModes" "quietly s s'"
  shows "steps s s'"
proof -
  note q = quietlyD [OF assms(3)]
  have m: "m_insertionMode s' \<in> bodyModes" using assms(2) q(2) by simp
  have "settled (m_insertionMode s') (stackOf s') (m_head (m_tree s'))"
    using assms(1,2) q(7) keepsTop_tagged [OF q(9)] calmD(2) [OF q(1)] q(2)
    by (simp add: bodyModes_settled bodyModes_stable ready_stable)
  then have "ready s'"
    using assms(1,2) q calmD(1) [OF q(1)] by (simp add: bodyModes_stable ready_stable)
  then show ?thesis using q(8) by (simp add: steps_def)
qed

lemma q_steps: "does r (quietly s) \<Longrightarrow> ready s \<Longrightarrow> m_insertionMode s \<in> bodyModes \<Longrightarrow> does r (steps s)"
  by (erule does_mono) (rule quietly_steps)

lemma steps_trans: "steps s s1 \<Longrightarrow> steps s1 s2 \<Longrightarrow> steps s s2"
  by (simp add: steps_def)

lemma steps_then: "does r (steps s1) \<Longrightarrow> steps s s1 \<Longrightarrow> does r (steps s)"
  by (erule does_mono) (rule steps_trans)

section \<open>Changes of the mode\<close>

lemma setInsertionMode_simps [simp]:
  "m_insertionMode (setInsertionMode m s) = m" "m_isFakeInsertionMode (setInsertionMode m s) = False"
  "m_tree (setInsertionMode m s) = m_tree s" "builderAsserts (setInsertionMode m s) = builderAsserts s"
  "m_pendingTableCharacters (setInsertionMode m s) = m_pendingTableCharacters s"
  "m_originalInsertionMode (setInsertionMode m s) = m_originalInsertionMode s"
  "m_hasPendingForeignInsertionModeSteps (setInsertionMode m s) = m_hasPendingForeignInsertionModeSteps s"
  by (simp_all add: setInsertionMode_def)

lemma ready_setInsertionMode:
  assumes "stableMode m"
  shows "ready (setInsertionMode m s) \<longleftrightarrow>
    site_ok (m_tree s) \<and> builderAsserts s \<and> m_pendingTableCharacters s = [] \<and> settled m (stackOf s) (m_head (m_tree s))"
  using assms by (simp add: ready_stable)

text \<open>The construction site has changed the stack; head and fostering are as before.\<close>

definition piled :: "treeBuilder \<Rightarrow> element list \<Rightarrow> treeBuilder \<Rightarrow> bool" where
  "piled s es s' \<longleftrightarrow> (\<exists>t. s' = s\<lparr>m_tree := t\<rparr> \<and> site_ok t \<and> siteElements t = es \<and> siteFrame t = siteFrame (m_tree s))"

lemma piledD:
  assumes "piled s es s'"
  shows "site_ok (m_tree s')" "stackOf s' = es" "m_head (m_tree s') = m_head (m_tree s)"
    "m_redirectAttachToFosterParent (m_tree s') = m_redirectAttachToFosterParent (m_tree s)" "modes s' = modes s"
    "builderAsserts s' = builderAsserts s" "m_insertionMode s' = m_insertionMode s"
    "m_pendingTableCharacters s' = m_pendingTableCharacters s" "m_isFakeInsertionMode s' = m_isFakeInsertionMode s"
    "m_originalInsertionMode s' = m_originalInsertionMode s"
    "m_hasPendingForeignInsertionModeSteps s' = m_hasPendingForeignInsertionModeSteps s"
  using assms by (auto simp: piled_def siteFrame_def modes_def)

lemma repiled_piled: "repiled s es s' \<Longrightarrow> piled s es s'"
  by (auto simp: repiled_def piled_def)

lemma piled_refl: "site_ok (m_tree s) \<Longrightarrow> piled s (stackOf s) s"
  unfolding piled_def by (rule exI [of _ "m_tree s"]) simp

lemma piled_trans: "piled s es s1 \<Longrightarrow> piled s1 es' s2 \<Longrightarrow> piled s es' s2"
  by (auto simp: piled_def)

lemma kept_piled: "kept (m_tree s) t \<Longrightarrow> piled s (stackOf s) (s\<lparr>m_tree := t\<rparr>)"
  unfolding piled_def by (rule exI [of _ t]) (simp add: kept_def)

lemma opened_piled: "opened (m_tree s) ns n e t \<Longrightarrow> piled s (e # stackOf s) (s\<lparr>m_tree := t\<rparr>)"
  unfolding piled_def by (rule exI [of _ t]) (simp add: opened_def)

lemma list_piled: "site_ok (onList f (m_tree s)) \<Longrightarrow> piled s (stackOf s) (onFormattingElements f s)"
  unfolding piled_def onFormattingElements_def by (rule exI [of _ "onList f (m_tree s)"]) (simp add: siteFrame_def onList_def)

text \<open>A step that ends in another mode.\<close>

lemma piled_steps:
  assumes "ready s" "m_insertionMode s \<noteq> InTableTextMode" "piled s es s'" "stableMode m" "settled m es (m_head (m_tree s))"
  shows "steps s (setInsertionMode m s')"
  using assms piledD [OF assms(3)] by (auto simp: steps_def ready_setInsertionMode) (auto simp: ready_def)

lemma piled_same:
  assumes "ready s" "stableMode (m_insertionMode s)" "piled s es s'" "settled (m_insertionMode s) es (m_head (m_tree s))"
  shows "steps s s'"
  using assms piledD [OF assms(3)] by (auto simp: steps_def ready_stable)

section \<open>Resetting the mode\<close>

definition modeOf :: "element \<Rightarrow> insertionMode" where
  "modeOf e = (if tagged [''td'', ''th''] e then InCellMode
     else if hasTagName e ''tr'' then InRowMode
     else if tagged [''tbody'', ''thead'', ''tfoot''] e then InTableBodyMode
     else if hasTagName e ''caption'' then InCaptionMode
     else if hasTagName e ''table'' then InTableMode
     else if isForeign e then InForeignContentMode
     else InBodyMode)"

lemma modeOf_fits:
  assumes "bodyStack es" "topStop es = Some e"
  shows "modeFits (modeOf e) es" "modeOf e \<in> insert InForeignContentMode bodyModes"
  using assms by (auto simp: modeOf_def topTagged_def tagged_hasTagName bodyModes_def partModes_def)

lemma bodyStack_stop: "bodyStack es \<Longrightarrow> \<exists>e. topStop es = Some e"
proof -
  assume "bodyStack es"
  then obtain b where "b \<in> set es" "hasTagName b ''body''" by (rule bodyStack_body)
  moreover from this have "resetStop b" by (simp add: resetStop_def tagged_tag outerNames_def)
  ultimately have "find resetStop es \<noteq> None" by (auto simp: find_None_iff)
  then show ?thesis by (simp add: topStop_def)
qed

lemma reset_loop:
  assumes "\<forall>x \<in> set xs. inner x \<and> Some x \<noteq> bottom" "hasTagName b ''body''" "Some b \<noteq> bottom"
  shows "resetInsertionMode_loop cfg bottom (xs @ b # es) s = Some (setInsertionMode (modeOf (the (topStop (xs @ b # es)))) s)"
  using assms(1)
proof (induction xs)
  case Nil
  have "resetStop b" "\<not> isForeign b" using assms(2) by (simp_all add: resetStop_def tagged_tag outerNames_def isForeign_def hasQName_def)
  then show ?case using assms(2,3)
    by (simp add: topStop_def modeOf_def tagged_tag Let_def hasQName_def)
next
  case (Cons x xs)
  then have x: "inner x" "Some x \<noteq> bottom" by simp_all
  have "\<not> tagged outerNames x" using x(1) by (simp add: inner_def)
  then have outer: "\<not> hasTagName x ''select''" "\<not> hasTagName x ''colgroup''" "\<not> hasTagName x ''head''" "\<not> hasTagName x ''body''"
      "\<not> hasTagName x ''frameset''" "\<not> hasTagName x ''html''"
    by (auto simp: tagged_def outerNames_def)
  have stop: "resetStop x \<longleftrightarrow> tagged [''td'', ''th''] x \<or> hasTagName x ''tr'' \<or> tagged [''tbody'', ''thead'', ''tfoot''] x
      \<or> hasTagName x ''caption'' \<or> hasTagName x ''table'' \<or> isForeign x"
    using x(1) by (auto simp: resetStop_def inner_def tablePart_def partNames_def tagged_def)
  show ?case
  proof (cases "resetStop x")
    case True
    then show ?thesis using outer x(2) stop
      by (auto simp: topStop_def modeOf_def Let_def tagged_def isForeign_def)
  next
    case False
    then have "resetInsertionMode_loop cfg bottom ((x # xs) @ b # es) s = resetInsertionMode_loop cfg bottom (xs @ b # es) s"
      using outer x(2) stop by (simp add: Let_def tagged_def isForeign_def)
    then show ?thesis using Cons False by (simp add: topStop_def)
  qed
qed

lemma bottomElement_html: "site_ok t \<Longrightarrow> h \<in> set (siteElements t) \<Longrightarrow> hasTagName h ''html'' \<Longrightarrow> bottomElement (m_openElements t) = Some h"
  using site_okD(3) [of t] unfolding bottomElement_def stack_ok_def by (blast dest: rememberedD)

lemma reset_body:
  assumes "site_ok (m_tree s)" "bodyStack (stackOf s)"
  shows "resetInsertionModeAppropriately cfg s = Some (setInsertionMode (modeOf (the (topStop (stackOf s)))) s)"
proof -
  obtain xs b h where es: "stackOf s = xs @ [b, h]" "hasTagName b ''body''" "hasTagName h ''html''" "\<forall>x \<in> set xs. inner x"
    using assms(2) by (rule bodyStackE)
  have bottom: "bottomElement (openElements s) = Some h" by (rule bottomElement_html [OF assms(1) _ es(3)]) (simp add: es(1))
  have "distinct (stackOf s)" by (rule distinct_elements [OF assms(1)])
  then have "\<forall>x \<in> set xs. inner x \<and> Some x \<noteq> Some h" "Some b \<noteq> Some h" using es(1,4) by auto
  then show ?thesis
    unfolding resetInsertionModeAppropriately_def bottom es(1) using reset_loop [OF _ es(2), of xs "Some h" cfg "[h]" s] by simp
qed

text \<open>Preparing to process a token again: only foreign content is left.\<close>

lemma prepare_other:
  "m_insertionMode s \<noteq> InForeignContentMode \<Longrightarrow>
   prepareToReprocessToken cfg s = Some (s\<lparr>m_hasPendingForeignInsertionModeSteps := False\<rparr>)"
  by (cases s) (auto simp: prepareToReprocessToken_def resetForeignInsertionMode_def)

end
