(* ===== verification/HTMLTreeBuilderHeadTags.thy ===== *)
theory HTMLTreeBuilderHeadTags
  imports HTMLTreeBuilderReady
begin

text \<open>
  The elements with text (\<open>title\<close>, \<open>style\<close>, \<open>script\<close>, \<open>textarea\<close> and so on), which put the tree builder
  into \<open>TextMode\<close>, and the start tags of \<open>HTMLTreeBuilder::processStartTagForInHead\<close>, which other modes use too.
\<close>

section \<open>Text elements\<close>

text \<open>What stays as it is when the stack and the mode change.\<close>

definition sited :: "treeBuilder \<Rightarrow> element list \<Rightarrow> treeBuilder \<Rightarrow> bool" where
  "sited s es s' \<longleftrightarrow> site_ok (m_tree s') \<and> stackOf s' = es \<and> siteFrame (m_tree s') = siteFrame (m_tree s)
     \<and> builderAsserts s' = builderAsserts s \<and> m_pendingTableCharacters s' = m_pendingTableCharacters s"

lemma sitedD:
  assumes "sited s es s'"
  shows "site_ok (m_tree s')" "stackOf s' = es" "m_head (m_tree s') = m_head (m_tree s)"
    "m_redirectAttachToFosterParent (m_tree s') = m_redirectAttachToFosterParent (m_tree s)"
    "builderAsserts s' = builderAsserts s" "m_pendingTableCharacters s' = m_pendingTableCharacters s"
    "siteFrame (m_tree s') = siteFrame (m_tree s)"
  using assms by (auto simp: sited_def siteFrame_def)

lemma piled_sited: "piled s es s' \<Longrightarrow> sited s es s'"
  by (auto simp: piled_def sited_def)

lemma sited_trans: "sited s es s1 \<Longrightarrow> sited s1 es' s2 \<Longrightarrow> sited s es' s2"
  by (simp add: sited_def)

text \<open>An element with text has been opened, or nothing has.\<close>

definition texted :: "treeBuilder \<Rightarrow> treeBuilder \<Rightarrow> bool" where
  "texted s s' \<longleftrightarrow> (\<exists>e. sited s (e # stackOf s) s' \<and> plainElement e) \<and> m_insertionMode s' = TextMode
     \<and> m_originalInsertionMode s' = m_insertionMode s \<and> \<not> m_isFakeInsertionMode s'"

definition stayed :: "treeBuilder \<Rightarrow> treeBuilder \<Rightarrow> bool" where
  "stayed s s' \<longleftrightarrow> sited s (stackOf s) s' \<and> m_insertionMode s' = m_insertionMode s
     \<and> (m_isFakeInsertionMode s' \<longrightarrow> m_isFakeInsertionMode s)"

lemma field_simps_builder [simp]:
  "sited s es (onTokenizer f s') = sited s es s'" "sited s es (setFramesetOk b s') = sited s es s'"
  "sited s es (setInsertionMode m s') = sited s es s'" "sited (onTokenizer f s) es s' = sited s es s'" "sited (setFramesetOk b s) es s' = sited s es s'"
  "sited s es (s'\<lparr>m_lastScriptElementStartPosition := p\<rparr>) = sited s es s'" "sited s es (s'\<lparr>m_originalInsertionMode := m\<rparr>) = sited s es s'"
  "m_originalInsertionMode (onTokenizer f s') = m_originalInsertionMode s'" "m_originalInsertionMode (setFramesetOk b s') = m_originalInsertionMode s'"
  "m_isFakeInsertionMode (onTokenizer f s') = m_isFakeInsertionMode s'" "m_isFakeInsertionMode (setFramesetOk b s') = m_isFakeInsertionMode s'"
  by (simp_all add: sited_def onTokenizer_def setFramesetOk_def)

lemma stayed_steps: "ready s \<Longrightarrow> stableMode (m_insertionMode s) \<Longrightarrow> stayed s s' \<Longrightarrow> steps s s'"
  using sitedD [of s "stackOf s" s'] by (auto simp: stayed_def steps_def ready_stable)

lemma texted_steps: "ready s \<Longrightarrow> stableMode (m_insertionMode s) \<Longrightarrow> texted s s' \<Longrightarrow> steps s s'"
  using sitedD [of s _ s'] by (auto simp: texted_def steps_def ready_stable) (auto simp: ready_def)

text \<open>Opening an element.\<close>

lemma does_insertHTMLElement:
  assumes "site_ok (m_tree s)" "stackOf s \<noteq> []" "isPlainTag XHTML (a_name token)"
  shows "does (onTree (insertHTMLElement token) s) (\<lambda>s'. \<exists>e. piled s (e # stackOf s) s' \<and> namespaceURI e = XHTML \<and> localName e = a_name token)"
proof -
  obtain e t where t: "insertHTMLElement token (m_tree s) = Some t" "opened (m_tree s) XHTML (a_name token) e t"
    using insertHTMLElement_ok [OF assms] by blast
  then show ?thesis using opened_piled [OF t(2)] openedD(3,4) [OF t(2)] by (auto simp: does_onTree)
qed

lemma plain_opened: "isPlainTag XHTML (localName e) \<Longrightarrow> plainElement e"
  by (auto simp: isPlainTag_def plainElement_def hasQName_def)

lemma piled_modes:
  "piled s es s' \<Longrightarrow> m_insertionMode s' = m_insertionMode s \<and> m_isFakeInsertionMode s' = m_isFakeInsertionMode s"
  by (auto simp: piled_def)

lemma enterTextMode_texted:
  "piled s (e # stackOf s) s' \<Longrightarrow> plainElement e \<Longrightarrow> texted s (enterTextMode s')"
  using piled_sited [of s "e # stackOf s" s'] piled_modes [of s _ s'] unfolding texted_def enterTextMode_def by auto

text \<open>The updates of the tokenizer in between.\<close>

lemma texted_tokenizer:
  "texted s (enterTextMode (onTokenizer f s')) = texted s (enterTextMode s')"
  "texted s (enterTextMode (setFramesetOk b s')) = texted s (enterTextMode s')"
  "texted s (enterTextMode (s'\<lparr>m_lastScriptElementStartPosition := p\<rparr>)) = texted s (enterTextMode s')"
  "texted (setFramesetOk b s) s' = texted s s'" "texted (onTokenizer f s) s' = texted s s'"
  unfolding texted_def enterTextMode_def by simp_all

lemma does_textElement:
  assumes "site_ok (m_tree s)" "stackOf s \<noteq> []" "isPlainTag XHTML (a_name token)"
  shows "does (onTree (insertHTMLElement token) s) (\<lambda>s'. texted s (enterTextMode s'))"
  by (rule does_mono [OF does_insertHTMLElement [OF assms]]) (use plain_opened assms(3) enterTextMode_texted in fastforce)

lemma does_genericText:
  assumes "site_ok (m_tree s)" "stackOf s \<noteq> []" "isPlainTag XHTML (a_name token)" "a_type token = StartTag"
  shows "does (processGenericRCDATAStartTag token s) (texted s)" "does (processGenericRawTextStartTag token s) (texted s)"
  using does_textElement [OF assms(1-3)] assms(4)
  by (simp_all add: processGenericRCDATAStartTag_def processGenericRawTextStartTag_def does_bind_iff setTokenizerState_def texted_tokenizer)

lemma does_script:
  assumes "site_ok (m_tree s)" "stackOf s \<noteq> []" "a_type token = StartTag"
  shows "does (processScriptStartTag token s) (\<lambda>s'. texted s s' \<and> hasTagName (hd (stackOf s')) ''script'')"
proof -
  obtain e t where t: "insertScriptElement token (m_tree s) = Some t" "opened (m_tree s) XHTML (ustr ''script'') e t"
    using insertScriptElement_ok [OF assms(1,2)] by blast
  let ?s = "s\<lparr>m_tree := t\<rparr>"
  have e: "hasTagName e ''script''" using openedD(3,4) [OF t(2)] by (simp add: hasQName_def)
  have plain: "plainElement e" using e by (simp add: plainElement_def hasQName_def)
  have texted: "texted s (enterTextMode ?s)" by (rule enterTextMode_texted [OF opened_piled [OF t(2)] plain])
  have "stackOf (enterTextMode s') = stackOf s'" for s' by (simp add: enterTextMode_def)
  then show ?thesis using t(1) assms(3) e texted openedD(2) [OF t(2)]
    by (simp add: processScriptStartTag_def Let_def does_onTree does_bind_iff setTokenizerState_def texted_tokenizer)
qed

section \<open>The end of a text\<close>

definition untexted :: "treeBuilder \<Rightarrow> treeBuilder \<Rightarrow> bool" where
  "untexted s s' \<longleftrightarrow> sited s (tl (stackOf s)) s' \<and> m_insertionMode s' = m_originalInsertionMode s \<and> \<not> m_isFakeInsertionMode s'"

text \<open>The end tag of a script comes with the tokenizer in \<open>DataState\<close>.\<close>

lemma does_endTagInText:
  assumes "site_ok (m_tree s)" "stackOf s \<noteq> []" "plainElement (hd (stackOf s))" "\<not> isParsingFragment cfg"
    and "a_name token = ustr ''script'' \<Longrightarrow> hasTagName (hd (stackOf s)) ''script''
           \<and> (m_state (m_tokenizer s) = DataState \<or> m_usePreHTML5ParserQuirks cfg)"
  shows "does (endTagInText cfg token s) (untexted s)"
proof -
  obtain e es where st: "stackOf s = e # es" using assms(2) by (cases "stackOf s") auto
  have pop: "does (onOpenElements pop_element s') (repiled s' es)" if "m_tree s' = m_tree s" for s'
    by (rule does_pop [of s' e es]) (use that assms(1,3) st in auto)
  have fragment: "m_fragmentContext cfg = None" using assms(4) by (simp add: isParsingFragment_def)
  show ?thesis
  proof (cases "a_name token = ustr ''script''")
    case True
    note script = assms(5) [OF True]
    let ?s = "s\<lparr>m_isPaused := True, m_scriptToProcess := Some e, m_scriptToProcessStartPosition := toOneBasedTextPosition (m_lastScriptElementStartPosition s)\<rparr>"
    obtain s1 where s1: "onOpenElements pop_element ?s = Some s1" "repiled ?s es s1" using pop [of ?s] by (auto elim: doesE)
    obtain t where t: "s1 = ?s\<lparr>m_tree := t\<rparr>" "site_ok t" "siteElements t = es" "siteFrame t = siteFrame (m_tree s)"
      using s1(2) by (auto simp: repiled_def)
    have "currentElementOf s = Some e" using st by (simp add: stack_top)
    then show ?thesis using True script s1(1) st t(2-4)
      by (simp add: endTagInText_def fragment t(1) setTokenizerState_def)
        (simp add: untexted_def sited_def onTokenizer_def setInsertionMode_def)
  next
    case False
    obtain s1 where s1: "onOpenElements pop_element s = Some s1" "repiled s es s1" using pop [of s] by (auto elim: doesE)
    have "sited s es s1" by (rule piled_sited [OF repiled_piled [OF s1(2)]])
    moreover have "m_originalInsertionMode s1 = m_originalInsertionMode s" using s1(2) by (auto simp: repiled_def)
    ultimately show ?thesis using False s1(1) st by (simp add: endTagInText_def untexted_def)
  qed
qed

lemma untexted_steps:
  assumes "ready s" "m_insertionMode s = TextMode" "untexted s s'"
  shows "steps s s'"
proof -
  have "stableMode (m_originalInsertionMode s)"
    using assms(1,2) by (auto simp: ready_def settled_def stableMode_def)
  then show ?thesis using assms sitedD [of s "tl (stackOf s)" s']
    by (auto simp: untexted_def steps_def ready_stable) (auto simp: ready_def)
qed

section \<open>The start tags of the head\<close>

text \<open>The contract of the caller: a script that is closed at once.\<close>

definition scriptCloses :: "builderConfig \<Rightarrow> calls \<Rightarrow> bool" where
  "scriptCloses cfg rec \<longleftrightarrow> (\<forall>s. site_ok (m_tree s) \<longrightarrow> stackOf s \<noteq> [] \<longrightarrow> hasTagName (hd (stackOf s)) ''script'' \<longrightarrow>
     m_insertionMode s = TextMode \<longrightarrow> m_usePreHTML5ParserQuirks cfg \<longrightarrow> does (rec (ProcessEndTag (fakeEnd ''script'')) s) (untexted s))"

definition headNames :: "string list" where
  "headNames = [''html'', ''base'', ''basefont'', ''bgsound'', ''command'', ''link'', ''meta'', ''title'', ''noscript'',
     ''noframes'', ''style'', ''script'', ''head'']"

lemma texted_untexted:
  assumes "texted s s1" "untexted s1 s2"
  shows "stayed s s2"
proof -
  obtain e where e: "sited s (e # stackOf s) s1" using assms(1) by (auto simp: texted_def)
  then have "sited s (stackOf s) s2"
    using assms(2) sited_trans [OF e, of "stackOf s" s2] sitedD(2) [OF e] by (simp add: untexted_def)
  then show ?thesis using assms by (simp add: texted_def untexted_def stayed_def)
qed

lemma does_kept:
  assumes "f (m_tree s) = Some t" "kept (m_tree s) t"
  shows "does (onTree f s) (stayed s)"
  using assms piled_sited [OF kept_piled [OF assms(2)]] by (simp add: does_onTree stayed_def)

lemma stayed_refl: "site_ok (m_tree s) \<Longrightarrow> stayed s s"
  by (simp add: stayed_def sited_def)

lemma does_startTagForInHead:
  assumes "site_ok (m_tree s)" "stackOf s \<noteq> []" "a_type token = StartTag" "a_selfClosing token \<noteq> None" "scriptCloses cfg rec"
    and "a_name token \<noteq> ustr ''noscript'' \<or> scriptEnabled cfg"
  shows "does (processStartTagForInHead cfg rec token s)
    (\<lambda>(did, s'). (stayed s s' \<or> texted s s') \<and> (did \<longleftrightarrow> a_name token \<in> ustr ` set headNames))"
proof -
  let ?n = "a_name token"
  have type: "ASSERT_builder (a_type token = StartTag) s = s" using assms(3) by simp
  have did: "does (map_option (Pair True) r) (\<lambda>(did, s'). (stayed s s' \<or> texted s s') \<and> (did \<longleftrightarrow> ?n \<in> ustr ` set headNames))"
    if "does r (\<lambda>s'. stayed s s' \<or> texted s s')" "?n \<in> ustr ` set headNames" for r :: "treeBuilder option"
    unfolding does_map using that(2) by (intro does_mono [OF that(1)]) simp
  have html: "does (onTree (insertHTMLHtmlStartTagInBody token) s) (\<lambda>s'. stayed s s' \<or> texted s s')"
    using insertHTMLHtmlStartTagInBody_ok [OF assms(1,2)] does_kept by (metis (mono_tags, lifting) does_mono)
  have void: "does (onTree (insertSelfClosingHTMLElement token) s) (\<lambda>s'. stayed s s' \<or> texted s s')"
    using insertSelfClosingHTMLElement_ok [OF assms(1-3)] does_kept by (metis (mono_tags, lifting) does_mono)
  have plain: "isPlainTag XHTML ?n" if "?n \<notin> {ustr ''html'', ustr ''head'', ustr ''body''}" using that by (simp add: isPlainTag_def)
  have textual: "does (processGenericRCDATAStartTag token s) (\<lambda>s'. stayed s s' \<or> texted s s')"
    "does (processGenericRawTextStartTag token s) (\<lambda>s'. stayed s s' \<or> texted s s')"
    if "?n \<notin> {ustr ''html'', ustr ''head'', ustr ''body''}"
    using does_genericText [OF assms(1,2) plain [OF that] assms(3)] by (auto elim: does_mono)
  have script: "does (do { s \<leftarrow> processScriptStartTag token s;
                     if m_usePreHTML5ParserQuirks cfg
                     then do { selfClosing \<leftarrow> a_selfClosing token;
                               if selfClosing then processFakeEndTag rec (ustr ''script'') s else Some s }
                     else Some s }) (\<lambda>s'. stayed s s' \<or> texted s s')"
  proof (rule does_bind [OF does_script [OF assms(1-3)]], elim conjE)
    fix s'
    assume t: "texted s s'" and c: "hasTagName (hd (stackOf s')) ''script''"
    obtain b where b: "a_selfClosing token = Some b" using assms(4) by auto
    have s': "site_ok (m_tree s')" "stackOf s' \<noteq> []" "m_insertionMode s' = TextMode" using t by (auto simp: texted_def sited_def)
    have "does (processFakeEndTag rec (ustr ''script'') s') (untexted s')" if "m_usePreHTML5ParserQuirks cfg"
      using assms(5) s' c that unfolding scriptCloses_def processFakeEndTag_def fakeEnd_def by blast
    then have "does (processFakeEndTag rec (ustr ''script'') s') (stayed s)" if "m_usePreHTML5ParserQuirks cfg"
      using that texted_untexted [OF t] by (blast intro: does_mono)
    then show "does (if m_usePreHTML5ParserQuirks cfg
                     then do { selfClosing \<leftarrow> a_selfClosing token;
                               if selfClosing then processFakeEndTag rec (ustr ''script'') s' else Some s' }
                     else Some s') (\<lambda>s'. stayed s s' \<or> texted s s')"
      using t b by (auto elim: does_mono)
  qed
  show ?thesis
    unfolding processStartTagForInHead_def type Let_def
    by (intro does_if; (rule did)?; (rule html void textual script)?)
      (use assms(1,6) stayed_refl in \<open>auto simp: headNames_def isOneOf_def\<close>)
qed

end
