(* ===== verification/HTMLTreeBuilderBodyCalls.thy ===== *)
theory HTMLTreeBuilderBodyCalls
  imports HTMLTreeBuilderHeadTags
begin

text \<open>
  The calls of \<open>processEndTag\<close> and \<open>processStartTag\<close> that the tags of the body make for themselves: the end of a
  paragraph, of a list item, of a link and so on are quiet steps in all the modes of the body, and so are the
  fake start tags.  \<open>endsQuietly\<close> is the contract of the former, \<open>startsQuietly\<close> that of the latter.
\<close>

section \<open>Fostering\<close>

lemma site_ok_redirect [simp]: "site_ok (t\<lparr>m_redirectAttachToFosterParent := b\<rparr>) = site_ok t"
proof -
  have "notInside (t\<lparr>m_redirectAttachToFosterParent := b\<rparr>) = notInside t" by (simp add: notInside_def fun_eq_iff)
  then show ?thesis by (simp add: site_ok_def nodes_ok_def isNode_def isParent_def bodyLinked_def)
qed

lemma setRedirect_simps [simp]:
  "m_insertionMode (setRedirect b s) = m_insertionMode s" "stackOf (setRedirect b s) = stackOf s" "openElements (setRedirect b s) = openElements s"
  "site_ok (m_tree (setRedirect b s)) = site_ok (m_tree s)" "calm (setRedirect b s) = calm s" "modes (setRedirect b s) = modes s"
  "builderAsserts (setRedirect b s) = builderAsserts s" "m_head (m_tree (setRedirect b s)) = m_head (m_tree s)"
  "m_redirectAttachToFosterParent (m_tree (setRedirect b s)) = b" "ready (setRedirect b s) = ready s"
  "m_form (m_tree (setRedirect b s)) = m_form (m_tree s)" "m_isFakeInsertionMode (setRedirect b s) = m_isFakeInsertionMode s"
  "m_pendingTableCharacters (setRedirect b s) = m_pendingTableCharacters s"
  by (simp_all add: setRedirect_def calm_def modes_def ready_def split: insertionMode.split)

lemma q_withRedirect:
  assumes "does (body (setRedirect True s)) (quietly (setRedirect True s))"
  shows "does (withRedirect body s) (quietly s)"
proof -
  obtain s1 where s1: "body (setRedirect True s) = Some s1" "quietly (setRedirect True s) s1" using assms by (rule doesE)
  have "quietly s (setRedirect (m_redirectAttachToFosterParent (m_tree s)) s1)"
    using s1(2) by (simp add: quietly_def)
  then show ?thesis using s1(1) by (simp add: withRedirect_def Let_def)
qed

section \<open>The modes of the body\<close>

definition bodily :: "treeBuilder \<Rightarrow> bool" where
  "bodily s \<longleftrightarrow> calm s \<and> m_insertionMode s \<in> bodyModes
     \<and> (m_insertionMode s \<noteq> InBodyMode \<longrightarrow> topTagged (partsOf (m_insertionMode s)) (stackOf s))
     \<and> (m_isFakeInsertionMode s \<longrightarrow> m_insertionMode s = InBodyMode) \<and> m_pendingTableCharacters s = []"

lemma bodilyD: "bodily s \<Longrightarrow> calm s" "bodily s \<Longrightarrow> m_insertionMode s \<in> bodyModes"
  by (simp_all add: bodily_def)

lemma bodily_quietly: "bodily s \<Longrightarrow> quietly s s' \<Longrightarrow> bodily s'"
  using quietlyD [of s s'] keepsTop_tagged by (auto simp: bodily_def)

lemma bodily_simps [simp]:
  "bodily (setRedirect b s) = bodily s" "bodily (setFramesetOk b s) = bodily s" "bodily (onTokenizer f s) = bodily s"
  by (simp_all add: bodily_def) (simp_all add: onTokenizer_def setFramesetOk_def)

lemma ready_bodily: "ready s \<Longrightarrow> m_insertionMode s \<in> bodyModes \<Longrightarrow> bodily s"
  by (auto simp: bodily_def ready_calm ready_stable bodyModes_stable bodyModes_settled)

lemma b_bind:
  assumes "does r (quietly s)" "bodily s" "\<And>s'. quietly s s' \<Longrightarrow> bodily s' \<Longrightarrow> does (f s') (quietly s')"
  shows "does (Option.bind r f) (quietly s)"
  using q_bind [OF assms(1), of f] assms(3) bodily_quietly [OF assms(2)] by blast

section \<open>End tags\<close>

lemma leavesParts_name_of: "n \<notin> ustr ` set partNames \<Longrightarrow> leavesParts n s"
  by (simp add: leavesParts_def)

text \<open>The names of the parts of a table as the branches test them.\<close>

lemma part_tests:
  assumes "n \<notin> ustr ` set partNames"
  shows "\<not> isTableBodyContextTag n" "\<not> isTableCellContextTag n" "n \<noteq> ustr ''tr''" "n \<noteq> ustr ''table''" "n \<noteq> ustr ''caption''"
  using assms by (auto simp: isTableBodyContextTag_def isTableCellContextTag_def isOneOf_def partNames_def)

lemma q_processEndTag:
  assumes "bodily s" "a_type token = EndTag" "a_name token \<notin> ustr ` set partNames"
    and "a_name token \<notin> {ustr ''body'', ustr ''html'', ustr ''br''}"
    and "a_name token = ustr ''p'' \<Longrightarrow> inButtonScope (ustr ''p'') (openElements s)"
  shows "does (processEndTag cfg rec token s) (quietly s)"
proof -
  note tests = part_tests [OF assms(3)]
  have inBody: "does (processEndTagForInBody cfg rec token s') (quietly s')" if "calm s'" "openElements s' = openElements s" for s'
    by (rule q_processEndTagForInBody [OF that(1) assms(2) leavesParts_name_of [OF assms(3)] assms(4)]) (use assms(5) that(2) in simp)
  have calm: "calm s" using assms(1) by (rule bodilyD)
  have inTable: "does (processEndTagForInTable cfg rec token s) (quietly s)"
    using q_withRedirect [where body = "processEndTagForInBody cfg rec token", OF inBody] calm q_Some [OF calm] tests assms(2,4)
    by (simp add: processEndTagForInTable_def Let_def)
  have "m_insertionMode s \<in> bodyModes" using assms(1) by (rule bodilyD)
  then consider "m_insertionMode s = InBodyMode" | "m_insertionMode s = InTableMode" | "m_insertionMode s = InCaptionMode"
    | "m_insertionMode s = InTableBodyMode" | "m_insertionMode s = InRowMode" | "m_insertionMode s = InCellMode"
    by (auto simp: bodyModes_def partModes_def)
  then show ?thesis
    using inBody [OF calm] inTable q_Some [OF calm] tests assms(2,4)
    by cases (simp_all add: processEndTag_def endTagInCaption_def processEndTagForInTableBody_def processEndTagForInRow_def processEndTagForInCell_def Let_def)
qed

text \<open>A button in scope goes.\<close>

lemma button_closes:
  assumes "bodily s" "inScope (ustr ''button'') (openElements s)"
  shows "does (processEndTag cfg rec (fakeEnd ''button'') s) (\<lambda>s'. length (stackOf s') < length (stackOf s))"
proof -
  let ?t = "fakeEnd ''button''"
  have token: "a_type ?t = EndTag" "a_name ?t = ustr ''button''" by (simp_all add: fakeEnd_def fakeToken_def)
  note tests = part_tests [of "a_name ?t"]
  have tests: "\<not> isTableBodyContextTag (a_name ?t)" "\<not> isTableCellContextTag (a_name ?t)" "\<not> isCaptionColOrColgroupTag (a_name ?t)"
    by (simp_all add: token(2) isTableBodyContextTag_def isTableCellContextTag_def isCaptionColOrColgroupTag_def isOneOf_def)
  have block: "does (closeBlock (ustr ''button'') s') (\<lambda>s1. length (stackOf s1) < length (stackOf s))"
    if "calm s'" "openElements s' = openElements s" for s'
  proof (rule does_mono)
    show "does (closeBlock (ustr ''button'') s') (shrunk s')"
      by (rule does_closeBlock [OF that(1), of isScopeMarker])
        (use assms(2) that(2) in \<open>simp_all add: inScope_def impliedNames_def outerNames_def partNames_def\<close>)
  qed (simp add: shrunk_def that(2))
  have inBody: "does (processEndTagForInBody cfg rec ?t s') (\<lambda>s1. length (stackOf s1) < length (stackOf s))"
    if "calm s'" "openElements s' = openElements s" for s'
    using block [OF that] that(2) assms(2) by (simp add: processEndTagForInBody_def token isOneOf_def)
  have calm: "calm s" using assms(1) by (rule bodilyD)
  have inTable: "does (processEndTagForInTable cfg rec ?t s) (\<lambda>s1. length (stackOf s1) < length (stackOf s))"
    using inBody [of "setRedirect True s"] calm tests
    by (simp add: processEndTagForInTable_def token withRedirect_def Let_def does_bind_iff)
  have "m_insertionMode s \<in> bodyModes" using assms(1) by (rule bodilyD)
  then consider "m_insertionMode s = InBodyMode" | "m_insertionMode s = InTableMode" | "m_insertionMode s = InCaptionMode"
    | "m_insertionMode s = InTableBodyMode" | "m_insertionMode s = InRowMode" | "m_insertionMode s = InCellMode"
    by (auto simp: bodyModes_def partModes_def)
  then show ?thesis
    using inBody [OF calm] inTable tests
    by cases (simp_all add: processEndTag_def endTagInCaption_def processEndTagForInTableBody_def processEndTagForInRow_def processEndTagForInCell_def Let_def token)
qed

text \<open>The contract of the end tags the start tags process.\<close>

definition quietNames :: "string list" where
  "quietNames = [''p'', ''li'', ''dd'', ''dt'', ''a'', ''nobr'', ''button'', ''option'', ''label'', ''form'']"

definition endsQuietly :: "calls \<Rightarrow> bool" where
  "endsQuietly rec \<longleftrightarrow> (\<forall>s n. bodily s \<longrightarrow> n \<in> set quietNames \<longrightarrow> (n = ''p'' \<longrightarrow> inButtonScope (ustr ''p'') (openElements s)) \<longrightarrow>
     does (rec (ProcessEndTag (fakeEnd n)) s) (\<lambda>s'. quietly s s'
       \<and> (n = ''button'' \<longrightarrow> inScope (ustr ''button'') (openElements s) \<longrightarrow> length (stackOf s') < length (stackOf s))))"

lemma does_conj: "does r P \<Longrightarrow> does r Q \<Longrightarrow> does r (\<lambda>x. P x \<and> Q x)"
  by (auto simp: does_iff)

lemma endsQuietly_process: "endsQuietly (process cfg (Suc fuel))"
  unfolding endsQuietly_def
proof (intro allI impI)
  fix s n
  assume s: "bodily s" and n: "n \<in> set quietNames" "n = ''p'' \<longrightarrow> inButtonScope (ustr ''p'') (openElements s)"
  let ?rec = "process cfg fuel"
  have token: "a_type (fakeEnd n) = EndTag" "a_name (fakeEnd n) = ustr n" by (simp_all add: fakeEnd_def fakeToken_def)
  have "does (processEndTag cfg ?rec (fakeEnd n) s) (quietly s)"
    by (rule q_processEndTag [OF s token(1)]) (use n in \<open>auto simp: token(2) quietNames_def partNames_def\<close>)
  moreover have "does (processEndTag cfg ?rec (fakeEnd n) s) (\<lambda>s'. length (stackOf s') < length (stackOf s))"
    if "n = ''button''" "inScope (ustr ''button'') (openElements s)"
    unfolding that(1) by (rule button_closes [OF s that(2)])
  ultimately show "does (process cfg (Suc fuel) (ProcessEndTag (fakeEnd n)) s) (\<lambda>s'. quietly s s'
       \<and> (n = ''button'' \<longrightarrow> inScope (ustr ''button'') (openElements s) \<longrightarrow> length (stackOf s') < length (stackOf s)))"
    by (auto simp: perform_def does_iff)
qed

section \<open>Fake start tags\<close>

lemma endsQuietlyD:
  "endsQuietly rec \<Longrightarrow> bodily s \<Longrightarrow> n \<in> set quietNames \<Longrightarrow> n \<noteq> ''p'' \<Longrightarrow> does (rec (ProcessEndTag (fakeEnd n)) s) (quietly s)"
  "endsQuietly rec \<Longrightarrow> bodily s \<Longrightarrow> inButtonScope (ustr ''p'') (openElements s) \<Longrightarrow> does (rec (ProcessEndTag (fakeEnd ''p'')) s) (quietly s)"
proof -
  show "does (rec (ProcessEndTag (fakeEnd n)) s) (quietly s)" if "endsQuietly rec" "bodily s" "n \<in> set quietNames" "n \<noteq> ''p''"
    using that(1) [unfolded endsQuietly_def, rule_format, of s n] that(2-4) by (auto elim: does_mono)
  show "does (rec (ProcessEndTag (fakeEnd ''p'')) s) (quietly s)"
    if "endsQuietly rec" "bodily s" "inButtonScope (ustr ''p'') (openElements s)"
    using that(1) [unfolded endsQuietly_def, rule_format, of s "''p''"] that(2,3) by (auto elim: does_mono simp: quietNames_def)
qed

lemma q_fakeP:
  assumes "endsQuietly rec" "bodily s"
  shows "does (processFakePEndTagIfPInButtonScope rec s) (quietly s)"
  using endsQuietlyD(2) [OF assms] q_Some [OF bodilyD(1) [OF assms(2)]] by (simp add: processFakePEndTagIfPInButtonScope_def)

lemma q_setFramesetOk: "does r (quietly s) \<Longrightarrow> does (map_option (setFramesetOk b) r) (quietly s)"
  by (simp add: does_map)

lemma q_voidInBody:
  assumes "calm s" "a_type token = StartTag"
  shows "does (voidInBody token s) (quietly s)"
  unfolding voidInBody_def
  by (intro q_bind quiet_ops assms) (simp_all add: quietly_refl)

definition startNames :: "string list" where
  "startNames = [''p'', ''hr'', ''br'', ''label'', ''input'', ''form'']"

abbreviation fakeTag :: "string \<Rightarrow> attributeMap option \<Rightarrow> atomicToken" where
  "fakeTag n attributes \<equiv> fakeToken StartTag (ustr n) attributes"

lemma fakeTag_simps [simp]: "a_type (fakeTag n m) = StartTag" "a_name (fakeTag n m) = ustr n"
  by (simp_all add: fakeToken_def)

lemma q_fakeStartInBody:
  assumes "endsQuietly rec" "bodily s" "n \<in> set startNames"
  shows "does (processStartTagForInBody cfg rec (fakeTag n m) s) (quietly s)"
proof -
  note tests = isOneOf_def isNumberedHeaderTag_def isNonAnchorNonNobrFormattingTag_def
    isCaptionColOrColgroupTag_def isTableBodyContextTag_def isTableCellContextTag_def
  have calm: "calm s" by (rule bodilyD [OF assms(2)])
  consider "n = ''p''" | "n = ''hr''" | "n = ''br''" | "n = ''input''" | "n = ''label''" | "n = ''form''"
    using assms(3) by (auto simp: startNames_def)
  then show ?thesis
  proof cases
    case 1
    then show ?thesis
      by (simp add: processStartTagForInBody_def tests)
        (intro q_bind q_fakeP assms(1,2) q_insertHTMLElement; simp add: partNames_def outerNames_def)
  next
    case 2
    then show ?thesis
      by (simp add: processStartTagForInBody_def tests)
        (intro q_bind q_fakeP assms(1,2) q_insertSelfClosing; simp add: quietly_refl)
  next
    case 3
    then show ?thesis
      using q_voidInBody [OF calm] by (simp add: processStartTagForInBody_def tests)
  next
    case 4
    then show ?thesis
      using q_voidInBody [OF calm] by (simp add: processStartTagForInBody_def tests)
  next
    case 5
    then show ?thesis
      by (simp add: processStartTagForInBody_def tests)
        (intro q_bind q_reconstruct calm q_insertHTMLElement; simp add: partNames_def outerNames_def)
  next
    case 6
    have "does (do { s \<leftarrow> processFakePEndTagIfPInButtonScope rec s; onTree (insertHTMLFormElement (fakeTag n m) False) s }) (quietly s)"
      by (intro q_bind q_fakeP assms(1,2) q_insertHTMLFormElement) (simp_all add: 6)
    then show ?thesis using 6 q_Some [OF calm] by (simp add: processStartTagForInBody_def tests)
  qed
qed

text \<open>A form in a table is closed at once.\<close>

lemma q_formInTable:
  assumes "calm s" "a_name token = ustr ''form''"
  shows "does (do { s \<leftarrow> onTree (insertHTMLFormElement token True) s; onOpenElements pop_element s }) (quietly s)"
proof (rule does_bind [OF does_insertHTMLFormElement [OF assms]], elim conjE exE)
  fix s' e
  assume q: "quietly s s'" and es: "stackOf s' = e # stackOf s" and e: "hasTagName e ''form''"
  note e = form_ordinary [OF e]
  have "does (onOpenElements pop_element s') (repiled s' (stackOf s))"
    by (rule does_pop [OF calmD(1) [OF quietlyD(1) [OF q]] es ordinaryD(5) [OF e]])
  moreover have "quietly s' s1" if "repiled s' (stackOf s) s1" for s1
    by (rule repiled_quietly [OF that calmD(2) [OF assms(1)]]) (use keepsTop_drop [of "[e]"] ordinaryD(3) [OF e] es in simp)
  ultimately show "does (onOpenElements pop_element s') (quietly s)" using q_then [OF _ q] does_mono by blast
qed

definition startsQuietly :: "calls \<Rightarrow> bool" where
  "startsQuietly rec \<longleftrightarrow> (\<forall>s n m. bodily s \<longrightarrow> n \<in> set startNames \<longrightarrow> does (rec (ProcessStartTag (fakeTag n m)) s) (quietly s))"

lemma q_fakeStart:
  assumes "endsQuietly rec" "bodily s" "n \<in> set startNames"
  shows "does (processStartTag cfg rec (fakeTag n m) s) (quietly s)"
proof -
  have calm: "calm s" by (rule bodilyD [OF assms(2)])
  have inBody: "does (processStartTagForInBody cfg rec (fakeTag n m) s) (quietly s)" by (rule q_fakeStartInBody [OF assms])
  have redirected: "does (withRedirect (processStartTagForInBody cfg rec (fakeTag n m)) s) (quietly s)"
    by (rule q_withRedirect, rule q_fakeStartInBody [OF assms(1) _ assms(3)]) (simp add: assms(2))
  have name: "\<not> isTableBodyContextTag (ustr n)" "\<not> isTableCellContextTag (ustr n)" "\<not> isCaptionColOrColgroupTag (ustr n)"
      "n \<notin> {''tr'', ''table'', ''style'', ''script'', ''caption'', ''colgroup'', ''col''}"
    using assms(3) by (auto simp: startNames_def isTableBodyContextTag_def isTableCellContextTag_def isCaptionColOrColgroupTag_def isOneOf_def)
  have inTable: "does (processStartTagForInTable cfg rec (fakeTag n m) s) (quietly s)"
    using name redirected q_Some [OF calm] q_formInTable [OF calm, of "fakeTag n m"] q_insertSelfClosing [OF calm, of "fakeTag n m"]
    by (auto simp: processStartTagForInTable_def Let_def)
  have "m_insertionMode s \<in> bodyModes" using assms(2) by (rule bodilyD)
  then consider "m_insertionMode s = InBodyMode" | "m_insertionMode s = InTableMode" | "m_insertionMode s = InCaptionMode"
    | "m_insertionMode s = InTableBodyMode" | "m_insertionMode s = InRowMode" | "m_insertionMode s = InCellMode"
    by (auto simp: bodyModes_def partModes_def)
  then show ?thesis
    using inBody inTable name
    by cases (simp_all add: processStartTag_def startTagInCaption_def startTagInTableBody_def startTagInRow_def startTagInCell_def Let_def)
qed

lemma startsQuietly_process: "startsQuietly (process cfg (Suc (Suc fuel)))"
proof -
  have "does (processStartTag cfg (process cfg (Suc fuel)) (fakeTag n m) s) (quietly s)" if "bodily s" "n \<in> set startNames" for s n m
    by (rule q_fakeStart [OF endsQuietly_process that])
  then show ?thesis by (simp add: startsQuietly_def perform_def)
qed

end
