(* ===== verification/HTMLTreeBuilderTableText.thy ===== *)
theory HTMLTreeBuilderTableText
  imports HTMLTreeBuilderBodyCalls
begin

text \<open>
  Characters in a table: they wait in \<open>InTableTextMode\<close> until the next token and are then inserted in front of
  the table, or in it when they are white space.  \<open>HTMLTreeBuilder::processIsindexStartTagForInBody\<close> is here
  because it inserts characters, in a table too.
\<close>

section \<open>The characters of a table\<close>

definition flushed :: "treeBuilder \<Rightarrow> treeBuilder \<Rightarrow> bool" where
  "flushed s s' \<longleftrightarrow> calm s' \<and> keepsTop (stackOf s) (stackOf s') \<and> m_insertionMode s' = m_originalInsertionMode s
     \<and> \<not> m_isFakeInsertionMode s' \<and> m_pendingTableCharacters s' = [] \<and> builderAsserts s' = builderAsserts s
     \<and> m_head (m_tree s') = m_head (m_tree s)
     \<and> m_redirectAttachToFosterParent (m_tree s') = m_redirectAttachToFosterParent (m_tree s)
     \<and> length (stackOf s') \<le> length (stackOf s) + length (siteEntries (m_tree s))"

lemma onTree_original: "onTree f s = Some s' \<Longrightarrow> m_originalInsertionMode s' = m_originalInsertionMode s"
  by (auto simp: onTree_def)

lemma reconstruct_length:
  assumes "calm s" "onTree reconstructTheActiveFormattingElements s = Some s'"
  shows "length (stackOf s') \<le> length (stackOf s) + length (siteEntries (m_tree s))"
proof -
  obtain t xs es news where t: "reconstructTheActiveFormattingElements (m_tree s) = Some t"
    "siteEntries (m_tree s) = xs @ map Some es" "siteElements t = rev news @ stackOf s" "map localName news = map localName es"
    using reconstruct_ok [OF calmD(1,3) [OF assms(1)]] by metis
  have "length news = length es" using t(4) by (rule map_eq_imp_length_eq)
  moreover have "s' = s\<lparr>m_tree := t\<rparr>" using assms(2) t(1) by (simp add: onTree_def)
  ultimately show ?thesis using arg_cong [OF t(3), of length] t(2) by simp
qed

lemma insertText_length:
  assumes "calm s" "onTree (insertTextNode c) s = Some s'"
  shows "openElements s' = openElements s"
proof -
  obtain t where "insertTextNode c (m_tree s) = Some t" "kept (m_tree s) t"
    using insertTextNode_ok [OF calmD(1,3) [OF assms(1)]] .
  then show ?thesis using assms(2) by (auto simp: onTree_def kept_def)
qed

lemma flushedI:
  assumes "quietly s s'" "m_insertionMode s \<noteq> InBodyMode" "m_pendingTableCharacters s = []" "m \<noteq> InForeignContentMode"
    and "length (stackOf s') \<le> length (stackOf s) + length (siteEntries (m_tree s))"
  shows "does (prepareToReprocessToken cfg (setInsertionMode m s')) (flushed (s\<lparr>m_originalInsertionMode := m\<rparr>))"
  using assms(2-) quietlyD [OF assms(1)] by (simp add: prepare_other flushed_def calm_def)

lemma does_flush:
  assumes "calm s" "m_insertionMode s = InTableTextMode" "m_originalInsertionMode s \<in> fosterModes"
  shows "does (defaultForInTableText cfg s) (flushed s)"
proof -
  let ?c = "m_pendingTableCharacters s" and ?o = "m_originalInsertionMode s"
  let ?s = "s\<lparr>m_pendingTableCharacters := []\<rparr>"
  have calm: "calm ?s" "calm (setRedirect True ?s)" using assms(1) by (simp_all add: calm_def)
  have orig: "?o \<noteq> InForeignContentMode" using assms(3) by (auto simp: fosterModes_def)
  have same: "flushed (u\<lparr>m_originalInsertionMode := ?o\<rparr>) = flushed s" if "m_tree u = m_tree s" "builderAsserts u = builderAsserts s" for u
    using that by (simp add: flushed_def fun_eq_iff)
  show ?thesis
  proof (cases "isAllWhitespace ?c")
    case True
    obtain s1 where s1: "onTree (insertTextNode ?c) ?s = Some s1" "quietly ?s s1" using q_insertTextNode [OF calm(1)] by (rule doesE)
    have "does (prepareToReprocessToken cfg (setInsertionMode ?o s1)) (flushed (?s\<lparr>m_originalInsertionMode := ?o\<rparr>))"
      by (rule flushedI [OF s1(2)]) (use assms(2) orig insertText_length [OF calm(1) s1(1)] in simp_all)
    then show ?thesis using True s1(1) onTree_original [OF s1(1)] same [of ?s] by (simp add: defaultForInTableText_def Let_def)
  next
    case False
    let ?r = "setRedirect True ?s"
    obtain s1 where s1: "onTree reconstructTheActiveFormattingElements ?r = Some s1" "quietly ?r s1"
      using q_reconstruct [OF calm(2)] by (rule doesE)
    obtain s2 where s2: "onTree (insertTextNode ?c) s1 = Some s2" "quietly s1 s2"
      using q_insertTextNode [OF quietlyD(1) [OF s1(2)]] by (rule doesE)
    have q: "quietly ?r (setFramesetOk False s2)" using quietly_trans [OF s1(2) s2(2)] by simp
    have len: "length (stackOf s2) \<le> length (stackOf ?r) + length (siteEntries (m_tree ?r))"
      using reconstruct_length [OF calm(2) s1(1)] insertText_length [OF quietlyD(1) [OF s1(2)] s2(1)] by simp
    have "does (prepareToReprocessToken cfg (setInsertionMode ?o (setFramesetOk False s2))) (flushed (?r\<lparr>m_originalInsertionMode := ?o\<rparr>))"
      by (rule flushedI [OF q]) (use assms(2) orig len in simp_all)
    moreover have "m_originalInsertionMode s2 = ?o"
      using onTree_original [OF s1(1)] onTree_original [OF s2(1)] by (simp add: setRedirect_def)
    moreover have "m_redirectAttachToFosterParent (m_tree ?s) = m_redirectAttachToFosterParent (m_tree s)" by simp
    moreover have "flushed (?r\<lparr>m_originalInsertionMode := ?o\<rparr>) s3 \<Longrightarrow> flushed s (setRedirect (m_redirectAttachToFosterParent (m_tree s)) s3)" for s3
      by (simp add: flushed_def) (simp add: setRedirect_def)
    ultimately show ?thesis using False s1(1) s2(1)
      by (auto simp: defaultForInTableText_def withRedirect_def Let_def does_bind_iff elim: does_mono)
  qed
qed

lemma flushed_quietly:
  assumes "bodily s" "m_insertionMode s \<in> fosterModes" "flushed s1 s2" "m_tree s1 = m_tree s" "builderAsserts s1 = builderAsserts s"
    "m_originalInsertionMode s1 = m_insertionMode s"
  shows "quietly s s2"
proof -
  have "m_insertionMode s \<noteq> InBodyMode" using assms(2) by (auto simp: fosterModes_def)
  then have "modes s2 = modes s" using assms(1,3,6) by (simp add: flushed_def modes_def bodily_def)
  then show ?thesis using assms(3-5) by (simp add: flushed_def quietly_def)
qed

section \<open>Characters and a field\<close>

lemma q_charactersInBody:
  assumes "calm s" "buffer \<noteq> []"
  shows "does (charactersInBody buffer s) (quietly s)"
  unfolding charactersInBody_def ASSERT_buffer_def
  by (intro q_bind q_reconstruct assms) (use assms(2) q_insertTextNode in \<open>auto simp: quietly_refl\<close>)

definition inputsQuietly :: "calls \<Rightarrow> bool" where
  "inputsQuietly rec \<longleftrightarrow> (\<forall>s buffer m. bodily s \<longrightarrow> buffer \<noteq> [] \<longrightarrow>
     does (do { s \<leftarrow> rec (ProcessCharacterBuffer buffer) s; rec (ProcessStartTag (fakeTag ''input'' m)) s }) (quietly s))"

text \<open>Characters that start to wait.\<close>

definition waiting :: "ustr \<Rightarrow> treeBuilder \<Rightarrow> treeBuilder" where
  "waiting buffer s = (setInsertionMode InTableTextMode (s\<lparr>m_originalInsertionMode := m_insertionMode s\<rparr>))
     \<lparr>m_hasPendingForeignInsertionModeSteps := False, m_pendingTableCharacters := buffer\<rparr>"

lemma charactersInTable:
  assumes "m_insertionMode s \<in> fosterModes" "m_pendingTableCharacters s = []"
  shows "processCharacterBuffer cfg rec buffer s = Some (waiting buffer s)"
proof -
  have "processCharacterBuffer cfg rec buffer s =
      do { s \<leftarrow> prepareToReprocessToken cfg (setInsertionMode InTableTextMode (s\<lparr>m_originalInsertionMode := m_insertionMode s\<rparr>));
           Some (s\<lparr>m_pendingTableCharacters := m_pendingTableCharacters s @ buffer\<rparr>) }"
    using assms by (auto simp: processCharacterBuffer_def fosterModes_def)
  then show ?thesis using assms(2) by (simp add: prepare_other waiting_def)
qed

lemma waiting_simps [simp]:
  "m_tree (waiting b s) = m_tree s" "m_insertionMode (waiting b s) = InTableTextMode" "m_originalInsertionMode (waiting b s) = m_insertionMode s"
  "builderAsserts (waiting b s) = builderAsserts s" "m_pendingTableCharacters (waiting b s) = b" "\<not> m_isFakeInsertionMode (waiting b s)"
  by (simp_all add: waiting_def)

lemma inputsQuietly_process:
  assumes "startsQuietly (process cfg fuel)" "startsQuietly (process cfg (Suc fuel))"
  shows "inputsQuietly (process cfg (Suc fuel))"
  unfolding inputsQuietly_def
proof (intro allI impI)
  fix s buffer m
  let ?rec = "process cfg fuel" and ?t = "fakeTag ''input'' m"
  assume s: "bodily s" and buffer: "(buffer :: ustr) \<noteq> []"
  have input: "''input'' \<in> set startNames" by (simp add: startNames_def)
  show "does (do { s \<leftarrow> process cfg (Suc fuel) (ProcessCharacterBuffer buffer) s; process cfg (Suc fuel) (ProcessStartTag ?t) s }) (quietly s)"
  proof (cases "m_insertionMode s \<in> fosterModes")
    case True
    let ?w = "waiting buffer s"
    have "does (defaultForInTableText cfg ?w) (flushed ?w)"
      by (rule does_flush) (use True bodilyD(1) [OF s] in \<open>simp_all add: calm_def\<close>)
    then obtain s2 where s2: "defaultForInTableText cfg ?w = Some s2" "flushed ?w s2" by (rule doesE)
    have q: "quietly s s2" by (rule flushed_quietly [OF s True s2(2)]) simp_all
    have "does (?rec (ProcessStartTag ?t) s2) (quietly s2)"
      using assms(1) bodily_quietly [OF s q] input by (simp add: startsQuietly_def)
    then have "does (?rec (ProcessStartTag ?t) s2) (quietly s)" by (rule q_then [OF _ q])
    then show ?thesis using s2(1) charactersInTable [OF True] s by (simp add: perform_def processStartTag_def bodily_def)
  next
    case False
    then have "m_insertionMode s \<in> {InBodyMode, InCaptionMode, InCellMode}"
      using bodilyD(2) [OF s] by (auto simp: bodyModes_def partModes_def fosterModes_def)
    then have "process cfg (Suc fuel) (ProcessCharacterBuffer buffer) s = charactersInBody buffer s"
      by (auto simp: perform_def processCharacterBuffer_def)
    moreover have "does (process cfg (Suc fuel) (ProcessStartTag ?t) s1) (quietly s1)" if "bodily s1" for s1
      using assms(2) that input unfolding startsQuietly_def by blast
    ultimately show ?thesis using b_bind [OF q_charactersInBody [OF bodilyD(1) [OF s] buffer] s] by metis
  qed
qed

section \<open>The isindex tag\<close>

definition isindexOk :: "builderConfig \<Rightarrow> atomicToken \<Rightarrow> bool" where
  "isindexOk cfg token \<longleftrightarrow> token_getAttributeItem (plainName (ustr ''action'')) token = None
     \<and> (case token_getAttributeItem (plainName (ustr ''prompt'')) token of
          None \<Rightarrow> searchableIndexIntroduction cfg \<noteq> [] | Some (_, prompt) \<Rightarrow> prompt \<noteq> [])"

lemma q_isindex:
  assumes "bodily s" "a_type token = StartTag" "a_name token = ustr ''isindex''" "isindexOk cfg token"
    and "endsQuietly rec" "startsQuietly rec" "inputsQuietly rec"
  shows "does (processIsindexStartTagForInBody cfg rec token s) (quietly s)"
proof -
  let ?text = "case token_getAttributeItem (plainName (ustr ''prompt'')) token of Some (_, prompt) \<Rightarrow> prompt | None \<Rightarrow> searchableIndexIntroduction cfg"
  have nonempty: "?text \<noteq> []" and action: "token_getAttributeItem (plainName (ustr ''action'')) token = None"
    using assms(4) by (auto simp: isindexOk_def split: option.splits)
  have start: "does (processFakeStartTag rec n None s) (quietly s)" if "bodily s" "n \<in> set startNames" for n s
    using assms(6) that by (simp add: startsQuietly_def processFakeStartTag_def)
  have "end": "does (processFakeEndTag rec (ustr n) s) (quietly s)" if "bodily s" "n \<in> set quietNames" "n \<noteq> ''p''" for n s
    using endsQuietlyD(1) [OF assms(5) that] by (simp add: processFakeEndTag_def fakeEnd_def)
  have fields: "does (do { s \<leftarrow> processFakeCharacters rec ?text s; processFakeStartTag rec ''input'' m s }) (quietly s)" if "bodily s" for s m
    using assms(7) that nonempty by (simp add: inputsQuietly_def processFakeCharacters_def processFakeStartTag_def)
  have "does (do { s \<leftarrow> processFakeStartTag rec ''form'' None s;
                   s \<leftarrow> processFakeStartTag rec ''hr'' None s;
                   s \<leftarrow> processFakeStartTag rec ''label'' None s;
                   s \<leftarrow> do { s \<leftarrow> processFakeCharacters rec ?text s; processFakeStartTag rec ''input'' (Some (attributesForIsindexInput token)) s };
                   s \<leftarrow> processFakeEndTag rec (ustr ''label'') s;
                   s \<leftarrow> processFakeStartTag rec ''hr'' None s;
                   processFakeEndTag rec (ustr ''form'') s }) (quietly s)"
    by (intro b_bind start "end" fields assms(1)) (simp_all add: startNames_def quietNames_def)
  then show ?thesis
    using action assms(2,3) q_Some [OF bodilyD(1) [OF assms(1)]]
    by (simp add: processIsindexStartTagForInBody_def Let_def bind_assoc)
qed

end
