(* ===== verification/HTMLTreeBuilderStartTags.thy ===== *)
theory HTMLTreeBuilderStartTags
  imports HTMLTreeBuilderTableText
begin

text \<open>
  The start tags of the body, \<open>HTMLTreeBuilder::processStartTagForInBody\<close>: most are quiet steps; the others
  open a table, a selection, a text element or foreign content, or replace the body by a frameset.
\<close>

section \<open>Quiet start tags\<close>

lemma q_onlyElement:
  assumes "calm s"
  shows "secondElementIsHTMLBodyElement (openElements s)" "hasOnlyOneElement (openElements s) = Some False"
proof -
  obtain xs b h where es: "stackOf s = xs @ [b, h]" "hasTagName b ''body''" using calmD(2) [OF assms] by (rule bodyStackE)
  then obtain rs rb rh where top: "m_top (openElements s) = rs @ [rb, rh]" "m_element rb = b"
    by (auto simp: map_eq_append_conv map_eq_Cons_conv)
  have "m_bodyElement (openElements s) = Some b"
    using site_okD(3) [OF calmD(1) [OF assms]] es unfolding stack_ok_def by (auto dest!: rememberedD)
  then show "secondElementIsHTMLBodyElement (openElements s)" by (simp add: secondElementIsHTMLBodyElement_def)
  show "hasOnlyOneElement (openElements s) = Some False" using top(1) by (cases rs) (simp_all add: hasOnlyOneElement_def)
qed

lemma q_bodyInBody:
  assumes "calm s"
  shows "does (bodyInBody cfg token s) (quietly s)"
  using q_onlyElement [OF assms] q_insertHTMLBodyStartTagInBody [OF assms] by (simp add: bodyInBody_def)

lemma q_header:
  assumes "bodily s" "endsQuietly rec" "ordinaryName (a_name token)"
  shows "does (do { s \<leftarrow> processFakePEndTagIfPInButtonScope rec s;
                    c \<leftarrow> currentElementOf s;
                    s \<leftarrow> (if isNumberedHeaderTag (localName c) then onOpenElements pop_element s else Some s);
                    onTree (insertHTMLElement token) s }) (quietly s)"
proof (rule b_bind [OF q_fakeP [OF assms(2,1)] assms(1)])
  fix s assume s: "bodily s"
  note ok = calmD [OF bodilyD(1) [OF s]]
  obtain c es where es: "stackOf s = c # es" using ok(3) by (cases "stackOf s") auto
  have "does (if isNumberedHeaderTag (localName c) then onOpenElements pop_element s else Some s) (quietly s)"
  proof (rule does_if)
    assume "isNumberedHeaderTag (localName c)"
    then obtain n where n: "localName c = ustr n" "n \<in> {''h1'', ''h2'', ''h3'', ''h4'', ''h5'', ''h6''}"
      by (auto simp: isNumberedHeaderTag_def isOneOf_def)
    then have name: "ordinaryName (localName c)" by (auto simp: partNames_def outerNames_def)
    have "bodyStack ([] @ c # es)" using ok(2) es by simp
    note split = name_split [OF this name name]
    have "\<not> tablePart c" unfolding tablePart_def by (rule ordinaryName_tag [OF name]) (simp add: list_all_iff)
    then have "keepsTop (stackOf s) es" using keepsTop_drop [of "[c]" es] es by simp
    then have "quietly s s'" if "repiled s es s'" for s' using repiled_quietly [OF that split(3)] by simp
    then show "does (onOpenElements pop_element s) (quietly s)"
      by (rule does_mono [OF does_pop [OF ok(1) es inner_plain [OF split(2)]]])
  next
    show "does (Some s) (quietly s)" by (rule q_Some [OF bodilyD(1) [OF s]])
  qed
  moreover have "currentElementOf s = Some c" using es by (simp add: stack_top)
  ultimately show "does (do { c \<leftarrow> currentElementOf s;
                    s \<leftarrow> (if isNumberedHeaderTag (localName c) then onOpenElements pop_element s else Some s);
                    onTree (insertHTMLElement token) s }) (quietly s)"
    using q_bind q_insertHTMLElement [OF _ assms(3)] by (metis bind.bind_lunit)
qed

lemma closeWhenNested_loop_Some:
  assumes "\<exists>e \<in> set es. isSpecialNode e \<and> \<not> hasTagName e ''address'' \<and> \<not> hasTagName e ''div'' \<and> \<not> hasTagName e ''p''"
  shows "\<exists>r. closeWhenNested_loop P es = Some r \<and> (\<forall>e. r = Some e \<longrightarrow> P e)"
  using assms by (induction es) auto

lemma q_closeWhenNested:
  assumes "bodily s" "endsQuietly rec" "ordinaryName (a_name token)"
    and "\<And>e. P e \<Longrightarrow> \<exists>n. localName e = ustr n \<and> n \<in> set quietNames \<and> n \<noteq> ''p''"
  shows "does (processCloseWhenNestedTag rec P token s) (quietly s)"
proof -
  let ?s = "setFramesetOk False s"
  obtain b where b: "b \<in> set (stackOf s)" "hasTagName b ''body''" using bodyStack_body [OF calmD(2) [OF bodilyD(1) [OF assms(1)]]] .
  have "isSpecialNode b \<and> \<not> hasTagName b ''address'' \<and> \<not> hasTagName b ''div'' \<and> \<not> hasTagName b ''p''"
    using b(2) body_special [OF b(2)] by (simp add: hasQName_def)
  then obtain r where r: "closeWhenNested_loop P (stackOf s) = Some r" "\<forall>e. r = Some e \<longrightarrow> P e"
    using closeWhenNested_loop_Some [of "stackOf s" P] b(1) by blast
  have s: "bodily ?s" using assms(1) by simp
  have "does (case r of Some e \<Rightarrow> processFakeEndTag rec (localName e) ?s | None \<Rightarrow> Some ?s) (quietly ?s)"
  proof (cases r)
    case None
    then show ?thesis using q_Some [OF bodilyD(1) [OF s]] by simp
  next
    case (Some e)
    then obtain n where "localName e = ustr n" "n \<in> set quietNames" "n \<noteq> ''p''" using r(2) assms(4) by blast
    then show ?thesis using Some endsQuietlyD(1) [OF assms(2) s] by (simp add: processFakeEndTag_def fakeEnd_def)
  qed
  then have "does (do { s \<leftarrow> (case r of Some e \<Rightarrow> processFakeEndTag rec (localName e) ?s | None \<Rightarrow> Some ?s);
                        s \<leftarrow> processFakePEndTagIfPInButtonScope rec s;
                        onTree (insertHTMLElement token) s }) (quietly ?s)"
    by (rule b_bind [OF _ s]) (intro q_bind q_fakeP [OF assms(2)] q_insertHTMLElement [OF _ assms(3)])
  then show ?thesis using r(1) by (simp add: processCloseWhenNestedTag_def Let_def)
qed

lemma q_anchor:
  assumes "bodily s" "endsQuietly rec" "a_name token = ustr ''a''"
  shows "does (anchorInBody rec token s) (quietly s)"
proof -
  have remove: "does (if contains_element e (openElements s') then onOpenElements (remove_element e) s' else Some s') (quietly s')"
    if "calm s'" "isFormattingElement e" for s' e
  proof (cases "e \<in> set (stackOf s')")
    case True
    then obtain A B where es: "stackOf s' = A @ e # B" by (meson split_list)
    note e = formatting_ordinary [OF that(2)]
    have q: "quiet (stackOf s') (A @ B)" unfolding es
      by (rule quiet_remove [OF _ ordinaryD(3,1) [OF e]]) (use calmD(2) [OF that(1)] es in simp)
    have "does (onOpenElements (remove_element e) s') (quietly s')"
      by (rule does_mono [OF does_remove [OF calmD(1) [OF that(1)] es ordinaryD(5) [OF e]]]) (erule repiled_quiet [OF _ q])
    then show ?thesis using True by simp
  next
    case False
    then show ?thesis using q_Some [OF that(1)] by simp
  qed
  have first: "does (case closestElementInScopeWithName (ustr ''a'') (activeFormattingElements s) of
                 None \<Rightarrow> Some s
               | Some activeATag \<Rightarrow>
                   do { s \<leftarrow> processFakeEndTag rec (ustr ''a'') s;
                        let s = onFormattingElements (remove_entry activeATag) s;
                        if contains_element activeATag (openElements s)
                        then onOpenElements (remove_element activeATag) s else Some s }) (quietly s)"
  proof (cases "closestElementInScopeWithName (ustr ''a'') (activeFormattingElements s)")
    case None
    then show ?thesis using q_Some [OF bodilyD(1) [OF assms(1)]] by simp
  next
    case (Some e)
    have fe: "isFormattingElement e"
      using Some site_okD(9) [OF calmD(1) [OF bodilyD(1) [OF assms(1)]]] unfolding closest_Some_iff by fastforce
    have "does (processFakeEndTag rec (ustr ''a'') s) (quietly s)"
      using endsQuietlyD(1) [OF assms(2,1), of "''a''"] by (simp add: processFakeEndTag_def fakeEnd_def quietNames_def)
    then have "does (do { s \<leftarrow> processFakeEndTag rec (ustr ''a'') s;
                        let s = onFormattingElements (remove_entry e) s;
                        if contains_element e (openElements s) then onOpenElements (remove_element e) s else Some s }) (quietly s)"
      unfolding Let_def using q_then [OF remove [OF _ fe]] markers_quietly(3) quietlyD(1) by (intro q_bind) blast+
    then show ?thesis using Some by simp
  qed
  show ?thesis
    unfolding anchorInBody_def by (intro q_bind [OF first] q_bind q_reconstruct q_insertFormattingElement) (simp_all add: assms(3) formattingNames_def)
qed

lemma q_nobr:
  assumes "bodily s" "endsQuietly rec" "a_name token = ustr ''nobr''"
  shows "does (nobrInBody rec token s) (quietly s)"
proof -
  have "does (if inScope (ustr ''nobr'') (openElements s)
               then do { s \<leftarrow> processFakeEndTag rec (ustr ''nobr'') s; onTree reconstructTheActiveFormattingElements s }
               else Some s) (quietly s)" if s: "bodily s" for s
  proof (rule does_if)
    have "does (processFakeEndTag rec (ustr ''nobr'') s) (quietly s)"
      using endsQuietlyD(1) [OF assms(2) s, of "''nobr''"] by (simp add: processFakeEndTag_def fakeEnd_def quietNames_def)
    then show "does (do { s \<leftarrow> processFakeEndTag rec (ustr ''nobr'') s; onTree reconstructTheActiveFormattingElements s }) (quietly s)"
      by (rule q_bind) (rule q_reconstruct)
  qed (rule q_Some [OF bodilyD(1) [OF s]])
  then show ?thesis unfolding nobrInBody_def
    by (intro b_bind [OF q_reconstruct assms(1)] q_bind q_insertFormattingElement bodilyD(1) [OF assms(1)])
      (simp_all add: assms(3) formattingNames_def)
qed

lemma q_ruby:
  assumes "calm s" "ordinaryName (a_name token)"
  shows "does (rubyTextInBody token s) (quietly s)"
proof -
  have "does (if inScope (ustr ''ruby'') (openElements s)
               then do { s \<leftarrow> onTree generateImpliedEndTags s;
                         c \<leftarrow> currentElementOf s;
                         if \<not> hasTagName c ''ruby'' then onOpenElements (popUntil (ustr ''ruby'')) s else Some s }
               else Some s) (quietly s)"
  proof (rule does_if)
    assume "inScope (ustr ''ruby'') (openElements s)"
    then obtain A t B where es: "stackOf s = A @ t # B" "hasLocalName t (ustr ''ruby'')"
        "\<forall>x \<in> set A. \<not> hasLocalName x (ustr ''ruby'') \<and> \<not> isScopeMarker x"
      unfolding inScope_def using inScopeE scope_markers(1) by blast
    have t: "ordinaryName (localName t)" using es(2) by (simp add: hasLocalName_def partNames_def outerNames_def)
    note split = name_split [OF calmD(2) [OF assms(1), unfolded es(1)] t t]
    have not_implied: "\<not> hasImpliedEndTag t" by (rule not_implied_name [OF es(2)]) (simp add: impliedNames_def)
    obtain s1 where s1: "onTree generateImpliedEndTags s = Some s1" "repiled s (dropWhile hasImpliedEndTag (stackOf s)) s1"
      using does_generateImpliedEndTags(1) [OF calmD(1,3) [OF assms(1)]] by (rule doesE)
    have es1: "stackOf s1 = dropWhile hasImpliedEndTag A @ t # B"
      using repiledD(2) [OF s1(2)] es(1) dropWhile_split [where P = hasImpliedEndTag, OF not_implied] by metis
    have q1: "quietly s s1" using repiled_quiet [OF s1(2) quiet_dropWhile [OF calmD(2) [OF assms(1)] implied_ordinary]] .
    have pop: "does (onOpenElements (popUntil (ustr ''ruby'')) s1) (repiled s1 (t # B))"
      unfolding popUntil_def
      by (rule does_popLoop [OF repiledD(1) [OF s1(2)] es1]) (use es(2,3) split(1) inner_plain in \<open>auto dest: set_dropWhileD\<close>)
    have "quietly s s2" if "repiled s1 (t # B) s2" for s2
      using repiled_quietly [OF repiled_trans [OF s1(2) that] split(4)] scope_keepsTop(2) [OF _ _ t, of A B] calmD(2) [OF assms(1)] es by simp
    then have "does (onOpenElements (popUntil (ustr ''ruby'')) s1) (quietly s)" by (rule does_mono [OF pop])
    then show "does (do { s \<leftarrow> onTree generateImpliedEndTags s; c \<leftarrow> currentElementOf s;
                     if \<not> hasTagName c ''ruby'' then onOpenElements (popUntil (ustr ''ruby'')) s else Some s }) (quietly s)"
      using s1(1) q1 stack_hd [of s1] es1 by simp
  qed (rule q_Some [OF assms(1)])
  then show ?thesis unfolding rubyTextInBody_def
    by (rule q_bind) (rule q_insertHTMLElement [OF _ assms(2)])
qed

section \<open>Other modes\<close>

lemma steps_simps [simp]:
  "steps s (setFramesetOk b s') = steps s s'" "steps s (onTokenizer f s') = steps s s'"
  "steps s (setInsertionMode m (setFramesetOk b s')) = steps s (setInsertionMode m s')"
  "ready (s'\<lparr>m_hasPendingForeignInsertionModeSteps := b\<rparr>) = ready s'" "ready (setFramesetOk b s') = ready s'"
  "steps s (s'\<lparr>m_hasPendingForeignInsertionModeSteps := b\<rparr>) = steps s s'" "steps (s\<lparr>m_hasPendingForeignInsertionModeSteps := b\<rparr>) = steps s"
  "steps (setFramesetOk b s) = steps s"
  by (simp_all add: fun_eq_iff steps_def ready_def setFramesetOk_def onTokenizer_def setInsertionMode_def split: insertionMode.split)

lemma steps_withRedirect:
  assumes "does (body (setRedirect True s)) (steps (setRedirect True s))"
  shows "does (withRedirect body s) (steps s)"
  using assms by (auto simp: withRedirect_def Let_def steps_def elim!: doesE)

lemma body_ready:
  assumes "ready s" "m_insertionMode s \<in> bodyModes"
  shows "m_head (m_tree s) \<noteq> None" "m_insertionMode s \<noteq> InTableTextMode" "m_insertionMode s \<noteq> InForeignContentMode"
    "stableMode (m_insertionMode s)" "site_ok (m_tree s)" "bodyStack (stackOf s)" "stackOf s \<noteq> []" "builderAsserts s"
  using assms calmD(3) [OF ready_calm [OF assms]]
  by (auto simp: ready_stable bodyModes_stable bodyModes_settled simp del: map_is_Nil_conv) (auto simp: bodyModes_def partModes_def)

text \<open>Quiet steps and then an element that opens a mode.\<close>

lemma opening_steps:
  assumes "ready s" "m_insertionMode s \<in> bodyModes" "quietly s s1" "stableMode m"
    and "does (onTree f s1) (\<lambda>s'. \<exists>e. piled s1 (e # stackOf s1) s' \<and> P e)"
    and "\<And>e. P e \<Longrightarrow> modeFits m (e # stackOf s1)"
  shows "does (do { s \<leftarrow> onTree f s1; Some (setInsertionMode m s) }) (steps s)"
proof -
  have s1: "steps s s1" by (rule quietly_steps [OF assms(1-3)])
  have ready: "ready s1" "m_insertionMode s1 \<in> bodyModes" using s1 assms(2) quietlyD(2) [OF assms(3)] by (simp_all add: steps_def)
  note r = body_ready [OF this]
  have step: "steps s1 (setInsertionMode m s')" if "piled s1 (e # stackOf s1) s'" "P e" for s' e
    by (rule piled_steps [OF ready(1) r(2) that(1) assms(4)]) (use assms(6) [OF that(2)] r(1) in \<open>simp add: settled_def\<close>)
  have "does (onTree f s1) (\<lambda>s'. steps s1 (setInsertionMode m s'))" by (rule does_mono [OF assms(5)]) (blast intro: step)
  then show ?thesis unfolding does_bind_iff using s1 steps_trans by (auto elim!: does_mono)
qed

lemma table_fits:
  assumes "bodyStack es" "hasTagName e ''table''"
  shows "modeFits InTableMode (e # es)"
proof -
  have "inner e" "resetStop e" "parentFits e es"
    using assms(2) by (simp_all add: inner_def hasQName_def resetStop_def tablePart_def tagged_tag partNames_def outerNames_def parentFits_def)
  then show ?thesis using bodyStack_Cons [OF assms(1)] assms(2) by (simp add: topTagged_def topStop_def tagged_tag)
qed

lemma does_insertTag:
  assumes "ready s" "m_insertionMode s \<in> bodyModes" "quietly s s1" "a_name token = ustr n" "n \<notin> {''html'', ''head'', ''body''}"
  shows "does (onTree (insertHTMLElement token) s1) (\<lambda>s'. \<exists>e. piled s1 (e # stackOf s1) s' \<and> hasTagName e n)"
proof -
  note ok = calmD [OF quietlyD(1) [OF assms(3)]]
  have plain: "isPlainTag XHTML (a_name token)" using assms(4,5) by (simp add: isPlainTag_def)
  show ?thesis by (rule does_mono [OF does_insertHTMLElement [OF ok(1,3) plain]]) (use assms(4) in \<open>auto simp: hasQName_def\<close>)
qed

lemma tableInBody:
  assumes "ready s" "m_insertionMode s \<in> bodyModes" "endsQuietly rec" "a_name token = ustr ''table''"
  shows "does (do { s \<leftarrow> (if \<not> inQuirksMode (documentCompatibility (m_tree s)) \<and> inButtonScope (ustr ''p'') (openElements s)
                          then processFakeEndTag rec (ustr ''p'') s else Some s);
                     s \<leftarrow> onTree (insertHTMLElement token) s;
                     Some (setInsertionMode InTableMode (setFramesetOk False s)) }) (steps s)"
proof -
  note b = ready_bodily [OF assms(1,2)]
  have "does (if \<not> inQuirksMode (documentCompatibility (m_tree s)) \<and> inButtonScope (ustr ''p'') (openElements s)
          then processFakeEndTag rec (ustr ''p'') s else Some s) (quietly s)"
    using endsQuietlyD(2) [OF assms(3) b] q_Some [OF bodilyD(1) [OF b]] by (simp add: processFakeEndTag_def fakeEnd_def)
  then show ?thesis
  proof (rule does_bind)
    fix s1 assume q: "quietly s s1"
    have "does (do { s \<leftarrow> onTree (insertHTMLElement token) s1; Some (setInsertionMode InTableMode s) }) (steps s)"
      by (rule opening_steps [OF assms(1,2) q _ does_insertTag [OF assms(1,2) q assms(4)]])
        (simp_all add: stableMode_def table_fits calmD(2) [OF quietlyD(1) [OF q]] del: modeFits.simps)
    then show "does (do { s \<leftarrow> onTree (insertHTMLElement token) s1; Some (setInsertionMode InTableMode (setFramesetOk False s)) }) (steps s)"
      by (simp add: does_bind_iff)
  qed
qed

lemma selectInBody:
  assumes "ready s" "m_insertionMode s \<in> bodyModes" "a_name token = ustr ''select''"
  shows "does (do { s \<leftarrow> onTree reconstructTheActiveFormattingElements s;
                     s \<leftarrow> onTree (insertHTMLElement token) s;
                     let s = setFramesetOk False s;
                     Some (if m_insertionMode s \<in> {InTableMode, InCaptionMode, InColumnGroupMode, InTableBodyMode, InRowMode, InCellMode}
                           then setInsertionMode InSelectInTableMode s
                           else setInsertionMode InSelectMode s) }) (steps s)"
proof (rule does_bind [OF q_reconstruct [OF ready_calm [OF assms(1,2)]]])
  fix s1 assume q: "quietly s s1"
  have fits: "modeFits InSelectMode (e # stackOf s1)" "modeFits InSelectInTableMode (e # stackOf s1)" if "hasTagName e ''select''" for e
    unfolding modeFits.simps using that calmD(2) [OF quietlyD(1) [OF q]]
    by (rule_tac [!] exI [of _ "[]"], rule_tac [!] exI [of _ e], rule_tac [!] exI [of _ "stackOf s1"]) simp_all
  have open_select: "does (do { s \<leftarrow> onTree (insertHTMLElement token) s1; Some (setInsertionMode m s) }) (steps s)"
    if "m = InSelectMode \<or> m = InSelectInTableMode" for m
    by (rule opening_steps [OF assms(1,2) q _ does_insertTag [OF assms(1,2) q assms(3)]])
      (use that fits in \<open>auto simp: stableMode_def simp del: modeFits.simps\<close>)
  show "does (do { s \<leftarrow> onTree (insertHTMLElement token) s1;
                   let s = setFramesetOk False s;
                   Some (if m_insertionMode s \<in> {InTableMode, InCaptionMode, InColumnGroupMode, InTableBodyMode, InRowMode, InCellMode}
                         then setInsertionMode InSelectInTableMode s
                         else setInsertionMode InSelectMode s) }) (steps s)"
    using open_select [of InSelectMode] open_select [of InSelectInTableMode]
    by (cases "onTree (insertHTMLElement token) s1") (simp_all add: Let_def)
qed

lemma foreign_fits:
  assumes "bodyStack es" "isForeign e" "localName e \<notin> ustr ` set impliedNames"
  shows "bodyStack (e # es)"
proof -
  have ns: "namespaceURI e \<noteq> XHTML" using assms(2) by (auto simp: isForeign_def)
  then have no: "\<not> tagged ns' e" for ns' using tagged_XHTML by blast
  then have "inner e" "\<not> tablePart e" using assms(2,3) by (simp_all add: inner_def tablePart_def)
  then show ?thesis using bodyStack_Cons [OF assms(1)] not_part_fits by blast
qed

lemma foreignRoot:
  assumes "ready s" "m_insertionMode s \<in> bodyModes" "a_type token = StartTag" "a_selfClosing token \<noteq> None"
    and "ns = MathML \<or> ns = SVG" "a_name token \<notin> ustr ` set (''table'' # impliedNames)"
  shows "does (foreignRootInBody token ns s) (steps s)"
  unfolding foreignRootInBody_def
proof (rule does_bind [OF q_reconstruct [OF ready_calm [OF assms(1,2)]]])
  fix s1 assume q: "quietly s s1"
  note ok = calmD [OF quietlyD(1) [OF q]]
  obtain b where b: "a_selfClosing token = Some b" using assms(4) by auto
  obtain e t where t: "insertForeignElement token ns (m_tree s1) = Some t" "if b then kept (m_tree s1) t else opened (m_tree s1) ns (a_name token) e t"
    by (rule insertForeignElement_ok [OF ok(1,3) assms(3) b, of ns]) (use assms(5,6) in auto)
  let ?s = "s1\<lparr>m_tree := t\<rparr>"
  have s1: "steps s s1" by (rule quietly_steps [OF assms(1,2) q])
  have ready: "ready s1" "m_insertionMode s1 \<in> bodyModes" using s1 assms(2) quietlyD(2) [OF q] by (simp_all add: steps_def)
  note r = body_ready [OF this]
  obtain es where es: "piled s1 es ?s" "bodyStack es"
  proof (cases b)
    case True
    then show thesis using that [OF kept_piled] t(2) ok(2) by simp
  next
    case False
    then have o: "opened (m_tree s1) ns (a_name token) e t" using t(2) by simp
    have "bodyStack (e # stackOf s1)"
      using openedD(3,4) [OF o] assms(5,6) by (intro foreign_fits [OF ok(2)]) (auto simp: isForeign_def)
    then show thesis using that opened_piled [OF o] by blast
  qed
  have "steps s1 (setInsertionMode InForeignContentMode ?s)"
    by (rule piled_steps [OF ready(1) r(2) es(1)]) (use es(2) r(1) in \<open>simp_all add: stableMode_def settled_def\<close>)
  then have "steps s (setInsertionMode InForeignContentMode ?s)" by (rule steps_trans [OF s1])
  then show "does (do { s \<leftarrow> onTree (insertForeignElement token ns) s1;
       Some (if m_insertionMode s \<noteq> InForeignContentMode then setInsertionMode InForeignContentMode s else s) }) (steps s)"
    using t(1) r(3) by (simp add: onTree_def)
qed

section \<open>Framesets\<close>

text \<open>Popping works on the stack and removing a node on the links: their order does not matter.\<close>

lemma onStack_dom: "onStack_option f (t\<lparr>m_dom := d\<rparr>) = map_option (\<lambda>t. t\<lparr>m_dom := d\<rparr>) (onStack_option f t)"
  by (cases "f (m_openElements t)"; cases t) (simp_all add: onStack_option_def)

lemma removeNode_dom:
  "\<exists>d. \<forall>t. m_dom t = m_dom t0 \<longrightarrow> removeNode n t = (fst (removeNode n t0), t\<lparr>m_dom := d\<rparr>)"
proof (cases "parentNode (links (m_dom t0) n)")
  case None
  have "removeNode n t = (fst (removeNode n t0), t\<lparr>m_dom := m_dom t0\<rparr>)" if "m_dom t = m_dom t0" for t
    using None that by (cases t) (simp add: removeNode_def)
  then show ?thesis by blast
next
  case (Some p)
  let ?d = "removeBetween p (previousSibling (links (m_dom t0) n)) (nextSibling (links (m_dom t0) n)) n (m_dom t0)"
  have "removeNode n t = (fst (removeNode n t0), t\<lparr>m_dom := ?d\<rparr>)" if "m_dom t = m_dom t0" for t
    using Some that by (simp add: removeNode_def onDom_def)
  then show ?thesis by blast
qed

lemma framesetInBody_steps:
  assumes "ready s" "m_insertionMode s \<in> bodyModes" "a_name token = ustr ''frameset''"
  shows "does (framesetInBody cfg token s) (steps s)"
proof (cases "m_framesetOk s")
  case False
  then show ?thesis using q_onlyElement [OF ready_calm [OF assms(1,2)]] assms(1)
    by (simp add: framesetInBody_def steps_def)
next
  case True
  note r = body_ready [OF assms(1,2)]
  let ?t = "m_tree s"
  obtain xs b h where es: "stackOf s = xs @ [b, h]" "hasTagName b ''body''" "hasTagName h ''html''" "\<forall>x \<in> set xs. inner x"
    using r(6) by (rule bodyStackE)
  have distinct: "distinct (stackOf s)" by (rule distinct_elements [OF r(5)])
  have b: "m_bodyElement (openElements s) = Some b" "b \<in> set (stackOf s)"
    using site_okD(3) [OF r(5)] es unfolding stack_ok_def by (auto dest!: rememberedD)
  obtain d where d: "\<And>t. m_dom t = m_dom ?t \<Longrightarrow> removeNode (nodeAddress b) t = (fst (removeNode (nodeAddress b) ?t), t\<lparr>m_dom := d\<rparr>)"
    using removeNode_dom [of ?t "nodeAddress b"] by blast
  have linked: "\<not> fst (removeNode (nodeAddress b) ?t)"
    using site_okD(5) [OF r(5) b(2)] es(2) by (auto simp: removeNode_linked bodyLinked_def)
  obtain rs rb rh where top: "m_top (m_openElements ?t) = rs @ rb # [rh]" "xs = map m_element rs" "b = m_element rb" "h = m_element rh"
    by (rule stack_splitE [OF es(1)]) (auto simp: map_eq_Cons_conv)
  obtain t1 where t1: "onStack_option (popLoop (\<lambda>t. t = b)) ?t = Some t1" "restacked ?t (rb # [rh]) t1"
  proof (rule popLoop_ok_site [OF r(5) top(1), of "\<lambda>t. t = b"])
    have "b \<notin> set xs" using distinct es(1) by auto
    then show "\<forall>r \<in> set rs. \<not> m_element r = b \<and> plainElement (m_element r)" using es(4) top(2) inner_plain by auto
  qed (use top(3) in auto)
  note rt1 = restackedD [OF t1(2)]
  obtain t2 where t2: "onStack_option popHTMLBodyElement t1 = Some t2" "restacked t1 [rh] t2"
    using popBody_ok [OF rt1(1,2)] es(2) top(3) by blast
  have t02: "restacked ?t [rh] t2" by (rule restacked_trans [OF t1(2) t2(2)])
  note rt2 = restackedD [OF t02]
  have stack2: "siteElements t2 = [h]" using rt2(2) top(4) by simp
  have "nodeAddress h \<noteq> nodeAddress b"
  proof
    assume "nodeAddress h = nodeAddress b"
    moreover have "isNode ?t h" "isNode ?t b" using site_okD(5) [OF r(5)] es(1) by auto
    ultimately show False using distinct es(1) by (auto simp: isNode_def)
  qed
  then have kept: "kept t2 (t2\<lparr>m_dom := d\<rparr>)"
    using removeNode_ok [OF rt2(1), of "nodeAddress b"] d [of t2] rt2(7) stack2 by auto
  let ?s = "s\<lparr>m_tree := t2\<lparr>m_dom := d\<rparr>\<rparr>"
  have s2: "piled s [h] ?s" unfolding piled_def
    by (rule exI [of _ "t2\<lparr>m_dom := d\<rparr>"]) (use keptD [OF kept] stack2 rt2 in \<open>auto simp: restacked_def\<close>)
  note p2 = piledD [OF s2]
  have plain: "isPlainTag XHTML (a_name token)" by (simp add: assms(3) isPlainTag_def)
  have "stackOf ?s \<noteq> []" unfolding p2(2) by simp
  then have ins: "does (onTree (insertHTMLElement token) ?s) (\<lambda>s'. \<exists>e. piled ?s (e # [h]) s' \<and> namespaceURI e = XHTML \<and> localName e = a_name token)"
    using does_insertHTMLElement [OF p2(1) _ plain] unfolding p2(2) by blast
  have "does (onTree (insertHTMLElement token) ?s) (\<lambda>s'. steps s (setInsertionMode InFramesetMode s'))"
  proof (rule does_mono [OF ins], elim exE conjE)
    fix s' e
    assume p: "piled ?s (e # [h]) s'" and e: "namespaceURI e = XHTML" "localName e = a_name token"
    have "modeFits InFramesetMode (e # [h])" unfolding modeFits.simps
      by (rule exI [of _ "[e]"], rule exI [of _ h]) (use e es(3) in \<open>simp add: hasQName_def assms(3)\<close>)
    then show "steps s (setInsertionMode InFramesetMode s')"
      using piled_steps [OF assms(1) r(2) piled_trans [OF s2 p]] r(1) by (simp add: stableMode_def settled_def del: modeFits.simps)
  qed
  moreover have "framesetInBody cfg token s = do { s \<leftarrow> onTree (insertHTMLElement token) ?s; Some (setInsertionMode InFramesetMode s) }"
  proof -
    have html: "m_htmlElement (m_openElements t2) = Some h"
      using bottomElement_html [OF rt2(1), of h] stack2 es(3) by (simp add: bottomElement_def)
    have current: "currentElementOf ?s = Some h" using p2(2) by (simp add: stack_top)
    have pop1: "onStack_option (popUntil_element b) (?t\<lparr>m_dom := d\<rparr>) = Some (t1\<lparr>m_dom := d\<rparr>)"
      using t1(1) by (simp add: onStack_dom popUntil_element_def)
    have pop2: "onStack_option popHTMLBodyElement (t1\<lparr>m_dom := d\<rparr>) = Some (t2\<lparr>m_dom := d\<rparr>)"
      using t2(1) by (simp add: onStack_dom)
    show ?thesis
      using q_onlyElement [OF ready_calm [OF assms(1,2)]] True b(1) d [of ?t] linked pop1 pop2 current html
      by (simp add: framesetInBody_def onOpenElements_def onTree_def)
  qed
  ultimately show ?thesis by (simp add: does_bind_iff)
qed

section \<open>All start tags of the body\<close>

text \<open>What the tokens satisfy: tags of the tokenizer know whether they close themselves.\<close>

definition startOk :: "builderConfig \<Rightarrow> atomicToken \<Rightarrow> bool" where
  "startOk cfg token \<longleftrightarrow> a_type token = StartTag \<and> a_selfClosing token \<noteq> None
     \<and> (a_name token = ustr ''isindex'' \<longrightarrow> isindexOk cfg token)"

text \<open>The contract of the calls.\<close>

definition serves :: "builderConfig \<Rightarrow> calls \<Rightarrow> bool" where
  "serves cfg rec \<longleftrightarrow> endsQuietly rec \<and> startsQuietly rec \<and> inputsQuietly rec \<and> scriptCloses cfg rec"

lemma headTag_steps:
  assumes "ready s" "stableMode (m_insertionMode s)" "stackOf s \<noteq> []" "startOk cfg token" "scriptCloses cfg rec"
    and "a_name token \<noteq> ustr ''noscript'' \<or> scriptEnabled cfg"
  shows "does (startTagForInHead cfg rec token s) (steps s)"
    and "a_name token \<in> ustr ` set headNames \<Longrightarrow> does (startTagForInHead_asserted cfg rec token s) (steps s)"
proof -
  have "site_ok (m_tree s)" using assms(1,2) by (simp add: ready_stable)
  then have r: "does (processStartTagForInHead cfg rec token s)
    (\<lambda>(did, s'). (stayed s s' \<or> texted s s') \<and> (did \<longleftrightarrow> a_name token \<in> ustr ` set headNames))"
    using does_startTagForInHead assms(3-6) by (simp add: startOk_def)
  note steps = stayed_steps [OF assms(1,2)] texted_steps [OF assms(1,2)]
  show "does (startTagForInHead cfg rec token s) (steps s)"
    unfolding startTagForInHead_def does_map by (rule does_mono [OF r]) (use steps in auto)
  show "does (startTagForInHead_asserted cfg rec token s) (steps s)" if "a_name token \<in> ustr ` set headNames"
    unfolding startTagForInHead_asserted_def does_map by (rule does_mono [OF r]) (use steps that in auto)
qed

lemma textInBody:
  assumes "ready s" "m_insertionMode s \<in> bodyModes" "quietly s s1" "a_type token = StartTag"
    and "a_name token \<notin> {ustr ''html'', ustr ''head'', ustr ''body''}"
  shows "does (processGenericRawTextStartTag token s1) (steps s)"
    and "does (onTree (insertHTMLElement token) s1) (\<lambda>s'. steps s (enterTextMode s'))"
proof -
  have s1: "steps s s1" by (rule quietly_steps [OF assms(1-3)])
  then have ready: "ready s1" "m_insertionMode s1 \<in> bodyModes" using assms(2) quietlyD(2) [OF assms(3)] by (simp_all add: steps_def)
  note r = body_ready [OF this]
  have plain: "isPlainTag XHTML (a_name token)" using assms(5) by (simp add: isPlainTag_def)
  have step: "texted s1 s' \<Longrightarrow> steps s s'" for s' using texted_steps [OF ready(1) r(4)] steps_trans [OF s1] by blast
  show "does (processGenericRawTextStartTag token s1) (steps s)"
    by (rule does_mono [OF does_genericText(2) [OF r(5,7) plain assms(4)]]) (rule step)
  show "does (onTree (insertHTMLElement token) s1) (\<lambda>s'. steps s (enterTextMode s'))"
    by (rule does_mono [OF does_textElement [OF r(5,7) plain]]) (rule step)
qed

lemma steps_enterTextMode [simp]:
  "steps s (enterTextMode (setFramesetOk b s')) = steps s (enterTextMode s')" "steps s (enterTextMode (onTokenizer f s')) = steps s (enterTextMode s')"
  by (simp_all add: steps_def ready_def enterTextMode_def setInsertionMode_def setFramesetOk_def onTokenizer_def)

lemma q_insertNamed: "calm s \<Longrightarrow> isOneOf (a_name token) names \<Longrightarrow> list_all (\<lambda>n. n \<notin> set (partNames @ outerNames)) names \<Longrightarrow>
  does (onTree (insertHTMLElement token) s) (quietly s)"
  by (rule q_insertHTMLElement) (auto simp: isOneOf_def list_ex_iff list_all_iff)

lemma adjusted [simp]:
  "a_type (adjustNames m token) = a_type token" "a_selfClosing (adjustNames m token) = a_selfClosing token" "a_name (adjustNames m token) = a_name token"
  by (simp_all add: adjustNames_def)

lemma ordinary_rest:
  assumes "n \<noteq> ustr ''html''" "n \<noteq> ustr ''body''" "n \<noteq> ustr ''frameset''" "n \<noteq> ustr ''table''" "n \<noteq> ustr ''select''"
    and "\<not> (isCaptionColOrColgroupTag n \<or> isOneOf n [''frame'', ''head''] \<or> isTableBodyContextTag n \<or> isTableCellContextTag n \<or> n = ustr ''tr'')"
  shows "ordinaryName n"
  using assms by (auto simp: ordinaryName_def isCaptionColOrColgroupTag_def isOneOf_def isTableBodyContextTag_def isTableCellContextTag_def
      partNames_def outerNames_def)

lemma does_processStartTagForInBody:
  assumes "ready s" "m_insertionMode s \<in> bodyModes" "startOk cfg token" "serves cfg rec"
    and again: "\<And>s'. ready s' \<Longrightarrow> m_insertionMode s' = m_insertionMode s \<Longrightarrow> length (stackOf s') < length (stackOf s)
      \<Longrightarrow> m_redirectAttachToFosterParent (m_tree s') = m_redirectAttachToFosterParent (m_tree s)
      \<Longrightarrow> does (rec (ProcessStartTag token) s') (steps s')"
  shows "does (processStartTagForInBody cfg rec token s) (steps s)"
proof -
  let ?n = "a_name token"
  note rec = assms(4) [unfolded serves_def]
  have type: "a_type token = StartTag" "ASSERT_builder (a_type token = StartTag) s = s" and closing: "a_selfClosing token \<noteq> None"
    using assms(3) by (simp_all add: startOk_def)
  note b = ready_bodily [OF assms(1,2)] and r = body_ready [OF assms(1,2)]
  note calm = bodilyD(1) [OF b]
  have q: "does r' (quietly s) \<Longrightarrow> does r' (steps s)" for r' using q_steps assms(1,2) by blast
  note fakeP = q_fakeP [OF conjunct1 [OF rec]]
  have inBlock: "does (do { s \<leftarrow> processFakePEndTagIfPInButtonScope rec s; onTree (insertHTMLElement token) s }) (quietly s)"
    if "isOneOf ?n names" "list_all (\<lambda>n. n \<notin> set (partNames @ outerNames)) names" for names
    by (intro b_bind [OF fakeP b] b q_insertNamed [OF _ that] bodilyD(1))
  have reopened: "does (do { s \<leftarrow> onTree reconstructTheActiveFormattingElements s; onTree (insertHTMLElement token) s }) (quietly s)"
    if "ordinaryName ?n"
    by (intro q_bind q_reconstruct calm q_insertHTMLElement that)
  have button: "does (do { s \<leftarrow> processFakeEndTag rec (ustr ''button'') s; reprocessStartTag cfg rec token s }) (steps s)"
    if "inScope (ustr ''button'') (openElements s)"
  proof -
    have "does (rec (ProcessEndTag (fakeEnd ''button'')) s) (\<lambda>s'. quietly s s' \<and> length (stackOf s') < length (stackOf s))"
      using conjunct1 [OF rec, unfolded endsQuietly_def, rule_format, OF b, of "''button''"] that by (simp add: quietNames_def)
    moreover have "does (reprocessStartTag cfg rec token s') (steps s)" if q': "quietly s s'" "length (stackOf s') < length (stackOf s)" for s'
    proof -
      let ?s = "s'\<lparr>m_hasPendingForeignInsertionModeSteps := False\<rparr>"
      have s': "steps s s'" by (rule quietly_steps [OF assms(1,2) q'(1)])
      have m: "m_insertionMode s' = m_insertionMode s" using quietlyD(2) [OF q'(1)] .
      have "does (rec (ProcessStartTag token) ?s) (steps ?s)"
        by (rule again) (use s' m q'(2) in \<open>simp_all add: steps_def\<close>)
      then show ?thesis using m r(3) steps_then [OF _ s'] by (simp add: reprocessStartTag_def prepare_other)
    qed
    ultimately show ?thesis by (simp add: processFakeEndTag_def fakeEnd_def does_bind)
  qed
  have textarea: "does (do { s \<leftarrow> onTree (insertHTMLElement token) s;
                     let s = setTokenizerState RCDATAState (setSkipLeadingNewLineForListing True s);
                     Some (enterTextMode (setFramesetOk False s)) }) (steps s)" if "?n = ustr ''textarea''"
    using textInBody(2) [OF assms(1,2) quietly_refl [OF calm] type(1)] that
    by (simp add: does_bind_iff Let_def setTokenizerState_def setSkipLeadingNewLineForListing_def)
  have raw: "does (processGenericRawTextStartTag token s1) (steps s)" if "quietly s s1" "?n = ustr n" "n \<notin> {''html'', ''head'', ''body''}" for s1 n
    by (rule textInBody(1) [OF assms(1,2) that(1) type(1)]) (use that in simp)
  have rawhere: "does (processGenericRawTextStartTag token (setFramesetOk b s)) (steps s)"
    "does (processGenericRawTextStartTag token s) (steps s)" if "?n = ustr n" "n \<notin> {''html'', ''head'', ''body''}" for n b
    by (rule raw [OF _ that]; simp add: quietly_refl [OF calm])+
  have xmp: "does (do { s \<leftarrow> processFakePEndTagIfPInButtonScope rec s;
                     s \<leftarrow> onTree reconstructTheActiveFormattingElements s;
                     processGenericRawTextStartTag token (setFramesetOk False s) }) (steps s)" if "?n = ustr ''xmp''"
  proof (rule does_bind [OF fakeP [OF b]], rule does_bind)
    fix s1 assume q1: "quietly s s1"
    then show "does (onTree reconstructTheActiveFormattingElements s1) (quietly s)" using q_then [OF q_reconstruct [OF quietlyD(1)]] by blast
  next
    fix s2 assume q2: "quietly s s2"
    show "does (processGenericRawTextStartTag token (setFramesetOk False s2)) (steps s)" by (rule raw [OF _ that]) (simp_all add: q2)
  qed
  show ?thesis
    unfolding processStartTagForInBody_def type(2) Let_def
  proof (intro does_if, goal_cases)
    case 1
    show ?case by (rule q [OF q_insertHTMLHtmlStartTagInBody [OF calm]])
  next
    case 2
    then have "?n \<in> ustr ` set headNames" "?n \<noteq> ustr ''noscript''" by (auto simp: isOneOf_def headNames_def)
    then show ?case using headTag_steps(2) [OF assms(1) r(4,7) assms(3)] rec by blast
  next
    case 3
    show ?case by (rule q [OF q_bodyInBody [OF calm]])
  next
    case 4
    show ?case by (rule framesetInBody_steps [OF assms(1,2) 4(4)])
  next
    case 5
    show ?case by (rule q [OF inBlock [OF 5(5)]]) code_simp
  next
    case 6
    show ?case by (rule q [OF q_header [OF b conjunct1 [OF rec]]])
      (use 6(6) in \<open>auto simp: isNumberedHeaderTag_def isOneOf_def partNames_def outerNames_def\<close>)
  next
    case 7
    show ?case
      by (rule q, intro b_bind [OF fakeP b] b q_bind [OF q_insertNamed [OF _ 7(7)]])
        (auto simp: partNames_def outerNames_def setSkipLeadingNewLineForListing_def quietly_refl dest: bodilyD)
  next
    case 8
    show ?case by (rule q [OF q_Some [OF calm]])
  next
    case 9
    show ?case by (rule q, intro q_bind fakeP b q_insertHTMLFormElement 9)
  next
    case 10
    have "\<exists>n. localName e = ustr n \<and> n \<in> set quietNames \<and> n \<noteq> ''p''" if "isLi e" for e
      using that by (auto simp: isLi_def hasQName_def quietNames_def)
    then show ?case using q q_closeWhenNested [OF b conjunct1 [OF rec]] 10 by (simp add: partNames_def outerNames_def)
  next
    case 11
    have "\<exists>n. localName e = ustr n \<and> n \<in> set quietNames \<and> n \<noteq> ''p''" if "isDdOrDt e" for e
      using that by (auto simp: isDdOrDt_def hasQName_def quietNames_def)
    moreover have "ordinaryName ?n" using 11(10) by (auto simp: isOneOf_def partNames_def outerNames_def)
    ultimately show ?case using q q_closeWhenNested [OF b conjunct1 [OF rec]] by simp
  next
    case 12
    show ?case
      by (rule q, intro b_bind [OF fakeP b] b q_bind [OF q_insertHTMLElement])
        (auto simp: 12(11) partNames_def outerNames_def setTokenizerState_def quietly_refl dest: bodilyD)
  next
    case 13
    then show ?case using button by simp
  next
    case 14
    have "ordinaryName ?n" using 14 by (simp add: partNames_def outerNames_def)
    then show ?case by (intro q q_bind q_reconstruct calm q_insertHTMLElement) (simp_all add: quietly_refl)
  next
    case 15
    then show ?case using q [OF q_anchor [OF b conjunct1 [OF rec]]] by simp
  next
    case 16
    have "list_ex (\<lambda>n. ?n = ustr n) formattingNames" using 16(14) by (auto simp: isNonAnchorNonNobrFormattingTag_def isOneOf_def formattingNames_def)
    then show ?case by (intro q q_bind q_reconstruct calm q_insertFormattingElement)
  next
    case 17
    then show ?case using q [OF q_nobr [OF b conjunct1 [OF rec]]] by simp
  next
    case 18
    have "ordinaryName ?n" using 18(16) by (auto simp: isOneOf_def partNames_def outerNames_def)
    then show ?case by (intro q q_bind q_reconstruct calm q_insertHTMLElement) (simp_all add: markers_quietly(2))
  next
    case 19
    then show ?case using tableInBody [OF assms(1,2) conjunct1 [OF rec]] by simp
  next
    case 20
    have "prepareToReprocessToken cfg s = Some (s\<lparr>m_hasPendingForeignInsertionModeSteps := False\<rparr>)" by (rule prepare_other [OF r(3)])
    moreover have "calm (s\<lparr>m_hasPendingForeignInsertionModeSteps := False\<rparr>)" using calm by (simp add: calm_def)
    ultimately show ?case
      using q_voidInBody [of "s\<lparr>m_hasPendingForeignInsertionModeSteps := False\<rparr>" "token\<lparr>a_name := ustr ''img''\<rparr>"] type(1)
        quietly_steps [of "s\<lparr>m_hasPendingForeignInsertionModeSteps := False\<rparr>"] assms(1,2) by (auto elim!: does_mono)
  next
    case 21
    show ?case by (rule q [OF q_voidInBody [OF calm type(1)]])
  next
    case 22
    show ?case by (rule q [OF q_insertSelfClosing [OF calm type(1)]])
  next
    case 23
    show ?case by (intro q q_bind fakeP b q_insertSelfClosing type(1)) (simp_all add: quietly_refl)
  next
    case 24
    then show ?case using q [OF q_isindex [OF b type(1)]] rec assms(3) by (simp add: startOk_def)
  next
    case 25
    then show ?case using textarea by simp
  next
    case 26
    then show ?case using xmp by simp
  next
    case 27
    then show ?case using rawhere(1) [of "''iframe''"] by simp
  next
    case 28
    then show ?case using rawhere(2) [of "''noembed''"] by simp
  next
    case 29
    then show ?case using rawhere(2) [of "''noscript''"] by simp
  next
    case 30
    show ?case using selectInBody [OF assms(1,2) 30(28)] unfolding Let_def .
  next
    case 31
    have ord: "ordinaryName ?n" using 31(29) by (auto simp: isOneOf_def partNames_def outerNames_def)
    have "does (if inScope (ustr ''option'') (openElements s) then rec (ProcessEndTag (fakeEnd ''option'')) s else Some s) (quietly s)"
      using endsQuietlyD(1) [OF conjunct1 [OF rec] b, of "''option''"] q_Some [OF calm] by (simp add: quietNames_def)
    then show ?case by (intro q q_bind q_reconstruct q_insertHTMLElement ord)
  next
    case 32
    have ord: "ordinaryName ?n" using 32(30) by (auto simp: isOneOf_def partNames_def outerNames_def)
    then show ?case by (rule q [OF q_ruby [OF calm]])
  next
    case 33
    show ?case by (rule foreignRoot [OF assms(1,2)])
      (use type(1) closing 33(31) in \<open>simp_all add: adjustForeignAttributes_def adjustMathMLAttributes_def impliedNames_def\<close>)
  next
    case 34
    show ?case by (rule foreignRoot [OF assms(1,2)])
      (use type(1) closing 34(32) in \<open>simp_all add: adjustForeignAttributes_def adjustSVGAttributes_def impliedNames_def\<close>)
  next
    case 35
    show ?case by (rule q [OF q_Some [OF calm]])
  next
    case 36
    show ?case by (rule q [OF reopened]) (rule ordinary_rest; use 36 in simp)
  qed
qed

end
