(* ===== verification/HTMLTreeBuilderTables.thy ===== *)
theory HTMLTreeBuilderTables
  imports HTMLTreeBuilderStartTags
begin

text \<open>
  Opening and closing the parts of a table: in the modes of a table the part that is open is the first of its
  kind on the stack, and the parts around it are directly below it, so what an end tag closes leads to the mode
  of the part around.
\<close>

section \<open>The open part\<close>

lemma topStop_split: "topStop es = Some t \<Longrightarrow> \<exists>A B. es = A @ t # B \<and> (\<forall>x \<in> set A. \<not> resetStop x)"
proof (induction es)
  case (Cons x es)
  show ?case
  proof (cases "resetStop x")
    case True
    then show ?thesis using Cons.prems by (auto simp: topStop_def intro: exI [of _ "[]"])
  next
    case False
    then obtain A B where "es = A @ t # B" "\<forall>x \<in> set A. \<not> resetStop x" using Cons by (auto simp: topStop_def)
    then show ?thesis using False by (intro exI [of _ "x # A"] exI [of _ B]) simp
  qed
qed (simp add: topStop_def)

lemma partE:
  assumes "bodyStack es" "topTagged (partsOf m) es"
  obtains A t B where "es = A @ t # B" "\<forall>x \<in> set A. ordinary x" "tagged (partsOf m) t" "parentFits t B" "nested B"
    "bodyStack B" "bodyStack (t # B)" "inner t"
proof -
  obtain t where t: "topStop es = Some t" "tagged (partsOf m) t" using assms(2) by (auto simp: topTagged_def)
  obtain A B where es: "es = A @ t # B" "\<forall>x \<in> set A. \<not> resetStop x" using topStop_split [OF t(1)] by blast
  have part: "tablePart t" by (rule partsOf_part [OF t(2)])
  have outer: "\<not> hasTagName t ''body''" "\<not> hasTagName t ''html''" using part by (auto simp: tablePart_def partNames_def tagged_tag)
  note split = body_split [OF assms(1) [unfolded es(1)] outer]
  have "ordinary x" if "x \<in> set A" for x
    using es(2) split(1) that by (auto simp: ordinary_def inner_def resetStop_def isForeign_def)
  moreover have "nested (t # B)" using split(4) by (auto simp: bodyStack_def)
  ultimately show thesis using that [OF es(1)] t(2) split(2-4) by simp
qed

lemma ordinary_part_name: "ordinary x \<Longrightarrow> n \<in> set partNames \<Longrightarrow> \<not> hasLocalName x (ustr n)"
  by (auto simp: ordinary_iff ordinaryName_def hasLocalName_def)

lemma ordinary_markers:
  assumes "ordinary x"
  shows "\<not> isTableScopeMarker x" "\<not> isTableBodyScopeMarker x" "\<not> isTableRowScopeMarker x"
  using assms by (auto simp: isTableScopeMarker_def isTableBodyScopeMarker_def isTableRowScopeMarker_def ordinary_iff hasQName_def
      partNames_def outerNames_def)

text \<open>The table scope begins at the open part.\<close>

lemma tableScope_part:
  assumes "elements s = A @ es" "\<forall>x \<in> set A. ordinary x" "n \<in> set partNames"
  shows "inTableScope (ustr n) s \<longleftrightarrow> scopeLoop (\<lambda>e. hasLocalName e (ustr n)) isTableScopeMarker es = Some True"
  using assms ordinary_part_name ordinary_markers(1) by (simp add: inTableScope_def inScopeCommon_def scopeLoop_append)

lemma tag_local: "hasTagName e n \<Longrightarrow> hasLocalName e (ustr m) \<longleftrightarrow> n = m"
  by (auto simp: hasQName_def hasLocalName_def)

lemma tag_marker:
  "hasTagName e n \<Longrightarrow> isTableScopeMarker e \<longleftrightarrow> n = ''table'' \<or> n = ''html''"
  "hasTagName e n \<Longrightarrow> isTableBodyScopeMarker e \<longleftrightarrow> n = ''tbody'' \<or> n = ''tfoot'' \<or> n = ''thead'' \<or> n = ''html''"
  "hasTagName e n \<Longrightarrow> isTableRowScopeMarker e \<longleftrightarrow> n = ''tr'' \<or> n = ''html''"
  by (auto simp: isTableScopeMarker_def isTableBodyScopeMarker_def isTableRowScopeMarker_def hasQName_def)

text \<open>What is around a part.\<close>

lemma around_cell:
  assumes "nested (t # B)" "tagged [''td'', ''th''] t"
  obtains r C where "B = r # C" "hasTagName r ''tr''" "nested (r # C)"
  using assms that by (cases B) (simp_all add: parentFits_def tagged_hasTagName)

lemma around_row:
  assumes "nested (r # B)" "hasTagName r ''tr''"
  obtains g C where "B = g # C" "tagged [''tbody'', ''thead'', ''tfoot''] g" "nested (g # C)"
  using assms that by (cases B) (simp_all add: parentFits_def tagged_hasTagName)

lemma around_group:
  assumes "nested (g # B)" "tagged [''tbody'', ''thead'', ''tfoot'', ''caption''] g"
  obtains t C where "B = t # C" "hasTagName t ''table''" "nested (t # C)"
proof -
  have "tagged [''tbody'', ''thead'', ''tfoot'', ''caption'', ''colgroup''] g" by (rule tagged_subset [OF assms(2)]) simp
  then show thesis using assms(1) that by (cases B) (simp_all add: parentFits_def tagged_hasTagName)
qed

lemma bodyStack_nested: "bodyStack es \<Longrightarrow> nested es"
  by (auto simp: bodyStack_def)

lemma bodyStack_tl:
  assumes "bodyStack (t # B)" "tablePart t"
  shows "bodyStack B"
proof -
  have "bodyStack ([] @ t # B)" using assms(1) by simp
  then show ?thesis by (rule body_split(3)) (use assms(2) in \<open>auto simp: tablePart_def partNames_def tagged_tag\<close>)
qed

lemma part_top: "tablePart t \<Longrightarrow> tagged ns t \<Longrightarrow> topTagged ns (t # B)"
  by (simp add: topTagged_def topStop_def resetStop_def)

section \<open>The results of closing and opening\<close>

text \<open>Something has been closed, and the mode is that of the stack; or it is the given mode.\<close>

definition closedTo :: "treeBuilder \<Rightarrow> treeBuilder \<Rightarrow> bool" where
  "closedTo s s' \<longleftrightarrow> steps s s' \<and> length (stackOf s') < length (stackOf s) \<and> m_insertionMode s' \<in> insert InForeignContentMode bodyModes"

definition shut :: "treeBuilder \<Rightarrow> insertionMode \<Rightarrow> treeBuilder \<Rightarrow> bool" where
  "shut s m s' \<longleftrightarrow> steps s s' \<and> length (stackOf s') < length (stackOf s) \<and> m_insertionMode s' = m"

lemma shutI:
  assumes "ready s" "m_insertionMode s \<in> partModes" "piled s B s'" "stableMode m" "modeFits m B" "length B < length (stackOf s)"
  shows "shut s m (setInsertionMode m s')"
proof -
  have m: "m_insertionMode s \<in> bodyModes" using assms(2) by (simp add: bodyModes_cases)
  note r = body_ready [OF assms(1) m]
  have "settled m B (m_head (m_tree s))" using assms(5) r(1) by (simp add: settled_def)
  then have "steps s (setInsertionMode m s')" by (rule piled_steps [OF assms(1) r(2) assms(3,4)])
  then show ?thesis using piledD(2) [OF assms(3)] assms(6) by (simp add: shut_def del: length_map)
qed

lemma resets:
  assumes "ready s" "m_insertionMode s \<noteq> InTableTextMode" "m_head (m_tree s) \<noteq> None" "piled s B s'" "bodyStack B" "length B < length (stackOf s)"
  shows "does (resetInsertionModeAppropriately cfg s') (closedTo s)"
proof -
  note p = piledD [OF assms(4)]
  obtain e where e: "topStop B = Some e" using bodyStack_stop [OF assms(5)] ..
  note fits = modeOf_fits [OF assms(5) e]
  have stable: "stableMode (modeOf e)" using fits(2) bodyModes_stable by (auto simp: stableMode_def)
  have "steps s (setInsertionMode (modeOf e) s')"
    by (rule piled_steps [OF assms(1,2,4) stable]) (use fits(1) assms(3) in \<open>simp add: settled_def\<close>)
  moreover have "resetInsertionModeAppropriately cfg s' = Some (setInsertionMode (modeOf e) s')"
    using reset_body [of s' cfg] p(1,2) assms(5) e by simp
  ultimately show ?thesis using fits(2) p(2) assms(6) by (simp add: closedTo_def del: length_map)
qed

lemma part_ready:
  assumes "ready s" "m_insertionMode s \<in> partModes"
  obtains A t B where "stackOf s = A @ t # B" "\<forall>x \<in> set A. ordinary x" "tagged (partsOf (m_insertionMode s)) t" "parentFits t B" "nested B"
    "bodyStack B" "bodyStack (t # B)" "inner t"
proof -
  have m: "m_insertionMode s \<in> bodyModes" using assms(2) by (simp add: bodyModes_cases)
  have "bodyStack (stackOf s) \<and> topTagged (partsOf (m_insertionMode s)) (stackOf s)"
    using assms ready_stable [OF bodyModes_stable [OF m]] bodyModes_settled [OF m] by (auto simp: partModes_def)
  then show thesis using partE [of "stackOf s" "m_insertionMode s"] that by blast
qed

lemma ordinary_not_part: "ordinary x \<Longrightarrow> plainElement x" "inner t \<Longrightarrow> plainElement t"
  using ordinaryD(5) inner_plain by blast+

section \<open>Closing the parts\<close>

lemma does_closeTr:
  assumes "ready s" "m_insertionMode s = InRowMode"
  shows "does (processTrEndTagForInRow cfg s) (\<lambda>(closed, s'). closed \<and> shut s InTableBodyMode s')"
proof -
  have m: "m_insertionMode s \<in> partModes" using assms(2) by (simp add: partModes_def)
  obtain A t B where p: "stackOf s = A @ t # B" "\<forall>x \<in> set A. ordinary x" "tagged (partsOf (m_insertionMode s)) t" "parentFits t B" "nested B"
    "bodyStack B" "bodyStack (t # B)" "inner t"
    using part_ready [OF assms(1) m] .
  have t: "hasTagName t ''tr''" using p(3) assms(2) by (simp add: tagged_def)
  obtain g C where B: "B = g # C" "tagged [''tbody'', ''thead'', ''tfoot''] g"
    using around_row [OF bodyStack_nested [OF p(7)] t] by metis
  have scope: "inTableScope (ustr ''tr'') (openElements s)"
    using tableScope_part [OF p(1,2), of "''tr''"] tag_local [OF t] by (simp add: partNames_def)
  have site: "site_ok (m_tree s)" using body_ready(5) [OF assms(1)] m by (simp add: bodyModes_cases)
  obtain s1 where s1: "onOpenElements popUntilTableRowScopeMarker s = Some s1" "repiled s (t # B) s1"
    using does_popLoop [OF site p(1), of isTableRowScopeMarker] p(2) ordinary_not_part(1) ordinary_markers(3) tag_marker(3) [OF t]
    by (auto simp: popUntilTableRowScopeMarker_def elim!: doesE)
  note r1 = repiledD [OF s1(2)]
  obtain s2 where s2: "onOpenElements pop_element s1 = Some s2" "repiled s1 B s2"
    using does_pop [OF r1(1,2) ordinary_not_part(2) [OF p(8)]] by (rule doesE)
  have "modeFits InTableBodyMode B"
    using p(6) B part_top [of g _ C] partsOf_part [of InTableBodyMode g] by simp
  then have "shut s InTableBodyMode (setInsertionMode InTableBodyMode s2)"
    using shutI [OF assms(1) m repiled_piled [OF repiled_trans [OF s1(2) s2(2)]]] p(1) by (simp add: stableMode_def)
  moreover have "currentElementOf s1 = Some t" using r1(2) by (simp add: stack_top)
  ultimately show ?thesis using scope s1(1) s2(1) t by (simp add: processTrEndTagForInRow_def)
qed

lemma does_closeGroup:
  assumes "ready s" "m_insertionMode s = InTableBodyMode"
  obtains t where "tagged [''tbody'', ''thead'', ''tfoot''] t" "inTableScope (localName t) (openElements s)" "inTableBodyScope (openElements s)"
    "does (do { s \<leftarrow> onOpenElements popUntilTableBodyScopeMarker s; s \<leftarrow> onOpenElements pop_element s; Some (setInsertionMode InTableMode s) })
       (shut s InTableMode)"
    "does (onOpenElements popUntilTableBodyScopeMarker s) (\<lambda>s'. steps s s' \<and> m_insertionMode s' = InTableBodyMode
       \<and> length (stackOf s') \<le> length (stackOf s) \<and> stackOf s' \<noteq> [] \<and> hd (stackOf s') = t)"
proof -
  have m: "m_insertionMode s \<in> partModes" using assms(2) by (simp add: partModes_def)
  obtain A t B where p: "stackOf s = A @ t # B" "\<forall>x \<in> set A. ordinary x" "tagged (partsOf (m_insertionMode s)) t" "parentFits t B" "nested B"
    "bodyStack B" "bodyStack (t # B)" "inner t"
    using part_ready [OF assms(1) m] .
  have t: "tagged [''tbody'', ''thead'', ''tfoot''] t" using p(3) assms(2) by simp
  then obtain n where n: "hasTagName t n" "n \<in> set [''tbody'', ''thead'', ''tfoot'']" by (rule taggedE)
  obtain tb C where B: "B = tb # C" "hasTagName tb ''table''"
    by (rule around_group [OF bodyStack_nested [OF p(7)] tagged_subset [OF t]]) simp
  have name: "localName t = ustr n" using n(1) by (simp add: hasQName_def)
  have scope: "inTableScope (ustr n) (openElements s)"
    using tableScope_part [OF p(1,2), of n] tag_local [OF n(1)] n(2) by (auto simp: partNames_def)
  have m': "m_insertionMode s \<in> bodyModes" using m by (simp add: bodyModes_cases)
  note r = body_ready [OF assms(1) m']
  have marker: "isTableBodyScopeMarker t" using tag_marker(2) [OF n(1)] n(2) by auto
  have pop: "does (onOpenElements popUntilTableBodyScopeMarker s) (repiled s (t # B))"
    unfolding popUntilTableBodyScopeMarker_def
    by (rule does_popLoop [where stop = isTableBodyScopeMarker, OF r(5) p(1) marker]) (use p(2) ordinary_not_part(1) ordinary_markers(2) in blast)
  have part: "tablePart t" "tablePart tb" using n B(2) by (auto simp: tablePart_def tagged_tag partNames_def)
  have "modeFits InTableMode B" using p(6) B part_top [OF part(2)] by (simp add: tagged_tag)
  then have "does (do { s \<leftarrow> onOpenElements pop_element s1; Some (setInsertionMode InTableMode s) }) (shut s InTableMode)"
    if "repiled s (t # B) s1" for s1
    using does_pop [OF repiledD(1,2) [OF that] ordinary_not_part(2) [OF p(8)]]
      shutI [OF assms(1) m repiled_piled [OF repiled_trans [OF that]]] p(1)
    by (auto simp: does_bind_iff stableMode_def elim!: does_mono)
  then have close: "does (do { s \<leftarrow> onOpenElements popUntilTableBodyScopeMarker s; s \<leftarrow> onOpenElements pop_element s; Some (setInsertionMode InTableMode s) })
       (shut s InTableMode)"
    by (rule does_bind [OF pop])
  have "steps s s1" if "repiled s (t # B) s1" for s1
    by (rule piled_same [OF assms(1) r(4) repiled_piled [OF that]])
      (use assms(2) r(1) p(7) part_top [OF part(1) t] in \<open>simp add: settled_def\<close>)
  then have "does (onOpenElements popUntilTableBodyScopeMarker s) (\<lambda>s'. steps s s' \<and> m_insertionMode s' = InTableBodyMode
       \<and> length (stackOf s') \<le> length (stackOf s) \<and> stackOf s' \<noteq> [] \<and> hd (stackOf s') = t)"
    using assms(2) p(1) by (intro does_mono [OF pop]) (auto dest!: repiledD(2) repiled_piled [THEN piledD(7)] simp del: length_map simp: repiledD(2))
  moreover have "inTableBodyScope (openElements s)" using scope n(2) by (auto simp: inTableBodyScope_def)
  ultimately show thesis using that [OF t] scope close name by simp
qed

text \<open>Implied end tags, then up to the part; the markers of its formatting elements go.\<close>

lemma does_closePart:
  assumes "ready s" "m_insertionMode s \<in> partModes" "stackOf s = A @ t # B" "\<forall>x \<in> set A. ordinary x" "inner t"
    and "hasTagName t n" "n \<in> set partNames" "stableMode m" "modeFits m B"
  shows "does (do { s \<leftarrow> onTree generateImpliedEndTags s; s \<leftarrow> onOpenElements (popUntilPopped (ustr n)) s; Some (setInsertionMode m (onFormattingElements clearToLastMarker s)) })
    (shut s m)"
proof -
  have m: "m_insertionMode s \<in> bodyModes" using assms(2) by (simp add: bodyModes_cases)
  note r = body_ready [OF assms(1) m]
  have not_implied: "\<not> hasImpliedEndTag t" using assms(6,7) by (auto simp: hasImpliedEndTag_def hasQName_def partNames_def)
  obtain s1 where s1: "onTree generateImpliedEndTags s = Some s1" "repiled s (dropWhile hasImpliedEndTag (stackOf s)) s1"
    using does_generateImpliedEndTags(1) [OF r(5,7)] by (rule doesE)
  have es1: "stackOf s1 = dropWhile hasImpliedEndTag A @ t # B"
    using repiledD(2) [OF s1(2)] assms(3) dropWhile_split [where P = hasImpliedEndTag, OF not_implied] by metis
  have above: "\<forall>x \<in> set (dropWhile hasImpliedEndTag A). \<not> hasLocalName x (ustr n) \<and> plainElement x"
    using assms(4) ordinary_part_name [OF _ assms(7)] ordinary_not_part(1) by (blast dest: set_dropWhileD)
  have name: "hasLocalName t (ustr n)" using tag_local [OF assms(6)] by simp
  obtain s2 where s2: "onOpenElements (popUntilPopped (ustr n)) s1 = Some s2" "repiled s1 B s2"
    using does_popUntilPopped [OF repiledD(1) [OF s1(2)] es1 name above ordinary_not_part(2) [OF assms(5)]] by (rule doesE)
  have p: "piled s B s2" by (rule repiled_piled [OF repiled_trans [OF s1(2) s2(2)]])
  have "piled s2 B (onFormattingElements clearToLastMarker s2)"
    using list_piled [OF clearToLastMarker_ok [OF piledD(1) [OF p]]] piledD(2) [OF p] by simp
  then have "shut s m (setInsertionMode m (onFormattingElements clearToLastMarker s2))"
    using shutI [OF assms(1,2) piled_trans [OF p] assms(8,9)] assms(3) by simp
  then show ?thesis using s1(1) s2(1) by simp
qed

lemma does_closeCaption:
  assumes "ready s" "m_insertionMode s = InCaptionMode"
  shows "does (processCaptionEndTagForInCaption cfg s) (\<lambda>(closed, s'). closed \<and> shut s InTableMode s')"
proof -
  have m: "m_insertionMode s \<in> partModes" using assms(2) by (simp add: partModes_def)
  obtain A t B where p: "stackOf s = A @ t # B" "\<forall>x \<in> set A. ordinary x" "tagged (partsOf (m_insertionMode s)) t" "parentFits t B" "nested B"
    "bodyStack B" "bodyStack (t # B)" "inner t"
    using part_ready [OF assms(1) m] .
  have t: "hasTagName t ''caption''" using p(3) assms(2) by (simp add: tagged_def)
  obtain tb C where B: "B = tb # C" "hasTagName tb ''table''"
    by (rule around_group [OF bodyStack_nested [OF p(7)]]) (use t in \<open>simp_all add: tagged_tag\<close>)
  have scope: "inTableScope (ustr ''caption'') (openElements s)"
    using tableScope_part [OF p(1,2), of "''caption''"] tag_local [OF t] by (simp add: partNames_def)
  have "tablePart tb" using B(2) by (simp add: tablePart_def tagged_tag partNames_def)
  then have "modeFits InTableMode B" using p(6) B part_top by (simp add: tagged_tag)
  then have "does (do { s \<leftarrow> onTree generateImpliedEndTags s; s \<leftarrow> onOpenElements (popUntilPopped (ustr ''caption'')) s;
        Some (setInsertionMode InTableMode (onFormattingElements clearToLastMarker s)) }) (shut s InTableMode)"
    by (intro does_closePart [OF assms(1) m p(1,2,8) t]) (simp_all add: partNames_def stableMode_def)
  then show ?thesis using scope by (simp add: processCaptionEndTagForInCaption_def does_bind_iff)
qed

text \<open>The cell that is open, and what its scope sees.\<close>

lemma cellE:
  assumes "ready s" "m_insertionMode s = InCellMode"
  obtains n where "n \<in> {''td'', ''th''}" "\<forall>m \<in> {''td'', ''th''}. inTableScope (ustr m) (openElements s) \<longleftrightarrow> m = n"
    "inTableScope (ustr ''table'') (openElements s)" "inTableScope (ustr ''tr'') (openElements s)"
    "does (do { s \<leftarrow> onTree generateImpliedEndTags s; s \<leftarrow> onOpenElements (popUntilPopped (ustr n)) s;
        Some (setInsertionMode InRowMode (onFormattingElements clearToLastMarker s)) }) (shut s InRowMode)"
proof -
  have m: "m_insertionMode s \<in> partModes" using assms(2) by (simp add: partModes_def)
  obtain A t B where p: "stackOf s = A @ t # B" "\<forall>x \<in> set A. ordinary x" "tagged (partsOf (m_insertionMode s)) t" "parentFits t B" "nested B"
    "bodyStack B" "bodyStack (t # B)" "inner t"
    using part_ready [OF assms(1) m] .
  have t: "tagged [''td'', ''th''] t" using p(3) assms(2) by simp
  then obtain n where n: "hasTagName t n" "n \<in> set [''td'', ''th'']" by (rule taggedE)
  obtain r C where r: "B = r # C" "hasTagName r ''tr''" "nested (r # C)" using around_cell [OF bodyStack_nested [OF p(7)] t] .
  obtain g D where g: "C = g # D" "tagged [''tbody'', ''thead'', ''tfoot''] g" "nested (g # D)" using around_row [OF r(3,2)] .
  obtain tb E where tb: "D = tb # E" "hasTagName tb ''table''"
    by (rule around_group [OF g(3) tagged_subset [OF g(2)]]) simp
  obtain gn where gn: "hasTagName g gn" "gn \<in> set [''tbody'', ''thead'', ''tfoot'']" using g(2) by (rule taggedE)
  note tags = tag_local [OF n(1)] tag_local [OF r(2)] tag_local [OF gn(1)] tag_local [OF tb(2)] tag_marker(1) [OF n(1)]
    tag_marker(1) [OF r(2)] tag_marker(1) [OF gn(1)] tag_marker(1) [OF tb(2)]
  have scope: "inTableScope (ustr k) (openElements s) \<longleftrightarrow> k = n \<or> k = ''tr'' \<or> k = gn \<or> k = ''table''" if "k \<in> set partNames" for k
    using tableScope_part [OF p(1,2) that] n(2) gn(2) by (auto simp: r(1) g(1) tb(1) tags)
  have parts: "''td'' \<in> set partNames" "''th'' \<in> set partNames" "''tr'' \<in> set partNames" "''table'' \<in> set partNames"
    by (simp_all add: partNames_def)
  have "tablePart r" using r(2) by (simp add: tablePart_def tagged_tag partNames_def)
  then have "modeFits InRowMode B" using p(6) r part_top by (simp add: tagged_tag)
  then have "does (do { s \<leftarrow> onTree generateImpliedEndTags s; s \<leftarrow> onOpenElements (popUntilPopped (ustr n)) s;
        Some (setInsertionMode InRowMode (onFormattingElements clearToLastMarker s)) }) (shut s InRowMode)"
    by (intro does_closePart [OF assms(1) m p(1,2,8) n(1)]) (use n(2) in \<open>auto simp: partNames_def stableMode_def\<close>)
  then show thesis using that [of n] scope parts n(2) gn(2) by auto
qed

lemma does_closeTable:
  assumes "ready s" "m_insertionMode s \<in> fosterModes"
  shows "does (processTableEndTagForInTable cfg s) (\<lambda>(closed, s'). closed \<and> closedTo s s')"
proof -
  have m: "m_insertionMode s \<in> partModes" by (rule fosterModes_part [OF assms(2)])
  then have m': "m_insertionMode s \<in> bodyModes" by (simp add: bodyModes_cases)
  note r = body_ready [OF assms(1) m']
  obtain A t B where p: "stackOf s = A @ t # B" "\<forall>x \<in> set A. ordinary x" "tagged (partsOf (m_insertionMode s)) t" "parentFits t B" "nested B"
    "bodyStack B" "bodyStack (t # B)" "inner t"
    using part_ready [OF assms(1) m] .
  have "\<exists>P tb C. t # B = P @ tb # C \<and> hasTagName tb ''table'' \<and> (\<forall>x \<in> set P. tagged [''tr'', ''tbody'', ''thead'', ''tfoot''] x)"
  proof -
    have group: "\<exists>P tb C. g # D = P @ tb # C \<and> hasTagName tb ''table'' \<and> (\<forall>x \<in> set P. tagged [''tr'', ''tbody'', ''thead'', ''tfoot''] x)"
      if "nested (g # D)" "tagged [''tbody'', ''thead'', ''tfoot''] g" for g D
    proof -
      note g = that
      obtain tb E where "D = tb # E" "hasTagName tb ''table''"
        by (rule around_group [OF g(1) tagged_subset [OF g(2)]]) simp
      then show ?thesis using tagged_subset [OF g(2), of "[''tr'', ''tbody'', ''thead'', ''tfoot'']"]
        by (intro exI [of _ "[g]"] exI [of _ tb] exI [of _ E]) simp
    qed
    consider "m_insertionMode s = InTableMode" | "m_insertionMode s = InTableBodyMode" | "m_insertionMode s = InRowMode"
      using assms(2) by (auto simp: fosterModes_def)
    then show ?thesis
    proof cases
      case 1
      then show ?thesis using p(3) by (intro exI [of _ "[]"] exI [of _ t] exI [of _ B]) (simp add: tagged_def)
    next
      case 2
      then show ?thesis using group bodyStack_nested [OF p(7)] p(3) by simp
    next
      case 3
      then have t: "hasTagName t ''tr''" using p(3) by (simp add: tagged_def)
      obtain g D where g: "B = g # D" "tagged [''tbody'', ''thead'', ''tfoot''] g" "nested (g # D)" using around_row [OF bodyStack_nested [OF p(7)] t] .
      obtain P tb C where "g # D = P @ tb # C" "hasTagName tb ''table''" "\<forall>x \<in> set P. tagged [''tr'', ''tbody'', ''thead'', ''tfoot''] x"
        using group [OF g(3,2)] by blast
      then show ?thesis using g(1) t by (intro exI [of _ "t # P"] exI [of _ tb] exI [of _ C]) (simp add: tagged_tag)
    qed
  qed
  then obtain P tb C where tb: "t # B = P @ tb # C" "hasTagName tb ''table''" "\<forall>x \<in> set P. tagged [''tr'', ''tbody'', ''thead'', ''tfoot''] x"
    by blast
  have es: "stackOf s = (A @ P) @ tb # C" using p(1) tb(1) by simp
  have P: "\<not> hasLocalName x (ustr ''table'') \<and> \<not> isTableScopeMarker x \<and> plainElement x" if "x \<in> set P" for x
  proof -
    have "tagged [''tr'', ''tbody'', ''thead'', ''tfoot''] x" using tb(3) that by blast
    then obtain n where "hasTagName x n" "n \<in> set [''tr'', ''tbody'', ''thead'', ''tfoot'']" by (rule taggedE)
    then show ?thesis using tag_local tag_marker(1) by (auto simp: plainElement_def hasQName_def)
  qed
  have table: "''table'' \<in> set partNames" by (simp add: partNames_def)
  have scope: "inTableScope (ustr ''table'') (openElements s)"
    using tableScope_part [OF p(1,2) table] P tag_local [OF tb(2)] by (simp add: tb(1) scopeLoop_append)
  have above: "\<forall>x \<in> set (A @ P). \<not> hasLocalName x (ustr ''table'') \<and> plainElement x"
    using P p(2) ordinary_part_name [OF _ table] ordinary_not_part(1) by auto
  have plain: "plainElement tb" using tb(2) by (simp add: plainElement_def hasQName_def)
  have name: "hasLocalName tb (ustr ''table'')" using tag_local [OF tb(2)] by simp
  obtain s1 where s1: "onOpenElements (popUntilPopped (ustr ''table'')) s = Some s1" "repiled s C s1"
    using does_popUntilPopped [OF r(5) es name above plain] by (rule doesE)
  have "bodyStack ((A @ P) @ tb # C)" using r(6) es by simp
  then have "bodyStack C" by (rule body_split(3)) (use tb(2) in \<open>simp_all add: hasQName_def\<close>)
  then have "does (resetInsertionModeAppropriately cfg s1) (closedTo s)"
    by (intro resets [OF assms(1) r(2,1) repiled_piled [OF s1(2)]]) (use es in simp_all)
  then show ?thesis using scope s1(1) by (simp add: processTableEndTagForInTable_def does_bind_iff)
qed

lemma does_closeColgroup:
  assumes "ready s" "m_insertionMode s = InColumnGroupMode"
  shows "does (processColgroupEndTagForInColumnGroup cfg s) (\<lambda>(closed, s'). closed \<and> shut s InTableMode s')"
proof -
  have st: "stableMode (m_insertionMode s)" using assms(2) by (simp add: stableMode_def)
  note r = assms(1) [unfolded ready_stable [OF st]]
  obtain c rest where es: "stackOf s = c # rest" "hasTagName c ''colgroup''" "bodyStack rest" "tagged [''table''] (hd rest)"
    and head: "m_head (m_tree s) \<noteq> None"
    using r assms(2) by (auto simp: settled_def)
  have site: "site_ok (m_tree s)" using r by simp
  have "m_htmlElement (openElements s) \<noteq> Some c"
    using site_okD(3) [OF site] es(2) unfolding stack_ok_def by (auto dest!: rememberedE simp: hasQName_def)
  moreover have plain: "plainElement c" using es(2) by (simp add: plainElement_def hasQName_def)
  obtain s1 where s1: "onOpenElements pop_element s = Some s1" "repiled s rest s1" using does_pop [OF site es(1) plain] by (rule doesE)
  obtain tb C where rest: "rest = tb # C" "tagged [''table''] tb" using es(3,4) bodyStack_ne by (cases rest) auto
  have "tablePart tb" unfolding tablePart_def by (rule tagged_subset [OF rest(2)]) (simp add: partNames_def)
  then have "settled InTableMode rest (m_head (m_tree s))" using es(3) rest part_top head by (simp add: settled_def)
  then have "steps s (setInsertionMode InTableMode s1)"
    by (intro piled_steps [OF assms(1) _ repiled_piled [OF s1(2)]]) (use assms(2) in \<open>simp_all add: stableMode_def\<close>)
  moreover have "currentElementOf s = Some c" using es(1) by (simp add: stack_top)
  moreover have "length (stackOf s1) < length (stackOf s)" using repiledD(2) [OF s1(2)] es(1) by simp
  ultimately show ?thesis using s1(1) by (simp add: processColgroupEndTagForInColumnGroup_def shut_def)
qed

end
