(* ===== verification/HTMLTreeBuilderTableTags.thy ===== *)
theory HTMLTreeBuilderTableTags
  imports HTMLTreeBuilderTables
begin

text \<open>
  The start tags in a table, its groups, rows, cells and captions.  The contracts of the calls: the fake tags open
  and close single parts (\<open>opensParts\<close>, \<open>takesParts\<close>, \<open>closesParts\<close>), and a tag that is processed again finds a
  smaller stack (\<open>restarts\<close>).
\<close>

section \<open>Processing again\<close>

definition prepared :: "treeBuilder \<Rightarrow> treeBuilder \<Rightarrow> bool" where
  "prepared s s' \<longleftrightarrow> steps s s' \<and> stackOf s' = stackOf s
     \<and> (if m_insertionMode s = InForeignContentMode then m_insertionMode s' \<in> insert InForeignContentMode bodyModes
        else m_insertionMode s' = m_insertionMode s)"

lemma does_prepare:
  assumes "ready s"
  shows "does (prepareToReprocessToken cfg s) (prepared s)"
proof (cases "m_insertionMode s = InForeignContentMode \<and> m_hasPendingForeignInsertionModeSteps s")
  case True
  then have st: "stableMode (m_insertionMode s)" by (simp add: stableMode_def)
  note r = assms [unfolded ready_stable [OF st]]
  have site: "site_ok (m_tree s)" and body: "bodyStack (stackOf s)" using r True by (simp_all add: settled_def)
  obtain e where e: "topStop (stackOf s) = Some e" using bodyStack_stop [OF body] ..
  note fits = modeOf_fits [OF body e]
  have stable: "stableMode (modeOf e)" using fits(2) bodyModes_stable by (auto simp: stableMode_def)
  have "steps s (setInsertionMode (modeOf e) s)"
    by (rule piled_steps [OF assms _ piled_refl [OF site] stable]) (use True r fits(1) in \<open>simp_all add: settled_def\<close>)
  then show ?thesis using True reset_body [OF site body, of cfg] e fits(2)
    by (simp add: prepareToReprocessToken_def resetForeignInsertionMode_def prepared_def)
next
  case False
  then have "prepareToReprocessToken cfg s = Some (s\<lparr>m_hasPendingForeignInsertionModeSteps := False\<rparr>)"
    by (cases s) (auto simp: prepareToReprocessToken_def resetForeignInsertionMode_def)
  then show ?thesis using assms False by (simp add: prepared_def steps_def)
qed

definition restarts :: "calls \<Rightarrow> atomicToken \<Rightarrow> treeBuilder \<Rightarrow> bool" where
  "restarts rec token s \<longleftrightarrow> (\<forall>s'. ready s' \<longrightarrow> m_insertionMode s' \<in> insert InForeignContentMode bodyModes \<longrightarrow>
     length (stackOf s') < length (stackOf s) \<longrightarrow> does (rec (ProcessStartTag token) s') (steps s'))"

lemma does_restart:
  assumes "restarts rec token s" "steps s s'" "length (stackOf s') < length (stackOf s)" "m_insertionMode s' \<in> insert InForeignContentMode bodyModes"
  shows "does (reprocessStartTag cfg rec token s') (steps s)"
proof -
  have "ready s'" using assms(2) by (simp add: steps_def)
  note prep = does_prepare [OF this, of cfg]
  show ?thesis unfolding reprocessStartTag_def
  proof (rule does_bind [OF prep])
    fix s1 assume p: "prepared s' s1"
    then have "ready s1" "m_insertionMode s1 \<in> insert InForeignContentMode bodyModes" "length (stackOf s1) < length (stackOf s)"
      using assms(3,4) by (auto simp: prepared_def steps_def split: if_splits)
    then have "does (rec (ProcessStartTag token) s1) (steps s1)" using assms(1) unfolding restarts_def by blast
    then show "does (rec (ProcessStartTag token) s1) (steps s)"
      using steps_then [OF _ steps_trans [OF assms(2)]] p by (simp add: prepared_def)
  qed
qed

lemma restart_closed: "restarts rec token s \<Longrightarrow> closedTo s s' \<Longrightarrow> does (reprocessStartTag cfg rec token s') (steps s)"
  by (rule does_restart) (simp_all add: closedTo_def)

lemma restart_shut: "restarts rec token s \<Longrightarrow> shut s m s' \<Longrightarrow> m \<in> bodyModes \<Longrightarrow> does (reprocessStartTag cfg rec token s') (steps s)"
  by (rule does_restart) (simp_all add: shut_def)

section \<open>Opening the parts\<close>

definition opensAs :: "treeBuilder \<Rightarrow> insertionMode \<Rightarrow> treeBuilder \<Rightarrow> bool" where
  "opensAs s m s' \<longleftrightarrow> steps s s' \<and> m_insertionMode s' = m"

lemma setInsertionMode_list: "onFormattingElements f (setInsertionMode m s) = setInsertionMode m (onFormattingElements f s)"
  by (simp add: onFormattingElements_def setInsertionMode_def)

lemma marker_piled: "piled s es s' \<Longrightarrow> piled s es (onFormattingElements appendMarker s')"
  using list_piled [OF appendMarker_ok [OF piledD(1)]] piled_trans piledD(2) by metis

lemma opensPart:
  assumes "ready s" "m_insertionMode s \<in> partModes" "stackOf s = A @ t # B" "\<forall>x \<in> set A. ordinary x"
    and "marker t" "\<forall>x \<in> set A. \<not> marker x" "a_name token = ustr n" "n \<notin> {''html'', ''head'', ''body''}" "stableMode m"
    and fits: "\<And>e. hasTagName e n \<Longrightarrow> modeFits m (e # t # B)"
    and g: "\<And>s1 es. piled s es s1 \<Longrightarrow> piled s es (g s1)"
  shows "does (do { s \<leftarrow> onOpenElements (popLoop marker) s; s \<leftarrow> onTree (insertHTMLElement token) (g s); Some (setInsertionMode m s) }) (opensAs s m)"
    and "does (do { s \<leftarrow> onOpenElements (popLoop marker) s; s \<leftarrow> onTree (insertHTMLElement token) s; Some (g (setInsertionMode m s)) })
           (\<lambda>s'. \<exists>s1. s' = g (setInsertionMode m s1) \<and> opensAs s m (setInsertionMode m (g s1)))"
proof -
  have m: "m_insertionMode s \<in> bodyModes" using assms(2) by (simp add: bodyModes_cases)
  note r = body_ready [OF assms(1) m]
  have plain: "isPlainTag XHTML (a_name token)" using assms(7,8) by (simp add: isPlainTag_def)
  have pop: "does (onOpenElements (popLoop marker) s) (repiled s (t # B))"
    by (rule does_popLoop [where stop = marker, OF r(5) assms(3,5)]) (use assms(4,6) ordinary_not_part(1) in blast)
  have insert: "does (onTree (insertHTMLElement token) s1) (\<lambda>s2. \<exists>e. piled s (e # t # B) s2 \<and> hasTagName e n)" if s1: "piled s (t # B) s1" for s1
  proof -
    have "stackOf s1 \<noteq> []" unfolding piledD(2) [OF s1] by simp
    from does_insertHTMLElement [OF piledD(1) [OF s1] this plain] show ?thesis
      using piled_trans [OF s1] piledD(2) [OF s1] assms(7) by (auto elim!: does_mono simp: hasQName_def)
  qed
  have step: "opensAs s m (setInsertionMode m s2)" if "piled s (e # t # B) s2" "hasTagName e n" for e s2
  proof -
    have "settled m (e # t # B) (m_head (m_tree s))" using fits [OF that(2)] r(1) by (simp add: settled_def)
    then show ?thesis using piled_steps [OF assms(1) r(2) that(1) assms(9)] by (simp add: opensAs_def)
  qed
  show "does (do { s \<leftarrow> onOpenElements (popLoop marker) s; s \<leftarrow> onTree (insertHTMLElement token) (g s); Some (setInsertionMode m s) }) (opensAs s m)"
  proof (rule does_bind [OF pop])
    fix s1 assume "repiled s (t # B) s1"
    then have "does (onTree (insertHTMLElement token) (g s1)) (\<lambda>s2. \<exists>e. piled s (e # t # B) s2 \<and> hasTagName e n)"
      by (intro insert g repiled_piled)
    then show "does (do { s \<leftarrow> onTree (insertHTMLElement token) (g s1); Some (setInsertionMode m s) }) (opensAs s m)"
      unfolding does_bind_iff by (rule does_mono) (auto simp: step)
  qed
  show "does (do { s \<leftarrow> onOpenElements (popLoop marker) s; s \<leftarrow> onTree (insertHTMLElement token) s; Some (g (setInsertionMode m s)) })
           (\<lambda>s'. \<exists>s1. s' = g (setInsertionMode m s1) \<and> opensAs s m (setInsertionMode m (g s1)))"
  proof (rule does_bind [OF pop])
    fix s1 assume "repiled s (t # B) s1"
    then have "does (onTree (insertHTMLElement token) s1) (\<lambda>s2. \<exists>e. piled s (e # t # B) s2 \<and> hasTagName e n)"
      by (intro insert repiled_piled)
    then show "does (do { s \<leftarrow> onTree (insertHTMLElement token) s1; Some (g (setInsertionMode m s)) })
           (\<lambda>s'. \<exists>s1. s' = g (setInsertionMode m s1) \<and> opensAs s m (setInsertionMode m (g s1)))"
      unfolding does_bind_iff by (rule does_mono) (auto intro: step g)
  qed
qed

text \<open>A part fits on what is around it.\<close>

lemma part_fits:
  assumes "bodyStack (t # B)" "hasTagName e n" "n \<in> set partNames" "parentFits e (t # B)"
  shows "bodyStack (e # t # B)" "topTagged ns (e # t # B) \<longleftrightarrow> n \<in> set ns"
proof -
  have part: "tablePart e" using assms(2,3) by (simp add: tablePart_def tagged_tag)
  have "inner e" using assms(2,3) by (auto simp: inner_def hasQName_def tagged_tag [OF assms(2)] partNames_def outerNames_def)
  then show "bodyStack (e # t # B)" using bodyStack_Cons [OF assms(1)] assms(4) by blast
  show "topTagged ns (e # t # B) \<longleftrightarrow> n \<in> set ns" using part tagged_tag [OF assms(2)] by (simp add: topTagged_def topStop_def resetStop_def)
qed

lemma opensInTable:
  assumes "ready s" "m_insertionMode s = InTableMode"
  shows "a_name token = ustr ''caption'' \<Longrightarrow>
     does (do { s \<leftarrow> onOpenElements popUntilTableScopeMarker s; s \<leftarrow> onTree (insertHTMLElement token) (onFormattingElements appendMarker s);
                Some (setInsertionMode InCaptionMode s) }) (opensAs s InCaptionMode)"
    and "a_name token = ustr ''colgroup'' \<Longrightarrow>
     does (do { s \<leftarrow> onOpenElements popUntilTableScopeMarker s; s \<leftarrow> onTree (insertHTMLElement token) s;
                Some (setInsertionMode InColumnGroupMode s) }) (opensAs s InColumnGroupMode)"
    and "isTableBodyContextTag (a_name token) \<Longrightarrow>
     does (do { s \<leftarrow> onOpenElements popUntilTableScopeMarker s; s \<leftarrow> onTree (insertHTMLElement token) s;
                Some (setInsertionMode InTableBodyMode s) }) (opensAs s InTableBodyMode)"
proof -
  have m: "m_insertionMode s \<in> partModes" using assms(2) by (simp add: partModes_def)
  obtain A t B where p: "stackOf s = A @ t # B" "\<forall>x \<in> set A. ordinary x" "tagged (partsOf (m_insertionMode s)) t" "parentFits t B" "nested B"
    "bodyStack B" "bodyStack (t # B)" "inner t"
    using part_ready [OF assms(1) m] .
  have t: "hasTagName t ''table''" using p(3) assms(2) by (simp add: tagged_def)
  have markers: "isTableScopeMarker t" "\<forall>x \<in> set A. \<not> isTableScopeMarker x" using tag_marker(1) [OF t] p(2) ordinary_markers(1) by auto
  note opens = opensPart(1) [OF assms(1) m p(1,2) markers, folded popUntilTableScopeMarker_def]
  have fits: "parentFits e (t # B)" if "hasTagName e n" "n \<in> set [''caption'', ''tbody'', ''thead'', ''tfoot'', ''colgroup'']" for e n
    using that t by (auto simp: parentFits_def tagged_tag [OF that(1)] tagged_hasTagName)
  show "does (do { s \<leftarrow> onOpenElements popUntilTableScopeMarker s; s \<leftarrow> onTree (insertHTMLElement token) (onFormattingElements appendMarker s);
                Some (setInsertionMode InCaptionMode s) }) (opensAs s InCaptionMode)" if "a_name token = ustr ''caption''"
    by (rule opens [OF that]) (use part_fits [OF p(7)] fits marker_piled in \<open>simp_all add: stableMode_def partNames_def\<close>)
  show "does (do { s \<leftarrow> onOpenElements popUntilTableScopeMarker s; s \<leftarrow> onTree (insertHTMLElement token) s;
                Some (setInsertionMode InColumnGroupMode s) }) (opensAs s InColumnGroupMode)" if "a_name token = ustr ''colgroup''"
    by (rule opens [OF that, where g = "\<lambda>s. s"]) (use p(7) t in \<open>simp_all add: stableMode_def tagged_tag\<close>)
  show "does (do { s \<leftarrow> onOpenElements popUntilTableScopeMarker s; s \<leftarrow> onTree (insertHTMLElement token) s;
                Some (setInsertionMode InTableBodyMode s) }) (opensAs s InTableBodyMode)" if "isTableBodyContextTag (a_name token)"
  proof -
    note context_tag = that
    obtain n where n: "a_name token = ustr n" "n \<in> set [''tbody'', ''thead'', ''tfoot'']"
      using context_tag by (auto simp: isTableBodyContextTag_def isOneOf_def)
    show ?thesis
      by (rule opens [OF n(1), where g = "\<lambda>s. s"]) (use n(2) part_fits [OF p(7)] fits in \<open>auto simp: stableMode_def partNames_def\<close>)
  qed
qed

lemma opensRow:
  assumes "ready s" "m_insertionMode s = InTableBodyMode" "a_name token = ustr ''tr''"
  shows "does (do { s \<leftarrow> onOpenElements popUntilTableBodyScopeMarker s; s \<leftarrow> onTree (insertHTMLElement token) s;
                Some (setInsertionMode InRowMode s) }) (opensAs s InRowMode)"
proof -
  have m: "m_insertionMode s \<in> partModes" using assms(2) by (simp add: partModes_def)
  obtain A t B where p: "stackOf s = A @ t # B" "\<forall>x \<in> set A. ordinary x" "tagged (partsOf (m_insertionMode s)) t" "parentFits t B" "nested B"
    "bodyStack B" "bodyStack (t # B)" "inner t"
    using part_ready [OF assms(1) m] .
  have t: "tagged [''tbody'', ''thead'', ''tfoot''] t" using p(3) assms(2) by simp
  then obtain n where n: "hasTagName t n" "n \<in> set [''tbody'', ''thead'', ''tfoot'']" by (rule taggedE)
  have markers: "isTableBodyScopeMarker t" "\<forall>x \<in> set A. \<not> isTableBodyScopeMarker x"
    using tag_marker(2) [OF n(1)] n(2) p(2) ordinary_markers(2) by auto
  have fits: "parentFits e (t # B)" if "hasTagName e ''tr''" for e using that t by (simp add: parentFits_def tagged_tag)
  show ?thesis
    by (rule opensPart(1) [OF assms(1) m p(1,2) markers, folded popUntilTableBodyScopeMarker_def, OF assms(3), where g = "\<lambda>s. s"])
      (use part_fits [OF p(7)] fits in \<open>simp_all add: stableMode_def partNames_def\<close>)
qed

lemma opensCell:
  assumes "ready s" "m_insertionMode s = InRowMode" "isTableCellContextTag (a_name token)"
  shows "does (do { s \<leftarrow> onOpenElements popUntilTableRowScopeMarker s; s \<leftarrow> onTree (insertHTMLElement token) s;
                Some (onFormattingElements appendMarker (setInsertionMode InCellMode s)) }) (opensAs s InCellMode)"
proof -
  have m: "m_insertionMode s \<in> partModes" using assms(2) by (simp add: partModes_def)
  obtain A t B where p: "stackOf s = A @ t # B" "\<forall>x \<in> set A. ordinary x" "tagged (partsOf (m_insertionMode s)) t" "parentFits t B" "nested B"
    "bodyStack B" "bodyStack (t # B)" "inner t"
    using part_ready [OF assms(1) m] .
  have t: "hasTagName t ''tr''" using p(3) assms(2) by (simp add: tagged_def)
  obtain n where n: "a_name token = ustr n" "n \<in> set [''td'', ''th'']"
    using assms(3) by (auto simp: isTableCellContextTag_def isOneOf_def)
  have markers: "isTableRowScopeMarker t" "\<forall>x \<in> set A. \<not> isTableRowScopeMarker x" using tag_marker(3) [OF t] p(2) ordinary_markers(3) by auto
  have fits: "parentFits e (t # B)" if "hasTagName e n" for e using n(2) t by (auto simp: parentFits_def tagged_tag [OF that] tagged_tag [OF t])
  have "does (do { s \<leftarrow> onOpenElements popUntilTableRowScopeMarker s; s \<leftarrow> onTree (insertHTMLElement token) s;
                Some (onFormattingElements appendMarker (setInsertionMode InCellMode s)) })
     (\<lambda>s'. \<exists>s1. s' = onFormattingElements appendMarker (setInsertionMode InCellMode s1)
        \<and> opensAs s InCellMode (setInsertionMode InCellMode (onFormattingElements appendMarker s1)))"
    by (rule opensPart(2) [OF assms(1) m p(1,2) markers, folded popUntilTableRowScopeMarker_def, OF n(1)])
      (use n(2) part_fits [OF p(7)] fits marker_piled in \<open>auto simp: stableMode_def partNames_def\<close>)
  then show ?thesis by (rule does_mono) (auto simp: setInsertionMode_list)
qed

section \<open>The contracts of the structural tags\<close>

definition opensParts :: "calls \<Rightarrow> bool" where
  "opensParts rec \<longleftrightarrow> (\<forall>s. ready s \<longrightarrow>
     (m_insertionMode s = InTableMode \<longrightarrow> does (rec (ProcessStartTag (fakeTag ''colgroup'' None)) s) (opensAs s InColumnGroupMode)
        \<and> does (rec (ProcessStartTag (fakeTag ''tbody'' None)) s) (opensAs s InTableBodyMode))
     \<and> (m_insertionMode s = InTableBodyMode \<longrightarrow> does (rec (ProcessStartTag (fakeTag ''tr'' None)) s) (opensAs s InRowMode)))"

definition takesParts :: "calls \<Rightarrow> bool" where
  "takesParts rec \<longleftrightarrow> (\<forall>s token. ready s \<longrightarrow> a_type token = StartTag \<longrightarrow>
     (m_insertionMode s = InColumnGroupMode \<longrightarrow> a_name token = ustr ''col'' \<longrightarrow> does (rec (ProcessStartTag token) s) (steps s))
     \<and> (m_insertionMode s = InRowMode \<longrightarrow> isTableCellContextTag (a_name token) \<longrightarrow> does (rec (ProcessStartTag token) s) (steps s)))"

definition takesRows :: "calls \<Rightarrow> bool" where
  "takesRows rec \<longleftrightarrow> (\<forall>s token. ready s \<longrightarrow> a_type token = StartTag \<longrightarrow> m_insertionMode s = InTableBodyMode \<longrightarrow>
     a_name token = ustr ''tr'' \<or> isTableCellContextTag (a_name token) \<longrightarrow> does (rec (ProcessStartTag token) s) (steps s))"

text \<open>The fake end tags of the open cell, of the open group and of the open row.\<close>

definition closesParts :: "calls \<Rightarrow> bool" where
  "closesParts rec \<longleftrightarrow> (\<forall>s. ready s \<longrightarrow>
     (m_insertionMode s = InCellMode \<longrightarrow> (\<forall>n \<in> {''td'', ''th''}. inTableScope (ustr n) (openElements s) \<longrightarrow>
        does (rec (ProcessEndTag (fakeEnd n)) s) (shut s InRowMode)))
     \<and> (m_insertionMode s = InTableBodyMode \<longrightarrow> (\<forall>n \<in> {''tbody'', ''thead'', ''tfoot''}. inTableScope (ustr n) (openElements s) \<longrightarrow>
        does (rec (ProcessEndTag (fakeEnd n)) s) (shut s InTableMode)))
     \<and> (m_insertionMode s = InRowMode \<longrightarrow> does (rec (ProcessEndTag (fakeEnd ''tr'')) s) (shut s InTableBodyMode)))"

lemma fakeEnd_simps [simp]: "a_type (fakeEnd n) = EndTag" "a_name (fakeEnd n) = ustr n"
  by (simp_all add: fakeEnd_def fakeToken_def)

lemmas tag_tests = isTableBodyContextTag_def isTableCellContextTag_def isCaptionColOrColgroupTag_def isOneOf_def

lemma opensParts_process: "opensParts (process cfg (Suc fuel))"
proof -
  have "does (processStartTagForInTable cfg rec (fakeTag ''colgroup'' None) s) (opensAs s InColumnGroupMode)"
    "does (processStartTagForInTable cfg rec (fakeTag ''tbody'' None) s) (opensAs s InTableBodyMode)"
    if "ready s" "m_insertionMode s = InTableMode" for s rec
    using opensInTable(2,3) [OF that] by (simp_all add: processStartTagForInTable_def Let_def tag_tests)
  moreover have "does (startTagInTableBody cfg rec (fakeTag ''tr'' None) s) (opensAs s InRowMode)"
    if "ready s" "m_insertionMode s = InTableBodyMode" for s rec
    using opensRow [OF that] by (simp add: startTagInTableBody_def)
  ultimately show ?thesis by (simp add: opensParts_def perform_def processStartTag_def)
qed

lemma takesParts_process: "takesParts (process cfg (Suc fuel))"
proof -
  have col: "does (onTree (insertSelfClosingHTMLElement token) s) (steps s)"
    if "ready s" "a_type token = StartTag" "m_insertionMode s = InColumnGroupMode" for s token
  proof -
    note s = that
    have st: "stableMode (m_insertionMode s)" using s(3) by (simp add: stableMode_def)
    note r = s(1) [unfolded ready_stable [OF st]]
    have ne: "stackOf s \<noteq> []" using r s(3) by (auto simp: settled_def)
    obtain t where t: "insertSelfClosingHTMLElement token (m_tree s) = Some t" "kept (m_tree s) t"
      using insertSelfClosingHTMLElement_ok [OF _ ne s(2)] r by blast
    show ?thesis by (rule does_mono [OF does_kept [where f = "insertSelfClosingHTMLElement token", OF t]]) (rule stayed_steps [OF s(1) st])
  qed
  have cell: "does (startTagInRow cfg rec token s) (steps s)"
    if "ready s" "m_insertionMode s = InRowMode" "isTableCellContextTag (a_name token)" for s token rec
    using opensCell [OF that] that(3) by (auto simp: startTagInRow_def opensAs_def elim!: does_mono)
  show ?thesis
    using col cell by (auto simp: takesParts_def perform_def processStartTag_def startTagInColumnGroup_def)
qed

lemma takesRows_process: "takesRows (process cfg (Suc (Suc fuel)))"
  unfolding takesRows_def
proof (intro allI impI)
  fix s and token :: atomicToken
  let ?rec = "process cfg (Suc fuel)"
  assume s: "ready s" "a_type token = StartTag" "m_insertionMode s = InTableBodyMode"
    and name: "a_name token = ustr ''tr'' \<or> isTableCellContextTag (a_name token)"
  have "does (startTagInTableBody cfg ?rec token s) (steps s)"
  proof (cases "a_name token = ustr ''tr''")
    case True
    then show ?thesis using opensRow [OF s(1,3) True] by (auto simp: startTagInTableBody_def opensAs_def elim!: does_mono)
  next
    case False
    then have cell: "isTableCellContextTag (a_name token)" using name by blast
    have "does (?rec (ProcessStartTag (fakeTag ''tr'' None)) s) (opensAs s InRowMode)"
      using opensParts_process [of cfg fuel] s(1,3) unfolding opensParts_def by blast
    then have "does (do { s \<leftarrow> processFakeStartTag ?rec ''tr'' None s;
                     reprocessStartTag cfg ?rec token (ASSERT_builder (m_insertionMode s = InRowMode) s) }) (steps s)"
      unfolding processFakeStartTag_def
    proof (rule does_bind)
      fix s1 assume o: "opensAs s InRowMode s1"
      let ?s = "s1\<lparr>m_hasPendingForeignInsertionModeSteps := False\<rparr>"
      have "ready ?s" "m_insertionMode ?s = InRowMode" using o by (simp_all add: opensAs_def steps_def)
      then have "does (?rec (ProcessStartTag token) ?s) (steps ?s)"
        using takesParts_process [of cfg fuel] s(2) cell unfolding takesParts_def by blast
      then show "does (reprocessStartTag cfg ?rec token (ASSERT_builder (m_insertionMode s1 = InRowMode) s1)) (steps s)"
        using o steps_then [of _ s1 s] by (simp add: opensAs_def reprocessStartTag_def prepare_other)
    qed
    then show ?thesis using False cell by (simp add: startTagInTableBody_def)
  qed
  then show "does (process cfg (Suc (Suc fuel)) (ProcessStartTag token) s) (steps s)"
    using s(2,3) by (simp add: perform_def processStartTag_def)
qed

lemma closesParts_process: "closesParts (process cfg (Suc fuel))"
proof -
  have cell: "does (processEndTagForInCell cfg rec (fakeEnd n) s) (shut s InRowMode)"
    if "ready s" "m_insertionMode s = InCellMode" "n \<in> {''td'', ''th''}" "inTableScope (ustr n) (openElements s)" for s n rec
  proof -
    note s = that
    have mode: "m_insertionMode s \<in> bodyModes" using s(2) by (simp add: bodyModes_def partModes_def)
    obtain m where "m \<in> {''td'', ''th''}" and m: "\<forall>k \<in> {''td'', ''th''}. inTableScope (ustr k) (openElements s) \<longleftrightarrow> k = m"
      and "inTableScope (ustr ''table'') (openElements s)" "inTableScope (ustr ''tr'') (openElements s)"
      and close: "does (do { s \<leftarrow> onTree generateImpliedEndTags s; s \<leftarrow> onOpenElements (popUntilPopped (ustr m)) s;
        Some (setInsertionMode InRowMode (onFormattingElements clearToLastMarker s)) }) (shut s InRowMode)"
      using cellE [OF s(1,2)] .
    have n: "m = n" using bspec [OF m s(3)] s(4) by simp
    have calm: "calm s" by (rule ready_calm [OF s(1) mode])
    obtain s1 where s1: "onTree generateImpliedEndTags s = Some s1" "repiled s (dropWhile hasImpliedEndTag (stackOf s)) s1"
      using does_generateImpliedEndTags(1) [OF calmD(1,3) [OF calm]] by (rule doesE)
    have "stackOf s1 \<noteq> []"
      using quiet_dropWhile [OF calmD(2) [OF calm] implied_ordinary] bodyStack_ne unfolding repiledD(2) [OF s1(2)] quiet_iff by blast
    then show ?thesis using close n s(3,4) s1(1) stack_hd [of s1]
      by (auto simp: processEndTagForInCell_def closeBlock_def tag_tests)
  qed
  have group: "does (processEndTagForInTableBody cfg rec (fakeEnd n) s) (shut s InTableMode)"
    if "ready s" "m_insertionMode s = InTableBodyMode" "n \<in> {''tbody'', ''thead'', ''tfoot''}" "inTableScope (ustr n) (openElements s)" for s n rec
    by (rule does_closeGroup [OF that(1,2)]) (use that(3,4) in \<open>auto simp: processEndTagForInTableBody_def tag_tests\<close>)
  have row: "does (processEndTagForInRow cfg rec (fakeEnd ''tr'') s) (shut s InTableBodyMode)"
    if "ready s" "m_insertionMode s = InRowMode" for s rec
    using does_closeTr [OF that, of cfg] by (auto simp: processEndTagForInRow_def does_map elim!: does_mono)
  show ?thesis
    using cell group row by (simp add: closesParts_def perform_def processEndTag_def)
qed

section \<open>The start tags in the modes of a table\<close>

definition servesTables :: "builderConfig \<Rightarrow> calls \<Rightarrow> bool" where
  "servesTables cfg rec \<longleftrightarrow> serves cfg rec \<and> opensParts rec \<and> takesParts rec \<and> takesRows rec \<and> closesParts rec"

lemma servesTablesD:
  assumes "servesTables cfg rec"
  shows "serves cfg rec" "endsQuietly rec" "startsQuietly rec" "scriptCloses cfg rec"
    "ready s \<Longrightarrow> m_insertionMode s = InTableMode \<Longrightarrow> does (rec (ProcessStartTag (fakeTag ''colgroup'' None)) s) (opensAs s InColumnGroupMode)"
    "ready s \<Longrightarrow> m_insertionMode s = InTableMode \<Longrightarrow> does (rec (ProcessStartTag (fakeTag ''tbody'' None)) s) (opensAs s InTableBodyMode)"
    "ready s \<Longrightarrow> m_insertionMode s = InTableBodyMode \<Longrightarrow> does (rec (ProcessStartTag (fakeTag ''tr'' None)) s) (opensAs s InRowMode)"
    "ready s \<Longrightarrow> m_insertionMode s = InRowMode \<Longrightarrow> does (rec (ProcessEndTag (fakeEnd ''tr'')) s) (shut s InTableBodyMode)"
  using assms unfolding servesTables_def serves_def opensParts_def closesParts_def by blast+

text \<open>A part has been opened for a tag that is now processed in it.\<close>

lemma does_opened:
  assumes "does r (opensAs s m)" "m \<noteq> InForeignContentMode"
    and "\<And>s'. ready s' \<Longrightarrow> m_insertionMode s' = m \<Longrightarrow> does (rec (ProcessStartTag token) s') (steps s')"
  shows "does (do { s \<leftarrow> r; reprocessStartTag cfg rec token s }) (steps s)"
    "does (do { s \<leftarrow> r; reprocessStartTag cfg rec token (ASSERT_builder (m_insertionMode s = m) s) }) (steps s)"
proof -
  have "does (reprocessStartTag cfg rec token s') (steps s)" if o: "opensAs s m s'" for s'
  proof -
    let ?s = "s'\<lparr>m_hasPendingForeignInsertionModeSteps := False\<rparr>"
    have "ready ?s" "m_insertionMode ?s = m" using o by (simp_all add: opensAs_def steps_def)
    then have "does (rec (ProcessStartTag token) ?s) (steps ?s)" by (rule assms(3))
    then show ?thesis using o assms(2) steps_then [of _ s' s] by (simp add: opensAs_def reprocessStartTag_def prepare_other)
  qed
  then show "does (do { s \<leftarrow> r; reprocessStartTag cfg rec token s }) (steps s)"
    "does (do { s \<leftarrow> r; reprocessStartTag cfg rec token (ASSERT_builder (m_insertionMode s = m) s) }) (steps s)"
    by (auto intro!: does_bind [OF assms(1)] simp: opensAs_def)
qed

lemma startOkD: "startOk cfg token \<Longrightarrow> a_type token = StartTag"
  by (simp add: startOk_def)

lemma restarts_redirect: "restarts rec token (setRedirect b s) = restarts rec token s"
  by (simp add: restarts_def)

lemma start_inBody:
  assumes "ready s" "m_insertionMode s \<in> bodyModes" "startOk cfg token" "serves cfg rec" "restarts rec token s"
  shows "does (processStartTagForInBody cfg rec token s) (steps s)"
proof (rule does_processStartTagForInBody [OF assms(1-4)])
  fix s' assume "ready s'" "m_insertionMode s' = m_insertionMode s" "length (stackOf s') < length (stackOf s)"
  then show "does (rec (ProcessStartTag token) s') (steps s')" using assms(2,5) unfolding restarts_def by auto
qed

lemma closing_restarts:
  assumes "does r (\<lambda>(closed, s'). closed \<and> P s')" "\<And>s'. P s' \<Longrightarrow> does (reprocessStartTag cfg rec token s') (steps s)"
  shows "does (do { (closed, s) \<leftarrow> r; if \<not> closed then f s else reprocessStartTag cfg rec token s }) (steps s)"
  by (rule does_bind [OF assms(1)]) (use assms(2) in auto)

lemma start_inTable:
  assumes "ready s" "m_insertionMode s \<in> fosterModes" "startOk cfg token" "servesTables cfg rec" "restarts rec token s"
    and "m_insertionMode s = InTableMode \<or> \<not> (isCaptionColOrColgroupTag (a_name token) \<or> isTableBodyContextTag (a_name token)
           \<or> isTableCellContextTag (a_name token) \<or> a_name token = ustr ''tr'')"
  shows "does (processStartTagForInTable cfg rec token s) (steps s)"
proof -
  let ?n = "a_name token"
  have m: "m_insertionMode s \<in> bodyModes" using fosterModes_part [OF assms(2)] by (simp add: bodyModes_cases)
  note r = body_ready [OF assms(1) m] and rec = servesTablesD [OF assms(4)] and calm = ready_calm [OF assms(1) m]
  have type: "ASSERT_builder (a_type token = StartTag) s = s" using startOkD [OF assms(3)] by simp
  have opened: "does r' (opensAs s m') \<Longrightarrow> does r' (steps s)" for r' m' by (erule does_mono) (simp add: opensAs_def)
  have body: "does (withRedirect (processStartTagForInBody cfg rec token) s) (steps s)"
    by (rule steps_withRedirect, rule start_inBody [OF _ _ assms(3) rec(1)]) (use assms(1,5) m in \<open>simp_all add: restarts_redirect\<close>)
  show ?thesis unfolding processStartTagForInTable_def type Let_def
  proof (intro does_if, goal_cases)
    case 1
    then show ?case using opened [OF opensInTable(1) [OF assms(1)]] assms(6) by (simp add: tag_tests)
  next
    case 2
    then show ?case using opened [OF opensInTable(2) [OF assms(1)]] assms(6) by (simp add: tag_tests)
  next
    case 3
    have t: "m_insertionMode s = InTableMode" using 3 assms(6) by (simp add: tag_tests)
    show ?case unfolding processFakeStartTag_def
      by (rule does_opened(1) [OF rec(5) [OF assms(1) t]])
        (use assms(4) 3(3) startOkD [OF assms(3)] in \<open>auto simp: servesTables_def takesParts_def\<close>)
  next
    case 4
    then show ?case using opened [OF opensInTable(3) [OF assms(1)]] assms(6) by auto
  next
    case 5
    have t: "m_insertionMode s = InTableMode" using 5 assms(6) by auto
    show ?case unfolding processFakeStartTag_def
      by (rule does_opened(2) [OF rec(6) [OF assms(1) t]])
        (use assms(4) 5(5) startOkD [OF assms(3)] in \<open>auto simp: servesTables_def takesRows_def\<close>)
  next
    case 6
    show ?case by (rule closing_restarts [OF does_closeTable [OF assms(1,2)]]) (rule restart_closed [OF assms(5)])
  next
    case 7
    then show ?case using headTag_steps(1) [OF assms(1) r(4,7) assms(3) rec(4)] by auto
  next
    case 8
    show ?case by (rule q_steps [OF q_insertSelfClosing [OF calm startOkD [OF assms(3)]] assms(1) m])
  next
    case 9
    show ?case by (rule q_steps [OF q_Some [OF calm] assms(1) m])
  next
    case 10
    show ?case by (rule q_steps [OF q_formInTable [OF calm 10(9)] assms(1) m])
  next
    case 11
    show ?case by (rule body)
  qed
qed

lemma start_inCaption:
  assumes "ready s" "m_insertionMode s = InCaptionMode" "startOk cfg token" "servesTables cfg rec" "restarts rec token s"
  shows "does (startTagInCaption cfg rec token s) (steps s)"
proof -
  have m: "m_insertionMode s \<in> bodyModes" using assms(2) by (simp add: bodyModes_def partModes_def)
  show ?thesis unfolding startTagInCaption_def Let_def
  proof (intro does_if, goal_cases)
    case 1
    show ?case by (rule closing_restarts [OF does_closeCaption [OF assms(1,2)]])
      (erule restart_shut [OF assms(5)], simp add: bodyModes_def partModes_def)
  next
    case 2
    show ?case by (rule start_inBody [OF assms(1) m assms(3) servesTablesD(1) [OF assms(4)] assms(5)])
  qed
qed

lemma start_inColumnGroup:
  assumes "ready s" "m_insertionMode s = InColumnGroupMode" "a_type token = StartTag" "restarts rec token s"
  shows "does (startTagInColumnGroup cfg rec token s) (steps s)"
proof -
  have st: "stableMode (m_insertionMode s)" using assms(2) by (simp add: stableMode_def)
  note r = assms(1) [unfolded ready_stable [OF st]]
  have ne: "stackOf s \<noteq> []" using r assms(2) by (auto simp: settled_def)
  have kept: "does (onTree f s) (steps s)" if "f (m_tree s) = Some t" "kept (m_tree s) t" for f t
    by (rule does_mono [OF does_kept [where f = f, OF that]]) (rule stayed_steps [OF assms(1) st])
  have site: "site_ok (m_tree s)" using r by simp
  show ?thesis unfolding startTagInColumnGroup_def
  proof (intro does_if, goal_cases)
    case 1
    show ?case by (rule insertHTMLHtmlStartTagInBody_ok [OF site ne]) (rule kept)
  next
    case 2
    show ?case by (rule insertSelfClosingHTMLElement_ok [OF site ne assms(3)]) (rule kept)
  next
    case 3
    show ?case by (rule closing_restarts [OF does_closeColgroup [OF assms(1,2)]])
      (erule restart_shut [OF assms(4)], simp add: bodyModes_def partModes_def)
  qed
qed

text \<open>The group that is open is closed by its fake end tag.\<close>

lemma does_closeTableBody:
  assumes "ready s" "m_insertionMode s = InTableBodyMode" "closesParts rec"
  shows "inTableBodyScope (openElements s)" "does (closeTableBody rec s) (shut s InTableMode)"
proof -
  obtain t where t: "tagged [''tbody'', ''thead'', ''tfoot''] t" "inTableScope (localName t) (openElements s)" and scope: "inTableBodyScope (openElements s)"
    and "does (do { s \<leftarrow> onOpenElements popUntilTableBodyScopeMarker s; s \<leftarrow> onOpenElements pop_element s; Some (setInsertionMode InTableMode s) })
       (shut s InTableMode)"
    and pop: "does (onOpenElements popUntilTableBodyScopeMarker s) (\<lambda>s'. steps s s' \<and> m_insertionMode s' = InTableBodyMode
       \<and> length (stackOf s') \<le> length (stackOf s) \<and> stackOf s' \<noteq> [] \<and> hd (stackOf s') = t)"
    using does_closeGroup [OF assms(1,2)] .
  show "inTableBodyScope (openElements s)" by (rule scope)
  obtain n where n: "hasTagName t n" "n \<in> set [''tbody'', ''thead'', ''tfoot'']" using t(1) by (rule taggedE)
  have name: "localName t = ustr n" using n(1) by (simp add: hasQName_def)
  show "does (closeTableBody rec s) (shut s InTableMode)"
    unfolding closeTableBody_def
  proof (rule does_bind [OF pop], elim conjE)
    fix s1
    assume s1: "steps s s1" "m_insertionMode s1 = InTableBodyMode" "length (stackOf s1) \<le> length (stackOf s)" "stackOf s1 \<noteq> []" "hd (stackOf s1) = t"
    have "inTableScope (ustr n) (openElements s1)"
      using s1(4,5) tag_local [OF n(1)] by (cases "stackOf s1") (auto simp: inTableScope_def inScopeCommon_def)
    then have "does (rec (ProcessEndTag (fakeEnd n)) s1) (shut s1 InTableMode)"
      using assms(3) s1(1,2) n(2) by (auto simp: closesParts_def steps_def)
    then have "does (rec (ProcessEndTag (fakeEnd n)) s1) (shut s InTableMode)"
      by (rule does_mono) (use s1(3) steps_trans [OF s1(1)] in \<open>auto simp: shut_def\<close>)
    moreover have "isTableBodyContextTag (ustr n)" using n(2) by (auto simp: tag_tests)
    ultimately show "does (do { c \<leftarrow> currentElementOf s1;
          processFakeEndTag rec (localName c) (ASSERT_builder (isTableBodyContextTag (localName c)) s1) }) (shut s InTableMode)"
      using stack_hd [OF s1(4)] s1(5) name by (simp add: processFakeEndTag_def fakeEnd_def)
  qed
qed

lemma start_inTableBody:
  assumes "ready s" "m_insertionMode s = InTableBodyMode" "startOk cfg token" "servesTables cfg rec" "restarts rec token s"
  shows "does (startTagInTableBody cfg rec token s) (steps s)"
proof -
  note rec = servesTablesD [OF assms(4)]
  have closes: "closesParts rec" using assms(4) by (simp add: servesTables_def)
  show ?thesis unfolding startTagInTableBody_def Let_def
  proof (intro does_if, goal_cases)
    case 1
    show ?case by (rule does_mono [OF opensRow [OF assms(1,2) 1]]) (simp add: opensAs_def)
  next
    case 2
    show ?case unfolding processFakeStartTag_def
      by (rule does_opened(2) [OF rec(7) [OF assms(1,2)]])
        (use assms(4) 2(2) startOkD [OF assms(3)] in \<open>auto simp: servesTables_def takesParts_def\<close>)
  next
    case 3
    then show ?case using does_closeTableBody(1) [OF assms(1,2) closes] by simp
  next
    case 4
    show ?case by (rule does_bind [OF does_closeTableBody(2) [OF assms(1,2) closes]], erule restart_shut [OF assms(5)])
      (simp add: bodyModes_def partModes_def)
  next
    case 5
    show ?case by (rule start_inTable [OF assms(1) _ assms(3-5)]) (use assms(2) 5 in \<open>auto simp: fosterModes_def\<close>)
  qed
qed

lemma start_inRow:
  assumes "ready s" "m_insertionMode s = InRowMode" "startOk cfg token" "servesTables cfg rec" "restarts rec token s"
  shows "does (startTagInRow cfg rec token s) (steps s)"
  unfolding startTagInRow_def Let_def
proof (intro does_if, goal_cases)
  case 1
  show ?case by (rule does_mono [OF opensCell [OF assms(1,2) 1]]) (simp add: opensAs_def)
next
  case 2
  show ?case
    by (rule does_bind [OF does_closeTr [OF assms(1,2)]])
      (use restart_shut [OF assms(5)] in \<open>auto simp: bodyModes_def partModes_def shut_def\<close>)
next
  case 3
  show ?case by (rule start_inTable [OF assms(1) _ assms(3-5)]) (use assms(2) 3 in \<open>auto simp: fosterModes_def\<close>)
qed

lemma does_closeTheCell:
  assumes "ready s" "m_insertionMode s = InCellMode" "closesParts rec"
  shows "does (closeTheCell rec s) (shut s InRowMode)" "inTableScope (ustr ''td'') (openElements s) \<or> inTableScope (ustr ''th'') (openElements s)"
proof -
  obtain n where n: "n \<in> {''td'', ''th''}" "\<forall>m \<in> {''td'', ''th''}. inTableScope (ustr m) (openElements s) \<longleftrightarrow> m = n"
    and "inTableScope (ustr ''table'') (openElements s)" "inTableScope (ustr ''tr'') (openElements s)"
      "does (do { s \<leftarrow> onTree generateImpliedEndTags s; s \<leftarrow> onOpenElements (popUntilPopped (ustr n)) s;
        Some (setInsertionMode InRowMode (onFormattingElements clearToLastMarker s)) }) (shut s InRowMode)"
    using cellE [OF assms(1,2)] .
  have "inTableScope (ustr n) (openElements s)" using bspec [OF n(2) n(1)] by simp
  then have closed: "does (rec (ProcessEndTag (fakeEnd n)) s) (shut s InRowMode)"
    using assms(3) [unfolded closesParts_def, rule_format, OF assms(1)] assms(2) n(1) by auto
  then have asserted: "does (rec (ProcessEndTag (fakeEnd n)) s) (\<lambda>x. shut s InRowMode (ASSERT_builder (m_insertionMode x = InRowMode) x))"
    by (rule does_mono) (simp add: shut_def)
  then show "does (closeTheCell rec s) (shut s InRowMode)"
    using n assms(2) closed asserted by (auto simp: closeTheCell_def processFakeEndTag_def fakeEnd_def does_map)
  show "inTableScope (ustr ''td'') (openElements s) \<or> inTableScope (ustr ''th'') (openElements s)" using n by auto
qed

lemma start_inCell:
  assumes "ready s" "m_insertionMode s = InCellMode" "startOk cfg token" "servesTables cfg rec" "restarts rec token s"
  shows "does (startTagInCell cfg rec token s) (steps s)"
proof -
  have m: "m_insertionMode s \<in> bodyModes" using assms(2) by (simp add: bodyModes_def partModes_def)
  have closes: "closesParts rec" using assms(4) by (simp add: servesTables_def)
  show ?thesis unfolding startTagInCell_def Let_def
  proof (intro does_if, goal_cases)
    case 1
    then show ?case using does_closeTheCell(2) [OF assms(1,2) closes] by simp
  next
    case 2
    show ?case by (rule does_bind [OF does_closeTheCell(1) [OF assms(1,2) closes]], erule restart_shut [OF assms(5)])
      (simp add: bodyModes_def partModes_def)
  next
    case 3
    show ?case by (rule start_inBody [OF assms(1) m assms(3) servesTablesD(1) [OF assms(4)] assms(5)])
  qed
qed

end
