(* ===== verification/Spec2Isabelle.thy ===== *)
theory Spec2Isabelle
  imports HTMLTokenizerDocuments HTMLElementStackProperties HTMLFormattingElementList ContainerNode
    AtomicHTMLToken HTMLDocument HTMLParserIdioms HTMLConstructionSiteProperties HTMLTreeBuilderTableTags
begin

text \<open>
  The HTML parser of WebKit, as it is in this repository (a port to Windows CE): from the characters of
  the network to the document tree.  The code is \<^verbatim>\<open>WebCore/html/parser\<close> and what it uses of
  \<^verbatim>\<open>WebCore/platform/text\<close>, \<^verbatim>\<open>WebCore/dom\<close>, \<^verbatim>\<open>WebCore/html/HTMLDocument.cpp\<close> and
  \<^verbatim>\<open>JavaScriptCore/wtf/text\<close>, all under \<^verbatim>\<open>src/wincewebkit\<close>.

  The parts, in the order the data flows:
  \<^item> The input.  \<open>SegmentedString\<close> models \<open>SegmentedString\<close> and \<open>SegmentedSubstring\<close> (substrings, pushed-back
    characters, look-ahead); \<open>HTMLInputStream\<close> the current string and the insertion points of
    \<open>document.write\<close>.
  \<^item> Character references.  \<open>HTMLEntitySearch\<close> models the generator script of the entity table and the
    incremental binary search in it, \<open>HTMLEntityParser\<close> \<open>consumeHTMLEntity\<close>.  The names of the entities
    are data of a file the build generates: the table is a parameter under \<open>table_ok\<close>, which is proved
    of what the script generates.
  \<^item> The tokenizer.  \<open>HTMLToken\<close> is the raw token; \<open>HTMLTokenizer\<close> holds the state of the tokenizer and its
    macros as functions, \<open>HTMLTokenizerStates\<close> one \<open>step_\<close> function for each of the states, \<open>nextToken\<close> and the
    loop of the preload scanner.  A step ends in \<open>Continue\<close> or \<open>Return\<close>; the loop of \<open>nextToken\<close> is a
    \<open>partial_function\<close>, so not returning is the value \<open>None\<close>.
  \<^item> The elements.  \<open>HTMLElements\<close> (names and elements), \<open>AtomicHTMLToken\<close> (the tokens the tree builder
    gets, attribute maps), \<open>HTMLDocument\<close> (compatibility modes), \<open>HTMLParserIdioms\<close> (spaces and integers).
  \<^item> The document.  \<open>ContainerNode\<close> has the pointer updates of the parser's mutations,
    \<open>HTMLElementStack\<close> the stack of open elements, \<open>HTMLFormattingElementList\<close> the list of active formatting
    elements, \<open>HTMLConstructionSite\<close> the operations that insert nodes.
  \<^item> The tree builder.  \<open>HTMLTreeBuilderState\<close> has its state, \<open>HTMLTreeBuilder\<close> the insertion modes and
    foster parenting, \<open>HTMLTreeBuilderInBody\<close> and \<open>HTMLTreeBuilderInTable\<close> the handlers, and
    \<open>HTMLTreeBuilderProcess\<close> the dispatch \<open>process\<close> by kind of token and \<open>constructTreeFromAtomicToken\<close>.  Handlers call each other without
    bound (a tag is processed again after elements were closed); the dispatch takes fuel, and out of fuel is
    \<open>None\<close>.

  A pointer that may be null is an option and following it where it is null is the value \<open>None\<close>.  The
  \<open>ASSERT\<close>s of the debug build are ghost booleans (\<open>tokenizerAsserts\<close>, \<open>stackAsserts\<close>, \<open>domAsserts\<close> and so
  on) that stay true as long as every recorded assertion holds.  Not recorded are those that speak of what the model
  does not have or that their only calls test: that the caller passes the tokenizer one and the same token
  object (\<open>nextToken\<close>), the letter of \<open>toLowerCase\<close>, the exception code of \<open>adoptNode\<close>, the style sheets of the document in
  \<open>setCompatibilityMode\<close>, and the lengths in \<open>stripLeadingAndTrailingHTMLSpaces\<close>.  A \<open>UChar\<close> is a 16-bit word, a \<open>UChar32\<close> a 32-bit
  word (unsigned in this port); strings are lists of \<open>UChar\<close>s.  Positions in the source and line numbers, \<open>int\<close>s
  in the code, are unbounded: the model is that of a document of less than 2^31 characters.

  What the lemmas show:
  \<^item> \<open>HTMLTokenizerSource\<close>, \<open>HTMLTokenizerInvariant\<close>, \<open>HTMLTokenizerSteps\<close> and \<open>HTMLTokenizerRun\<close>: the
    invariant of the tokenizer and its potential, a measure of the characters left and of the rank of the
    state, which every step lowers; \<open>HTMLTokenizerSession\<close> closes this under all its clients do;
    \<open>HTMLTokenizerEnd\<close> follows the end-of-file marker, in builds with \<open>DIVIDE_PAGES\<close> up to the first \<open><p>\<close> tag;
    \<open>HTMLTokenizerOpen\<close> shows that a source that was not closed, or has lost its closed flag, yields no end-of-file
    token; \<open>HTMLTokenizerDocuments\<close> follows arbitrary documents that begin with text; \<open>HTMLTokenizerExamples\<close>
    are concrete documents.
  \<^item> \<open>HTMLElementScopes\<close>, \<open>HTMLElementStackContract\<close> and \<open>HTMLElementStackProperties\<close>: the stack's invariant, the
    contract of its clients (a list of calls, each allowed by the elements on the stack alone), the scopes, and the
    account of the calls to the elements, in which \<open>replaceElement\<close> leaves a difference.
  \<^item> \<open>ContainerNodeForest\<close>, \<open>HTMLConstructionSiteInvariant\<close>, \<open>HTMLConstructionSiteOperations\<close>,
    \<open>HTMLConstructionSiteClosing\<close> and \<open>HTMLConstructionSiteProperties\<close>: the links are those of a forest, the
    invariant \<open>site_ok\<close> of the construction site, and every operation of it.
  \<^item> \<open>HTMLAdoptionAgency\<close>: the adoption agency algorithm returns within its bounds (ten rounds; a round
    looks at every open element at most once) and keeps the invariant.
  \<^item> \<open>HTMLTreeBuilderModes\<close>: what the stack of open elements is in each insertion mode, and the relation
    \<open>quiet\<close> between stacks that keeps it so; \<open>HTMLTreeBuilderQuiet\<close> and \<open>HTMLTreeBuilderClosing\<close>: the operations of the
    construction site and the closing of elements as quiet steps; \<open>HTMLTreeBuilderReady\<close>: the invariant between
    two tokens.
  \<^item> \<open>HTMLTreeBuilderEndTags\<close>, \<open>HTMLTreeBuilderStartTags\<close>, \<open>HTMLTreeBuilderHeadTags\<close> and \<open>HTMLTreeBuilderBodyCalls\<close>: the tags of
    the body and of the head, and the calls they make for themselves; \<open>HTMLTreeBuilderTables\<close>,
    \<open>HTMLTreeBuilderTableTags\<close> and \<open>HTMLTreeBuilderTableText\<close>: the parts of a table, their start tags, and characters
    in a table.

  Not modelled: what is behind the parser's interface to the rest of the engine: script execution and its
  scheduling (\<open>HTMLScriptRunner\<close>, \<open>HTMLParserScheduler\<close>; what they do to the tokenizer is the relation
  \<open>session\<close>), the render tree, notifications of elements and mutation events, the XSS filter, resource requests of the
  preload scanner, and floating-point conversion (\<open>strtod\<close>).  All other subsystems (CSS, layout, script
  engine, network, the embedding layers and the libraries) are outside this development.
\<close>

section \<open>The tokenizer in every session\<close>

text \<open>C1: In every session of its clients the tokenizer returns from \<open>nextToken\<close>: none of the loops of
  the states, of the input preprocessor and of the character references runs for ever.\<close>

theorem nextToken_total:
  assumes "table_ok (entities cfg)" "session cfg tk rs"
  shows "\<exists>b tk'. nextToken cfg tk = Some (b, tk')"
  using nextToken_ok [OF conjunct1 [OF session_inv [OF assms]] assms(1)] by blast

lemma nextToken_total_witness:
  "\<exists>b tk'. nextToken exampleConfig (document DataState (ustr ''<a href=x>&amp;</a>'')) = Some (b, tk')"
  by (rule nextToken_total [OF exampleConfig_ok(1) session_document]) simp

text \<open>C2: No \<open>ASSERT\<close> of the tokenizer and of the token it fills in fails in any session, before a call
  and after it.\<close>

theorem asserts_hold:
  assumes "table_ok (entities cfg)" "session cfg tk rs" "nextToken cfg tk = Some (b, tk')"
  shows "tokenizerAsserts tk \<and> tokenAsserts (m_token tk) \<and> tokenizerAsserts tk' \<and> tokenAsserts (m_token tk')"
proof -
  have entry: "entry_inv cfg tk" using session_inv [OF assms(1,2)] by blast
  have asserts: "entry_inv cfg t \<Longrightarrow> tokenizerAsserts t \<and> tokenAsserts (m_token t)" for t
    by (auto simp: entry_inv_def lexer_inv_def waiting_end_tag_def token_inv_def)
  have "call_ok cfg (potential tk) b tk'" by (rule nextToken_call [OF entry assms(1,3)])
  then show ?thesis
    using asserts [OF entry] asserts [of tk'] asserts [of "cleared tk'"]
    by (cases b) (auto simp: call_ok_def token_complete_def)
qed

lemma asserts_hold_witness:
  "\<exists>b tk'. nextToken exampleConfig (document DataState (ustr ''<b>'')) = Some (b, tk')
     \<and> tokenizerAsserts tk' \<and> tokenAsserts (m_token tk')"
proof -
  obtain b tk' where r: "nextToken exampleConfig (document DataState (ustr ''<b>'')) = Some (b, tk')"
    using nextToken_ok [OF document_entry [OF contextStates_simps(1)] exampleConfig_ok(1)] by blast
  have "session exampleConfig (document DataState (ustr ''<b>'')) []"
    by (rule session_document) simp
  from asserts_hold [OF exampleConfig_ok(1) this r] r show ?thesis by blast
qed

text \<open>C3: A token is returned complete: it has a type, every attribute of a tag has the ranges of its
  name and of its value, a DOCTYPE has its data; after anything but text the tokenizer is in
  \<open>DataState\<close> with nothing pushed back.\<close>

theorem tokens_complete:
  assumes "table_ok (entities cfg)" "session cfg tk rs" "nextToken cfg tk = Some (True, tk')"
  shows "m_type (m_token tk') \<noteq> Uninitialized
    \<and> (m_type (m_token tk') \<in> {StartTag, EndTag} \<longrightarrow>
         (\<forall>a \<in> set (m_attributes (m_token tk')).
            0 < m_start (m_nameRange a) \<and> 0 < m_end (m_nameRange a)
            \<and> 0 < m_start (m_valueRange a) \<and> 0 < m_end (m_valueRange a)))
    \<and> (m_type (m_token tk') = DOCTYPE \<longrightarrow> m_doctypeData (m_token tk') \<noteq> None)
    \<and> (m_type (m_token tk') \<noteq> Character \<longrightarrow>
         m_state tk' = DataState \<and> pushedChars (m_source tk') = [])"
proof -
  have "entry_inv cfg tk" using session_inv [OF assms(1,2)] by blast
  then have "call_ok cfg (potential tk) True tk'" by (rule nextToken_call [OF _ assms(1,3)])
  then show ?thesis
    by (auto simp: call_ok_def token_complete_def list_all_iff attribute_complete_def)
qed

lemma tokens_complete_witness:
  "\<exists>tk'. nextToken exampleConfig (document DataState (ustr ''<b c>'')) = Some (True, tk')
     \<and> m_type (m_token tk') \<noteq> Uninitialized"
proof -
  have "map_option fst (nextToken exampleConfig (document DataState (ustr ''<b c>''))) = Some True"
    by (simp add: tokenizer_eval Let_def tag_eval
      step_BeforeAttributeNameState_def step_AttributeNameState_def startAttribute_def)
  then obtain tk' where r: "nextToken exampleConfig (document DataState (ustr ''<b c>'')) = Some (True, tk')"
    by auto
  have "session exampleConfig (document DataState (ustr ''<b c>'')) []"
    by (rule session_document) simp
  from tokens_complete [OF exampleConfig_ok(1) this r] r show ?thesis by blast
qed

text \<open>C4: \<open>nextToken\<close> returns false only where the source has run out, or in the middle of a character
  reference or of the look-aheads of a markup declaration, which may go on in the next chunk.\<close>

theorem nextToken_waits:
  assumes "table_ok (entities cfg)" "session cfg tk rs" "nextToken cfg tk = Some (False, tk')"
  shows "chars (m_source tk') = []
    \<or> m_state tk' \<in> {CharacterReferenceInDataState, CharacterReferenceInRCDATAState,
        CharacterReferenceInAttributeValueState, MarkupDeclarationOpenState, AfterDOCTYPENameState}"
proof -
  have "entry_inv cfg tk" using session_inv [OF assms(1,2)] by blast
  then have "call_ok cfg (potential tk) False tk'" by (rule nextToken_call [OF _ assms(1,3)])
  then show ?thesis by (auto simp: call_ok_def charRefStates_def)
qed

lemma nextToken_waits_witness:
  "\<exists>tk'. nextToken exampleConfig ((newTokenizer False)\<lparr>m_state := DataState\<rparr>) = Some (False, tk')
     \<and> (chars (m_source tk') = []
        \<or> m_state tk' \<in> {CharacterReferenceInDataState, CharacterReferenceInRCDATAState,
            CharacterReferenceInAttributeValueState, MarkupDeclarationOpenState, AfterDOCTYPENameState})"
proof -
  have "map_option fst (nextToken exampleConfig ((newTokenizer False)\<lparr>m_state := DataState\<rparr>)) = Some False"
    by (simp add: tokenizer_eval Let_def)
  then obtain tk' where r: "nextToken exampleConfig ((newTokenizer False)\<lparr>m_state := DataState\<rparr>) = Some (False, tk')"
    by auto
  have "session exampleConfig ((newTokenizer False)\<lparr>m_state := DataState\<rparr>) []"
    by (rule session.start) (simp add: contextStates_def)
  from nextToken_waits [OF exampleConfig_ok(1) this r] r show ?thesis by blast
qed

text \<open>C5: The scanner's loop ends: the number of tokens it sees is at most twenty for every character of
  the source and sixty more, and each of them is complete.\<close>

theorem scan_total:
  assumes "table_ok (entities cfg)" "session cfg tk rs"
  shows "\<exists>ts tk'. scan cfg plugins script tk = Some (ts, tk')
     \<and> length ts \<le> 20 * length (chars (m_source tk)) + 60 \<and> list_all token_complete ts"
proof -
  have "rank (m_state tk) \<le> 15" by (rule rank_le)
  then have "potential tk \<le> 20 * length (chars (m_source tk)) + 60" by (simp add: potential_def weight_def)
  then show ?thesis
    using scan_ok [OF conjunct1 [OF session_inv [OF assms]] assms(1), of plugins script] by fastforce
qed

lemma scan_total_witness:
  "\<exists>ts tk'. scan exampleConfig True True (document DataState (ustr ''<p>a&lt;b'')) = Some (ts, tk')"
  using scan_total [OF exampleConfig_ok(1) session_document [OF contextStates_simps(1)],
      where plugins = True and script = True] by blast

text \<open>C6: A document that was closed with the end-of-file marker is scanned to its end: the last token is
  the end of the file and nothing is left, unless the scan is caught in one of the look-aheads of a
  markup declaration (see C7) or, in a build with \<open>DIVIDE_PAGES\<close> (which both build files for Windows CE
  switch on), has seen a \<open><p>\<close> tag (see C8).  The case folding of the Unicode library is a parameter that takes
  no letter for NUL.\<close>

theorem scan_reaches_end:
  assumes "table_ok (entities cfg)" "\<forall>c. isLetter c \<longrightarrow> foldCase cfg c \<noteq> foldCase cfg 0"
    "session cfg tk rs" "m_closed (m_source tk)" "chars (m_source tk) \<noteq> []" "last (chars (m_source tk)) = 0"
  shows "\<exists>ts tk'. scan cfg plugins script tk = Some (ts, tk')
     \<and> ((ts \<noteq> [] \<and> m_type (last ts) = EndOfFile \<and> chars (m_source tk') = [])
        \<or> m_state tk' \<in> {MarkupDeclarationOpenState, AfterDOCTYPENameState}
        \<or> (DIVIDE_PAGES cfg \<and> (\<exists>t \<in> set ts. m_type t = StartTag \<and> m_data t \<in> {[ch_p], [ch_P]})))"
proof -
  have cfg: "end_config cfg" using assms(1,2) by (simp add: end_config_def foldCase_ok_def)
  have entry: "entry_inv cfg tk" using session_inv [OF assms(1,3)] by blast
  then have left: "end_left (m_source tk)"
    using assms(4-6) by (simp add: end_left_def entry_inv_def source_inv_def)
  obtain ts tk' where r: "scan cfg plugins script tk = Some (ts, tk')"
    using scan_ok [OF entry assms(1)] by blast
  then show ?thesis
    using scan_end [OF entry cfg left r] by (auto simp: scan_exit_def lookAheadStates_def isPageTag_def)
qed

lemma scan_reaches_end_witness:
  "\<exists>ts tk'. scan exampleConfig True True (document DataState (ustr ''<p>a&lt;b'')) = Some (ts, tk')"
proof -
  have "foldCase_ok exampleConfig" using exampleConfig_ok(2) by (simp add: end_config_def)
  then show ?thesis
    using scan_reaches_end [OF exampleConfig_ok(1) _ session_document [OF contextStates_simps(1)],
        where plugins = True and script = True] document_facts end_left_facts
    unfolding foldCase_ok_def by blast
qed

text \<open>C7: A document of text that ends inside a possible \<^verbatim>\<open><!doctype\<close> - after \<^verbatim>\<open><!d\<close> there are at most four more
  characters, whatever they are, even a \<^verbatim>\<open>>\<close> - never gets its end-of-file token: the look-ahead finds
  too few characters and asks for more although the source is closed, and does so again in the next call.\<close>

theorem end_lost_in_lookAhead:
  assumes "table_ok (entities cfg)" "set text \<inter> {0, ch_CR, ch_AMP, ch_LT} = {}" "d \<in> {ch_d, ch_D}" "length rest \<le> 4"
  shows "\<exists>ts tk' tk''. scan cfg plugins script (document DataState (text @ ustr ''<!'' @ d # rest)) = Some (ts, tk')
     \<and> EndOfFile \<notin> m_type ` set ts \<and> m_state tk' = MarkupDeclarationOpenState \<and> nextToken cfg tk' = Some (False, tk'')"
proof -
  have chars: "(text @ ustr ''<!'' @ d # rest) @ [0] = text @ ch_LT # ch_BANG # d # rest @ [0]"
      "ustr ''<!'' @ d # rest @ [0] = ch_LT # ch_BANG # d # rest @ [0]" by (simp_all add: ustr_def)
  have "plainText text" using assms(2) by (simp add: plainText_def)
  from scan_document [OF assms(1) this chars(1), of plugins script] obtain ts tk' ts1 tk1 where
    s: "scan cfg plugins script (document DataState (text @ ustr ''<!'' @ d # rest)) = Some (ts, tk')"
    and tk1: "scan cfg plugins script tk1 = Some (ts1, tk')" "at_chars tk1 (ch_LT # ch_BANG # d # rest @ [0])"
      "m_state tk1 = DataState" "m_type (m_token tk1) = Uninitialized \<and> m_data (m_token tk1) = []"
      "EndOfFile \<in> m_type ` set ts \<longleftrightarrow> EndOfFile \<in> m_type ` set ts1" .
  obtain tk2 tk3 where "nextToken cfg tk1 = Some (False, tk2)" "m_state tk2 = MarkupDeclarationOpenState"
      "nextToken cfg tk2 = Some (False, tk3)"
    using nextToken_declaration [of tk1 d "rest @ [0]"] tk1(2-4) assms(3,4) chars(2) by auto
  moreover from this have "ts1 = []" "tk' = tk2" using tk1(1) by (subst (asm) scan.simps; simp)+
  ultimately show ?thesis using s tk1(5) by auto
qed

lemma end_lost_in_lookAhead_witness:
  "\<exists>ts tk'. scan exampleConfig False False (document DataState (ustr ''Hi'' @ ustr ''<!'' @ ch_d # ustr ''oc>'')) = Some (ts, tk')
     \<and> EndOfFile \<notin> m_type ` set ts"
  using end_lost_in_lookAhead [OF exampleConfig_ok(1), of "ustr ''Hi''" ch_d "ustr ''oc>''" False False] by (auto simp: ustr_def)

text \<open>C8: With \<open>DIVIDE_PAGES\<close> a \<^verbatim>\<open><p>\<close> tag makes the source forget that it was closed: whatever text is before
  the tag and whatever follows it, the document is scanned without an end-of-file token.\<close>

theorem end_lost_in_dividePages:
  assumes "table_ok (entities cfg)" "DIVIDE_PAGES cfg" "set text \<inter> {0, ch_CR, ch_AMP, ch_LT} = {}"
  shows "\<exists>ts tk'. scan cfg plugins script (document DataState (text @ ustr ''<p>'' @ rest)) = Some (ts, tk')
     \<and> EndOfFile \<notin> m_type ` set ts \<and> \<not> m_closed (m_source tk')"
proof -
  have chars: "(text @ ustr ''<p>'' @ rest) @ [0] = text @ ch_LT # ch_p # ch_GT # rest @ [0]"
      "ustr ''<p>'' @ rest @ [0] = ch_LT # ch_p # ch_GT # rest @ [0]" by (simp_all add: ustr_def)
  have "plainText text" using assms(3) by (simp add: plainText_def)
  from scan_document [OF assms(1) this chars(1), of plugins script] obtain ts tk' ts1 tk1 where
    s: "scan cfg plugins script (document DataState (text @ ustr ''<p>'' @ rest)) = Some (ts, tk')"
    and tk1: "scan cfg plugins script tk1 = Some (ts1, tk')" "at_chars tk1 (ch_LT # ch_p # ch_GT # rest @ [0])"
      "m_state tk1 = DataState" "m_type (m_token tk1) = Uninitialized \<and> m_data (m_token tk1) = []" "entry_inv cfg tk1"
      "EndOfFile \<in> m_type ` set ts \<longleftrightarrow> EndOfFile \<in> m_type ` set ts1" .
  obtain tk2 where "nextToken cfg tk1 = Some (True, tk2)" "divided cfg tk2"
    using nextToken_pageTag [of tk1 "rest @ [0]" cfg] tk1(2-4) assms(2) chars(2) by auto
  then show ?thesis using scan_divided [OF tk1(5) assms(1) tk1(1)] s tk1(6) by auto
qed

lemma end_lost_in_dividePages_witness:
  "\<exists>ts tk'. scan (exampleConfig\<lparr>DIVIDE_PAGES := True\<rparr>) False False (document DataState (ustr ''Hi'' @ ustr ''<p>'' @ ustr ''there''))
     = Some (ts, tk') \<and> EndOfFile \<notin> m_type ` set ts"
  using end_lost_in_dividePages [of "exampleConfig\<lparr>DIVIDE_PAGES := True\<rparr>" "ustr ''Hi''" False False "ustr ''there''"]
    exampleConfig_ok(1) by (auto simp: ustr_def)

end
